(* ===== verification/JOS_Prelude.thy ===== *)
theory JOS_Prelude
  imports Main "HOL-Library.Word"
begin

unbundle bit_operations_syntax

text \<open>
  Shared vocabulary of the development.

  \<^item> Machine integers: C's \<^verbatim>\<open>uint8_t\<close>, \<^verbatim>\<open>uint16_t\<close> and
    \<^verbatim>\<open>uint32_t\<close> are words of that width, so every addition wraps as on the x86.
    Pointers and addresses are 32-bit words. Where C reads a value as signed
    (\<^verbatim>\<open>int32_t\<close>, \<^verbatim>\<open>envid_t\<close>, \<^verbatim>\<open>off_t\<close>) the model says so
    with \<open>sint\<close>.
  \<^item> \<open>outcome\<close>: what a kernel or server function does. It returns a value and the new
    state, it panics, or it never returns to its caller because control has left for a user
    environment, for the idle loop, for the kernel monitor, or waits for the kernel lock.
  \<^item> The sequencing combinator \<open>kbind\<close> and its rules, collected in \<open>outcome_simps\<close>.
  \<^item> Generic facts on words, lists and linked lists that several components use.
\<close>

type_synonym u8 = "8 word"
type_synonym u16 = "16 word"
type_synonym u32 = "32 word"
type_synonym u64 = "64 word"

named_theorems outcome_simps \<open>unfolding of sequenced kernel operations\<close>
named_theorems unat_simps \<open>unsigned value of the address macros\<close>

section \<open>Outcomes and sequencing\<close>

datatype leave = To_User nat | Halted | Monitor | Spinning

datatype ('s, 'a) outcome = Ret 'a 's | Panic string | Gone leave 's

type_synonym ('s, 'a) op = "'s \<Rightarrow> ('s, 'a) outcome"

definition kret :: "'a \<Rightarrow> ('s, 'a) op" where
  "kret a s = Ret a s"

definition kpanic :: "string \<Rightarrow> ('s, 'a) op" where
  "kpanic msg s = Panic msg"

definition kmod :: "('s \<Rightarrow> 's) \<Rightarrow> ('s, unit) op" where
  "kmod f s = Ret () (f s)"

definition kget :: "('s \<Rightarrow> 'a) \<Rightarrow> ('s, 'a) op" where
  "kget f s = Ret (f s) s"

definition kbind :: "('s, 'a) op \<Rightarrow> ('a \<Rightarrow> ('s, 'b) op) \<Rightarrow> ('s, 'b) op" where
  "kbind m f s = (case m s of Ret a s' \<Rightarrow> f a s' | Panic msg \<Rightarrow> Panic msg | Gone l s' \<Rightarrow> Gone l s')"

definition kthen :: "('s, 'a) op \<Rightarrow> ('s, 'b) op \<Rightarrow> ('s, 'b) op" where
  "kthen m n = kbind m (\<lambda>_. n)"

text \<open>C's \<^verbatim>\<open>assert(c)\<close>: continue when the condition holds, panic otherwise.\<close>

definition kassert :: "bool \<Rightarrow> ('s, unit) op" where
  "kassert c s = (if c then Ret () s else Panic ''assertion failed'')"

text \<open>A counted loop: the body for every element of the list in turn.\<close>

fun kfor :: "'i list \<Rightarrow> ('i \<Rightarrow> ('s, unit) op) \<Rightarrow> ('s, unit) op" where
  "kfor [] body = kret ()"
| "kfor (i # is) body = kthen (body i) (kfor is body)"

lemma kret_apply [simp, outcome_simps]: "kret a s = Ret a s"
  by (simp add: kret_def)

lemma kpanic_apply [simp, outcome_simps]: "kpanic msg s = Panic msg"
  by (simp add: kpanic_def)

lemma kmod_apply [simp, outcome_simps]: "kmod f s = Ret () (f s)"
  by (simp add: kmod_def)

lemma kget_apply [simp, outcome_simps]: "kget f s = Ret (f s) s"
  by (simp add: kget_def)

lemma kassert_apply [simp, outcome_simps]:
  "kassert c s = (if c then Ret () s else Panic ''assertion failed'')"
  by (simp add: kassert_def)

lemma kthen_apply [outcome_simps]: "kthen m n s = kbind m (\<lambda>_. n) s"
  by (simp add: kthen_def)

lemma kbind_Ret [simp]: "m s = Ret a s' \<Longrightarrow> kbind m f s = f a s'"
  by (simp add: kbind_def)

lemma kbind_Panic [simp]: "m s = Panic msg \<Longrightarrow> kbind m f s = Panic msg"
  by (simp add: kbind_def)

lemma kbind_Gone [simp]: "m s = Gone l s' \<Longrightarrow> kbind m f s = Gone l s'"
  by (simp add: kbind_def)

lemma kthen_Ret [simp]: "m s = Ret a s' \<Longrightarrow> kthen m n s = n s'"
  by (simp add: kthen_def)

lemma kbind_eq_Ret: "kbind m f s = Ret b t \<longleftrightarrow> (\<exists>a s'. m s = Ret a s' \<and> f a s' = Ret b t)"
  by (auto simp: kbind_def split: outcome.splits)

lemma kbind_eq_RetE:
  assumes "kbind m f s = Ret b t"
  obtains a s' where "m s = Ret a s'" and "f a s' = Ret b t"
  using assms by (auto simp: kbind_eq_Ret)

lemma kthen_eq_RetE:
  assumes "kthen m n s = Ret b t"
  obtains a s' where "m s = Ret a s'" and "n s' = Ret b t"
  using assms by (auto simp: kthen_def kbind_eq_Ret)

text \<open>A loop whose body always returns and keeps an invariant that depends on the position.\<close>

lemma kfor_upt_invariant:
  assumes "a \<le> b" and "P a s"
    and "\<And>i s. a \<le> i \<Longrightarrow> i < b \<Longrightarrow> P i s \<Longrightarrow> \<exists>s'. body i s = Ret () s' \<and> P (Suc i) s'"
  shows "\<exists>s'. kfor [a..<b] body s = Ret () s' \<and> P b s'"
  using assms
proof (induction "b - a" arbitrary: a s)
  case 0
  then show ?case by simp
next
  case (Suc n)
  then have ab: "a < b" by simp
  obtain s1 where s1: "body a s = Ret () s1" "P (Suc a) s1"
    using Suc.prems(2,3) ab by blast
  have "\<exists>s'. kfor [Suc a..<b] body s1 = Ret () s' \<and> P b s'"
    using Suc.hyps(2) Suc.prems(3) ab s1(2) by (intro Suc.hyps(1)) auto
  then show ?case
    using s1(1) ab by (simp add: upt_conv_Cons)
qed

declare kfor.simps [simp del]

text \<open>The state an operation leaves behind, whether or not it returns.\<close>

fun final_state :: "('s, 'a) outcome \<Rightarrow> 's option" where
  "final_state (Ret a s) = Some s"
| "final_state (Panic msg) = None"
| "final_state (Gone l s) = Some s"

section \<open>Ring buffers\<close>

lemma ring_mod: "a < 2 * n \<Longrightarrow> a mod n = (if a < n then a else a - n)" for a n :: nat
  by (simp add: mod_if)

lemma ring_inj:
  "(r + j) mod n = (r + k) mod n \<Longrightarrow> r < n \<Longrightarrow> j < n \<Longrightarrow> k < n \<Longrightarrow> j = k" for r j k n :: nat
  by (simp add: ring_mod split: if_splits)

section \<open>Words\<close>

lemma unat_lt32: "unat (w :: u32) < 4294967296"
  using unsigned_less [of w] by simp

lemma unat_lt16: "unat (w :: u16) < 65536"
  using unsigned_less [of w] by simp

lemma unat_lt8: "unat (w :: u8) < 256"
  using unsigned_less [of w] by simp

lemma unat_and_mask: "unat (w AND mask n :: 'a::len word) = unat w mod 2 ^ n"
  by (metis take_bit_eq_mask unsigned_take_bit_eq take_bit_eq_mod)

lemma unat_and_not_mask: "unat (w AND NOT (mask n) :: 'a::len word) = unat w - unat w mod 2 ^ n"
proof -
  have "(w AND NOT (mask n)) + (w AND mask n) = (w AND NOT (mask n)) OR (w AND mask n)"
    by (rule disjunctive_add_eq_or) (simp add: bit_eq_iff bit_simps)
  also have "\<dots> = w"
    by (rule bit_eqI) (auto simp: bit_simps)
  finally have "w AND NOT (mask n) = w - (w AND mask n)"
    by (metis add_diff_cancel_right')
  moreover have "w AND mask n \<le> w"
    by (rule word_and_le2)
  ultimately show ?thesis
    by (simp add: unat_sub unat_and_mask)
qed

lemma unat_of_nat32: "n < 4294967296 \<Longrightarrow> unat (of_nat n :: u32) = n"
  by (simp add: unat_of_nat take_bit_nat_eq_self)

lemma mask_10: "(0x3FF :: u32) = mask 10"
  by (simp add: mask_eq_exp_minus_1)

lemma mask_12: "(0xFFF :: u32) = mask 12"
  by (simp add: mask_eq_exp_minus_1)

lemma word_eq_unatI: "unat a = unat b \<Longrightarrow> a = b"
  by (simp add: word_unat_eq_iff)

lemma unat_add_lt32: "unat a + unat b < 4294967296 \<Longrightarrow> unat (a + b :: u32) = unat a + unat b"
  by (simp add: unat_word_ariths)

lemma word_and_eq_0_bits: "(w AND v = 0) \<longleftrightarrow> (\<forall>n. \<not> (bit w n \<and> bit v n))" for w v :: "'a::len word"
  by (auto simp: bit_eq_iff bit_simps dest: bit_imp_le_length)

end
