(* ===== verification/Layout.thy ===== *)
theory Layout
  imports JOS_Prelude
begin

text \<open>
  The address arithmetic every other theory rests on: the rounding macros of
  \<^verbatim>\<open>inc/types.h\<close>, the paging macros and flag bits of \<^verbatim>\<open>inc/mmu.h\<close>,
  the address map of \<^verbatim>\<open>inc/memlayout.h\<close> and the error numbers of
  \<^verbatim>\<open>inc/error.h\<close>. The lemmas give the unsigned value of each macro, show that a
  linear address is taken apart and put back together without loss, and bound the two
  rounding macros, including the wrap-around of \<open>ROUNDUP\<close> at the top of the address space.
\<close>

section \<open>Constants\<close>

abbreviation (input) "PGSIZE \<equiv> 0x1000 :: u32"
abbreviation (input) "PTSIZE \<equiv> 0x400000 :: u32"
abbreviation (input) "KERNBASE \<equiv> 0xF0000000 :: u32"
abbreviation (input) "IOPHYSMEM \<equiv> 0x0A0000 :: u32"
abbreviation (input) "EXTPHYSMEM \<equiv> 0x100000 :: u32"
abbreviation (input) "KSTACKTOP \<equiv> KERNBASE"
abbreviation (input) "KSTKSIZE \<equiv> 0x8000 :: u32"
abbreviation (input) "KSTKGAP \<equiv> 0x8000 :: u32"
abbreviation (input) "MMIOLIM \<equiv> 0xEFC00000 :: u32"
abbreviation (input) "MMIOBASE \<equiv> 0xEF800000 :: u32"
abbreviation (input) "ULIM \<equiv> 0xEF800000 :: u32"
abbreviation (input) "UVPT \<equiv> 0xEF400000 :: u32"
abbreviation (input) "UPAGES \<equiv> 0xEF000000 :: u32"
abbreviation (input) "UENVS \<equiv> 0xEEC00000 :: u32"
abbreviation (input) "UTOP \<equiv> 0xEEC00000 :: u32"
abbreviation (input) "UXSTACKTOP \<equiv> 0xEEC00000 :: u32"
abbreviation (input) "USTACKTOP \<equiv> 0xEEBFE000 :: u32"
abbreviation (input) "UTEMP \<equiv> 0x400000 :: u32"
abbreviation (input) "PFTEMP \<equiv> 0x7FF000 :: u32"
abbreviation (input) "MPENTRY_PADDR \<equiv> 0x7000 :: u32"

abbreviation (input) "PTE_P \<equiv> 0x001 :: u32"
abbreviation (input) "PTE_W \<equiv> 0x002 :: u32"
abbreviation (input) "PTE_U \<equiv> 0x004 :: u32"
abbreviation (input) "PTE_PWT \<equiv> 0x008 :: u32"
abbreviation (input) "PTE_PCD \<equiv> 0x010 :: u32"
abbreviation (input) "PTE_D \<equiv> 0x040 :: u32"
abbreviation (input) "PTE_SHARE \<equiv> 0x400 :: u32"
abbreviation (input) "PTE_COW \<equiv> 0x800 :: u32"
abbreviation (input) "PTE_AVAIL \<equiv> 0xE00 :: u32"
abbreviation (input) "PTE_SYSCALL \<equiv> 0xE07 :: u32"

text \<open>Error numbers: a function that fails returns the negated number.\<close>

abbreviation (input) "E_UNSPECIFIED \<equiv> 1 :: int"
abbreviation (input) "E_BAD_ENV \<equiv> 2 :: int"
abbreviation (input) "E_INVAL \<equiv> 3 :: int"
abbreviation (input) "E_NO_MEM \<equiv> 4 :: int"
abbreviation (input) "E_NO_FREE_ENV \<equiv> 5 :: int"
abbreviation (input) "E_FAULT \<equiv> 6 :: int"
abbreviation (input) "E_IPC_NOT_RECV \<equiv> 7 :: int"
abbreviation (input) "E_EOF \<equiv> 8 :: int"
abbreviation (input) "E_NO_DISK \<equiv> 9 :: int"
abbreviation (input) "E_MAX_OPEN \<equiv> 10 :: int"
abbreviation (input) "E_NOT_FOUND \<equiv> 11 :: int"
abbreviation (input) "E_BAD_PATH \<equiv> 12 :: int"
abbreviation (input) "E_FILE_EXISTS \<equiv> 13 :: int"
abbreviation (input) "E_NOT_EXEC \<equiv> 14 :: int"
abbreviation (input) "E_NOT_SUPP \<equiv> 15 :: int"
abbreviation (input) "MAXERROR \<equiv> 16 :: int"

section \<open>Macros\<close>

definition PGNUM :: "u32 \<Rightarrow> u32" where
  "PGNUM la = drop_bit 12 la"

definition PDX :: "u32 \<Rightarrow> u32" where
  "PDX la = drop_bit 22 la AND 0x3FF"

definition PTX :: "u32 \<Rightarrow> u32" where
  "PTX la = drop_bit 12 la AND 0x3FF"

definition PGOFF :: "u32 \<Rightarrow> u32" where
  "PGOFF la = la AND 0xFFF"

definition PGADDR :: "u32 \<Rightarrow> u32 \<Rightarrow> u32 \<Rightarrow> u32" where
  "PGADDR d t off = push_bit 22 d OR push_bit 12 t OR off"

definition PTE_ADDR :: "u32 \<Rightarrow> u32" where
  "PTE_ADDR pte = pte AND NOT 0xFFF"

definition ROUNDDOWN :: "u32 \<Rightarrow> u32 \<Rightarrow> u32" where
  "ROUNDDOWN a n = a - a mod n"

definition ROUNDUP :: "u32 \<Rightarrow> u32 \<Rightarrow> u32" where
  "ROUNDUP a n = ROUNDDOWN (a + n - 1) n"

section \<open>Unsigned values of the macros\<close>

lemma unat_PGNUM [unat_simps]: "unat (PGNUM la) = unat la div 4096"
  by (simp add: PGNUM_def unat_drop_bit_eq drop_bit_eq_div unat_div)

lemma unat_PTX [unat_simps]: "unat (PTX la) = unat la div 4096 mod 1024"
  by (simp add: PTX_def mask_10 unat_and_mask unat_drop_bit_eq drop_bit_eq_div unat_div)

lemma unat_PGOFF [unat_simps]: "unat (PGOFF la) = unat la mod 4096"
  by (simp add: PGOFF_def mask_12 unat_and_mask)

lemma unat_PDX [unat_simps]: "unat (PDX la) = unat la div 4194304"
proof -
  have "unat la div 4194304 < 1024"
    using unat_lt32 [of la] by (simp add: less_mult_imp_div_less)
  then show ?thesis
    by (simp add: PDX_def mask_10 unat_and_mask unat_drop_bit_eq drop_bit_eq_div unat_div)
qed

lemma unat_PTE_ADDR [unat_simps]: "unat (PTE_ADDR pte) = unat pte - unat pte mod 4096"
  by (simp add: PTE_ADDR_def mask_12 unat_and_not_mask)

lemma unat_PDX_less [simp]: "unat (PDX la) < 1024"
  using unat_lt32 [of la] by (simp add: unat_PDX less_mult_imp_div_less)

lemma unat_PTX_less [simp]: "unat (PTX la) < 1024"
  by (simp add: unat_PTX)

lemma unat_PGNUM_less [simp]: "unat (PGNUM la) < 1048576"
  using unat_lt32 [of la] by (simp add: unat_PGNUM less_mult_imp_div_less)

text \<open>Two addresses lie in the same page exactly when both table indices agree.\<close>

lemma PGNUM_eq_iff: "PGNUM a = PGNUM b \<longleftrightarrow> PDX a = PDX b \<and> PTX a = PTX b"
proof -
  have "x div 4194304 = x div 4096 div 1024" for x :: nat
    by (simp add: div_mult2_eq [symmetric])
  moreover have "x div 4096 = x div 4096 div 1024 * 1024 + x div 4096 mod 1024" for x :: nat
    by simp
  ultimately show ?thesis
    unfolding word_unat_eq_iff unat_PGNUM unat_PDX unat_PTX by metis
qed

lemma PTE_ADDR_idem [simp]: "PTE_ADDR (PTE_ADDR x) = PTE_ADDR x"
  unfolding PTE_ADDR_def by (simp add: and.assoc)

lemma unat_ROUNDDOWN [unat_simps]: "unat (ROUNDDOWN a n) = unat a - unat a mod unat n"
proof -
  have "a mod n \<le> a"
    by (simp add: word_le_nat_alt unat_mod)
  then show ?thesis
    by (simp add: ROUNDDOWN_def unat_sub unat_mod)
qed

lemma ROUNDDOWN_le: "ROUNDDOWN a n \<le> a"
  by (simp add: word_le_nat_alt unat_ROUNDDOWN)

lemma ROUNDDOWN_PGSIZE: "ROUNDDOWN a PGSIZE = PTE_ADDR a"
  by (rule word_eq_unatI) (simp add: unat_ROUNDDOWN unat_PTE_ADDR)

lemma PGADDR_split: "PGADDR (PDX la) (PTX la) (PGOFF la) = la"
  unfolding PGADDR_def PDX_def PTX_def PGOFF_def mask_10 mask_12
proof (rule bit_eqI, goal_cases)
  case (1 n)
  then show ?case
    by (cases "n < 12"; cases "n < 22") (auto simp: bit_simps)
qed

lemma bit_lt_2p:
  assumes "unat (w :: u32) < 2 ^ k" and "bit w n"
  shows "n < k"
proof -
  have "unat (take_bit k w) = unat w"
    using assms(1) by (simp add: unsigned_take_bit_eq take_bit_nat_eq_self)
  then have "take_bit k w = w"
    by (rule word_eq_unatI)
  with assms(2) have "bit (take_bit k w) n"
    by simp
  then show ?thesis
    by (simp add: bit_take_bit_iff)
qed

lemma PGADDR_parts:
  assumes "unat d < 1024" and "unat t < 1024" and "unat off < 4096"
  shows "PDX (PGADDR d t off) = d" and "PTX (PGADDR d t off) = t"
    and "PGOFF (PGADDR d t off) = off"
proof -
  have d: "bit d n \<Longrightarrow> n < 10" and t: "bit t n \<Longrightarrow> n < 10" and off: "bit off n \<Longrightarrow> n < 12" for n
    using assms bit_lt_2p [of d 10] bit_lt_2p [of t 10] bit_lt_2p [of off 12] by simp_all
  note defs = PGADDR_def PDX_def PTX_def PGOFF_def mask_10 mask_12
  show "PDX (PGADDR d t off) = d"
    unfolding defs by (rule bit_eqI) (auto simp: bit_simps dest: d t off)
  show "PTX (PGADDR d t off) = t"
    unfolding defs by (rule bit_eqI) (auto simp: bit_simps dest: d t off)
  show "PGOFF (PGADDR d t off) = off"
    unfolding defs by (rule bit_eqI) (auto simp: bit_simps dest: d t off)
qed

lemma unat_ROUNDUP_PGSIZE [unat_simps]:
  "unat (ROUNDUP a PGSIZE) =
     (if unat a \<le> 4294963200 then (unat a + 4095) div 4096 * 4096 else 0)"
proof (cases "unat a \<le> 4294963200")
  case True
  then have "unat (a + PGSIZE - 1) = unat a + 4095"
    using unat_add_lt32 [of "0xFFF" a] by simp
  then show ?thesis
    using True by (simp add: ROUNDUP_def unat_ROUNDDOWN minus_mod_eq_div_mult)
next
  case False
  have "unat (a + PGSIZE - 1) = (4095 + unat a) mod 4294967296"
    by (simp add: unat_word_ariths)
  also have "\<dots> = unat a + 4095 - 4294967296"
    using False unat_lt32 [of a] by (simp add: mod_if)
  finally show ?thesis
    using False unat_lt32 [of a] by (simp add: ROUNDUP_def unat_ROUNDDOWN)
qed

end
