(* ===== verification/Phys_Mem.thy ===== *)
theory Phys_Mem
  imports Layout
begin

text \<open>
  Physical memory as the kernel sees it: a byte store indexed by physical address, with the
  32-bit little-endian loads and stores a \<^verbatim>\<open>pte_t *\<close> dereference makes and the
  block fills of \<^verbatim>\<open>memset\<close>. The interface \<open>word_store\<close> states what the page-table
  code relies on (a store is seen by the next load of that word and by no other); the byte
  memory is an interpretation of it. The client lemma of the interface describes a loop that
  fills a run of consecutive words, as \<^verbatim>\<open>env_setup_vm\<close> does.
\<close>

type_synonym bytes = "nat \<Rightarrow> u8"

definition load32 :: "bytes \<Rightarrow> nat \<Rightarrow> u32" where
  "load32 m a = ucast (m a) OR push_bit 8 (ucast (m (a + 1)))
     OR push_bit 16 (ucast (m (a + 2))) OR push_bit 24 (ucast (m (a + 3)))"

definition store32 :: "bytes \<Rightarrow> nat \<Rightarrow> u32 \<Rightarrow> bytes" where
  "store32 m a v = m(a := ucast v, a + 1 := ucast (drop_bit 8 v),
     a + 2 := ucast (drop_bit 16 v), a + 3 := ucast (drop_bit 24 v))"

definition mem_fill :: "bytes \<Rightarrow> nat \<Rightarrow> nat \<Rightarrow> u8 \<Rightarrow> bytes" where
  "mem_fill m a n c = (\<lambda>i. if a \<le> i \<and> i < a + n then c else m i)"

section \<open>Loads after stores\<close>

lemma word32_of_bytes:
  "ucast (ucast v :: u8) OR push_bit 8 (ucast (ucast (drop_bit 8 v) :: u8))
     OR push_bit 16 (ucast (ucast (drop_bit 16 v) :: u8))
     OR push_bit 24 (ucast (ucast (drop_bit 24 v) :: u8)) = (v :: u32)"
proof (rule bit_eqI, goal_cases)
  case (1 n)
  consider "n < 8" | "8 \<le> n \<and> n < 16" | "16 \<le> n \<and> n < 24" | "24 \<le> n \<and> n < 32"
    using 1 by fastforce
  then show ?case
    by cases (auto simp: bit_simps)
qed

lemma load32_store32_same [simp]: "load32 (store32 m a v) a = v"
  by (simp add: load32_def store32_def word32_of_bytes)

lemma load32_store32_other [simp]:
  "a + 4 \<le> b \<or> b + 4 \<le> a \<Longrightarrow> load32 (store32 m a v) b = load32 m b"
  by (auto simp: load32_def store32_def)

lemma load32_mem_fill_zero:
  "a \<le> b \<Longrightarrow> b + 4 \<le> a + n \<Longrightarrow> load32 (mem_fill m a n 0) b = 0"
  by (simp add: load32_def mem_fill_def)

lemma load32_mem_fill_other:
  "b + 4 \<le> a \<or> a + n \<le> b \<Longrightarrow> load32 (mem_fill m a n c) b = load32 m b"
  by (auto simp: load32_def mem_fill_def)

lemma store32_outside: "i < a \<or> a + 4 \<le> i \<Longrightarrow> store32 m a v i = m i"
  by (auto simp: store32_def)

section \<open>The interface of a word store\<close>

text \<open>Words are numbered: word \<open>k\<close> lives at byte \<open>4 * k\<close>.\<close>

locale word_store =
  fixes ld :: "'m \<Rightarrow> nat \<Rightarrow> 'v"
    and st :: "'m \<Rightarrow> nat \<Rightarrow> 'v \<Rightarrow> 'm"
  assumes ld_st: "ld (st m k v) j = (if j = k then v else ld m j)"
begin

text \<open>
  A loop \<open>for (i = lo; i < hi; i++) t[i] = f(i)\<close> over the words from \<open>base\<close> on:
  afterwards the words of the run hold the new values and every other word is unchanged.
\<close>

lemma ld_fold_st:
  assumes "distinct ks"
  shows "ld (fold (\<lambda>k m. st m k (f k)) ks m) j = (if j \<in> set ks then f j else ld m j)"
  using assms
proof (induction ks arbitrary: m)
  case Nil
  then show ?case by simp
next
  case (Cons k ks)
  then show ?case by (auto simp: ld_st)
qed

lemma ld_fold_st_upt:
  "ld (fold (\<lambda>i m. st m (base + i) (f i)) [lo..<hi] m) j =
     (if base + lo \<le> j \<and> j < base + hi then f (j - base) else ld m j)"
proof (induction hi)
  case 0
  then show ?case by auto
next
  case (Suc hi)
  then show ?case
    by (cases "lo \<le> hi") (auto simp: ld_st not_le)
qed

end

interpretation wmem: word_store "\<lambda>m k. load32 m (4 * k)" "\<lambda>m k v. store32 m (4 * k) v"
proof
  fix m :: bytes and k j :: nat and v :: u32
  show "load32 (store32 m (4 * k) v) (4 * j) = (if j = k then v else load32 m (4 * j))"
    by (cases j k rule: linorder_cases) auto
qed

end
