(* ===== verification/Resource_Pool.thy ===== *)
theory Resource_Pool
  imports JOS_Prelude
begin

text \<open>
  Two interfaces that several components of the system provide.

  \<^item> \<open>resource_pool\<close>: a pool of interchangeable resources. The physical page allocator
    (\<^verbatim>\<open>page_alloc\<close>/\<^verbatim>\<open>page_free\<close>), the environment table
    (\<^verbatim>\<open>env_free_list\<close>) and the disk block bitmap (\<^verbatim>\<open>alloc_block\<close>/
    \<^verbatim>\<open>free_block\<close>) all promise that an allocation hands out an available resource
    and removes just that one, that it fails only when none is left, and that a release gives
    the resource back.
  \<^item> \<open>byte_fifo\<close>: a bounded first-in first-out buffer, provided by the pipe buffer of
    \<^verbatim>\<open>lib/pipe.c\<close> and by the console input buffer of \<^verbatim>\<open>kern/console.c\<close>.

  The clients' lemmas (a run of allocations yields pairwise distinct resources and succeeds
  exactly as often as there are resources; bytes come out in the order they went in) are
  proved here once.
\<close>

locale resource_pool =
  fixes inv :: "'s \<Rightarrow> bool"
    and avail :: "'s \<Rightarrow> 'r set"
    and alloc :: "'s \<Rightarrow> ('r \<times> 's) option"
    and held :: "'r \<Rightarrow> 's \<Rightarrow> bool"
    and release :: "'r \<Rightarrow> 's \<Rightarrow> 's"
  assumes avail_finite: "inv s \<Longrightarrow> finite (avail s)"
    and alloc_None: "inv s \<Longrightarrow> alloc s = None \<longleftrightarrow> avail s = {}"
    and alloc_Some: "inv s \<Longrightarrow> alloc s = Some (r, s') \<Longrightarrow>
          inv s' \<and> r \<in> avail s \<and> avail s' = avail s - {r}"
    and held_not_avail: "inv s \<Longrightarrow> held r s \<Longrightarrow> r \<notin> avail s"
    and release_inv: "inv s \<Longrightarrow> held r s \<Longrightarrow> inv (release r s)"
    and release_avail: "inv s \<Longrightarrow> held r s \<Longrightarrow> avail (release r s) = insert r (avail s)"
begin

text \<open>A client that allocates \<open>n\<close> times in a row and gives up at the first failure.\<close>

primrec alloc_n :: "nat \<Rightarrow> 's \<Rightarrow> ('r list \<times> 's) option" where
  "alloc_n 0 s = Some ([], s)"
| "alloc_n (Suc n) s = (case alloc s of None \<Rightarrow> None
     | Some (r, s') \<Rightarrow> (case alloc_n n s' of None \<Rightarrow> None | Some (rs, t) \<Rightarrow> Some (r # rs, t)))"

lemma alloc_n_sound:
  "inv s \<Longrightarrow> alloc_n n s = Some (rs, t) \<Longrightarrow>
     inv t \<and> length rs = n \<and> distinct rs \<and> set rs \<subseteq> avail s \<and> avail t = avail s - set rs"
proof (induction n arbitrary: s rs)
  case 0
  then show ?case by simp
next
  case (Suc n)
  from Suc.prems(2) obtain r s' rs' where *: "alloc s = Some (r, s')" "alloc_n n s' = Some (rs', t)"
    "rs = r # rs'"
    by (auto split: option.splits)
  from alloc_Some [OF Suc.prems(1) *(1)] Suc.IH [OF _ *(2)] show ?case
    using *(3) by auto
qed

lemma alloc_card: "inv s \<Longrightarrow> alloc s = Some (r, s') \<Longrightarrow> card (avail s) = Suc (card (avail s'))"
  using card.remove [of "avail s" r] avail_finite [of s] alloc_Some [of s r s'] by simp

lemma alloc_n_complete:
  "inv s \<Longrightarrow> (\<exists>rs t. alloc_n n s = Some (rs, t)) \<longleftrightarrow> n \<le> card (avail s)"
proof (induction n arbitrary: s)
  case 0
  then show ?case by simp
next
  case (Suc n)
  show ?case
  proof (cases "alloc s")
    case None
    with Suc.prems have "avail s = {}" by (simp add: alloc_None)
    with None show ?thesis by simp
  next
    case (Some x)
    obtain r s' where x: "x = (r, s')" by fastforce
    have "inv s'" using alloc_Some [OF Suc.prems] Some x by simp
    from Suc.IH [OF this] alloc_card [OF Suc.prems] Some x show ?thesis
      by (auto split: option.splits)
  qed
qed

lemma alloc_release:
  assumes "inv s" and "alloc s = Some (r, s')" and "held r s'"
  shows "avail (release r s') = avail s"
  using alloc_Some [OF assms(1,2)] release_avail [of s' r] assms(3) by auto

end

locale byte_fifo =
  fixes inv :: "'q \<Rightarrow> bool"
    and contents :: "'q \<Rightarrow> u8 list"
    and room :: "'q \<Rightarrow> bool"
    and put :: "u8 \<Rightarrow> 'q \<Rightarrow> 'q"
    and take1 :: "'q \<Rightarrow> (u8 \<times> 'q) option"
  assumes put_inv: "inv q \<Longrightarrow> room q \<Longrightarrow> inv (put b q)"
    and put_contents: "inv q \<Longrightarrow> room q \<Longrightarrow> contents (put b q) = contents q @ [b]"
    and take1_None: "inv q \<Longrightarrow> take1 q = None \<longleftrightarrow> contents q = []"
    and take1_Some: "inv q \<Longrightarrow> take1 q = Some (b, q') \<Longrightarrow> inv q' \<and> contents q = b # contents q'"
begin

primrec drain :: "nat \<Rightarrow> 'q \<Rightarrow> u8 list \<times> 'q" where
  "drain 0 q = ([], q)"
| "drain (Suc n) q = (case take1 q of None \<Rightarrow> ([], q)
     | Some (b, q') \<Rightarrow> (let (bs, r) = drain n q' in (b # bs, r)))"

lemma drain_contents:
  "inv q \<Longrightarrow> drain n q = (bs, r) \<Longrightarrow>
     inv r \<and> bs = take n (contents q) \<and> contents r = drop n (contents q)"
proof (induction n arbitrary: q bs)
  case 0
  then show ?case by simp
next
  case (Suc n)
  show ?case
  proof (cases "take1 q")
    case None
    moreover from this Suc.prems(1) have "contents q = []" by (simp add: take1_None)
    ultimately show ?thesis using Suc.prems by simp
  next
    case (Some x)
    obtain b q' where x: "x = (b, q')" by fastforce
    obtain bs' where bs': "drain n q' = (bs', r)" and "bs = b # bs'"
      using Suc.prems(2) Some x by (auto split: prod.splits)
    moreover from take1_Some [OF Suc.prems(1)] Some x have "inv q'" "contents q = b # contents q'"
      by auto
    ultimately show ?thesis
      using Suc.IH [of q' bs'] by simp
  qed
qed

end

end
