(* ===== verification/Printfmt.thy ===== *)
theory Printfmt
  imports JOS_Prelude
begin

text \<open>
  Formatted output, \<^verbatim>\<open>lib/printfmt.c\<close>. The characters that \<^verbatim>\<open>vprintfmt\<close> hands
  to \<^verbatim>\<open>putch\<close> are a list of integers (a byte of a string argument is a signed
  \<^verbatim>\<open>char\<close>); the clients in this development are the kernel's \<^verbatim>\<open>cprintf\<close>,
  \<^verbatim>\<open>vsnprintf\<close>, and the two user-level \<^verbatim>\<open>printf\<close> families.

  The variable arguments are a list of typed values; reading one that is not there or has another
  type is undefined in C and gives \<open>None\<close>, as does \<^verbatim>\<open>error_string[err]\<close> with a negative index.
\<close>

section \<open>Definitions\<close>

datatype va = VInt u32 | VLong u64 | VStr "u8 list option"

text \<open>The newline that ends most formats.\<close>

abbreviation (input) NL :: string where "NL \<equiv> [CHR 0x0A]"

abbreviation (input) "MAXERROR \<equiv> 16 :: int"

definition error_string :: "int \<Rightarrow> string option" where
  "error_string err =
     (if err = 1 then Some ''unspecified error'' else if err = 2 then Some ''bad environment''
      else if err = 3 then Some ''invalid parameter'' else if err = 4 then Some ''out of memory''
      else if err = 5 then Some ''out of environments'' else if err = 6 then Some ''segmentation fault''
      else if err = 7 then Some ''env is not recving'' else if err = 8 then Some ''unexpected end of file''
      else if err = 9 then Some ''no free space on disk'' else if err = 10 then Some ''too many files are open''
      else if err = 11 then Some ''file or block not found'' else if err = 12 then Some ''invalid path''
      else if err = 13 then Some ''file already exists''
      else if err = 14 then Some ''file is not a valid executable''
      else if err = 15 then Some ''operation not supported'' else None)"

definition char_codes :: "string \<Rightarrow> int list" where
  "char_codes = map of_char"

definition hexdigit :: "nat \<Rightarrow> int" where
  "hexdigit d = (if d < 10 then 48 + int d else 87 + int d)"

text \<open>The digits of \<^verbatim>\<open>num\<close>; every recursive call has one column less to fill. The
  bases are 8, 10 and 16.\<close>

function printnum :: "nat \<Rightarrow> nat \<Rightarrow> int \<Rightarrow> int \<Rightarrow> int list" where
  "printnum num base width padc =
     (if num \<ge> base \<and> base > 1
      then printnum (num div base) base (width - 1) padc @ [hexdigit (num mod base)]
      else replicate (nat (width - 1)) padc @ [hexdigit (num mod base)])"
  by auto
termination
  by (relation "measure (\<lambda>(num, base, width, padc). num)") auto

declare printnum.simps [simp del]

definition getuint :: "nat \<Rightarrow> va list \<Rightarrow> (u64 \<times> va list) option" where
  "getuint lflag ap = (case ap of
     VLong w # r \<Rightarrow> if lflag \<ge> 2 then Some (w, r) else None
   | VInt w # r \<Rightarrow> if lflag \<ge> 2 then None else Some (ucast w, r)
   | _ \<Rightarrow> None)"

definition getint :: "nat \<Rightarrow> va list \<Rightarrow> (u64 \<times> va list) option" where
  "getint lflag ap = (case ap of
     VLong w # r \<Rightarrow> if lflag \<ge> 2 then Some (w, r) else None
   | VInt w # r \<Rightarrow> if lflag \<ge> 2 then None else Some (scast w, r)
   | _ \<Rightarrow> None)"

record spec =
  f_padc :: int
  f_width :: int
  f_precision :: int
  f_lflag :: nat
  f_altflag :: bool

definition no_spec :: spec where
  "no_spec = \<lparr>f_padc = 32, f_width = -1, f_precision = -1, f_lflag = 0, f_altflag = False\<rparr>"

definition process_precision :: "int \<Rightarrow> spec \<Rightarrow> spec" where
  "process_precision p sp = (if f_width sp < 0 then sp\<lparr>f_width := p, f_precision := -1\<rparr> else sp\<lparr>f_precision := p\<rparr>)"

definition is_digit :: "char \<Rightarrow> bool" where
  "is_digit c \<longleftrightarrow> 48 \<le> (of_char c :: nat) \<and> (of_char c :: nat) \<le> 57"

definition fmt_decimal :: "string \<Rightarrow> int" where
  "fmt_decimal = foldl (\<lambda>n c. n * 10 + (of_char c - 48)) 0"

text \<open>The flags, width and precision in front of the conversion character (everything that ends in
  \<^verbatim>\<open>goto reswitch\<close>). The result is the rest of the format, which starts with the conversion
  character, and the remaining arguments.\<close>

function fmt_flags :: "string \<Rightarrow> spec \<Rightarrow> va list \<Rightarrow> (string \<times> spec \<times> va list) option" where
  "fmt_flags [] sp ap = Some ([], sp, ap)"
| "fmt_flags (c # fmt) sp ap =
     (if c = CHR ''-'' then fmt_flags fmt (sp\<lparr>f_padc := 45\<rparr>) ap
      else if c = CHR ''0'' then fmt_flags fmt (sp\<lparr>f_padc := 48\<rparr>) ap
      else if is_digit c
      then fmt_flags (dropWhile is_digit fmt) (process_precision (fmt_decimal (c # takeWhile is_digit fmt)) sp) ap
      else if c = CHR ''*''
      then (case ap of VInt w # r \<Rightarrow> fmt_flags fmt (process_precision (sint w) sp) r | _ \<Rightarrow> None)
      else if c = CHR ''.'' then fmt_flags fmt (if f_width sp < 0 then sp\<lparr>f_width := 0\<rparr> else sp) ap
      else if c = CHR ''#'' then fmt_flags fmt (sp\<lparr>f_altflag := True\<rparr>) ap
      else if c = CHR ''l'' then fmt_flags fmt (sp\<lparr>f_lflag := f_lflag sp + 1\<rparr>) ap
      else Some (c # fmt, sp, ap))"
  by pat_completeness auto
termination
  by (relation "measure (\<lambda>(fmt, sp, ap). length fmt)") (auto simp: le_imp_less_Suc length_dropWhile_le)

definition put_number :: "u64 \<Rightarrow> nat \<Rightarrow> spec \<Rightarrow> int list" where
  "put_number num base sp = printnum (unat num) base (f_width sp) (f_padc sp)"

definition put_signed :: "u64 \<Rightarrow> spec \<Rightarrow> int list" where
  "put_signed num sp = (if sint num < 0 then 45 # put_number (- num) 10 sp else put_number num 10 sp)"

text \<open>\<^verbatim>\<open>%s\<close>: padding on the left unless the flag \<^verbatim>\<open>-\<close> is given, at most
  \<^verbatim>\<open>precision\<close> bytes, padding on the right with what is left of the width.\<close>

definition put_string :: "u8 list \<Rightarrow> spec \<Rightarrow> int list" where
  "put_string p sp =
     (let n = (if f_precision sp < 0 then length p else min (length p) (nat (f_precision sp)));
          left = f_width sp > 0 \<and> f_padc sp \<noteq> 45;
          w1 = (if left then f_width sp - int n else f_width sp);
          pad = (if left then replicate (nat w1) (f_padc sp) else []);
          w2 = (if left \<and> w1 > 0 then 0 else w1) - int n;
          body = map (\<lambda>b. let ch = sint b in if f_altflag sp \<and> (ch < 32 \<or> ch > 126) then 63 else ch) (take n p)
      in pad @ body @ replicate (nat w2) 32)"

definition put_error :: "u32 \<Rightarrow> int list option" where
  "put_error w =
     (let err = (if sint w < 0 then sint (- w) else sint w)
      in if err \<ge> MAXERROR then Some (char_codes ''error '' @ put_signed (scast (word_of_int err :: u32)) no_spec)
         else if err < 0 then None
         else case error_string err of
                None \<Rightarrow> Some (char_codes ''error '' @ put_signed (scast (word_of_int err :: u32)) no_spec)
              | Some p \<Rightarrow> Some (char_codes p))"

text \<open>One conversion: the output and the remaining arguments, or \<open>Inr ()\<close> for an unrecognised
  character.\<close>

definition fmt_conversion :: "char \<Rightarrow> spec \<Rightarrow> va list \<Rightarrow> ((int list \<times> va list) + unit) option" where
  "fmt_conversion c sp ap =
     (if c = CHR ''c'' then (case ap of VInt w # r \<Rightarrow> Some (Inl ([sint w], r)) | _ \<Rightarrow> None)
      else if c = CHR ''e''
      then (case ap of VInt w # r \<Rightarrow> map_option (\<lambda>out. Inl (out, r)) (put_error w) | _ \<Rightarrow> None)
      else if c = CHR ''s''
      then (case ap of
              VStr (Some p) # r \<Rightarrow> Some (Inl (put_string p sp, r))
            | VStr None # r \<Rightarrow> Some (Inl (put_string (map of_char ''(null)'') sp, r))
            | _ \<Rightarrow> None)
      else if c = CHR ''d'' then map_option (\<lambda>(num, r). Inl (put_signed num sp, r)) (getint (f_lflag sp) ap)
      else if c = CHR ''u'' then map_option (\<lambda>(num, r). Inl (put_number num 10 sp, r)) (getuint (f_lflag sp) ap)
      else if c = CHR ''o'' then map_option (\<lambda>(num, r). Inl (put_number num 8 sp, r)) (getuint (f_lflag sp) ap)
      else if c = CHR ''p''
      then (case ap of VInt w # r \<Rightarrow> Some (Inl (char_codes ''0x'' @ put_number (ucast w) 16 sp, r)) | _ \<Rightarrow> None)
      else if c = CHR ''x'' then map_option (\<lambda>(num, r). Inl (put_number num 16 sp, r)) (getuint (f_lflag sp) ap)
      else if c = CHR ''%'' then Some (Inl ([37], ap))
      else Some (Inr ()))"

lemma fmt_flags_length: "fmt_flags fmt sp ap = Some (r, sp', ap') \<Longrightarrow> length r \<le> length fmt"
proof (induction "length fmt" arbitrary: fmt sp ap rule: less_induct)
  case less
  show ?case
  proof (cases fmt)
    case Nil
    with less.prems show ?thesis by simp
  next
    case (Cons c f)
    have IH: "length r \<le> length f" if "length g \<le> length f" "fmt_flags g sq aq = Some (r, sp', ap')" for g sq aq
      using less.hyps [of g sq aq] that Cons by simp
    have "length r \<le> length f \<or> r = c # f"
      using less.prems IH [OF length_dropWhile_le] IH [of f] unfolding Cons fmt_flags.simps
      by (simp split: if_splits list.splits va.splits; blast)
    then show ?thesis by (auto simp: Cons)
  qed
qed

text \<open>An unrecognised escape prints the percent sign and goes on right behind it; so does a format
  that ends inside an escape.\<close>

function vprintfmt :: "string \<Rightarrow> va list \<Rightarrow> int list option" where
  "vprintfmt [] ap = Some []"
| "vprintfmt (c # fmt) ap =
     (if c \<noteq> CHR ''%'' then map_option (\<lambda>out. of_char c # out) (vprintfmt fmt ap)
      else case fmt_flags fmt no_spec ap of
             None \<Rightarrow> None
           | Some ([], sp, ap1) \<Rightarrow> map_option (\<lambda>out. 37 # out) (vprintfmt fmt ap1)
           | Some (k # rest, sp, ap1) \<Rightarrow>
               (case fmt_conversion k sp ap1 of
                  None \<Rightarrow> None
                | Some (Inl (out, ap2)) \<Rightarrow> map_option (\<lambda>more. out @ more) (vprintfmt rest ap2)
                | Some (Inr ()) \<Rightarrow> map_option (\<lambda>out. 37 # out) (vprintfmt fmt ap1)))"
  by pat_completeness auto
termination
  by (relation "measure (\<lambda>(fmt, ap). length fmt)") (auto dest: fmt_flags_length)

declare vprintfmt.simps [simp del]

subsection \<open>Printing to a buffer\<close>

record sprintbuf =
  sp_buf :: "int list"
  sp_cnt :: nat

definition sprintputch :: "nat \<Rightarrow> int \<Rightarrow> sprintbuf \<Rightarrow> sprintbuf" where
  "sprintputch room ch b =
     (let b1 = b\<lparr>sp_cnt := sp_cnt b + 1\<rparr>
      in if length (sp_buf b1) < room then b1\<lparr>sp_buf := sp_buf b1 @ [ch]\<rparr> else b1)"

text \<open>The result code and the bytes written to \<^verbatim>\<open>buf\<close>, the terminating null included; a null
  \<^verbatim>\<open>buf\<close> is \<open>is_null\<close>. \<open>None\<close> where the format is undefined.\<close>

definition vsnprintf :: "bool \<Rightarrow> int \<Rightarrow> string \<Rightarrow> va list \<Rightarrow> (int \<times> u8 list) option" where
  "vsnprintf is_null n fmt ap =
     (if is_null \<or> n < 1 then Some (- 3, [])
      else map_option (\<lambda>out.
             let b = fold (sprintputch (nat (n - 1))) out \<lparr>sp_buf = [], sp_cnt = 0\<rparr>
             in (int (sp_cnt b), map word_of_int (sp_buf b) @ [0])) (vprintfmt fmt ap))"

subsection \<open>Printing from a user program\<close>

text \<open>\<^verbatim>\<open>lib/printf.c\<close>: up to 255 characters per \<^verbatim>\<open>sys_cputs\<close>. The state is the buffer,
  the count, and the strings handed to the kernel, newest first.\<close>

record printbuf =
  pb_buf :: "u8 list"
  pb_cnt :: nat
  pb_calls :: "u8 list list"

definition pb_putch :: "int \<Rightarrow> printbuf \<Rightarrow> printbuf" where
  "pb_putch ch b =
     (let buf = pb_buf b @ [word_of_int ch];
          b1 = (if length buf = 255 then b\<lparr>pb_buf := [], pb_calls := buf # pb_calls b\<rparr> else b\<lparr>pb_buf := buf\<rparr>)
      in b1\<lparr>pb_cnt := pb_cnt b1 + 1\<rparr>)"

definition user_vcprintf :: "string \<Rightarrow> va list \<Rightarrow> (nat \<times> u8 list list) option" where
  "user_vcprintf fmt ap = map_option (\<lambda>out.
     let b = fold pb_putch out \<lparr>pb_buf = [], pb_cnt = 0, pb_calls = []\<rparr>
     in (pb_cnt b, rev (pb_buf b # pb_calls b))) (vprintfmt fmt ap)"

text \<open>\<^verbatim>\<open>lib/fprintf.c\<close>: up to 256 characters per \<^verbatim>\<open>write\<close>. \<open>wr\<close> stands for
  \<^verbatim>\<open>write\<close> on the descriptor: the result code and the state behind the descriptor.\<close>

record 'f fprintbuf =
  fb_buf :: "u8 list"
  fb_result :: int
  fb_error :: int
  fb_file :: 'f

definition writebuf :: "(u8 list \<Rightarrow> 'f \<Rightarrow> int \<times> 'f) \<Rightarrow> 'f fprintbuf \<Rightarrow> 'f fprintbuf" where
  "writebuf wr b =
     (if fb_error b > 0
      then let (result, f) = wr (fb_buf b) (fb_file b);
               b1 = b\<lparr>fb_file := f, fb_result := (if result > 0 then fb_result b + result else fb_result b)\<rparr>
           in if result \<noteq> int (length (fb_buf b)) then b1\<lparr>fb_error := (if result < 0 then result else 0)\<rparr> else b1
      else b)"

definition fb_putch :: "(u8 list \<Rightarrow> 'f \<Rightarrow> int \<times> 'f) \<Rightarrow> int \<Rightarrow> 'f fprintbuf \<Rightarrow> 'f fprintbuf" where
  "fb_putch wr ch b =
     (let b1 = b\<lparr>fb_buf := fb_buf b @ [word_of_int ch]\<rparr>
      in if length (fb_buf b1) = 256 then (writebuf wr b1)\<lparr>fb_buf := []\<rparr> else b1)"

definition vfprintf :: "(u8 list \<Rightarrow> 'f \<Rightarrow> int \<times> 'f) \<Rightarrow> string \<Rightarrow> va list \<Rightarrow> 'f \<Rightarrow> (int \<times> 'f) option" where
  "vfprintf wr fmt ap f = map_option (\<lambda>out.
     let b = fold (fb_putch wr) out \<lparr>fb_buf = [], fb_result = 0, fb_error = 1, fb_file = f\<rparr>;
         b1 = (if fb_buf b \<noteq> [] then writebuf wr b else b)
     in (if fb_result b1 \<noteq> 0 then fb_result b1 else fb_error b1, fb_file b1)) (vprintfmt fmt ap)"

end
