(* ===== verification/Console.thy ===== *)
theory Console
  imports Resource_Pool Printfmt
begin

text \<open>
  The console driver, \<^verbatim>\<open>kern/console.c\<close>, with the interrupt mask of
  \<^verbatim>\<open>kern/picirq.c\<close>: keyboard decoding, the circular input buffer, the text screen with
  its cursor and scrolling, and character output.

  The devices are part of the state: \<open>kbd_queue\<close> holds the (status, data) pairs that the
  keyboard controller will present, \<open>com_queue\<close> the bytes waiting at the serial port,
  \<open>port_log\<close> the \<^verbatim>\<open>outb\<close> instructions (newest first), and \<open>screen_log\<close> the
  characters handed to \<^verbatim>\<open>cons_putc\<close> (newest first). The busy-wait loops before a
  transmission have no effect on this state.
\<close>

section \<open>Definitions\<close>

record console =
  cbuf :: "nat \<Rightarrow> u8"
  rpos :: u32
  wpos :: u32
  kshift :: u32
  serial_exists :: bool
  addr_6845 :: u16
  crt_buf :: "nat \<Rightarrow> u16"
  crt_pos :: u16
  irq_mask :: u16
  didinit :: bool
  kbd_queue :: "(u8 \<times> u8) list"
  com_queue :: "u8 list"
  port_log :: "(u16 \<times> u8) list"
  screen_log :: "u32 list"

abbreviation (input) CONSBUFSIZE :: u32 where "CONSBUFSIZE \<equiv> 512"
abbreviation (input) CRT_COLS :: u16 where "CRT_COLS \<equiv> 80"
abbreviation (input) CRT_SIZE :: u16 where "CRT_SIZE \<equiv> 2000"
abbreviation (input) COM1 :: u16 where "COM1 \<equiv> 0x3F8"
abbreviation (input) SHIFT :: u32 where "SHIFT \<equiv> 1"
abbreviation (input) CTL :: u32 where "CTL \<equiv> 2"
abbreviation (input) ALT :: u32 where "ALT \<equiv> 4"
abbreviation (input) CAPSLOCK :: u32 where "CAPSLOCK \<equiv> 8"
abbreviation (input) NUMLOCK :: u32 where "NUMLOCK \<equiv> 16"
abbreviation (input) SCROLLLOCK :: u32 where "SCROLLLOCK \<equiv> 32"
abbreviation (input) E0ESC :: u32 where "E0ESC \<equiv> 64"
abbreviation (input) KEY_DEL :: int where "KEY_DEL \<equiv> 0xE9"

definition outb :: "u16 \<Rightarrow> u8 \<Rightarrow> console \<Rightarrow> console" where
  "outb port v c = c\<lparr>port_log := (port, v) # port_log c\<rparr>"

subsection \<open>Screen\<close>

definition cga_colour :: "u32 \<Rightarrow> u32" where
  "cga_colour c =
     (if c AND NOT 0xFF = 0
      then let ch = sint (ucast c :: u8)
           in if ch > 47 \<and> ch < 58 then c OR 0x0200
              else if (ch > 64 \<and> ch < 91) \<or> (ch > 96 \<and> ch < 123) then c OR 0x0700
              else c OR 0x0400
      else c)"

text \<open>The common end of \<^verbatim>\<open>cga_putc\<close>: scrolling, and the cursor registers.\<close>

definition cga_finish :: "console \<Rightarrow> console" where
  "cga_finish s =
     (let s1 = (if crt_pos s \<ge> CRT_SIZE
                then s\<lparr>crt_buf := (\<lambda>i. if i < 1920 then crt_buf s (i + 80)
                                       else if i < 2000 then 0x0700 OR 32 else crt_buf s i),
                       crt_pos := crt_pos s - CRT_COLS\<rparr>
                else s)
      in outb (addr_6845 s1 + 1) (ucast (crt_pos s1)) (outb (addr_6845 s1) 15
         (outb (addr_6845 s1 + 1) (ucast (drop_bit 8 (crt_pos s1))) (outb (addr_6845 s1) 14 s1))))"

text \<open>\<^verbatim>\<open>cga_putc\<close> for every character but the tab.\<close>

definition cga_put_plain :: "u32 \<Rightarrow> console \<Rightarrow> console" where
  "cga_put_plain c0 s =
     (let c = cga_colour c0; ch = c AND 0xFF
      in cga_finish
         (if ch = 8
          then if crt_pos s > 0
               then s\<lparr>crt_pos := crt_pos s - 1,
                      crt_buf := (crt_buf s)(unat (crt_pos s - 1) := ucast ((c AND NOT 0xFF) OR 32))\<rparr>
               else s
          else if ch = 10
          then let p = crt_pos s + CRT_COLS in s\<lparr>crt_pos := p - p mod CRT_COLS\<rparr>
          else if ch = 13 then s\<lparr>crt_pos := crt_pos s - crt_pos s mod CRT_COLS\<rparr>
          else s\<lparr>crt_buf := (crt_buf s)(unat (crt_pos s) := ucast c), crt_pos := crt_pos s + 1\<rparr>))"

definition serial_putc :: "u32 \<Rightarrow> console \<Rightarrow> console" where
  "serial_putc c = outb COM1 (ucast c)"

definition lpt_putc :: "u32 \<Rightarrow> console \<Rightarrow> console" where
  "lpt_putc c s = outb 0x37A 0x08 (outb 0x37A 0x0D (outb 0x378 (ucast c) s))"

definition put_blank :: "console \<Rightarrow> console" where
  "put_blank s = cga_put_plain 32 (lpt_putc 32 (serial_putc 32 (s\<lparr>screen_log := 32 # screen_log s\<rparr>)))"

text \<open>A tab is five blanks through \<^verbatim>\<open>cons_putc\<close>.\<close>

definition cga_putc :: "u32 \<Rightarrow> console \<Rightarrow> console" where
  "cga_putc c s = (if c AND 0xFF = 9
     then cga_finish (put_blank (put_blank (put_blank (put_blank (put_blank s)))))
     else cga_put_plain c s)"

definition cons_putc :: "u32 \<Rightarrow> console \<Rightarrow> console" where
  "cons_putc c s = cga_putc c (lpt_putc c (serial_putc c (s\<lparr>screen_log := c # screen_log s\<rparr>)))"

definition cputchar :: "u32 \<Rightarrow> console \<Rightarrow> console" where
  "cputchar c = cons_putc c"

text \<open>\<^verbatim>\<open>kern/printf.c\<close>. The \<^verbatim>\<open>putch\<close> there increments its pointer and not the counter
  (\<^verbatim>\<open>*cnt++\<close>), so the result is always 0. \<open>cprintf\<close> drops the result; its callers pass the
  arguments that the format asks for.\<close>

definition vcprintf :: "string \<Rightarrow> va list \<Rightarrow> console \<Rightarrow> (int \<times> console) option" where
  "vcprintf fmt ap c = map_option (\<lambda>out. (0, fold (\<lambda>ch. cputchar (word_of_int ch)) out c)) (vprintfmt fmt ap)"

definition cprintf :: "string \<Rightarrow> va list \<Rightarrow> console \<Rightarrow> console" where
  "cprintf fmt ap c = (case vcprintf fmt ap c of None \<Rightarrow> c | Some (cnt, c') \<Rightarrow> c')"

text \<open>The write and read back of the pattern 0xA55A decides whether a colour adapter is there;
  \<open>cga_present\<close> is that answer, \<open>hi\<close> and \<open>lo\<close> the cursor registers.\<close>

definition cga_init :: "bool \<Rightarrow> u8 \<Rightarrow> u8 \<Rightarrow> console \<Rightarrow> console" where
  "cga_init cga_present hi lo s =
     (let base = (if cga_present then 0x3D4 else 0x3B4)
      in outb base 15 (outb base 14
         (s\<lparr>addr_6845 := base, crt_pos := push_bit 8 (ucast hi) OR ucast lo\<rparr>)))"

subsection \<open>Keyboard\<close>

definition shiftcode :: "u8 \<Rightarrow> u32" where
  "shiftcode d = (if d = 0x1D then CTL else if d = 0x2A then SHIFT else if d = 0x36 then SHIFT
     else if d = 0x38 then ALT else if d = 0x9D then CTL else if d = 0xB8 then ALT else 0)"

definition togglecode :: "u8 \<Rightarrow> u32" where
  "togglecode d = (if d = 0x3A then CAPSLOCK else if d = 0x45 then NUMLOCK
     else if d = 0x46 then SCROLLLOCK else 0)"

text \<open>The initialised arrays: a prefix, some designated entries, zero elsewhere.\<close>

definition char_table :: "nat list \<Rightarrow> (u8 \<times> nat) list \<Rightarrow> u8 \<Rightarrow> nat" where
  "char_table prefix special d =
     (if unat d < length prefix then prefix ! unat d
      else case map_of special d of None \<Rightarrow> 0 | Some v \<Rightarrow> v)"

definition normalmap :: "u8 \<Rightarrow> nat" where
  "normalmap = char_table
    [0, 27, 49, 50, 51, 52, 53, 54, 55, 56, 57, 48, 45, 61, 8, 9,
     113, 119, 101, 114, 116, 121, 117, 105, 111, 112, 91, 93, 10, 0, 97, 115,
     100, 102, 103, 104, 106, 107, 108, 59, 39, 96, 0, 92, 122, 120, 99, 118,
     98, 110, 109, 44, 46, 47, 0, 42, 0, 32, 0, 0, 0, 0, 0, 0,
     0, 0, 0, 0, 0, 0, 0, 55, 56, 57, 45, 52, 53, 54, 43, 49,
     50, 51, 48, 46, 0, 0, 0, 0]
    [(0xC7, 0xE0), (0x9C, 10), (0xB5, 47), (0xC8, 0xE2), (0xC9, 0xE6), (0xCB, 0xE4),
     (0xCD, 0xE5), (0xCF, 0xE1), (0xD0, 0xE3), (0xD1, 0xE7), (0xD2, 0xE8), (0xD3, 0xE9)]"

definition shiftmap :: "u8 \<Rightarrow> nat" where
  "shiftmap = char_table
    [0, 27, 33, 64, 35, 36, 37, 94, 38, 42, 40, 41, 95, 43, 8, 9,
     81, 87, 69, 82, 84, 89, 85, 73, 79, 80, 123, 125, 10, 0, 65, 83,
     68, 70, 71, 72, 74, 75, 76, 58, 34, 126, 0, 124, 90, 88, 67, 86,
     66, 78, 77, 60, 62, 63, 0, 42, 0, 32, 0, 0, 0, 0, 0, 0,
     0, 0, 0, 0, 0, 0, 0, 55, 56, 57, 45, 52, 53, 54, 43, 49,
     50, 51, 48, 46, 0, 0, 0, 0]
    [(0xC7, 0xE0), (0x9C, 10), (0xB5, 47), (0xC8, 0xE2), (0xC9, 0xE6), (0xCB, 0xE4),
     (0xCD, 0xE5), (0xCF, 0xE1), (0xD0, 0xE3), (0xD1, 0xE7), (0xD2, 0xE8), (0xD3, 0xE9)]"

definition ctlmap :: "u8 \<Rightarrow> nat" where
  "ctlmap = char_table
    [0, 0, 0, 0, 0, 0, 0, 0, 0, 0, 0, 0, 0, 0, 0, 0,
     17, 23, 5, 18, 20, 25, 21, 9, 15, 16, 0, 0, 13, 0, 1, 19,
     4, 6, 7, 8, 10, 11, 12, 0, 0, 0, 0, 28, 26, 24, 3, 22,
     2, 14, 13, 0, 0, 239, 0, 0]
    [(0x97, 0xE0), (0xB5, 239), (0xC8, 0xE2), (0xC9, 0xE6), (0xCB, 0xE4),
     (0xCD, 0xE5), (0xCF, 0xE1), (0xD0, 0xE3), (0xD1, 0xE7), (0xD2, 0xE8), (0xD3, 0xE9)]"

definition charcode :: "u32 \<Rightarrow> u8 \<Rightarrow> nat" where
  "charcode i = (if i = 0 then normalmap else if i = 1 then shiftmap else ctlmap)"

text \<open>\<^verbatim>\<open>kbd_proc_data\<close>: -1 without data, 0 when no character is finished, otherwise the
  character. Ctrl-Alt-Del writes the reset port.\<close>

definition kbd_proc_data :: "console \<Rightarrow> int \<times> console" where
  "kbd_proc_data s =
     (case kbd_queue s of
        [] \<Rightarrow> (-1, s)
      | (stat, data0) # rest \<Rightarrow>
          if stat AND 0x01 = 0 then (-1, s)
          else if stat AND 0x20 \<noteq> 0 then (-1, s)
          else let s1 = s\<lparr>kbd_queue := rest\<rparr>; shift = kshift s
               in if data0 = 0xE0 then (0, s1\<lparr>kshift := shift OR E0ESC\<rparr>)
                  else if data0 AND 0x80 \<noteq> 0
                  then let data = (if shift AND E0ESC \<noteq> 0 then data0 else data0 AND 0x7F)
                       in (0, s1\<lparr>kshift := shift AND NOT (shiftcode data OR E0ESC)\<rparr>)
                  else let data = (if shift AND E0ESC \<noteq> 0 then data0 OR 0x80 else data0);
                           sh0 = (if shift AND E0ESC \<noteq> 0 then shift AND NOT E0ESC else shift);
                           sh = (sh0 OR shiftcode data) XOR togglecode data;
                           c = int (charcode (sh AND (CTL OR SHIFT)) data);
                           c' = (if sh AND CAPSLOCK \<noteq> 0
                                 then if 97 \<le> c \<and> c \<le> 122 then c + (65 - 97)
                                      else if 65 \<le> c \<and> c \<le> 90 then c + (97 - 65) else c
                                 else c);
                           s2 = s1\<lparr>kshift := sh\<rparr>
                       in (c', if NOT sh AND (CTL OR ALT) = 0 \<and> c' = KEY_DEL then outb 0x92 0x3 s2 else s2))"

definition serial_proc_data :: "console \<Rightarrow> int \<times> console" where
  "serial_proc_data s = (case com_queue s of [] \<Rightarrow> (-1, s)
     | b # rest \<Rightarrow> (uint b, s\<lparr>com_queue := rest\<rparr>))"

subsection \<open>The input buffer\<close>

definition cons_store :: "u8 \<Rightarrow> console \<Rightarrow> console" where
  "cons_store b s =
     (let w = wpos s + 1
      in s\<lparr>cbuf := (cbuf s)(unat (wpos s) := b), wpos := (if w = CONSBUFSIZE then 0 else w)\<rparr>)"

text \<open>The loop of \<^verbatim>\<open>cons_intr\<close> ends when the device has nothing more; \<open>None\<close> would mean that
  the given number of rounds was not enough.\<close>

fun cons_intr :: "(console \<Rightarrow> int \<times> console) \<Rightarrow> nat \<Rightarrow> console \<Rightarrow> console option" where
  "cons_intr proc 0 s = None"
| "cons_intr proc (Suc n) s =
     (let (c, s1) = proc s
      in if c = -1 then Some s1
         else if c = 0 then cons_intr proc n s1
         else cons_intr proc n (cons_store (word_of_int c) s1))"

definition serial_intr :: "console \<Rightarrow> console option" where
  "serial_intr s = (if serial_exists s then cons_intr serial_proc_data (Suc (length (com_queue s))) s else Some s)"

definition kbd_intr :: "console \<Rightarrow> console option" where
  "kbd_intr s = cons_intr kbd_proc_data (Suc (length (kbd_queue s))) s"

definition cons_take :: "console \<Rightarrow> (u8 \<times> console) option" where
  "cons_take s =
     (if rpos s \<noteq> wpos s
      then let r = rpos s + 1
           in Some (cbuf s (unat (rpos s)), s\<lparr>rpos := (if r = CONSBUFSIZE then 0 else r)\<rparr>)
      else None)"

definition cons_getc :: "console \<Rightarrow> (int \<times> console) option" where
  "cons_getc s =
     (case serial_intr s of None \<Rightarrow> None
      | Some s1 \<Rightarrow> (case kbd_intr s1 of None \<Rightarrow> None
        | Some s2 \<Rightarrow> Some (case cons_take s2 of None \<Rightarrow> (0, s2) | Some (b, s3) \<Rightarrow> (uint b, s3))))"

text \<open>\<^verbatim>\<open>getchar\<close> polls until a character is there. What the devices deliver before each poll is the
  list \<open>arrivals\<close>; \<open>None\<close> means that the loop is still waiting when the list ends.\<close>

fun getchar :: "(console \<Rightarrow> console) list \<Rightarrow> console \<Rightarrow> (int \<times> console) option" where
  "getchar [] s = None"
| "getchar (f # arrivals) s =
     (case cons_getc (f s) of
        None \<Rightarrow> None
      | Some (c, s1) \<Rightarrow> if c = 0 then getchar arrivals s1 else Some (c, s1))"

definition iscons :: "int \<Rightarrow> int" where
  "iscons fdnum = 1"

subsection \<open>Interrupt mask and initialisation\<close>

definition irq_setmask_8259A :: "u16 \<Rightarrow> console \<Rightarrow> console" where
  "irq_setmask_8259A m s =
     (let s1 = s\<lparr>irq_mask := m\<rparr>
      in if \<not> didinit s1 then s1
         else let s2 = cprintf ''enabled interrupts:'' []
                    (outb 0xA1 (ucast (drop_bit 8 m)) (outb 0x21 (ucast m) s1));
                  s3 = fold (\<lambda>i. if \<not> bit m i then cprintf '' %d'' [VInt (of_nat i)] else id) [0..<16] s2
              in cprintf NL [] s3)"

definition pic_init :: "console \<Rightarrow> console" where
  "pic_init s =
     (let s1 = fold (\<lambda>(p, v). outb p v)
            [(0x21, 0xFF), (0xA1, 0xFF), (0x20, 0x11), (0x21, 32), (0x21, 4), (0x21, 0x3),
             (0xA0, 0x11), (0xA1, 40), (0xA1, 2), (0xA1, 0x01),
             (0x20, 0x68), (0x20, 0x0A), (0xA0, 0x68), (0xA0, 0x0A)] (s\<lparr>didinit := True\<rparr>)
      in if irq_mask s1 \<noteq> 0xFFFF then irq_setmask_8259A (irq_mask s1) s1 else s1)"

text \<open>\<open>lsr\<close> is the line status register of the serial port.\<close>

definition serial_init :: "u8 \<Rightarrow> console \<Rightarrow> console" where
  "serial_init lsr s =
     (let s1 = fold (\<lambda>(p, v). outb p v)
            [(COM1 + 2, 0), (COM1 + 3, 0x80), (COM1 + 0, 12), (COM1 + 1, 0), (COM1 + 3, 0x03),
             (COM1 + 4, 0), (COM1 + 1, 0x01)] s;
          s2 = s1\<lparr>serial_exists := (lsr \<noteq> 0xFF)\<rparr>
      in if serial_exists s2 then irq_setmask_8259A (irq_mask s2 AND NOT 0x10) s2 else s2)"

definition kbd_init :: "console \<Rightarrow> console option" where
  "kbd_init s = map_option (\<lambda>s1. irq_setmask_8259A (irq_mask s1 AND NOT 0x02) s1) (kbd_intr s)"

definition cons_init :: "bool \<Rightarrow> u8 \<Rightarrow> u8 \<Rightarrow> u8 \<Rightarrow> console \<Rightarrow> console option" where
  "cons_init cga_present hi lo lsr s = map_option (serial_init lsr) (kbd_init (cga_init cga_present hi lo s))"


section \<open>The input buffer is a queue\<close>

text \<open>The unread bytes, oldest first: from \<open>rpos\<close> up to \<open>wpos\<close>, round the end of the array.\<close>

definition buf_ok :: "console \<Rightarrow> bool" where
  "buf_ok s \<longleftrightarrow> unat (rpos s) < 512 \<and> unat (wpos s) < 512"

definition pending :: "console \<Rightarrow> nat" where
  "pending s = (unat (wpos s) + 512 - unat (rpos s)) mod 512"

definition cons_contents :: "console \<Rightarrow> u8 list" where
  "cons_contents s = map (\<lambda>k. cbuf s ((unat (rpos s) + k) mod 512)) [0..<pending s]"

definition cons_room :: "console \<Rightarrow> bool" where
  "cons_room s \<longleftrightarrow> pending s < 511"

lemma next_pos:
  assumes "unat (w :: u32) < 512"
  shows "unat (if w + 1 = CONSBUFSIZE then 0 else w + 1) = (unat w + 1) mod 512"
proof -
  have s: "unat (w + 1) = unat w + 1"
    using assms unat_add_lt32 [of w 1] by simp
  have "w + 1 = CONSBUFSIZE \<longleftrightarrow> unat w + 1 = 512"
    using s by (simp add: word_unat_eq_iff)
  then show ?thesis
    using assms s by auto
qed

lemma cons_store_fields [simp]:
  "rpos (cons_store b s) = rpos s" "cbuf (cons_store b s) = (cbuf s)(unat (wpos s) := b)"
  by (simp_all add: cons_store_def Let_def)

lemma cons_store_wpos: "unat (wpos s) < 512 \<Longrightarrow> unat (wpos (cons_store b s)) = (unat (wpos s) + 1) mod 512"
  using next_pos [of "wpos s"] by (simp add: cons_store_def Let_def)

lemma pending_store:
  assumes "buf_ok s" and "cons_room s"
  shows "pending (cons_store b s) = Suc (pending s)"
  using assms cons_store_wpos [of s b] unfolding buf_ok_def cons_room_def pending_def
  by (cases "unat (wpos s) = 511"; cases "unat (rpos s) \<le> unat (wpos s)") (auto simp: mod_if split: if_splits)

lemma wpos_index: "buf_ok s \<Longrightarrow> (unat (rpos s) + pending s) mod 512 = unat (wpos s)"
  unfolding buf_ok_def pending_def by (auto simp: ring_mod)

lemma cons_store_contents:
  assumes "buf_ok s" and "cons_room s"
  shows "cons_contents (cons_store b s) = cons_contents s @ [b]"
proof -
  have ne: "(unat (rpos s) + k) mod 512 \<noteq> unat (wpos s)" if "k < pending s" for k
  proof
    assume "(unat (rpos s) + k) mod 512 = unat (wpos s)"
    then have "(unat (rpos s) + k) mod 512 = (unat (rpos s) + pending s) mod 512"
      using wpos_index [OF assms(1)] by simp
    from ring_inj [OF this] show False
      using that assms by (simp add: cons_room_def buf_ok_def)
  qed
  then show ?thesis
    using wpos_index [OF assms(1)]
    by (simp add: cons_contents_def pending_store [OF assms])
qed


lemma pending_take:
  assumes "buf_ok s" and "cons_take s = Some (b, t)"
  shows "pending s = Suc (pending t)" and "buf_ok t" and "wpos t = wpos s" and "cbuf t = cbuf s"
    and "unat (rpos t) = (unat (rpos s) + 1) mod 512" and "b = cbuf s (unat (rpos s))"
proof -
  have ne: "rpos s \<noteq> wpos s" and t: "t = s\<lparr>rpos := (if rpos s + 1 = CONSBUFSIZE then 0 else rpos s + 1)\<rparr>"
    and b: "b = cbuf s (unat (rpos s))"
    using assms(2) by (auto simp: cons_take_def Let_def split: if_splits)
  show r: "unat (rpos t) = (unat (rpos s) + 1) mod 512"
    using next_pos [of "rpos s"] assms(1) by (simp add: t buf_ok_def)
  show "b = cbuf s (unat (rpos s))" "wpos t = wpos s" "cbuf t = cbuf s"
    by (simp_all add: b t)
  then show "buf_ok t" using assms(1) r by (simp add: buf_ok_def)
  have "unat (rpos s) \<noteq> unat (wpos s)" using ne by (simp add: word_unat_eq_iff)
  then show "pending s = Suc (pending t)"
    using assms(1) r by (auto simp: pending_def buf_ok_def t ring_mod)
qed

lemma cons_take_contents:
  assumes "buf_ok s" and "cons_take s = Some (b, t)"
  shows "cons_contents s = b # cons_contents t"
proof -
  note pt = pending_take [OF assms]
  have rlt: "unat (rpos s) < 512" using assms(1) by (simp add: buf_ok_def)
  have "cons_contents s = map (\<lambda>k. cbuf s ((unat (rpos s) + k) mod 512)) (0 # map Suc [0..<pending t])"
    unfolding cons_contents_def pt(1) map_Suc_upt by (subst upt_conv_Cons) simp_all
  also have "\<dots> = b # map (\<lambda>k. cbuf s ((unat (rpos t) + k) mod 512)) [0..<pending t]"
    using rlt by (simp add: pt(5,6) mod_add_left_eq comp_def)
  finally show ?thesis
    by (simp add: cons_contents_def pt(4))
qed

interpretation cons_fifo: byte_fifo buf_ok cons_contents cons_room cons_store cons_take
proof
  fix s t :: console and b :: u8
  assume ok: "buf_ok s"
  show "buf_ok (cons_store b s)"
    using ok cons_store_wpos [of s b] by (simp add: buf_ok_def)
  show "cons_contents (cons_store b s) = cons_contents s @ [b]" if "cons_room s"
    using ok that by (rule cons_store_contents)
  show "cons_take s = None \<longleftrightarrow> cons_contents s = []"
  proof -
    have "pending s = 0 \<longleftrightarrow> unat (rpos s) = unat (wpos s)"
      using wpos_index [OF ok] ok unfolding buf_ok_def pending_def
      by (cases "unat (rpos s) \<le> unat (wpos s)") (auto simp: ring_mod)
    then show ?thesis
      by (simp add: cons_take_def cons_contents_def Let_def word_unat_eq_iff)
  qed
  show "buf_ok t \<and> cons_contents s = b # cons_contents t" if "cons_take s = Some (b, t)"
    using pending_take(2) [OF ok that] cons_take_contents [OF ok that] by simp
qed

section \<open>Device polling terminates\<close>

lemma cons_intr_total:
  assumes "\<And>s c s1. proc s = (c, s1) \<Longrightarrow> c \<noteq> -1 \<Longrightarrow> m s1 < (m s :: nat)"
    and "\<And>b s. m (cons_store b s) = m s"
  shows "m s < n \<Longrightarrow> \<exists>t. cons_intr proc n s = Some t"
proof (induction n arbitrary: s)
  case 0
  then show ?case by simp
next
  case (Suc n)
  obtain c s1 where p: "proc s = (c, s1)" by fastforce
  show ?case
  proof (cases "c = -1")
    case True
    with p show ?thesis by simp
  next
    case False
    then have "m s1 < n" using assms(1) [OF p] Suc.prems by simp
    then show ?thesis
      using p Suc.IH [of s1] Suc.IH [of "cons_store (word_of_int c) s1"] assms(2) by simp
  qed
qed

lemma kbd_consumes: "kbd_proc_data s = (c, s1) \<Longrightarrow> c \<noteq> -1 \<Longrightarrow> length (kbd_queue s1) < length (kbd_queue s)"
  by (auto simp: kbd_proc_data_def Let_def outb_def split: list.splits if_splits)

lemma serial_consumes: "serial_proc_data s = (c, s1) \<Longrightarrow> c \<noteq> -1 \<Longrightarrow> length (com_queue s1) < length (com_queue s)"
  by (auto simp: serial_proc_data_def split: list.splits)

lemma kbd_intr_total: "\<exists>t. kbd_intr s = Some t"
  unfolding kbd_intr_def
  by (rule cons_intr_total [where m = "\<lambda>s. length (kbd_queue s)"])
    (auto simp: kbd_consumes cons_store_def Let_def)

lemma serial_intr_total: "\<exists>t. serial_intr s = Some t"
proof (cases "serial_exists s")
  case True
  have "\<exists>t. cons_intr serial_proc_data (Suc (length (com_queue s))) s = Some t"
    by (rule cons_intr_total [where m = "\<lambda>s. length (com_queue s)"])
      (auto simp: serial_consumes cons_store_def Let_def)
  with True show ?thesis by (simp add: serial_intr_def)
qed (simp add: serial_intr_def)

lemma cons_getc_total: "\<exists>r. cons_getc s = Some r"
proof -
  obtain t where "serial_intr s = Some t" using serial_intr_total by blast
  moreover obtain u where "kbd_intr t = Some u" using kbd_intr_total by blast
  ultimately show ?thesis by (simp add: cons_getc_def)
qed

end
