(* ===== verification/Kernel_State.thy ===== *)
theory Kernel_State
  imports Phys_Mem Console
begin

text \<open>
  The kernel's data: the structures of \<^verbatim>\<open>inc/memlayout.h\<close>, \<^verbatim>\<open>inc/trap.h\<close>,
  \<^verbatim>\<open>inc/env.h\<close>, \<^verbatim>\<open>kern/cpu.h\<close> and \<^verbatim>\<open>kern/spinlock.h\<close>, and one
  record with every global variable of the modelled kernel code.

  \<^item> The arrays \<^verbatim>\<open>pages\<close>, \<^verbatim>\<open>envs\<close> and \<^verbatim>\<open>cpus\<close> are functions
    from the index; a pointer into one of them is the index, and a null pointer is \<open>None\<close>.
  \<^item> \<open>phys\<close> is physical memory. The kernel reaches it through the window at
    \<^verbatim>\<open>KERNBASE\<close>: a kernel pointer \<open>p\<close> denotes physical byte \<open>p - KERNBASE\<close>.
  \<^item> \<open>cpunum\<close> is the processor that executes the modelled code; \<^verbatim>\<open>curenv\<close> is that
    processor's \<^verbatim>\<open>cpu_env\<close>.
  \<^item> \<open>cr3\<close> is the page-directory register and \<open>invlpg_log\<close> records the
    \<^verbatim>\<open>invlpg\<close> instructions, newest first. \<open>con\<close> is the state of
    the console driver.
\<close>

section \<open>Structures\<close>

record PageInfo =
  pp_link :: "nat option"
  pp_ref :: u16

record PushRegs =
  reg_edi :: u32
  reg_esi :: u32
  reg_ebp :: u32
  reg_oesp :: u32
  reg_ebx :: u32
  reg_edx :: u32
  reg_ecx :: u32
  reg_eax :: u32

record Trapframe =
  tf_regs :: PushRegs
  tf_es :: u16
  tf_padding1 :: u16
  tf_ds :: u16
  tf_padding2 :: u16
  tf_trapno :: u32
  tf_err :: u32
  tf_eip :: u32
  tf_cs :: u16
  tf_padding3 :: u16
  tf_eflags :: u32
  tf_esp :: u32
  tf_ss :: u16
  tf_padding4 :: u16

definition zero_regs :: PushRegs where
  "zero_regs = \<lparr>reg_edi = 0, reg_esi = 0, reg_ebp = 0, reg_oesp = 0,
     reg_ebx = 0, reg_edx = 0, reg_ecx = 0, reg_eax = 0\<rparr>"

definition zero_tf :: Trapframe where
  "zero_tf = \<lparr>tf_regs = zero_regs, tf_es = 0, tf_padding1 = 0, tf_ds = 0, tf_padding2 = 0,
     tf_trapno = 0, tf_err = 0, tf_eip = 0, tf_cs = 0, tf_padding3 = 0, tf_eflags = 0,
     tf_esp = 0, tf_ss = 0, tf_padding4 = 0\<rparr>"

datatype env_status = ENV_FREE | ENV_DYING | ENV_RUNNABLE | ENV_RUNNING | ENV_NOT_RUNNABLE

datatype env_type = ENV_TYPE_USER | ENV_TYPE_FS

record Env =
  env_tf :: Trapframe
  env_link :: "nat option"
  env_id :: u32
  env_parent_id :: u32
  env_type :: env_type
  env_status :: env_status
  env_runs :: u32
  env_cpunum :: nat
  env_pgdir :: u32
  env_pgfault_upcall :: u32
  env_ipc_recving :: bool
  env_ipc_dstva :: u32
  env_ipc_value :: u32
  env_ipc_from :: u32
  env_ipc_perm :: u32

datatype cpu_status = CPU_UNUSED | CPU_STARTED | CPU_HALTED

text \<open>The fields of the task state segment that the kernel sets; the processor's save area behind
  them is never used.\<close>

record Taskstate =
  ts_esp0 :: u32
  ts_ss0 :: u16
  ts_iomb :: u16

record CpuInfo =
  cpu_id :: u8
  cpu_status :: cpu_status
  cpu_env :: "nat option"
  cpu_ts :: Taskstate

text \<open>The local interrupt controller: its physical address, the virtual address of its registers
  (0 before \<^verbatim>\<open>lapic_init\<close>), and the register writes, newest first.\<close>

record lapic_dev =
  lapicaddr :: u32
  lapic :: u32
  lapic_log :: "(u32 \<times> u32) list"

record spinlock =
  locked :: bool
  lock_cpu :: "nat option"

record kstate =
  phys :: bytes
  npages :: u32
  npages_basemem :: u32
  pages :: "nat \<Rightarrow> PageInfo"
  page_free_list :: "nat option"
  nextfree :: u32
  kern_pgdir :: u32
  mmio_base :: u32
  user_mem_check_addr :: u32
  envs :: "nat \<Rightarrow> Env"
  env_free_list :: "nat option"
  cpus :: "nat \<Rightarrow> CpuInfo"
  cpunum :: nat
  ncpu :: nat
  bootcpu :: "nat option"
  ismp :: bool
  apic :: lapic_dev
  panicstr :: bool
  kernel_lock :: spinlock
  cr3 :: u32
  invlpg_log :: "u32 list"
  con :: console

abbreviation (input) NENV :: nat where "NENV \<equiv> 1024"

abbreviation (input) NCPU :: nat where "NCPU \<equiv> 8"

definition curenv :: "kstate \<Rightarrow> nat option" where
  "curenv s = cpu_env (cpus s (cpunum s))"

definition set_curenv :: "nat option \<Rightarrow> kstate \<Rightarrow> kstate" where
  "set_curenv e s = s\<lparr>cpus := (cpus s)(cpunum s := (cpus s (cpunum s))\<lparr>cpu_env := e\<rparr>)\<rparr>"

definition upd_env :: "nat \<Rightarrow> (Env \<Rightarrow> Env) \<Rightarrow> kstate \<Rightarrow> kstate" where
  "upd_env i f s = s\<lparr>envs := (envs s)(i := f (envs s i))\<rparr>"

definition upd_page :: "nat \<Rightarrow> (PageInfo \<Rightarrow> PageInfo) \<Rightarrow> kstate \<Rightarrow> kstate" where
  "upd_page i f s = s\<lparr>pages := (pages s)(i := f (pages s i))\<rparr>"

definition kprintf :: "string \<Rightarrow> va list \<Rightarrow> (kstate, unit) op" where
  "kprintf fmt ap = kmod (\<lambda>s. s\<lparr>con := cprintf fmt ap (con s)\<rparr>)"

section \<open>Addresses of the kernel window\<close>

text \<open>\<open>PADDR\<close> and \<open>KADDR\<close> of \<^verbatim>\<open>kern/pmap.h\<close>, with their panics.\<close>

definition PADDR :: "u32 \<Rightarrow> (kstate, u32) op" where
  "PADDR kva = (if kva < KERNBASE then kpanic ''PADDR called with invalid kva''
     else kret (kva - KERNBASE))"

definition KADDR :: "u32 \<Rightarrow> (kstate, u32) op" where
  "KADDR pa s = (if PGNUM pa \<ge> npages s then Panic ''KADDR called with invalid pa''
     else Ret (pa + KERNBASE) s)"

definition page2pa :: "nat \<Rightarrow> u32" where
  "page2pa pp = push_bit 12 (of_nat pp)"

definition pa2page :: "u32 \<Rightarrow> (kstate, nat) op" where
  "pa2page pa s = (if PGNUM pa \<ge> npages s then Panic ''pa2page called with invalid pa''
     else Ret (unat (PGNUM pa)) s)"

definition page2kva :: "nat \<Rightarrow> (kstate, u32) op" where
  "page2kva pp = KADDR (page2pa pp)"

text \<open>Reading and writing a 32-bit word through a kernel pointer, and \<^verbatim>\<open>memset\<close>.\<close>

definition kld :: "u32 \<Rightarrow> kstate \<Rightarrow> u32" where
  "kld p s = load32 (phys s) (unat (p - KERNBASE))"

definition kst :: "u32 \<Rightarrow> u32 \<Rightarrow> kstate \<Rightarrow> kstate" where
  "kst p v s = s\<lparr>phys := store32 (phys s) (unat (p - KERNBASE)) v\<rparr>"

definition kmemset :: "u32 \<Rightarrow> u8 \<Rightarrow> nat \<Rightarrow> kstate \<Rightarrow> kstate" where
  "kmemset p c n s = s\<lparr>phys := mem_fill (phys s) (unat (p - KERNBASE)) n c\<rparr>"

section \<open>Frames\<close>

lemma unat_page2pa: "pp < 1048576 \<Longrightarrow> unat (page2pa pp) = 4096 * pp"
  by (simp add: page2pa_def push_bit_eq_mult unat_word_ariths unat_of_nat take_bit_nat_eq_self
      take_bit_eq_mod)

lemma PGNUM_page2pa [simp]: "pp < 1048576 \<Longrightarrow> unat (PGNUM (page2pa pp)) = pp"
  by (simp add: unat_PGNUM unat_page2pa)

lemma page2pa_inj: "pp < 1048576 \<Longrightarrow> qq < 1048576 \<Longrightarrow> page2pa pp = page2pa qq \<longleftrightarrow> pp = qq"
  by (metis unat_page2pa mult_cancel1 zero_neq_numeral)

lemma PTE_ADDR_page2pa [simp]: "pp < 1048576 \<Longrightarrow> PTE_ADDR (page2pa pp) = page2pa pp"
  by (rule word_eq_unatI) (simp add: unat_PTE_ADDR unat_page2pa)

text \<open>The low twelve bits of an entry are flags; the frame of an entry is read back intact.\<close>

lemma PTE_ADDR_or_perm:
  assumes "pp < 1048576" and "perm AND NOT 0xFFF = 0"
  shows "PTE_ADDR (page2pa pp OR perm) = page2pa pp"
proof -
  have "PTE_ADDR (page2pa pp OR perm) = PTE_ADDR (page2pa pp) OR (perm AND NOT 0xFFF)"
    by (simp add: PTE_ADDR_def bit.conj_disj_distrib2)
  with assms show ?thesis by simp
qed

lemma page2pa_and_low:
  assumes "perm AND NOT 0xFFF = 0"
  shows "page2pa pp AND perm = 0"
proof -
  have low: "bit perm n \<Longrightarrow> n < 12" for n
    using assms bit_imp_le_length [of perm n] by (auto simp: bit_eq_iff bit_simps mask_12)
  show ?thesis
    by (auto simp: page2pa_def bit_eq_iff bit_simps dest!: low)
qed

end
