(* ===== verification/Page_Alloc.thy ===== *)
theory Page_Alloc
  imports Kernel_State Resource_Pool
begin

text \<open>
  The physical page allocator of \<^verbatim>\<open>kern/pmap.c\<close>: memory detection, the boot-time bump
  allocator \<open>boot_alloc\<close>, the construction of the free list by \<open>page_init\<close>, and
  \<open>page_alloc\<close>, \<open>page_free\<close> and \<open>page_decref\<close> on it.

  The free list is threaded through \<^verbatim>\<open>pages[i].pp_link\<close>. The well-formedness
  predicate \<open>pages_ok\<close> says that the list is finite (hence without repetition), stays inside
  the array, holds unreferenced pages only, and that a page outside it has a null link. Every
  operation keeps it. The allocator is an interpretation of \<open>resource_pool\<close>.
\<close>

section \<open>Definitions\<close>

subsection \<open>Memory detection\<close>

text \<open>The contents of the CMOS clock's non-volatile memory are a parameter.\<close>

definition nvram_read :: "(u32 \<Rightarrow> u8) \<Rightarrow> u32 \<Rightarrow> u32" where
  "nvram_read cmos r = ucast (cmos r) OR push_bit 8 (ucast (cmos (r + 1)))"

definition i386_detect_memory :: "(u32 \<Rightarrow> u8) \<Rightarrow> (kstate, unit) op" where
  "i386_detect_memory cmos =
    (let basemem = nvram_read cmos 0x15;
         extmem = nvram_read cmos 0x17;
         ext16mem = nvram_read cmos 0x34 * 64;
         totalmem = (if ext16mem \<noteq> 0 then 16 * 1024 + ext16mem
                     else if extmem \<noteq> 0 then 1 * 1024 + extmem
                     else basemem)
     in kthen (kmod (\<lambda>s. s\<lparr>npages := totalmem div (PGSIZE div 1024),
                            npages_basemem := basemem div (PGSIZE div 1024)\<rparr>))
        (kprintf (''Physical memory: %uK available, base = %uK, extended = %uK'' @ NL)
           [VInt totalmem, VInt basemem, VInt (totalmem - basemem)]))"

subsection \<open>The boot allocator\<close>

text \<open>\<open>kend\<close> is the linker symbol \<^verbatim>\<open>end\<close>.\<close>

definition boot_alloc :: "u32 \<Rightarrow> u32 \<Rightarrow> (kstate, u32) op" where
  "boot_alloc kend n s0 =
     (let s = (if nextfree s0 = 0 then s0\<lparr>nextfree := ROUNDUP kend PGSIZE\<rparr> else s0)
      in if n = 0 then Ret (nextfree s) s
         else let result = nextfree s;
                  nf = ROUNDUP n PGSIZE + nextfree s
              in if nf - KERNBASE > npages s * PGSIZE
                 then Panic ''boot_alloc: out of memory''
                 else Ret result (s\<lparr>nextfree := nf\<rparr>))"

subsection \<open>The free list\<close>

definition page_init_step :: "u32 \<Rightarrow> u32 \<Rightarrow> nat \<Rightarrow> kstate \<Rightarrow> kstate" where
  "page_init_step num_iohole num_used i s =
     (if i = 0 then upd_page i (\<lambda>p. p\<lparr>pp_ref := 1, pp_link := None\<rparr>) s
      else if of_nat i \<ge> npages_basemem s \<and> of_nat i < npages_basemem s + num_iohole + num_used
      then upd_page i (\<lambda>p. p\<lparr>pp_ref := 1, pp_link := None\<rparr>) s
      else if of_nat i = MPENTRY_PADDR div PGSIZE
      then upd_page i (\<lambda>p. p\<lparr>pp_ref := 1, pp_link := None\<rparr>) s
      else (upd_page i (\<lambda>p. p\<lparr>pp_ref := 0, pp_link := page_free_list s\<rparr>) s)
             \<lparr>page_free_list := Some i\<rparr>)"

definition page_init :: "u32 \<Rightarrow> (kstate, unit) op" where
  "page_init kend =
     kbind (boot_alloc kend 0) (\<lambda>kva.
     kbind (PADDR kva) (\<lambda>pa.
     let num_iohole = (EXTPHYSMEM - IOPHYSMEM) div PGSIZE;
         num_used = (pa - EXTPHYSMEM) div PGSIZE
     in kmod (\<lambda>s. fold (page_init_step num_iohole num_used) [0..<unat (npages s)] s)))"

abbreviation (input) ALLOC_ZERO :: u32 where "ALLOC_ZERO \<equiv> 1"

definition page_alloc :: "u32 \<Rightarrow> (kstate, nat option) op" where
  "page_alloc alloc_flags s =
     (case page_free_list s of
        None \<Rightarrow> Ret None s
      | Some alloc \<Rightarrow>
          (let s1 = s\<lparr>page_free_list := pp_link (pages s alloc)\<rparr>;
               s2 = upd_page alloc (\<lambda>p. p\<lparr>pp_link := None\<rparr>) s1
           in kbind (page2kva alloc) (\<lambda>head.
              if alloc_flags AND ALLOC_ZERO \<noteq> 0
              then kthen (kmod (kmemset head 0 4096)) (kret (Some alloc))
              else kret (Some alloc)) s2))"

definition page_free :: "nat \<Rightarrow> (kstate, unit) op" where
  "page_free pp s =
     (if pp_ref (pages s pp) \<noteq> 0 \<or> pp_link (pages s pp) \<noteq> None
      then Panic ''page_free: Page double free or freeing a referenced page''
      else Ret () ((upd_page pp (\<lambda>p. p\<lparr>pp_link := page_free_list s\<rparr>) s)
                     \<lparr>page_free_list := Some pp\<rparr>))"

definition page_decref :: "nat \<Rightarrow> (kstate, unit) op" where
  "page_decref pp s =
     (let s1 = upd_page pp (\<lambda>p. p\<lparr>pp_ref := pp_ref p - 1\<rparr>) s
      in if pp_ref (pages s1 pp) = 0 then page_free pp s1 else Ret () s1)"

section \<open>Linked lists through \<open>pp_link\<close>\<close>

fun fl_path :: "(nat \<Rightarrow> PageInfo) \<Rightarrow> nat option \<Rightarrow> nat list \<Rightarrow> bool" where
  "fl_path pg p [] \<longleftrightarrow> p = None"
| "fl_path pg p (x # xs) \<longleftrightarrow> p = Some x \<and> fl_path pg (pp_link (pg x)) xs"

lemma fl_path_None [simp]: "fl_path pg None xs \<longleftrightarrow> xs = []"
  by (cases xs) auto

lemma fl_path_Some: "fl_path pg (Some x) xs \<longleftrightarrow> (\<exists>ys. xs = x # ys \<and> fl_path pg (pp_link (pg x)) ys)"
  by (cases xs) auto

lemma fl_path_unique: "fl_path pg p xs \<Longrightarrow> fl_path pg p ys \<Longrightarrow> xs = ys"
  by (induction xs arbitrary: p ys) (auto simp: fl_path_Some)

lemma fl_path_tail: "fl_path pg p (xs @ x # ys) \<Longrightarrow> fl_path pg (Some x) (x # ys)"
  by (induction xs arbitrary: p) auto

lemma fl_path_distinct: "fl_path pg p xs \<Longrightarrow> distinct xs"
proof (induction xs arbitrary: p)
  case Nil
  then show ?case by simp
next
  case (Cons x xs)
  have "x \<notin> set xs"
  proof
    assume "x \<in> set xs"
    then obtain us vs where xs: "xs = us @ x # vs"
      by (meson split_list)
    with Cons.prems have "fl_path pg (Some x) (x # vs)"
      using fl_path_tail [of pg p "x # us" x vs] by simp
    with Cons.prems have "x # vs = x # xs"
      by (intro fl_path_unique [of pg p]) auto
    with xs show False by simp
  qed
  with Cons show ?case by auto
qed

lemma fl_path_cong:
  assumes "\<And>x. x \<in> set xs \<Longrightarrow> pp_link (pg' x) = pp_link (pg x)"
  shows "fl_path pg' p xs = fl_path pg p xs"
  using assms by (induction xs arbitrary: p) auto

lemma fl_path_upd [simp]: "x \<notin> set xs \<Longrightarrow> fl_path (pg(x := v)) p xs = fl_path pg p xs"
  by (rule fl_path_cong) auto

section \<open>Well-formedness\<close>

text \<open>\<open>free_list s xs\<close>: the list that starts at \<^verbatim>\<open>page_free_list\<close> is \<open>xs\<close>.\<close>

definition free_list :: "kstate \<Rightarrow> nat list \<Rightarrow> bool" where
  "free_list s xs \<longleftrightarrow> fl_path (pages s) (page_free_list s) xs"

definition free_pages :: "kstate \<Rightarrow> nat set" where
  "free_pages s = {p. \<exists>xs. free_list s xs \<and> p \<in> set xs}"

definition pages_ok :: "kstate \<Rightarrow> bool" where
  "pages_ok s \<longleftrightarrow> unat (npages s) \<le> 65536 \<and>
     (\<exists>xs. free_list s xs \<and>
        (\<forall>p\<in>set xs. p < unat (npages s) \<and> pp_ref (pages s p) = 0) \<and>
        (\<forall>p. p < unat (npages s) \<longrightarrow> p \<notin> set xs \<longrightarrow> pp_link (pages s p) = None))"

lemma free_pages_eq: "free_list s xs \<Longrightarrow> free_pages s = set xs"
  unfolding free_pages_def free_list_def using fl_path_unique by blast

lemma pages_okE:
  assumes "pages_ok s"
  obtains xs where "unat (npages s) \<le> 65536" and "free_list s xs" and "free_pages s = set xs"
    and "\<And>p. p \<in> set xs \<Longrightarrow> p < unat (npages s) \<and> pp_ref (pages s p) = 0"
    and "\<And>p. p < unat (npages s) \<Longrightarrow> p \<notin> set xs \<Longrightarrow> pp_link (pages s p) = None"
  using assms unfolding pages_ok_def by (metis free_pages_eq)

lemma pages_okI:
  assumes "unat (npages s) \<le> 65536" and "free_list s xs"
    and "\<And>p. p \<in> set xs \<Longrightarrow> p < unat (npages s) \<and> pp_ref (pages s p) = 0"
    and "\<And>p. p < unat (npages s) \<Longrightarrow> p \<notin> set xs \<Longrightarrow> pp_link (pages s p) = None"
  shows "pages_ok s"
  using assms unfolding pages_ok_def by blast


lemma upd_page_simps [simp]:
  "pages (upd_page i f s) = (pages s)(i := f (pages s i))"
  "page_free_list (upd_page i f s) = page_free_list s"
  "npages (upd_page i f s) = npages s"
  "npages_basemem (upd_page i f s) = npages_basemem s"
  "phys (upd_page i f s) = phys s"
  "envs (upd_page i f s) = envs s" "env_free_list (upd_page i f s) = env_free_list s"
  "kern_pgdir (upd_page i f s) = kern_pgdir s" "cpus (upd_page i f s) = cpus s"
  "cpunum (upd_page i f s) = cpunum s" "kernel_lock (upd_page i f s) = kernel_lock s"
  by (simp_all add: upd_page_def)

lemma kmemset_simps [simp]:
  "pages (kmemset p c n s) = pages s"
  "page_free_list (kmemset p c n s) = page_free_list s"
  "npages (kmemset p c n s) = npages s"
  "phys (kmemset p c n s) = mem_fill (phys s) (unat (p - KERNBASE)) n c"
  by (simp_all add: kmemset_def)

lemma pages_ok_cong:
  assumes "pages s' = pages s" and "page_free_list s' = page_free_list s" and "npages s' = npages s"
  shows "pages_ok s' = pages_ok s" and "free_pages s' = free_pages s"
  using assms by (simp_all add: pages_ok_def free_pages_def free_list_def)

lemma page2kva_Ret:
  "pp < unat (npages s) \<Longrightarrow> unat (npages s) \<le> 65536 \<Longrightarrow>
     page2kva pp s = Ret (page2pa pp + KERNBASE) s"
  by (simp add: page2kva_def KADDR_def word_le_nat_alt)

subsection \<open>Allocation\<close>

text \<open>The state \<open>page_alloc\<close> leaves after it took \<open>pp\<close> from the head of the list.\<close>

definition after_alloc :: "u32 \<Rightarrow> nat \<Rightarrow> kstate \<Rightarrow> kstate" where
  "after_alloc flags pp s =
     (let s2 = upd_page pp (\<lambda>p. p\<lparr>pp_link := None\<rparr>) (s\<lparr>page_free_list := pp_link (pages s pp)\<rparr>)
      in if flags AND ALLOC_ZERO \<noteq> 0 then kmemset (page2pa pp + KERNBASE) 0 4096 s2 else s2)"

lemma after_alloc_simps [simp]:
  "pages (after_alloc flags pp s) = (pages s)(pp := (pages s pp)\<lparr>pp_link := None\<rparr>)"
  "page_free_list (after_alloc flags pp s) = pp_link (pages s pp)"
  "npages (after_alloc flags pp s) = npages s"
  by (simp_all add: after_alloc_def Let_def)

lemma page_alloc_cases:
  assumes "pages_ok s"
  obtains (none) "page_free_list s = None" and "free_pages s = {}" and "page_alloc flags s = Ret None s"
  | (some) pp where "page_free_list s = Some pp" and "pp \<in> free_pages s"
      and "page_alloc flags s = Ret (Some pp) (after_alloc flags pp s)"
proof -
  from assms obtain xs where xs: "unat (npages s) \<le> 65536" "free_list s xs" "free_pages s = set xs"
    "\<And>p. p \<in> set xs \<Longrightarrow> p < unat (npages s) \<and> pp_ref (pages s p) = 0"
    by (rule pages_okE) blast
  show thesis
  proof (cases "page_free_list s")
    case None
    with xs(2,3) have "free_pages s = {}"
      by (simp add: free_list_def)
    with None show thesis by (intro none) (simp_all add: page_alloc_def)
  next
    case (Some pp)
    with xs(2) obtain ys where "xs = pp # ys"
      by (auto simp: free_list_def fl_path_Some)
    with xs(3,4) have pp: "pp \<in> free_pages s" "pp < unat (npages s)" by auto
    have "page_alloc flags s = Ret (Some pp) (after_alloc flags pp s)"
      using page2kva_Ret [of pp "upd_page pp (\<lambda>p. p\<lparr>pp_link := None\<rparr>)
          (s\<lparr>page_free_list := pp_link (pages s pp)\<rparr>)"] pp(2) xs(1) Some
      by (simp add: page_alloc_def after_alloc_def Let_def)
    with Some pp(1) show thesis by (rule some)
  qed
qed

lemma page_alloc_ok:
  assumes "pages_ok s" and "page_alloc flags s = Ret (Some pp) s'"
  shows "pages_ok s'" and "pp \<in> free_pages s" and "free_pages s' = free_pages s - {pp}"
    and "s' = after_alloc flags pp s"
proof -
  from assms(1) have "page_free_list s = Some pp \<and> s' = after_alloc flags pp s"
    by (rule page_alloc_cases [of s flags]) (use assms(2) in auto)
  then have pp: "page_free_list s = Some pp" and s': "s' = after_alloc flags pp s" by auto
  from assms(1) obtain xs where xs: "unat (npages s) \<le> 65536" "free_list s xs" "free_pages s = set xs"
    "\<And>p. p \<in> set xs \<Longrightarrow> p < unat (npages s) \<and> pp_ref (pages s p) = 0"
    "\<And>p. p < unat (npages s) \<Longrightarrow> p \<notin> set xs \<Longrightarrow> pp_link (pages s p) = None"
    by (rule pages_okE) blast
  from xs(2) pp obtain ys where ys: "xs = pp # ys" "fl_path (pages s) (pp_link (pages s pp)) ys"
    by (auto simp: free_list_def fl_path_Some)
  have "distinct xs"
    using xs(2) unfolding free_list_def by (rule fl_path_distinct)
  with ys have "pp \<notin> set ys" by simp
  then have fl: "free_list s' ys"
    using ys(2) by (simp add: free_list_def s')
  show "pages_ok s'"
    by (rule pages_okI [OF _ fl]) (use xs ys \<open>pp \<notin> set ys\<close> in \<open>auto simp: s'\<close>)
  show "pp \<in> free_pages s" using xs(3) ys(1) by simp
  show "free_pages s' = free_pages s - {pp}"
    using free_pages_eq [OF fl] xs(3) ys(1) \<open>pp \<notin> set ys\<close> by auto
  show "s' = after_alloc flags pp s" by (rule s')
qed

subsection \<open>Release\<close>

text \<open>A page that may be freed: inside the array, unreferenced, and not already on the list.\<close>

definition freeable :: "nat \<Rightarrow> kstate \<Rightarrow> bool" where
  "freeable pp s \<longleftrightarrow> pp < unat (npages s) \<and> pp_ref (pages s pp) = 0 \<and> pp \<notin> free_pages s"

definition after_free :: "nat \<Rightarrow> kstate \<Rightarrow> kstate" where
  "after_free pp s = (upd_page pp (\<lambda>p. p\<lparr>pp_link := page_free_list s\<rparr>) s)\<lparr>page_free_list := Some pp\<rparr>"

lemma after_free_simps [simp]:
  "pages (after_free pp s) = (pages s)(pp := (pages s pp)\<lparr>pp_link := page_free_list s\<rparr>)"
  "page_free_list (after_free pp s) = Some pp"
  "npages (after_free pp s) = npages s"
  "phys (after_free pp s) = phys s"
  by (simp_all add: after_free_def)

lemma page_free_ok:
  assumes "pages_ok s" and "freeable pp s"
  shows "page_free pp s = Ret () (after_free pp s)" and "pages_ok (after_free pp s)"
    and "free_pages (after_free pp s) = insert pp (free_pages s)"
proof -
  from assms(1) obtain xs where xs: "unat (npages s) \<le> 65536" "free_list s xs" "free_pages s = set xs"
    "\<And>p. p \<in> set xs \<Longrightarrow> p < unat (npages s) \<and> pp_ref (pages s p) = 0"
    "\<And>p. p < unat (npages s) \<Longrightarrow> p \<notin> set xs \<Longrightarrow> pp_link (pages s p) = None"
    by (rule pages_okE) blast
  from assms(2) xs(3) have pp: "pp < unat (npages s)" "pp_ref (pages s pp) = 0" "pp \<notin> set xs"
    by (auto simp: freeable_def)
  then have link: "pp_link (pages s pp) = None" using xs(5) by simp
  have fl: "free_list (after_free pp s) (pp # xs)"
    using xs(2) pp(3) by (simp add: free_list_def)
  show "page_free pp s = Ret () (after_free pp s)"
    using pp link by (simp add: page_free_def after_free_def)
  show "pages_ok (after_free pp s)"
    by (rule pages_okI [OF _ fl]) (use xs pp in auto)
  show "free_pages (after_free pp s) = insert pp (free_pages s)"
    using free_pages_eq [OF fl] xs(3) by simp
qed


lemma after_alloc_frame [simp]:
  "envs (after_alloc flags pp s) = envs s" "cpus (after_alloc flags pp s) = cpus s"
  "cpunum (after_alloc flags pp s) = cpunum s" "env_free_list (after_alloc flags pp s) = env_free_list s"
  "kern_pgdir (after_alloc flags pp s) = kern_pgdir s" "invlpg_log (after_alloc flags pp s) = invlpg_log s"
  "kernel_lock (after_alloc flags pp s) = kernel_lock s"
  by (simp_all add: after_alloc_def Let_def upd_page_def kmemset_def)

lemma after_free_frame [simp]:
  "envs (after_free pp s) = envs s" "cpus (after_free pp s) = cpus s"
  "cpunum (after_free pp s) = cpunum s" "env_free_list (after_free pp s) = env_free_list s"
  "kern_pgdir (after_free pp s) = kern_pgdir s" "invlpg_log (after_free pp s) = invlpg_log s"
  by (simp_all add: after_free_def upd_page_def)

lemma free_pages_bound: "pages_ok s \<Longrightarrow> p \<in> free_pages s \<Longrightarrow> p < unat (npages s)"
  by (erule pages_okE) auto

lemma free_pages_ref: "pages_ok s \<Longrightarrow> p \<in> free_pages s \<Longrightarrow> pp_ref (pages s p) = 0"
  by (erule pages_okE) auto

lemma pages_ok_npages: "pages_ok s \<Longrightarrow> unat (npages s) \<le> 65536"
  by (simp add: pages_ok_def)

lemma free_pages_finite: "pages_ok s \<Longrightarrow> finite (free_pages s)"
  by (erule pages_okE) auto

text \<open>Only an unreferenced page can be on the list, so changing a reference count of a page
  outside the list keeps everything well formed.\<close>

lemma pages_ok_set_ref:
  assumes "pages_ok s" and "pp \<notin> free_pages s"
  shows "pages_ok (upd_page pp (\<lambda>p. p\<lparr>pp_ref := f p\<rparr>) s)"
    and "free_pages (upd_page pp (\<lambda>p. p\<lparr>pp_ref := f p\<rparr>) s) = free_pages s"
proof -
  from assms(1) obtain xs where xs: "unat (npages s) \<le> 65536" "free_list s xs" "free_pages s = set xs"
    "\<And>p. p \<in> set xs \<Longrightarrow> p < unat (npages s) \<and> pp_ref (pages s p) = 0"
    "\<And>p. p < unat (npages s) \<Longrightarrow> p \<notin> set xs \<Longrightarrow> pp_link (pages s p) = None"
    by (rule pages_okE) blast
  have fl: "free_list (upd_page pp (\<lambda>p. p\<lparr>pp_ref := f p\<rparr>) s) xs"
    using xs(2,3) assms(2) by (simp add: free_list_def)
  show "pages_ok (upd_page pp (\<lambda>p. p\<lparr>pp_ref := f p\<rparr>) s)"
    by (rule pages_okI [OF _ fl]) (use xs assms(2) in auto)
  show "free_pages (upd_page pp (\<lambda>p. p\<lparr>pp_ref := f p\<rparr>) s) = free_pages s"
    using free_pages_eq [OF fl] xs(3) by simp
qed

lemma page_decref_ok:
  assumes "pages_ok s" and "pp < unat (npages s)" and "pp \<notin> free_pages s"
    and "pp_ref (pages s pp) \<noteq> 0"
  shows "\<exists>s'. page_decref pp s = Ret () s' \<and> pages_ok s' \<and> npages s' = npages s \<and> phys s' = phys s \<and>
    free_pages s' = (if pp_ref (pages s pp) = 1 then insert pp (free_pages s) else free_pages s) \<and>
    (\<forall>q. pp_ref (pages s' q) = (if q = pp then pp_ref (pages s pp) - 1 else pp_ref (pages s q)))"
proof -
  let ?s1 = "upd_page pp (\<lambda>p. p\<lparr>pp_ref := pp_ref p - 1\<rparr>) s"
  have ok1: "pages_ok ?s1" and fr1: "free_pages ?s1 = free_pages s"
    using pages_ok_set_ref [OF assms(1,3)] by auto
  show ?thesis
  proof (cases "pp_ref (pages s pp) = 1")
    case True
    then have "freeable pp ?s1"
      using assms(2,3) fr1 by (simp add: freeable_def)
    from page_free_ok [OF ok1 this] True fr1 show ?thesis
      by (simp add: page_decref_def Let_def)
  next
    case False
    then have "pp_ref (pages ?s1 pp) \<noteq> 0" by simp
    then have "page_decref pp s = Ret () ?s1"
      by (simp add: page_decref_def Let_def)
    with False ok1 fr1 show ?thesis by simp
  qed
qed

section \<open>The allocator as a resource pool\<close>

definition page_take :: "kstate \<Rightarrow> (nat \<times> kstate) option" where
  "page_take s = (case page_alloc 0 s of Ret (Some pp) s' \<Rightarrow> Some (pp, s') | _ \<Rightarrow> None)"

definition page_give :: "nat \<Rightarrow> kstate \<Rightarrow> kstate" where
  "page_give pp s = (case page_free pp s of Ret _ s' \<Rightarrow> s' | _ \<Rightarrow> s)"

interpretation page_pool: resource_pool pages_ok free_pages page_take freeable page_give
proof
  fix s :: kstate and r :: nat and s' :: kstate
  assume ok: "pages_ok s"
  show "finite (free_pages s)"
    using ok by (rule free_pages_finite)
  show "page_take s = None \<longleftrightarrow> free_pages s = {}"
    using ok by (rule page_alloc_cases [of s 0]) (auto simp: page_take_def)
  show "pages_ok s' \<and> r \<in> free_pages s \<and> free_pages s' = free_pages s - {r}"
    if "page_take s = Some (r, s')"
    using that page_alloc_ok [OF ok, of 0 r s']
    by (auto simp: page_take_def split: outcome.splits option.splits)
  show "r \<notin> free_pages s" if "freeable r s"
    using that by (simp add: freeable_def)
  show "pages_ok (page_give r s)" "free_pages (page_give r s) = insert r (free_pages s)"
    if "freeable r s"
    using page_free_ok [OF ok that] by (simp_all add: page_give_def)
qed


section \<open>Construction of the free list\<close>

text \<open>The pages \<open>page_init\<close> marks as in use: page 0, the I/O hole with the boot allocations
  behind it, and the page the application processors start from.\<close>

definition boot_used :: "u32 \<Rightarrow> u32 \<Rightarrow> u32 \<Rightarrow> nat \<Rightarrow> bool" where
  "boot_used bm num_iohole num_used i \<longleftrightarrow> i = 0 \<or>
     (of_nat i \<ge> bm \<and> of_nat i < bm + num_iohole + num_used) \<or>
     of_nat i = MPENTRY_PADDR div PGSIZE"

lemma page_init_step_alt:
  "page_init_step io us i s =
     (if boot_used (npages_basemem s) io us i
      then upd_page i (\<lambda>p. p\<lparr>pp_ref := 1, pp_link := None\<rparr>) s
      else (upd_page i (\<lambda>p. p\<lparr>pp_ref := 0, pp_link := page_free_list s\<rparr>) s)
             \<lparr>page_free_list := Some i\<rparr>)"
  by (simp add: page_init_step_def boot_used_def)

lemma page_init_step_frame [simp]:
  "npages (page_init_step io us i s) = npages s"
  "npages_basemem (page_init_step io us i s) = npages_basemem s"
  by (simp_all add: page_init_step_alt upd_page_def)

text \<open>The loop invariant of \<open>page_init\<close> after \<open>k\<close> rounds.\<close>

definition init_inv :: "kstate \<Rightarrow> (nat \<Rightarrow> bool) \<Rightarrow> nat \<Rightarrow> kstate \<Rightarrow> bool" where
  "init_inv s used k t \<longleftrightarrow> npages t = npages s \<and> npages_basemem t = npages_basemem s \<and>
    free_list t (rev (filter (\<lambda>i. \<not> used i) [0..<k])) \<and>
    (\<forall>i<k. pp_ref (pages t i) = (if used i then 1 else 0)) \<and>
    (\<forall>i<k. used i \<longrightarrow> pp_link (pages t i) = None)"

lemma init_inv_step:
  assumes "init_inv s (boot_used (npages_basemem s) io us) k t"
  shows "init_inv s (boot_used (npages_basemem s) io us) (Suc k) (page_init_step io us k t)"
proof (cases "boot_used (npages_basemem s) io us k")
  case True
  with assms show ?thesis
    by (auto simp: init_inv_def page_init_step_alt free_list_def less_Suc_eq)
next
  case False
  with assms show ?thesis
    by (auto simp: init_inv_def page_init_step_alt free_list_def less_Suc_eq)
qed

lemma page_init_loop:
  "page_free_list s = None \<Longrightarrow>
     init_inv s (boot_used (npages_basemem s) io us) k (fold (page_init_step io us) [0..<k] s)"
proof (induction k)
  case 0
  then show ?case by (simp add: init_inv_def free_list_def)
next
  case (Suc k)
  from init_inv_step [OF Suc.IH [OF Suc.prems]] show ?case by simp
qed

lemma boot_alloc_0:
  "nextfree s \<noteq> 0 \<Longrightarrow> boot_alloc kend 0 s = Ret (nextfree s) s"
  by (simp add: boot_alloc_def)

lemma page_init_spec:
  assumes "unat (npages s) \<le> 65536" and "page_free_list s = None" and "nextfree s \<ge> KERNBASE"
  defines "used \<equiv> boot_used (npages_basemem s) 0x60 ((nextfree s - KERNBASE - EXTPHYSMEM) div PGSIZE)"
  shows "\<exists>s'. page_init kend s = Ret () s' \<and> pages_ok s' \<and>
    free_pages s' = {p. p < unat (npages s) \<and> \<not> used p} \<and>
    (\<forall>p<unat (npages s). pp_ref (pages s' p) = (if used p then 1 else 0))"
proof -
  let ?us = "(nextfree s - KERNBASE - EXTPHYSMEM) div PGSIZE"
  let ?t = "fold (page_init_step 0x60 ?us) [0..<unat (npages s)] s"
  have nf: "nextfree s \<noteq> 0" and pa: "\<not> nextfree s < KERNBASE"
    using assms(3) by auto
  have "page_init kend s = Ret () ?t"
    using nf pa by (simp add: page_init_def boot_alloc_0 PADDR_def Let_def)
  moreover from page_init_loop [OF assms(2), of "0x60" ?us "unat (npages s)"]
  have t: "npages ?t = npages s" "free_list ?t (rev (filter (\<lambda>i. \<not> used i) [0..<unat (npages s)]))"
    "\<forall>i<unat (npages s). pp_ref (pages ?t i) = (if used i then 1 else 0)"
    "\<forall>i<unat (npages s). used i \<longrightarrow> pp_link (pages ?t i) = None"
    unfolding used_def init_inv_def by auto
  moreover have "pages_ok ?t"
    by (rule pages_okI [OF _ t(2)]) (use assms(1) t in auto)
  moreover have "free_pages ?t = {p. p < unat (npages s) \<and> \<not> used p}"
    using free_pages_eq [OF t(2)] by auto
  ultimately show ?thesis by blast
qed

text \<open>The bump allocator: successive requests return disjoint, page-aligned blocks.\<close>

lemma boot_alloc_Ret:
  assumes "boot_alloc kend n s = Ret r s'" and "nextfree s \<noteq> 0" and "n \<noteq> 0"
  shows "r = nextfree s" and "s' = s\<lparr>nextfree := ROUNDUP n PGSIZE + nextfree s\<rparr>"
    and "ROUNDUP n PGSIZE + nextfree s - KERNBASE \<le> npages s * PGSIZE"
  using assms by (auto simp: boot_alloc_def Let_def split: if_splits)

end
