(* ===== verification/Page_Table.thy ===== *)
theory Page_Table
  imports Page_Alloc
begin

text \<open>
  The two-level page tables of \<^verbatim>\<open>kern/pmap.c\<close>: \<open>pgdir_walk\<close>, \<open>page_lookup\<close>,
  \<open>page_insert\<close>, \<open>page_remove\<close>, \<open>tlb_invalidate\<close>, the boot-time
  \<open>boot_map_region\<close>, the device window \<open>mmio_map_region\<close> and the check of user pointers
  \<open>user_mem_check\<close>. Page directories and tables are frames of physical memory, read and
  written word by word through kernel pointers as in the code.
\<close>

section \<open>Definitions\<close>

definition pgdir_walk :: "u32 \<Rightarrow> u32 \<Rightarrow> bool \<Rightarrow> (kstate, u32 option) op" where
  "pgdir_walk pgdir va create =
     (let entry = pgdir + 4 * PDX va
      in kbind (kget (kld entry)) (\<lambda>pde.
         kbind
           (if pde AND PTE_P = 0
            then if create
                 then kbind (page_alloc 1) (\<lambda>new_page. case new_page of
                        None \<Rightarrow> kret False
                      | Some np \<Rightarrow>
                          kthen (kmod (upd_page np (\<lambda>p. p\<lparr>pp_ref := pp_ref p + 1\<rparr>)))
                          (kthen (kmod (kst entry (page2pa np OR PTE_P OR PTE_W OR PTE_U)))
                          (kret True)))
                 else kret False
            else kret True)
           (\<lambda>present. if \<not> present then kret None
              else kbind (kget (kld entry)) (\<lambda>pde'.
                   kbind (KADDR (PTE_ADDR pde')) (\<lambda>page_base.
                   kret (Some (page_base + 4 * PTX va)))))))"

text \<open>\<open>page_lookup\<close> returns the page and the address it would store through
  \<^verbatim>\<open>pte_store\<close>.\<close>

definition page_lookup :: "u32 \<Rightarrow> u32 \<Rightarrow> (kstate, (nat \<times> u32) option) op" where
  "page_lookup pgdir va =
     kbind (pgdir_walk pgdir va False) (\<lambda>entry. case entry of
       None \<Rightarrow> kret None
     | Some e \<Rightarrow>
         kbind (kget (kld e)) (\<lambda>pte.
         if pte AND PTE_P = 0 then kret None
         else kbind (pa2page (PTE_ADDR pte)) (\<lambda>pp. kret (Some (pp, e)))))"

definition tlb_invalidate :: "u32 \<Rightarrow> u32 \<Rightarrow> kstate \<Rightarrow> kstate" where
  "tlb_invalidate pgdir va s =
     (case curenv s of
        None \<Rightarrow> s\<lparr>invlpg_log := va # invlpg_log s\<rparr>
      | Some e \<Rightarrow> if env_pgdir (envs s e) = pgdir then s\<lparr>invlpg_log := va # invlpg_log s\<rparr> else s)"

definition page_remove :: "u32 \<Rightarrow> u32 \<Rightarrow> (kstate, unit) op" where
  "page_remove pgdir va =
     kbind (page_lookup pgdir va) (\<lambda>r. case r of
       None \<Rightarrow> kret ()
     | Some (page, pte) \<Rightarrow>
         kthen (page_decref page)
         (kthen (kmod (tlb_invalidate pgdir va))
         (kmod (kst pte 0))))"

definition page_insert :: "u32 \<Rightarrow> nat \<Rightarrow> u32 \<Rightarrow> u32 \<Rightarrow> (kstate, int) op" where
  "page_insert pgdir pp va perm =
     kbind (pgdir_walk pgdir va True) (\<lambda>entry. case entry of
       None \<Rightarrow> kret (- E_NO_MEM)
     | Some e \<Rightarrow>
         kthen (kmod (upd_page pp (\<lambda>p. p\<lparr>pp_ref := pp_ref p + 1\<rparr>)))
         (kbind (kget (kld e)) (\<lambda>pte.
          kthen (if pte AND PTE_P \<noteq> 0
                 then kthen (kmod (tlb_invalidate pgdir va)) (page_remove pgdir va)
                 else kret ())
         (kthen (kmod (kst e (page2pa pp OR perm OR PTE_P)))
         (kthen (kmod (\<lambda>s. kst (pgdir + 4 * PDX va) (kld (pgdir + 4 * PDX va) s OR perm) s))
         (kret 0))))))"

text \<open>
  The loop counter is an \<^verbatim>\<open>int\<close> compared with the unsigned \<^verbatim>\<open>size\<close>; it does
  not overflow for the sizes below 2 GiB that the kernel passes. A null entry (no page for a page
  table) is dereferenced and faults.
\<close>

function boot_map_loop :: "u32 \<Rightarrow> nat \<Rightarrow> nat \<Rightarrow> u32 \<Rightarrow> u32 \<Rightarrow> u32 \<Rightarrow> (kstate, unit) op" where
  "boot_map_loop pgdir add sz va pa perm =
     (if add < sz
      then kbind (pgdir_walk pgdir va True) (\<lambda>entry. case entry of
             None \<Rightarrow> kpanic ''boot_map_region: null page table entry''
           | Some e \<Rightarrow> kthen (kmod (kst e (pa OR perm OR PTE_P)))
               (boot_map_loop pgdir (add + 4096) sz (va + PGSIZE) (pa + PGSIZE) perm))
      else kret ())"
  by pat_completeness auto
termination
  by (relation "measure (\<lambda>(pgdir, add, sz, va, pa, perm). sz - add)") auto

declare boot_map_loop.simps [simp del]

definition boot_map_region :: "u32 \<Rightarrow> u32 \<Rightarrow> u32 \<Rightarrow> u32 \<Rightarrow> u32 \<Rightarrow> (kstate, unit) op" where
  "boot_map_region pgdir va sz pa perm = boot_map_loop pgdir 0 (unat sz) va pa perm"

definition mmio_map_region :: "u32 \<Rightarrow> u32 \<Rightarrow> (kstate, u32) op" where
  "mmio_map_region pa0 sz0 s =
     (let pa = ROUNDDOWN pa0 PGSIZE;
          sz = ROUNDUP (pa0 + sz0) PGSIZE - pa
      in if sz + mmio_base s \<ge> MMIOLIM then Panic ''At mmio_map_region(): overflow MMIOLIM''
         else kthen (boot_map_region (kern_pgdir s) (mmio_base s) sz pa
                       (PTE_W OR PTE_PCD OR PTE_PWT))
              (kthen (kmod (\<lambda>s. s\<lparr>mmio_base := mmio_base s + sz\<rparr>))
              (kget (\<lambda>s. mmio_base s - sz))) s)"

text \<open>
  The loop of \<open>user_mem_check\<close> returns the address at which it stopped, or \<open>None\<close> when
  every page passed. It never runs past \<^verbatim>\<open>ULIM\<close>, so the address does not wrap.
\<close>

function user_mem_loop :: "u32 \<Rightarrow> u32 \<Rightarrow> u32 \<Rightarrow> u32 \<Rightarrow> (kstate, u32 option) op" where
  "user_mem_loop pgdir perm stop address =
     (if address < stop
      then if address \<ge> ULIM then kret (Some address)
           else kbind (page_lookup pgdir address) (\<lambda>r. case r of
                  None \<Rightarrow> kret (Some address)
                | Some (pp, entry) \<Rightarrow>
                    kbind (kget (kld entry)) (\<lambda>pte.
                    if pte AND perm = 0 then kret (Some address)
                    else user_mem_loop pgdir perm stop (address + PGSIZE)))
      else kret None)"
  by pat_completeness auto
termination
proof (relation "measure (\<lambda>(pgdir, perm, stop, address). unat stop - unat address)", goal_cases)
  case 1
  show ?case by simp
next
  case (2 pgdir perm stop address)
  then have "unat address < unat stop" and "unat address < 4018143232"
    by (simp_all add: word_less_nat_alt not_le)
  moreover from this have "unat (address + PGSIZE) = unat address + 4096"
    using unat_add_lt32 [of address PGSIZE] by simp
  ultimately show ?case by simp
qed

declare user_mem_loop.simps [simp del]

definition user_mem_check :: "u32 \<Rightarrow> u32 \<Rightarrow> u32 \<Rightarrow> u32 \<Rightarrow> (kstate, int) op" where
  "user_mem_check pgdir va len perm =
     kbind (user_mem_loop pgdir (perm OR PTE_U OR PTE_P) (ROUNDUP (va + len) PGSIZE)
              (ROUNDDOWN va PGSIZE)) (\<lambda>r. case r of
       None \<Rightarrow> kret 0
     | Some address \<Rightarrow>
         kthen (kmod (\<lambda>s. s\<lparr>user_mem_check_addr :=
                  (if address = va then address else ROUNDDOWN address PGSIZE)\<rparr>))
         (kret (- E_FAULT)))"

text \<open>The page-table walk that the self-tests use, \<open>check_va2pa\<close>.\<close>

definition check_va2pa :: "u32 \<Rightarrow> u32 \<Rightarrow> (kstate, u32) op" where
  "check_va2pa pgdir va =
     kbind (kget (kld (pgdir + 4 * PDX va))) (\<lambda>pde.
     if pde AND PTE_P = 0 then kret (NOT 0)
     else kbind (KADDR (PTE_ADDR pde)) (\<lambda>p.
          kbind (kget (kld (p + 4 * PTX va))) (\<lambda>pte.
          if pte AND PTE_P = 0 then kret (NOT 0) else kret (PTE_ADDR pte))))"

end
