(* ===== verification/Address_Space.thy ===== *)
theory Address_Space
  imports Page_Table
begin

text \<open>
  The abstract view of the page tables and the proof that \<open>page_insert\<close>,
  \<open>page_remove\<close> and \<open>page_lookup\<close> implement it.

  A set \<open>D\<close> of page-directory frames describes the address spaces of the live
  environments. \<open>vmap s d va\<close> is the page and the permissions that directory \<open>d\<close> gives to
  the page of \<open>va\<close>: this is the specification of an address space, a partial map. The
  invariant \<open>vm_ok s D ext\<close> says that the directory and table frames are pairwise distinct
  and never mapped by users, that everything mapped lies inside physical memory, and that the
  reference count of every page is the number of its mappings (plus \<open>ext\<close>, the references
  the kernel holds outside the user part of the tables). From it follows that a page on the
  free list is mapped nowhere.
\<close>

section \<open>Entries of a frame\<close>

definition slot :: "kstate \<Rightarrow> nat \<Rightarrow> nat \<Rightarrow> u32" where
  "slot s f i = load32 (phys s) (4 * (1024 * f + i))"

definition set_slot :: "nat \<Rightarrow> nat \<Rightarrow> u32 \<Rightarrow> kstate \<Rightarrow> kstate" where
  "set_slot f i v s = s\<lparr>phys := store32 (phys s) (4 * (1024 * f + i)) v\<rparr>"

abbreviation kv :: "nat \<Rightarrow> u32" where
  "kv f \<equiv> page2pa f + KERNBASE"

abbreviation present :: "u32 \<Rightarrow> bool" where
  "present w \<equiv> w AND PTE_P \<noteq> 0"

definition frame :: "u32 \<Rightarrow> nat" where
  "frame w = unat (PGNUM w)"

lemma slot_index_inj:
  assumes "i < 1024" and "j < (1024::nat)"
  shows "1024 * f + i = 1024 * g + j \<longleftrightarrow> f = g \<and> i = j"
proof
  assume eq: "1024 * f + i = 1024 * g + j"
  have "(1024 * f + i) div 1024 = f" and "(1024 * g + j) div 1024 = g"
    using assms by simp_all
  with eq have "f = g" by simp
  with eq show "f = g \<and> i = j" by simp
qed simp

lemma slot_set_slot:
  "i < 1024 \<Longrightarrow> j < 1024 \<Longrightarrow>
     slot (set_slot f i v s) g j = (if g = f \<and> j = i then v else slot s g j)"
  using slot_index_inj [of j i g f] wmem.ld_st [of "phys s" "1024 * f + i" v "1024 * g + j"]
  by (simp add: slot_def set_slot_def)

lemma set_slot_frame [simp]:
  "pages (set_slot f i v s) = pages s" "page_free_list (set_slot f i v s) = page_free_list s"
  "npages (set_slot f i v s) = npages s" "envs (set_slot f i v s) = envs s"
  "cpus (set_slot f i v s) = cpus s" "cpunum (set_slot f i v s) = cpunum s"
  "kern_pgdir (set_slot f i v s) = kern_pgdir s"
  "env_free_list (set_slot f i v s) = env_free_list s"
  by (simp_all add: set_slot_def)

lemma slot_upd_page [simp]: "slot (upd_page p f s) g j = slot s g j"
  by (simp add: slot_def)

lemma kv_ge: "f < 65536 \<Longrightarrow> KERNBASE \<le> kv f"
  using unat_add_lt32 [of "page2pa f" KERNBASE] unat_page2pa [of f] by (simp add: word_le_nat_alt)

lemma kva_offset:
  assumes "f < 65536" and "unat idx < 1024"
  shows "unat (kv f + 4 * idx - KERNBASE) = 4 * (1024 * f + unat idx)"
proof -
  have "unat (4 * idx) = 4 * unat idx"
    using assms(2) by (simp add: unat_word_ariths)
  moreover have "kv f + 4 * idx - KERNBASE = page2pa f + 4 * idx"
    by simp
  ultimately show ?thesis
    using assms unat_add_lt32 [of "page2pa f" "4 * idx"] by (simp add: unat_page2pa)
qed

lemma kld_entry:
  "f < 65536 \<Longrightarrow> unat idx < 1024 \<Longrightarrow> kld (kv f + 4 * idx) s = slot s f (unat idx)"
  by (simp only: kld_def slot_def kva_offset)

lemma kst_entry:
  "f < 65536 \<Longrightarrow> unat idx < 1024 \<Longrightarrow> kst (kv f + 4 * idx) v s = set_slot f (unat idx) v s"
  by (simp only: kst_def set_slot_def kva_offset)

lemma PTE_ADDR_frame: "PTE_ADDR w = page2pa (frame w)"
proof (rule word_eq_unatI)
  have "frame w < 1048576"
    by (simp add: frame_def)
  then show "unat (PTE_ADDR w) = unat (page2pa (frame w))"
    by (simp add: unat_page2pa unat_PTE_ADDR frame_def unat_PGNUM minus_mod_eq_mult_div)
qed

lemma frame_page2pa [simp]: "f < 1048576 \<Longrightarrow> frame (page2pa f) = f"
  by (simp add: frame_def)

lemma frame_PTE_ADDR [simp]: "frame (PTE_ADDR w) = frame w"
  by (simp add: PTE_ADDR_frame frame_def)

lemma KADDR_frame:
  "frame w < unat (npages s) \<Longrightarrow> KADDR (PTE_ADDR w) s = Ret (kv (frame w)) s"
  using frame_PTE_ADDR [of w]
  by (simp add: KADDR_def word_le_nat_alt PTE_ADDR_frame frame_def)

lemma pa2page_frame:
  "frame w < unat (npages s) \<Longrightarrow> pa2page (PTE_ADDR w) s = Ret (frame w) s"
  using frame_PTE_ADDR [of w] by (simp add: pa2page_def word_le_nat_alt frame_def)

text \<open>Or-ing flag bits into an entry keeps its frame.\<close>

lemma frame_or_low:
  assumes "perm AND NOT 0xFFF = 0"
  shows "frame (w OR perm) = frame w"
proof -
  have "PTE_ADDR (w OR perm) = PTE_ADDR w"
    using assms by (simp add: PTE_ADDR_def bit.conj_disj_distrib2)
  then show ?thesis by (metis frame_PTE_ADDR)
qed

lemma frame_entry:
  "f < 1048576 \<Longrightarrow> perm AND NOT 0xFFF = 0 \<Longrightarrow> frame (page2pa f OR perm) = f"
  by (simp add: frame_or_low)

lemma low_flags:
  assumes "perm AND NOT 0xFFF = 0"
  shows "(page2pa pp OR perm) AND 0xFFF = perm"
proof -
  have "perm AND 0xFFF = perm"
    using assms by (metis and.right_neutral bit.conj_disj_distrib bit.disj_cancel_right or.right_neutral)
  moreover have "page2pa pp AND 0xFFF = 0"
    by (rule page2pa_and_low) simp
  ultimately show ?thesis
    by (simp add: bit.conj_disj_distrib2)
qed

lemma present_or [simp]: "present (w OR PTE_P)"
  by (simp add: bit.conj_disj_distrib2)

lemma present_or_mono: "present w \<Longrightarrow> present (w OR v)"
  by (metis bit.conj_disj_distrib2 or_eq_0_iff)


section \<open>The invariant\<close>

text \<open>The user part of a directory has \<open>PDX(UTOP)\<close> = 955 entries.\<close>

abbreviation (input) UPDES :: nat where "UPDES \<equiv> 955"

definition tables :: "kstate \<Rightarrow> nat set \<Rightarrow> (nat \<times> nat) set" where
  "tables s D = {(d, i). d \<in> D \<and> i < UPDES \<and> present (slot s d i)}"

definition tfr :: "kstate \<Rightarrow> nat \<times> nat \<Rightarrow> nat" where
  "tfr s t = frame (slot s (fst t) (snd t))"

definition maps :: "kstate \<Rightarrow> nat set \<Rightarrow> ((nat \<times> nat) \<times> nat) set" where
  "maps s D = {(t, j). t \<in> tables s D \<and> j < 1024 \<and> present (slot s (tfr s t) j)}"

definition mfr :: "kstate \<Rightarrow> (nat \<times> nat) \<times> nat \<Rightarrow> nat" where
  "mfr s m = frame (slot s (tfr s (fst m)) (snd m))"

definition refs :: "kstate \<Rightarrow> nat set \<Rightarrow> nat \<Rightarrow> nat" where
  "refs s D q = card {m \<in> maps s D. mfr s m = q} + card {t \<in> tables s D. tfr s t = q}
     + (if q \<in> D then 1 else 0)"

definition vm_ok :: "kstate \<Rightarrow> nat set \<Rightarrow> (nat \<Rightarrow> nat) \<Rightarrow> bool" where
  "vm_ok s D ext \<longleftrightarrow> pages_ok s \<and> finite D \<and> (\<forall>d\<in>D. d < unat (npages s)) \<and>
     (\<forall>t\<in>tables s D. tfr s t < unat (npages s) \<and> tfr s t \<notin> D) \<and>
     inj_on (tfr s) (tables s D) \<and>
     (\<forall>m\<in>maps s D. mfr s m < unat (npages s) \<and> mfr s m \<notin> D \<and> mfr s m \<notin> tfr s ` tables s D) \<and>
     (\<forall>q<unat (npages s). unat (pp_ref (pages s q)) = refs s D q + ext q)"

text \<open>What an address space maps: the page of \<open>va\<close> and the flag bits of its entry.\<close>

definition vmap :: "kstate \<Rightarrow> nat \<Rightarrow> u32 \<Rightarrow> (nat \<times> u32) option" where
  "vmap s d va =
     (let pde = slot s d (unat (PDX va)); pte = slot s (frame pde) (unat (PTX va))
      in if present pde \<and> present pte then Some (frame pte, pte AND 0xFFF) else None)"

lemma finite_tables: "finite D \<Longrightarrow> finite (tables s D)"
  by (rule finite_subset [of _ "D \<times> {..<UPDES}"]) (auto simp: tables_def)

lemma finite_maps: "finite D \<Longrightarrow> finite (maps s D)"
  by (rule finite_subset [of _ "tables s D \<times> {..<1024}"]) (auto simp: maps_def finite_tables)

lemma vm_okD:
  assumes "vm_ok s D ext"
  shows "pages_ok s" and "finite D" and "unat (npages s) \<le> 65536"
    and "d \<in> D \<Longrightarrow> d < unat (npages s)"
    and "t \<in> tables s D \<Longrightarrow> tfr s t < unat (npages s) \<and> tfr s t \<notin> D"
    and "inj_on (tfr s) (tables s D)"
    and "m \<in> maps s D \<Longrightarrow> mfr s m < unat (npages s) \<and> mfr s m \<notin> D \<and> mfr s m \<notin> tfr s ` tables s D"
    and "q < unat (npages s) \<Longrightarrow> unat (pp_ref (pages s q)) = refs s D q + ext q"
  using assms unfolding vm_ok_def by (auto simp: pages_ok_def)

lemma vm_okI:
  assumes "pages_ok s" and "finite D" and "\<And>d. d \<in> D \<Longrightarrow> d < unat (npages s)"
    and "\<And>t. t \<in> tables s D \<Longrightarrow> tfr s t < unat (npages s) \<and> tfr s t \<notin> D"
    and "inj_on (tfr s) (tables s D)"
    and "\<And>m. m \<in> maps s D \<Longrightarrow> mfr s m < unat (npages s) \<and> mfr s m \<notin> D \<and> mfr s m \<notin> tfr s ` tables s D"
    and "\<And>q. q < unat (npages s) \<Longrightarrow> unat (pp_ref (pages s q)) = refs s D q + ext q"
  shows "vm_ok s D ext"
  using assms unfolding vm_ok_def by blast

lemma refs_0:
  assumes "vm_ok s D ext" and "refs s D q = 0"
  shows "q \<notin> D" and "q \<notin> tfr s ` tables s D" and "q \<notin> mfr s ` maps s D"
proof -
  note fin = vm_okD(2) [OF assms(1)]
  have "{m \<in> maps s D. mfr s m = q} = {}" "{t \<in> tables s D. tfr s t = q} = {}" "q \<notin> D"
    using assms(2) finite_maps [OF fin, of s] finite_tables [OF fin, of s]
    by (simp_all add: refs_def split: if_splits)
  then show "q \<notin> D" "q \<notin> tfr s ` tables s D" "q \<notin> mfr s ` maps s D" by auto
qed

lemma free_not_used:
  assumes "vm_ok s D ext" and "q \<in> free_pages s"
  shows "q \<notin> D" and "q \<notin> tfr s ` tables s D" and "q \<notin> mfr s ` maps s D" and "ext q = 0"
proof -
  have "q < unat (npages s)" "pp_ref (pages s q) = 0"
    using assms vm_okD(1) free_pages_bound free_pages_ref by blast+
  then have "refs s D q = 0" "ext q = 0"
    using vm_okD(8) [OF assms(1), of q] by simp_all
  with refs_0 [OF assms(1)] show "q \<notin> D" "q \<notin> tfr s ` tables s D" "q \<notin> mfr s ` maps s D" "ext q = 0"
    by auto
qed

lemma used_not_free:
  assumes "vm_ok s D ext"
  shows "d \<in> D \<Longrightarrow> d \<notin> free_pages s" and "t \<in> tables s D \<Longrightarrow> tfr s t \<notin> free_pages s"
    and "m \<in> maps s D \<Longrightarrow> mfr s m \<notin> free_pages s"
  using free_not_used [OF assms] by blast+

subsection \<open>How a write changes the view\<close>

text \<open>Writes that keep the presence and the frame of every directory entry and the contents of
  every table.\<close>

lemma view_cong:
  assumes "\<And>d i. d \<in> D \<Longrightarrow> i < UPDES \<Longrightarrow>
      present (slot s' d i) = present (slot s d i) \<and> frame (slot s' d i) = frame (slot s d i)"
    and "\<And>t j. t \<in> tables s D \<Longrightarrow> j < 1024 \<Longrightarrow> slot s' (tfr s t) j = slot s (tfr s t) j"
  shows "tables s' D = tables s D" and "t \<in> tables s D \<Longrightarrow> tfr s' t = tfr s t"
    and "maps s' D = maps s D" and "m \<in> maps s D \<Longrightarrow> mfr s' m = mfr s m"
    and "refs s' D q = refs s D q"
proof -
  show tab: "tables s' D = tables s D"
    using assms(1) by (auto simp: tables_def)
  have tfr: "tfr s' t = tfr s t" if "t \<in> tables s D" for t
    using assms(1) that by (auto simp: tables_def tfr_def)
  then show "t \<in> tables s D \<Longrightarrow> tfr s' t = tfr s t" .
  show map: "maps s' D = maps s D"
    using assms(2) tfr by (auto simp: maps_def tab)
  have mfr: "mfr s' m = mfr s m" if "m \<in> maps s D" for m
    using assms(2) tfr that by (auto simp: maps_def mfr_def)
  then show "m \<in> maps s D \<Longrightarrow> mfr s' m = mfr s m" .
  have "{m \<in> maps s D. mfr s' m = q} = {m \<in> maps s D. mfr s m = q}"
    and "{t \<in> tables s D. tfr s' t = q} = {t \<in> tables s D. tfr s t = q}"
    using mfr tfr by auto
  then show "refs s' D q = refs s D q"
    by (simp add: refs_def tab map)
qed

lemma vm_ok_cong:
  assumes "vm_ok s D ext"
    and "\<And>d i. d \<in> D \<Longrightarrow> i < UPDES \<Longrightarrow>
      present (slot s' d i) = present (slot s d i) \<and> frame (slot s' d i) = frame (slot s d i)"
    and "\<And>t j. t \<in> tables s D \<Longrightarrow> j < 1024 \<Longrightarrow> slot s' (tfr s t) j = slot s (tfr s t) j"
    and "pages_ok s'" and "npages s' = npages s"
    and "\<And>q. q < unat (npages s) \<Longrightarrow>
      unat (pp_ref (pages s' q)) = refs s D q + ext' q"
  shows "vm_ok s' D ext'"
proof -
  note view = view_cong [where s = s and s' = s', OF assms(2,3)]
  have "tfr s' ` tables s D = tfr s ` tables s D"
    using view(2) by auto
  moreover have "inj_on (tfr s') (tables s D)"
    using vm_okD(6) [OF assms(1)] inj_on_cong [of "tables s D" "tfr s'" "tfr s"] view(2) by blast
  ultimately show ?thesis
    using vm_okD(2,4,5,7) [OF assms(1)] assms(4-6)
    by (intro vm_okI) (auto simp: view)
qed


subsection \<open>A reference, a flag, a new table\<close>

lemma vm_ok_incref:
  assumes "vm_ok s D ext" and "pp \<notin> free_pages s"
    and "unat (pp_ref (pages s pp)) < 65535"
  shows "vm_ok (upd_page pp (\<lambda>p. p\<lparr>pp_ref := pp_ref p + 1\<rparr>) s) D (ext(pp := ext pp + 1))"
proof (rule vm_ok_cong [OF assms(1)])
  show "pages_ok (upd_page pp (\<lambda>p. p\<lparr>pp_ref := pp_ref p + 1\<rparr>) s)"
    using pages_ok_set_ref(1) [OF vm_okD(1) [OF assms(1)] assms(2), of "\<lambda>p. pp_ref p + 1"] by simp
  fix q assume "q < unat (npages s)"
  then show "unat (pp_ref (pages (upd_page pp (\<lambda>p. p\<lparr>pp_ref := pp_ref p + 1\<rparr>) s) q)) =
      refs s D q + (ext(pp := ext pp + 1)) q"
    using vm_okD(8) [OF assms(1), of q] assms(3)
    by (auto simp: unat_word_ariths)
qed simp_all

lemma vm_ok_or_pde:
  assumes "vm_ok s D ext" and "(d, i) \<in> tables s D" and "perm AND NOT 0xFFF = 0"
  shows "vm_ok (set_slot d i (slot s d i OR perm) s) D ext"
proof (rule vm_ok_cong [OF assms(1)])
  let ?s = "set_slot d i (slot s d i OR perm) s"
  have di: "d \<in> D" "i < 955" "present (slot s d i)"
    using assms(2) by (auto simp: tables_def)
  then have "present (slot s d i OR perm)" and "frame (slot s d i OR perm) = frame (slot s d i)"
    using assms(3) present_or_mono frame_or_low by blast+
  then show "present (slot ?s d' i') = present (slot s d' i') \<and> frame (slot ?s d' i') = frame (slot s d' i')"
    if "d' \<in> D" "i' < 955" for d' i'
    using di that by (auto simp: slot_set_slot)
  show "slot ?s (tfr s t) j = slot s (tfr s t) j" if "t \<in> tables s D" "j < 1024" for t j
    using vm_okD(5) [OF assms(1) that(1)] di that(2) by (auto simp: slot_set_slot)
  show "pages_ok ?s"
    using vm_okD(1) [OF assms(1)] pages_ok_cong(1) [of ?s s] by simp
qed (use vm_okD(8) [OF assms(1)] in simp_all)

text \<open>\<open>pgdir_walk\<close> with an absent directory entry: a zeroed frame becomes a page table.\<close>

definition new_table :: "nat \<Rightarrow> nat \<Rightarrow> nat \<Rightarrow> kstate \<Rightarrow> kstate" where
  "new_table d i np s = set_slot d i (page2pa np OR PTE_P OR PTE_W OR PTE_U)
     (upd_page np (\<lambda>p. p\<lparr>pp_ref := pp_ref p + 1\<rparr>) (after_alloc 1 np s))"

lemma slot_after_alloc_zero:
  assumes "np < 65536" and "j < 1024"
  shows "slot (after_alloc 1 np s) g j = (if g = np then 0 else slot s g j)"
proof -
  have pa: "unat (kv np - KERNBASE) = 4096 * np"
    using assms(1) by (simp add: unat_page2pa)
  have "phys (after_alloc 1 np s) = mem_fill (phys s) (4096 * np) 4096 0"
    using pa by (simp add: after_alloc_def Let_def)
  moreover have "4096 * g + 4 * j + 4 \<le> 4096 * np \<or> 4096 * np + 4096 \<le> 4096 * g + 4 * j" if "g \<noteq> np"
    using that assms(2) by (cases g np rule: linorder_cases) auto
  ultimately show ?thesis
    using assms(2) by (auto simp: slot_def load32_mem_fill_zero load32_mem_fill_other)
qed

lemma slot_new_table:
  assumes "np < 65536" and "j < 1024" and "i < 1024" and "np \<noteq> d"
  shows "slot (new_table d i np s) g j =
    (if g = d \<and> j = i then page2pa np OR PTE_P OR PTE_W OR PTE_U
     else if g = np then 0 else slot s g j)"
  using assms by (simp add: new_table_def slot_set_slot slot_after_alloc_zero)

lemma table_entry:
  "np < 65536 \<Longrightarrow> frame (page2pa np OR PTE_P OR PTE_W OR PTE_U) = np"
  "present (page2pa np OR PTE_P OR PTE_W OR PTE_U)"
proof -
  have eq: "page2pa np OR PTE_P OR PTE_W OR PTE_U = (page2pa np OR PTE_W OR PTE_U) OR PTE_P"
    by (simp only: or.assoc or.commute or.left_commute)
  show "present (page2pa np OR PTE_P OR PTE_W OR PTE_U)"
    unfolding eq by (rule present_or)
qed (use frame_entry [of np 7] in simp)

lemma vm_ok_new_table:
  assumes ok: "vm_ok s D ext" and d: "d \<in> D" "i < 955" "\<not> present (slot s d i)"
    and np: "page_alloc 1 s = Ret (Some np) (after_alloc 1 np s)"
  shows "vm_ok (new_table d i np s) D ext"
    and "tables (new_table d i np s) D = insert (d, i) (tables s D)"
    and "tfr (new_table d i np s) (d, i) = np"
    and "free_pages (new_table d i np s) = free_pages s - {np}"
proof -
  let ?s = "new_table d i np s"
  note okD = vm_okD [OF ok]
  have al: "pages_ok (after_alloc 1 np s)" "np \<in> free_pages s"
    "free_pages (after_alloc 1 np s) = free_pages s - {np}"
    using page_alloc_ok [OF okD(1) np] by auto
  have npD: "np \<notin> D" "np \<notin> tfr s ` tables s D" "np \<notin> mfr s ` maps s D" "ext np = 0"
    using free_not_used [OF ok al(2)] .
  have npb: "np < unat (npages s)" "np < 65536"
    using free_pages_bound [OF okD(1) al(2)] okD(3) by auto
  have ref0: "pp_ref (pages s np) = 0"
    using free_pages_ref [OF okD(1) al(2)] .
  have slot: "slot ?s g j = (if g = d \<and> j = i then page2pa np OR PTE_P OR PTE_W OR PTE_U
     else if g = np then 0 else slot s g j)" if "j < 1024" for g j
    using that d npD(1) npb(2) by (subst slot_new_table) auto
  show tab: "tables ?s D = insert (d, i) (tables s D)"
    using d npD(1) table_entry(2) [of np] by (auto simp: tables_def slot split: if_splits)
  show tnew: "tfr ?s (d, i) = np"
    using d npb(2) table_entry(1) [of np] by (simp add: tfr_def slot)
  have told: "tfr ?s t = tfr s t" if "t \<in> tables s D" for t
    using that d npD(1) by (auto simp: tfr_def tables_def slot)
  have old: "t \<noteq> (d, i)" if "t \<in> tables s D" for t
    using that d(3) by (auto simp: tables_def)
  have sold: "slot ?s (tfr s t) j = slot s (tfr s t) j" if "t \<in> tables s D" "j < 1024" for t j
    using that okD(5) [OF that(1)] npD(2) d(1) by (auto simp: slot)
  have snew: "slot ?s np j = 0" if "j < 1024" for j
    using that npD(1) d(1) by (auto simp: slot)
  have map: "maps ?s D = maps s D"
    using tnew told sold snew by (auto simp: maps_def tab)
  have mfr: "mfr ?s m = mfr s m" if "m \<in> maps s D" for m
    using that told sold by (auto simp: maps_def mfr_def)
  have pg: "pages ?s = (pages s)(np := (pages s np)\<lparr>pp_link := None, pp_ref := pp_ref (pages s np) + 1\<rparr>)"
    by (simp add: new_table_def)
  show "free_pages ?s = free_pages s - {np}"
    using pages_ok_set_ref(2) [OF al(1), of np "\<lambda>p. pp_ref p + 1"] al(3)
      pages_ok_cong(2) [of ?s "upd_page np (\<lambda>p. p\<lparr>pp_ref := pp_ref p + 1\<rparr>) (after_alloc 1 np s)"]
    by (simp add: new_table_def)
  have refs: "refs ?s D q = (if q = np then 1 else refs s D q)" for q
  proof -
    have 1: "{m \<in> maps ?s D. mfr ?s m = q} = {m \<in> maps s D. mfr s m = q}"
      using mfr by (auto simp: map)
    have 2: "{t \<in> tables ?s D. tfr ?s t = q} =
        (if q = np then insert (d, i) {t \<in> tables s D. tfr s t = q} else {t \<in> tables s D. tfr s t = q})"
      using told tnew by (auto simp: tab)
    have 3: "{t \<in> tables s D. tfr s t = np} = {}" "{m \<in> maps s D. mfr s m = np} = {}"
      using npD by auto
    show ?thesis
    proof (cases "q = np")
      case True
      show ?thesis unfolding refs_def 1 2 unfolding True if_True 3 using npD(1) by simp
    next
      case False
      then show ?thesis unfolding refs_def 1 2 by simp
    qed
  qed
  show "vm_ok ?s D ext"
  proof (rule vm_okI)
    show "pages_ok ?s"
      using pages_ok_set_ref(1) [OF al(1), of np "\<lambda>p. pp_ref p + 1"] al(3)
        pages_ok_cong(1) [of ?s "upd_page np (\<lambda>p. p\<lparr>pp_ref := pp_ref p + 1\<rparr>) (after_alloc 1 np s)"]
      by (simp add: new_table_def)
    show "inj_on (tfr ?s) (tables ?s D)"
      using okD(6) told tnew npD(2) by (auto simp: tab inj_on_def)
    have np': "npages ?s = npages s" by (simp add: new_table_def)
    have tims: "tfr ?s ` tables ?s D = insert np (tfr s ` tables s D)"
      unfolding tab image_insert tnew using told by (auto simp: image_def)
    show "tfr ?s t < unat (npages ?s) \<and> tfr ?s t \<notin> D" if "t \<in> tables ?s D" for t
      using that told [of t] tnew okD(5) [of t] npb npD(1) by (auto simp: tab np')
    show "mfr ?s m < unat (npages ?s) \<and> mfr ?s m \<notin> D \<and> mfr ?s m \<notin> tfr ?s ` tables ?s D"
      if "m \<in> maps ?s D" for m
      using that mfr [of m] tims okD(7) [of m] npD(3) by (auto simp: map np')
    show "unat (pp_ref (pages ?s q)) = refs ?s D q + ext q" if "q < unat (npages ?s)" for q
      using that okD(8) [of q] npD(4) ref0 by (auto simp: pg refs np')
    show "d < unat (npages ?s)" if "d \<in> D" for d
      using okD(4) that by (simp add: np')
  qed (rule okD(2))
qed


subsection \<open>Writing a table entry\<close>

lemma pte_view:
  fixes v :: u32
  assumes "vm_ok s D ext" and t: "t \<in> tables s D" and j: "j < 1024"
  defines "s' \<equiv> set_slot (tfr s t) j v s"
  shows "tables s' D = tables s D" and "u \<in> tables s D \<Longrightarrow> tfr s' u = tfr s u"
    and "maps s' D = (if present v then insert (t, j) (maps s D) else maps s D - {(t, j)})"
    and "present v \<Longrightarrow> mfr s' (t, j) = frame v"
    and "m \<in> maps s D \<Longrightarrow> m \<noteq> (t, j) \<Longrightarrow> mfr s' m = mfr s m"
proof -
  note okD = vm_okD [OF assms(1)]
  have dir: "slot s' d i = slot s d i" if "d \<in> D" "i < 955" for d i
    using okD(5) [OF t] that j by (auto simp: s'_def slot_set_slot)
  show tab: "tables s' D = tables s D"
    using dir by (auto simp: tables_def)
  have tfr: "tfr s' u = tfr s u" if "u \<in> tables s D" for u
    using that dir by (auto simp: tables_def tfr_def)
  then show "u \<in> tables s D \<Longrightarrow> tfr s' u = tfr s u" .
  have ent: "slot s' (tfr s u) k = (if u = t \<and> k = j then v else slot s (tfr s u) k)"
    if "u \<in> tables s D" "k < 1024" for u k
    using inj_onD [OF okD(6) _ that(1) t] that j by (auto simp: s'_def slot_set_slot)
  show "maps s' D = (if present v then insert (t, j) (maps s D) else maps s D - {(t, j)})"
    using t j tfr ent by (auto simp: maps_def tab split: if_splits)
  show "present v \<Longrightarrow> mfr s' (t, j) = frame v"
    using t j tfr ent by (simp add: mfr_def)
  show "m \<in> maps s D \<Longrightarrow> m \<noteq> (t, j) \<Longrightarrow> mfr s' m = mfr s m"
    using tfr ent by (cases m) (auto simp: maps_def mfr_def)
qed

lemma refs_set_pte:
  assumes "vm_ok s D ext" and "t \<in> tables s D" and "j < 1024"
    and "(t, j) \<notin> maps s D" and "present v"
  shows "refs (set_slot (tfr s t) j v s) D q = refs s D q + (if q = frame v then 1 else 0)"
proof -
  let ?s = "set_slot (tfr s t) j v s"
  note view = pte_view [OF assms(1-3), where v = v]
  have keep: "mfr ?s m = mfr s m" if "m \<in> maps s D" for m
    using view(5) [OF that] that assms(4) by blast
  have "{m \<in> maps ?s D. mfr ?s m = q} = (if q = frame v then insert (t, j) {m \<in> maps s D. mfr s m = q}
      else {m \<in> maps s D. mfr s m = q})"
    using view(3,4) keep assms(5) by auto
  moreover have "{u \<in> tables ?s D. tfr ?s u = q} = {u \<in> tables s D. tfr s u = q}"
    using view(1,2) by auto
  ultimately show ?thesis
    using assms(4) finite_maps [OF vm_okD(2) [OF assms(1)], of s] by (simp add: refs_def)
qed

lemma refs_clear_pte:
  assumes "vm_ok s D ext" and "(t, j) \<in> maps s D"
  shows "refs s D q = refs (set_slot (tfr s t) j 0 s) D q + (if q = mfr s (t, j) then 1 else 0)"
proof -
  let ?s = "set_slot (tfr s t) j 0 s"
  have t: "t \<in> tables s D" "j < 1024"
    using assms(2) by (auto simp: maps_def)
  note view = pte_view [OF assms(1) t, where v = 0]
  have eq: "{m \<in> maps ?s D. mfr ?s m = q} = {m \<in> maps s D. mfr s m = q} - {(t, j)}"
    using view(3,5) by auto
  moreover have "{u \<in> tables ?s D. tfr ?s u = q} = {u \<in> tables s D. tfr s u = q}"
    using view(1,2) by auto
  moreover have "(t, j) \<in> {m \<in> maps s D. mfr s m = q} \<longleftrightarrow> q = mfr s (t, j)"
    using assms(2) by auto
  moreover have "card {m \<in> maps s D. mfr s m = q} = Suc (card ({m \<in> maps s D. mfr s m = q} - {(t, j)}))"
    if "q = mfr s (t, j)"
    using card.remove [of "{m \<in> maps s D. mfr s m = q}" "(t, j)"] that assms(2)
      finite_maps [OF vm_okD(2) [OF assms(1)], of s] by simp
  ultimately show ?thesis
    by (auto simp: refs_def)
qed

text \<open>A mapping of \<open>pp\<close> is entered: the reference that \<open>page_insert\<close> took beforehand
  becomes the reference of the new mapping.\<close>

lemma vm_ok_set_pte:
  assumes ok: "vm_ok s D ext" and t: "t \<in> tables s D" "j < 1024" "(t, j) \<notin> maps s D"
    and v: "present v" "frame v < unat (npages s)" "frame v \<notin> D" "frame v \<notin> tfr s ` tables s D"
    and ext: "ext (frame v) > 0"
  shows "vm_ok (set_slot (tfr s t) j v s) D (ext(frame v := ext (frame v) - 1))"
proof (rule vm_okI)
  let ?s = "set_slot (tfr s t) j v s"
  note okD = vm_okD [OF ok]
  note view = pte_view [OF ok t(1,2), where v = v]
  have tims: "tfr ?s ` tables ?s D = tfr s ` tables s D"
    using view(1,2) by auto
  show "pages_ok ?s"
    using okD(1) pages_ok_cong(1) [of ?s s] by simp
  show "inj_on (tfr ?s) (tables ?s D)"
    using okD(6) inj_on_cong [of "tables s D" "tfr ?s" "tfr s"] view(1,2) by auto
  show "tfr ?s u < unat (npages ?s) \<and> tfr ?s u \<notin> D" if "u \<in> tables ?s D" for u
    using okD(5) [of u] view(1,2) that by simp
  show "mfr ?s m < unat (npages ?s) \<and> mfr ?s m \<notin> D \<and> mfr ?s m \<notin> tfr ?s ` tables ?s D"
    if "m \<in> maps ?s D" for m
    unfolding tims using that okD(7) [of m] v view(3,4) view(5) [of m]
    by (cases "m = (t, j)") auto
  show "unat (pp_ref (pages ?s q)) = refs ?s D q + (ext(frame v := ext (frame v) - 1)) q"
    if "q < unat (npages ?s)" for q
    using okD(8) [of q] that refs_set_pte [OF ok t v(1), of q] ext by simp
qed (use vm_okD(2,4) [OF ok] in simp_all)


section \<open>The operations on a well-formed address space\<close>

text \<open>\<open>loc d va\<close> is the directory slot that covers \<open>va\<close>.\<close>

abbreviation loc :: "nat \<Rightarrow> u32 \<Rightarrow> nat \<times> nat" where
  "loc d va \<equiv> (d, unat (PDX va))"

lemma tfr_lt: "vm_ok s D ext \<Longrightarrow> t \<in> tables s D \<Longrightarrow> tfr s t < 65536"
  using vm_okD(3) [of s D ext] vm_okD(5) [of s D ext t] by simp

lemma dir_lt: "vm_ok s D ext \<Longrightarrow> d \<in> D \<Longrightarrow> d < 65536"
  using vm_okD(3) [of s D ext] vm_okD(4) [of s D ext d] by simp

lemma pgdir_walk_present:
  assumes "vm_ok s D ext" and "loc d va \<in> tables s D"
  shows "pgdir_walk (kv d) va create s = Ret (Some (kv (tfr s (loc d va)) + 4 * PTX va)) s"
proof -
  have "d < 65536" "present (slot s d (unat (PDX va)))"
    using assms dir_lt by (auto simp: tables_def)
  then show ?thesis
    using vm_okD(5) [OF assms]
    by (simp add: pgdir_walk_def Let_def kld_entry  KADDR_frame tfr_def kbind_def)
qed

lemma pgdir_walk_absent:
  assumes "vm_ok s D ext" and "d \<in> D" and "\<not> present (slot s d (unat (PDX va)))"
  shows "pgdir_walk (kv d) va False s = Ret None s"
  using assms dir_lt [OF assms(1,2)]
  by (simp add: pgdir_walk_def Let_def kld_entry  kbind_def)

lemma pgdir_walk_create:
  assumes "vm_ok s D ext" and "d \<in> D" and "unat (PDX va) < 955"
    and "\<not> present (slot s d (unat (PDX va)))"
  obtains (none) "free_pages s = {}" and "pgdir_walk (kv d) va True s = Ret None s"
  | (some) np where "np \<in> free_pages s"
      and "page_alloc 1 s = Ret (Some np) (after_alloc 1 np s)"
      and "pgdir_walk (kv d) va True s =
        Ret (Some (kv np + 4 * PTX va)) (new_table d (unat (PDX va)) np s)"
proof (rule page_alloc_cases [OF vm_okD(1) [OF assms(1)], of 1])
  note d = dir_lt [OF assms(1,2)]
  {
    assume "page_alloc 1 s = Ret None s" "free_pages s = {}"
    then show thesis
      using assms(4) d by (intro none) (simp_all add: pgdir_walk_def Let_def kld_entry  kbind_def)
  }
  fix np
  assume np: "np \<in> free_pages s" "page_alloc 1 s = Ret (Some np) (after_alloc 1 np s)"
  let ?t = "new_table d (unat (PDX va)) np s"
  note new = vm_ok_new_table [OF assms(1-4) np(2)]
  have "kst (kv d + 4 * PDX va) (page2pa np OR PTE_P OR PTE_W OR PTE_U)
     (upd_page np (\<lambda>p. p\<lparr>pp_ref := pp_ref p + 1\<rparr>) (after_alloc 1 np s)) = ?t"
    using d by (simp add: kst_entry  new_table_def)
  moreover have "kld (kv d + 4 * PDX va) ?t = slot ?t d (unat (PDX va))"
    using d by (simp add: kld_entry )
  moreover have "KADDR (PTE_ADDR (slot ?t d (unat (PDX va)))) ?t = Ret (kv np) ?t"
    using KADDR_frame [of "slot ?t d (unat (PDX va))" ?t] vm_okD(5) [OF new(1), of "loc d va"] new(2,3)
    by (simp add: tfr_def)
  ultimately have "pgdir_walk (kv d) va True s = Ret (Some (kv np + 4 * PTX va)) ?t"
    using assms(4) d np(2)
    by (simp add: pgdir_walk_def Let_def kld_entry  kbind_def kthen_def)
  with np show thesis by (rule some)
qed

text \<open>\<open>page_lookup\<close> computes \<open>vmap\<close>.\<close>

lemma page_lookup_vmap:
  assumes "vm_ok s D ext" and "d \<in> D" and "unat (PDX va) < 955"
  shows "page_lookup (kv d) va s = Ret (map_option
    (\<lambda>(pp, perm). (pp, kv (tfr s (loc d va)) + 4 * PTX va)) (vmap s d va)) s"
proof (cases "present (slot s d (unat (PDX va)))")
  case False
  then show ?thesis
    using pgdir_walk_absent [OF assms(1,2)] by (simp add: page_lookup_def vmap_def Let_def)
next
  case True
  then have t: "loc d va \<in> tables s D"
    using assms by (simp add: tables_def)
  let ?pte = "slot s (tfr s (loc d va)) (unat (PTX va))"
  have ld: "kld (kv (tfr s (loc d va)) + 4 * PTX va) s = ?pte"
    using tfr_lt [OF assms(1) t] by (simp add: kld_entry )
  show ?thesis
  proof (cases "present ?pte")
    case False
    then show ?thesis
      using True ld pgdir_walk_present [OF assms(1) t]
      by (simp add: page_lookup_def vmap_def Let_def kbind_def tfr_def)
  next
    case p: True
    then have "(loc d va, unat (PTX va)) \<in> maps s D"
      using t by (simp add: maps_def )
    from vm_okD(7) [OF assms(1) this] have "pa2page (PTE_ADDR ?pte) s = Ret (frame ?pte) s"
      by (intro pa2page_frame) (simp add: mfr_def)
    then show ?thesis
      using True p ld pgdir_walk_present [OF assms(1) t]
      by (simp add: page_lookup_def vmap_def Let_def kbind_def tfr_def)
  qed
qed


subsection \<open>What the page-table operations leave alone\<close>

definition vm_frame :: "kstate \<Rightarrow> kstate \<Rightarrow> bool" where
  "vm_frame s s' \<longleftrightarrow> envs s' = envs s \<and> env_free_list s' = env_free_list s \<and> cpus s' = cpus s \<and>
     cpunum s' = cpunum s \<and> npages s' = npages s \<and> kern_pgdir s' = kern_pgdir s \<and>
     kernel_lock s' = kernel_lock s \<and> cr3 s' = cr3 s \<and> mmio_base s' = mmio_base s \<and> con s' = con s"

lemma vm_frame_refl [simp]: "vm_frame s s"
  by (simp add: vm_frame_def)

lemma vm_frame_trans: "vm_frame s t \<Longrightarrow> vm_frame t u \<Longrightarrow> vm_frame s u"
  by (simp add: vm_frame_def)

lemma vm_frame_steps [simp]:
  "vm_frame s (set_slot f i v s)" "vm_frame s (upd_page p g s)" "vm_frame s (after_alloc fl pp s)"
  "vm_frame s (after_free pp s)" "vm_frame s (tlb_invalidate pgdir va s)"
  "vm_frame s (s\<lparr>user_mem_check_addr := x\<rparr>)"
  by (simp_all add: vm_frame_def set_slot_def upd_page_def after_alloc_def Let_def kmemset_def
      after_free_def tlb_invalidate_def split: option.splits)

lemma vm_frame_new_table [simp]: "vm_frame s (new_table d i np s)"
  unfolding new_table_def by (meson vm_frame_steps vm_frame_trans)

lemma vm_frame_page_free: "page_free pp s = Ret x s' \<Longrightarrow> vm_frame s s'"
  by (auto simp: page_free_def vm_frame_def upd_page_def split: if_splits)

lemma vm_frame_page_decref: "page_decref pp s = Ret x s' \<Longrightarrow> vm_frame s s'"
  by (auto simp: page_decref_def Let_def split: if_splits
      dest!: vm_frame_page_free intro: vm_frame_trans [OF vm_frame_steps(2)])

lemma tlb_invalidate_simps [simp]:
  "pages (tlb_invalidate pgdir va s) = pages s"
  "page_free_list (tlb_invalidate pgdir va s) = page_free_list s"
  "npages (tlb_invalidate pgdir va s) = npages s" "phys (tlb_invalidate pgdir va s) = phys s"
  by (simp_all add: tlb_invalidate_def split: option.splits)

lemma slot_tlb_invalidate [simp]: "slot (tlb_invalidate pgdir va s) g j = slot s g j"
  by (simp add: slot_def)

lemma vm_ok_same:
  assumes "vm_ok s D ext" and "phys s' = phys s" and "pages s' = pages s"
    and "page_free_list s' = page_free_list s" and "npages s' = npages s"
  shows "vm_ok s' D ext"
  by (rule vm_ok_cong [OF assms(1)])
    (use assms vm_okD(1,8) [OF assms(1)] pages_ok_cong(1) [of s' s] in \<open>simp_all add: slot_def\<close>)

text \<open>Pages in use that are neither directories nor tables: the memory of programs. Page-table operations
  leave its contents alone. They also keep every table open: its directory entry allows everything, so
  that the table entry alone decides what a program may do with a page.\<close>

definition pdes_open :: "kstate \<Rightarrow> nat set \<Rightarrow> bool" where
  "pdes_open s D \<longleftrightarrow> (\<forall>d\<in>D. \<forall>i<UPDES. present (slot s d i) \<longrightarrow> slot s d i AND 7 = 7)"

definition data_page :: "kstate \<Rightarrow> nat set \<Rightarrow> nat \<Rightarrow> bool" where
  "data_page s D q \<longleftrightarrow> q \<notin> D \<and> q \<notin> tfr s ` tables s D \<and> q \<notin> free_pages s"

definition data_kept :: "kstate \<Rightarrow> kstate \<Rightarrow> nat set \<Rightarrow> bool" where
  "data_kept s s' D \<longleftrightarrow> (\<forall>q k. data_page s D q \<longrightarrow> k < 1024 \<longrightarrow> slot s' q k = slot s q k) \<and>
     (pdes_open s D \<longrightarrow> pdes_open s' D)"

lemma data_keptI:
  assumes "\<And>q k. data_page s D q \<Longrightarrow> k < 1024 \<Longrightarrow> slot s' q k = slot s q k"
    and "\<And>d i. d \<in> D \<Longrightarrow> i < UPDES \<Longrightarrow> present (slot s' d i) \<Longrightarrow> slot s' d i AND 7 = 7 \<or>
      slot s' d i = slot s d i \<or> present (slot s d i) \<and> (\<exists>p. slot s' d i = slot s d i OR p)"
  shows "data_kept s s' D"
proof -
  have "7 OR v = 7" if "v = p AND 7" for p v :: u32
    unfolding that by (rule bit_eqI) (auto simp: bit_simps)
  then have "(w OR p) AND 7 = 7" if "w AND 7 = 7" for w p :: u32
    using that by (simp add: bit.conj_disj_distrib2)
  then show ?thesis
    using assms(1) assms(2) unfolding data_kept_def pdes_open_def by metis
qed

lemma data_kept_open: "data_kept s s' D \<Longrightarrow> pdes_open s D \<Longrightarrow> pdes_open s' D"
  by (simp add: data_kept_def)

lemma pdes_open_cong:
  "(\<And>d i. d \<in> D \<Longrightarrow> i < UPDES \<Longrightarrow> slot s' d i = slot s d i) \<Longrightarrow> pdes_open s' D = pdes_open s D"
  by (simp add: pdes_open_def)

lemma data_kept_refl [simp]: "data_kept s s D"
  by (simp add: data_kept_def)

lemma data_keptD: "data_kept s s' D \<Longrightarrow> data_page s D q \<Longrightarrow> k < 1024 \<Longrightarrow> slot s' q k = slot s q k"
  by (simp add: data_kept_def)

subsection \<open>Removal\<close>

lemma vm_ok_clear_pte:
  assumes ok: "vm_ok s D ext" and m: "(t, j) \<in> maps s D"
  shows "vm_ok (set_slot (tfr s t) j 0 s) D (ext(mfr s (t, j) := ext (mfr s (t, j)) + 1))"
proof (rule vm_okI)
  let ?s = "set_slot (tfr s t) j 0 s"
  note okD = vm_okD [OF ok]
  have t: "t \<in> tables s D" "j < 1024"
    using m by (auto simp: maps_def)
  note view = pte_view [OF ok t, where v = 0]
  have tims: "tfr ?s ` tables ?s D = tfr s ` tables s D"
    using view(1,2) by auto
  show "pages_ok ?s"
    using okD(1) pages_ok_cong(1) [of ?s s] by simp
  show "inj_on (tfr ?s) (tables ?s D)"
    using okD(6) inj_on_cong [of "tables s D" "tfr ?s" "tfr s"] view(1,2) by auto
  show "tfr ?s u < unat (npages ?s) \<and> tfr ?s u \<notin> D" if "u \<in> tables ?s D" for u
    using okD(5) [of u] view(1,2) that by simp
  show "mfr ?s m < unat (npages ?s) \<and> mfr ?s m \<notin> D \<and> mfr ?s m \<notin> tfr ?s ` tables ?s D"
    if "m \<in> maps ?s D" for m
    unfolding tims using that okD(7) [of m] view(3) view(5) [of m] by auto
  show "unat (pp_ref (pages ?s q)) = refs ?s D q + (ext(mfr s (t, j) := ext (mfr s (t, j)) + 1)) q"
    if "q < unat (npages ?s)" for q
    using okD(8) [of q] that refs_clear_pte [OF ok m, of q] by simp
qed (use vm_okD(2,4) [OF ok] in simp_all)

lemma vmap_maps:
  assumes "vm_ok s D ext" and "d \<in> D" and "unat (PDX va) < 955"
  shows "vmap s d va = None \<longleftrightarrow> (loc d va, unat (PTX va)) \<notin> maps s D"
    and "vmap s d va = Some (pp, perm) \<Longrightarrow> mfr s (loc d va, unat (PTX va)) = pp"
  using assms by (auto simp: vmap_def Let_def maps_def tables_def tfr_def mfr_def split: if_splits)

lemma page_remove_unmapped:
  assumes "vm_ok s D ext" and "d \<in> D" and "unat (PDX va) < 955" and "vmap s d va = None"
  shows "page_remove (kv d) va s = Ret () s"
  using page_lookup_vmap [OF assms(1-3)] assms(4) by (simp add: page_remove_def)

lemma page_remove_mapped:
  assumes ok: "vm_ok s D ext" and d: "d \<in> D" "unat (PDX va) < 955"
    and v: "vmap s d va = Some (pp, perm)"
  obtains s' where "page_remove (kv d) va s = Ret () s'" and "vm_ok s' D ext" and "vm_frame s s'"
    and "phys s' = phys (set_slot (tfr s (loc d va)) (unat (PTX va)) 0 s)"
    and "\<And>q. pp_ref (pages s' q) = (if q = pp then pp_ref (pages s pp) - 1 else pp_ref (pages s q))"
    and "free_pages s' = (if pp_ref (pages s pp) = 1 then insert pp (free_pages s) else free_pages s)"
proof -
  let ?t = "loc d va" and ?j = "unat (PTX va)"
  have m: "(?t, ?j) \<in> maps s D" and pp: "mfr s (?t, ?j) = pp"
    using vmap_maps [OF ok d] v by auto
  let ?A = "set_slot (tfr s ?t) ?j 0 s"
  have A: "vm_ok ?A D (ext(pp := ext pp + 1))"
    using vm_ok_clear_pte [OF ok m] pp by simp
  have ppb: "pp < unat (npages s)" "pp \<notin> free_pages s"
    using vm_okD(7) [OF ok m] used_not_free(3) [OF ok m] pp by auto
  have ref: "unat (pp_ref (pages s pp)) = refs ?A D pp + ext pp + 1"
    using vm_okD(8) [OF A, of pp] ppb by simp
  then have "pp_ref (pages s pp) \<noteq> 0" by auto
  from page_decref_ok [OF vm_okD(1) [OF ok] ppb this] obtain s1 where
    s1: "page_decref pp s = Ret () s1" "pages_ok s1" "npages s1 = npages s" "phys s1 = phys s"
      "free_pages s1 = (if pp_ref (pages s pp) = 1 then insert pp (free_pages s) else free_pages s)"
      "\<And>q. pp_ref (pages s1 q) = (if q = pp then pp_ref (pages s pp) - 1 else pp_ref (pages s q))"
    by auto
  define s' where "s' = set_slot (tfr s ?t) ?j 0 (tlb_invalidate (kv d) va s1)"
  have t: "?t \<in> tables s D"
    using m by (simp add: maps_def)
  have "page_remove (kv d) va s = Ret () s'"
    using page_lookup_vmap [OF ok d] v s1(1) tfr_lt [OF ok t]
    by (simp add: page_remove_def kst_entry s'_def kbind_def kthen_def)
  moreover have phys: "phys s' = phys ?A"
    by (simp add: s'_def set_slot_def s1(4))
  moreover have pgs: "pages s' = pages s1" "page_free_list s' = page_free_list s1" "npages s' = npages s1"
    by (simp_all add: s'_def)
  then have fr: "free_pages s' = free_pages s1" "pages_ok s'"
    using pages_ok_cong [of s' s1] s1(2) by simp_all
  moreover have "vm_ok s' D ext"
  proof (rule vm_ok_cong [OF A])
    fix q assume "q < unat (npages ?A)"
    then show "unat (pp_ref (pages s' q)) = refs ?A D q + ext q"
      using vm_okD(8) [OF A, of q] ref by (auto simp: pgs s1(6) unat_sub_if_size)
  qed (use phys fr s1(3) in \<open>simp_all add: slot_def pgs\<close>)
  moreover have "vm_frame s s'"
    unfolding s'_def using vm_frame_page_decref [OF s1(1)] by (meson vm_frame_steps vm_frame_trans)
  ultimately show thesis
    using s1(5,6) by (intro that) (simp_all add: pgs)
qed


subsection \<open>How the view of every address space changes\<close>

lemma vmap_phys: "phys s' = phys s \<Longrightarrow> vmap s' d va = vmap s d va"
  by (simp add: vmap_def slot_def)

definition pte_view_of :: "u32 \<Rightarrow> (nat \<times> u32) option" where
  "pte_view_of pte = (if present pte then Some (frame pte, pte AND 0xFFF) else None)"

lemma vmap_pte: "vmap s d va = (if present (slot s d (unat (PDX va)))
   then pte_view_of (slot s (frame (slot s d (unat (PDX va)))) (unat (PTX va))) else None)"
  by (simp add: vmap_def Let_def pte_view_of_def)

lemma vmap_set_pte:
  assumes ok: "vm_ok s D ext" and t: "loc d va \<in> tables s D"
    and d': "d' \<in> D" "unat (PDX va') < 955"
  shows "vmap (set_slot (tfr s (loc d va)) (unat (PTX va)) v s) d' va' =
    (if d' = d \<and> PGNUM va' = PGNUM va then (if present v then Some (frame v, v AND 0xFFF) else None)
     else vmap s d' va')"
proof -
  let ?s = "set_slot (tfr s (loc d va)) (unat (PTX va)) v s"
  note okD = vm_okD [OF ok]
  have pde: "slot ?s d' (unat (PDX va')) = slot s d' (unat (PDX va'))"
    using okD(5) [OF t] d' by (auto simp: slot_set_slot)
  have fr: "frame (slot s d' (unat (PDX va'))) = tfr s (loc d' va')"
    by (simp add: tfr_def)
  have same: "tfr s (loc d' va') = tfr s (loc d va) \<longleftrightarrow> d' = d \<and> PDX va' = PDX va"
    if "loc d' va' \<in> tables s D"
    using inj_onD [OF okD(6) _ that t] by (auto simp: word_unat_eq_iff)
  show ?thesis
  proof (cases "loc d' va' \<in> tables s D")
    case False
    then have "\<not> present (slot s d' (unat (PDX va')))"
      using d' by (simp add: tables_def)
    moreover have "\<not> (d' = d \<and> PGNUM va' = PGNUM va)"
      using False t by (auto simp: PGNUM_eq_iff)
    ultimately show ?thesis by (simp add: vmap_def pde)
  next
    case True
    then have "vmap ?s d' va' = pte_view_of (slot ?s (tfr s (loc d' va')) (unat (PTX va')))"
      by (simp add: vmap_pte pde tables_def fr)
    also have "\<dots> = (if d' = d \<and> PGNUM va' = PGNUM va then pte_view_of v else vmap s d' va')"
      using same [OF True] True
      by (auto simp: slot_set_slot PGNUM_eq_iff vmap_pte tables_def fr simp flip: word_unat_eq_iff)
    finally show ?thesis by (simp add: pte_view_of_def)
  qed
qed

lemma vmap_or_pde:
  assumes ok: "vm_ok s D ext" and t: "(d, i) \<in> tables s D" and "perm AND NOT 0xFFF = 0"
    and d': "d' \<in> D" "unat (PDX va') < 955"
  shows "vmap (set_slot d i (slot s d i OR perm) s) d' va' = vmap s d' va'"
proof -
  let ?s = "set_slot d i (slot s d i OR perm) s"
  have di: "d \<in> D" "i < 955" "present (slot s d i)"
    using t by (auto simp: tables_def)
  have "present (slot ?s d' (unat (PDX va'))) = present (slot s d' (unat (PDX va')))"
    and fr: "frame (slot ?s d' (unat (PDX va'))) = frame (slot s d' (unat (PDX va')))"
    using di d' present_or_mono frame_or_low [OF assms(3)] by (auto simp: slot_set_slot)
  moreover have "slot ?s (tfr s (loc d' va')) (unat (PTX va')) = slot s (tfr s (loc d' va')) (unat (PTX va'))"
    if "present (slot s d' (unat (PDX va')))"
    using vm_okD(5) [OF ok, of "loc d' va'"] that d' di by (auto simp: slot_set_slot tables_def)
  ultimately show ?thesis
    by (auto simp: vmap_def Let_def tfr_def)
qed

lemma vmap_new_table:
  assumes ok: "vm_ok s D ext" and d: "d \<in> D" "i < 955" "\<not> present (slot s d i)"
    and np: "page_alloc 1 s = Ret (Some np) (after_alloc 1 np s)"
    and d': "d' \<in> D" "unat (PDX va') < 955"
  shows "vmap (new_table d i np s) d' va' = vmap s d' va'"
proof -
  let ?s = "new_table d i np s"
  have npf: "np \<in> free_pages s"
    using page_alloc_ok [OF vm_okD(1) [OF ok] np] by simp
  note npu = free_not_used [OF ok npf]
  have npb: "np < 65536" "np \<noteq> d"
    using free_pages_bound [OF vm_okD(1) [OF ok] npf] vm_okD(3) [OF ok] npu(1) d(1) by auto
  note slot = slot_new_table [OF npb(1) _ _ npb(2), of _ i s]
  show ?thesis
  proof (cases "d' = d \<and> unat (PDX va') = i")
    case True
    then show ?thesis
      using d npb table_entry(1) [OF npb(1)] table_entry(2) [of np] by (simp add: vmap_def Let_def slot)
  next
    case False
    then have pde: "slot ?s d' (unat (PDX va')) = slot s d' (unat (PDX va'))"
      using d d' npu(1) by (auto simp: slot)
    have "slot ?s (tfr s (loc d' va')) (unat (PTX va')) = slot s (tfr s (loc d' va')) (unat (PTX va'))"
      if "present (slot s d' (unat (PDX va')))"
    proof -
      have "loc d' va' \<in> tables s D"
        using that d' by (simp add: tables_def)
      then show ?thesis
        using vm_okD(5) [OF ok, of "loc d' va'"] npu(2) d by (auto simp: slot)
    qed
    then show ?thesis
      by (auto simp: vmap_def pde Let_def tfr_def)
  qed
qed


subsection \<open>Insertion\<close>

text \<open>A page that may be entered into a user address space: it is inside physical memory, it is
  neither free nor itself a directory or a page table, and its 16-bit count has room.\<close>

definition mappable :: "kstate \<Rightarrow> nat set \<Rightarrow> nat \<Rightarrow> bool" where
  "mappable s D pp \<longleftrightarrow> pp < unat (npages s) \<and> pp \<notin> free_pages s \<and> pp \<notin> D \<and>
     pp \<notin> tfr s ` tables s D \<and> unat (pp_ref (pages s pp)) < 65535"

text \<open>The first half of \<open>page_insert\<close>, once the page table exists: the reference is taken and
  whatever was mapped at \<open>va\<close> is removed.\<close>

lemma insert_prepare:
  assumes ok: "vm_ok s D ext" and t: "loc d va \<in> tables s D" and pp: "mappable s D pp"
    and s1: "s1 = upd_page pp (\<lambda>p. p\<lparr>pp_ref := pp_ref p + 1\<rparr>) s"
  obtains s3 where
    "(if present (slot s (tfr s (loc d va)) (unat (PTX va)))
      then kthen (kmod (tlb_invalidate (kv d) va)) (page_remove (kv d) va) else kret ()) s1 = Ret () s3"
    and "vm_ok s3 D (ext(pp := ext pp + 1))" and "vm_frame s s3"
    and "\<forall>g. \<forall>k<1024. slot s3 g k =
      (if g = tfr s (loc d va) \<and> k = unat (PTX va) \<and> present (slot s g k) then 0 else slot s g k)"
proof -
  let ?pte = "slot s (tfr s (loc d va)) (unat (PTX va))"
  have d: "d \<in> D" "unat (PDX va) < 955"
    using t by (auto simp: tables_def)
  have ok1: "vm_ok s1 D (ext(pp := ext pp + 1))"
    unfolding s1 using pp by (intro vm_ok_incref [OF ok]) (auto simp: mappable_def)
  show thesis
  proof (cases "present ?pte")
    case False
    then show thesis
      using ok1 s1 by (intro that [of s1]) auto
  next
    case True
    define s2 where "s2 = tlb_invalidate (kv d) va s1"
    have ok2: "vm_ok s2 D (ext(pp := ext pp + 1))"
      unfolding s2_def by (rule vm_ok_same [OF ok1]) simp_all
    have phys2: "phys s2 = phys s"
      by (simp add: s2_def s1)
    have tfr2: "tfr s2 (loc d va) = tfr s (loc d va)"
      by (simp add: tfr_def slot_def phys2)
    have "vmap s2 d va = Some (frame ?pte, ?pte AND 0xFFF)"
      using t True by (simp add: vmap_pte pte_view_of_def slot_def phys2 tables_def tfr_def)
    from page_remove_mapped [OF ok2 d this] obtain s3 where
      s3: "page_remove (kv d) va s2 = Ret () s3" "vm_ok s3 D (ext(pp := ext pp + 1))" "vm_frame s2 s3"
        "phys s3 = phys (set_slot (tfr s2 (loc d va)) (unat (PTX va)) 0 s2)"
      by metis
    have "slot s3 g k = slot (set_slot (tfr s (loc d va)) (unat (PTX va)) 0 s) g k" for g k
      using s3(4) by (simp add: slot_def set_slot_def tfr2 phys2)
    moreover have "vm_frame s s3"
      using s3(3) unfolding s2_def s1 by (meson vm_frame_steps vm_frame_trans)
    ultimately show thesis
      using True s3(1,2) by (intro that [of s3]) (auto simp: slot_set_slot s2_def kthen_def kbind_def)
  qed
qed

lemma view_of_slots:
  assumes ok: "vm_ok s D ext" and t: "loc d va \<in> tables s D"
    and slots: "\<forall>g. \<forall>k<1024. slot s3 g k =
      (if g = tfr s (loc d va) \<and> k = unat (PTX va) \<and> present (slot s g k) then 0 else slot s g k)"
  shows "loc d va \<in> tables s3 D" and "tfr s3 (loc d va) = tfr s (loc d va)"
    and "(loc d va, unat (PTX va)) \<notin> maps s3 D" and "tfr s3 ` tables s3 D = tfr s ` tables s D"
    and "d' \<in> D \<Longrightarrow> unat (PDX va') < 955 \<Longrightarrow> \<not> (d' = d \<and> PGNUM va' = PGNUM va) \<Longrightarrow>
      vmap s3 d' va' = vmap s d' va'"
proof -
  note slots = slots [rule_format]
  have td: "tfr s (loc d va) \<notin> D"
    using vm_okD(5) [OF ok t] by simp
  have dir: "slot s3 d i = slot s d i" if "d \<in> D" "i < 955" for d i
    using that td by (auto simp: slots)
  have tab: "tables s3 D = tables s D"
    using dir by (auto simp: tables_def)
  have tfr: "tfr s3 u = tfr s u" if "u \<in> tables s D" for u
    using that dir by (auto simp: tables_def tfr_def)
  show "loc d va \<in> tables s3 D" "tfr s3 (loc d va) = tfr s (loc d va)"
    using t tab tfr by auto
  then show "(loc d va, unat (PTX va)) \<notin> maps s3 D"
    by (auto simp: maps_def slots)
  show "tfr s3 ` tables s3 D = tfr s ` tables s D"
    using tab tfr by auto
  assume d': "d' \<in> D" "unat (PDX va') < 955" and ne: "\<not> (d' = d \<and> PGNUM va' = PGNUM va)"
  have "slot s3 (tfr s (loc d' va')) (unat (PTX va')) = slot s (tfr s (loc d' va')) (unat (PTX va'))"
    if "loc d' va' \<in> tables s D"
    using inj_onD [OF vm_okD(6) [OF ok] _ that t] ne
    by (auto simp: slots PGNUM_eq_iff simp flip: word_unat_eq_iff)
  then show "vmap s3 d' va' = vmap s d' va'"
    using d' dir [OF d'] by (auto simp: vmap_pte tables_def tfr_def)
qed

text \<open>The whole of \<open>page_insert\<close> after a walk that ended in state \<open>s\<close>.\<close>

lemma page_insert_present:
  assumes walk: "pgdir_walk (kv d) va True s0 = Ret (Some (kv (tfr s (loc d va)) + 4 * PTX va)) s"
    and ok: "vm_ok s D ext" and t: "loc d va \<in> tables s D" and pp: "mappable s D pp"
    and perm: "perm AND NOT 0xFFF = 0"
  obtains s' where "page_insert (kv d) pp va perm s0 = Ret 0 s'" and "vm_ok s' D ext" and "vm_frame s s'"
    and "\<And>d' va'. d' \<in> D \<Longrightarrow> unat (PDX va') < 955 \<Longrightarrow> vmap s' d' va' =
      (if d' = d \<and> PGNUM va' = PGNUM va then Some (pp, perm OR PTE_P) else vmap s d' va')"
    and "data_kept s s' D" and "slot s' d (unat (PDX va)) AND perm = perm"
proof -
  let ?i = "unat (PDX va)" and ?j = "unat (PTX va)" and ?T = "tfr s (loc d va)"
  define s1 where "s1 = upd_page pp (\<lambda>p. p\<lparr>pp_ref := pp_ref p + 1\<rparr>) s"
  have d: "d \<in> D" "?i < 955" "d < 65536" and T: "?T < 65536"
    using t dir_lt [OF ok] tfr_lt [OF ok t] by (auto simp: tables_def)
  from insert_prepare [OF ok t pp s1_def] obtain s3 where
    s3: "(if present (slot s ?T ?j) then kthen (kmod (tlb_invalidate (kv d) va)) (page_remove (kv d) va)
       else kret ()) s1 = Ret () s3" "vm_ok s3 D (ext(pp := ext pp + 1))" "vm_frame s s3"
    and slots: "\<forall>g. \<forall>k<1024. slot s3 g k =
      (if g = ?T \<and> k = ?j \<and> present (slot s g k) then 0 else slot s g k)"
    by blast
  note v3 = view_of_slots [OF ok t slots]
  let ?v = "page2pa pp OR perm OR PTE_P"
  have ppb: "pp < unat (npages s3)" "pp < 1048576"
    using pp vm_okD(3) [OF ok] s3(3) by (auto simp: mappable_def vm_frame_def)
  have low: "(perm OR PTE_P) AND NOT 0xFFF = 0"
    using perm by (simp add: bit.conj_disj_distrib2)
  have fr: "frame ?v = pp" and pr: "present ?v" and fl: "?v AND 0xFFF = perm OR PTE_P"
    using frame_entry [OF ppb(2) low] present_or [of "page2pa pp OR perm"] low_flags [OF low, of pp]
    by (simp_all add: or.assoc)
  define s4 where "s4 = set_slot ?T ?j ?v s3"
  have ok4: "vm_ok s4 D ext"
    using vm_ok_set_pte [OF s3(2) v3(1) _ v3(3) pr] v3(2,4) ppb pp
    by (simp add: s4_def fr mappable_def fun_upd_idem)
  have slot4: "slot s4 d ?i = slot s3 d ?i" and t4: "loc d va \<in> tables s4 D"
    using pte_view(1) [OF s3(2) v3(1), of ?j ?v] v3(1,2) vm_okD(5) [OF ok t] d
    by (auto simp: s4_def slot_set_slot)
  define s' where "s' = set_slot d ?i (slot s4 d ?i OR perm) s4"
  have "page_insert (kv d) pp va perm s0 = Ret 0 s'"
    using walk s3(1) T d(3) slots [rule_format, of ?j ?T]
    by (cases "present (slot s ?T ?j)")
      (simp_all add: page_insert_def kbind_def kthen_def kld_entry kst_entry s1_def s4_def s'_def)
  moreover have "vm_ok s' D ext"
    unfolding s'_def by (rule vm_ok_or_pde [OF ok4 t4 perm])
  moreover have "vm_frame s s'"
    unfolding s'_def s4_def using s3(3) by (meson vm_frame_steps vm_frame_trans)
  moreover have "vmap s' d' va' = (if d' = d \<and> PGNUM va' = PGNUM va then Some (pp, perm OR PTE_P)
      else vmap s d' va')" if "d' \<in> D" "unat (PDX va') < 955" for d' va'
    using vmap_or_pde [OF ok4 t4 perm that] vmap_set_pte [OF s3(2) v3(1) that, of ?v] v3(2)
      v3(5) [OF that] fr pr fl
    by (simp add: s'_def s4_def)
  moreover have "data_kept s s' D"
  proof (rule data_keptI)
    fix q k assume q: "data_page s D q" and k: "(k :: nat) < 1024"
    then have "q \<noteq> d" "q \<noteq> ?T" using d(1) t by (auto simp: data_page_def)
    then show "slot s' q k = slot s q k"
      using k d(2) slots [rule_format, OF k, of q] by (simp add: s'_def s4_def slot_set_slot)
  next
    fix d' and i :: nat assume d': "d' \<in> D" "i < 955"
    then have "d' \<noteq> ?T" using vm_okD(5) [OF ok t] by auto
    then have "slot s' d' i = (if d' = d \<and> i = ?i then slot s d' i OR perm else slot s d' i)"
      using d(2) d'(2) slots [rule_format, of i d'] by (auto simp: s'_def s4_def slot_set_slot)
    then show "slot s' d' i AND 7 = 7 \<or> slot s' d' i = slot s d' i \<or> present (slot s d' i) \<and> (\<exists>p. slot s' d' i = slot s d' i OR p)"
      using t by (auto simp: tables_def)
  qed
  moreover have "slot s' d ?i AND perm = perm"
    using d(2) by (simp add: s'_def slot_set_slot and.commute)
  ultimately show thesis by (rule that)
qed


lemma mappable_new_table:
  assumes ok: "vm_ok s D ext" and d: "d \<in> D" "i < 955" "\<not> present (slot s d i)"
    and np: "page_alloc 1 s = Ret (Some np) (after_alloc 1 np s)" and pp: "mappable s D pp"
  shows "mappable (new_table d i np s) D pp"
proof -
  note new = vm_ok_new_table [OF ok d np]
  have "np \<in> free_pages s"
    using page_alloc_ok [OF vm_okD(1) [OF ok] np] by simp
  then have ne: "pp \<noteq> np"
    using pp by (auto simp: mappable_def)
  have npD: "np \<notin> D" and npb: "np < 65536"
    using free_not_used(1) [OF ok \<open>np \<in> free_pages s\<close>] free_pages_bound [OF vm_okD(1) [OF ok] \<open>np \<in> free_pages s\<close>]
      vm_okD(3) [OF ok] by auto
  have nd: "np \<noteq> d"
    using npD d(1) by auto
  have "tfr (new_table d i np s) t = tfr s t" if "t \<in> tables s D" for t
    using that d npD slot_new_table [OF npb _ _ nd, of "snd t" i s "fst t"]
    by (auto simp: tfr_def tables_def)
  then have "pp \<notin> tfr (new_table d i np s) ` tables (new_table d i np s) D"
    using pp ne new(2,3) by (auto simp: mappable_def)
  then show ?thesis
    using pp ne new(4) vm_frame_new_table [of s d i np]
    by (auto simp: mappable_def vm_frame_def) (auto simp: new_table_def)
qed

lemma data_kept_new_table:
  assumes ok: "vm_ok s D ext" and d: "d \<in> D" "i < 955" "\<not> present (slot s d i)"
    and np: "page_alloc 1 s = Ret (Some np) (after_alloc 1 np s)" and s': "data_kept (new_table d i np s) s' D"
  shows "data_kept s s' D"
proof -
  let ?n = "new_table d i np s"
  note new = vm_ok_new_table [OF ok d np]
  have npf: "np \<in> free_pages s" using page_alloc_ok [OF vm_okD(1) [OF ok] np] by simp
  note npu = free_not_used [OF ok npf]
  have npb: "np < 65536" "np \<noteq> d"
    using free_pages_bound [OF vm_okD(1) [OF ok] npf] vm_okD(3) [OF ok] npu(1) d(1) by auto
  note slot = slot_new_table [OF npb(1) _ _ npb(2), of _ i s]
  have data: "slot s' q k = slot s q k" if q: "data_page s D q" and k: "k < 1024" for q k
  proof -
  have qn: "q \<noteq> np" "q \<noteq> d" using q npf d(1) by (auto simp: data_page_def)
  have "tfr ?n t = tfr s t" if "t \<in> tables s D" for t
    using that d npu(1) slot [of "snd t" "fst t"] by (auto simp: tfr_def tables_def)
  then have "data_page ?n D q"
    using q qn new(2,3,4) by (auto simp: data_page_def)
  then show "slot s' q k = slot s q k"
    using data_keptD [OF s'] k slot [of k q] qn d(2) by simp
  qed
  have "(page2pa np OR PTE_P OR PTE_W OR PTE_U) AND 7 = 7"
    by (simp add: bit.conj_disj_distrib2 page2pa_and_low)
  then have "pdes_open ?n D" if "pdes_open s D"
    using that d npu(1) slot by (auto simp: pdes_open_def)
  with data s' show ?thesis by (auto simp: data_kept_def)
qed

lemma page_insert_cases:
  assumes ok: "vm_ok s D ext" and d: "d \<in> D" "unat (PDX va) < 955" and pp: "mappable s D pp"
    and perm: "perm AND NOT 0xFFF = 0"
  obtains (no_mem) "free_pages s = {}" and "\<not> present (slot s d (unat (PDX va)))"
      and "page_insert (kv d) pp va perm s = Ret (- E_NO_MEM) s"
  | (inserted) s' where "free_pages s \<noteq> {} \<or> present (slot s d (unat (PDX va)))"
      and "page_insert (kv d) pp va perm s = Ret 0 s'" and "vm_ok s' D ext" and "vm_frame s s'"
      and "\<And>d' va'. d' \<in> D \<Longrightarrow> unat (PDX va') < 955 \<Longrightarrow> vmap s' d' va' =
        (if d' = d \<and> PGNUM va' = PGNUM va then Some (pp, perm OR PTE_P) else vmap s d' va')"
      and "data_kept s s' D" and "slot s' d (unat (PDX va)) AND perm = perm"
proof (cases "present (slot s d (unat (PDX va)))")
  case True
  then have t: "loc d va \<in> tables s D"
    using d by (simp add: tables_def)
  show thesis
    by (rule page_insert_present [OF pgdir_walk_present [OF ok t] ok t pp perm])
      (use True inserted in blast)
next
  case False
  show thesis
  proof (rule pgdir_walk_create [OF ok d False])
    assume "free_pages s = {}" "pgdir_walk (kv d) va True s = Ret None s"
    then show thesis
      using False by (intro no_mem) (simp_all add: page_insert_def)
  next
    fix np
    let ?n = "new_table d (unat (PDX va)) np s"
    assume np: "np \<in> free_pages s" "page_alloc 1 s = Ret (Some np) (after_alloc 1 np s)"
      "pgdir_walk (kv d) va True s = Ret (Some (kv np + 4 * PTX va)) ?n"
    note new = vm_ok_new_table [OF ok d False np(2)]
    have walk: "pgdir_walk (kv d) va True s = Ret (Some (kv (tfr ?n (loc d va)) + 4 * PTX va)) ?n"
      using np(3) new(3) by simp
    have t: "loc d va \<in> tables ?n D"
      using new(2) by simp
    show thesis
    proof (rule page_insert_present [OF walk new(1) t mappable_new_table [OF ok d False np(2) pp] perm])
      fix s' assume s': "page_insert (kv d) pp va perm s = Ret 0 s'" "vm_ok s' D ext" "vm_frame ?n s'"
        "\<And>d' va'. d' \<in> D \<Longrightarrow> unat (PDX va') < 955 \<Longrightarrow> vmap s' d' va' =
          (if d' = d \<and> PGNUM va' = PGNUM va then Some (pp, perm OR PTE_P) else vmap ?n d' va')"
        "data_kept ?n s' D" "slot s' d (unat (PDX va)) AND perm = perm"
      have "vm_frame s s'"
        using vm_frame_new_table s'(3) by (rule vm_frame_trans)
      moreover have "data_kept s s' D"
        using data_kept_new_table [OF ok d False np(2) s'(5)] .
      ultimately show thesis
        using s' np(1) vmap_new_table [OF ok d False np(2)] by (intro inserted) auto
    qed
  qed
qed

end
