(* ===== verification/Vm_Interface.thy ===== *)
theory Vm_Interface
  imports Address_Space
begin

text \<open>
  The contract of the page-table code as its clients (the system calls and the environment
  manager) use it: an address space is a partial map from page numbers to a page with
  permissions; \<open>page_insert\<close> updates it at one page number or fails without effect,
  \<open>page_remove\<close> deletes one entry, \<open>page_lookup\<close> reads it. The locale
  \<open>vm_interface\<close> states the contract, its clients' laws (an entry is found after its
  insertion and gone after its removal, operations on different pages commute as far as any
  lookup can tell) are proved inside it, and the interpretation \<open>vm\<close> discharges the
  contract for the code of \<^verbatim>\<open>kern/pmap.c\<close>.
\<close>

section \<open>Removal as one statement\<close>

lemma vmap_page: "PGNUM va' = PGNUM va \<Longrightarrow> vmap s d va' = vmap s d va"
  by (simp add: vmap_pte PGNUM_eq_iff)

lemma free_not_mapped:
  assumes "vm_ok s D ext" and "pp \<in> free_pages s" and "d \<in> D" and "unat (PDX va) < UPDES"
  shows "vmap s d va \<noteq> Some (pp, perm)"
proof
  assume v: "vmap s d va = Some (pp, perm)"
  then have "(loc d va, unat (PTX va)) \<in> maps s D" "mfr s (loc d va, unat (PTX va)) = pp"
    using vmap_maps [OF assms(1,3,4)] by auto
  then show False
    using free_not_used(3) [OF assms(1,2)] by blast
qed

lemma page_remove_ok:
  assumes ok: "vm_ok s D ext" and d: "d \<in> D" "unat (PDX va) < 955"
  obtains s' where "page_remove (kv d) va s = Ret () s'" and "vm_ok s' D ext" and "vm_frame s s'"
    and "\<And>d' va'. d' \<in> D \<Longrightarrow> unat (PDX va') < 955 \<Longrightarrow> vmap s' d' va' =
      (if d' = d \<and> PGNUM va' = PGNUM va then None else vmap s d' va')"
    and "free_pages s \<subseteq> free_pages s'"
    and "\<And>pp perm. vmap s d va = Some (pp, perm) \<Longrightarrow> (if pp_ref (pages s pp) = 1 then pp \<in> free_pages s'
      else pp_ref (pages s' pp) = pp_ref (pages s pp) - 1)"
    and "data_kept s s' D"
proof (cases "vmap s d va")
  case None
  have "vmap s d va' = None" if "PGNUM va' = PGNUM va" for va'
    using vmap_page [OF that] None by simp
  then show thesis
    using page_remove_unmapped [OF ok d None] ok None by (intro that [of s]) auto
next
  case (Some x)
  obtain pp perm where "x = (pp, perm)" by fastforce
  with Some have v: "vmap s d va = Some (pp, perm)" by simp
  have t: "loc d va \<in> tables s D"
    using vmap_maps(1) [OF ok d] v by (simp add: maps_def)
  obtain s' where s': "page_remove (kv d) va s = Ret () s'" "vm_ok s' D ext" "vm_frame s s'"
    "phys s' = phys (set_slot (tfr s (loc d va)) (unat (PTX va)) 0 s)"
    "free_pages s' = (if pp_ref (pages s pp) = 1 then insert pp (free_pages s) else free_pages s)"
    "pp_ref (pages s' pp) = pp_ref (pages s pp) - 1"
    by (rule page_remove_mapped [OF ok d v]) metis
  have "data_kept s s' D"
  proof (rule data_keptI)
    fix d' and i :: nat assume "d' \<in> D" "i < 955"
    then have "slot (set_slot (tfr s (loc d va)) (unat (PTX va)) 0 s) d' i = slot s d' i"
      using vm_okD(5) [OF ok t] by (auto simp: slot_set_slot)
    then show "slot s' d' i AND 7 = 7 \<or> slot s' d' i = slot s d' i \<or> present (slot s d' i) \<and> (\<exists>p. slot s' d' i = slot s d' i OR p)"
      using s'(4) by (simp add: slot_def)
  next
    fix q k assume q: "data_page s D q" and k: "(k :: nat) < 1024"
    then have "q \<noteq> tfr s (loc d va)" using t by (auto simp: data_page_def)
    then have "slot (set_slot (tfr s (loc d va)) (unat (PTX va)) 0 s) q k = slot s q k"
      using k by (simp add: slot_set_slot)
    then show "slot s' q k = slot s q k" using s'(4) by (simp add: slot_def)
  qed
  moreover from s'(5) have "free_pages s \<subseteq> free_pages s'" by auto
  ultimately show thesis
    using s'(1-3) vmap_phys [OF s'(4)] vmap_set_pte [OF ok t, of _ _ 0] s'(5,6) v by (intro that [of s']) auto
qed

section \<open>The contract\<close>

locale vm_interface =
  fixes inv :: "'s \<Rightarrow> bool"
    and dirs :: "'d set"
    and covered :: "'v set"
    and page_no :: "'v \<Rightarrow> 'n"
    and look :: "'s \<Rightarrow> 'd \<Rightarrow> 'v \<Rightarrow> ('p \<times> 'f) option"
    and can_map :: "'s \<Rightarrow> 'p \<Rightarrow> 'f \<Rightarrow> bool"
    and ins :: "'d \<Rightarrow> 'p \<Rightarrow> 'v \<Rightarrow> 'f \<Rightarrow> 's \<Rightarrow> 's option"
    and del :: "'d \<Rightarrow> 'v \<Rightarrow> 's \<Rightarrow> 's option"
    and eff :: "'f \<Rightarrow> 'f"
  assumes look_page: "page_no v' = page_no v \<Longrightarrow> look s d v' = look s d v"
    and ins_inv: "inv s \<Longrightarrow> d \<in> dirs \<Longrightarrow> v \<in> covered \<Longrightarrow> can_map s p f \<Longrightarrow>
        ins d p v f s = Some s' \<Longrightarrow> inv s'"
    and look_ins: "inv s \<Longrightarrow> d \<in> dirs \<Longrightarrow> v \<in> covered \<Longrightarrow> can_map s p f \<Longrightarrow>
        ins d p v f s = Some s' \<Longrightarrow> d' \<in> dirs \<Longrightarrow> v' \<in> covered \<Longrightarrow>
        look s' d' v' = (if d' = d \<and> page_no v' = page_no v then Some (p, eff f) else look s d' v')"
    and del_inv: "inv s \<Longrightarrow> d \<in> dirs \<Longrightarrow> v \<in> covered \<Longrightarrow> \<exists>s'. del d v s = Some s' \<and> inv s'"
    and look_del: "inv s \<Longrightarrow> d \<in> dirs \<Longrightarrow> v \<in> covered \<Longrightarrow> del d v s = Some s' \<Longrightarrow>
        d' \<in> dirs \<Longrightarrow> v' \<in> covered \<Longrightarrow>
        look s' d' v' = (if d' = d \<and> page_no v' = page_no v then None else look s d' v')"
begin

text \<open>Two states that no lookup distinguishes.\<close>

definition same_view :: "'s \<Rightarrow> 's \<Rightarrow> bool" where
  "same_view s t \<longleftrightarrow> (\<forall>d\<in>dirs. \<forall>v\<in>covered. look s d v = look t d v)"

lemma del_of_ins:
  assumes "inv s" "d \<in> dirs" "v \<in> covered" "can_map s p f" "ins d p v f s = Some s1"
    and "look s d v = None"
  shows "\<exists>s2. del d v s1 = Some s2 \<and> inv s2 \<and> same_view s2 s"
proof -
  have s1: "inv s1" using ins_inv [OF assms(1-5)] .
  obtain s2 where s2: "del d v s1 = Some s2" "inv s2"
    using del_inv [OF s1 assms(2,3)] by blast
  have "look s2 d' v' = look s d' v'" if "d' \<in> dirs" "v' \<in> covered" for d' v'
    using look_del [OF s1 assms(2,3) s2(1) that] look_ins [OF assms(1-5) that] assms(6)
      look_page [of v' v s d] by (cases "d' = d \<and> page_no v' = page_no v") simp_all
  with s2 show ?thesis by (auto simp: same_view_def)
qed

lemma ins_ins_other:
  assumes "inv s" "d1 \<in> dirs" "v1 \<in> covered" "d2 \<in> dirs" "v2 \<in> covered"
    and "\<not> (d1 = d2 \<and> page_no v1 = page_no v2)"
    and "can_map s p1 f1" "ins d1 p1 v1 f1 s = Some s1" "can_map s1 p2 f2" "ins d2 p2 v2 f2 s1 = Some s12"
    and "can_map s p2 f2" "ins d2 p2 v2 f2 s = Some s2" "can_map s2 p1 f1" "ins d1 p1 v1 f1 s2 = Some s21"
  shows "same_view s12 s21"
proof -
  have i1: "inv s1" and i2: "inv s2"
    using ins_inv [OF assms(1-3,7,8)] ins_inv [OF assms(1,4,5,11,12)] by auto
  show ?thesis
    unfolding same_view_def
    using look_ins [OF i1 assms(4,5,9,10)] look_ins [OF assms(1-3,7,8)]
      look_ins [OF i2 assms(2,3,13,14)] look_ins [OF assms(1,4,5,11,12)] assms(6) by auto
qed

lemma ins_again:
  assumes "inv s" "d \<in> dirs" "v \<in> covered" "can_map s p f" "ins d p v f s = Some s1"
    and "can_map s1 q g" "ins d q v g s1 = Some s2"
    and "can_map s q g" "ins d q v g s = Some s3"
  shows "same_view s2 s3"
  unfolding same_view_def
  using look_ins [OF ins_inv [OF assms(1-5)] assms(2,3,6,7)] look_ins [OF assms(1-5)]
    look_ins [OF assms(1-3,8,9)] by auto

end

section \<open>The code of kern/pmap.c provides it\<close>

definition user_va :: "u32 set" where
  "user_va = {va. unat (PDX va) < UPDES}"

definition vm_ins :: "nat \<Rightarrow> nat \<Rightarrow> u32 \<Rightarrow> u32 \<Rightarrow> kstate \<Rightarrow> kstate option" where
  "vm_ins d pp va perm s =
     (case page_insert (kv d) pp va perm s of Ret r s' \<Rightarrow> if r = 0 then Some s' else None | _ \<Rightarrow> None)"

definition vm_del :: "nat \<Rightarrow> u32 \<Rightarrow> kstate \<Rightarrow> kstate option" where
  "vm_del d va s = (case page_remove (kv d) va s of Ret _ s' \<Rightarrow> Some s' | _ \<Rightarrow> None)"

definition can_enter :: "nat set \<Rightarrow> kstate \<Rightarrow> nat \<Rightarrow> u32 \<Rightarrow> bool" where
  "can_enter D s pp perm \<longleftrightarrow> mappable s D pp \<and> perm AND NOT 0xFFF = 0"

lemma vm_ins_Some:
  assumes "vm_ok s D ext" "d \<in> D" "va \<in> user_va" "can_enter D s pp perm" "vm_ins d pp va perm s = Some s'"
  shows "vm_ok s' D ext" and "d' \<in> D \<Longrightarrow> va' \<in> user_va \<Longrightarrow> vmap s' d' va' =
    (if d' = d \<and> PGNUM va' = PGNUM va then Some (pp, perm OR PTE_P) else vmap s d' va')"
proof -
  have pre: "unat (PDX va) < 955" "mappable s D pp" "perm AND NOT 0xFFF = 0"
    using assms(3,4) by (auto simp: user_va_def can_enter_def)
  have "vm_ok s' D ext \<and> (\<forall>d'\<in>D. \<forall>va'\<in>user_va. vmap s' d' va' =
    (if d' = d \<and> PGNUM va' = PGNUM va then Some (pp, perm OR PTE_P) else vmap s d' va'))"
    by (rule page_insert_cases [OF assms(1,2) pre]) (use assms(5) in \<open>auto simp: vm_ins_def user_va_def\<close>)
  then show "vm_ok s' D ext" and "d' \<in> D \<Longrightarrow> va' \<in> user_va \<Longrightarrow> vmap s' d' va' =
    (if d' = d \<and> PGNUM va' = PGNUM va then Some (pp, perm OR PTE_P) else vmap s d' va')"
    by blast+
qed

interpretation vm: vm_interface "\<lambda>s. vm_ok s D ext" D user_va PGNUM vmap "can_enter D" vm_ins vm_del
  "\<lambda>perm. perm OR PTE_P"
proof
  fix s s' :: kstate and d d' pp :: nat and va va' perm :: u32
  show "vmap s d va' = vmap s d va" if "PGNUM va' = PGNUM va"
    using that by (rule vmap_page)
  assume ok: "vm_ok s D ext" "d \<in> D" "va \<in> user_va"
  note d = ok(2) ok(3) [unfolded user_va_def mem_Collect_eq]
  {
    assume *: "can_enter D s pp perm" "vm_ins d pp va perm s = Some s'"
    show "vm_ok s' D ext" by (rule vm_ins_Some(1) [OF ok *])
    show "vmap s' d' va' = (if d' = d \<and> PGNUM va' = PGNUM va then Some (pp, perm OR PTE_P) else vmap s d' va')"
      if "d' \<in> D" "va' \<in> user_va"
      by (rule vm_ins_Some(2) [OF ok * that])
  }
  show "\<exists>s'. vm_del d va s = Some s' \<and> vm_ok s' D ext"
    by (rule page_remove_ok [OF ok(1) d]) (simp add: vm_del_def)
  show "vmap s' d' va' = (if d' = d \<and> PGNUM va' = PGNUM va then None else vmap s d' va')"
    if "vm_del d va s = Some s'" "d' \<in> D" "va' \<in> user_va"
    by (rule page_remove_ok [OF ok(1) d]) (use that in \<open>auto simp: vm_del_def user_va_def\<close>)
qed

end
