(* ===== verification/User_Mem.thy ===== *)
theory User_Mem
  imports Vm_Interface
begin

text \<open>
  What \<open>user_mem_check\<close> of \<^verbatim>\<open>kern/pmap.c\<close> decides. On a range below
  \<^verbatim>\<open>UTOP\<close> it accepts exactly when every page of the range is mapped; otherwise it
  reports the first page that is not. Because the test of an entry is a bitwise-and with a mask
  that contains \<^verbatim>\<open>PTE_P\<close>, the requested write permission plays no role, and
  because the end of the range is computed modulo 2^32 a range that reaches the top of the
  address space is accepted without a look at any page.
\<close>

lemma unat_page_addr: "k < 1048576 \<Longrightarrow> unat (of_nat (4096 * k) :: u32) = 4096 * k"
  by (rule unat_of_nat32) simp

lemma user_va_below: "unat va < 4005560320 \<Longrightarrow> unat (PDX va) < 955"
  by (simp add: unat_PDX)

text \<open>The loop searches the page numbers from \<open>k\<close> up to \<open>n\<close> for an unmapped page.\<close>

definition unmapped_in :: "kstate \<Rightarrow> nat \<Rightarrow> nat \<Rightarrow> nat \<Rightarrow> nat option" where
  "unmapped_in s d k n = find (\<lambda>p. vmap s d (of_nat (4096 * p)) = None) [k..<n]"

lemma unmapped_in_step:
  "k < n \<Longrightarrow> unmapped_in s d k n =
     (if vmap s d (of_nat (4096 * k)) = None then Some k else unmapped_in s d (Suc k) n)"
  by (simp add: unmapped_in_def upt_conv_Cons)

lemma unmapped_in_None: "unmapped_in s d k n = None \<longleftrightarrow> (\<forall>p. k \<le> p \<and> p < n \<longrightarrow> vmap s d (of_nat (4096 * p)) \<noteq> None)"
  by (auto simp: unmapped_in_def find_None_iff)

lemma page_lookup_pte:
  assumes ok: "vm_ok s D ext" and d: "d \<in> D" "unat (PDX va) < 955" and "vmap s d va \<noteq> None"
  obtains pp e where "page_lookup (kv d) va s = Ret (Some (pp, e)) s" and "present (kld e s)"
proof -
  obtain pp perm where v: "vmap s d va = Some (pp, perm)"
    using assms(4) by auto
  then have m: "(loc d va, unat (PTX va)) \<in> maps s D"
    using vmap_maps(1) [OF ok d] by simp
  then have t: "loc d va \<in> tables s D" and "present (slot s (tfr s (loc d va)) (unat (PTX va)))"
    by (auto simp: maps_def)
  then show thesis
    using page_lookup_vmap [OF ok d] v tfr_lt [OF ok t] by (intro that) (auto simp: kld_entry)
qed

lemma user_mem_loop_find:
  assumes ok: "vm_ok s D ext" "d \<in> D" and n: "n \<le> 977920" and perm: "perm AND PTE_P = PTE_P"
  shows "k \<le> n \<Longrightarrow> user_mem_loop (kv d) perm (of_nat (4096 * n)) (of_nat (4096 * k)) s =
    Ret (map_option (\<lambda>p. of_nat (4096 * p)) (unmapped_in s d k n)) s"
proof (induction "n - k" arbitrary: k)
  case 0
  then show ?case
    by (subst user_mem_loop.simps) (simp add: unmapped_in_def)
next
  case (Suc m)
  then have k: "k < n" by simp
  let ?a = "of_nat (4096 * k) :: u32"
  have a: "unat ?a = 4096 * k" "?a < of_nat (4096 * n)" "\<not> ?a \<ge> ULIM" "unat (PDX ?a) < 955"
    using k n unat_page_addr [of k] unat_page_addr [of n]
    by (simp_all add: word_less_nat_alt word_le_nat_alt user_va_below)
  have next_a: "?a + PGSIZE = of_nat (4096 * Suc k)"
    by simp
  have IH: "user_mem_loop (kv d) perm (of_nat (4096 * n)) (of_nat (4096 * Suc k)) s =
    Ret (map_option (\<lambda>p. of_nat (4096 * p)) (unmapped_in s d (Suc k) n)) s"
    using Suc.hyps(2) k by (intro Suc.hyps(1)) auto
  show ?case
  proof (cases "vmap s d ?a = None")
    case True
    then show ?thesis
      using page_lookup_vmap [OF ok a(4)] a k
      by (subst user_mem_loop.simps) (simp add: unmapped_in_step)
  next
    case False
    from page_lookup_pte [OF ok a(4) False] obtain pp e where
      e: "page_lookup (kv d) ?a s = Ret (Some (pp, e)) s" "present (kld e s)" .
    have "kld e s AND perm \<noteq> 0"
    proof
      assume "kld e s AND perm = 0"
      then have "kld e s AND (perm AND PTE_P) = 0"
        by (simp add: and.assoc [symmetric] del: and_one_eq)
      with perm e(2) show False by simp
    qed
    then show ?thesis
      using e a k False IH next_a
      by (subst user_mem_loop.simps) (auto simp: unmapped_in_step add.commute)
  qed
qed


section \<open>The decision of \<open>user_mem_check\<close>\<close>

lemma ROUNDDOWN_page: "ROUNDDOWN va PGSIZE = of_nat (4096 * (unat va div 4096))"
proof (rule word_eq_unatI)
  have "unat va div 4096 < 1048576"
    using unat_lt32 [of va] by (intro less_mult_imp_div_less) simp
  then show "unat (ROUNDDOWN va PGSIZE) = unat (of_nat (4096 * (unat va div 4096)) :: u32)"
    by (simp only: unat_page_addr unat_ROUNDDOWN) (simp add: minus_mod_eq_mult_div)
qed

lemma ROUNDUP_page:
  assumes "unat va \<le> 4294963200"
  shows "ROUNDUP va PGSIZE = of_nat (4096 * ((unat va + 4095) div 4096))"
  by (rule word_eq_unatI)
    (use assms in \<open>simp add: unat_page_addr unat_ROUNDUP_PGSIZE del: of_nat_mult\<close>)

lemma user_mem_check_find:
  assumes ok: "vm_ok s D ext" "d \<in> D" and top: "unat va + unat len \<le> 4005560320"
  shows "user_mem_check (kv d) va len perm s =
    (case unmapped_in s d (unat va div 4096) ((unat va + unat len + 4095) div 4096) of
       None \<Rightarrow> Ret 0 s
     | Some p \<Rightarrow> Ret (- E_FAULT) (s\<lparr>user_mem_check_addr := of_nat (4096 * p)\<rparr>))"
proof -
  let ?k = "unat va div 4096" and ?n = "(unat va + unat len + 4095) div 4096"
  have sum: "unat (va + len) = unat va + unat len"
    using top by (intro unat_add_lt32) simp
  have n: "?n \<le> 977920" "?k \<le> ?n"
    using top by (simp_all add: div_le_mono)
  have "(perm OR PTE_U OR PTE_P) AND PTE_P = PTE_P"
    by (simp add: bit.conj_disj_distrib2)
  from user_mem_loop_find [OF ok n(1) this n(2)]
  have loop: "user_mem_loop (kv d) (perm OR PTE_U OR PTE_P) (ROUNDUP (va + len) PGSIZE) (ROUNDDOWN va PGSIZE) s =
    Ret (map_option (\<lambda>p. of_nat (4096 * p)) (unmapped_in s d ?k ?n)) s"
    using top sum by (simp add: ROUNDDOWN_page ROUNDUP_page)
  have "ROUNDDOWN (of_nat (4096 * p)) PGSIZE = of_nat (4096 * p)" if "unmapped_in s d ?k ?n = Some p" for p
  proof -
    have "p < 1048576"
      using that n(1) by (auto simp: unmapped_in_def find_Some_iff)
    from unat_page_addr [OF this] show ?thesis
      by (simp only: ROUNDDOWN_page) simp
  qed
  with loop show ?thesis
    by (auto simp: user_mem_check_def kbind_def kthen_def split: option.splits)
qed


lemma user_mem_check_top:
  assumes "unat va + unat len = 4294967296"
  shows "user_mem_check pgdir va len perm s = Ret 0 s"
proof -
  have "unat (va + len) = 0"
    using assms by (simp add: unat_word_ariths)
  then have "va + len = 0"
    by (simp only: unat_eq_0)
  then have "ROUNDUP (va + len) PGSIZE = 0"
    by (simp add: ROUNDUP_def ROUNDDOWN_def)
  then show ?thesis
    by (simp add: user_mem_check_def user_mem_loop.simps kbind_def)
qed

end
