(* ===== verification/Sample_State.thy ===== *)
theory Sample_State
  imports User_Mem
begin

text \<open>
  A small machine in which the hypotheses of the kernel theorems hold: eight pages of zeroed
  physical memory, frame 1 the (empty) page directory of environment 0, which runs on processor
  0, frames 3, 4 and 5 on the free list, frame 2 allocated and not yet mapped.
\<close>

definition sample_pages :: "nat \<Rightarrow> PageInfo" where
  "sample_pages i = \<lparr>pp_link = (if i = 3 then Some 4 else if i = 4 then Some 5 else None),
     pp_ref = (if i = 1 \<or> i = 6 then 1 else 0)\<rparr>"

definition sample_env :: "nat \<Rightarrow> Env" where
  "sample_env i = \<lparr>env_tf = zero_tf, env_link = (if i = 0 then None else if i = 1023 then None else Some (i + 1)),
     env_id = (if i = 0 then 0x1000 else 0), env_parent_id = 0, env_type = ENV_TYPE_USER,
     env_status = (if i = 0 then ENV_RUNNING else ENV_FREE), env_runs = 0, env_cpunum = 0,
     env_pgdir = (if i = 0 then kv 1 else 0), env_pgfault_upcall = 0, env_ipc_recving = False,
     env_ipc_dstva = 0, env_ipc_value = 0, env_ipc_from = 0, env_ipc_perm = 0\<rparr>"

definition sample_console :: console where
  "sample_console = \<lparr>cbuf = (\<lambda>_. 0), rpos = 0, wpos = 0, kshift = 0, serial_exists = True,
     addr_6845 = 0x3D4, crt_buf = (\<lambda>_. 0), crt_pos = 0, irq_mask = 0xFFFB, didinit = False,
     kbd_queue = [(1, 0x1E), (1, 0x9E)], com_queue = [], port_log = [], screen_log = []\<rparr>"

definition sample :: kstate where
  "sample = \<lparr>phys = (\<lambda>_. 0), npages = 8, npages_basemem = 160, pages = sample_pages,
     page_free_list = Some 3, nextfree = 0, kern_pgdir = kv 6, mmio_base = 0xEF800000,
     user_mem_check_addr = 0, envs = sample_env, env_free_list = Some 1,
     cpus = (\<lambda>i. \<lparr>cpu_id = of_nat i, cpu_status = (if i = 0 then CPU_STARTED else CPU_UNUSED),
       cpu_env = (if i = 0 then Some 0 else None), cpu_ts = \<lparr>ts_esp0 = 0, ts_ss0 = 0, ts_iomb = 0\<rparr>\<rparr>),
     cpunum = 0, ncpu = 1, bootcpu = Some 0, ismp = False,
     apic = \<lparr>lapicaddr = 0xFEE00000, lapic = 0xEF800000, lapic_log = []\<rparr>, panicstr = False, kernel_lock = \<lparr>locked = True, lock_cpu = Some 0\<rparr>, cr3 = page2pa 1,
     invlpg_log = [], con = sample_console\<rparr>"

lemma sample_fields [simp]:
  "npages sample = 8" "pages sample = sample_pages" "page_free_list sample = Some 3"
  "envs sample = sample_env" "env_free_list sample = Some 1" "cpunum sample = 0"
  "cpu_env (cpus sample 0) = Some 0" "kern_pgdir sample = kv 6" "npages_basemem sample = 160"
  "kernel_lock sample = \<lparr>locked = True, lock_cpu = Some 0\<rparr>" "cr3 sample = page2pa 1"
  by (simp_all add: sample_def)

lemma sample_free_list: "free_list sample [3, 4, 5]"
  by (simp add: free_list_def sample_pages_def)

lemma sample_free_pages: "free_pages sample = {3, 4, 5}"
  using free_pages_eq [OF sample_free_list] by simp

lemma sample_pages_ok: "pages_ok sample"
  by (rule pages_okI [OF _ sample_free_list]) (auto simp: sample_pages_def)

lemma sample_slot: "slot sample f i = 0"
  by (simp add: slot_def sample_def load32_def)

lemma sample_no_tables: "tables sample D = {}" "maps sample D = {}"
  by (simp_all add: tables_def maps_def sample_slot)

text \<open>The kernel's own directory is in frame 6 and has been referenced since boot.\<close>

definition sample_ext :: "nat \<Rightarrow> nat" where
  "sample_ext q = (if q = 6 then 1 else 0)"

lemma sample_vm_ok: "vm_ok sample {1} sample_ext"
proof (rule vm_okI)
  show "unat (pp_ref (pages sample q)) = refs sample {1} q + sample_ext q" for q
    by (simp add: refs_def sample_no_tables sample_pages_def sample_ext_def)
qed (use sample_pages_ok in \<open>simp_all add: sample_no_tables\<close>)

lemma sample_mappable: "mappable sample {1} 2"
  by (simp add: mappable_def sample_free_pages sample_no_tables sample_pages_def)

lemma sample_vmap: "vmap sample d va = None"
  by (simp add: vmap_def sample_slot)

end
