(* ===== verification/Vm_Theorems.thy ===== *)
theory Vm_Theorems
  imports Sample_State
begin

text \<open>
  The properties of the memory manager that its clients rely on, stated over the definitions of
  \<^verbatim>\<open>kern/pmap.c\<close>, each with an instance on the sample machine.
\<close>

section \<open>Physical pages\<close>

text \<open>\<open>page_alloc\<close> and \<open>page_free\<close> manage the free list as a set: an allocation
  returns a page of the set and removes just that page, fails exactly when the set is empty and
  never panics; freeing the page just allocated restores the set.\<close>

theorem page_alloc_correct:
  assumes "pages_ok s"
  shows "case page_alloc flags s of
      Ret None s' \<Rightarrow> free_pages s = {} \<and> s' = s
    | Ret (Some pp) s' \<Rightarrow> pages_ok s' \<and> pp \<in> free_pages s \<and> free_pages s' = free_pages s - {pp} \<and>
        (\<exists>s''. page_free pp s' = Ret () s'' \<and> pages_ok s'' \<and> free_pages s'' = free_pages s)
    | _ \<Rightarrow> False"
  using assms
proof (rule page_alloc_cases [of s flags])
  fix pp assume pp: "pp \<in> free_pages s" "page_alloc flags s = Ret (Some pp) (after_alloc flags pp s)"
  note ok = page_alloc_ok [OF assms pp(2)]
  have "freeable pp (after_alloc flags pp s)"
    using free_pages_bound [OF assms pp(1)] free_pages_ref [OF assms pp(1)] ok(3) by (simp add: freeable_def)
  from page_free_ok [OF ok(1) this] show ?thesis
    using ok pp by auto
qed simp

theorem page_alloc_correct_witness:
  "pages_ok sample \<and> (\<exists>s'. page_alloc 1 sample = Ret (Some 3) s' \<and> pages_ok s' \<and> free_pages s' = {4, 5})"
proof -
  have "page_alloc 1 sample = Ret (Some 3) (after_alloc 1 3 sample)"
    using sample_pages_ok by (rule page_alloc_cases [of sample 1]) simp_all
  with page_alloc_correct [OF sample_pages_ok, of 1] show ?thesis
    using sample_pages_ok by (simp add: sample_free_pages)
qed

text \<open>\<open>page_init\<close> builds a well-formed free list that holds exactly the pages outside
  page 0, the I/O hole with the kernel behind it, and the page the other processors boot from.\<close>

theorem page_init_correct:
  assumes "unat (npages s) \<le> 65536" and "page_free_list s = None" and "nextfree s \<ge> KERNBASE"
  shows "\<exists>s'. page_init kend s = Ret () s' \<and> pages_ok s' \<and>
    free_pages s' = {p. p < unat (npages s) \<and>
      \<not> boot_used (npages_basemem s) 0x60 ((nextfree s - KERNBASE - EXTPHYSMEM) div PGSIZE) p}"
  using page_init_spec [OF assms, of kend] by blast

theorem page_init_correct_witness:
  "\<exists>s'. page_init 0xF0110000 (sample\<lparr>page_free_list := None, nextfree := 0xF0120000\<rparr>) = Ret () s' \<and>
     pages_ok s' \<and> 2 \<in> free_pages s' \<and> 0 \<notin> free_pages s' \<and> 7 \<notin> free_pages s'"
  using page_init_correct [of "sample\<lparr>page_free_list := None, nextfree := 0xF0120000\<rparr>" "0xF0110000"]
  by (auto simp: boot_used_def sample_def)

text \<open>\<open>page_free\<close> does not detect every double free: the last page of the free list has
  a null link and a zero count, so it is accepted a second time and the list becomes cyclic
  (no finite list describes it any more).\<close>

theorem page_free_misses_double_free:
  assumes "pages_ok s" and "free_list s (xs @ [p])"
  shows "\<exists>s'. page_free p s = Ret () s' \<and> (\<nexists>ys. free_list s' ys)"
proof -
  have link: "pp_link (pages s p) = None"
    using assms(2) fl_path_tail [of "pages s" "page_free_list s" xs p "[]"] by (simp add: free_list_def)
  have mem: "p \<in> free_pages s"
    using free_pages_eq [OF assms(2)] by simp
  let ?t = "after_free p s"
  have "page_free p s = Ret () ?t"
    using link free_pages_ref [OF assms(1) mem] by (simp add: page_free_def after_free_def)
  moreover have "\<not> free_list ?t ys" for ys
  proof
    assume "free_list ?t ys"
    then have *: "fl_path (pages ?t) (Some p) ys" by (simp add: free_list_def)
    then obtain zs where zs: "ys = p # zs" "fl_path (pages ?t) (page_free_list s) zs"
      by (auto simp: fl_path_Some)
    have "p \<notin> set zs"
      using fl_path_distinct [OF *] zs(1) by simp
    then have "fl_path (pages s) (page_free_list s) zs"
      using zs(2) by simp
    then have "zs = xs @ [p]"
      using assms(2) fl_path_unique unfolding free_list_def by blast
    with \<open>p \<notin> set zs\<close> show False by simp
  qed
  ultimately show ?thesis by blast
qed

theorem page_free_misses_double_free_witness:
  "pages_ok sample \<and> (\<exists>s'. page_free 5 sample = Ret () s' \<and> (\<nexists>ys. free_list s' ys))"
  using page_free_misses_double_free [OF sample_pages_ok, of "[3, 4]" 5] sample_free_list sample_pages_ok
  by simp


section \<open>Address spaces\<close>

text \<open>(C7) \<open>page_insert\<close> on a well-formed set of address spaces: it fails with
  \<^verbatim>\<open>-E_NO_MEM\<close>, changing nothing, exactly when the page table of \<open>va\<close> is missing and no
  free page is left to build it. Otherwise it returns 0, every reference count is again the
  number of references, \<open>va\<close>'s page now maps \<open>pp\<close> with the requested permissions, and no
  other page of any address space has changed.\<close>

theorem page_insert_correct:
  assumes "vm_ok s D ext" and "d \<in> D" and "unat (PDX va) < UPDES" and "mappable s D pp"
    and "perm AND NOT 0xFFF = 0"
  shows "if free_pages s = {} \<and> \<not> present (slot s d (unat (PDX va)))
    then page_insert (kv d) pp va perm s = Ret (- E_NO_MEM) s
    else \<exists>s'. page_insert (kv d) pp va perm s = Ret 0 s' \<and> vm_ok s' D ext \<and>
      (\<forall>d' va'. d' \<in> D \<and> unat (PDX va') < UPDES \<longrightarrow> vmap s' d' va' =
        (if d' = d \<and> PGNUM va' = PGNUM va then Some (pp, perm OR PTE_P) else vmap s d' va'))"
  by (rule page_insert_cases [OF assms]) auto

theorem page_insert_correct_witness:
  "mappable sample {1} 2 \<and> (\<exists>s'. page_insert (kv 1) 2 0x400000 (PTE_U OR PTE_W) sample = Ret 0 s' \<and>
     vmap s' 1 0x400123 = Some (2, 7) \<and> vmap s' 1 0x401000 = None)"
proof -
  have "\<exists>s'. page_insert (kv 1) 2 0x400000 (PTE_U OR PTE_W) sample = Ret 0 s' \<and> vm_ok s' {1} sample_ext \<and>
      (\<forall>d' va'. d' \<in> {1} \<and> unat (PDX va') < UPDES \<longrightarrow> vmap s' d' va' =
        (if d' = 1 \<and> PGNUM va' = PGNUM 0x400000 then Some (2, (PTE_U OR PTE_W) OR PTE_P) else vmap sample d' va'))"
    using page_insert_correct [OF sample_vm_ok _ _ sample_mappable, of 1 "0x400000" "PTE_U OR PTE_W"]
    by (simp add: unat_PDX sample_free_pages)
  then show ?thesis
    using sample_mappable by (auto simp: unat_PDX PGNUM_def sample_vmap)
qed


text \<open>(C8) \<open>page_remove\<close> deletes the entry of \<open>va\<close> and drops one reference. If that was
  the last reference the page is back on the free list, and then no address space maps it any
  more: nobody keeps a dangling mapping.\<close>

theorem page_remove_correct:
  assumes "vm_ok s D ext" and "d \<in> D" and "unat (PDX va) < UPDES"
  shows "\<exists>s'. page_remove (kv d) va s = Ret () s' \<and> vm_ok s' D ext \<and>
    (\<forall>d' va'. d' \<in> D \<and> unat (PDX va') < UPDES \<longrightarrow> vmap s' d' va' =
      (if d' = d \<and> PGNUM va' = PGNUM va then None else vmap s d' va')) \<and>
    (\<forall>pp perm. vmap s d va = Some (pp, perm) \<longrightarrow>
      (if pp_ref (pages s pp) = 1
       then pp \<in> free_pages s' \<and> (\<forall>d'\<in>D. \<forall>va' perm'. unat (PDX va') < UPDES \<longrightarrow> vmap s' d' va' \<noteq> Some (pp, perm'))
       else pp_ref (pages s' pp) = pp_ref (pages s pp) - 1))"
proof -
  obtain s' where s': "page_remove (kv d) va s = Ret () s'" "vm_ok s' D ext"
      "\<And>d' va'. d' \<in> D \<Longrightarrow> unat (PDX va') < UPDES \<Longrightarrow> vmap s' d' va' =
        (if d' = d \<and> PGNUM va' = PGNUM va then None else vmap s d' va')"
      "\<And>pp perm. vmap s d va = Some (pp, perm) \<Longrightarrow> (if pp_ref (pages s pp) = 1 then pp \<in> free_pages s'
        else pp_ref (pages s' pp) = pp_ref (pages s pp) - 1)"
    by (rule page_remove_ok [OF assms]) (rule that, assumption+)
  note gone = free_not_mapped [OF s'(2)]
  show ?thesis
    by (intro exI [of _ s'] conjI allI impI s'(1,2)) (use s'(3,4) gone in \<open>auto split: if_splits\<close>)
qed

theorem page_remove_correct_witness:
  "\<exists>s1 s2. page_insert (kv 1) 2 0x400000 PTE_U sample = Ret 0 s1 \<and> vmap s1 1 0x400000 = Some (2, 5) \<and>
     page_remove (kv 1) 0x400000 s1 = Ret () s2 \<and> vmap s2 1 0x400000 = None"
proof -
  have u: "unat (PDX 0x400000) < UPDES" "(PTE_U :: u32) AND NOT 0xFFF = 0"
    by (simp_all add: unat_PDX)
  show ?thesis
  proof (rule page_insert_cases [OF sample_vm_ok _ u(1) sample_mappable u(2), of 1])
    fix s1 assume "page_insert (kv 1) 2 0x400000 PTE_U sample = Ret 0 s1" "vm_ok s1 {1} sample_ext"
      "\<And>d' va'. d' \<in> {1} \<Longrightarrow> unat (PDX va') < UPDES \<Longrightarrow> vmap s1 d' va' =
        (if d' = 1 \<and> PGNUM va' = PGNUM 0x400000 then Some (2, PTE_U OR PTE_P) else vmap sample d' va')"
    then show ?thesis
      using page_remove_correct [of s1 "{1}" sample_ext 1 "0x400000"] u(1) by auto
  qed (simp_all add: sample_free_pages)
qed

text \<open>\<open>page_lookup\<close> agrees with the address space: it never panics, changes nothing and
  returns the mapped page together with the address of its entry.\<close>

theorem page_lookup_correct:
  assumes "vm_ok s D ext" and "d \<in> D" and "unat (PDX va) < UPDES"
  shows "case vmap s d va of
      None \<Rightarrow> page_lookup (kv d) va s = Ret None s
    | Some (pp, perm) \<Rightarrow> \<exists>pte. page_lookup (kv d) va s = Ret (Some (pp, pte)) s \<and>
        kld pte s AND 0xFFF = perm \<and> frame (kld pte s) = pp"
proof (cases "vmap s d va")
  case None
  then show ?thesis using page_lookup_vmap [OF assms] by simp
next
  case (Some x)
  then obtain pp perm where v: "vmap s d va = Some (pp, perm)" by (cases x) auto
  then have t: "loc d va \<in> tables s D"
    using vmap_maps(1) [OF assms] by (simp add: maps_def)
  have "kld (kv (tfr s (loc d va)) + 4 * PTX va) s = slot s (tfr s (loc d va)) (unat (PTX va))"
    using tfr_lt [OF assms(1) t] by (simp add: kld_entry)
  with v page_lookup_vmap [OF assms] show ?thesis
    by (auto simp: vmap_def Let_def tfr_def split: if_splits)
qed

theorem page_lookup_correct_witness:
  "vm_ok sample {1} sample_ext \<and> page_lookup (kv 1) 0x800000 sample = Ret None sample"
  using page_lookup_correct [OF sample_vm_ok, of 1 "0x800000"] sample_vm_ok
  by (simp add: sample_vmap unat_PDX)

section \<open>Checking user pointers\<close>

text \<open>(C32) On a range below \<^verbatim>\<open>UTOP\<close>, \<open>user_mem_check\<close> returns 0 exactly when every page
  of the range is mapped, and otherwise \<^verbatim>\<open>-E_FAULT\<close> with the first unmapped page in
  \<^verbatim>\<open>user_mem_check_addr\<close>. The requested permission does not influence the result.\<close>

theorem user_mem_check_correct:
  assumes "vm_ok s D ext" and "d \<in> D" and "unat va + unat len \<le> unat UTOP"
  shows "user_mem_check (kv d) va len perm s =
    (case find (\<lambda>p. vmap s d (of_nat (4096 * p)) = None)
       [unat va div 4096 ..< (unat va + unat len + 4095) div 4096] of
       None \<Rightarrow> Ret 0 s
     | Some p \<Rightarrow> Ret (- E_FAULT) (s\<lparr>user_mem_check_addr := of_nat (4096 * p)\<rparr>))"
  using user_mem_check_find [OF assms(1,2)] assms(3) by (simp add: unmapped_in_def)

theorem user_mem_check_correct_witness:
  "\<exists>s'. user_mem_check (kv 1) 0x400010 16 PTE_W sample = Ret (- E_FAULT) s' \<and> user_mem_check_addr s' = 0x400000"
  using user_mem_check_correct [OF sample_vm_ok, of 1 "0x400010" 16 PTE_W]
  by (simp add: sample_vmap upt_conv_Cons)

text \<open>A range that ends exactly at the top of the 32-bit address space is accepted whatever
  is mapped there, although all of it may lie above \<^verbatim>\<open>ULIM\<close>: the end of the range wraps
  to 0 and the loop does not run.\<close>

theorem user_mem_check_wraps:
  assumes "unat va + unat len = 2 ^ 32"
  shows "user_mem_check pgdir va len perm s = Ret 0 s"
  using user_mem_check_top [of va len pgdir perm s] assms by simp

theorem user_mem_check_wraps_witness:
  "user_mem_check (kv 1) KERNBASE 0x10000000 PTE_W sample = Ret 0 sample"
  using user_mem_check_wraps [of KERNBASE "0x10000000"] by simp

end
