(* ===== verification/Spinlock.thy ===== *)
theory Spinlock
  imports Kernel_State
begin

text \<open>
  The kernel lock, \<^verbatim>\<open>kern/spinlock.c\<close>, in two views.

  \<^item> As part of one processor's run through the kernel: \<open>lock_kernel\<close> and
    \<open>unlock_kernel\<close> on the kernel state, with their two panics. A processor that finds the
    lock taken spins (\<open>Gone Spinning\<close>).
  \<^item> As a concurrent algorithm: the step relation \<open>lock_step\<close> interleaves any number of
    processors, one memory access per step (the test of \<open>holding\<close>, the atomic
    \<^verbatim>\<open>xchg\<close>, the write of \<^verbatim>\<open>lk->cpu\<close>, ...). Its reachable states satisfy
    mutual exclusion, and neither panic can happen.

  The debugging fields \<^verbatim>\<open>name\<close> and \<^verbatim>\<open>pcs\<close> are only printed before a panic
  and are left out of the lock record; the stack walk that fills \<^verbatim>\<open>pcs\<close> is
  \<open>get_caller_pcs\<close>, over a function that reads words of the stack.
\<close>

section \<open>Definitions\<close>

text \<open>The first loop of \<^verbatim>\<open>get_caller_pcs\<close> collects at most \<open>n\<close> return addresses, the
  second pads the array to ten.\<close>

fun pcs_walk :: "(u32 \<Rightarrow> u32) \<Rightarrow> nat \<Rightarrow> u32 \<Rightarrow> u32 list" where
  "pcs_walk rd 0 ebp = []"
| "pcs_walk rd (Suc n) ebp =
     (if ebp = 0 \<or> ebp < ULIM then [] else rd (ebp + 4) # pcs_walk rd n (rd ebp))"

definition get_caller_pcs :: "(u32 \<Rightarrow> u32) \<Rightarrow> u32 \<Rightarrow> u32 list" where
  "get_caller_pcs rd ebp =
     (let pcs = pcs_walk rd 10 ebp in pcs @ replicate (10 - length pcs) 0)"

definition holding :: "nat \<Rightarrow> spinlock \<Rightarrow> bool" where
  "holding thiscpu lk \<longleftrightarrow> locked lk \<and> lock_cpu lk = Some thiscpu"

definition spin_initlock :: "spinlock \<Rightarrow> spinlock" where
  "spin_initlock lk = lk\<lparr>locked := False, lock_cpu := None\<rparr>"

definition lock_kernel :: "(kstate, unit) op" where
  "lock_kernel s =
     (if holding (cpunum s) (kernel_lock s) then Panic ''cannot acquire kernel_lock: already holding''
      else if locked (kernel_lock s) then Gone Spinning s
      else Ret () (s\<lparr>kernel_lock := \<lparr>locked = True, lock_cpu = Some (cpunum s)\<rparr>\<rparr>))"

definition unlock_kernel :: "(kstate, unit) op" where
  "unlock_kernel s =
     (if \<not> holding (cpunum s) (kernel_lock s) then Panic ''spin_unlock''
      else Ret () (s\<lparr>kernel_lock := \<lparr>locked = False, lock_cpu = None\<rparr>\<rparr>))"

subsection \<open>Interleaved processors\<close>

text \<open>Where a processor stands in \<^verbatim>\<open>spin_lock\<close>, in the kernel, or in
  \<^verbatim>\<open>spin_unlock\<close>.\<close>

datatype lock_pc =
    Outside      \<comment> \<open>not in the kernel\<close>
  | Testing      \<comment> \<open>at \<open>if (holding(lk))\<close> of \<open>spin_lock\<close>\<close>
  | Exchanging   \<comment> \<open>at \<open>while (xchg(&lk->locked, 1) != 0)\<close>\<close>
  | Recording    \<comment> \<open>at \<open>lk->cpu = thiscpu\<close>\<close>
  | Critical     \<comment> \<open>in the kernel\<close>
  | Leaving      \<comment> \<open>at \<open>if (!holding(lk))\<close> of \<open>spin_unlock\<close>\<close>
  | Clearing     \<comment> \<open>at \<open>lk->cpu = 0\<close>\<close>
  | Releasing    \<comment> \<open>at \<open>xchg(&lk->locked, 0)\<close>\<close>
  | Panicked

record lock_sys =
  lk :: spinlock
  pc :: "nat \<Rightarrow> lock_pc"

definition at :: "nat \<Rightarrow> lock_pc \<Rightarrow> lock_sys \<Rightarrow> lock_sys" where
  "at c p s = s\<lparr>pc := (pc s)(c := p)\<rparr>"

inductive lock_step :: "lock_sys \<Rightarrow> lock_sys \<Rightarrow> bool" where
  enter: "pc s c = Outside \<Longrightarrow> lock_step s (at c Testing s)"
| test_panic: "pc s c = Testing \<Longrightarrow> holding c (lk s) \<Longrightarrow> lock_step s (at c Panicked s)"
| test_ok: "pc s c = Testing \<Longrightarrow> \<not> holding c (lk s) \<Longrightarrow> lock_step s (at c Exchanging s)"
| spin: "pc s c = Exchanging \<Longrightarrow> locked (lk s) \<Longrightarrow>
    lock_step s (s\<lparr>lk := (lk s)\<lparr>locked := True\<rparr>\<rparr>)"
| acquire: "pc s c = Exchanging \<Longrightarrow> \<not> locked (lk s) \<Longrightarrow>
    lock_step s (at c Recording (s\<lparr>lk := (lk s)\<lparr>locked := True\<rparr>\<rparr>))"
| record_cpu: "pc s c = Recording \<Longrightarrow>
    lock_step s (at c Critical (s\<lparr>lk := (lk s)\<lparr>lock_cpu := Some c\<rparr>\<rparr>))"
| leave: "pc s c = Critical \<Longrightarrow> lock_step s (at c Leaving s)"
| unlock_panic: "pc s c = Leaving \<Longrightarrow> \<not> holding c (lk s) \<Longrightarrow> lock_step s (at c Panicked s)"
| unlock_ok: "pc s c = Leaving \<Longrightarrow> holding c (lk s) \<Longrightarrow> lock_step s (at c Clearing s)"
| clear_cpu: "pc s c = Clearing \<Longrightarrow>
    lock_step s (at c Releasing (s\<lparr>lk := (lk s)\<lparr>lock_cpu := None\<rparr>\<rparr>))"
| release: "pc s c = Releasing \<Longrightarrow>
    lock_step s (at c Outside (s\<lparr>lk := (lk s)\<lparr>locked := False\<rparr>\<rparr>))"

inductive_cases lock_stepE: "lock_step s t"

definition lock_init :: lock_sys where
  "lock_init = \<lparr>lk = \<lparr>locked = False, lock_cpu = None\<rparr>, pc = (\<lambda>_. Outside)\<rparr>"

section \<open>The invariant of the concurrent lock\<close>

text \<open>Either nobody is past the acquiring exchange, or exactly one processor is (and not yet
  past the releasing one).\<close>

fun waiting :: "lock_pc \<Rightarrow> bool" where
  "waiting Outside = True"
| "waiting Testing = True"
| "waiting Exchanging = True"
| "waiting _ = False"

fun owner :: "lock_sys \<Rightarrow> nat option \<Rightarrow> bool" where
  "owner s None \<longleftrightarrow> \<not> locked (lk s) \<and> lock_cpu (lk s) = None \<and> (\<forall>c. waiting (pc s c))"
| "owner s (Some c) \<longleftrightarrow> locked (lk s) \<and> (\<forall>c'. c' \<noteq> c \<longrightarrow> waiting (pc s c')) \<and>
     (pc s c \<in> {Recording, Releasing} \<and> lock_cpu (lk s) = None \<or>
      pc s c \<in> {Critical, Leaving, Clearing} \<and> lock_cpu (lk s) = Some c)"

definition lock_inv :: "lock_sys \<Rightarrow> bool" where
  "lock_inv s \<longleftrightarrow> (\<exists>ow. owner s ow)"

lemma at_simps [simp]: "lk (at c p s) = lk s" "pc (at c p s) = (pc s)(c := p)"
  by (simp_all add: at_def)

lemma owner_wait:
  "owner s ow \<Longrightarrow> waiting (pc s c) \<Longrightarrow> waiting p \<Longrightarrow> owner (at c p s) ow"
  by (cases ow) (auto split: if_splits)

lemma owner_inside:
  assumes "owner s ow" and "\<not> waiting (pc s c)"
  shows "ow = Some c"
proof (cases ow)
  case (Some a)
  then show ?thesis using assms by (cases "a = c") auto
qed (use assms in simp)

lemma lock_inv_inside: "lock_inv s \<Longrightarrow> \<not> waiting (pc s c) \<Longrightarrow> owner s (Some c)"
  unfolding lock_inv_def using owner_inside by blast

lemma spin_idle: "locked (lk s) \<Longrightarrow> s\<lparr>lk := (lk s)\<lparr>locked := True\<rparr>\<rparr> = s"
  by (cases s, cases "lk s") simp

lemma lock_inv_step: "lock_step s t \<Longrightarrow> lock_inv s \<Longrightarrow> lock_inv t"
proof (induction rule: lock_step.induct)
  case (enter s c)
  then show ?case unfolding lock_inv_def using owner_wait [of s _ c Testing] by auto
next
  case (test_panic s c)
  then obtain ow where ow: "owner s ow" by (auto simp: lock_inv_def)
  then show ?case using test_panic by (cases ow) (auto simp: holding_def)
next
  case (test_ok s c)
  then show ?case unfolding lock_inv_def using owner_wait [of s _ c Exchanging] by auto
next
  case (spin s c)
  then show ?case by (simp add: spin_idle)
next
  case (acquire s c)
  then obtain ow where ow: "owner s ow" by (auto simp: lock_inv_def)
  with acquire have "ow = None" by (cases ow) auto
  with ow have "owner (at c Recording (s\<lparr>lk := (lk s)\<lparr>locked := True\<rparr>\<rparr>)) (Some c)" by simp
  then show ?case unfolding lock_inv_def by blast
next
  case (record_cpu s c)
  then have "owner s (Some c)" by (intro lock_inv_inside) simp_all
  with record_cpu have "owner (at c Critical (s\<lparr>lk := (lk s)\<lparr>lock_cpu := Some c\<rparr>\<rparr>)) (Some c)" by simp
  then show ?case unfolding lock_inv_def by blast
next
  case (leave s c)
  then have "owner s (Some c)" by (intro lock_inv_inside) simp_all
  with leave have "owner (at c Leaving s) (Some c)" by simp
  then show ?case unfolding lock_inv_def by blast
next
  case (unlock_panic s c)
  then have "owner s (Some c)" by (intro lock_inv_inside) simp_all
  with unlock_panic show ?case by (simp add: holding_def)
next
  case (unlock_ok s c)
  then have "owner s (Some c)" by (intro lock_inv_inside) simp_all
  with unlock_ok have "owner (at c Clearing s) (Some c)" by simp
  then show ?case unfolding lock_inv_def by blast
next
  case (clear_cpu s c)
  then have "owner s (Some c)" by (intro lock_inv_inside) simp_all
  with clear_cpu have "owner (at c Releasing (s\<lparr>lk := (lk s)\<lparr>lock_cpu := None\<rparr>\<rparr>)) (Some c)" by simp
  then show ?case unfolding lock_inv_def by blast
next
  case (release s c)
  then have "owner s (Some c)" by (intro lock_inv_inside) simp_all
  with release have "owner (at c Outside (s\<lparr>lk := (lk s)\<lparr>locked := False\<rparr>\<rparr>)) None" by simp
  then show ?case unfolding lock_inv_def by blast
qed

lemma lock_inv_init: "lock_inv lock_init"
  unfolding lock_inv_def by (rule exI [of _ None]) (simp add: lock_init_def)

lemma lock_inv_reachable: "lock_step\<^sup>*\<^sup>* lock_init s \<Longrightarrow> lock_inv s"
  by (induction rule: rtranclp_induct) (auto intro: lock_inv_init lock_inv_step)

section \<open>Properties\<close>

text \<open>(C18) Mutual exclusion of the kernel lock, for every number of processors and every
  interleaving of their memory accesses: two processors are never both in the kernel, and no
  processor ever runs into the panic of \<^verbatim>\<open>spin_lock\<close> or of \<^verbatim>\<open>spin_unlock\<close>.\<close>

theorem kernel_lock_mutual_exclusion:
  assumes "lock_step\<^sup>*\<^sup>* lock_init s"
  shows "(pc s c = Critical \<longrightarrow> pc s c' = Critical \<longrightarrow> c = c') \<and> pc s c \<noteq> Panicked"
proof -
  obtain ow where ow: "owner s ow"
    using lock_inv_reachable [OF assms] by (auto simp: lock_inv_def)
  then have "ow = Some c" if "pc s c \<in> {Critical, Panicked}" for c
    using that owner_inside [of s ow c] by auto
  with ow show ?thesis by fastforce
qed

theorem kernel_lock_mutual_exclusion_witness:
  "lock_step\<^sup>*\<^sup>* lock_init (at 1 Testing lock_init) \<and> pc (at 1 Testing lock_init) 0 \<noteq> Panicked"
proof -
  have r: "lock_step\<^sup>*\<^sup>* lock_init (at 1 Testing lock_init)"
    using lock_step.enter [of lock_init 1] by (simp add: lock_init_def)
  with kernel_lock_mutual_exclusion [OF r, of 0 1] show ?thesis by simp
qed

text \<open>(C19) The lock is never lost: in every reachable state either the lock word is free, so that a
  processor at the exchange acquires it in its next step, or exactly one processor holds it and
  that processor can take a step towards releasing it.\<close>

theorem kernel_lock_progress:
  assumes "lock_step\<^sup>*\<^sup>* lock_init s"
  shows "(\<not> locked (lk s) \<and> (\<forall>c. pc s c = Exchanging \<longrightarrow>
            lock_step s (at c Recording (s\<lparr>lk := (lk s)\<lparr>locked := True\<rparr>\<rparr>)))) \<or>
         (locked (lk s) \<and> (\<exists>!c. \<not> waiting (pc s c)) \<and>
            (\<forall>c. \<not> waiting (pc s c) \<longrightarrow> (\<exists>t. lock_step s t \<and> pc t c \<noteq> pc s c \<and> pc t c \<noteq> Panicked)))"
proof -
  obtain ow where ow: "owner s ow"
    using lock_inv_reachable [OF assms] by (auto simp: lock_inv_def)
  show ?thesis
  proof (cases ow)
    case None
    with ow have "\<not> locked (lk s)" by simp
    then show ?thesis using lock_step.acquire [of s] by simp
  next
    case (Some d)
    have step: "\<exists>t. lock_step s t \<and> pc t d \<noteq> pc s d \<and> pc t d \<noteq> Panicked"
      using ow Some lock_step.record_cpu [of s d] lock_step.leave [of s d] lock_step.unlock_ok [of s d]
        lock_step.clear_cpu [of s d] lock_step.release [of s d]
      by (cases "pc s d") (fastforce simp: holding_def)+
    have only: "\<not> waiting (pc s c) \<longleftrightarrow> c = d" for c
      using ow Some owner_inside [OF ow, of c] by auto
    then have "\<exists>!c. \<not> waiting (pc s c)" by simp
    moreover have "locked (lk s)" using ow Some by simp
    ultimately show ?thesis using step only by simp
  qed
qed

theorem kernel_lock_progress_witness:
  "lock_step\<^sup>*\<^sup>* lock_init lock_init \<and> \<not> locked (lk lock_init)"
  using kernel_lock_progress [of lock_init] by (auto simp: lock_init_def)

text \<open>\<^verbatim>\<open>lock_kernel\<close> followed by \<^verbatim>\<open>unlock_kernel\<close> on the same processor restores
  the free lock; taking it twice panics.\<close>

lemma lock_unlock_kernel:
  assumes "kernel_lock s = \<lparr>locked = False, lock_cpu = None\<rparr>"
  shows "kthen lock_kernel unlock_kernel s = Ret () s \<and>
    kthen lock_kernel lock_kernel s = Panic ''cannot acquire kernel_lock: already holding''"
  using assms by (simp add: lock_kernel_def unlock_kernel_def kthen_def kbind_def holding_def)

text \<open>The recorded call stack always has ten entries, the unused ones zero.\<close>

lemma get_caller_pcs_length: "length (get_caller_pcs rd ebp) = 10"
proof -
  have "length (pcs_walk rd n ebp) \<le> n" for n
    by (induction n arbitrary: ebp) auto
  from this [of 10] show ?thesis by (simp add: get_caller_pcs_def Let_def)
qed

end
