(* ===== verification/Environment.thy ===== *)
theory Environment
  imports Address_Space Spinlock
begin

text \<open>
  Environments, \<^verbatim>\<open>kern/env.c\<close>: the table and its free list, environment identifiers,
  creation (\<open>env_alloc\<close>, \<open>env_setup_vm\<close>), loading of a program image, destruction
  (\<open>env_free\<close>) and dispatch (\<open>env_run\<close>).

  \<open>env_destroy\<close> may call the scheduler and stands with it in the theory of
  \<^verbatim>\<open>kern/sched.c\<close>. \<open>load_icode\<close> writes through user addresses while the new
  directory is loaded in \<^verbatim>\<open>cr3\<close>; \<open>hw_translate\<close> is the processor's page walk for such
  a write.
\<close>

section \<open>Definitions\<close>

definition ENVX :: "u32 \<Rightarrow> nat" where
  "ENVX envid = unat (envid AND 0x3FF)"

definition lcr3 :: "u32 \<Rightarrow> kstate \<Rightarrow> kstate" where
  "lcr3 pa s = s\<lparr>cr3 := pa\<rparr>"

text \<open>The result code and \<^verbatim>\<open>*env_store\<close>. With \<^verbatim>\<open>checkperm\<close> the code reads
  \<^verbatim>\<open>curenv->env_id\<close>, which faults when there is no current environment.\<close>

definition envid2env :: "u32 \<Rightarrow> bool \<Rightarrow> (kstate, int \<times> nat option) op" where
  "envid2env envid checkperm s =
     (if envid = 0 then Ret (0, curenv s) s
      else let e = ENVX envid
           in if env_status (envs s e) = ENV_FREE \<or> env_id (envs s e) \<noteq> envid
              then Ret (- E_BAD_ENV, None) s
              else if checkperm \<and> curenv s \<noteq> Some e
              then (case curenv s of
                      None \<Rightarrow> Panic ''envid2env: curenv is null''
                    | Some c \<Rightarrow> if env_parent_id (envs s e) \<noteq> env_id (envs s c)
                                then Ret (- E_BAD_ENV, None) s
                                else Ret (0, Some e) s)
              else Ret (0, Some e) s)"

definition env_init_step :: "nat \<Rightarrow> kstate \<Rightarrow> kstate" where
  "env_init_step i s =
     (upd_env i (\<lambda>e. e\<lparr>env_id := 0, env_status := ENV_FREE, env_link := env_free_list s\<rparr>) s)
       \<lparr>env_free_list := Some i\<rparr>"

definition env_init :: "kstate \<Rightarrow> kstate" where
  "env_init s = fold env_init_step (rev [0..<NENV]) (s\<lparr>env_free_list := None\<rparr>)"

definition env_setup_vm :: "nat \<Rightarrow> (kstate, int) op" where
  "env_setup_vm e =
     kbind (page_alloc ALLOC_ZERO) (\<lambda>r. case r of
       None \<Rightarrow> kret (- E_NO_MEM)
     | Some p \<Rightarrow>
         kbind (page2kva p) (\<lambda>pgdir.
         kthen (kmod (upd_env e (\<lambda>v. v\<lparr>env_pgdir := pgdir\<rparr>)))
         (kthen (kmod (upd_page p (\<lambda>q. q\<lparr>pp_ref := pp_ref q + 1\<rparr>)))
         (kthen (kfor [0..<955] (\<lambda>i. kmod (kst (pgdir + 4 * of_nat i) 0)))
         (kthen (kfor [955..<NENV] (\<lambda>i. kmod (\<lambda>s.
                   kst (pgdir + 4 * of_nat i) (kld (kern_pgdir s + 4 * of_nat i) s) s)))
         (kbind (PADDR pgdir) (\<lambda>pa.
          kthen (kmod (kst (pgdir + 4 * PDX UVPT) (pa OR PTE_P OR PTE_U)))
         (kret 0))))))))"

text \<open>\<^verbatim>\<open>generation\<close> is an \<^verbatim>\<open>int32_t\<close>: the test for a non-positive value reads the
  word as signed.\<close>

definition next_env_id :: "u32 \<Rightarrow> nat \<Rightarrow> u32" where
  "next_env_id old e =
     (let g = (old + 0x1000) AND NOT 0x3FF;
          generation = (if sint g \<le> 0 then 0x1000 else g)
      in generation OR of_nat e)"

abbreviation (input) GD_KT :: u16 where "GD_KT \<equiv> 0x08"
abbreviation (input) GD_KD :: u16 where "GD_KD \<equiv> 0x10"
abbreviation (input) GD_UT :: u16 where "GD_UT \<equiv> 0x18"
abbreviation (input) GD_UD :: u16 where "GD_UD \<equiv> 0x20"
abbreviation (input) FL_IF :: u32 where "FL_IF \<equiv> 0x200"
abbreviation (input) FL_IOPL_MASK :: u32 where "FL_IOPL_MASK \<equiv> 0x3000"

definition init_tf :: Trapframe where
  "init_tf = zero_tf\<lparr>tf_ds := GD_UD OR 3, tf_es := GD_UD OR 3, tf_ss := GD_UD OR 3,
     tf_esp := USTACKTOP, tf_cs := GD_UT OR 3, tf_eflags := FL_IF\<rparr>"

definition env_alloc :: "u32 \<Rightarrow> (kstate, int \<times> nat option) op" where
  "env_alloc parent_id s =
     (case env_free_list s of
        None \<Rightarrow> Ret (- E_NO_FREE_ENV, None) s
      | Some e \<Rightarrow>
          kbind (env_setup_vm e) (\<lambda>r.
          if r < 0 then kret (r, None)
          else kthen (kmod (upd_env e (\<lambda>v. v\<lparr>env_id := next_env_id (env_id v) e,
                   env_parent_id := parent_id, env_type := ENV_TYPE_USER,
                   env_status := ENV_RUNNABLE, env_runs := 0, env_tf := init_tf,
                   env_pgfault_upcall := 0, env_ipc_recving := False\<rparr>)))
               (kthen (kmod (\<lambda>s. s\<lparr>env_free_list := env_link (envs s e)\<rparr>))
               (kret (0, Some e)))) s)"

subsection \<open>Loading a program\<close>

text \<open>\<open>n\<close> pages from \<open>v\<close> on; start and end of the loop are page-aligned.\<close>

primrec region_loop :: "nat \<Rightarrow> nat \<Rightarrow> u32 \<Rightarrow> (kstate, unit) op" where
  "region_loop e 0 v = kret ()"
| "region_loop e (Suc n) v =
     kbind (page_alloc 0) (\<lambda>r. case r of
       None \<Rightarrow> kpanic ''At region_alloc: Page allocation failed''
     | Some p \<Rightarrow>
         kbind (kget (\<lambda>s. env_pgdir (envs s e))) (\<lambda>pgdir.
         kbind (page_insert pgdir p v (PTE_W OR PTE_U OR PTE_P)) (\<lambda>ins.
         if ins \<noteq> 0 then kpanic ''At region_alloc: Page insertion failed''
         else region_loop e n (v + PGSIZE))))"

definition region_alloc :: "nat \<Rightarrow> u32 \<Rightarrow> u32 \<Rightarrow> (kstate, unit) op" where
  "region_alloc e va len =
     (let start = ROUNDDOWN va PGSIZE; stop = ROUNDUP (va + len) PGSIZE
      in if start > stop then kpanic ''At region_alloc: too large length''
         else region_loop e (unat (stop - start) div 4096) start)"

text \<open>The processor's translation of a kernel write through \<^verbatim>\<open>cr3\<close> (with
  \<^verbatim>\<open>CR0_WP\<close> set, as \<^verbatim>\<open>mem_init\<close> leaves it): the physical byte, or a fault.\<close>

definition hw_translate :: "kstate \<Rightarrow> u32 \<Rightarrow> nat option" where
  "hw_translate s va =
     (let pde = load32 (phys s) (unat (PTE_ADDR (cr3 s)) + 4 * unat (PDX va))
      in if pde AND PTE_P = 0 \<or> pde AND PTE_W = 0 then None
         else let pte = load32 (phys s) (unat (PTE_ADDR pde) + 4 * unat (PTX va))
              in if pte AND PTE_P = 0 \<or> pte AND PTE_W = 0 then None
                 else Some (unat (PTE_ADDR pte) + unat (PGOFF va)))"

definition vwrite :: "u32 \<Rightarrow> u8 \<Rightarrow> (kstate, unit) op" where
  "vwrite va b s = (case hw_translate s va of
     None \<Rightarrow> Panic ''page fault in kernel mode''
   | Some a \<Rightarrow> Ret () (s\<lparr>phys := (phys s)(a := b)\<rparr>))"

definition vmemset :: "u32 \<Rightarrow> u8 \<Rightarrow> u32 \<Rightarrow> (kstate, unit) op" where
  "vmemset va c n = kfor [0..<unat n] (\<lambda>i. vwrite (va + of_nat i) c)"

text \<open>\<^verbatim>\<open>memmove\<close> from the kernel image at \<open>src\<close> to the user address \<open>va\<close>; the two
  regions do not overlap.\<close>

definition vmemmove :: "u32 \<Rightarrow> u32 \<Rightarrow> u32 \<Rightarrow> (kstate, unit) op" where
  "vmemmove va src n = kfor [0..<unat n] (\<lambda>i.
     kbind (kget (\<lambda>s. phys s (unat (src + of_nat i - KERNBASE)))) (\<lambda>b. vwrite (va + of_nat i) b))"

record Elf =
  e_magic :: u32
  e_elf :: "u8 list"
  e_type :: u16
  e_machine :: u16
  e_version :: u32
  e_entry :: u32
  e_phoff :: u32
  e_shoff :: u32
  e_flags :: u32
  e_ehsize :: u16
  e_phentsize :: u16
  e_phnum :: u16
  e_shentsize :: u16
  e_shnum :: u16
  e_shstrndx :: u16

record Proghdr =
  p_type :: u32
  p_offset :: u32
  p_va :: u32
  p_pa :: u32
  p_filesz :: u32
  p_memsz :: u32
  p_flags :: u32
  p_align :: u32

text \<open>The structures at a kernel address; two 16-bit fields share a word.\<close>

definition kld16_lo :: "u32 \<Rightarrow> kstate \<Rightarrow> u16" where
  "kld16_lo p s = ucast (kld p s)"

definition kld16_hi :: "u32 \<Rightarrow> kstate \<Rightarrow> u16" where
  "kld16_hi p s = ucast (drop_bit 16 (kld p s))"

definition read_Elf :: "u32 \<Rightarrow> kstate \<Rightarrow> Elf" where
  "read_Elf p s = \<lparr>e_magic = kld p s,
     e_elf = map (\<lambda>i. phys s (unat (p + 4 + of_nat i - KERNBASE))) [0..<12],
     e_type = kld16_lo (p + 16) s, e_machine = kld16_hi (p + 16) s, e_version = kld (p + 20) s,
     e_entry = kld (p + 24) s, e_phoff = kld (p + 28) s, e_shoff = kld (p + 32) s, e_flags = kld (p + 36) s,
     e_ehsize = kld16_lo (p + 40) s, e_phentsize = kld16_hi (p + 40) s, e_phnum = kld16_lo (p + 44) s,
     e_shentsize = kld16_hi (p + 44) s, e_shnum = kld16_lo (p + 48) s, e_shstrndx = kld16_hi (p + 48) s\<rparr>"

definition read_Proghdr :: "u32 \<Rightarrow> kstate \<Rightarrow> Proghdr" where
  "read_Proghdr p s = \<lparr>p_type = kld p s, p_offset = kld (p + 4) s, p_va = kld (p + 8) s, p_pa = kld (p + 12) s,
     p_filesz = kld (p + 16) s, p_memsz = kld (p + 20) s, p_flags = kld (p + 24) s, p_align = kld (p + 28) s\<rparr>"

abbreviation (input) ELF_MAGIC :: u32 where "ELF_MAGIC \<equiv> 0x464C457F"
abbreviation (input) ELF_PROG_LOAD :: u32 where "ELF_PROG_LOAD \<equiv> 1"

definition load_segment :: "nat \<Rightarrow> u32 \<Rightarrow> Proghdr \<Rightarrow> (kstate, unit) op" where
  "load_segment e binary ph =
     (if p_type ph = ELF_PROG_LOAD
      then if p_filesz ph > p_memsz ph
           then kpanic ''At load_icode: file size bigger than memory size''
           else kthen (region_alloc e (p_va ph) (p_memsz ph))
                (kthen (vmemset (p_va ph) 0 (p_memsz ph))
                (vmemmove (p_va ph) (binary + p_offset ph) (p_filesz ph)))
      else kret ())"

definition load_icode :: "nat \<Rightarrow> u32 \<Rightarrow> (kstate, unit) op" where
  "load_icode e binary =
     kbind (kget (read_Elf binary)) (\<lambda>elf.
     if e_magic elf \<noteq> ELF_MAGIC then kpanic ''At load_icode: Invalid head magic number''
     else
       kbind (kget (\<lambda>s. env_pgdir (envs s e))) (\<lambda>pgdir.
       kbind (PADDR pgdir) (\<lambda>pa.
       kthen (kmod (lcr3 pa))
       (kthen (kfor [0..<unat (e_phnum elf)] (\<lambda>i.
                 kbind (kget (read_Proghdr (binary + e_phoff elf + 32 * of_nat i)))
                   (load_segment e binary)))
       (kbind (kget kern_pgdir) (\<lambda>kp.
        kbind (PADDR kp) (\<lambda>kpa.
        kthen (kmod (lcr3 kpa))
        (kthen (kmod (upd_env e (\<lambda>v. v\<lparr>env_status := ENV_RUNNABLE,
                                        env_tf := (env_tf v)\<lparr>tf_eip := e_entry elf\<rparr>\<rparr>)))
        (region_alloc e (USTACKTOP - PGSIZE) PGSIZE)))))))))"

definition env_create :: "u32 \<Rightarrow> env_type \<Rightarrow> (kstate, unit) op" where
  "env_create binary type =
     kbind (env_alloc 0) (\<lambda>(alloc, r).
     if alloc \<noteq> 0 then kpanic ''At env_create: env_alloc() failed''
     else case r of
       None \<Rightarrow> kpanic ''env_create: null environment''
     | Some e \<Rightarrow>
         kthen (load_icode e binary)
         (kmod (upd_env e (\<lambda>v.
            let v' = v\<lparr>env_type := type\<rparr>
            in if type = ENV_TYPE_FS
               then v'\<lparr>env_tf := (env_tf v')\<lparr>tf_eflags := tf_eflags (env_tf v') OR FL_IOPL_MASK\<rparr>\<rparr>
               else v'))))"

subsection \<open>Destroying and running\<close>

definition free_pte :: "nat \<Rightarrow> u32 \<Rightarrow> nat \<Rightarrow> nat \<Rightarrow> (kstate, unit) op" where
  "free_pte e pt pdeno pteno =
     kbind (kget (kld (pt + 4 * of_nat pteno))) (\<lambda>pte.
     if pte AND PTE_P \<noteq> 0
     then kbind (kget (\<lambda>s. env_pgdir (envs s e))) (\<lambda>pgdir.
          page_remove pgdir (PGADDR (of_nat pdeno) (of_nat pteno) 0))
     else kret ())"

definition free_pde :: "nat \<Rightarrow> nat \<Rightarrow> (kstate, unit) op" where
  "free_pde e pdeno =
     kbind (kget (\<lambda>s. env_pgdir (envs s e))) (\<lambda>pgdir.
     kbind (kget (kld (pgdir + 4 * of_nat pdeno))) (\<lambda>pde.
     if pde AND PTE_P = 0 then kret ()
     else kbind (KADDR (PTE_ADDR pde)) (\<lambda>pt.
          kthen (kfor [0..<1024] (free_pte e pt pdeno))
          (kthen (kmod (kst (pgdir + 4 * of_nat pdeno) 0))
          (kbind (pa2page (PTE_ADDR pde)) page_decref)))))"

definition env_free :: "nat \<Rightarrow> (kstate, unit) op" where
  "env_free e =
     kbind (kget curenv) (\<lambda>cur.
     kthen (if cur = Some e
            then kbind (kget kern_pgdir) (\<lambda>kp. kbind (PADDR kp) (\<lambda>pa. kmod (lcr3 pa)))
            else kret ())
     (kthen (kfor [0..<955] (free_pde e))
     (kbind (kget (\<lambda>s. env_pgdir (envs s e))) (\<lambda>pgdir.
      kbind (PADDR pgdir) (\<lambda>pa.
      kthen (kmod (upd_env e (\<lambda>v. v\<lparr>env_pgdir := 0\<rparr>)))
      (kthen (kbind (pa2page pa) page_decref)
      (kmod (\<lambda>s. (upd_env e (\<lambda>v. v\<lparr>env_status := ENV_FREE, env_link := env_free_list s\<rparr>) s)
              \<lparr>env_free_list := Some e\<rparr>))))))))"

text \<open>\<open>env_pop_tf\<close> restores the saved registers; control is then with the environment.\<close>

definition env_pop_tf :: "nat \<Rightarrow> (kstate, unit) op" where
  "env_pop_tf e s = Gone (To_User e) (upd_env e (\<lambda>v. v\<lparr>env_cpunum := cpunum s\<rparr>) s)"

definition env_run :: "nat \<Rightarrow> (kstate, unit) op" where
  "env_run e =
     kthen (kmod (\<lambda>s. case curenv s of
              None \<Rightarrow> s
            | Some c \<Rightarrow> if env_status (envs s c) = ENV_RUNNING
                        then upd_env c (\<lambda>v. v\<lparr>env_status := ENV_RUNNABLE\<rparr>) s else s))
     (kthen (kmod (set_curenv (Some e)))
     (kthen (kmod (upd_env e (\<lambda>v. v\<lparr>env_status := ENV_RUNNING, env_runs := env_runs v + 1\<rparr>)))
     (kbind (kget (\<lambda>s. env_pgdir (envs s e))) (\<lambda>pgdir.
      kbind (PADDR pgdir) (\<lambda>pa.
      kthen (kmod (lcr3 pa))
      (kthen unlock_kernel
      (env_pop_tf e)))))))"

end
