(* ===== verification/Env_Table.thy ===== *)
theory Env_Table
  imports Environment
begin

text \<open>
  The environment table: the free list through \<^verbatim>\<open>env_link\<close>, the identifiers
  that \<open>env_alloc\<close> hands out, and the permission check of \<open>envid2env\<close>.
\<close>

section \<open>The free list\<close>

fun el_path :: "(nat \<Rightarrow> Env) \<Rightarrow> nat option \<Rightarrow> nat list \<Rightarrow> bool" where
  "el_path en p [] \<longleftrightarrow> p = None"
| "el_path en p (x # xs) \<longleftrightarrow> p = Some x \<and> el_path en (env_link (en x)) xs"

lemma el_path_cong:
  "(\<And>x. x \<in> set xs \<Longrightarrow> env_link (en' x) = env_link (en x)) \<Longrightarrow> el_path en' p xs = el_path en p xs"
  by (induction xs arbitrary: p) auto

lemma el_path_Some: "el_path en (Some x) xs \<longleftrightarrow> (\<exists>ys. xs = x # ys \<and> el_path en (env_link (en x)) ys)"
  by (cases xs) auto

lemma el_path_None [simp]: "el_path en None xs \<longleftrightarrow> xs = []"
  by (cases xs) auto

text \<open>\<open>env_table s xs\<close>: the free list is \<open>xs\<close>, and it holds exactly the slots whose status is
  \<^verbatim>\<open>ENV_FREE\<close>, each once.\<close>

definition env_table :: "kstate \<Rightarrow> nat list \<Rightarrow> bool" where
  "env_table s xs \<longleftrightarrow> el_path (envs s) (env_free_list s) xs \<and> distinct xs \<and>
     set xs = {i. i < NENV \<and> env_status (envs s i) = ENV_FREE}"

lemma upd_env_simps [simp]:
  "envs (upd_env i f s) = (envs s)(i := f (envs s i))"
  "env_free_list (upd_env i f s) = env_free_list s"
  "phys (upd_env i f s) = phys s" "pages (upd_env i f s) = pages s"
  "page_free_list (upd_env i f s) = page_free_list s" "npages (upd_env i f s) = npages s"
  "kern_pgdir (upd_env i f s) = kern_pgdir s" "cpus (upd_env i f s) = cpus s"
  "cpunum (upd_env i f s) = cpunum s" "kernel_lock (upd_env i f s) = kernel_lock s"
  "cr3 (upd_env i f s) = cr3 s"
  by (simp_all add: upd_env_def)

lemma env_init_fold:
  assumes "s0 = s\<lparr>env_free_list := None\<rparr>" and "n \<le> NENV"
  defines "t \<equiv> fold env_init_step (rev [n..<NENV]) s0"
  shows "el_path (envs t) (env_free_list t) [n..<NENV] \<and>
    (\<forall>i. n \<le> i \<and> i < NENV \<longrightarrow> env_status (envs t i) = ENV_FREE \<and> env_id (envs t i) = 0)"
  using assms(2) unfolding t_def
proof (induction "NENV - n" arbitrary: n)
  case 0
  then show ?case by (auto simp: assms(1))
next
  case (Suc k)
  then have n: "n < NENV" by simp
  let ?u = "fold env_init_step (rev [Suc n..<NENV]) s0"
  have IH: "el_path (envs ?u) (env_free_list ?u) [Suc n..<NENV]"
    "\<forall>i. Suc n \<le> i \<and> i < NENV \<longrightarrow> env_status (envs ?u i) = ENV_FREE \<and> env_id (envs ?u i) = 0"
    using Suc.hyps(1) [of "Suc n"] Suc.hyps(2) n by auto
  have "fold env_init_step (rev [n..<NENV]) s0 = env_init_step n ?u"
    using n by (simp add: upt_conv_Cons)
  moreover have "el_path (envs (env_init_step n ?u)) (env_link (envs (env_init_step n ?u) n)) [Suc n..<NENV]"
    using IH(1) by (subst el_path_cong [of _ _ "envs ?u"]) (auto simp: env_init_step_def)
  ultimately show ?case
    using IH(2) n by (auto simp: env_init_step_def upt_conv_Cons le_Suc_eq Suc_le_eq)
qed

lemma env_init_spec:
  "env_table (env_init s) [0..<NENV] \<and> (\<forall>i<NENV. env_id (envs (env_init s) i) = 0)"
  using env_init_fold [of "s\<lparr>env_free_list := None\<rparr>" s 0] by (auto simp: env_table_def env_init_def)

section \<open>Identifiers\<close>

lemma mask_and_or:
  assumes "g AND mask k = 0" and "unat (w :: u32) < 2 ^ k"
  shows "(g OR w) AND mask k = w"
proof -
  have "take_bit k w = w"
    using assms(2) by (intro word_eq_unatI) (simp add: unsigned_take_bit_eq take_bit_nat_eq_self)
  then have "w AND mask k = w"
    by (simp add: take_bit_eq_mask)
  with assms(1) show ?thesis
    by (simp add: bit.conj_disj_distrib2)
qed

definition generation :: "u32 \<Rightarrow> u32" where
  "generation old = (let g = (old + 0x1000) AND NOT 0x3FF in if sint g \<le> 0 then 0x1000 else g)"

lemma next_env_id_generation: "next_env_id old e = generation old OR of_nat e"
  by (simp add: next_env_id_def generation_def Let_def)

lemma generation_low: "generation old AND 0x3FF = 0"
  by (simp add: generation_def Let_def and.assoc)

lemma generation_pos: "sint (generation old) > 0"
  by (simp add: generation_def Let_def)

lemma ENVX_next_env_id:
  assumes "e < NENV"
  shows "ENVX (next_env_id old e) = e"
proof -
  have "unat (of_nat e :: u32) = e"
    using assms by (intro unat_of_nat32) simp
  then show ?thesis
    using mask_and_or [of "generation old" 10 "of_nat e"] assms generation_low [of old]
    by (simp add: ENVX_def next_env_id_generation mask_10)
qed

lemma sint_pos_iff: "sint (w :: u32) > 0 \<longleftrightarrow> \<not> bit w 31 \<and> w \<noteq> 0"
  using bit_last_iff [of w] by (auto simp: less_le signed_eq_0_iff)

lemma next_env_id_pos:
  assumes "e < NENV"
  shows "sint (next_env_id old e) > 0"
proof -
  have "\<not> bit (of_nat e :: u32) 31"
    using bit_lt_2p [of "of_nat e" 10 31] assms unat_of_nat32 [of e] by auto
  then show ?thesis
    using generation_pos [of old] unfolding sint_pos_iff next_env_id_generation
    by (auto simp: bit_or_iff or_eq_0_iff)
qed

lemma and_not_low: "(w OR v) AND NOT (mask k) = w AND NOT (mask k)" if "unat (v :: u32) < 2 ^ k"
proof -
  have "take_bit k v = v"
    using that by (intro word_eq_unatI) (simp add: unsigned_take_bit_eq take_bit_nat_eq_self)
  then have "v AND NOT (mask k) = 0"
    by (metis and.assoc bit.conj_cancel_right bit.conj_zero_right take_bit_eq_mask)
  then show ?thesis by (simp add: bit.conj_disj_distrib2)
qed

text \<open>The identifier changes with every reuse of a slot, so that an identifier kept by somebody
  else becomes stale.\<close>

lemma generation_high: "generation old AND NOT 0x3FF = generation old"
proof -
  have "(generation old AND NOT 0x3FF) OR (generation old AND 0x3FF) = generation old"
    by (simp flip: bit.conj_disj_distrib)
  then show ?thesis by (simp add: generation_low)
qed

lemma next_env_id_fresh:
  assumes "e < NENV"
  shows "next_env_id old e \<noteq> old"
proof
  assume eq: "next_env_id old e = old"
  have e: "unat (of_nat e :: u32) < 2 ^ 10"
    using assms unat_of_nat32 [of e] by simp
  have high: "old AND NOT 0x3FF = generation old"
    using arg_cong [OF eq, of "\<lambda>w. w AND NOT 0x3FF"] generation_high [of old] and_not_low [OF e, of "generation old"]
    by (simp add: next_env_id_generation mask_10)
  let ?g = "(old + 0x1000) AND NOT 0x3FF :: u32"
  have uo: "unat (old AND NOT 0x3FF) = unat old - unat old mod 1024"
    and ug: "unat ?g = unat (old + 0x1000) - unat (old + 0x1000) mod 1024"
    unfolding mask_10 unat_and_not_mask by simp_all
  have sum: "unat (old + 0x1000) = (unat old + 4096) mod 4294967296"
    by (simp add: unat_word_ariths)
  let ?r = "unat old mod 1024"
  have r: "?r \<le> unat old" "?r < 1024"
    by simp_all
  show False
  proof (cases "sint ?g \<le> 0")
    case True
    then have "unat old = 4096 + ?r"
      using high uo r by (simp add: generation_def)
    then have "unat (old + 0x1000) = 8192 + ?r"
      using sum r by (simp add: mod_less)
    moreover have "(8192 + ?r) mod 1024 = ?r"
      using mod_mult_self1 [of ?r 8 1024] by (simp add: add.commute)
    ultimately have "unat ?g = 8192"
      unfolding ug by simp
    then have "?g = 0x2000"
      by (intro word_eq_unatI) simp
    with True show False by simp
  next
    case False
    then have eq: "unat old - ?r = unat (old + 0x1000) - unat (old + 0x1000) mod 1024"
      using high uo ug by (simp add: generation_def)
    show False
    proof (cases "unat old + 4096 < 4294967296")
      case True
      then have "unat (old + 0x1000) = unat old + 4096"
        using sum by simp
      moreover have "(unat old + 4096) mod 1024 = ?r"
        using mod_mult_self1 [of "unat old" 4 1024] by simp
      ultimately show False using eq r by simp
    next
      case False
      then have s: "unat (old + 0x1000) = unat old + 4096 - 4294967296"
        using sum unat_lt32 [of old] by (simp add: mod_if)
      then have "unat old = unat (old + 0x1000) + 4194300 * 1024"
        using False by simp
      then have "unat (old + 0x1000) mod 1024 = ?r"
        by (metis mod_mult_self1 mult.commute)
      then show False using eq r s False unat_lt32 [of old] by linarith
    qed
  qed
qed

end
