(* ===== verification/Env_Space.thy ===== *)
theory Env_Space
  imports Env_Table Vm_Interface
begin

text \<open>
  The address space of an environment from \<open>env_setup_vm\<close> to \<open>env_free\<close>: creation adds an
  empty user address space to the well-formed set, destruction takes one away, returns every
  page that nobody else references to the free list, and leaves the other address spaces as they
  were.
\<close>

section \<open>Dropping a reference\<close>

lemma vm_ok_decref:
  assumes ok: "vm_ok s D (ext(q := ext q + 1))" and q: "q < unat (npages s)"
  obtains s' where "page_decref q s = Ret () s'" and "vm_ok s' D ext" and "phys s' = phys s"
    and "vm_frame s s'" and "free_pages s \<subseteq> free_pages s'"
    and "refs s D q + ext q = 0 \<Longrightarrow> q \<in> free_pages s'"
proof -
  have ref: "unat (pp_ref (pages s q)) = refs s D q + ext q + 1"
    using vm_okD(8) [OF ok q] by simp
  then have nz: "pp_ref (pages s q) \<noteq> 0" by auto
  have qf: "q \<notin> free_pages s"
    using free_pages_ref [OF vm_okD(1) [OF ok]] nz by blast
  from page_decref_ok [OF vm_okD(1) [OF ok] q qf nz] obtain s' where
    s': "page_decref q s = Ret () s'" "pages_ok s'" "npages s' = npages s" "phys s' = phys s"
      "free_pages s' = (if pp_ref (pages s q) = 1 then insert q (free_pages s) else free_pages s)"
      "\<And>p. pp_ref (pages s' p) = (if p = q then pp_ref (pages s q) - 1 else pp_ref (pages s p))"
    by auto
  have "vm_ok s' D ext"
  proof (rule vm_ok_cong [OF ok])
    fix p assume "p < unat (npages s)"
    then show "unat (pp_ref (pages s' p)) = refs s D p + ext p"
      using vm_okD(8) [OF ok, of p] ref by (auto simp: s'(6) unat_sub_if_size)
  qed (use s'(2-4) in \<open>simp_all add: slot_def\<close>)
  moreover have "pp_ref (pages s q) = 1" if "refs s D q + ext q = 0"
    using ref that by (intro word_eq_unatI) simp
  ultimately show thesis
    using s' vm_frame_page_decref [OF s'(1)] by (intro that) auto
qed

section \<open>Removing tables and directories\<close>

lemma vm_ok_drop_table:
  assumes ok: "vm_ok s D ext" and t: "(d, i) \<in> tables s D"
    and empty: "\<And>k. k < 1024 \<Longrightarrow> \<not> present (slot s (tfr s (d, i)) k)"
  shows "vm_ok (set_slot d i 0 s) D (ext(tfr s (d, i) := ext (tfr s (d, i)) + 1))"
    and "tables (set_slot d i 0 s) D = tables s D - {(d, i)}"
proof -
  let ?s = "set_slot d i 0 s" and ?T = "tfr s (d, i)"
  note okD = vm_okD [OF ok]
  have di: "d \<in> D" "i < 955"
    using t by (auto simp: tables_def)
  have slot: "slot ?s g k = (if g = d \<and> k = i then 0 else slot s g k)" if "k < 1024" for g k
    using that di by (simp add: slot_set_slot)
  show tab: "tables ?s D = tables s D - {(d, i)}"
    using di by (auto simp: tables_def slot split: if_splits)
  have tfr: "tfr ?s u = tfr s u" if "u \<in> tables s D - {(d, i)}" for u
    using that by (auto simp: tfr_def tables_def slot split: if_splits)
  have ent: "slot ?s (tfr s u) k = slot s (tfr s u) k" if "u \<in> tables s D" "k < 1024" for u k
    using that okD(5) [OF that(1)] di by (auto simp: slot)
  have ndi: "fst m \<noteq> (d, i)" if "m \<in> maps s D" for m
    using that empty by (auto simp: maps_def)
  have map: "maps ?s D = maps s D"
  proof (rule set_eqI)
    fix m :: "(nat \<times> nat) \<times> nat"
    obtain u k where m: "m = (u, k)" by fastforce
    show "m \<in> maps ?s D \<longleftrightarrow> m \<in> maps s D"
      using tfr [of u] ent [of u k] ndi [of m] by (cases "u = (d, i)") (auto simp: maps_def tab m)
  qed
  have mfr: "mfr ?s m = mfr s m" if "m \<in> maps s D" for m
    using that tfr [of "fst m"] ent [of "fst m" "snd m"] ndi [OF that] by (auto simp: maps_def mfr_def)
  have refs: "refs s D q = refs ?s D q + (if q = ?T then 1 else 0)" for q
  proof -
    have "{m \<in> maps ?s D. mfr ?s m = q} = {m \<in> maps s D. mfr s m = q}"
      using mfr by (auto simp: map)
    moreover have "{u \<in> tables ?s D. tfr ?s u = q} = {u \<in> tables s D. tfr s u = q} - {(d, i)}"
      using tfr by (auto simp: tab)
    moreover have "card {u \<in> tables s D. tfr s u = q} =
        card ({u \<in> tables s D. tfr s u = q} - {(d, i)}) + (if q = ?T then 1 else 0)"
    proof (cases "q = ?T")
      case True
      then show ?thesis
        using t card.remove [of "{u \<in> tables s D. tfr s u = q}" "(d, i)"] finite_tables [OF okD(2), of s] by simp
    next
      case False
      then have "{u \<in> tables s D. tfr s u = q} - {(d, i)} = {u \<in> tables s D. tfr s u = q}" by auto
      with False show ?thesis by simp
    qed
    ultimately show ?thesis by (simp add: refs_def)
  qed
  have img: "tfr ?s ` tables ?s D \<subseteq> tfr s ` tables s D"
    using tfr tab by auto
  show "vm_ok ?s D (ext(?T := ext ?T + 1))"
  proof (rule vm_okI)
    show "pages_ok ?s"
      using okD(1) pages_ok_cong(1) [of ?s s] by simp
    show "inj_on (tfr ?s) (tables ?s D)"
      using inj_on_subset [OF okD(6), of "tables ?s D"] inj_on_cong [of "tables ?s D" "tfr ?s" "tfr s"] tfr tab
      by auto
    show "tfr ?s u < unat (npages ?s) \<and> tfr ?s u \<notin> D" if "u \<in> tables ?s D" for u
      using that okD(5) [of u] tfr [of u] by (simp add: tab)
    show "mfr ?s m < unat (npages ?s) \<and> mfr ?s m \<notin> D \<and> mfr ?s m \<notin> tfr ?s ` tables ?s D"
      if "m \<in> maps ?s D" for m
      using that okD(7) [of m] mfr [of m] img by (auto simp: map)
    show "unat (pp_ref (pages ?s q)) = refs ?s D q + (ext(?T := ext ?T + 1)) q" if "q < unat (npages ?s)" for q
      using okD(8) [of q] that refs [of q] by simp
  qed (use okD(2,4) in simp_all)
qed

lemma vm_ok_drop_dir:
  assumes ok: "vm_ok s D ext" and d: "d \<in> D" and empty: "\<And>i. i < 955 \<Longrightarrow> \<not> present (slot s d i)"
  shows "vm_ok s (D - {d}) (ext(d := ext d + 1))" and "refs s (D - {d}) d = 0"
proof -
  note okD = vm_okD [OF ok]
  have tab: "tables s (D - {d}) = tables s D"
    using empty by (auto simp: tables_def)
  have map: "maps s (D - {d}) = maps s D"
    by (simp add: maps_def tab)
  have refs: "refs s D q = refs s (D - {d}) q + (if q = d then 1 else 0)" for q
    using d by (auto simp: refs_def tab map)
  show "vm_ok s (D - {d}) (ext(d := ext d + 1))"
  proof (rule vm_okI)
    show "unat (pp_ref (pages s q)) = refs s (D - {d}) q + (ext(d := ext d + 1)) q" if "q < unat (npages s)" for q
      using okD(8) [of q] that refs [of q] by simp
  qed (use okD in \<open>auto simp: tab map\<close>)
  have "{m \<in> maps s D. mfr s m = d} = {}" "{u \<in> tables s D. tfr s u = d} = {}"
    using okD(5,7) d by auto
  then show "refs s (D - {d}) d = 0"
    unfolding refs_def tab map by (simp only: card.empty) simp
qed


section \<open>Destroying an environment\<close>

text \<open>The state while \<open>env_free\<close> runs: the set is well formed, the environment's directory is
  still \<open>d\<close>, and the other address spaces are as at the start.\<close>

definition freeing :: "nat set \<Rightarrow> (nat \<Rightarrow> nat) \<Rightarrow> nat \<Rightarrow> nat \<Rightarrow> kstate \<Rightarrow> kstate \<Rightarrow> bool" where
  "freeing D ext e d s0 s \<longleftrightarrow> vm_ok s D ext \<and> vm_frame s0 s \<and> env_pgdir (envs s e) = kv d \<and>
     (\<forall>d' va. d' \<in> D \<longrightarrow> d' \<noteq> d \<longrightarrow> unat (PDX va) < UPDES \<longrightarrow> vmap s d' va = vmap s0 d' va) \<and>
     free_pages s0 \<subseteq> free_pages s"

lemma vmap_absent: "vmap s d va = None \<Longrightarrow> present (slot s d (unat (PDX va))) \<Longrightarrow>
   \<not> present (slot s (tfr s (loc d va)) (unat (PTX va)))"
  by (auto simp: vmap_pte pte_view_of_def tfr_def split: if_splits)

lemma vmap_present: "present (slot s d (unat (PDX va))) \<Longrightarrow> present (slot s (tfr s (loc d va)) (unat (PTX va)))
   \<Longrightarrow> vmap s d va \<noteq> None"
  by (auto simp: vmap_pte pte_view_of_def tfr_def)

lemma PGADDR_index:
  assumes "i < 1024" and "k < 1024"
  shows "unat (PDX (PGADDR (of_nat i) (of_nat k) 0)) = i" and "unat (PTX (PGADDR (of_nat i) (of_nat k) 0)) = k"
  using PGADDR_parts [of "of_nat i" "of_nat k" 0] assms unat_of_nat32 [of i] unat_of_nat32 [of k] by simp_all

text \<open>Directory entries are never changed by \<open>page_remove\<close>.\<close>

lemma page_remove_pde:
  assumes ok: "vm_ok s D ext" and d: "d \<in> D" "unat (PDX va) < 955" and "d' \<in> D" and "i < 955"
    and "page_remove (kv d) va s = Ret () s'"
  shows "slot s' d' i = slot s d' i"
proof (cases "vmap s d va")
  case None
  then show ?thesis using page_remove_unmapped [OF ok d None] assms(6) by simp
next
  case (Some x)
  then obtain pp perm where v: "vmap s d va = Some (pp, perm)" by (cases x) auto
  have t: "loc d va \<in> tables s D"
    using vmap_maps(1) [OF ok d] v by (simp add: maps_def)
  have "phys s' = phys (set_slot (tfr s (loc d va)) (unat (PTX va)) 0 s)"
    by (rule page_remove_mapped [OF ok d v]) (use assms(6) in simp)
  then have "slot s' d' i = slot (set_slot (tfr s (loc d va)) (unat (PTX va)) 0 s) d' i"
    by (simp add: slot_def)
  also have "\<dots> = slot s d' i"
    using vm_okD(5) [OF ok t] assms(4,5) by (auto simp: slot_set_slot)
  finally show ?thesis .
qed

lemma freeing_remove:
  assumes fr: "freeing D ext e d s0 s" and d: "d \<in> D" "unat (PDX va) < 955"
  obtains s' where "page_remove (kv d) va s = Ret () s'" and "freeing D ext e d s0 s'"
    and "\<And>i. i < 955 \<Longrightarrow> slot s' d i = slot s d i"
    and "\<And>va'. unat (PDX va') < 955 \<Longrightarrow> vmap s' d va' = (if PGNUM va' = PGNUM va then None else vmap s d va')"
proof -
  have ok: "vm_ok s D ext"
    using fr by (simp add: freeing_def)
  obtain s' where s': "page_remove (kv d) va s = Ret () s'" "vm_ok s' D ext" "vm_frame s s'"
      "\<And>d' va'. d' \<in> D \<Longrightarrow> unat (PDX va') < 955 \<Longrightarrow> vmap s' d' va' =
        (if d' = d \<and> PGNUM va' = PGNUM va then None else vmap s d' va')"
      "free_pages s \<subseteq> free_pages s'"
    by (rule page_remove_ok [OF ok d]) (rule that, assumption+)
  have "env_pgdir (envs s' e) = kv d"
    using fr s'(3) by (auto simp: freeing_def vm_frame_def)
  then have "freeing D ext e d s0 s'"
    using fr s'(2-5) vm_frame_trans [of s0 s s'] by (auto simp: freeing_def)
  then show thesis
    using s' page_remove_pde [OF ok d d(1) _ s'(1)] d(1) by (intro that [of s']) auto
qed


lemma free_pte_ok:
  assumes fr: "freeing D ext e d s0 s" and d: "d \<in> D" "i < 955" "k < 1024" and p: "present (slot s d i)"
  obtains s' where "free_pte e (kv (frame (slot s d i))) i k s = Ret () s'" and "freeing D ext e d s0 s'"
    and "\<And>i. i < 955 \<Longrightarrow> slot s' d i = slot s d i"
    and "vmap s' d (PGADDR (of_nat i) (of_nat k) 0) = None"
    and "\<And>va'. unat (PDX va') < 955 \<Longrightarrow> vmap s d va' = None \<Longrightarrow> vmap s' d va' = None"
proof -
  let ?va = "PGADDR (of_nat i) (of_nat k) 0 :: u32" and ?T = "frame (slot s d i)"
  have ok: "vm_ok s D ext" and pg: "env_pgdir (envs s e) = kv d"
    using fr by (auto simp: freeing_def)
  have ix: "unat (PDX ?va) = i" "unat (PTX ?va) = k"
    using PGADDR_index [of i k] d by auto
  have t: "(d, i) \<in> tables s D" and T: "?T = tfr s (d, i)"
    using d p by (auto simp: tables_def tfr_def)
  have ld: "kld (kv ?T + 4 * of_nat k) s = slot s ?T k"
    using tfr_lt [OF ok t] d(3) unat_of_nat32 [of k] by (simp add: T kld_entry)
  show thesis
  proof (cases "present (slot s ?T k)")
    case False
    then have "vmap s d ?va = None"
      by (simp add: vmap_pte ix pte_view_of_def)
    with False fr ld show thesis
      by (intro that [of s]) (auto simp: free_pte_def kbind_def)
  next
    case True
    have ixd: "unat (PDX ?va) < 955" using ix d by simp
    obtain s' where s': "page_remove (kv d) ?va s = Ret () s'" "freeing D ext e d s0 s'"
      "\<And>i. i < 955 \<Longrightarrow> slot s' d i = slot s d i"
      "\<And>va'. unat (PDX va') < 955 \<Longrightarrow> vmap s' d va' = (if PGNUM va' = PGNUM ?va then None else vmap s d va')"
      by (rule freeing_remove [OF fr d(1) ixd]) (rule that, assumption+)
    have "free_pte e (kv ?T) i k s = Ret () s'"
      using True ld pg s'(1) by (simp add: free_pte_def kbind_def)
    with s' ixd show thesis by (intro that [of s']) auto
  qed
qed

lemma free_table_loop:
  assumes fr: "freeing D ext e d s0 s" and d: "d \<in> D" "i < 955" and p: "present (slot s d i)"
  obtains s' where "kfor [0..<1024] (free_pte e (kv (frame (slot s d i))) i) s = Ret () s'"
    and "freeing D ext e d s0 s'" and "\<And>i. i < 955 \<Longrightarrow> slot s' d i = slot s d i"
    and "\<And>k. k < 1024 \<Longrightarrow> \<not> present (slot s' (frame (slot s d i)) k)"
proof -
  let ?P = "\<lambda>k t. freeing D ext e d s0 t \<and> (\<forall>i<955. slot t d i = slot s d i) \<and>
    (\<forall>j<k. vmap t d (PGADDR (of_nat i) (of_nat j) 0) = None)"
  have "\<exists>s'. kfor [0..<1024] (free_pte e (kv (frame (slot s d i))) i) s = Ret () s' \<and> ?P 1024 s'"
  proof (rule kfor_upt_invariant)
    fix k t assume k: "0 \<le> k" "k < 1024" and P: "?P k t"
    then have sd: "slot t d i = slot s d i" "present (slot t d i)" "freeing D ext e d s0 t"
      using d p by auto
    show "\<exists>t'. free_pte e (kv (frame (slot s d i))) i k t = Ret () t' \<and> ?P (Suc k) t'"
      by (rule free_pte_ok [OF sd(3) d k(2) sd(2)])
        (use P sd(1) d(2) PGADDR_index(1) [of i] k in \<open>auto simp: less_Suc_eq\<close>)
  qed (use fr in auto)
  then obtain s' where s': "kfor [0..<1024] (free_pte e (kv (frame (slot s d i))) i) s = Ret () s'" "?P 1024 s'"
    by blast
  have "\<not> present (slot s' (frame (slot s d i)) k)" if "k < 1024" for k
    using vmap_absent [of s' d "PGADDR (of_nat i) (of_nat k) 0"] PGADDR_index [of i k] that s'(2) d(2) p
    by (simp add: tfr_def)
  with s' show thesis by (intro that [of s']) auto
qed

lemma vmap_clear_pde:
  assumes ok: "vm_ok s D ext" and d: "d \<in> D" "i < 955" and d': "d' \<in> D" "d' \<noteq> d" "unat (PDX va) < 955"
  shows "vmap (set_slot d i 0 s) d' va = vmap s d' va"
proof -
  have "slot (set_slot d i 0 s) (tfr s (loc d' va)) (unat (PTX va)) = slot s (tfr s (loc d' va)) (unat (PTX va))"
    if "loc d' va \<in> tables s D"
    using vm_okD(5) [OF ok that] d by (auto simp: slot_set_slot)
  then show ?thesis
    using d d' by (auto simp: vmap_pte slot_set_slot tables_def tfr_def)
qed

lemma free_pde_ok:
  assumes fr: "freeing D ext e d s0 s" and d: "d \<in> D" "i < 955"
  obtains s' where "free_pde e i s = Ret () s'" and "freeing D ext e d s0 s'"
    and "\<not> present (slot s' d i)" and "\<And>k. k < 955 \<Longrightarrow> k \<noteq> i \<Longrightarrow> slot s' d k = slot s d k"
proof -
  have ok: "vm_ok s D ext" and pg: "env_pgdir (envs s e) = kv d"
    using fr by (auto simp: freeing_def)
  have dlt: "d < 65536" and ui: "unat (of_nat i :: u32) = i"
    using dir_lt [OF ok d(1)] d(2) unat_of_nat32 [of i] by auto
  have ld: "kld (kv d + 4 * of_nat i) s = slot s d i"
    using dlt ui d(2) kld_entry [of d "of_nat i" s] by simp
  show thesis
  proof (cases "present (slot s d i)")
    case False
    then show thesis
      using fr pg ld by (intro that [of s]) (auto simp: free_pde_def kbind_def)
  next
    case True
    let ?T = "frame (slot s d i)"
    obtain s1 where s1: "kfor [0..<1024] (free_pte e (kv ?T) i) s = Ret () s1"
      "freeing D ext e d s0 s1" "\<And>i. i < 955 \<Longrightarrow> slot s1 d i = slot s d i"
      "\<And>k. k < 1024 \<Longrightarrow> \<not> present (slot s1 ?T k)"
      by (rule free_table_loop [OF fr d True]) (rule that, assumption+)
    have ok1: "vm_ok s1 D ext" and fr1: "vm_frame s0 s1"
      using s1(2) by (auto simp: freeing_def)
    have t1: "(d, i) \<in> tables s1 D" and T1: "tfr s1 (d, i) = ?T"
      using d True s1(3) by (auto simp: tables_def tfr_def)
    let ?s2 = "set_slot d i 0 s1"
    have ok2: "vm_ok ?s2 D (ext(?T := ext ?T + 1))"
      using vm_ok_drop_table(1) [OF ok1 t1] s1(4) T1 by simp
    have T: "?T < unat (npages ?s2)"
      using vm_okD(5) [OF ok1 t1] T1 by simp
    obtain s' where s': "page_decref ?T ?s2 = Ret () s'" "vm_ok s' D ext" "phys s' = phys ?s2"
      "vm_frame ?s2 s'" "free_pages ?s2 \<subseteq> free_pages s'"
      by (rule vm_ok_decref [OF ok2 T])
    have np: "npages s = npages s0" "npages s1 = npages s0"
      using fr fr1 by (auto simp: freeing_def vm_frame_def)
    have "free_pde e i s = Ret () s'"
      using True pg ld s1(1) s'(1) KADDR_frame [of "slot s d i" s] pa2page_frame [of "slot s d i" ?s2] T np
        dlt ui d(2) kst_entry [of d "of_nat i" 0 s1]
      by (simp add: free_pde_def kbind_def kthen_def)
    moreover have "freeing D ext e d s0 s'"
    proof -
      have "vm_frame s0 s'"
        using fr1 s'(4) by (meson vm_frame_steps(1) vm_frame_trans)
      moreover from this have "env_pgdir (envs s' e) = kv d"
        using s1(2) fr1 by (auto simp: freeing_def vm_frame_def)
      moreover have "vmap s' d' va = vmap s0 d' va" if "d' \<in> D" "d' \<noteq> d" "unat (PDX va) < 955" for d' va
        using vmap_phys [OF s'(3)] vmap_clear_pde [OF ok1 d that] s1(2) that by (auto simp: freeing_def)
      moreover have "free_pages s0 \<subseteq> free_pages s'"
        using s1(2) s'(5) pages_ok_cong(2) [of ?s2 s1] by (auto simp: freeing_def)
      ultimately show ?thesis using s'(2) by (simp add: freeing_def)
    qed
    moreover have sl: "slot s' g k = slot ?s2 g k" for g k
      using s'(3) by (simp add: slot_def)
    have "\<not> present (slot s' d i)" "\<And>k. k < 955 \<Longrightarrow> k \<noteq> i \<Longrightarrow> slot s' d k = slot s d k"
      using d s1(3) by (auto simp: sl slot_set_slot)
    ultimately show thesis by (intro that [of s']) auto
  qed
qed


text \<open>\<open>env_free\<close> as a whole. \<open>kern_pgdir\<close> is a kernel address.\<close>

lemma env_free_ok:
  assumes ok: "vm_ok s D ext" and d: "d \<in> D" and pg: "env_pgdir (envs s e) = kv d"
    and kp: "kern_pgdir s \<ge> KERNBASE"
  obtains s' where "env_free e s = Ret () s'" and "vm_ok s' (D - {d}) ext"
    and "\<And>d' va. d' \<in> D \<Longrightarrow> d' \<noteq> d \<Longrightarrow> unat (PDX va) < UPDES \<Longrightarrow> vmap s' d' va = vmap s d' va"
    and "free_pages s \<subseteq> free_pages s'" and "ext d = 0 \<Longrightarrow> d \<in> free_pages s'"
    and "envs s' = (envs s)(e := (envs s e)\<lparr>env_pgdir := 0, env_status := ENV_FREE, env_link := env_free_list s\<rparr>)"
    and "env_free_list s' = Some e" and "cpus s' = cpus s" and "cpunum s' = cpunum s"
    and "kern_pgdir s' = kern_pgdir s" and "kernel_lock s' = kernel_lock s" and "npages s' = npages s"
proof -
  define s1 where "s1 = (if curenv s = Some e then lcr3 (kern_pgdir s - KERNBASE) s else s)"
  have s1: "phys s1 = phys s" "pages s1 = pages s" "page_free_list s1 = page_free_list s"
    "npages s1 = npages s" "envs s1 = envs s" "env_free_list s1 = env_free_list s" "cpus s1 = cpus s"
    "cpunum s1 = cpunum s" "kern_pgdir s1 = kern_pgdir s" "kernel_lock s1 = kernel_lock s"
    by (simp_all add: s1_def lcr3_def)
  have ok1: "vm_ok s1 D ext"
    by (rule vm_ok_same [OF ok]) (simp_all add: s1)
  have fr1: "freeing D ext e d s1 s1"
    using ok1 pg by (simp add: freeing_def s1)
  let ?P = "\<lambda>i t. freeing D ext e d s1 t \<and> (\<forall>k<i. \<not> present (slot t d k))"
  have "\<exists>t. kfor [0..<955] (free_pde e) s1 = Ret () t \<and> ?P 955 t"
  proof (rule kfor_upt_invariant)
    fix i t assume i: "0 \<le> i" "i < 955" and P: "?P i t"
    show "\<exists>t'. free_pde e i t = Ret () t' \<and> ?P (Suc i) t'"
      by (rule free_pde_ok [OF conjunct1 [OF P] d i(2)]) (use P i in \<open>auto simp: less_Suc_eq\<close>)
  qed (use fr1 in auto)
  then obtain t where t: "kfor [0..<955] (free_pde e) s1 = Ret () t" "freeing D ext e d s1 t"
    "\<And>k. k < 955 \<Longrightarrow> \<not> present (slot t d k)"
    by blast
  have okt: "vm_ok t D ext" and frt: "vm_frame s1 t" and pgt: "env_pgdir (envs t e) = kv d"
    using t(2) by (auto simp: freeing_def)
  let ?u = "upd_env e (\<lambda>v. v\<lparr>env_pgdir := 0\<rparr>) t"
  have oku: "vm_ok ?u (D - {d}) (ext(d := ext d + 1))"
    by (rule vm_ok_same [OF vm_ok_drop_dir(1) [OF okt d t(3)]]) simp_all
  have du: "d < unat (npages ?u)" "d < 65536"
    using vm_okD(4) [OF okt d] dir_lt [OF okt d] by auto
  obtain w where w: "page_decref d ?u = Ret () w" "vm_ok w (D - {d}) ext" "phys w = phys ?u"
    "vm_frame ?u w" "free_pages ?u \<subseteq> free_pages w"
    "refs ?u (D - {d}) d + ext d = 0 \<Longrightarrow> d \<in> free_pages w"
    by (rule vm_ok_decref [OF oku du(1)]) (rule that, assumption+)
  define s' where "s' = (upd_env e (\<lambda>v. v\<lparr>env_status := ENV_FREE, env_link := env_free_list w\<rparr>) w)\<lparr>env_free_list := Some e\<rparr>"
  have pa: "PADDR (kv d) t = Ret (page2pa d) t"
    using du(2) kv_ge [of d] by (simp add: PADDR_def not_less)
  have pp: "pa2page (page2pa d) ?u = Ret d ?u"
    using pa2page_frame [of "page2pa d" ?u] du by simp
  have "(if curenv s = Some e then kbind (kget kern_pgdir) (\<lambda>kp. kbind (PADDR kp) (\<lambda>pa. kmod (lcr3 pa)))
     else kret ()) s = Ret () s1"
    using kp by (auto simp: s1_def PADDR_def kbind_def)
  then have run: "env_free e s = Ret () s'"
    using t(1) pgt pa pp w(1) by (simp add: env_free_def kbind_def kthen_def s'_def)
  show thesis
  proof (rule that [OF run])
    show "vm_ok s' (D - {d}) ext"
      by (rule vm_ok_same [OF w(2)]) (simp_all add: s'_def)
    show "vmap s' d' va = vmap s d' va" if "d' \<in> D" "d' \<noteq> d" "unat (PDX va) < UPDES" for d' va
    proof -
      have "vmap s' d' va = vmap t d' va"
        using w(3) by (intro vmap_phys) (simp add: s'_def)
      also have "\<dots> = vmap s1 d' va"
        using t(2) that by (simp add: freeing_def)
      also have "\<dots> = vmap s d' va"
        using s1(1) by (rule vmap_phys)
      finally show ?thesis .
    qed
    have fs: "free_pages s' = free_pages w" "free_pages ?u = free_pages t" "free_pages s1 = free_pages s"
      using pages_ok_cong(2) [of s' w] pages_ok_cong(2) [of ?u t] pages_ok_cong(2) [of s1 s]
      by (simp_all add: s'_def s1)
    show "free_pages s \<subseteq> free_pages s'"
      using fs w(5) t(2) by (auto simp: freeing_def)
    have "refs ?u (D - {d}) d = refs t (D - {d}) d"
      by (rule view_cong(5)) (simp_all add: slot_def)
    then show "d \<in> free_pages s'" if "ext d = 0"
      using w(6) that fs vm_ok_drop_dir(2) [OF okt d t(3)] by simp
    have fr: "envs w = envs ?u" "env_free_list w = env_free_list s" "cpus w = cpus s"
      "cpunum w = cpunum s" "kern_pgdir w = kern_pgdir s" "kernel_lock w = kernel_lock s"
      "npages w = npages s" "envs t = envs s"
      using w(4) frt by (simp_all add: vm_frame_def s1)
    show "envs s' = (envs s)(e := (envs s e)\<lparr>env_pgdir := 0, env_status := ENV_FREE, env_link := env_free_list s\<rparr>)"
      by (simp add: s'_def fr)
  qed (simp_all add: s'_def w(4) frt [unfolded vm_frame_def] w(4) [unfolded vm_frame_def] s1)
qed


section \<open>Creating an address space\<close>

lemma vm_ok_add_dir:
  assumes ok: "vm_ok s D ext" and al: "page_alloc 1 s = Ret (Some p) (after_alloc 1 p s)"
    and t: "pages t = (pages s)(p := (pages s p)\<lparr>pp_link := None, pp_ref := pp_ref (pages s p) + 1\<rparr>)"
      "page_free_list t = pp_link (pages s p)" "npages t = npages s"
    and slots: "\<And>g j. j < 1024 \<Longrightarrow> g \<noteq> p \<Longrightarrow> slot t g j = slot s g j"
    and empty: "\<And>i. i < 955 \<Longrightarrow> \<not> present (slot t p i)"
  shows "vm_ok t (insert p D) ext" and "free_pages t = free_pages s - {p}" and "p \<notin> D"
    and "d \<in> D \<Longrightarrow> unat (PDX va) < UPDES \<Longrightarrow> vmap t d va = vmap s d va"
    and "unat (PDX va) < UPDES \<Longrightarrow> vmap t p va = None"
proof -
  note okD = vm_okD [OF ok]
  have a: "pages_ok (after_alloc 1 p s)" "p \<in> free_pages s"
    "free_pages (after_alloc 1 p s) = free_pages s - {p}"
    using page_alloc_ok [OF okD(1) al] by auto
  note pn = free_not_used [OF ok a(2)]
  have pref: "pp_ref (pages s p) = 0" "p < unat (npages s)"
    using free_pages_ref [OF okD(1) a(2)] free_pages_bound [OF okD(1) a(2)] by auto
  have inc: "pages_ok t" "free_pages t = free_pages s - {p}"
    using pages_ok_set_ref [OF a(1), of p "\<lambda>q. pp_ref q + 1"] a(3) t
      pages_ok_cong [of t "upd_page p (\<lambda>q. q\<lparr>pp_ref := pp_ref q + 1\<rparr>) (after_alloc 1 p s)"] by simp_all
  show "free_pages t = free_pages s - {p}" "p \<notin> D"
    using inc(2) pn(1) .
  have dsl: "slot t d i = slot s d i" if "d \<in> D" "i < 955" for d i
    using slots [of i d] that pn(1) by (cases "d = p") auto
  have tab: "tables t (insert p D) = tables s D"
    using dsl empty by (auto simp: tables_def)
  have tfr: "tfr t u = tfr s u" if "u \<in> tables s D" for u
    using that dsl by (auto simp: tfr_def tables_def)
  have ent: "slot t (tfr s u) j = slot s (tfr s u) j" if "u \<in> tables s D" "j < 1024" for u j
    using that slots [of j "tfr s u"] pn(2) by (cases "tfr s u = p") auto
  have map: "maps t (insert p D) = maps s D"
    using tfr ent by (auto simp: maps_def tab)
  have mfr: "mfr t m = mfr s m" if "m \<in> maps s D" for m
    using that tfr ent by (auto simp: maps_def mfr_def)
  have refs: "refs t (insert p D) q = refs s D q + (if q = p then 1 else 0)" for q
  proof -
    have "{m \<in> maps s D. mfr t m = q} = {m \<in> maps s D. mfr s m = q}"
      "{u \<in> tables s D. tfr t u = q} = {u \<in> tables s D. tfr s u = q}"
      using mfr tfr by auto
    then show ?thesis using pn(1) by (auto simp: refs_def tab map)
  qed
  have img: "tfr t ` tables s D = tfr s ` tables s D"
    using tfr by auto
  show "vm_ok t (insert p D) ext"
  proof (rule vm_okI)
    show "inj_on (tfr t) (tables t (insert p D))"
      using okD(6) inj_on_cong [of "tables s D" "tfr t" "tfr s"] tfr tab by auto
    show "tfr t u < unat (npages t) \<and> tfr t u \<notin> insert p D" if "u \<in> tables t (insert p D)" for u
      using that okD(5) [of u] tfr [of u] pn(2) by (auto simp: tab t(3))
    show "mfr t m < unat (npages t) \<and> mfr t m \<notin> insert p D \<and> mfr t m \<notin> tfr t ` tables t (insert p D)"
      if "m \<in> maps t (insert p D)" for m
      using that okD(7) [of m] mfr [of m] pn(3) by (auto simp: map tab t(3) img)
    show "unat (pp_ref (pages t q)) = refs t (insert p D) q + ext q" if "q < unat (npages t)" for q
      using okD(8) [of q] that refs [of q] pref t by auto
  qed (use inc okD(2,4) pref t in auto)
  show "vmap t d va = vmap s d va" if d: "d \<in> D" "unat (PDX va) < UPDES"
  proof -
    have "slot t d (unat (PDX va)) = slot s d (unat (PDX va))"
      using dsl d by auto
    moreover have "slot t (tfr s (loc d va)) (unat (PTX va)) = slot s (tfr s (loc d va)) (unat (PTX va))"
      if "loc d va \<in> tables s D"
      using ent [OF that] by simp
    ultimately show ?thesis
      using d by (auto simp: vmap_pte tables_def tfr_def)
  qed
  show "vmap t p va = None" if "unat (PDX va) < UPDES"
    using empty that by (simp add: vmap_pte)
qed

text \<open>A loop of stores into one frame.\<close>

definition but_phys :: "kstate \<Rightarrow> kstate \<Rightarrow> bool" where
  "but_phys s t \<longleftrightarrow> (\<exists>m. t = s\<lparr>phys := m\<rparr>)"

lemma but_phys_fields:
  assumes "but_phys s t"
  shows "pages t = pages s" "page_free_list t = page_free_list s" "npages t = npages s" "envs t = envs s"
    "env_free_list t = env_free_list s" "kern_pgdir t = kern_pgdir s" "cpus t = cpus s" "cpunum t = cpunum s"
    "kernel_lock t = kernel_lock s" "cr3 t = cr3 s"
  using assms by (auto simp: but_phys_def)

lemma but_phys_refl: "but_phys s s"
  unfolding but_phys_def by (rule exI [of _ "phys s"]) simp

lemma but_phys_set_slot: "but_phys s t \<Longrightarrow> but_phys s (set_slot f i v t)"
  by (auto simp: but_phys_def set_slot_def)

lemma store_loop:
  assumes "f < 65536" and "a \<le> b" and "b \<le> 1024"
    and "\<And>i t. but_phys s t \<Longrightarrow> a \<le> i \<Longrightarrow> i < b \<Longrightarrow> (\<And>g j. j < 1024 \<Longrightarrow> g \<noteq> f \<Longrightarrow> slot t g j = slot s g j) \<Longrightarrow>
      body i t = Ret () (kst (kv f + 4 * of_nat i) (val i) t)"
  shows "\<exists>t. kfor [a..<b] body s = Ret () t \<and> but_phys s t \<and>
    (\<forall>g. \<forall>j<1024. slot t g j = (if g = f \<and> a \<le> j \<and> j < b then val j else slot s g j))"
proof -
  let ?P = "\<lambda>k t. but_phys s t \<and> (\<forall>g. \<forall>j<1024. slot t g j = (if g = f \<and> a \<le> j \<and> j < k then val j else slot s g j))"
  have "\<exists>t. kfor [a..<b] body s = Ret () t \<and> ?P b t"
  proof (rule kfor_upt_invariant)
    show "?P a s" by (auto simp: but_phys_refl)
    fix i t assume i: "a \<le> i" "i < b" and P: "?P i t"
    have "unat (of_nat i :: u32) = i"
      using i assms(3) by (intro unat_of_nat32) simp
    then have "kst (kv f + 4 * of_nat i) (val i) t = set_slot f i (val i) t"
      using kst_entry [OF assms(1), of "of_nat i" "val i" t] i assms(3) by simp
    then have "body i t = Ret () (set_slot f i (val i) t)"
      using assms(4) [of t i] P i by simp
    then show "\<exists>t'. body i t = Ret () t' \<and> ?P (Suc i) t'"
      using P i assms(3) but_phys_set_slot [of s t] by (auto simp: slot_set_slot less_Suc_eq)
  qed (use assms in simp)
  then show ?thesis by auto
qed


lemma env_setup_vm_ok:
  assumes ok: "vm_ok s D ext" and kp: "kern_pgdir s = kv kd" "kd < 65536" "kd \<notin> free_pages s"
  obtains (no_mem) "free_pages s = {}" and "env_setup_vm e s = Ret (- E_NO_MEM) s"
  | (created) p s' where "p \<in> free_pages s" and "env_setup_vm e s = Ret 0 s'"
      and "vm_ok s' (insert p D) ext" and "p \<notin> D" and "free_pages s' = free_pages s - {p}"
      and "envs s' = (envs s)(e := (envs s e)\<lparr>env_pgdir := kv p\<rparr>)"
      and "env_free_list s' = env_free_list s" and "kern_pgdir s' = kern_pgdir s"
      and "npages s' = npages s" and "cpus s' = cpus s" and "cpunum s' = cpunum s"
      and "kernel_lock s' = kernel_lock s"
      and "\<And>va. unat (PDX va) < UPDES \<Longrightarrow> vmap s' p va = None"
      and "\<And>d va. d \<in> D \<Longrightarrow> unat (PDX va) < UPDES \<Longrightarrow> vmap s' d va = vmap s d va"
      and "\<And>i. UPDES \<le> i \<Longrightarrow> i < 1024 \<Longrightarrow>
        slot s' p i = (if i = 957 then page2pa p OR PTE_P OR PTE_U else slot s kd i)"
      and "data_kept s s' D" and "cr3 s' = cr3 s" and "\<And>i. i < 955 \<Longrightarrow> \<not> present (slot s' p i)"
proof (rule page_alloc_cases [OF vm_okD(1) [OF ok], of 1])
  assume "free_pages s = {}" "page_alloc 1 s = Ret None s"
  then show thesis by (intro no_mem) (simp_all add: env_setup_vm_def)
next
  fix p assume p: "p \<in> free_pages s" and al: "page_alloc 1 s = Ret (Some p) (after_alloc 1 p s)"
  have plt: "p < unat (npages s)" "p < 65536" "p \<noteq> kd"
    using free_pages_bound [OF vm_okD(1) [OF ok] p] vm_okD(3) [OF ok] kp(3) p by auto
  define s1 where "s1 = upd_page p (\<lambda>q. q\<lparr>pp_ref := pp_ref q + 1\<rparr>)
     (upd_env e (\<lambda>v. v\<lparr>env_pgdir := kv p\<rparr>) (after_alloc 1 p s))"
  have sl1: "slot s1 g j = (if g = p then 0 else slot s g j)" if "j < 1024" for g j
    using slot_after_alloc_zero [OF plt(2) that, of s g] by (simp add: s1_def slot_def)
  have "\<exists>t. kfor [0..<955] (\<lambda>i. kmod (kst (kv p + 4 * of_nat i) 0)) s1 = Ret () t \<and> but_phys s1 t \<and>
    (\<forall>g. \<forall>j<1024. slot t g j = (if g = p \<and> 0 \<le> j \<and> j < 955 then 0 else slot s1 g j))"
    by (rule store_loop [where val = "\<lambda>_. 0"]) (use plt in auto)
  then obtain t where t: "kfor [0..<955] (\<lambda>i. kmod (kst (kv p + 4 * of_nat i) 0)) s1 = Ret () t" "but_phys s1 t"
    "\<And>g j. j < 1024 \<Longrightarrow> slot t g j = (if g = p \<and> 0 \<le> j \<and> j < 955 then 0 else slot s1 g j)"
    by blast
  have kt: "kern_pgdir t = kv kd"
    using but_phys_fields(6) [OF t(2)] kp(1) by (simp add: s1_def)
  let ?copy = "\<lambda>i. kmod (\<lambda>s. kst (kv p + 4 * of_nat i) (kld (kern_pgdir s + 4 * of_nat i) s) s)"
  have "\<exists>u. kfor [955..<1024] ?copy t = Ret () u \<and> but_phys t u \<and>
    (\<forall>g. \<forall>j<1024. slot u g j = (if g = p \<and> 955 \<le> j \<and> j < 1024 then slot t kd j else slot t g j))"
  proof (rule store_loop)
    fix i :: nat and w assume w: "but_phys t w" "955 \<le> i" "i < 1024"
      "\<And>g j. j < 1024 \<Longrightarrow> g \<noteq> p \<Longrightarrow> slot w g j = slot t g j"
    have "unat (of_nat i :: u32) = i"
      using w(3) by (intro unat_of_nat32) simp
    then have "kld (kern_pgdir w + 4 * of_nat i) w = slot t kd i"
      using kld_entry [OF kp(2), of "of_nat i" w] w(3) w(4) [of i kd] plt(3) kt but_phys_fields(6) [OF w(1)] by simp
    then show "?copy i w = Ret () (kst (kv p + 4 * of_nat i) (slot t kd i) w)"
      by simp
  qed (use plt in auto)
  then obtain u where u: "kfor [955..<1024] ?copy t = Ret () u" "but_phys t u"
    "\<And>g j. j < 1024 \<Longrightarrow> slot u g j = (if g = p \<and> 955 \<le> j \<and> j < 1024 then slot t kd j else slot t g j)"
    by blast
  define s' where "s' = set_slot p 957 (page2pa p OR PTE_P OR PTE_U) u"
  have pdx: "PDX UVPT = 957" by (simp add: PDX_def)
  have "env_setup_vm e s = Ret 0 s'"
    using al page2kva_Ret [of p "after_alloc 1 p s"] plt(1,2) vm_okD(3) [OF ok] t(1) u(1) kv_ge [OF plt(2)]
      kst_entry [OF plt(2), of 957 "page2pa p OR PTE_P OR PTE_U" u]
    by (simp add: env_setup_vm_def kbind_def kthen_def s1_def s'_def PADDR_def not_less pdx
        del: upt_rec_numeral)
  moreover have slots: "slot s' g j = (if g = p then (if j < 955 then 0
      else if j = 957 then page2pa p OR PTE_P OR PTE_U else slot s kd j) else slot s g j)" if "j < 1024" for g j
    using that plt(3) by (simp add: s'_def slot_set_slot u(3) t(3) sl1)
  moreover have flds: "pages s' = (pages s)(p := (pages s p)\<lparr>pp_link := None, pp_ref := pp_ref (pages s p) + 1\<rparr>)"
    "page_free_list s' = pp_link (pages s p)" "npages s' = npages s"
    "envs s' = (envs s)(e := (envs s e)\<lparr>env_pgdir := kv p\<rparr>)" "env_free_list s' = env_free_list s"
    "kern_pgdir s' = kern_pgdir s" "cpus s' = cpus s" "cpunum s' = cpunum s"
    using but_phys_fields [OF u(2)] but_phys_fields [OF t(2)] by (simp_all add: s'_def s1_def upd_page_def)
  moreover have "kernel_lock s' = kernel_lock s"
    using but_phys_fields [OF u(2)] but_phys_fields [OF t(2)]
    by (simp add: s'_def s1_def set_slot_def upd_page_def after_alloc_def Let_def kmemset_def)
  moreover have "cr3 s' = cr3 s"
    using but_phys_fields [OF u(2)] but_phys_fields [OF t(2)]
    by (simp add: s'_def s1_def set_slot_def upd_page_def after_alloc_def Let_def kmemset_def)
  moreover have keep: "\<And>g j. j < 1024 \<Longrightarrow> g \<noteq> p \<Longrightarrow> slot s' g j = slot s g j"
    and empty: "\<And>i. i < 955 \<Longrightarrow> \<not> present (slot s' p i)"
    using slots by simp_all
  have pD: "p \<notin> D" using free_not_used(1) [OF ok p] .
  have "data_kept s s' D"
  proof (rule data_keptI)
    fix q k assume "data_page s D q" "(k :: nat) < 1024"
    then show "slot s' q k = slot s q k" using keep [of k q] p by (auto simp: data_page_def)
  next
    fix d and i :: nat assume "d \<in> D" "i < 955"
    then have "slot s' d i = slot s d i" using keep [of i d] pD by auto
    then show "slot s' d i AND 7 = 7 \<or> slot s' d i = slot s d i \<or> present (slot s d i) \<and> (\<exists>p. slot s' d i = slot s d i OR p)"
      by simp
  qed
  moreover note empty
  moreover note add = vm_ok_add_dir [OF ok al flds(1-3)]
  have "vm_ok s' (insert p D) ext" "free_pages s' = free_pages s - {p}" "p \<notin> D"
    "\<And>d va. d \<in> D \<Longrightarrow> unat (PDX va) < UPDES \<Longrightarrow> vmap s' d va = vmap s d va"
    "\<And>va. unat (PDX va) < UPDES \<Longrightarrow> vmap s' p va = None"
    by (rule add; use keep empty in simp)+
  ultimately show thesis
    using p by (intro created [of p s']) auto
qed

end
