(* ===== verification/Kernel_Inv.thy ===== *)
theory Kernel_Inv
  imports Env_Space
begin

text \<open>
  The invariant of the kernel's data as a whole: the page tables of all live environments are
  well formed, the environment table agrees with its free list, every live environment has its
  own page directory and an identifier that names its slot. The theories of the system calls
  show that each of them keeps it.

  \<open>kd\<close> is the frame of \<^verbatim>\<open>kern_pgdir\<close>; like every page in use since boot it carries a
  reference outside the user page tables (\<open>ext kd > 0\<close>).
\<close>

section \<open>The invariant\<close>

definition live :: "kstate \<Rightarrow> nat set" where
  "live s = {i. i < NENV \<and> env_status (envs s i) \<noteq> ENV_FREE}"

definition dir_of :: "kstate \<Rightarrow> nat \<Rightarrow> nat" where
  "dir_of s i = frame (env_pgdir (envs s i) - KERNBASE)"

definition dirs :: "kstate \<Rightarrow> nat set" where
  "dirs s = dir_of s ` live s"

definition kernel_ok :: "nat \<Rightarrow> (nat \<Rightarrow> nat) \<Rightarrow> kstate \<Rightarrow> bool" where
  "kernel_ok kd ext s \<longleftrightarrow> vm_ok s (dirs s) ext \<and> inj_on (dir_of s) (live s) \<and>
     (\<forall>i\<in>live s. env_pgdir (envs s i) = kv (dir_of s i) \<and> ENVX (env_id (envs s i)) = i \<and> sint (env_id (envs s i)) > 0) \<and>
     (\<exists>xs. env_table s xs) \<and> kern_pgdir s = kv kd \<and> kd < unat (npages s) \<and> ext kd > 0 \<and>
     (\<forall>e. curenv s = Some e \<longrightarrow> e \<in> live s)"

lemma kernel_okD:
  assumes "kernel_ok kd ext s"
  shows "vm_ok s (dirs s) ext" and "inj_on (dir_of s) (live s)"
    and "i \<in> live s \<Longrightarrow> env_pgdir (envs s i) = kv (dir_of s i)"
    and "i \<in> live s \<Longrightarrow> ENVX (env_id (envs s i)) = i" and "i \<in> live s \<Longrightarrow> sint (env_id (envs s i)) > 0"
    and "\<exists>xs. env_table s xs" and "kern_pgdir s = kv kd" and "kd < unat (npages s)" and "kd < 65536"
    and "kd \<notin> free_pages s" and "curenv s = Some e \<Longrightarrow> e \<in> live s" and "i \<in> live s \<Longrightarrow> dir_of s i \<in> dirs s"
    and "ext kd > 0"
proof -
  show "vm_ok s (dirs s) ext" using assms by (simp add: kernel_ok_def)
  from free_not_used(4) [OF this] show "kd \<notin> free_pages s"
    using assms by (auto simp: kernel_ok_def)
  show "kd < 65536"
    using vm_okD(3) [OF \<open>vm_ok s (dirs s) ext\<close>] assms by (auto simp: kernel_ok_def)
qed (use assms in \<open>auto simp: kernel_ok_def dirs_def\<close>)

lemma kernel_okI:
  assumes "vm_ok s (dirs s) ext" and "inj_on (dir_of s) (live s)"
    and "\<And>i. i \<in> live s \<Longrightarrow> env_pgdir (envs s i) = kv (dir_of s i) \<and> ENVX (env_id (envs s i)) = i \<and> sint (env_id (envs s i)) > 0"
    and "env_table s xs" and "kern_pgdir s = kv kd" and "kd < unat (npages s)" and "ext kd > 0"
    and "\<And>e. curenv s = Some e \<Longrightarrow> e \<in> live s"
  shows "kernel_ok kd ext s"
  using assms unfolding kernel_ok_def by blast

lemma live_lt: "i \<in> live s \<Longrightarrow> i < NENV"
  by (simp add: live_def)

lemma kernel_ok_cong:
  assumes "kernel_ok kd ext s" and "vm_ok s' (dirs s) ext"
    and "\<And>i. i < NENV \<Longrightarrow> env_pgdir (envs s' i) = env_pgdir (envs s i) \<and> env_id (envs s' i) = env_id (envs s i) \<and>
      env_link (envs s' i) = env_link (envs s i) \<and>
      (env_status (envs s' i) = ENV_FREE \<longleftrightarrow> env_status (envs s i) = ENV_FREE)"
    and "env_free_list s' = env_free_list s" and "kern_pgdir s' = kern_pgdir s" and "npages s' = npages s"
    and "\<And>e. curenv s' = Some e \<Longrightarrow> e \<in> live s"
  shows "kernel_ok kd ext s'" and "dirs s' = dirs s" and "live s' = live s"
    and "i \<in> live s \<Longrightarrow> dir_of s' i = dir_of s i"
proof -
  show live: "live s' = live s"
    using assms(3) by (auto simp: live_def)
  have dir: "dir_of s' i = dir_of s i" if "i \<in> live s" for i
    using that assms(3) [of i] by (simp add: dir_of_def live_def)
  then show "i \<in> live s \<Longrightarrow> dir_of s' i = dir_of s i" .
  show dirs: "dirs s' = dirs s"
    using dir by (auto simp: dirs_def live)
  obtain xs where xs: "env_table s xs"
    using kernel_okD(6) [OF assms(1)] by blast
  have "set xs \<subseteq> {i. i < NENV}"
    using xs by (auto simp: env_table_def)
  then have "el_path (envs s') (env_free_list s') xs"
    using xs el_path_cong [of xs "envs s'" "envs s"] assms(3,4) by (auto simp: env_table_def)
  moreover have "{i. i < NENV \<and> env_status (envs s' i) = ENV_FREE} = {i. i < NENV \<and> env_status (envs s i) = ENV_FREE}"
    using assms(3) by auto
  ultimately have "env_table s' xs"
    using xs by (simp add: env_table_def)
  moreover have "inj_on (dir_of s') (live s)"
    using kernel_okD(2) [OF assms(1)] inj_on_cong [of "live s" "dir_of s'" "dir_of s"] dir by blast
  moreover have "vm_ok s' (dirs s') ext"
    using assms(2) dirs by simp
  ultimately show "kernel_ok kd ext s'"
    using kernel_okD(3-5,7,8,13) [OF assms(1)] assms(3,5-7) dir live_lt
    by (intro kernel_okI) (simp_all add: live)
qed

text \<open>Operations that only touch page tables, and updates of an environment's other fields.\<close>

lemma kernel_ok_vm:
  assumes "kernel_ok kd ext s" and "vm_frame s s'" and "vm_ok s' (dirs s) ext"
  shows "kernel_ok kd ext s'" and "dirs s' = dirs s" and "live s' = live s" and "dir_of s' = dir_of s"
proof -
  have f: "envs s' = envs s" "env_free_list s' = env_free_list s" "kern_pgdir s' = kern_pgdir s"
    "npages s' = npages s" "curenv s' = curenv s"
    using assms(2) by (simp_all add: vm_frame_def curenv_def)
  show "kernel_ok kd ext s'"
    by (rule kernel_ok_cong(1) [OF assms(1,3)]) (use f kernel_okD(11) [OF assms(1)] in auto)
  show "dirs s' = dirs s" "live s' = live s" "dir_of s' = dir_of s"
    by (auto simp: dirs_def live_def dir_of_def f)
qed

lemma kernel_ok_upd_env:
  assumes "kernel_ok kd ext s"
    and "env_pgdir (f (envs s e)) = env_pgdir (envs s e)" and "env_id (f (envs s e)) = env_id (envs s e)"
    and "env_link (f (envs s e)) = env_link (envs s e)"
    and "env_status (f (envs s e)) = ENV_FREE \<longleftrightarrow> env_status (envs s e) = ENV_FREE"
  shows "kernel_ok kd ext (upd_env e f s)"
proof (rule kernel_ok_cong(1) [OF assms(1)])
  show "vm_ok (upd_env e f s) (dirs s) ext"
    by (rule vm_ok_same [OF kernel_okD(1) [OF assms(1)]]) simp_all
  show "e' \<in> live s" if "curenv (upd_env e f s) = Some e'" for e'
    using that kernel_okD(11) [OF assms(1)] by (simp add: curenv_def)
qed (use assms(2-5) in auto)

lemma kernel_ok_con: "kernel_ok kd ext s \<Longrightarrow> kernel_ok kd ext (s\<lparr>con := x\<rparr>)"
  by (rule kernel_ok_cong(1))
    (auto intro: vm_ok_same [OF kernel_okD(1)] dest: kernel_okD(11) simp: curenv_def)

section \<open>Environments\<close>

lemma env_alloc_ok:
  assumes ok: "kernel_ok kd ext s"
  obtains (no_env) "\<And>i. i < NENV \<Longrightarrow> i \<in> live s" and "env_alloc parent s = Ret (- E_NO_FREE_ENV, None) s"
  | (no_mem) "free_pages s = {}" and "env_alloc parent s = Ret (- E_NO_MEM, None) s"
  | (created) e s' where "env_alloc parent s = Ret (0, Some e) s'" and "kernel_ok kd ext s'"
      and "e < NENV" and "e \<notin> live s" and "live s' = insert e (live s)"
      and "env_id (envs s' e) = next_env_id (env_id (envs s e)) e" and "env_parent_id (envs s' e) = parent"
      and "env_status (envs s' e) = ENV_RUNNABLE" and "env_tf (envs s' e) = init_tf"
      and "\<And>i. i \<noteq> e \<Longrightarrow> envs s' i = envs s i"
      and "\<And>va. unat (PDX va) < UPDES \<Longrightarrow> vmap s' (dir_of s' e) va = None"
      and "\<And>i va. i \<in> live s \<Longrightarrow> unat (PDX va) < UPDES \<Longrightarrow> vmap s' (dir_of s' i) va = vmap s (dir_of s i) va"
      and "curenv s' = curenv s" and "cpus s' = cpus s" and "cpunum s' = cpunum s" and "kernel_lock s' = kernel_lock s"
      and "dir_of s' e \<notin> dirs s" and "dirs s' = insert (dir_of s' e) (dirs s)"
      and "data_kept s s' (dirs s)" and "cr3 s' = cr3 s" and "dir_of s' e \<in> free_pages s"
      and "pdes_open s (dirs s) \<Longrightarrow> pdes_open s' (dirs s')"
proof (cases "env_free_list s")
  case None
  obtain xs where xs: "env_table s xs" using kernel_okD(6) [OF ok] by blast
  with None have "xs = []"
    by (simp add: env_table_def)
  with xs have none: "i \<notin> {i. i < NENV \<and> env_status (envs s i) = ENV_FREE}" for i
    unfolding env_table_def by (metis empty_iff list.set(1))
  then have "\<And>i. i < NENV \<Longrightarrow> i \<in> live s"
    unfolding live_def by blast
  with None show thesis by (intro no_env) (simp_all add: env_alloc_def)
next
  case (Some e)
  obtain xs where xs: "env_table s xs" using kernel_okD(6) [OF ok] by blast
  with Some obtain ys where ys: "xs = e # ys" "el_path (envs s) (env_link (envs s e)) ys"
    by (auto simp: env_table_def el_path_Some)
  have dy: "e \<notin> set ys" and sx: "set xs = {i. i < NENV \<and> env_status (envs s i) = ENV_FREE}"
    using xs ys(1) by (auto simp: env_table_def)
  then have e: "e < NENV" "env_status (envs s e) = ENV_FREE"
    using ys(1) by auto
  show thesis
  proof (rule env_setup_vm_ok [OF kernel_okD(1,7,9,10) [OF ok], of e])
    assume "free_pages s = {}" "env_setup_vm e s = Ret (- E_NO_MEM) s"
    with Some show thesis by (intro no_mem) (simp_all add: env_alloc_def)
  next
    fix p t assume t: "env_setup_vm e s = Ret 0 t" "vm_ok t (insert p (dirs s)) ext" "p \<notin> dirs s"
      "p \<in> free_pages s" "free_pages t = free_pages s - {p}"
      "envs t = (envs s)(e := (envs s e)\<lparr>env_pgdir := kv p\<rparr>)" "env_free_list t = env_free_list s"
      "kern_pgdir t = kern_pgdir s" "npages t = npages s" "cpus t = cpus s" "cpunum t = cpunum s"
      "kernel_lock t = kernel_lock s"
      "\<And>va. unat (PDX va) < UPDES \<Longrightarrow> vmap t p va = None"
      "\<And>d va. d \<in> dirs s \<Longrightarrow> unat (PDX va) < UPDES \<Longrightarrow> vmap t d va = vmap s d va"
      "data_kept s t (dirs s)" "cr3 t = cr3 s" "\<And>i. i < 955 \<Longrightarrow> \<not> present (slot t p i)"
    define s' where "s' = (upd_env e (\<lambda>v. v\<lparr>env_id := next_env_id (env_id v) e,
                   env_parent_id := parent, env_type := ENV_TYPE_USER,
                   env_status := ENV_RUNNABLE, env_runs := 0, env_tf := init_tf,
                   env_pgfault_upcall := 0, env_ipc_recving := False\<rparr>) t)\<lparr>env_free_list := env_link (envs s e)\<rparr>"
    have run: "env_alloc parent s = Ret (0, Some e) s'"
      using Some t(1) by (simp add: env_alloc_def kbind_def kthen_def s'_def t(6))
    have other: "envs s' i = envs s i" if "i \<noteq> e" for i
      using that by (simp add: s'_def t(6))
    have live: "live s' = insert e (live s)"
      using e(1) other by (auto simp: live_def s'_def)
    have enl: "e \<notin> live s" using e(2) by (simp add: live_def)
    have plt: "p < 65536"
      using dir_lt [OF t(2), of p] by simp
    have de: "dir_of s' e = p"
      using plt by (simp add: dir_of_def s'_def t(6))
    have dother: "dir_of s' i = dir_of s i" if "i \<in> live s" for i
      using other [of i] that enl by (cases "i = e") (simp_all add: dir_of_def)
    have dirs: "dirs s' = insert p (dirs s)"
      using dother de by (auto simp: dirs_def live)
    have cur: "curenv s' = curenv s"
      by (simp add: curenv_def s'_def t)
    have fl: "el_path (envs s') (env_free_list s') ys"
    proof -
      have "el_path (envs s') p ys = el_path (envs s) p ys" for p
        using other dy by (intro el_path_cong) metis
      then show ?thesis using ys(2) by (simp add: s'_def)
    qed
    have "set ys = {i. i < NENV \<and> env_status (envs s' i) = ENV_FREE}"
    proof -
      have "set ys = set xs - {e}" using ys(1) dy by auto
      also have "\<dots> = {i. i < NENV \<and> env_status (envs s' i) = ENV_FREE}"
        using sx other by (auto simp: s'_def)
      finally show ?thesis .
    qed
    then have tab: "env_table s' ys"
      using fl xs ys(1) by (simp add: env_table_def)
    have phys: "phys s' = phys t" by (simp add: s'_def)
    have "kernel_ok kd ext s'"
    proof (rule kernel_okI [OF _ _ _ tab])
      show "vm_ok s' (dirs s') ext"
        unfolding dirs by (rule vm_ok_same [OF t(2)]) (simp_all add: s'_def)
      show "inj_on (dir_of s') (live s')"
        using kernel_okD(2) [OF ok] inj_on_cong [of "live s" "dir_of s'" "dir_of s"] dother de t(3) enl
        by (auto simp: live dirs_def)
      show "env_pgdir (envs s' i) = kv (dir_of s' i) \<and> ENVX (env_id (envs s' i)) = i \<and> sint (env_id (envs s' i)) > 0"
        if "i \<in> live s'" for i
      proof (cases "i = e")
        case True
        then show ?thesis
          using de e(1) ENVX_next_env_id [of e] next_env_id_pos [of e] by (simp add: s'_def t(6))
      next
        case False
        then show ?thesis
          using that kernel_okD(3-5) [OF ok, of i] other dother by (simp add: live)
      qed
    qed (use kernel_okD(7,8,11,13) [OF ok] live cur in \<open>auto simp: s'_def t\<close>)
    moreover have sl: "slot s' q k = slot t q k" for q k
      using phys by (simp add: slot_def)
    have kept: "data_kept s s' (dirs s)" using t(15) sl pdes_open_cong [OF sl, of "dirs s"] by (simp add: data_kept_def)
    moreover have "pdes_open s' (dirs s')" if "pdes_open s (dirs s)"
      using data_kept_open [OF kept that] t(17) by (auto simp: pdes_open_def dirs sl)
    ultimately show thesis
      using run e(1) enl live other dirs de t(3,4,10-14,16) cur dother vmap_phys [OF phys]
      by (intro created [of e s']) (simp_all add: s'_def t(6) dirs_def)
  qed
qed


lemma env_free_kernel_ok:
  assumes ok: "kernel_ok kd ext s" and e: "e \<in> live s"
  obtains s' where "env_free e s = Ret () s'" and "live s' = live s - {e}" and "env_status (envs s' e) = ENV_FREE"
    and "kernel_ok kd ext (if curenv s = Some e then set_curenv None s' else s')"
    and "\<And>i. i \<noteq> e \<Longrightarrow> envs s' i = envs s i" and "curenv s' = curenv s" and "kernel_lock s' = kernel_lock s"
    and "cpunum s' = cpunum s" and "cpus s' = cpus s" and "free_pages s \<subseteq> free_pages s'"
    and "ext (dir_of s e) = 0 \<Longrightarrow> dir_of s e \<in> free_pages s'"
    and "\<And>i va. i \<in> live s \<Longrightarrow> i \<noteq> e \<Longrightarrow> unat (PDX va) < UPDES \<Longrightarrow> vmap s' (dir_of s' i) va = vmap s (dir_of s i) va"
proof -
  let ?d = "dir_of s e"
  note okD = kernel_okD [OF ok]
  have kp: "kern_pgdir s \<ge> KERNBASE"
    using okD(7,9) kv_ge by simp
  obtain s' where s': "env_free e s = Ret () s'" "vm_ok s' (dirs s - {?d}) ext"
    "\<And>d' va. d' \<in> dirs s \<Longrightarrow> d' \<noteq> ?d \<Longrightarrow> unat (PDX va) < UPDES \<Longrightarrow> vmap s' d' va = vmap s d' va"
    "free_pages s \<subseteq> free_pages s'" "ext ?d = 0 \<Longrightarrow> ?d \<in> free_pages s'"
    "envs s' = (envs s)(e := (envs s e)\<lparr>env_pgdir := 0, env_status := ENV_FREE, env_link := env_free_list s\<rparr>)"
    "env_free_list s' = Some e" "cpus s' = cpus s" "cpunum s' = cpunum s"
    "kern_pgdir s' = kern_pgdir s" "kernel_lock s' = kernel_lock s" "npages s' = npages s"
    by (rule env_free_ok [OF okD(1) okD(12) [OF e] okD(3) [OF e] kp]) (rule that, assumption+)
  have live: "live s' = live s - {e}"
    by (auto simp: live_def s'(6))
  have dir: "dir_of s' i = dir_of s i" if "i \<noteq> e" for i
    using that by (simp add: dir_of_def s'(6))
  have ne: "dir_of s i \<noteq> ?d" if "i \<in> live s" "i \<noteq> e" for i
    using inj_onD [OF okD(2) _ that(1) e] that(2) by blast
  have dirs: "dirs s' = dirs s - {?d}"
    using dir ne by (auto simp: dirs_def live)
  obtain xs where xs: "env_table s xs" using okD(6) by blast
  have exs: "e \<notin> set xs" and elt: "e < NENV"
    using xs e by (auto simp: env_table_def live_def)
  have "el_path (envs s') (env_free_list s) xs"
  proof -
    have "el_path (envs s') p xs = el_path (envs s) p xs" for p
      using exs by (intro el_path_cong) (auto simp: s'(6))
    then show ?thesis using xs by (simp add: env_table_def)
  qed
  then have tab: "env_table s' (e # xs)"
    using xs exs elt by (auto simp: env_table_def s'(6,7))
  let ?t = "if curenv s = Some e then set_curenv None s' else s'"
  have t: "dirs ?t = dirs s'" "dir_of ?t = dir_of s'" "live ?t = live s'" "envs ?t = envs s'"
    "kern_pgdir ?t = kern_pgdir s'" "npages ?t = npages s'" "env_free_list ?t = env_free_list s'"
    by (auto simp: dirs_def live_def dir_of_def set_curenv_def)
  have "kernel_ok kd ext ?t"
  proof (rule kernel_okI)
    show "vm_ok ?t (dirs ?t) ext"
      unfolding t dirs by (rule vm_ok_same [OF s'(2)]) (simp_all add: set_curenv_def)
    show "inj_on (dir_of ?t) (live ?t)"
      unfolding t live using inj_on_subset [OF okD(2), of "live s - {e}"]
        inj_on_cong [of "live s - {e}" "dir_of s'" "dir_of s"] dir by auto
    show "env_pgdir (envs ?t i) = kv (dir_of ?t i) \<and> ENVX (env_id (envs ?t i)) = i \<and> 0 < sint (env_id (envs ?t i))"
      if "i \<in> live ?t" for i
      using that okD(3-5) [of i] dir [of i] unfolding t live by (simp add: s'(6))
    show "env_table ?t (e # xs)"
      using tab by (simp add: env_table_def t)
    show "e' \<in> live ?t" if "curenv ?t = Some e'" for e'
      using that okD(11) [of e'] unfolding t live
      by (auto simp: curenv_def set_curenv_def s'(8,9) split: if_splits)
  qed (use okD(7,8,13) s'(10,12) in \<open>simp_all add: t\<close>)
  moreover have "vmap s' (dir_of s' i) va = vmap s (dir_of s i) va" if "i \<in> live s" "i \<noteq> e" "unat (PDX va) < UPDES" for i va
    using s'(3) [of "dir_of s i" va] okD(12) [OF that(1)] ne [OF that(1,2)] that dir by simp
  moreover have "curenv s' = curenv s" by (simp add: curenv_def s'(8,9))
  ultimately show thesis
    using s' live by (intro that [of s']) simp_all
qed

end
