(* ===== verification/Sched.thy ===== *)
theory Sched
  imports Kernel_Inv
begin

text \<open>
  The round-robin scheduler, \<^verbatim>\<open>kern/sched.c\<close>, with the two functions that end in it:
  \<open>env_destroy\<close> (\<^verbatim>\<open>kern/env.c\<close>) and \<open>user_mem_assert\<close>
  (\<^verbatim>\<open>kern/pmap.c\<close>).
\<close>

section \<open>Definitions\<close>

definition sched_halt :: "(kstate, unit) op" where
  "sched_halt s =
     (if \<not> (\<exists>i\<in>{0..<NENV}. env_status (envs s i) \<in> {ENV_RUNNABLE, ENV_RUNNING, ENV_DYING})
      then kthen (kprintf (''No runnable environments in the system!'' @ NL) []) (\<lambda>s. Gone Monitor s) s
      else kthen (kmod (set_curenv None))
           (kbind (kget kern_pgdir) (\<lambda>kp.
            kbind (PADDR kp) (\<lambda>pa.
            kthen (kmod (lcr3 pa))
            (kthen (kmod (\<lambda>s. s\<lparr>cpus := (cpus s)(cpunum s := (cpus s (cpunum s))\<lparr>cpu_status := CPU_HALTED\<rparr>)\<rparr>))
            (kthen unlock_kernel
            (\<lambda>s. Gone Halted s)))))) s)"

text \<open>Where the circular search starts, and what it finds.\<close>

definition sched_begin :: "kstate \<Rightarrow> nat" where
  "sched_begin s = (case curenv s of None \<Rightarrow> 0 | Some c \<Rightarrow> ENVX (env_id (envs s c)))"

definition sched_pick :: "kstate \<Rightarrow> nat option" where
  "sched_pick s = map_option (\<lambda>i. (i + sched_begin s) mod NENV)
     (find (\<lambda>i. env_status (envs s ((i + sched_begin s) mod NENV)) = ENV_RUNNABLE) [0..<NENV])"

definition sched_yield :: "(kstate, unit) op" where
  "sched_yield s =
     (case sched_pick s of
        Some idle \<Rightarrow> env_run idle s
      | None \<Rightarrow>
          kthen (case curenv s of
                   None \<Rightarrow> kret ()
                 | Some c \<Rightarrow> if env_status (envs s c) = ENV_RUNNING then env_run c else kret ())
            sched_halt s)"

definition env_destroy :: "nat \<Rightarrow> (kstate, unit) op" where
  "env_destroy e s =
     (if env_status (envs s e) = ENV_RUNNING \<and> curenv s \<noteq> Some e
      then Ret () (upd_env e (\<lambda>v. v\<lparr>env_status := ENV_DYING\<rparr>) s)
      else kthen (env_free e)
           (\<lambda>s. if curenv s = Some e then sched_yield (set_curenv None s) else Ret () s) s)"

definition user_mem_assert :: "nat \<Rightarrow> u32 \<Rightarrow> u32 \<Rightarrow> u32 \<Rightarrow> (kstate, unit) op" where
  "user_mem_assert e va len perm =
     kbind (kget (\<lambda>s. env_pgdir (envs s e))) (\<lambda>pgdir.
     kbind (user_mem_check pgdir va len (perm OR PTE_U)) (\<lambda>r.
     if r < 0
     then kbind (kget (\<lambda>s. [VInt (env_id (envs s e)), VInt (user_mem_check_addr s)])) (\<lambda>args.
          kthen (kprintf (''[%08x] user_mem_check assertion failure for va %08x'' @ NL) args)
          (env_destroy e))
     else kret ()))"

section \<open>Dispatch\<close>

lemma env_run_ok:
  assumes ok: "kernel_ok kd ext s" and e: "e \<in> live s" and lk: "holding (cpunum s) (kernel_lock s)"
  obtains s' where "env_run e s = Gone (To_User e) s'" and "kernel_ok kd ext s'"
    and "curenv s' = Some e" and "env_status (envs s' e) = ENV_RUNNING" and "\<not> locked (kernel_lock s')"
    and "cr3 s' = page2pa (dir_of s e)" and "env_tf (envs s' e) = env_tf (envs s e)"
    and "env_cpunum (envs s' e) = cpunum s"
    and "\<And>c. curenv s = Some c \<Longrightarrow> c \<noteq> e \<Longrightarrow> env_status (envs s c) = ENV_RUNNING \<Longrightarrow> env_status (envs s' c) = ENV_RUNNABLE"
    and "\<And>i. i \<noteq> e \<Longrightarrow> curenv s \<noteq> Some i \<Longrightarrow> envs s' i = envs s i"
proof -
  define s1 where "s1 = (case curenv s of None \<Rightarrow> s
     | Some c \<Rightarrow> if env_status (envs s c) = ENV_RUNNING then upd_env c (\<lambda>v. v\<lparr>env_status := ENV_RUNNABLE\<rparr>) s else s)"
  have ok1: "kernel_ok kd ext s1"
    unfolding s1_def by (auto split: option.splits intro!: kernel_ok_upd_env ok)
  have f1: "env_pgdir (envs s1 e) = env_pgdir (envs s e)" "cpunum s1 = cpunum s" "cpus s1 = cpus s"
    "kernel_lock s1 = kernel_lock s" "env_tf (envs s1 e) = env_tf (envs s e)"
    by (auto simp: s1_def split: option.splits)
  have l1: "e \<in> live s1"
    using e by (auto simp: s1_def live_def split: option.splits)
  define s2 where "s2 = upd_env e (\<lambda>v. v\<lparr>env_status := ENV_RUNNING, env_runs := env_runs v + 1\<rparr>) (set_curenv (Some e) s1)"
  define s' where "s' = upd_env e (\<lambda>v. v\<lparr>env_cpunum := cpunum s\<rparr>)
     ((s2\<lparr>cr3 := page2pa (dir_of s e)\<rparr>)\<lparr>kernel_lock := \<lparr>locked = False, lock_cpu = None\<rparr>\<rparr>)"
  have pg: "env_pgdir (envs s e) = kv (dir_of s e)" "dir_of s e < 65536"
    using kernel_okD(3) [OF ok e] dir_lt [OF kernel_okD(1) [OF ok] kernel_okD(12) [OF ok e]] by auto
  have run: "env_run e s = Gone (To_User e) s'"
    using lk pg kv_ge [OF pg(2)] f1
    by (simp add: env_run_def s1_def [symmetric] kbind_def kthen_def s'_def s2_def PADDR_def not_less lcr3_def
        unlock_kernel_def env_pop_tf_def set_curenv_def upd_env_def holding_def)
  have other: "envs s' i = envs s1 i" if "i \<noteq> e" for i
    using that by (simp add: s'_def s2_def set_curenv_def)
  have "kernel_ok kd ext s'"
  proof (rule kernel_ok_cong(1) [OF ok1])
    show "vm_ok s' (dirs s1) ext"
      by (rule vm_ok_same [OF kernel_okD(1) [OF ok1]]) (simp_all add: s'_def s2_def set_curenv_def)
    show "e' \<in> live s1" if "curenv s' = Some e'" for e'
      using that l1 by (simp add: s'_def s2_def set_curenv_def curenv_def)
  qed (use l1 in \<open>auto simp: s'_def s2_def set_curenv_def live_def\<close>)
  then show thesis
    using run f1 other
    by (intro that [of s']) (auto simp: s'_def s2_def s1_def set_curenv_def curenv_def split: option.splits)
qed

section \<open>The choice\<close>

lemma find_upt:
  assumes "find P [0..<n] = Some i"
  shows "P i" and "i < n" and "\<And>j. j < i \<Longrightarrow> \<not> P j"
  using assms by (auto simp: find_Some_iff)

lemma sched_pick_Some:
  assumes "sched_pick s = Some e"
  obtains i where "i < NENV" and "e = (i + sched_begin s) mod NENV" and "env_status (envs s e) = ENV_RUNNABLE"
    and "\<And>j. j < i \<Longrightarrow> env_status (envs s ((j + sched_begin s) mod NENV)) \<noteq> ENV_RUNNABLE"
proof -
  obtain i where i: "find (\<lambda>i. env_status (envs s ((i + sched_begin s) mod NENV)) = ENV_RUNNABLE) [0..<NENV] = Some i"
    and e: "e = (i + sched_begin s) mod NENV"
    using assms unfolding sched_pick_def by blast
  from find_upt [OF i] e show thesis by (intro that [of i]) auto
qed

lemma circular_position:
  assumes "b < NENV" and "e < NENV"
  shows "\<exists>i<NENV. (i + b) mod NENV = e"
proof (cases "b \<le> e")
  case True
  then show ?thesis using assms by (intro exI [of _ "e - b"]) auto
next
  case False
  then show ?thesis using assms by (intro exI [of _ "e + NENV - b"]) auto
qed

lemma sched_pick_None:
  assumes "sched_begin s < NENV"
  shows "sched_pick s = None \<longleftrightarrow> (\<forall>i<NENV. env_status (envs s i) \<noteq> ENV_RUNNABLE)"
proof -
  have "sched_pick s = None \<longleftrightarrow> (\<forall>i<NENV. env_status (envs s ((i + sched_begin s) mod NENV)) \<noteq> ENV_RUNNABLE)"
    by (auto simp: sched_pick_def find_None_iff)
  also have "\<dots> \<longleftrightarrow> (\<forall>i<NENV. env_status (envs s i) \<noteq> ENV_RUNNABLE)"
    using circular_position [OF assms] by (metis mod_less_divisor zero_less_numeral)
  finally show ?thesis .
qed

lemma ENVX_lt: "ENVX w < NENV"
  using unat_and_mask [of w 10] by (simp add: ENVX_def mask_10)

lemma sched_begin_lt: "sched_begin s < NENV"
  by (simp add: sched_begin_def ENVX_lt split: option.splits)


section \<open>Outcomes that keep the invariant\<close>

text \<open>The operation does not panic, and the state it leaves (whether it returns or control goes
  elsewhere) satisfies the kernel invariant. An operation that returns still holds the kernel lock. When
  an environment is entered it is the current one and the lock is free; an idle processor has no
  current environment and has released the lock (\<open>left_ok\<close>).\<close>

fun left_ok :: "leave \<Rightarrow> kstate \<Rightarrow> bool" where
  "left_ok (To_User e) s \<longleftrightarrow> curenv s = Some e \<and> env_status (envs s e) = ENV_RUNNING \<and> \<not> locked (kernel_lock s)"
| "left_ok Halted s \<longleftrightarrow> curenv s = None \<and> \<not> locked (kernel_lock s)"
| "left_ok Monitor s \<longleftrightarrow> holding (cpunum s) (kernel_lock s)"
| "left_ok Spinning s \<longleftrightarrow> locked (kernel_lock s)"

fun safe_outcome :: "nat \<Rightarrow> (nat \<Rightarrow> nat) \<Rightarrow> (kstate, 'a) outcome \<Rightarrow> bool" where
  "safe_outcome kd ext (Ret a s) \<longleftrightarrow> kernel_ok kd ext s \<and> holding (cpunum s) (kernel_lock s)"
| "safe_outcome kd ext (Gone l s) \<longleftrightarrow> kernel_ok kd ext s \<and> left_ok l s"
| "safe_outcome kd ext (Panic msg) \<longleftrightarrow> False"

lemma sched_halt_ok:
  assumes ok: "kernel_ok kd ext s" and lk: "holding (cpunum s) (kernel_lock s)"
  obtains c where "sched_halt s = Gone Monitor (s\<lparr>con := c\<rparr>)" and "\<And>i. i < NENV \<Longrightarrow> env_status (envs s i) \<in> {ENV_FREE, ENV_NOT_RUNNABLE}"
  | s' where "sched_halt s = Gone Halted s'" and "kernel_ok kd ext s'" and "curenv s' = None"
      and "\<not> locked (kernel_lock s')" and "envs s' = envs s"
proof (cases "\<exists>i\<in>{0..<NENV}. env_status (envs s i) \<in> {ENV_RUNNABLE, ENV_RUNNING, ENV_DYING}")
  case False
  have "env_status (envs s i) \<in> {ENV_FREE, ENV_NOT_RUNNABLE}" if "i < NENV" for i
    using False that by (cases "env_status (envs s i)") force+
  with False show thesis
    by (intro that(1) [of "cprintf (''No runnable environments in the system!'' @ NL) [] (con s)"])
      (simp_all add: sched_halt_def kprintf_def)
next
  case True
  define s1 where "s1 = lcr3 (page2pa kd) (set_curenv None s)"
  define s' where "s' = (s1\<lparr>cpus := (cpus s1)(cpunum s1 := (cpus s1 (cpunum s1))\<lparr>cpu_status := CPU_HALTED\<rparr>)\<rparr>)
     \<lparr>kernel_lock := \<lparr>locked = False, lock_cpu = None\<rparr>\<rparr>"
  have kp: "kern_pgdir s = kv kd" "KERNBASE \<le> kv kd"
    using kernel_okD(7,9) [OF ok] kv_ge by auto
  have "sched_halt s = Gone Halted s'"
    using True lk kp by (simp add: sched_halt_def kbind_def kthen_def s'_def s1_def set_curenv_def PADDR_def
        not_less lcr3_def unlock_kernel_def holding_def)
  moreover have "curenv s' = None"
    by (simp add: s'_def s1_def set_curenv_def lcr3_def curenv_def)
  moreover have "kernel_ok kd ext s'"
  proof (rule kernel_ok_cong(1) [OF ok])
    show "vm_ok s' (dirs s) ext"
      by (rule vm_ok_same [OF kernel_okD(1) [OF ok]]) (simp_all add: s'_def s1_def set_curenv_def lcr3_def)
  qed (use \<open>curenv s' = None\<close> in \<open>auto simp: s'_def s1_def set_curenv_def lcr3_def\<close>)
  ultimately show thesis
    by (intro that(2) [of s']) (simp_all add: s'_def s1_def set_curenv_def lcr3_def)
qed

lemma sched_yield_ok:
  assumes ok: "kernel_ok kd ext s" and lk: "holding (cpunum s) (kernel_lock s)"
  obtains (run) e s' where "sched_yield s = Gone (To_User e) s'" and "kernel_ok kd ext s'"
      and "sched_pick s = Some e \<or> (sched_pick s = None \<and> curenv s = Some e \<and> env_status (envs s e) = ENV_RUNNING)"
      and "curenv s' = Some e" and "env_status (envs s' e) = ENV_RUNNING" and "\<not> locked (kernel_lock s')"
  | (halt) s' where "sched_yield s = Gone Halted s'" and "kernel_ok kd ext s'" and "sched_pick s = None"
      and "curenv s' = None" and "\<not> locked (kernel_lock s')"
  | (monitor) c where "sched_yield s = Gone Monitor (s\<lparr>con := c\<rparr>)" and "\<And>i. i < NENV \<Longrightarrow> env_status (envs s i) \<in> {ENV_FREE, ENV_NOT_RUNNABLE}"
proof (cases "sched_pick s")
  case (Some e)
  have "e \<in> live s"
    by (rule sched_pick_Some [OF Some]) (simp add: live_def)
  then show thesis
    by (rule env_run_ok [OF ok _ lk]) (use Some run in \<open>auto simp: sched_yield_def\<close>)
next
  case None
  show thesis
  proof (cases "\<exists>c. curenv s = Some c \<and> env_status (envs s c) = ENV_RUNNING")
    case True
    then obtain c where c: "curenv s = Some c" "env_status (envs s c) = ENV_RUNNING" by blast
    show thesis
      by (rule env_run_ok [OF ok kernel_okD(11) [OF ok c(1)] lk])
        (use None c run in \<open>auto simp: sched_yield_def kthen_def kbind_def\<close>)
  next
    case False
    then have "sched_yield s = sched_halt s"
      using None by (simp add: sched_yield_def kthen_def kbind_def split: option.splits)
    then show thesis
      using sched_halt_ok [OF ok lk] None halt monitor by metis
  qed
qed

lemma sched_yield_safe:
  assumes "kernel_ok kd ext s" and "holding (cpunum s) (kernel_lock s)"
  shows "safe_outcome kd ext (sched_yield s)"
  by (rule sched_yield_ok [OF assms]) (use assms kernel_ok_con in simp_all)

lemma env_destroy_safe:
  assumes ok: "kernel_ok kd ext s" and e: "e \<in> live s" and lk: "holding (cpunum s) (kernel_lock s)"
  shows "safe_outcome kd ext (env_destroy e s)"
proof (cases "env_status (envs s e) = ENV_RUNNING \<and> curenv s \<noteq> Some e")
  case True
  have "kernel_ok kd ext (upd_env e (\<lambda>v. v\<lparr>env_status := ENV_DYING\<rparr>) s)"
    using True by (intro kernel_ok_upd_env [OF ok]) auto
  with True lk show ?thesis by (simp add: env_destroy_def)
next
  case False
  obtain s' where s': "env_free e s = Ret () s'" "curenv s' = curenv s" "kernel_lock s' = kernel_lock s"
    "cpunum s' = cpunum s" "kernel_ok kd ext (if curenv s = Some e then set_curenv None s' else s')"
    by (rule env_free_kernel_ok [OF ok e])
  have "env_destroy e s = (if curenv s = Some e then sched_yield (set_curenv None s') else Ret () s')"
    using False s'(1,2) unfolding env_destroy_def by (auto simp: kthen_def kbind_def)
  moreover have "kernel_lock (set_curenv None s') = kernel_lock s" "cpunum (set_curenv None s') = cpunum s"
    using s'(3,4) by (simp_all add: set_curenv_def)
  ultimately show ?thesis
    using s'(3-5) lk sched_yield_safe [of kd ext "set_curenv None s'"] by (cases "curenv s = Some e") simp_all
qed

end
