(* ===== verification/Syscall.thy ===== *)
theory Syscall
  imports Sched
begin

text \<open>
  The system calls, \<^verbatim>\<open>kern/syscall.c\<close>, and the dispatcher \<open>syscall\<close>. Arguments are
  the 32-bit registers the dispatcher passes; results are \<^verbatim>\<open>int32_t\<close>, negative for an
  error. Memory of the calling environment is read and written through the loaded page
  directory, as the code does by dereferencing the user's pointer.
\<close>

section \<open>Definitions\<close>

subsection \<open>Access to user memory\<close>

definition hw_read :: "kstate \<Rightarrow> u32 \<Rightarrow> nat option" where
  "hw_read s va =
     (let pde = load32 (phys s) (unat (PTE_ADDR (cr3 s)) + 4 * unat (PDX va))
      in if pde AND PTE_P = 0 then None
         else let pte = load32 (phys s) (unat (PTE_ADDR pde) + 4 * unat (PTX va))
              in if pte AND PTE_P = 0 then None
                 else Some (unat (PTE_ADDR pte) + unat (PGOFF va)))"

definition vread :: "u32 \<Rightarrow> (kstate, u8) op" where
  "vread va s = (case hw_read s va of
     None \<Rightarrow> Panic ''page fault in kernel mode''
   | Some a \<Rightarrow> Ret (phys s a) s)"

definition vload32 :: "u32 \<Rightarrow> (kstate, u32) op" where
  "vload32 va = kbind (vread va) (\<lambda>b0. kbind (vread (va + 1)) (\<lambda>b1.
     kbind (vread (va + 2)) (\<lambda>b2. kbind (vread (va + 3)) (\<lambda>b3.
     kret (ucast b0 OR push_bit 8 (ucast b1) OR push_bit 16 (ucast b2) OR push_bit 24 (ucast b3))))))"

definition vload16 :: "u32 \<Rightarrow> (kstate, u16) op" where
  "vload16 va = kbind (vread va) (\<lambda>b0. kbind (vread (va + 1)) (\<lambda>b1.
     kret (ucast b0 OR push_bit 8 (ucast b1))))"

definition vstore32 :: "u32 \<Rightarrow> u32 \<Rightarrow> (kstate, unit) op" where
  "vstore32 va w = kthen (vwrite va (ucast w)) (kthen (vwrite (va + 1) (ucast (drop_bit 8 w)))
     (kthen (vwrite (va + 2) (ucast (drop_bit 16 w))) (vwrite (va + 3) (ucast (drop_bit 24 w)))))"

definition vstore16 :: "u32 \<Rightarrow> u16 \<Rightarrow> (kstate, unit) op" where
  "vstore16 va w = kthen (vwrite va (ucast w)) (vwrite (va + 1) (ucast (drop_bit 8 w)))"

definition vload_tf :: "u32 \<Rightarrow> (kstate, Trapframe) op" where
  "vload_tf p =
     kbind (vload32 p) (\<lambda>edi. kbind (vload32 (p + 4)) (\<lambda>esi. kbind (vload32 (p + 8)) (\<lambda>ebp.
     kbind (vload32 (p + 12)) (\<lambda>oesp. kbind (vload32 (p + 16)) (\<lambda>ebx. kbind (vload32 (p + 20)) (\<lambda>edx.
     kbind (vload32 (p + 24)) (\<lambda>ecx. kbind (vload32 (p + 28)) (\<lambda>eax.
     kbind (vload16 (p + 32)) (\<lambda>es. kbind (vload16 (p + 34)) (\<lambda>pd1. kbind (vload16 (p + 36)) (\<lambda>ds.
     kbind (vload16 (p + 38)) (\<lambda>pd2. kbind (vload32 (p + 40)) (\<lambda>trapno. kbind (vload32 (p + 44)) (\<lambda>err.
     kbind (vload32 (p + 48)) (\<lambda>eip. kbind (vload16 (p + 52)) (\<lambda>cs. kbind (vload16 (p + 54)) (\<lambda>pd3.
     kbind (vload32 (p + 56)) (\<lambda>eflags. kbind (vload32 (p + 60)) (\<lambda>esp. kbind (vload16 (p + 64)) (\<lambda>ss.
     kbind (vload16 (p + 66)) (\<lambda>pd4.
     kret \<lparr>tf_regs = \<lparr>reg_edi = edi, reg_esi = esi, reg_ebp = ebp, reg_oesp = oesp, reg_ebx = ebx,
        reg_edx = edx, reg_ecx = ecx, reg_eax = eax\<rparr>, tf_es = es, tf_padding1 = pd1, tf_ds = ds,
        tf_padding2 = pd2, tf_trapno = trapno, tf_err = err, tf_eip = eip, tf_cs = cs, tf_padding3 = pd3,
        tf_eflags = eflags, tf_esp = esp, tf_ss = ss, tf_padding4 = pd4\<rparr>)))))))))))))))))))))"

subsection \<open>Console\<close>

text \<open>The loop of \<^verbatim>\<open>cprintf("%.*s", len, s)\<close>: a byte is read before the remaining
  precision is tested, so one byte behind the string is read too.\<close>

fun print_loop :: "nat \<Rightarrow> u32 \<Rightarrow> (kstate, unit) op" where
  "print_loop 0 p = kbind (vread p) (\<lambda>ch. kret ())"
| "print_loop (Suc n) p = kbind (vread p) (\<lambda>ch.
     if ch = 0 then kret ()
     else kthen (kmod (\<lambda>s. s\<lparr>con := cputchar (scast ch) (con s)\<rparr>)) (print_loop n (p + 1)))"

definition curenv_get :: "(nat \<Rightarrow> (kstate, 'a) op) \<Rightarrow> (kstate, 'a) op" where
  "curenv_get k s = (case curenv s of None \<Rightarrow> Panic ''curenv is null'' | Some c \<Rightarrow> k c s)"

text \<open>A precision read as negative does not limit the string; the address space does.\<close>

definition sys_cputs :: "u32 \<Rightarrow> u32 \<Rightarrow> (kstate, unit) op" where
  "sys_cputs str len =
     curenv_get (\<lambda>c.
     kthen (user_mem_assert c str len 0)
       (if str = 0
        then kmod (\<lambda>s. s\<lparr>con := fold cputchar
               (take (if sint len < 0 then 6 else unat len) [40, 110, 117, 108, 108, 41]) (con s)\<rparr>)
        else print_loop (if sint len < 0 then 4294967296 else unat len) str))"

definition sys_cgetc :: "(kstate, int) op" where
  "sys_cgetc s = (case cons_getc (con s) of
     None \<Rightarrow> Panic ''cons_getc'' | Some (c, con') \<Rightarrow> Ret c (s\<lparr>con := con'\<rparr>))"

subsection \<open>Environments\<close>

definition sys_getenvid :: "(kstate, int) op" where
  "sys_getenvid = curenv_get (\<lambda>c. kget (\<lambda>s. sint (env_id (envs s c))))"

text \<open>\<^verbatim>\<open>if ((r = envid2env(envid, &e, checkperm)) < 0) return r;\<close> and then the rest with
  \<^verbatim>\<open>e\<close>.\<close>

definition with_env :: "u32 \<Rightarrow> bool \<Rightarrow> (nat \<Rightarrow> (kstate, int) op) \<Rightarrow> (kstate, int) op" where
  "with_env envid checkperm k =
     kbind (envid2env envid checkperm) (\<lambda>(r, e).
     if r < 0 then kret r
     else case e of None \<Rightarrow> kpanic ''null environment'' | Some e \<Rightarrow> k e)"

definition sys_env_destroy :: "u32 \<Rightarrow> (kstate, int) op" where
  "sys_env_destroy envid = with_env envid True (\<lambda>e. kthen (env_destroy e) (kret 0))"

definition sys_yield :: "(kstate, unit) op" where
  "sys_yield = sched_yield"

definition sys_exofork :: "(kstate, int) op" where
  "sys_exofork =
     curenv_get (\<lambda>c.
     kbind (kget (\<lambda>s. env_id (envs s c))) (\<lambda>cid.
     kbind (env_alloc cid) (\<lambda>(r, ne).
     if r < 0 then kret r
     else case ne of
       None \<Rightarrow> kpanic ''null environment''
     | Some e \<Rightarrow>
         kthen (kmod (\<lambda>s. upd_env e (\<lambda>v. v\<lparr>env_status := ENV_NOT_RUNNABLE,
            env_tf := (env_tf (envs s c))\<lparr>tf_regs := (tf_regs (env_tf (envs s c)))\<lparr>reg_eax := 0\<rparr>\<rparr>\<rparr>) s))
         (kget (\<lambda>s. sint (env_id (envs s e)))))))"

definition sys_env_set_status :: "u32 \<Rightarrow> u32 \<Rightarrow> (kstate, int) op" where
  "sys_env_set_status envid status =
     (if status \<noteq> 4 \<and> status \<noteq> 2 then kret (- E_INVAL)
      else with_env envid True (\<lambda>e.
        kthen (kmod (upd_env e (\<lambda>v. v\<lparr>env_status := (if status = 2 then ENV_RUNNABLE else ENV_NOT_RUNNABLE)\<rparr>)))
        (kret 0)))"

text \<open>The pointer is checked in the address space of \<^verbatim>\<open>e\<close> and dereferenced in the loaded
  one; \<^verbatim>\<open>*tf\<close> itself is updated before it is copied.\<close>

definition sys_env_set_trapframe :: "u32 \<Rightarrow> u32 \<Rightarrow> (kstate, int) op" where
  "sys_env_set_trapframe envid tf =
     kbind (envid2env envid True) (\<lambda>(r, e).
     if r < 0 then kret (- E_BAD_ENV)
     else case e of
       None \<Rightarrow> kpanic ''null environment''
     | Some e \<Rightarrow>
         kthen (user_mem_assert e tf 68 (PTE_U OR PTE_P))
         (kbind (vload32 (tf + 56)) (\<lambda>fl.
          kthen (vstore32 (tf + 56) (fl OR FL_IF))
         (kbind (vload32 (tf + 56)) (\<lambda>fl.
          kthen (vstore32 (tf + 56) (fl AND NOT FL_IOPL_MASK))
         (kbind (vload16 (tf + 52)) (\<lambda>cs.
          kthen (vstore16 (tf + 52) (cs OR 3))
         (kbind (vload_tf tf) (\<lambda>v.
          kthen (kmod (upd_env e (\<lambda>x. x\<lparr>env_tf := v\<rparr>)))
         (kret 0))))))))))"

definition sys_env_set_pgfault_upcall :: "u32 \<Rightarrow> u32 \<Rightarrow> (kstate, int) op" where
  "sys_env_set_pgfault_upcall envid func =
     with_env envid True (\<lambda>e. kthen (kmod (upd_env e (\<lambda>v. v\<lparr>env_pgfault_upcall := func\<rparr>))) (kret 0))"

subsection \<open>Memory\<close>

definition bad_va :: "u32 \<Rightarrow> bool" where
  "bad_va va \<longleftrightarrow> va \<ge> UTOP \<or> va mod PGSIZE \<noteq> 0"

definition bad_perm :: "u32 \<Rightarrow> bool" where
  "bad_perm perm \<longleftrightarrow> perm AND NOT PTE_SYSCALL \<noteq> 0 \<or> perm AND (PTE_U OR PTE_P) = 0"

definition sys_page_alloc :: "u32 \<Rightarrow> u32 \<Rightarrow> u32 \<Rightarrow> (kstate, int) op" where
  "sys_page_alloc envid va perm =
     (if bad_va va then kret (- E_INVAL)
      else if bad_perm perm then kret (- E_INVAL)
      else with_env envid True (\<lambda>e.
        kbind (page_alloc ALLOC_ZERO) (\<lambda>r. case r of
          None \<Rightarrow> kret (- E_NO_MEM)
        | Some pg \<Rightarrow>
            kbind (kget (\<lambda>s. env_pgdir (envs s e))) (\<lambda>pgdir.
            kbind (page_insert pgdir pg va perm) (\<lambda>ret.
            if ret < 0 then kthen (page_free pg) (kret ret) else kret 0)))))"

definition sys_page_map :: "u32 \<Rightarrow> u32 \<Rightarrow> u32 \<Rightarrow> u32 \<Rightarrow> u32 \<Rightarrow> (kstate, int) op" where
  "sys_page_map srcenvid srcva dstenvid dstva perm =
     (if bad_va srcva \<or> bad_va dstva then kret (- E_INVAL)
      else if bad_perm perm then kret (- E_INVAL)
      else with_env srcenvid True (\<lambda>srce.
           with_env dstenvid True (\<lambda>dste.
           kbind (kget (\<lambda>s. env_pgdir (envs s srce))) (\<lambda>srcdir.
           kbind (page_lookup srcdir srcva) (\<lambda>r. case r of
             None \<Rightarrow> kret (- E_INVAL)
           | Some (pg, pte) \<Rightarrow>
               kbind (kget (kld pte)) (\<lambda>entry.
               if entry AND PTE_W = 0 \<and> perm AND PTE_W \<noteq> 0 then kret (- E_INVAL)
               else kbind (kget (\<lambda>s. env_pgdir (envs s dste))) (\<lambda>dstdir.
                    kbind (page_insert dstdir pg dstva perm) (\<lambda>ret.
                    if ret < 0 then kret ret else kret 0))))))))"

definition sys_page_unmap :: "u32 \<Rightarrow> u32 \<Rightarrow> (kstate, int) op" where
  "sys_page_unmap envid va =
     (if bad_va va then kret (- E_INVAL)
      else with_env envid True (\<lambda>e.
        kbind (kget (\<lambda>s. env_pgdir (envs s e))) (\<lambda>pgdir.
        kthen (page_remove pgdir va) (kret 0))))"

subsection \<open>Messages\<close>

definition ipc_deliver :: "nat \<Rightarrow> nat \<Rightarrow> u32 \<Rightarrow> kstate \<Rightarrow> kstate" where
  "ipc_deliver dst c val s =
     upd_env dst (\<lambda>v. v\<lparr>env_ipc_from := env_id (envs s c), env_ipc_value := val,
        env_ipc_recving := False, env_status := ENV_RUNNABLE,
        env_tf := (env_tf v)\<lparr>tf_regs := (tf_regs (env_tf v))\<lparr>reg_eax := 0\<rparr>\<rparr>\<rparr>) s"

definition sys_ipc_try_send :: "u32 \<Rightarrow> u32 \<Rightarrow> u32 \<Rightarrow> u32 \<Rightarrow> (kstate, int) op" where
  "sys_ipc_try_send envid val srcva perm =
     with_env envid False (\<lambda>dst.
     kbind (kget (\<lambda>s. env_ipc_recving (envs s dst))) (\<lambda>recving.
     if \<not> recving then kret (- E_IPC_NOT_RECV)
     else curenv_get (\<lambda>c.
       if srcva < UTOP
       then if srcva mod PGSIZE \<noteq> 0 then kret (- E_INVAL)
            else if bad_perm perm then kret (- E_INVAL)
            else kbind (kget (\<lambda>s. env_pgdir (envs s c))) (\<lambda>srcdir.
                 kbind (page_lookup srcdir srcva) (\<lambda>r. case r of
                   None \<Rightarrow> kret (- E_INVAL)
                 | Some (pg, pte) \<Rightarrow>
                     kbind (kget (kld pte)) (\<lambda>entry.
                     if perm AND PTE_W \<noteq> 0 \<and> entry AND PTE_W = 0 then kret (- E_INVAL)
                     else kbind (kget (\<lambda>s. env_pgdir (envs s dst))) (\<lambda>dstdir.
                          kbind (kget (\<lambda>s. env_ipc_dstva (envs s dst))) (\<lambda>dstva.
                          kbind (page_insert dstdir pg dstva perm) (\<lambda>ret.
                          if ret < 0 then kret ret
                          else kthen (kmod (upd_env dst (\<lambda>v. v\<lparr>env_ipc_perm := perm\<rparr>)))
                               (kthen (kmod (ipc_deliver dst c val)) (kret 0))))))))
       else kthen (kmod (ipc_deliver dst c val)) (kret 0))))"

definition sys_ipc_recv :: "u32 \<Rightarrow> (kstate, int) op" where
  "sys_ipc_recv dstva =
     (if dstva < UTOP \<and> dstva mod PGSIZE \<noteq> 0 then kret (- E_INVAL)
      else curenv_get (\<lambda>c.
        kthen (kmod (upd_env c (\<lambda>v. v\<lparr>env_ipc_recving := True, env_ipc_dstva := dstva,
                       env_status := ENV_NOT_RUNNABLE\<rparr>)))
        (kthen sys_yield (kret 0))))"

subsection \<open>Dispatch\<close>

abbreviation (input) "SYS_cputs \<equiv> 0 :: u32"
abbreviation (input) "SYS_cgetc \<equiv> 1 :: u32"
abbreviation (input) "SYS_getenvid \<equiv> 2 :: u32"
abbreviation (input) "SYS_env_destroy \<equiv> 3 :: u32"
abbreviation (input) "SYS_page_alloc \<equiv> 4 :: u32"
abbreviation (input) "SYS_page_map \<equiv> 5 :: u32"
abbreviation (input) "SYS_page_unmap \<equiv> 6 :: u32"
abbreviation (input) "SYS_exofork \<equiv> 7 :: u32"
abbreviation (input) "SYS_env_set_status \<equiv> 8 :: u32"
abbreviation (input) "SYS_env_set_trapframe \<equiv> 9 :: u32"
abbreviation (input) "SYS_env_set_pgfault_upcall \<equiv> 10 :: u32"
abbreviation (input) "SYS_yield \<equiv> 11 :: u32"
abbreviation (input) "SYS_ipc_try_send \<equiv> 12 :: u32"
abbreviation (input) "SYS_ipc_recv \<equiv> 13 :: u32"
abbreviation (input) "NSYSCALLS \<equiv> 14 :: u32"

definition syscall :: "u32 \<Rightarrow> u32 \<Rightarrow> u32 \<Rightarrow> u32 \<Rightarrow> u32 \<Rightarrow> u32 \<Rightarrow> (kstate, int) op" where
  "syscall syscallno a1 a2 a3 a4 a5 =
     (if syscallno = SYS_cputs then kthen (sys_cputs a1 a2) (kret 0)
      else if syscallno = SYS_cgetc then sys_cgetc
      else if syscallno = SYS_env_destroy then sys_env_destroy a1
      else if syscallno = NSYSCALLS then kret 0
      else if syscallno = SYS_getenvid then sys_getenvid
      else if syscallno = SYS_yield then kthen sys_yield (kret 0)
      else if syscallno = SYS_exofork then sys_exofork
      else if syscallno = SYS_env_set_status then sys_env_set_status a1 a2
      else if syscallno = SYS_page_alloc then sys_page_alloc a1 a2 a3
      else if syscallno = SYS_page_map then sys_page_map a1 a2 a3 a4 a5
      else if syscallno = SYS_page_unmap then sys_page_unmap a1 a2
      else if syscallno = SYS_env_set_pgfault_upcall then sys_env_set_pgfault_upcall a1 a2
      else if syscallno = SYS_ipc_try_send then sys_ipc_try_send a1 a2 a3 a4
      else if syscallno = SYS_ipc_recv then sys_ipc_recv a1
      else if syscallno = SYS_env_set_trapframe then sys_env_set_trapframe a1 a2
      else kret (- E_INVAL))"

end
