(* ===== verification/Syscall_Safe.thy ===== *)
theory Syscall_Safe
  imports Syscall User_Mem
begin

text \<open>
  The system calls on a kernel state that satisfies the invariant: what each one does to the
  address spaces and the environment table, and that the invariant holds again afterwards.
  \<open>in_syscall kd ext c s\<close> is the situation in which \<^verbatim>\<open>trap\<close> calls
  \<^verbatim>\<open>syscall\<close>: environment \<open>c\<close> is current and the processor holds the kernel lock.
\<close>

definition in_syscall :: "nat \<Rightarrow> (nat \<Rightarrow> nat) \<Rightarrow> nat \<Rightarrow> kstate \<Rightarrow> bool" where
  "in_syscall kd ext c s \<longleftrightarrow> kernel_ok kd ext s \<and> curenv s = Some c \<and> holding (cpunum s) (kernel_lock s)"

lemma in_syscallD:
  assumes "in_syscall kd ext c s"
  shows "kernel_ok kd ext s" and "curenv s = Some c" and "holding (cpunum s) (kernel_lock s)" and "c \<in> live s"
  using assms kernel_okD(11) by (auto simp: in_syscall_def)

section \<open>Looking up an environment\<close>

definition may_touch :: "nat \<Rightarrow> nat \<Rightarrow> kstate \<Rightarrow> bool" where
  "may_touch c e s \<longleftrightarrow> e = c \<or> env_parent_id (envs s e) = env_id (envs s c)"

definition names :: "u32 \<Rightarrow> nat \<Rightarrow> kstate \<Rightarrow> nat option" where
  "names envid c s = (if envid = 0 then Some c
     else if ENVX envid \<in> live s \<and> env_id (envs s (ENVX envid)) = envid then Some (ENVX envid) else None)"

lemma envid2env_names:
  assumes "in_syscall kd ext c s"
  shows "envid2env envid cp s =
    (case names envid c s of
       None \<Rightarrow> Ret (- E_BAD_ENV, None) s
     | Some e \<Rightarrow> if cp \<and> \<not> may_touch c e s then Ret (- E_BAD_ENV, None) s else Ret (0, Some e) s)"
  using in_syscallD [OF assms] ENVX_lt [of envid]
  by (auto simp: envid2env_def names_def may_touch_def live_def Let_def)

lemma names_live: "in_syscall kd ext c s \<Longrightarrow> names envid c s = Some e \<Longrightarrow> e \<in> live s"
  using in_syscallD(4) by (auto simp: names_def split: if_splits)

lemma with_env_cases:
  assumes "in_syscall kd ext c s"
  obtains (bad) "with_env envid cp k s = Ret (- E_BAD_ENV) s"
      and "\<And>e. names envid c s = Some e \<Longrightarrow> cp \<and> \<not> may_touch c e s"
  | (found) e where "names envid c s = Some e" and "e \<in> live s" and "cp \<Longrightarrow> may_touch c e s"
      and "with_env envid cp k s = k e s"
proof (cases "names envid c s")
  case None
  then show thesis
    using envid2env_names [OF assms, of envid cp] by (intro bad) (simp_all add: with_env_def)
next
  case (Some e)
  show thesis
  proof (cases "cp \<and> \<not> may_touch c e s")
    case True
    then show thesis
      using Some envid2env_names [OF assms, of envid cp] by (intro bad) (simp_all add: with_env_def)
  next
    case False
    then show thesis
      using Some envid2env_names [OF assms, of envid cp] names_live [OF assms Some]
      by (intro found) (auto simp: with_env_def)
  qed
qed

section \<open>Allocation of a page for a user\<close>

lemma slot_after_alloc_other:
  assumes "np < 65536" and "j < 1024" and "g \<noteq> np"
  shows "slot (after_alloc fl np s) g j = slot s g j"
proof (cases "fl AND 1 = 0")
  case True
  then show ?thesis by (simp add: after_alloc_def Let_def slot_def)
next
  case False
  have pa: "unat (kv np - KERNBASE) = 4096 * np"
    using assms(1) by (simp add: unat_page2pa)
  have "4096 * g + 4 * j + 4 \<le> 4096 * np \<or> 4096 * np + 4096 \<le> 4096 * g + 4 * j"
    using assms by (cases g np rule: linorder_cases) auto
  then show ?thesis
    using False pa by (auto simp: after_alloc_def Let_def slot_def load32_mem_fill_other)
qed

lemma vm_ok_after_alloc:
  assumes ok: "vm_ok s D ext" and al: "page_alloc fl s = Ret (Some pg) s1"
  shows "vm_ok s1 D ext" and "mappable s1 D pg" and "vm_frame s s1" and "free_pages s1 = free_pages s - {pg}"
    and "pg \<in> free_pages s" and "d \<in> D \<Longrightarrow> unat (PDX va) < UPDES \<Longrightarrow> vmap s1 d va = vmap s d va"
    and "data_page s1 D q \<longleftrightarrow> q = pg \<or> data_page s D q" and "q \<noteq> pg \<Longrightarrow> k < 1024 \<Longrightarrow> slot s1 q k = slot s q k"
    and "fl AND 1 \<noteq> 0 \<Longrightarrow> k < 1024 \<Longrightarrow> slot s1 pg k = 0" and "pdes_open s1 D = pdes_open s D"
proof -
  note okD = vm_okD [OF ok]
  have a: "pages_ok s1" "pg \<in> free_pages s" "free_pages s1 = free_pages s - {pg}" "s1 = after_alloc fl pg s"
    using page_alloc_ok [OF okD(1) al] by auto
  note pn = free_not_used [OF ok a(2)]
  have pg: "pg < unat (npages s)" "pg < 65536" "pp_ref (pages s pg) = 0"
    using free_pages_bound [OF okD(1) a(2)] okD(3) free_pages_ref [OF okD(1) a(2)] by auto
  have dsl: "slot s1 d i = slot s d i" if "d \<in> D" "i < 955" for d i
    using slot_after_alloc_other [OF pg(2), of i d fl s] that pn(1) a(4) by auto
  have tsl: "slot s1 (tfr s t) j = slot s (tfr s t) j" if "t \<in> tables s D" "j < 1024" for t j
    using slot_after_alloc_other [OF pg(2) that(2), of "tfr s t" fl s] that pn(2) a(4) by auto
  show ok1: "vm_ok s1 D ext"
    by (rule vm_ok_cong [OF ok]) (use dsl tsl a okD(8) in auto)
  have view: "tables s1 D = tables s D" "\<And>t. t \<in> tables s D \<Longrightarrow> tfr s1 t = tfr s t"
    using view_cong(1,2) [of D s1 s] dsl tsl by auto
  show "mappable s1 D pg"
    using pg pn view a by (auto simp: mappable_def)
  show "vm_frame s s1" "free_pages s1 = free_pages s - {pg}" "pg \<in> free_pages s"
    using a by simp_all
  show "pdes_open s1 D = pdes_open s D" using dsl by (rule pdes_open_cong)
  have "tfr s1 ` tables s1 D = tfr s ` tables s D" using view by auto
  then show "data_page s1 D q \<longleftrightarrow> q = pg \<or> data_page s D q"
    using a(2,3) pn(1,2) by (auto simp: data_page_def)
  show "slot s1 q k = slot s q k" if "q \<noteq> pg" "k < 1024"
    using slot_after_alloc_other [OF pg(2) that(2,1)] a(4) by simp
  show "slot s1 pg k = 0" if "fl AND 1 \<noteq> 0" "k < 1024"
  proof -
    have "phys s1 = phys (after_alloc 1 pg s)" using a(4) that(1) by (simp add: after_alloc_def Let_def)
    then show ?thesis using slot_after_alloc_zero [OF pg(2) that(2), of s pg] by (simp add: slot_def)
  qed
  show "vmap s1 d va = vmap s d va" if "d \<in> D" "unat (PDX va) < UPDES"
    using dsl [OF that] tsl [of "loc d va" "unat (PTX va)"] that
    by (auto simp: vmap_pte tables_def tfr_def)
qed

lemma vm_ok_after_free:
  assumes ok: "vm_ok s D ext" and fr: "freeable pg s"
  shows "vm_ok (after_free pg s) D ext" and "vm_frame s (after_free pg s)" and "vmap (after_free pg s) d va = vmap s d va"
    and "free_pages (after_free pg s) = insert pg (free_pages s)" and "page_free pg s = Ret () (after_free pg s)"
proof -
  note f = page_free_ok [OF vm_okD(1) [OF ok] fr]
  show "vm_ok (after_free pg s) D ext"
    by (rule vm_ok_cong [OF ok]) (use f vm_okD(8) [OF ok] in \<open>auto simp: slot_def\<close>)
  show "free_pages (after_free pg s) = insert pg (free_pages s)" "page_free pg s = Ret () (after_free pg s)"
    using f by simp_all
  show "vmap (after_free pg s) d va = vmap s d va"
    by (rule vmap_phys) simp
qed simp

lemma bad_perm_low: "\<not> bad_perm perm \<Longrightarrow> perm AND NOT 0xFFF = 0"
proof -
  assume "\<not> bad_perm perm"
  then have "perm AND NOT 0xE07 = 0" by (simp add: bad_perm_def)
  then have "(perm AND NOT 0xE07) AND NOT 0xFFF = 0" by simp
  then show ?thesis by (simp add: and.assoc)
qed

lemma good_va_PDX: "\<not> bad_va va \<Longrightarrow> unat (PDX va) < UPDES"
  by (rule user_va_below) (simp add: bad_va_def word_le_nat_alt not_le)


section \<open>The memory calls\<close>

text \<open>Nobody's address space changed.\<close>

definition same_spaces :: "kstate \<Rightarrow> kstate \<Rightarrow> bool" where
  "same_spaces s s' \<longleftrightarrow> envs s' = envs s \<and>
     (\<forall>i\<in>live s. \<forall>va. unat (PDX va) < UPDES \<longrightarrow> vmap s' (dir_of s i) va = vmap s (dir_of s i) va)"

text \<open>Environment \<open>e\<close> now maps the page of \<open>va\<close> to \<open>m\<close>; everything else is as before.\<close>

definition space_upd :: "kstate \<Rightarrow> kstate \<Rightarrow> nat \<Rightarrow> u32 \<Rightarrow> (nat \<times> u32) option \<Rightarrow> bool" where
  "space_upd s s' e va m \<longleftrightarrow> envs s' = envs s \<and>
     (\<forall>i\<in>live s. \<forall>va'. unat (PDX va') < UPDES \<longrightarrow>
        vmap s' (dir_of s i) va' = (if i = e \<and> PGNUM va' = PGNUM va then m else vmap s (dir_of s i) va'))"

lemma same_spaces_refl [simp]: "same_spaces s s"
  by (simp add: same_spaces_def)

lemma dir_of_eq: "kernel_ok kd ext s \<Longrightarrow> i \<in> live s \<Longrightarrow> e \<in> live s \<Longrightarrow> dir_of s i = dir_of s e \<longleftrightarrow> i = e"
  using inj_onD [OF kernel_okD(2)] by blast

lemma space_updI:
  assumes "kernel_ok kd ext s" and "e \<in> live s" and "vm_frame s s'"
    and "\<And>d' va'. d' \<in> dirs s \<Longrightarrow> unat (PDX va') < UPDES \<Longrightarrow> vmap s' d' va' =
        (if d' = dir_of s e \<and> PGNUM va' = PGNUM va then m else vmap s d' va')"
  shows "space_upd s s' e va m"
  using assms dir_of_eq [OF assms(1) _ assms(2)] kernel_okD(12) [OF assms(1)]
  by (auto simp: space_upd_def vm_frame_def)

lemma sys_page_alloc_ok:
  assumes sys: "in_syscall kd ext c s" and va: "\<not> bad_va va" and perm: "\<not> bad_perm perm"
    and e: "names envid c s = Some e" "may_touch c e s"
  obtains (mapped) pg s' where "sys_page_alloc envid va perm s = Ret 0 s'" and "kernel_ok kd ext s'" and "pg \<in> free_pages s"
      and "space_upd s s' e va (Some (pg, perm OR PTE_P))" and "vm_frame s s'"
      and "data_kept s s' (dirs s)" and "\<And>k. k < 1024 \<Longrightarrow> slot s' pg k = 0"
      and "slot s' (dir_of s e) (unat (PDX va)) AND perm = perm"
  | (no_mem) s' where "sys_page_alloc envid va perm s = Ret (- E_NO_MEM) s'" and "kernel_ok kd ext s'"
      and "same_spaces s s'" and "free_pages s' = free_pages s" and "vm_frame s s'" and "data_kept s s' (dirs s)"
      and "\<exists>p. free_pages s \<subseteq> {p}"
proof -
  note D = in_syscallD [OF sys]
  note ok = kernel_okD [OF D(1)]
  have el: "e \<in> live s" using names_live [OF sys e(1)] .
  have we: "with_env envid True k s = k e s" for k
    using envid2env_names [OF sys, of envid True] e by (simp add: with_env_def)
  show thesis
  proof (rule page_alloc_cases [OF vm_okD(1) [OF ok(1)], of 1])
    assume "page_alloc 1 s = Ret None s" "free_pages s = {}"
    then show thesis
      using va perm D(1) by (intro no_mem [of s]) (simp_all add: sys_page_alloc_def we)
  next
    fix pg assume pg: "pg \<in> free_pages s" and al: "page_alloc 1 s = Ret (Some pg) (after_alloc 1 pg s)"
    let ?s1 = "after_alloc 1 pg s"
    note A = vm_ok_after_alloc [OF ok(1) al]
    note K = kernel_ok_vm [OF D(1) A(3,1)]
    have pgd: "env_pgdir (envs ?s1 e) = kv (dir_of s e)" and di: "dir_of s e \<in> dirs s"
      using ok(3,12) el by auto
    have run: "sys_page_alloc envid va perm s = kbind (page_insert (kv (dir_of s e)) pg va perm) (\<lambda>ret.
        if ret < 0 then kthen (page_free pg) (kret ret) else kret 0) ?s1"
      using va perm al pgd by (simp add: sys_page_alloc_def we)
    show thesis
    proof (rule page_insert_cases [OF A(1) di good_va_PDX [OF va] A(2) bad_perm_low [OF perm]])
      assume none: "page_insert (kv (dir_of s e)) pg va perm ?s1 = Ret (- E_NO_MEM) ?s1" and fe: "free_pages ?s1 = {}"
      have fr: "freeable pg ?s1"
        using A(4,5) free_pages_bound [OF vm_okD(1) [OF ok(1)] pg] free_pages_ref [OF vm_okD(1) [OF ok(1)] pg]
        by (simp add: freeable_def)
      note F = vm_ok_after_free [OF A(1) fr]
      have vf: "vm_frame s (after_free pg ?s1)"
        using vm_frame_trans [OF A(3) F(2)] .
      have "same_spaces s (after_free pg ?s1)"
        using F(3) A(6) ok(12) vf by (simp add: same_spaces_def vm_frame_def)
      moreover have "free_pages (after_free pg ?s1) = free_pages s"
        using F(4) A(4,5) by auto
      moreover have fs: "slot (after_free pg ?s1) q k = slot ?s1 q k" for q k
        by (simp add: slot_def)
      then have "data_kept s (after_free pg ?s1) (dirs s)"
        using A(5,10) A(8) pdes_open_cong [OF fs, of "dirs s"] unfolding data_kept_def data_page_def by metis
      moreover have "free_pages s \<subseteq> {pg}" using fe A(4) by auto
      ultimately show thesis
        using none run F(5) kernel_ok_vm(1) [OF D(1) vf F(1)] vf by (intro no_mem) (auto simp: kthen_def)
    next
      fix s' assume s': "page_insert (kv (dir_of s e)) pg va perm ?s1 = Ret 0 s'" "vm_ok s' (dirs s) ext" "vm_frame ?s1 s'"
        "\<And>d' va'. d' \<in> dirs s \<Longrightarrow> unat (PDX va') < UPDES \<Longrightarrow> vmap s' d' va' =
          (if d' = dir_of s e \<and> PGNUM va' = PGNUM va then Some (pg, perm OR PTE_P) else vmap ?s1 d' va')"
        "data_kept ?s1 s' (dirs s)" "slot s' (dir_of s e) (unat (PDX va)) AND perm = perm"
      have "slot s' q k = slot s q k" if "data_page s (dirs s) q" "k < 1024" for q k
      proof -
        have "q \<noteq> pg" using that(1) A(5) by (auto simp: data_page_def)
        then show ?thesis using data_keptD [OF s'(5)] A(7) A(8) [of q k] that by simp
      qed
      then have kept: "data_kept s s' (dirs s)" "\<And>k. k < 1024 \<Longrightarrow> slot s' pg k = 0"
        using data_keptD [OF s'(5)] data_kept_open [OF s'(5)] A(7,9,10) by (simp_all add: data_kept_def)
      have vf: "vm_frame s s'" using vm_frame_trans [OF A(3) s'(3)] .
      have "space_upd s s' e va (Some (pg, perm OR PTE_P))"
        using s'(4) A(6) by (intro space_updI [OF D(1) el vf]) auto
      then show thesis
        using s'(1,6) run pg kernel_ok_vm(1) [OF D(1) vf s'(2)] vf kept by (intro mapped) simp_all
    qed
  qed
qed

lemma sys_page_unmap_ok:
  assumes sys: "in_syscall kd ext c s" and va: "\<not> bad_va va" and e: "names envid c s = Some e" "may_touch c e s"
  obtains s' where "sys_page_unmap envid va s = Ret 0 s'" and "kernel_ok kd ext s'"
    and "space_upd s s' e va None" and "vm_frame s s'" and "data_kept s s' (dirs s)"
proof -
  note D = in_syscallD [OF sys]
  note ok = kernel_okD [OF D(1)]
  have el: "e \<in> live s" using names_live [OF sys e(1)] .
  have we: "with_env envid True k s = k e s" for k
    using envid2env_names [OF sys, of envid True] e by (simp add: with_env_def)
  obtain s' where s': "page_remove (kv (dir_of s e)) va s = Ret () s'" "vm_ok s' (dirs s) ext" "vm_frame s s'"
      "\<And>d' va'. d' \<in> dirs s \<Longrightarrow> unat (PDX va') < UPDES \<Longrightarrow> vmap s' d' va' =
        (if d' = dir_of s e \<and> PGNUM va' = PGNUM va then None else vmap s d' va')" "data_kept s s' (dirs s)"
    by (rule page_remove_ok [OF ok(1) ok(12) [OF el] good_va_PDX [OF va]]) (rule that, assumption+)
  have "sys_page_unmap envid va s = Ret 0 s'"
    using va s'(1) ok(3) [OF el] by (simp add: sys_page_unmap_def we kthen_def)
  then show thesis
    using kernel_ok_vm(1) [OF D(1) s'(3,2)] space_updI [OF D(1) el s'(3,4)] s'(3,5) by (intro that) auto
qed

lemma sys_page_map_ok:
  assumes sys: "in_syscall kd ext c s" and va: "\<not> bad_va srcva" "\<not> bad_va dstva" and perm: "\<not> bad_perm perm"
    and src: "names srcenvid c s = Some se" "may_touch c se s" and dst: "names dstenvid c s = Some de" "may_touch c de s"
    and room: "\<And>p pm. vmap s (dir_of s se) srcva = Some (p, pm) \<Longrightarrow> unat (pp_ref (pages s p)) < 65535"
  obtains (invalid) "sys_page_map srcenvid srcva dstenvid dstva perm s = Ret (- E_INVAL) s"
      and "case vmap s (dir_of s se) srcva of None \<Rightarrow> True | Some (pg, pm) \<Rightarrow> pm AND PTE_W = 0 \<and> perm AND PTE_W \<noteq> 0"
  | (no_mem) "sys_page_map srcenvid srcva dstenvid dstva perm s = Ret (- E_NO_MEM) s" and "free_pages s = {}"
      and "\<not> present (slot s (dir_of s de) (unat (PDX dstva)))"
  | (mapped) pg pm s' where "sys_page_map srcenvid srcva dstenvid dstva perm s = Ret 0 s'" and "kernel_ok kd ext s'"
      and "vmap s (dir_of s se) srcva = Some (pg, pm)" and "perm AND PTE_W \<noteq> 0 \<Longrightarrow> pm AND PTE_W \<noteq> 0"
      and "space_upd s s' de dstva (Some (pg, perm OR PTE_P))" and "vm_frame s s'" and "data_kept s s' (dirs s)"
      and "slot s' (dir_of s de) (unat (PDX dstva)) AND perm = perm"
proof -
  note D = in_syscallD [OF sys]
  note ok = kernel_okD [OF D(1)]
  have sl: "se \<in> live s" and dl: "de \<in> live s"
    using names_live [OF sys src(1)] names_live [OF sys dst(1)] by auto
  let ?sd = "dir_of s se" and ?dd = "dir_of s de"
  have ws: "with_env srcenvid True k s = k se s" and wd: "with_env dstenvid True k s = k de s" for k
    using envid2env_names [OF sys] src dst by (simp_all add: with_env_def)
  let ?look = "map_option (\<lambda>(pp, perm). (pp, kv (tfr s (loc ?sd srcva)) + 4 * PTX srcva)) (vmap s ?sd srcva)"
  have look: "page_lookup (kv ?sd) srcva s = Ret ?look s"
    by (rule page_lookup_vmap [OF ok(1) ok(12) [OF sl] good_va_PDX [OF va(1)]])
  show thesis
  proof (cases "vmap s ?sd srcva")
    case None
    then show thesis
      using va perm look ok(3) [OF sl] by (intro invalid) (simp_all add: sys_page_map_def ws wd)
  next
    case (Some x)
    then obtain pg pm where v: "vmap s ?sd srcva = Some (pg, pm)" by (cases x) auto
    have m: "(loc ?sd srcva, unat (PTX srcva)) \<in> maps s (dirs s)" and pgm: "mfr s (loc ?sd srcva, unat (PTX srcva)) = pg"
      using vmap_maps [OF ok(1) ok(12) [OF sl] good_va_PDX [OF va(1)]] v by auto
    then have t: "loc ?sd srcva \<in> tables s (dirs s)" by (simp add: maps_def)
    let ?pte = "slot s (tfr s (loc ?sd srcva)) (unat (PTX srcva))"
    have ld: "kld (kv (tfr s (loc ?sd srcva)) + 4 * PTX srcva) s = ?pte"
      using tfr_lt [OF ok(1) t] by (simp add: kld_entry)
    have pm: "pm = ?pte AND 0xFFF"
      using v by (auto simp: vmap_def Let_def tfr_def split: if_splits)
    have w: "pm AND PTE_W = ?pte AND PTE_W"
      by (simp add: pm and.assoc)
    have run: "sys_page_map srcenvid srcva dstenvid dstva perm s =
       (if pm AND PTE_W = 0 \<and> perm AND PTE_W \<noteq> 0 then Ret (- E_INVAL) s
        else kbind (page_insert (kv ?dd) pg dstva perm) (\<lambda>ret. if ret < 0 then kret ret else kret 0) s)"
      using va perm look v ok(3) [OF sl] ok(3) [OF dl] ld w by (simp add: sys_page_map_def ws wd)
    show thesis
    proof (cases "pm AND PTE_W = 0 \<and> perm AND PTE_W \<noteq> 0")
      case True
      then show thesis using run v by (intro invalid) simp_all
    next
      case False
      have mp: "mappable s (dirs s) pg"
        using vm_okD(7) [OF ok(1) m] used_not_free(3) [OF ok(1) m] pgm room [OF v] by (auto simp: mappable_def)
      show thesis
      proof (rule page_insert_cases [OF ok(1) ok(12) [OF dl] good_va_PDX [OF va(2)] mp bad_perm_low [OF perm]])
        assume "page_insert (kv ?dd) pg dstva perm s = Ret (- E_NO_MEM) s" "free_pages s = {}"
          "\<not> present (slot s ?dd (unat (PDX dstva)))"
        then show thesis using run False by (intro no_mem) simp_all
      next
        fix s' assume s': "page_insert (kv ?dd) pg dstva perm s = Ret 0 s'" "vm_ok s' (dirs s) ext" "vm_frame s s'"
          "\<And>d' va'. d' \<in> dirs s \<Longrightarrow> unat (PDX va') < UPDES \<Longrightarrow> vmap s' d' va' =
            (if d' = ?dd \<and> PGNUM va' = PGNUM dstva then Some (pg, perm OR PTE_P) else vmap s d' va')"
          "data_kept s s' (dirs s)" "slot s' ?dd (unat (PDX dstva)) AND perm = perm"
        then show thesis
          using run False v kernel_ok_vm(1) [OF D(1) s'(3,2)] space_updI [OF D(1) dl s'(3,4)]
          by (intro mapped) auto
      qed
    qed
  qed
qed

end
