(* ===== verification/Syscall_Inv.thy ===== *)
theory Syscall_Inv
  imports Syscall_Safe
begin

text \<open>
  Every system call keeps the kernel invariant: the remaining calls (environments, messages),
  and the dispatcher. Two calls are left out of the final statement because they dereference
  user memory without a sufficient check (\<open>sys_cputs\<close> reads one byte too many,
  \<open>sys_env_set_trapframe\<close> checks the wrong address space), and \<open>sys_ipc_try_send\<close> is
  covered when the receiver asked for a page below \<^verbatim>\<open>UTOP\<close> or no page is sent.
\<close>

lemma safe_with_env:
  assumes "in_syscall kd ext c s" and "\<And>e. e \<in> live s \<Longrightarrow> (cp \<Longrightarrow> may_touch c e s) \<Longrightarrow> safe_outcome kd ext (k e s)"
  shows "safe_outcome kd ext (with_env envid cp k s)"
  by (rule with_env_cases [OF assms(1), of envid cp k]) (use assms(2) in_syscallD(1,3) [OF assms(1)] in auto)

lemma vm_frame_holding: "vm_frame s s' \<Longrightarrow> holding (cpunum s') (kernel_lock s') = holding (cpunum s) (kernel_lock s)"
  by (simp add: vm_frame_def)

lemma safe_kthen_ret: "safe_outcome kd ext (m s) \<Longrightarrow> safe_outcome kd ext (kthen m (kret a) s)"
  by (cases "m s") (simp_all add: kthen_def kbind_def)

lemma curenv_get_in: "in_syscall kd ext c s \<Longrightarrow> curenv_get k s = k c s"
  by (simp add: in_syscall_def curenv_get_def)

lemma not_free_status [simp]: "(if b then ENV_RUNNABLE else ENV_NOT_RUNNABLE) \<noteq> ENV_FREE"
  by simp

lemma liveD: "e \<in> live s \<Longrightarrow> env_status (envs s e) \<noteq> ENV_FREE"
  by (simp add: live_def)

section \<open>Environments\<close>

lemma sys_exofork_ok:
  assumes sys: "in_syscall kd ext c s"
  obtains (no_env) "sys_exofork s = Ret (- E_NO_FREE_ENV) s" and "live s = {..<NENV}"
  | (no_mem) "sys_exofork s = Ret (- E_NO_MEM) s" and "free_pages s = {}"
  | (created) e s' where "sys_exofork s = Ret (sint (env_id (envs s' e))) s'" and "kernel_ok kd ext s'"
      and "e \<notin> live s" and "live s' = insert e (live s)" and "env_status (envs s' e) = ENV_NOT_RUNNABLE"
      and "env_parent_id (envs s' e) = env_id (envs s c)"
      and "env_tf (envs s' e) = (env_tf (envs s c))\<lparr>tf_regs := (tf_regs (env_tf (envs s c)))\<lparr>reg_eax := 0\<rparr>\<rparr>"
      and "sint (env_id (envs s' e)) > 0" and "\<And>i. i \<noteq> e \<Longrightarrow> envs s' i = envs s i"
      and "\<And>va. unat (PDX va) < UPDES \<Longrightarrow> vmap s' (dir_of s' e) va = None"
      and "names (env_id (envs s' e)) c s' = Some e" and "may_touch c e s'"
      and "kernel_lock s' = kernel_lock s" and "cpunum s' = cpunum s"
      and "\<And>i va. i \<in> live s \<Longrightarrow> unat (PDX va) < UPDES \<Longrightarrow> vmap s' (dir_of s' i) va = vmap s (dir_of s i) va"
      and "curenv s' = curenv s" and "cr3 s' = cr3 s" and "data_kept s s' (dirs s)"
      and "pdes_open s (dirs s) \<Longrightarrow> pdes_open s' (dirs s')"
proof -
  note D = in_syscallD [OF sys]
  show thesis
  proof (rule env_alloc_ok [OF D(1), of "env_id (envs s c)"])
    assume "env_alloc (env_id (envs s c)) s = Ret (- E_NO_FREE_ENV, None) s" "\<And>i. i < NENV \<Longrightarrow> i \<in> live s"
    then show thesis by (intro no_env) (auto simp: sys_exofork_def curenv_get_in [OF sys] live_def)
  next
    assume "env_alloc (env_id (envs s c)) s = Ret (- E_NO_MEM, None) s" "free_pages s = {}"
    then show thesis by (intro no_mem) (simp_all add: sys_exofork_def curenv_get_in [OF sys])
  next
    fix e t assume t: "env_alloc (env_id (envs s c)) s = Ret (0, Some e) t" "kernel_ok kd ext t" "e < NENV"
      "e \<notin> live s" "live t = insert e (live s)" "env_parent_id (envs t e) = env_id (envs s c)"
      "\<And>i. i \<noteq> e \<Longrightarrow> envs t i = envs s i" "env_status (envs t e) = ENV_RUNNABLE"
      "\<And>va. unat (PDX va) < UPDES \<Longrightarrow> vmap t (dir_of t e) va = None"
      "kernel_lock t = kernel_lock s" "cpunum t = cpunum s"
      "\<And>i va. i \<in> live s \<Longrightarrow> unat (PDX va) < UPDES \<Longrightarrow> vmap t (dir_of t i) va = vmap s (dir_of s i) va"
      "curenv t = curenv s" "cr3 t = cr3 s" "data_kept s t (dirs s)" "pdes_open s (dirs s) \<Longrightarrow> pdes_open t (dirs t)"
    let ?tf = "(env_tf (envs s c))\<lparr>tf_regs := (tf_regs (env_tf (envs s c)))\<lparr>reg_eax := 0\<rparr>\<rparr>"
    define s' where "s' = upd_env e (\<lambda>v. v\<lparr>env_status := ENV_NOT_RUNNABLE, env_tf := ?tf\<rparr>) t"
    have ce: "c \<noteq> e" using D(4) t(4) by auto
    note ce = ce t(7) [OF ce]
    have ok': "kernel_ok kd ext s'"
      unfolding s'_def using t(8) by (intro kernel_ok_upd_env [OF t(2)]) auto
    have live: "live s' = insert e (live s)"
      unfolding t(5) [symmetric] using t(8) by (auto simp: live_def s'_def)
    then have ide: "sint (env_id (envs s' e)) > 0" "ENVX (env_id (envs s' e)) = e"
      using kernel_okD(4,5) [OF ok', of e] by auto
    have "sys_exofork s = Ret (sint (env_id (envs s' e))) s'"
      using t(1) ce by (simp add: sys_exofork_def curenv_get_in [OF sys] kthen_def kbind_def s'_def)
    moreover have "vmap s' (dir_of s' e) va = None" if "unat (PDX va) < UPDES" for va
      using t(9) [OF that] vmap_phys [of s' t] by (simp add: s'_def dir_of_def)
    moreover have "vmap s' (dir_of s' i) va = vmap s (dir_of s i) va" if "i \<in> live s" "unat (PDX va) < UPDES" for i va
      using t(12) [OF that] t(4) that(1) vmap_phys [of s' t] by (cases "i = e") (simp_all add: s'_def dir_of_def)
    moreover have sl: "slot s' q k = slot t q k" for q k by (simp add: s'_def slot_def)
    have "dirs s' = dirs t"
      by (simp only: dirs_def live t(5)) (auto simp: dir_of_def s'_def upd_env_def)
    then have "data_kept s s' (dirs s)" "pdes_open s (dirs s) \<Longrightarrow> pdes_open s' (dirs s')"
      using t(15,16) sl pdes_open_cong [OF sl] by (simp_all add: data_kept_def)
    moreover have "curenv s' = curenv s" "cr3 s' = cr3 s"
      using t(13,14) by (simp_all add: s'_def upd_env_def curenv_def)
    moreover have "names (env_id (envs s' e)) c s' = Some e"
      using ide live by (auto simp: names_def)
    moreover have "may_touch c e s'"
      using t(6) ce by (simp add: may_touch_def s'_def)
    ultimately show thesis
      using ok' t(4,6,7,10,11) live ide(1) by (intro created [of s' e]) (simp_all add: s'_def)
  qed
qed

lemma sys_exofork_safe:
  assumes "in_syscall kd ext c s"
  shows "safe_outcome kd ext (sys_exofork s)"
  by (rule sys_exofork_ok [OF assms]) (use in_syscallD(1,3) [OF assms] in simp_all)

lemma sys_env_set_status_safe:
  assumes "in_syscall kd ext c s"
  shows "safe_outcome kd ext (sys_env_set_status envid status s)"
proof -
  have "safe_outcome kd ext (with_env envid True (\<lambda>e.
        kthen (kmod (upd_env e (\<lambda>v. v\<lparr>env_status := (if status = 2 then ENV_RUNNABLE else ENV_NOT_RUNNABLE)\<rparr>)))
        (kret 0)) s)"
    by (rule safe_with_env [OF assms], rule safe_kthen_ret)
      (use in_syscallD(1,3) [OF assms] in \<open>auto intro!: kernel_ok_upd_env dest: liveD\<close>)
  then show ?thesis
    using in_syscallD(1,3) [OF assms] by (simp add: sys_env_set_status_def)
qed

lemma sys_env_set_pgfault_upcall_safe:
  assumes "in_syscall kd ext c s"
  shows "safe_outcome kd ext (sys_env_set_pgfault_upcall envid func s)"
  unfolding sys_env_set_pgfault_upcall_def
  by (rule safe_with_env [OF assms], rule safe_kthen_ret)
    (use in_syscallD(1,3) [OF assms] in \<open>auto intro!: kernel_ok_upd_env\<close>)

lemma sys_env_destroy_safe:
  assumes "in_syscall kd ext c s"
  shows "safe_outcome kd ext (sys_env_destroy envid s)"
  unfolding sys_env_destroy_def
  by (rule safe_with_env [OF assms], rule safe_kthen_ret) (rule env_destroy_safe [OF in_syscallD(1) [OF assms] _ in_syscallD(3) [OF assms]])

lemma sys_page_alloc_safe:
  assumes "in_syscall kd ext c s"
  shows "safe_outcome kd ext (sys_page_alloc envid va perm s)"
proof (cases "bad_va va \<or> bad_perm perm")
  case True
  then show ?thesis using in_syscallD(1,3) [OF assms] by (auto simp: sys_page_alloc_def)
next
  case False
  then have nb: "\<not> bad_va va" "\<not> bad_perm perm" by auto
  show ?thesis
  proof (cases "\<exists>e. names envid c s = Some e \<and> may_touch c e s")
    case True
    then obtain e where e: "names envid c s = Some e" "may_touch c e s" by blast
    show ?thesis by (rule sys_page_alloc_ok [OF assms nb e])
        (use in_syscallD(3) [OF assms] in \<open>simp_all add: vm_frame_holding\<close>)
  next
    case no: False
    then show ?thesis
      using nb in_syscallD(1,3) [OF assms] envid2env_names [OF assms, of envid True]
      by (auto simp: sys_page_alloc_def with_env_def split: option.splits)
  qed
qed

lemma sys_page_unmap_safe:
  assumes "in_syscall kd ext c s"
  shows "safe_outcome kd ext (sys_page_unmap envid va s)"
proof (cases "bad_va va \<or> \<not> (\<exists>e. names envid c s = Some e \<and> may_touch c e s)")
  case True
  then show ?thesis
    using in_syscallD(1,3) [OF assms] envid2env_names [OF assms, of envid True]
    by (auto simp: sys_page_unmap_def with_env_def split: option.splits)
next
  case False
  then obtain e where e: "\<not> bad_va va" "names envid c s = Some e" "may_touch c e s" by blast
  show ?thesis by (rule sys_page_unmap_ok [OF assms e])
      (use in_syscallD(3) [OF assms] in \<open>simp add: vm_frame_holding\<close>)
qed

lemma sys_page_map_safe:
  assumes "in_syscall kd ext c s" and "\<And>p. unat (pp_ref (pages s p)) < 65535"
  shows "safe_outcome kd ext (sys_page_map se sva de dva perm s)"
proof (cases "bad_va sva \<or> bad_va dva \<or> bad_perm perm")
  case True
  then show ?thesis using in_syscallD(1,3) [OF assms(1)] by (auto simp: sys_page_map_def)
next
  case False
  then have nb: "\<not> bad_va sva" "\<not> bad_va dva" "\<not> bad_perm perm" by auto
  show ?thesis
  proof (cases "(\<exists>e. names se c s = Some e \<and> may_touch c e s) \<and> (\<exists>e. names de c s = Some e \<and> may_touch c e s)")
    case True
    then obtain a b where ab: "names se c s = Some a" "may_touch c a s" "names de c s = Some b" "may_touch c b s"
      by blast
    show ?thesis
      by (rule sys_page_map_ok [OF assms(1) nb ab assms(2)])
        (use in_syscallD(1,3) [OF assms(1)] in \<open>simp_all add: vm_frame_holding\<close>)
  next
    case no: False
    then show ?thesis
      using nb in_syscallD(1,3) [OF assms(1)] envid2env_names [OF assms(1), of se True] envid2env_names [OF assms(1), of de True]
      by (auto simp: sys_page_map_def with_env_def kbind_def split: option.splits if_splits)
  qed
qed


section \<open>Messages\<close>

lemma sys_ipc_recv_safe:
  assumes "in_syscall kd ext c s"
  shows "safe_outcome kd ext (sys_ipc_recv dstva s)"
proof -
  note D = in_syscallD [OF assms]
  let ?s1 = "upd_env c (\<lambda>v. v\<lparr>env_ipc_recving := True, env_ipc_dstva := dstva, env_status := ENV_NOT_RUNNABLE\<rparr>) s"
  have ok1: "kernel_ok kd ext ?s1"
    using liveD [OF D(4)] by (intro kernel_ok_upd_env [OF D(1)]) auto
  have "safe_outcome kd ext (kthen sys_yield (kret (0 :: int)) ?s1)"
    unfolding sys_yield_def by (rule safe_kthen_ret, rule sched_yield_safe [OF ok1]) (use D(3) in simp)
  then show ?thesis
    using D(1,3) by (simp add: sys_ipc_recv_def curenv_get_in [OF assms])
qed

lemma ipc_deliver_ok: "kernel_ok kd ext s \<Longrightarrow> dst \<in> live s \<Longrightarrow> kernel_ok kd ext (ipc_deliver dst c val s)"
  unfolding ipc_deliver_def by (rule kernel_ok_upd_env) (auto dest: liveD)

text \<open>The send, branch by branch. The page is entered at \<^verbatim>\<open>dst->env_ipc_dstva\<close>.\<close>

lemma sys_ipc_try_send_ok:
  assumes sys: "in_syscall kd ext c s" and dst: "names envid c s = Some dst"
    and room: "\<And>p. unat (pp_ref (pages s p)) < 65535"
    and want: "srcva < UTOP \<Longrightarrow> unat (PDX (env_ipc_dstva (envs s dst))) < UPDES"
  obtains (error) r where "sys_ipc_try_send envid val srcva perm s = Ret r s" and "r < 0"
      and "\<not> env_ipc_recving (envs s dst) \<longleftrightarrow> r = - E_IPC_NOT_RECV"
  | (word) "UTOP \<le> srcva" and "env_ipc_recving (envs s dst)"
      and "sys_ipc_try_send envid val srcva perm s = Ret 0 (ipc_deliver dst c val s)"
  | (page) pg pm s1 where "srcva < UTOP" and "env_ipc_recving (envs s dst)"
      and "vmap s (dir_of s c) srcva = Some (pg, pm)" and "perm AND PTE_W \<noteq> 0 \<Longrightarrow> pm AND PTE_W \<noteq> 0"
      and "kernel_ok kd ext s1" and "vm_frame s s1"
      and "space_upd s s1 dst (env_ipc_dstva (envs s dst)) (Some (pg, perm OR PTE_P))"
      and "sys_ipc_try_send envid val srcva perm s =
        Ret 0 (ipc_deliver dst c val (upd_env dst (\<lambda>v. v\<lparr>env_ipc_perm := perm\<rparr>) s1))"
proof -
  note D = in_syscallD [OF sys]
  note ok = kernel_okD [OF D(1)]
  have dl: "dst \<in> live s" using names_live [OF sys dst] .
  have we: "with_env envid False k s = k dst s" for k
    using envid2env_names [OF sys, of envid False] dst by (simp add: with_env_def)
  note def = sys_ipc_try_send_def we curenv_get_in [OF sys]
  let ?sd = "dir_of s c" and ?dva = "env_ipc_dstva (envs s dst)"
  show thesis
  proof (cases "env_ipc_recving (envs s dst)")
    case False
    then show thesis by (intro error [of "- E_IPC_NOT_RECV"]) (simp_all add: def)
  next
    case rec: True
    have inval: thesis if "sys_ipc_try_send envid val srcva perm s = Ret (- E_INVAL) s"
      using that rec by (intro error [of "- E_INVAL"]) simp_all
    show thesis
    proof (cases "srcva < UTOP")
      case False
      then show thesis using rec by (intro word) (simp_all add: def kthen_def)
    next
      case lt: True
      show thesis
      proof (cases "srcva mod PGSIZE \<noteq> 0 \<or> bad_perm perm")
        case True
        then show thesis using rec lt by (intro inval) (auto simp: def)
      next
        case False
        then have va: "\<not> bad_va srcva" and perm: "\<not> bad_perm perm" and al: "srcva mod PGSIZE = 0"
          using lt by (auto simp: bad_va_def)
        let ?look = "map_option (\<lambda>(pp, perm). (pp, kv (tfr s (loc ?sd srcva)) + 4 * PTX srcva)) (vmap s ?sd srcva)"
        have look: "page_lookup (kv ?sd) srcva s = Ret ?look s"
          by (rule page_lookup_vmap [OF ok(1) ok(12) [OF D(4)] good_va_PDX [OF va]])
        show thesis
        proof (cases "vmap s ?sd srcva")
          case None
          then show thesis
            using rec lt al perm look ok(3) [OF D(4)] by (intro inval) (simp add: def)
        next
          case (Some x)
          then obtain pg pm where v: "vmap s ?sd srcva = Some (pg, pm)" by (cases x) auto
          have m: "(loc ?sd srcva, unat (PTX srcva)) \<in> maps s (dirs s)" and pgm: "mfr s (loc ?sd srcva, unat (PTX srcva)) = pg"
            using vmap_maps [OF ok(1) ok(12) [OF D(4)] good_va_PDX [OF va]] v by auto
          then have t: "loc ?sd srcva \<in> tables s (dirs s)" by (simp add: maps_def)
          let ?pte = "slot s (tfr s (loc ?sd srcva)) (unat (PTX srcva))"
          have ld: "kld (kv (tfr s (loc ?sd srcva)) + 4 * PTX srcva) s = ?pte"
            using tfr_lt [OF ok(1) t] by (simp add: kld_entry)
          have pm: "pm = ?pte AND 0xFFF"
            using v by (auto simp: vmap_def Let_def tfr_def split: if_splits)
          have w: "pm AND PTE_W = ?pte AND PTE_W"
            by (simp add: pm and.assoc)
          show thesis
          proof (cases "perm AND PTE_W \<noteq> 0 \<and> pm AND PTE_W = 0")
            case True
            then show thesis
              using rec lt al perm look v ok(3) [OF D(4)] ld w by (intro inval) (simp add: def)
          next
            case wok: False
            have mp: "mappable s (dirs s) pg"
              using vm_okD(7) [OF ok(1) m] used_not_free(3) [OF ok(1) m] pgm room by (auto simp: mappable_def)
            show thesis
            proof (rule page_insert_cases [OF ok(1) ok(12) [OF dl] want [OF lt] mp bad_perm_low [OF perm]])
              assume "page_insert (kv (dir_of s dst)) pg ?dva perm s = Ret (- E_NO_MEM) s"
              then have "sys_ipc_try_send envid val srcva perm s = Ret (- E_NO_MEM) s"
                using rec lt al perm look v ok(3) [OF D(4)] ok(3) [OF dl] ld w wok by (simp add: def)
              then show thesis using rec by (intro error [of "- E_NO_MEM"]) simp_all
            next
              fix s1 assume s1: "page_insert (kv (dir_of s dst)) pg ?dva perm s = Ret 0 s1" "vm_ok s1 (dirs s) ext" "vm_frame s s1"
                "\<And>d' va'. d' \<in> dirs s \<Longrightarrow> unat (PDX va') < UPDES \<Longrightarrow> vmap s1 d' va' =
                  (if d' = dir_of s dst \<and> PGNUM va' = PGNUM ?dva then Some (pg, perm OR PTE_P) else vmap s d' va')"
              then have "sys_ipc_try_send envid val srcva perm s =
                  Ret 0 (ipc_deliver dst c val (upd_env dst (\<lambda>v. v\<lparr>env_ipc_perm := perm\<rparr>) s1))"
                using rec lt al perm look v ok(3) [OF D(4)] ok(3) [OF dl] ld w wok by (simp add: def kthen_def)
              then show thesis
                using rec lt v wok kernel_ok_vm(1) [OF D(1) s1(3,2)] s1(3) space_updI [OF D(1) dl s1(3,4)]
                by (intro page [of pg pm s1]) auto
            qed
          qed
        qed
      qed
    qed
  qed
qed

lemma sys_ipc_try_send_safe:
  assumes sys: "in_syscall kd ext c s" and room: "\<And>p. unat (pp_ref (pages s p)) < 65535"
    and want: "\<And>dst. srcva < UTOP \<Longrightarrow> names envid c s = Some dst \<Longrightarrow> unat (PDX (env_ipc_dstva (envs s dst))) < UPDES"
  shows "safe_outcome kd ext (sys_ipc_try_send envid val srcva perm s)"
proof (cases "names envid c s")
  case None
  then show ?thesis
    using in_syscallD(1,3) [OF sys] envid2env_names [OF sys, of envid False]
    by (simp add: sys_ipc_try_send_def with_env_def)
next
  case (Some dst)
  have dl: "dst \<in> live s" using names_live [OF sys Some] .
  note ok = in_syscallD(1) [OF sys] and lk = in_syscallD(3) [OF sys]
  show ?thesis
  proof (rule sys_ipc_try_send_ok [OF sys Some room, of srcva val perm])
    fix pg pm s1 assume s1: "kernel_ok kd ext s1" "vm_frame s s1"
      "sys_ipc_try_send envid val srcva perm s =
        Ret 0 (ipc_deliver dst c val (upd_env dst (\<lambda>v. v\<lparr>env_ipc_perm := perm\<rparr>) s1))"
    have "dst \<in> live s1"
      using dl s1(2) by (simp add: live_def vm_frame_def)
    moreover have "holding (cpunum s1) (kernel_lock s1)" using lk vm_frame_holding [OF s1(2)] by simp
    ultimately show ?thesis
      using s1 by (auto intro!: ipc_deliver_ok kernel_ok_upd_env simp: live_def ipc_deliver_def)
  qed (use want Some ok lk dl ipc_deliver_ok [OF ok dl] in \<open>auto simp: ipc_deliver_def\<close>)
qed

section \<open>The dispatcher\<close>

text \<open>The calls whose use of user memory is covered by the checks.\<close>

definition checked_call :: "u32 \<Rightarrow> u32 \<Rightarrow> u32 \<Rightarrow> nat \<Rightarrow> kstate \<Rightarrow> bool" where
  "checked_call n a1 a3 c s \<longleftrightarrow> n \<noteq> SYS_cputs \<and> n \<noteq> SYS_env_set_trapframe \<and>
     (n = SYS_ipc_try_send \<longrightarrow> a3 < UTOP \<longrightarrow>
        (case names a1 c s of None \<Rightarrow> True | Some dst \<Rightarrow> unat (PDX (env_ipc_dstva (envs s dst))) < UPDES))"

lemma sys_cgetc_safe:
  assumes "kernel_ok kd ext s" and "holding (cpunum s) (kernel_lock s)"
  shows "safe_outcome kd ext (sys_cgetc s)"
proof -
  obtain r where "cons_getc (con s) = Some r" using cons_getc_total by blast
  then show ?thesis
    using kernel_ok_con [OF assms(1)] assms(2) by (cases r) (simp add: sys_cgetc_def)
qed

lemma syscall_safe:
  assumes sys: "in_syscall kd ext c s" and room: "\<And>p. unat (pp_ref (pages s p)) < 65535"
    and call: "checked_call n a1 a3 c s"
  shows "safe_outcome kd ext (syscall n a1 a2 a3 a4 a5 s)"
proof -
  note D = in_syscallD [OF sys]
  have "safe_outcome kd ext (kthen sys_yield (kret (0 :: int)) s)"
    unfolding sys_yield_def by (rule safe_kthen_ret, rule sched_yield_safe [OF D(1,3)])
  moreover have "safe_outcome kd ext (sys_getenvid s)"
    using D(1,3) by (simp add: sys_getenvid_def curenv_get_in [OF sys])
  moreover have "safe_outcome kd ext (sys_ipc_try_send a1 a2 a3 a4 s)" if "n = SYS_ipc_try_send"
    using call that by (intro sys_ipc_try_send_safe [OF sys room]) (auto simp: checked_call_def)
  ultimately show ?thesis
    using call D(1,3) sys_cgetc_safe [OF D(1,3)] sys_env_destroy_safe [OF sys] sys_exofork_safe [OF sys]
      sys_env_set_status_safe [OF sys] sys_page_alloc_safe [OF sys] sys_page_map_safe [OF sys room]
      sys_page_unmap_safe [OF sys] sys_env_set_pgfault_upcall_safe [OF sys] sys_ipc_recv_safe [OF sys]
    by (simp add: syscall_def checked_call_def)
qed

end
