(* ===== verification/Sample_Kernel.thy ===== *)
theory Sample_Kernel
  imports Sample_State Syscall_Inv
begin

text \<open>The sample machine satisfies the kernel invariant, with environment 0 in a system call.\<close>

lemma sample_el_path: "n \<le> 1023 \<Longrightarrow> el_path sample_env (Some (Suc n)) [Suc n..<1024] \<or> n = 1023"
proof (induction "1023 - n" arbitrary: n)
  case 0
  then show ?case by simp
next
  case (Suc k)
  then have n: "n < 1023" by simp
  show ?case
  proof (cases "Suc n = 1023")
    case True
    then show ?thesis by (simp add: sample_env_def upt_conv_Cons)
  next
    case False
    then have "el_path sample_env (Some (Suc (Suc n))) [Suc (Suc n)..<1024]"
      using Suc.hyps(1) [of "Suc n"] Suc.hyps(2) n by auto
    then show ?thesis
      using n False by (simp add: upt_conv_Cons sample_env_def)
  qed
qed

lemma sample_env_table: "env_table sample [1..<1024]"
  using sample_el_path [of 0] by (auto simp: env_table_def sample_env_def simp del: upt_rec_numeral)

lemma sample_live: "live sample = {0}"
  by (auto simp: live_def sample_env_def)

lemma sample_dir: "dir_of sample 0 = 1"
  by (simp add: dir_of_def sample_env_def)

lemma sample_kernel_ok: "kernel_ok 6 sample_ext sample"
proof (rule kernel_okI [OF _ _ _ sample_env_table])
  show "vm_ok sample (dirs sample) sample_ext"
    using sample_vm_ok by (simp add: dirs_def sample_live sample_dir)
  show "env_pgdir (envs sample i) = kv (dir_of sample i) \<and> ENVX (env_id (envs sample i)) = i \<and> 0 < sint (env_id (envs sample i))"
    if "i \<in> live sample" for i
    using that by (simp add: sample_live sample_dir) (simp add: sample_env_def ENVX_def)
qed (auto simp: sample_live sample_ext_def curenv_def)

lemma sample_in_syscall: "in_syscall 6 sample_ext 0 sample"
  using sample_kernel_ok by (simp add: in_syscall_def curenv_def holding_def)

end
