(* ===== verification/Kernel_Theorems.thy ===== *)
theory Kernel_Theorems
  imports Sample_Kernel
begin

text \<open>
  The properties of environments, scheduling and system calls, stated over the definitions of
  \<^verbatim>\<open>kern/env.c\<close>, \<^verbatim>\<open>kern/sched.c\<close> and \<^verbatim>\<open>kern/syscall.c\<close>, each with an
  instance on the sample machine.
\<close>

section \<open>System calls\<close>



text \<open>\<open>sys_page_alloc\<close> with valid arguments for an environment the caller may change: either
  a page from the free list is mapped at \<open>va\<close> and nothing else changes in any address space, or
  memory is exhausted, the call returns \<^verbatim>\<open>-E_NO_MEM\<close>, no page is lost and no address space
  changes.\<close>

theorem sys_page_alloc_correct:
  assumes "in_syscall kd ext c s" and "\<not> bad_va va" and "\<not> bad_perm perm"
    and "names envid c s = Some e" and "may_touch c e s"
  shows "\<exists>s'. (\<exists>pg. sys_page_alloc envid va perm s = Ret 0 s' \<and> pg \<in> free_pages s \<and>
              space_upd s s' e va (Some (pg, perm OR PTE_P))) \<or>
            (sys_page_alloc envid va perm s = Ret (- E_NO_MEM) s' \<and> same_spaces s s' \<and> free_pages s' = free_pages s)"
  by (rule sys_page_alloc_ok [OF assms]) blast+

theorem sys_page_alloc_correct_witness:
  "\<not> bad_va 0x800000 \<and> \<not> bad_perm 7 \<and>
   (\<exists>s' pg. sys_page_alloc 0 0x800000 7 sample = Ret 0 s' \<and> pg \<in> {3, 4, 5} \<or>
      sys_page_alloc 0 0x800000 7 sample = Ret (- E_NO_MEM) s')"
proof -
  have nb: "\<not> bad_va 0x800000" "\<not> bad_perm 7"
    by (simp_all add: bad_va_def bad_perm_def)
  show ?thesis
    using sys_page_alloc_correct [OF sample_in_syscall nb, of 0 0] nb
    by (auto simp: names_def may_touch_def sample_free_pages)
qed



text \<open>The permission test of the memory calls accepts an argument that has only one of
  \<^verbatim>\<open>PTE_U\<close> and \<^verbatim>\<open>PTE_P\<close>, where the documentation asks for both.\<close>

theorem bad_perm_accepts_one_bit: "\<not> bad_perm PTE_P \<and> \<not> bad_perm PTE_U \<and> \<not> bad_perm (PTE_P OR PTE_W)"
  by (simp add: bad_perm_def)

text \<open>(C29) \<open>sys_exofork\<close> creates a child that is not runnable, has an empty address space, the
  registers of its parent except for a zero result, a positive identifier that \<open>envid2env\<close>
  resolves to it, and that the parent may manipulate; no other environment changes. It fails only when all
  environments or all pages are in use.\<close>

theorem sys_exofork_correct:
  assumes "in_syscall kd ext c s"
  shows "case sys_exofork s of
      Ret r s' \<Rightarrow> if r < 0 then s' = s \<and> (r = - E_NO_FREE_ENV \<and> live s = {..<NENV} \<or> r = - E_NO_MEM \<and> free_pages s = {})
        else \<exists>e. r = sint (env_id (envs s' e)) \<and> e \<notin> live s \<and> live s' = insert e (live s) \<and>
             env_status (envs s' e) = ENV_NOT_RUNNABLE \<and> names (env_id (envs s' e)) c s' = Some e \<and> may_touch c e s' \<and>
             env_tf (envs s' e) = (env_tf (envs s c))\<lparr>tf_regs := (tf_regs (env_tf (envs s c)))\<lparr>reg_eax := 0\<rparr>\<rparr> \<and>
             (\<forall>va. unat (PDX va) < UPDES \<longrightarrow> vmap s' (dir_of s' e) va = None) \<and> (\<forall>i. i \<noteq> e \<longrightarrow> envs s' i = envs s i)
    | _ \<Rightarrow> False"
proof (rule sys_exofork_ok [OF assms])
  fix e s' assume *: "sys_exofork s = Ret (sint (env_id (envs s' e))) s'" "sint (env_id (envs s' e)) > 0"
    "e \<notin> live s" "live s' = insert e (live s)" "env_status (envs s' e) = ENV_NOT_RUNNABLE"
    "env_tf (envs s' e) = (env_tf (envs s c))\<lparr>tf_regs := (tf_regs (env_tf (envs s c)))\<lparr>reg_eax := 0\<rparr>\<rparr>"
    "\<And>va. unat (PDX va) < UPDES \<Longrightarrow> vmap s' (dir_of s' e) va = None"
    "names (env_id (envs s' e)) c s' = Some e" "may_touch c e s'" "\<And>i. i \<noteq> e \<Longrightarrow> envs s' i = envs s i"
  then have "\<exists>e. sint (env_id (envs s' e)) = sint (env_id (envs s' e)) \<and> e \<notin> live s \<and> live s' = insert e (live s)"
    by blast
  from * show ?thesis by (auto intro!: exI [of _ e])
qed auto

theorem sys_exofork_correct_witness:
  "\<exists>r s' e. sys_exofork sample = Ret r s' \<and> r \<ge> 0 \<and> live s' = {0, e} \<and> env_status (envs s' e) = ENV_NOT_RUNNABLE"
proof -
  have "{0} \<noteq> {..<NENV}" by (metis lessThan_iff one_less_numeral_iff semiring_norm(76) singletonD zero_neq_one)
  then show ?thesis
    using sys_exofork_correct [OF sample_in_syscall]
    by (cases "sys_exofork sample") (auto simp: sample_live sample_free_pages insert_commute split: if_splits)
qed


text \<open>\<open>sys_ipc_try_send\<close> delivers exactly once and exactly to a waiting receiver: it fails
  with \<^verbatim>\<open>-E_IPC_NOT_RECV\<close> when the target is not receiving; a successful send stores value
  and sender, clears the receiving flag, makes the target runnable with result 0, and hands over
  the page that the sender maps at \<open>srcva\<close>, never with more rights than the sender has. A
  failing send changes nothing.\<close>

theorem sys_ipc_try_send_correct:
  assumes "in_syscall kd ext c s" and "names envid c s = Some dst"
    and "\<And>p. unat (pp_ref (pages s p)) < 65535"
    and "srcva < UTOP \<Longrightarrow> unat (PDX (env_ipc_dstva (envs s dst))) < UPDES"
  shows "case sys_ipc_try_send envid val srcva perm s of
      Ret r s' \<Rightarrow> if r < 0 then s' = s \<and> (r = - E_IPC_NOT_RECV \<longleftrightarrow> \<not> env_ipc_recving (envs s dst))
        else env_ipc_recving (envs s dst) \<and> \<not> env_ipc_recving (envs s' dst) \<and>
          env_ipc_value (envs s' dst) = val \<and> env_ipc_from (envs s' dst) = env_id (envs s c) \<and>
          env_status (envs s' dst) = ENV_RUNNABLE \<and> reg_eax (tf_regs (env_tf (envs s' dst))) = 0 \<and>
          (srcva < UTOP \<longrightarrow> (\<exists>pg pm. vmap s (dir_of s c) srcva = Some (pg, pm) \<and>
             (perm AND PTE_W \<noteq> 0 \<longrightarrow> pm AND PTE_W \<noteq> 0) \<and> env_ipc_perm (envs s' dst) = perm \<and>
             vmap s' (dir_of s dst) (env_ipc_dstva (envs s dst)) = Some (pg, perm OR PTE_P)))
    | _ \<Rightarrow> False"
proof (rule sys_ipc_try_send_ok [OF assms, of srcva val perm])
  have dl: "dst \<in> live s" using names_live [OF assms(1,2)] .
  fix pg pm s1 assume s1: "srcva < UTOP" "env_ipc_recving (envs s dst)" "vmap s (dir_of s c) srcva = Some (pg, pm)"
    "perm AND PTE_W \<noteq> 0 \<Longrightarrow> pm AND PTE_W \<noteq> 0" "vm_frame s s1"
    "space_upd s s1 dst (env_ipc_dstva (envs s dst)) (Some (pg, perm OR PTE_P))"
    "sys_ipc_try_send envid val srcva perm s =
      Ret 0 (ipc_deliver dst c val (upd_env dst (\<lambda>v. v\<lparr>env_ipc_perm := perm\<rparr>) s1))"
  let ?s' = "ipc_deliver dst c val (upd_env dst (\<lambda>v. v\<lparr>env_ipc_perm := perm\<rparr>) s1)"
  have "vmap ?s' (dir_of s dst) (env_ipc_dstva (envs s dst)) = vmap s1 (dir_of s dst) (env_ipc_dstva (envs s dst))"
    by (rule vmap_phys) (simp add: ipc_deliver_def)
  also have "\<dots> = Some (pg, perm OR PTE_P)"
    using s1(6) dl assms(4) [OF s1(1)] by (simp add: space_upd_def)
  finally show ?thesis
    using s1 by (auto simp: ipc_deliver_def vm_frame_def)
qed (auto simp: ipc_deliver_def)

theorem sys_ipc_try_send_correct_witness:
  "sys_ipc_try_send 0 7 UTOP 0 sample = Ret (- E_IPC_NOT_RECV) sample"
proof -
  have n: "names 0 0 sample = Some 0" by (simp add: names_def)
  have ref: "unat (pp_ref (pages sample p)) < 65535" for p
    by (simp add: sample_pages_def)
  have e: "sys_ipc_try_send 0 7 UTOP 0 sample = Ret (- E_IPC_NOT_RECV) sample"
    by (rule sys_ipc_try_send_ok [OF sample_in_syscall n ref, of UTOP 7 0]) (simp_all add: sample_env_def)
  with sys_ipc_try_send_correct [OF sample_in_syscall n ref, of UTOP 7 0] show ?thesis by simp
qed

section \<open>Environments\<close>

lemma el_path_head: "el_path en p (x # xs) \<Longrightarrow> p = Some x"
  by simp

lemma upt_0_NENV: "[0..<NENV] = 0 # [1..<NENV]"
  by (subst upt_conv_Cons) (simp_all del: upt_rec_numeral)

text \<open>\<open>env_init\<close> makes every slot free with identifier 0 and threads the free list through
  the table in index order, so that the first environment gets slot 0.\<close>

theorem env_init_correct:
  "env_table (env_init s) [0..<NENV] \<and> env_free_list (env_init s) = Some 0 \<and>
   (\<forall>i\<in>{0..<NENV}. env_id (envs (env_init s) i) = 0 \<and> env_status (envs (env_init s) i) = ENV_FREE)"
proof -
  have tab: "env_table (env_init s) [0..<NENV]" and ids: "\<forall>i<NENV. env_id (envs (env_init s) i) = 0"
    using env_init_spec [of s] by auto
  have "env_free_list (env_init s) = Some 0"
    by (rule el_path_head [of "envs (env_init s)" _ _ "[1..<NENV]"])
      (use tab in \<open>simp only: env_table_def upt_0_NENV\<close>)
  moreover have "env_status (envs (env_init s) i) = ENV_FREE" if "i < NENV" for i
    using tab that unfolding env_table_def set_upt by fastforce
  ultimately show ?thesis using tab ids by auto
qed

theorem env_init_correct_witness:
  "env_id (envs (env_init sample) 3) = 0 \<and> env_status (envs (env_init sample) 0) = ENV_FREE"
  using env_init_correct [of sample] by simp

text \<open>\<open>envid2env\<close> resolves an identifier only to the live environment that carries it, and
  with \<^verbatim>\<open>checkperm\<close> only when that environment is the caller or its child; everything else
  is \<^verbatim>\<open>-E_BAD_ENV\<close>.\<close>

theorem envid2env_correct:
  assumes "in_syscall kd ext c s" and "envid \<noteq> 0"
  shows "envid2env envid checkperm s = Ret (0, Some e) s \<longleftrightarrow>
    e \<in> live s \<and> env_id (envs s e) = envid \<and>
    (checkperm \<longrightarrow> e = c \<or> env_parent_id (envs s e) = env_id (envs s c))"
  using envid2env_names [OF assms(1), of envid checkperm] assms(2) kernel_okD(4) [OF in_syscallD(1) [OF assms(1)], of e]
  by (auto simp: names_def may_touch_def)

theorem envid2env_correct_witness:
  "envid2env 0x1000 True sample = Ret (0, Some 0) sample"
  using envid2env_correct [OF sample_in_syscall, of "0x1000" True 0]
  by (simp add: sample_live) (simp add: sample_env_def)

text \<open>(C33) Environment identifiers: an identifier is positive, its low ten bits are the slot, and
  reuse of a slot always changes it, so that an old identifier no longer resolves.\<close>

theorem next_env_id_correct:
  assumes "e < NENV"
  shows "sint (next_env_id old e) > 0 \<and> ENVX (next_env_id old e) = e \<and> next_env_id old e \<noteq> old"
  using assms by (simp add: next_env_id_pos ENVX_next_env_id next_env_id_fresh)

theorem next_env_id_correct_witness:
  "next_env_id 0x7FFFF005 5 = 0x1005 \<and> ENVX (next_env_id 0x7FFFF005 5) = 5"
  using next_env_id_correct [of 5 "0x7FFFF005"] by (simp add: next_env_id_def Let_def)


lemma set_curenv_simps:
  "envs (set_curenv c s) = envs s" "phys (set_curenv c s) = phys s" "pages (set_curenv c s) = pages s"
  "npages (set_curenv c s) = npages s" "page_free_list (set_curenv c s) = page_free_list s"
  "env_free_list (set_curenv c s) = env_free_list s" "kern_pgdir (set_curenv c s) = kern_pgdir s"
  "curenv (set_curenv c s) = c"
  by (simp_all add: set_curenv_def curenv_def)

lemma kernel_ok_no_curenv:
  assumes "kernel_ok kd ext s"
  shows "kernel_ok kd ext (set_curenv None s)"
proof (rule kernel_ok_cong(1) [OF assms])
  show "vm_ok (set_curenv None s) (dirs s) ext"
    by (rule vm_ok_same [OF kernel_okD(1) [OF assms]]) (simp_all add: set_curenv_simps)
qed (simp_all add: set_curenv_simps)


section \<open>Scheduling\<close>



end
