(* ===== verification/Trap.thy ===== *)
theory Trap
  imports Syscall_Inv
begin

text \<open>
  Interrupts and exceptions, \<^verbatim>\<open>kern/trap.c\<close>, with the entry points of
  \<^verbatim>\<open>kern/trapentry.S\<close> and the descriptors of \<^verbatim>\<open>inc/mmu.h\<close>.

  \<^verbatim>\<open>trap\<close> works on a pointer to a trap frame that is either the frame the processor pushed
  on the kernel stack or the copy in the environment (\<open>tfref\<close>); a write to the former is never
  read again because \<^verbatim>\<open>trap\<close> does not return. What the hardware supplies (the fault address in
  \<^verbatim>\<open>%cr2\<close>, the flags, the address that \<^verbatim>\<open>print_trapframe\<close> shows) is the record
  \<open>trap_hw\<close>. The kernel monitor is left for good once it is entered: none of its commands
  returns a negative number.
\<close>

section \<open>Descriptors\<close>

record Gatedesc =
  gd_off_15_0 :: u16
  gd_sel :: u16
  gd_args :: u8
  gd_rsv1 :: u8
  gd_type :: u8
  gd_s :: bool
  gd_dpl :: u8
  gd_p :: bool
  gd_off_31_16 :: u16

definition SETGATE :: "bool \<Rightarrow> u16 \<Rightarrow> u32 \<Rightarrow> u8 \<Rightarrow> Gatedesc" where
  "SETGATE istrap sel off dpl = \<lparr>gd_off_15_0 = ucast (off AND 0xFFFF), gd_sel = sel, gd_args = 0, gd_rsv1 = 0,
     gd_type = (if istrap then 0xF else 0xE), gd_s = False, gd_dpl = dpl, gd_p = True,
     gd_off_31_16 = ucast (drop_bit 16 off)\<rparr>"

definition no_gate :: Gatedesc where
  "no_gate = \<lparr>gd_off_15_0 = 0, gd_sel = 0, gd_args = 0, gd_rsv1 = 0, gd_type = 0, gd_s = False, gd_dpl = 0,
     gd_p = False, gd_off_31_16 = 0\<rparr>"

record Segdesc =
  sd_lim_15_0 :: u16
  sd_base_15_0 :: u16
  sd_base_23_16 :: u8
  sd_type :: u8
  sd_s :: bool
  sd_dpl :: u8
  sd_p :: bool
  sd_lim_19_16 :: u8
  sd_avl :: bool
  sd_rsv1 :: bool
  sd_db :: bool
  sd_g :: bool
  sd_base_31_24 :: u8

definition SEG :: "u8 \<Rightarrow> u32 \<Rightarrow> u32 \<Rightarrow> u8 \<Rightarrow> Segdesc" where
  "SEG type base lim dpl = \<lparr>sd_lim_15_0 = ucast (drop_bit 12 lim AND 0xFFFF), sd_base_15_0 = ucast (base AND 0xFFFF),
     sd_base_23_16 = ucast (drop_bit 16 base AND 0xFF), sd_type = type, sd_s = True, sd_dpl = dpl, sd_p = True,
     sd_lim_19_16 = ucast (drop_bit 28 lim), sd_avl = False, sd_rsv1 = False, sd_db = True, sd_g = True,
     sd_base_31_24 = ucast (drop_bit 24 base)\<rparr>"

definition SEG16 :: "u8 \<Rightarrow> u32 \<Rightarrow> u32 \<Rightarrow> u8 \<Rightarrow> Segdesc" where
  "SEG16 type base lim dpl = \<lparr>sd_lim_15_0 = ucast (lim AND 0xFFFF), sd_base_15_0 = ucast (base AND 0xFFFF),
     sd_base_23_16 = ucast (drop_bit 16 base AND 0xFF), sd_type = type, sd_s = True, sd_dpl = dpl, sd_p = True,
     sd_lim_19_16 = ucast (drop_bit 16 lim), sd_avl = False, sd_rsv1 = False, sd_db = True, sd_g = False,
     sd_base_31_24 = ucast (drop_bit 24 base)\<rparr>"

definition SEG_NULL :: Segdesc where
  "SEG_NULL = \<lparr>sd_lim_15_0 = 0, sd_base_15_0 = 0, sd_base_23_16 = 0, sd_type = 0, sd_s = False, sd_dpl = 0,
     sd_p = False, sd_lim_19_16 = 0, sd_avl = False, sd_rsv1 = False, sd_db = False, sd_g = False,
     sd_base_31_24 = 0\<rparr>"

text \<open>The initial \<^verbatim>\<open>gdt\<close> of \<^verbatim>\<open>kern/env.c\<close>, by index (selector divided by 8).\<close>

definition gdt0 :: "nat \<Rightarrow> Segdesc" where
  "gdt0 i = (if i = 1 then SEG 0xA 0 0xFFFFFFFF 0 else if i = 2 then SEG 0x2 0 0xFFFFFFFF 0
     else if i = 3 then SEG 0xA 0 0xFFFFFFFF 3 else if i = 4 then SEG 0x2 0 0xFFFFFFFF 3 else SEG_NULL)"

abbreviation (input) KSTACKTOP :: u32 where "KSTACKTOP \<equiv> 0xF0000000"
abbreviation (input) KSTKSIZE :: u32 where "KSTKSIZE \<equiv> 0x8000"
abbreviation (input) KSTKGAP :: u32 where "KSTKGAP \<equiv> 0x8000"

section \<open>The interrupt descriptor table\<close>

text \<open>The entry points of \<^verbatim>\<open>kern/trapentry.S\<close>.\<close>

datatype trap_entry = DIVIDE | DEBUG | NMI | BRKPT | OFLOW | BOUND | ILLOP | DEVICE | DBLFLT | TSS | SEGNP
  | STACK | GPFLT | PGFLT | FPERR | ALIGN | MCHK | SIMDERR | SYSCALL | DEFAULT | IRQsHandler nat

text \<open>The trap number an entry point pushes, and whether it pushes a 0 in place of an error code
  (\<^verbatim>\<open>TRAPHANDLER_NOEC\<close>).\<close>

fun pushes :: "trap_entry \<Rightarrow> nat \<times> bool" where
  "pushes DIVIDE = (0, True)"
| "pushes DEBUG = (1, True)"
| "pushes NMI = (2, True)"
| "pushes BRKPT = (3, True)"
| "pushes OFLOW = (4, True)"
| "pushes BOUND = (5, True)"
| "pushes ILLOP = (6, True)"
| "pushes DEVICE = (7, True)"
| "pushes DBLFLT = (8, False)"
| "pushes TSS = (10, False)"
| "pushes SEGNP = (11, False)"
| "pushes STACK = (12, False)"
| "pushes GPFLT = (13, False)"
| "pushes PGFLT = (14, False)"
| "pushes FPERR = (16, True)"
| "pushes ALIGN = (17, False)"
| "pushes MCHK = (18, True)"
| "pushes SIMDERR = (19, True)"
| "pushes SYSCALL = (48, True)"
| "pushes DEFAULT = (500, True)"
| "pushes (IRQsHandler i) = (32 + i, True)"

text \<open>The \<^verbatim>\<open>SETGATE\<close> statements of \<^verbatim>\<open>trap_init\<close> in order: index, entry point, privilege.\<close>

definition trap_gates :: "(nat \<times> trap_entry \<times> u8) list" where
  "trap_gates =
     [(0, DIVIDE, 0), (1, DEBUG, 0), (2, NMI, 0), (3, BRKPT, 3), (4, OFLOW, 0), (5, BOUND, 0), (6, ILLOP, 0),
      (7, DEVICE, 0), (8, DBLFLT, 0), (10, TSS, 0), (11, SEGNP, 0), (12, STACK, 0), (13, GPFLT, 0),
      (14, PGFLT, 0), (16, FPERR, 0), (17, ALIGN, 0), (18, MCHK, 0), (19, SIMDERR, 0), (48, SYSCALL, 3),
      (500, DEFAULT, 0), (32, IRQsHandler 0, 0), (33, IRQsHandler 1, 0), (34, IRQsHandler 2, 0),
      (35, IRQsHandler 3, 0), (36, IRQsHandler 4, 0), (37, IRQsHandler 5, 0), (38, IRQsHandler 6, 0),
      (39, IRQsHandler 7, 0), (40, IRQsHandler 8, 0), (41, IRQsHandler 9, 0), (42, IRQsHandler 10, 0),
      (43, IRQsHandler 11, 0), (44, IRQsHandler 12, 0), (45, IRQsHandler 13, 0), (46, IRQsHandler 14, 0),
      (47, IRQsHandler 15, 0)]"

text \<open>\<open>addr\<close> gives the linked address of an entry point. The C array has 256 elements; an index
  beyond them is a write behind the array.\<close>

definition trap_init :: "(trap_entry \<Rightarrow> u32) \<Rightarrow> (nat \<Rightarrow> Gatedesc) \<Rightarrow> nat \<Rightarrow> Gatedesc" where
  "trap_init addr idt = fold (\<lambda>(i, h, dpl) t. t(i := SETGATE False GD_KT (addr h) dpl)) trap_gates idt"

record seg_state =
  gdt :: "nat \<Rightarrow> Segdesc"
  task_register :: u16
  idt_loaded :: bool

text \<open>\<open>ts_at\<close> is the address of \<^verbatim>\<open>thiscpu->cpu_ts\<close>.\<close>

definition trap_init_percpu :: "u32 \<Rightarrow> kstate \<times> seg_state \<Rightarrow> kstate \<times> seg_state" where
  "trap_init_percpu ts_at = (\<lambda>(s, g).
     let me = cpunum s; i = cpu_id (cpus s me);
         ts = \<lparr>ts_esp0 = KSTACKTOP - ucast i * (KSTKSIZE + KSTKGAP), ts_ss0 = GD_KD, ts_iomb = 104\<rparr>;
         slot = 5 + unat i;
         seg = (SEG16 0x9 ts_at (104 - 1) 0)\<lparr>sd_s := False\<rparr>
     in (s\<lparr>cpus := (cpus s)(me := (cpus s me)\<lparr>cpu_ts := ts\<rparr>)\<rparr>,
         g\<lparr>gdt := (gdt g)(slot := seg), task_register := 0x28 + push_bit 3 (ucast i), idt_loaded := True\<rparr>))"

section \<open>Printing a trap frame\<close>

datatype tfref = Stack_Tf Trapframe | Env_Tf nat

record trap_hw =
  cr2 :: u32
  eflags :: u32
  tf_addr :: "tfref \<Rightarrow> u32"

definition tf_get :: "tfref \<Rightarrow> kstate \<Rightarrow> Trapframe" where
  "tf_get r s = (case r of Stack_Tf tf \<Rightarrow> tf | Env_Tf e \<Rightarrow> env_tf (envs s e))"

definition tf_upd :: "tfref \<Rightarrow> (Trapframe \<Rightarrow> Trapframe) \<Rightarrow> kstate \<Rightarrow> kstate" where
  "tf_upd r f s = (case r of Stack_Tf tf \<Rightarrow> s | Env_Tf e \<Rightarrow> upd_env e (\<lambda>v. v\<lparr>env_tf := f (env_tf v)\<rparr>) s)"

definition excnames :: "string list" where
  "excnames = [''Divide error'', ''Debug'', ''Non-Maskable Interrupt'', ''Breakpoint'', ''Overflow'',
     ''BOUND Range Exceeded'', ''Invalid Opcode'', ''Device Not Available'', ''Double Fault'',
     ''Coprocessor Segment Overrun'', ''Invalid TSS'', ''Segment Not Present'', ''Stack Fault'',
     ''General Protection'', ''Page Fault'', ''(unknown trap)'', ''x87 FPU Floating-Point Error'',
     ''Alignment Check'', ''Machine-Check'', ''SIMD Floating-Point Exception'']"

text \<open>\<^verbatim>\<open>trapno < ARRAY_SIZE(excnames)\<close> compares as unsigned.\<close>

definition trapname :: "u32 \<Rightarrow> string" where
  "trapname trapno =
     (if trapno < 20 then excnames ! unat trapno
      else if trapno = 48 then ''System call''
      else if sint trapno \<ge> 32 \<and> sint trapno < 48 then ''Hardware Interrupt''
      else ''(unknown trap)'')"

definition str_arg :: "string \<Rightarrow> va" where
  "str_arg x = VStr (Some (map of_char x))"

definition print_regs :: "PushRegs \<Rightarrow> (kstate, unit) op" where
  "print_regs r =
     kthen (kprintf (''  edi  0x%08x'' @ NL) [VInt (reg_edi r)])
     (kthen (kprintf (''  esi  0x%08x'' @ NL) [VInt (reg_esi r)])
     (kthen (kprintf (''  ebp  0x%08x'' @ NL) [VInt (reg_ebp r)])
     (kthen (kprintf (''  oesp 0x%08x'' @ NL) [VInt (reg_oesp r)])
     (kthen (kprintf (''  ebx  0x%08x'' @ NL) [VInt (reg_ebx r)])
     (kthen (kprintf (''  edx  0x%08x'' @ NL) [VInt (reg_edx r)])
     (kthen (kprintf (''  ecx  0x%08x'' @ NL) [VInt (reg_ecx r)])
     (kprintf (''  eax  0x%08x'' @ NL) [VInt (reg_eax r)])))))))"

text \<open>\<open>is_last\<close> is \<^verbatim>\<open>tf == last_tf\<close>.\<close>

definition print_trapframe :: "trap_hw \<Rightarrow> bool \<Rightarrow> tfref \<Rightarrow> (kstate, unit) op" where
  "print_trapframe hw is_last r =
     kbind (kget (tf_get r)) (\<lambda>tf. kbind (kget cpunum) (\<lambda>cpu.
     kthen (kprintf (''TRAP frame at %p from CPU %d'' @ NL) [VInt (tf_addr hw r), VInt (of_nat cpu)])
     (kthen (print_regs (tf_regs tf))
     (kthen (kprintf (''  es   0x----%04x'' @ NL) [VInt (ucast (tf_es tf))])
     (kthen (kprintf (''  ds   0x----%04x'' @ NL) [VInt (ucast (tf_ds tf))])
     (kthen (kprintf (''  trap 0x%08x %s'' @ NL) [VInt (tf_trapno tf), str_arg (trapname (tf_trapno tf))])
     (kthen (if is_last \<and> tf_trapno tf = 14 then kprintf (''  cr2  0x%08x'' @ NL) [VInt (cr2 hw)] else kret ())
     (kthen (kprintf ''  err  0x%08x'' [VInt (tf_err tf)])
     (kthen (if tf_trapno tf = 14
             then kprintf ('' [%s, %s, %s]'' @ NL)
                    [str_arg (if tf_err tf AND 4 \<noteq> 0 then ''user'' else ''kernel''),
                     str_arg (if tf_err tf AND 2 \<noteq> 0 then ''write'' else ''read''),
                     str_arg (if tf_err tf AND 1 \<noteq> 0 then ''protection'' else ''not-present'')]
             else kprintf NL [])
     (kthen (kprintf (''  eip  0x%08x'' @ NL) [VInt (tf_eip tf)])
     (kthen (kprintf (''  cs   0x----%04x'' @ NL) [VInt (ucast (tf_cs tf))])
     (kthen (kprintf (''  flag 0x%08x'' @ NL) [VInt (tf_eflags tf)])
     (if tf_cs tf AND 3 \<noteq> 0
      then kthen (kprintf (''  esp  0x%08x'' @ NL) [VInt (tf_esp tf)])
           (kprintf (''  ss   0x----%04x'' @ NL) [VInt (ucast (tf_ss tf))])
      else kret ())))))))))))))"

section \<open>Dispatch\<close>

definition lapic_eoi :: "(kstate, unit) op" where
  "lapic_eoi = kmod (\<lambda>s. if lapic (apic s) \<noteq> 0
     then s\<lparr>apic := (apic s)\<lparr>lapic_log := (0x2C, 0) # lapic_log (apic s)\<rparr>\<rparr> else s)"

text \<open>A user trap frame takes 52 bytes and one more word is left free above it.\<close>

definition utf_address :: "u32 \<Rightarrow> u32" where
  "utf_address esp = (if esp \<ge> UXSTACKTOP - PGSIZE \<and> esp < UXSTACKTOP then esp - 56 else UXSTACKTOP - 56)"

definition store_utf :: "u32 \<Rightarrow> u32 \<Rightarrow> Trapframe \<Rightarrow> (kstate, unit) op" where
  "store_utf utf fault_va tf =
     kthen (vstore32 utf fault_va)
     (kthen (vstore32 (utf + 44) (tf_eflags tf))
     (kthen (vstore32 (utf + 4) (tf_err tf))
     (kthen (vstore32 (utf + 48) (tf_esp tf))
     (kthen (vstore32 (utf + 40) (tf_eip tf))
     (kthen (vstore32 (utf + 8) (reg_edi (tf_regs tf)))
     (kthen (vstore32 (utf + 12) (reg_esi (tf_regs tf)))
     (kthen (vstore32 (utf + 16) (reg_ebp (tf_regs tf)))
     (kthen (vstore32 (utf + 20) (reg_oesp (tf_regs tf)))
     (kthen (vstore32 (utf + 24) (reg_ebx (tf_regs tf)))
     (kthen (vstore32 (utf + 28) (reg_edx (tf_regs tf)))
     (kthen (vstore32 (utf + 32) (reg_ecx (tf_regs tf)))
     (vstore32 (utf + 36) (reg_eax (tf_regs tf))))))))))))))"

definition page_fault_handler :: "trap_hw \<Rightarrow> tfref \<Rightarrow> (kstate, unit) op" where
  "page_fault_handler hw r =
     kbind (kget (tf_get r)) (\<lambda>tf.
     if tf_cs tf AND 3 = 0 then kpanic ''At page_fault_handler: page fault''
     else curenv_get (\<lambda>c.
       kbind (kget (\<lambda>s. env_pgfault_upcall (envs s c))) (\<lambda>upcall.
       kthen (if upcall = 0
              then kbind (kget (\<lambda>s. env_id (envs s c))) (\<lambda>envid.
                   kthen (kprintf (''[%08x] user fault va %08x ip %08x'' @ NL)
                            [VInt envid, VInt (cr2 hw), VInt (tf_eip tf)])
                   (kthen (print_trapframe hw True r)
                   (env_destroy c)))
              else kret ())
       (let addr = utf_address (tf_esp tf)
        in kthen (user_mem_assert c addr 56 (PTE_P OR PTE_W OR PTE_U))
           (kthen (store_utf addr (cr2 hw) tf)
           (kthen (kmod (tf_upd r (\<lambda>f. f\<lparr>tf_eip := upcall, tf_esp := addr\<rparr>)))
           (env_run c)))))))"

text \<open>\<open>Gone Monitor\<close> is the entry into \<^verbatim>\<open>monitor\<close>, which never comes back.\<close>

definition monitor_enter :: "(kstate, unit) op" where
  "monitor_enter s = Gone Monitor s"

definition con_intr :: "(console \<Rightarrow> console option) \<Rightarrow> (kstate, unit) op" where
  "con_intr f s = (case f (con s) of None \<Rightarrow> Panic ''device polling'' | Some c \<Rightarrow> Ret () (s\<lparr>con := c\<rparr>))"

definition trap_dispatch :: "trap_hw \<Rightarrow> tfref \<Rightarrow> (kstate, unit) op" where
  "trap_dispatch hw r =
     kbind (kget (tf_get r)) (\<lambda>tf.
     let n = tf_trapno tf; regs = tf_regs tf
     in if n = 39
        then kthen (kprintf (''Spurious interrupt on irq 7'' @ NL) []) (print_trapframe hw True r)
        else if n = 14 then page_fault_handler hw r
        else if n = 3 then monitor_enter
        else if n = 1 then monitor_enter
        else if n = 48
        then kbind (syscall (reg_eax regs) (reg_edx regs) (reg_ecx regs) (reg_ebx regs) (reg_edi regs) (reg_esi regs)) (\<lambda>ret.
             kmod (tf_upd r (\<lambda>f. f\<lparr>tf_regs := (tf_regs f)\<lparr>reg_eax := word_of_int ret\<rparr>\<rparr>)))
        else if n = 32 then kthen lapic_eoi sched_yield
        else if n = 33 then kthen lapic_eoi (con_intr kbd_intr)
        else if n = 36 then kthen lapic_eoi (con_intr serial_intr)
        else kthen (print_trapframe hw True r)
             (if tf_cs tf = GD_KT then kpanic ''unhandled trap in kernel''
              else curenv_get env_destroy))"

text \<open>The end of \<^verbatim>\<open>trap\<close>: back to the current environment if it may run, else the scheduler.\<close>

definition trap_return :: "(kstate, unit) op" where
  "trap_return s = (case curenv s of
     Some c \<Rightarrow> if env_status (envs s c) = ENV_RUNNING then env_run c s else sched_yield s
   | None \<Rightarrow> sched_yield s)"

definition trap :: "trap_hw \<Rightarrow> Trapframe \<Rightarrow> (kstate, unit) op" where
  "trap hw tf s =
     (if panicstr s then Gone Halted s
      else let was = cpu_status (cpus s (cpunum s))
           in kthen (kmod (\<lambda>s. s\<lparr>cpus := (cpus s)(cpunum s := (cpus s (cpunum s))\<lparr>cpu_status := CPU_STARTED\<rparr>)\<rparr>))
              (kthen (if was = CPU_HALTED then lock_kernel else kret ())
              (kthen (kassert (eflags hw AND FL_IF = 0))
              (kbind (if tf_cs tf AND 3 = 3
                      then kthen lock_kernel
                           (kthen (\<lambda>s. kassert (curenv s \<noteq> None) s)
                           (curenv_get (\<lambda>c.
                              kthen (\<lambda>s. if env_status (envs s c) = ENV_DYING
                                         then kthen (env_free c) (kthen (kmod (set_curenv None)) sched_yield) s
                                         else Ret () s)
                              (kthen (kmod (upd_env c (\<lambda>v. v\<lparr>env_tf := tf\<rparr>)))
                              (kret (Env_Tf c))))))
                      else kret (Stack_Tf tf)) (\<lambda>r.
               kthen (trap_dispatch hw r) trap_return)))) s)"

end
