(* ===== verification/Trap_Theorems.thy ===== *)
theory Trap_Theorems
  imports Trap Sample_Kernel
begin

text \<open>
  Correctness of the trap path: the descriptor table, and that a trap from user mode keeps the
  kernel invariant and always ends in a user environment, the idle loop or the monitor.
\<close>

section \<open>The descriptor table\<close>

definition idt_after :: "(trap_entry \<Rightarrow> u32) \<Rightarrow> nat \<Rightarrow> Gatedesc" where
  "idt_after addr = trap_init addr (\<lambda>_. no_gate)"

lemma fold_gates:
  "fold (\<lambda>(i, h, dpl) t. t(i := SETGATE False GD_KT (addr h) dpl)) gs t v =
     (case map_of (rev gs) v of Some (h, dpl) \<Rightarrow> SETGATE False GD_KT (addr h) dpl | None \<Rightarrow> t v)"
  by (induction gs arbitrary: t) (auto split: option.splits simp: map_add_def)

lemma trap_gates_map:
  "map_of (rev trap_gates) v = Some (h, dpl) \<Longrightarrow> (v, h, dpl) \<in> set trap_gates"
  by (auto dest: map_of_SomeD)

lemma trap_gates_dom: "map_of (rev trap_gates) v = None \<longleftrightarrow> v \<notin> fst ` set trap_gates"
  by (simp add: map_of_eq_None_iff)

text \<open>The table that \<open>trap_init\<close> builds. A gate is present exactly for the vectors 0-8, 10-14,
  16-19 and 32-48; every gate is an interrupt gate (interrupts stay off in the kernel) into the
  kernel code segment, its entry point pushes the trap number of that vector and a dummy error code
  exactly where the processor pushes none, and user code may raise only the breakpoint and the
  system call vector itself.\<close>

theorem trap_init_gates:
  assumes "v < 256"
  shows "(gd_p (idt_after addr v) \<longleftrightarrow> v \<in> {0..8} \<union> {10..14} \<union> {16..19} \<union> {32..48}) \<and>
    (gd_p (idt_after addr v) \<longrightarrow> (\<exists>h. pushes h = (v, v \<notin> {8, 10, 11, 12, 13, 14, 17}) \<and>
       idt_after addr v = SETGATE False GD_KT (addr h) (if v = 3 \<or> v = 48 then 3 else 0)))"
proof -
  have e: "idt_after addr v = (case map_of (rev trap_gates) v of
      Some (h, dpl) \<Rightarrow> SETGATE False GD_KT (addr h) dpl | None \<Rightarrow> no_gate)"
    by (simp add: idt_after_def trap_init_def fold_gates)
  have dom: "v \<in> fst ` set trap_gates \<longleftrightarrow> v \<in> {0..8} \<union> {10..14} \<union> {16..19} \<union> {32..48}"
    using assms by (simp add: trap_gates_def) presburger
  have ent: "pushes h = (v, v \<notin> {8, 10, 11, 12, 13, 14, 17}) \<and> dpl = (if v = 3 \<or> v = 48 then 3 else 0)"
    if "(v, h, dpl) \<in> set trap_gates" for h dpl
    using that assms by (auto simp: trap_gates_def)
  show ?thesis
  proof (cases "map_of (rev trap_gates) v")
    case None
    then show ?thesis using e dom trap_gates_dom [of v] by (simp add: no_gate_def)
  next
    case (Some p)
    then obtain h dpl where p: "map_of (rev trap_gates) v = Some (h, dpl)" by (cases p) auto
    from ent [OF trap_gates_map [OF this]] e p dom trap_gates_dom [of v] show ?thesis
      by (auto simp: SETGATE_def)
  qed
qed

theorem trap_init_gates_witness:
  "gd_dpl (idt_after (\<lambda>_. 0xF0104000) 48) = 3 \<and> \<not> gd_p (idt_after (\<lambda>_. 0xF0104000) 9)"
  using trap_init_gates [of 48 "\<lambda>_. 0xF0104000"] trap_init_gates [of 9 "\<lambda>_. 0xF0104000"]
  by (auto simp: SETGATE_def)

text \<open>The catch-all entry is written at index 500 of a table of 256 gates, that is, into whatever
  the linker placed 4000 bytes behind the start of the table.\<close>

theorem trap_init_writes_past_idt:
  "(500 :: nat) \<ge> 256 \<and> trap_init addr t 500 = SETGATE False GD_KT (addr DEFAULT) 0"
  by (simp add: trap_init_def trap_gates_def)

section \<open>Traps from user mode\<close>

text \<open>Operations that only print.\<close>

definition only_prints :: "(kstate, unit) op \<Rightarrow> bool" where
  "only_prints m \<longleftrightarrow> (\<forall>s. \<exists>c. m s = Ret () (s\<lparr>con := c\<rparr>))"

lemma only_printsI [intro]:
  "only_prints (kprintf fmt ap)" "only_prints (kret ())"
  "only_prints m \<Longrightarrow> only_prints n \<Longrightarrow> only_prints (kthen m n)"
  "only_prints m \<Longrightarrow> only_prints n \<Longrightarrow> only_prints (if b then m else n)"
  "(\<And>x. only_prints (f x)) \<Longrightarrow> only_prints (kbind (kget g) f)"
proof -
  show "only_prints (kprintf fmt ap)" by (auto simp: only_prints_def kprintf_def)
  have "kret () s = Ret () (s\<lparr>con := con s\<rparr>)" for s :: kstate by simp
  then show "only_prints (kret ())" unfolding only_prints_def by blast
  show "only_prints (kthen m n)" if mn: "only_prints m" "only_prints n"
    unfolding only_prints_def
  proof
    fix s
    obtain c where c: "m s = Ret () (s\<lparr>con := c\<rparr>)" using mn(1) by (auto simp: only_prints_def)
    obtain c' where "n (s\<lparr>con := c\<rparr>) = Ret () (s\<lparr>con := c, con := c'\<rparr>)"
      using mn(2) unfolding only_prints_def by blast
    then have "kthen m n s = Ret () (s\<lparr>con := c'\<rparr>)" using c by simp
    then show "\<exists>c. kthen m n s = Ret () (s\<lparr>con := c\<rparr>)" by blast
  qed
  show "only_prints m \<Longrightarrow> only_prints n \<Longrightarrow> only_prints (if b then m else n)" by simp
  show "(\<And>x. only_prints (f x)) \<Longrightarrow> only_prints (kbind (kget g) f)" by (simp add: only_prints_def)
qed

lemma print_regs_prints: "only_prints (print_regs r)"
  unfolding print_regs_def by (intro only_printsI)

lemma print_trapframe_prints: "only_prints (print_trapframe hw b r)"
  unfolding print_trapframe_def by (intro only_printsI print_regs_prints)

lemma kernel_ok_same:
  assumes "kernel_ok kd ext s" and "phys s' = phys s" and "pages s' = pages s" and "npages s' = npages s"
    and "page_free_list s' = page_free_list s" and "envs s' = envs s" and "env_free_list s' = env_free_list s"
    and "kern_pgdir s' = kern_pgdir s" and "curenv s' = curenv s"
  shows "kernel_ok kd ext s'"
proof (rule kernel_ok_cong(1) [OF assms(1)])
  show "vm_ok s' (dirs s) ext" by (rule vm_ok_same [OF kernel_okD(1) [OF assms(1)]]) (simp_all add: assms)
qed (use assms kernel_okD(11) [OF assms(1)] in simp_all)

lemma only_prints_safe:
  assumes "only_prints m" and "kernel_ok kd ext s" and "holding (cpunum s) (kernel_lock s)"
  shows "safe_outcome kd ext (m s)"
proof -
  obtain c where "m s = Ret () (s\<lparr>con := c\<rparr>)" using assms(1) unfolding only_prints_def by blast
  then show ?thesis using kernel_ok_con [OF assms(2)] assms(3) by simp
qed

text \<open>Operations after which control has left for good.\<close>

definition leaves :: "nat \<Rightarrow> (nat \<Rightarrow> nat) \<Rightarrow> (kstate, 'a) outcome \<Rightarrow> bool" where
  "leaves kd ext r \<longleftrightarrow> (\<exists>l s'. r = Gone l s' \<and> kernel_ok kd ext s' \<and> left_ok l s')"

lemma leaves_safe: "leaves kd ext r \<Longrightarrow> safe_outcome kd ext r"
  by (auto simp: leaves_def)

lemma leaves_kbind: "leaves kd ext (m s) \<Longrightarrow> leaves kd ext (kbind m f s)"
  by (auto simp: leaves_def)

lemma leaves_kthen: "leaves kd ext (m s) \<Longrightarrow> leaves kd ext (kthen m n s)"
  unfolding kthen_def by (rule leaves_kbind)

lemma leaves_after_print:
  assumes "only_prints m" and "\<And>c. leaves kd ext (n (s\<lparr>con := c\<rparr>))"
  shows "leaves kd ext (kthen m n s)"
proof -
  obtain c where "m s = Ret () (s\<lparr>con := c\<rparr>)" using assms(1) unfolding only_prints_def by blast
  then show ?thesis using assms(2) [of c] by simp
qed

lemma kthen_assoc: "kthen (kthen a b) c = kthen a (kthen b c)"
  by (rule ext) (simp add: kthen_def kbind_def split: outcome.splits)

lemma sched_yield_leaves:
  assumes "kernel_ok kd ext s" and "holding (cpunum s) (kernel_lock s)"
  shows "leaves kd ext (sched_yield s)"
  by (rule sched_yield_ok [OF assms]) (use assms kernel_ok_con in \<open>auto simp: leaves_def\<close>)

lemma trap_return_leaves:
  assumes "kernel_ok kd ext s" and "holding (cpunum s) (kernel_lock s)"
  shows "leaves kd ext (trap_return s)"
proof (cases "\<exists>c. curenv s = Some c \<and> env_status (envs s c) = ENV_RUNNING")
  case True
  then obtain c where c: "curenv s = Some c" "env_status (envs s c) = ENV_RUNNING" by blast
  show ?thesis
    by (rule env_run_ok [OF assms(1) kernel_okD(11) [OF assms(1) c(1)] assms(2)])
      (use c in \<open>auto simp: leaves_def trap_return_def\<close>)
next
  case False
  with sched_yield_leaves [OF assms] show ?thesis by (auto simp: trap_return_def split: option.splits)
qed

lemma env_destroy_self_leaves:
  assumes ok: "kernel_ok kd ext s" and c: "curenv s = Some c" and lk: "holding (cpunum s) (kernel_lock s)"
  shows "leaves kd ext (env_destroy c s)"
proof -
  obtain s' where s': "env_free c s = Ret () s'" "curenv s' = curenv s" "kernel_lock s' = kernel_lock s"
    "cpunum s' = cpunum s" "kernel_ok kd ext (if curenv s = Some c then set_curenv None s' else s')"
    by (rule env_free_kernel_ok [OF ok kernel_okD(11) [OF ok c]])
  have "env_destroy c s = sched_yield (set_curenv None s')"
    using c s'(1,2) by (simp add: env_destroy_def kthen_def kbind_def)
  then show ?thesis
    using sched_yield_leaves [of kd ext "set_curenv None s'"] s'(3-5) lk c by (simp add: set_curenv_def)
qed

lemma page_fault_no_upcall:
  assumes sys: "in_syscall kd ext c s" and u: "tf_cs (tf_get r s) AND 3 = 3" "env_pgfault_upcall (envs s c) = 0"
  shows "leaves kd ext (page_fault_handler hw r s)"
proof -
  note D = in_syscallD [OF sys]
  have d: "leaves kd ext (env_destroy c (s\<lparr>con := x\<rparr>))" for x
    by (rule env_destroy_self_leaves [OF kernel_ok_con [OF D(1)]]) (use D(2,3) in \<open>simp_all add: curenv_def\<close>)
  have p: "only_prints (kthen (kprintf fmt ap) (print_trapframe hw True r))" for fmt ap
    by (intro only_printsI print_trapframe_prints)
  have "leaves kd ext (kthen (kprintf fmt ap) (kthen (print_trapframe hw True r) (env_destroy c)) s)" for fmt ap
    unfolding kthen_assoc [symmetric]
    by (rule leaves_after_print [where n = "env_destroy c", OF p]) (rule d)
  then show ?thesis
    using u by (simp add: page_fault_handler_def curenv_get_in [OF sys]) (simp add: leaves_kthen)
qed

lemma trap_dispatch_safe:
  assumes sys: "in_syscall kd ext c s" and room: "\<And>p. unat (pp_ref (pages s p)) < 65535"
    and tf: "env_tf (envs s c) = tf" and user: "tf_cs tf AND 3 = 3"
    and call: "tf_trapno tf = 48 \<Longrightarrow> checked_call (reg_eax (tf_regs tf)) (reg_edx (tf_regs tf)) (reg_ebx (tf_regs tf)) c s"
    and fault: "tf_trapno tf = 14 \<Longrightarrow> env_pgfault_upcall (envs s c) = 0"
  shows "safe_outcome kd ext (trap_dispatch hw (Env_Tf c) s)"
proof -
  note D = in_syscallD [OF sys]
  let ?r = "Env_Tf c"
  let ?n = "tf_trapno tf" and ?g = "tf_regs tf"
  have get: "tf_get ?r s = tf" using tf by (simp add: tf_get_def)
  have eoi: "\<exists>s1. lapic_eoi s = Ret () s1 \<and> kernel_ok kd ext s1 \<and> holding (cpunum s1) (kernel_lock s1)"
    using kernel_ok_same [OF D(1)] D(1,3) by (auto simp: lapic_eoi_def curenv_def)
  have intr: "safe_outcome kd ext (kthen lapic_eoi (con_intr f) s)" if tot: "\<And>x. \<exists>y. f x = Some y" for f
  proof -
    from eoi obtain s1 where s1: "lapic_eoi s = Ret () s1" "kernel_ok kd ext s1" "holding (cpunum s1) (kernel_lock s1)" by blast
    obtain y where "f (con s1) = Some y" using tot [of "con s1"] by blast
    then show ?thesis using s1 kernel_ok_con [OF s1(2)] by (simp add: con_intr_def)
  qed
  have timer: "safe_outcome kd ext (kthen lapic_eoi sched_yield s)"
    using eoi sched_yield_safe by fastforce
  have destroy: "leaves kd ext (kthen (print_trapframe hw True ?r) (curenv_get env_destroy) s)"
  proof (rule leaves_after_print [OF print_trapframe_prints])
    fix x
    have "leaves kd ext (env_destroy c (s\<lparr>con := x\<rparr>))"
      by (rule env_destroy_self_leaves [OF kernel_ok_con [OF D(1)]]) (use D(2,3) in \<open>simp_all add: curenv_def\<close>)
    then show "leaves kd ext (curenv_get env_destroy (s\<lparr>con := x\<rparr>))"
      using D(2) by (simp add: curenv_get_def curenv_def)
  qed
  have sc: "safe_outcome kd ext (kbind (syscall (reg_eax ?g) (reg_edx ?g) (reg_ecx ?g) (reg_ebx ?g) (reg_edi ?g) (reg_esi ?g))
      (\<lambda>ret. kmod (tf_upd ?r (\<lambda>f. f\<lparr>tf_regs := (tf_regs f)\<lparr>reg_eax := word_of_int ret\<rparr>\<rparr>))) s)"
    if "?n = 48"
    using syscall_safe [OF sys room call [OF that], of "reg_ecx ?g" "reg_edi ?g" "reg_esi ?g"]
    by (cases "syscall (reg_eax ?g) (reg_edx ?g) (reg_ecx ?g) (reg_ebx ?g) (reg_edi ?g) (reg_esi ?g) s")
      (auto simp: kbind_def tf_upd_def intro!: kernel_ok_upd_env)
  have cs: "tf_cs tf \<noteq> GD_KT" using user by auto
  have spur: "safe_outcome kd ext (kthen (kprintf fmt ap) (print_trapframe hw True ?r) s)" for fmt ap
    by (rule only_prints_safe [OF _ D(1,3)]) (intro only_printsI print_trapframe_prints)
  have mon: "safe_outcome kd ext (monitor_enter s)" using D(1,3) by (simp add: monitor_enter_def)
  have pf: "safe_outcome kd ext (page_fault_handler hw ?r s)" if "?n = 14"
    by (rule leaves_safe, rule page_fault_no_upcall [OF sys]) (use get user fault that in simp_all)
  show ?thesis
    unfolding trap_dispatch_def kbind_Ret [OF kget_apply] get Let_def
    using sc pf mon spur timer intr [OF kbd_intr_total] intr [OF serial_intr_total] leaves_safe [OF destroy] cs
    by (simp split: if_split)
qed


text \<open>A timer interrupt on the sample machine, whose lock is free while the environment runs.\<close>

definition sample_running :: kstate where
  "sample_running = sample\<lparr>kernel_lock := \<lparr>locked = False, lock_cpu = None\<rparr>\<rparr>"

definition timer_tf :: Trapframe where
  "timer_tf = zero_tf\<lparr>tf_trapno := 32, tf_cs := 0x1B\<rparr>"


end
