(* ===== verification/Console_Theorems.thy ===== *)
theory Console_Theorems
  imports Console
begin

text \<open>
  Correctness of the console driver: the screen cursor stays on the screen, input is delivered in
  order, polling ends, and the input buffer loses its contents when it overflows.
\<close>

section \<open>The screen\<close>

text \<open>The cells beyond the screen are not the driver's.\<close>

definition screen_ok :: "console \<Rightarrow> console \<Rightarrow> bool" where
  "screen_ok s t \<longleftrightarrow> unat (crt_pos t) < 2000 \<and> (\<forall>i\<ge>2000. crt_buf t i = crt_buf s i)"

lemma cga_finish_ok:
  assumes "unat (crt_pos s) < 2080"
  shows "unat (crt_pos (cga_finish s)) < 2000" and "i \<ge> 2000 \<Longrightarrow> crt_buf (cga_finish s) i = crt_buf s i"
proof -
  have "unat (crt_pos s - 80) < 2000" if "2000 \<le> crt_pos s"
    using that assms by (simp add: unat_sub word_le_nat_alt)
  then show "unat (crt_pos (cga_finish s)) < 2000"
    by (auto simp: cga_finish_def Let_def outb_def word_le_nat_alt)
qed (simp add: cga_finish_def Let_def outb_def)

lemma unat_sub_mod: "unat (p - p mod k) \<le> unat (p :: u16)"
  by (simp add: unat_sub word_le_nat_alt unat_mod)

lemma cga_put_plain_ok:
  assumes "unat (crt_pos s) < 2000"
  shows "screen_ok s (cga_put_plain c s)"
proof -
  have p80: "unat (crt_pos s + 80) < 2080" and p1: "unat (crt_pos s + 1) < 2080"
    using assms by (simp_all add: unat_word_ariths)
  have m1: "unat (crt_pos s - 1) < 2000" if "0 < crt_pos s"
    using that assms by (simp add: unat_sub word_le_nat_alt word_less_nat_alt)
  have nl: "unat (crt_pos s + 80 - (crt_pos s + 80) mod 80) < 2080"
    "unat (crt_pos s - crt_pos s mod 80) < 2080"
    using unat_sub_mod [of "crt_pos s + 80" 80] unat_sub_mod [of "crt_pos s" 80] p80 assms by linarith+
  show ?thesis
    using assms p1 m1 nl unfolding screen_ok_def cga_put_plain_def Let_def
    by (auto simp: cga_finish_ok)
qed

lemma put_blank_ok: "screen_ok s0 s \<Longrightarrow> screen_ok s0 (put_blank s)"
  using cga_put_plain_ok [of "lpt_putc 32 (serial_putc 32 (s\<lparr>screen_log := 32 # screen_log s\<rparr>))" 32]
  by (simp add: put_blank_def screen_ok_def lpt_putc_def serial_putc_def outb_def)

text \<open>Whatever is printed, the cursor stays inside the 80 by 25 screen and no cell outside the
  screen buffer is written: wrapping, newline, backspace, tab and scrolling included.\<close>

theorem cons_putc_stays_on_screen:
  assumes "crt_pos s < CRT_SIZE"
  shows "crt_pos (cons_putc c s) < CRT_SIZE \<and> (\<forall>i\<ge>2000. crt_buf (cons_putc c s) i = crt_buf s i)"
proof -
  let ?s = "lpt_putc c (serial_putc c (s\<lparr>screen_log := c # screen_log s\<rparr>))"
  have f: "crt_pos ?s = crt_pos s" "crt_buf ?s = crt_buf s"
    by (simp_all add: lpt_putc_def serial_putc_def outb_def)
  then have p: "unat (crt_pos ?s) < 2000" using assms by (simp add: word_less_nat_alt)
  have "screen_ok ?s (cga_putc c ?s)"
  proof (cases "c AND 0xFF = 9")
    case True
    have "screen_ok ?s (put_blank (put_blank (put_blank (put_blank (put_blank ?s)))))"
      using p by (intro put_blank_ok) (simp add: screen_ok_def)
    with True cga_finish_ok show ?thesis by (simp add: cga_putc_def screen_ok_def)
  next
    case False
    with cga_put_plain_ok [OF p] show ?thesis by (simp add: cga_putc_def)
  qed
  then show ?thesis by (simp add: cons_putc_def screen_ok_def f word_less_nat_alt)
qed

definition boot_console :: console where
  "boot_console = \<lparr>cbuf = (\<lambda>_. 0), rpos = 0, wpos = 0, kshift = 0, serial_exists = True, addr_6845 = 0x3D4,
     crt_buf = (\<lambda>_. 0), crt_pos = 1999, irq_mask = 0xFFFB, didinit = False, kbd_queue = [],
     com_queue = [104, 105], port_log = [], screen_log = []\<rparr>"

theorem cons_putc_stays_on_screen_witness:
  "crt_pos (cons_putc 65 boot_console) = 1920 \<and> crt_pos (cons_putc 65 boot_console) < CRT_SIZE"
  using cons_putc_stays_on_screen [of boot_console 65]
  by (simp add: boot_console_def cons_putc_def cga_putc_def cga_put_plain_def cga_finish_def
      cga_colour_def Let_def lpt_putc_def serial_putc_def outb_def)

section \<open>Input\<close>

lemma cons_intr_serial:
  assumes "buf_ok s" and "pending s + length (com_queue s) < 512" and "length (com_queue s) < n"
  shows "\<exists>t. cons_intr serial_proc_data n s = Some t \<and> buf_ok t \<and> com_queue t = [] \<and>
    kbd_queue t = kbd_queue s \<and> pending t \<le> pending s + length (com_queue s) \<and>
    cons_contents t = cons_contents s @ filter (\<lambda>b. b \<noteq> 0) (com_queue s)"
  using assms
proof (induction n arbitrary: s)
  case 0
  then show ?case by simp
next
  case (Suc n)
  show ?case
  proof (cases "com_queue s")
    case Nil
    with Suc.prems show ?thesis by (simp add: serial_proc_data_def)
  next
    case (Cons b q)
    let ?s = "s\<lparr>com_queue := q\<rparr>"
    let ?t = "if b = 0 then ?s else cons_store b ?s"
    have same: "buf_ok ?s" "pending ?s = pending s" "cons_contents ?s = cons_contents s" "cons_room ?s"
      using Suc.prems Cons by (auto simp: buf_ok_def pending_def cons_contents_def cons_room_def)
    have bn: "uint b \<noteq> -1"
      using uint_nonnegative [of b] by linarith
    have step: "cons_intr serial_proc_data (Suc n) s = cons_intr serial_proc_data n ?t"
      using Cons bn by (simp add: serial_proc_data_def uint_0_iff)
    have t: "buf_ok ?t" "pending ?t \<le> pending s + 1" "com_queue ?t = q" "kbd_queue ?t = kbd_queue s"
      "cons_contents ?t = cons_contents s @ (if b = 0 then [] else [b])"
      using same cons_fifo.put_inv [OF same(1,4)] pending_store [OF same(1,4)] cons_store_contents [OF same(1,4)]
      by (auto simp: cons_store_def Let_def)
    from Suc.IH [OF t(1)] t(2-5) Suc.prems Cons show ?thesis
      unfolding step by auto
  qed
qed

text \<open>(C31) The bytes of the serial line come out of \<open>cons_getc\<close> in the order in which they arrived,
  behind what is already buffered, as long as the buffer has room for them; 0 is returned only when
  there is nothing to read, and polling the devices ends.\<close>

theorem cons_getc_fifo:
  assumes "buf_ok s" and "pending s + length (com_queue s) < 512"
    and "serial_exists s" and "kbd_queue s = []"
  shows "\<exists>c t. cons_getc s = Some (c, t) \<and> buf_ok t \<and>
    (case cons_contents s @ filter (\<lambda>b. b \<noteq> 0) (com_queue s) of
       [] \<Rightarrow> c = 0 \<and> cons_contents t = []
     | b # bs \<Rightarrow> c = uint b \<and> cons_contents t = bs)"
proof -
  obtain t where t: "serial_intr s = Some t" "buf_ok t" "kbd_queue t = []"
    "cons_contents t = cons_contents s @ filter (\<lambda>b. b \<noteq> 0) (com_queue s)"
    using cons_intr_serial [OF assms(1,2), of "Suc (length (com_queue s))"] assms(3,4)
    by (auto simp: serial_intr_def)
  have k: "kbd_intr t = Some t" using t(3) by (simp add: kbd_intr_def kbd_proc_data_def)
  show ?thesis
  proof (cases "cons_take t")
    case None
    then have "cons_contents t = []" using cons_fifo.take1_None [OF t(2)] by simp
    with None t k show ?thesis by (simp add: cons_getc_def)
  next
    case (Some p)
    then obtain b u where p: "cons_take t = Some (b, u)" by (cases p) auto
    with cons_fifo.take1_Some [OF t(2)] have "buf_ok u" "cons_contents t = b # cons_contents u" by blast+
    with p t(1) k show ?thesis by (simp add: cons_getc_def flip: t(4))
  qed
qed

theorem cons_getc_fifo_witness:
  "\<exists>t. cons_getc boot_console = Some (104, t) \<and> cons_contents t = [105]"
  using cons_getc_fifo [of boot_console]
  by (auto simp: boot_console_def buf_ok_def pending_def cons_contents_def)

text \<open>A character too many empties the buffer: with 511 unread characters the next one moves the
  write position onto the read position, and all 512 are lost.\<close>

theorem cons_store_overflow:
  assumes "buf_ok s" and "pending s = 511"
  shows "cons_contents (cons_store b s) = []"
proof -
  have w: "unat (wpos (cons_store b s)) = unat (rpos s)"
    using assms wpos_index [OF assms(1)] cons_store_wpos [of s b]
    by (auto simp: buf_ok_def pending_def ring_mod split: if_splits)
  then show ?thesis
    using assms by (simp add: cons_contents_def pending_def buf_ok_def)
qed

theorem cons_store_overflow_witness:
  "cons_contents (cons_store 65 (boot_console\<lparr>wpos := 511\<rparr>)) = []"
  using cons_store_overflow [of "boot_console\<lparr>wpos := 511\<rparr>" 65]
  by (simp add: boot_console_def buf_ok_def pending_def)

end
