(* ===== verification/Lib_String.thy ===== *)
theory Lib_String
  imports JOS_Prelude
begin

text \<open>
  The string routines of \<^verbatim>\<open>lib/string.c\<close> over a flat 32-bit address space. A loop that runs
  to a terminating null byte is a partial function: \<open>None\<close> means that it never ends.
  \<^verbatim>\<open>memset\<close> and \<^verbatim>\<open>memmove\<close> are the assembly versions that the build selects
  (\<^verbatim>\<open>ASM\<close> is 1): the string instructions \<^verbatim>\<open>stosb\<close>, \<^verbatim>\<open>stosl\<close>,
  \<^verbatim>\<open>movsb\<close> and \<^verbatim>\<open>movsl\<close> with a repeat count, in both directions.
\<close>

type_synonym mem = "u32 \<Rightarrow> u8"

section \<open>Definitions\<close>

subsection \<open>Strings\<close>

partial_function (option) strlen_from :: "mem \<Rightarrow> u32 \<Rightarrow> u32 \<Rightarrow> u32 option" where
  "strlen_from m s n = (if m s \<noteq> 0 then strlen_from m (s + 1) (n + 1) else Some n)"

definition strlen :: "mem \<Rightarrow> u32 \<Rightarrow> u32 option" where
  "strlen m s = strlen_from m s 0"

primrec strnlen :: "mem \<Rightarrow> u32 \<Rightarrow> nat \<Rightarrow> nat" where
  "strnlen m s 0 = 0"
| "strnlen m s (Suc sz) = (if m s \<noteq> 0 then Suc (strnlen m (s + 1) sz) else 0)"

partial_function (option) strcpy :: "u32 \<Rightarrow> u32 \<Rightarrow> mem \<Rightarrow> mem option" where
  "strcpy dst src m =
     (let c = m src; m' = m(dst := c)
      in if c \<noteq> 0 then strcpy (dst + 1) (src + 1) m' else Some m')"

definition strcat :: "u32 \<Rightarrow> u32 \<Rightarrow> mem \<Rightarrow> mem option" where
  "strcat dst src m = (case strlen m dst of None \<Rightarrow> None | Some len \<Rightarrow> strcpy (dst + len) src m)"

primrec strncpy :: "u32 \<Rightarrow> u32 \<Rightarrow> nat \<Rightarrow> mem \<Rightarrow> mem" where
  "strncpy dst src 0 m = m"
| "strncpy dst src (Suc sz) m =
     (let m' = m(dst := m src) in strncpy (dst + 1) (if m' src \<noteq> 0 then src + 1 else src) sz m')"

text \<open>The copying loop of \<open>strlcpy\<close> with \<open>size - 1\<close> bytes of room, and the number of bytes
  copied.\<close>

primrec strlcpy_loop :: "u32 \<Rightarrow> u32 \<Rightarrow> nat \<Rightarrow> mem \<Rightarrow> u32 \<times> mem" where
  "strlcpy_loop dst src 0 m = (dst, m)"
| "strlcpy_loop dst src (Suc room) m =
     (if m src \<noteq> 0 then strlcpy_loop (dst + 1) (src + 1) room (m(dst := m src)) else (dst, m))"

definition strlcpy :: "u32 \<Rightarrow> u32 \<Rightarrow> nat \<Rightarrow> mem \<Rightarrow> u32 \<times> mem" where
  "strlcpy dst src sz m =
     (if sz > 0 then let (d, m') = strlcpy_loop dst src (sz - 1) m in (d - dst, m'(d := 0)) else (0, m))"

partial_function (option) strcmp :: "mem \<Rightarrow> u32 \<Rightarrow> u32 \<Rightarrow> int option" where
  "strcmp m p q = (if m p \<noteq> 0 \<and> m p = m q then strcmp m (p + 1) (q + 1) else Some (uint (m p) - uint (m q)))"

primrec strncmp :: "mem \<Rightarrow> u32 \<Rightarrow> u32 \<Rightarrow> nat \<Rightarrow> int" where
  "strncmp m p q 0 = 0"
| "strncmp m p q (Suc n) =
     (if m p \<noteq> 0 \<and> m p = m q then strncmp m (p + 1) (q + 1) n else uint (m p) - uint (m q))"

text \<open>A null pointer result is the inner \<open>None\<close>.\<close>

partial_function (option) strchr :: "mem \<Rightarrow> u32 \<Rightarrow> u8 \<Rightarrow> u32 option option" where
  "strchr m s c = (if m s = 0 then Some None else if m s = c then Some (Some s) else strchr m (s + 1) c)"

partial_function (option) strfind :: "mem \<Rightarrow> u32 \<Rightarrow> u8 \<Rightarrow> u32 option" where
  "strfind m s c = (if m s = 0 \<or> m s = c then Some s else strfind m (s + 1) c)"

subsection \<open>Memory blocks\<close>

primrec stosb :: "nat \<Rightarrow> u32 \<Rightarrow> u8 \<Rightarrow> mem \<Rightarrow> mem" where
  "stosb 0 d c m = m"
| "stosb (Suc n) d c m = stosb n (d + 1) c (m(d := c))"

definition store_dword :: "u32 \<Rightarrow> u32 \<Rightarrow> mem \<Rightarrow> mem" where
  "store_dword d w m = m(d := ucast w, d + 1 := ucast (drop_bit 8 w),
     d + 2 := ucast (drop_bit 16 w), d + 3 := ucast (drop_bit 24 w))"

primrec stosl :: "nat \<Rightarrow> u32 \<Rightarrow> u32 \<Rightarrow> mem \<Rightarrow> mem" where
  "stosl 0 d w m = m"
| "stosl (Suc n) d w m = stosl n (d + 4) w (store_dword d w m)"

definition memset :: "u32 \<Rightarrow> u32 \<Rightarrow> u32 \<Rightarrow> mem \<Rightarrow> mem" where
  "memset v c n m =
     (if n = 0 then m
      else if v mod 4 = 0 \<and> n mod 4 = 0
      then let c1 = c AND 0xFF
           in stosl (unat (n div 4)) v (push_bit 24 c1 OR push_bit 16 c1 OR push_bit 8 c1 OR c1) m
      else stosb (unat n) v (ucast c) m)"

primrec movsb_up :: "nat \<Rightarrow> u32 \<Rightarrow> u32 \<Rightarrow> mem \<Rightarrow> mem" where
  "movsb_up 0 d s m = m"
| "movsb_up (Suc n) d s m = movsb_up n (d + 1) (s + 1) (m(d := m s))"

primrec movsb_down :: "nat \<Rightarrow> u32 \<Rightarrow> u32 \<Rightarrow> mem \<Rightarrow> mem" where
  "movsb_down 0 d s m = m"
| "movsb_down (Suc n) d s m = movsb_down n (d - 1) (s - 1) (m(d := m s))"

definition copy_dword :: "u32 \<Rightarrow> u32 \<Rightarrow> mem \<Rightarrow> mem" where
  "copy_dword d s m = m(d := m s, d + 1 := m (s + 1), d + 2 := m (s + 2), d + 3 := m (s + 3))"

primrec movsl_up :: "nat \<Rightarrow> u32 \<Rightarrow> u32 \<Rightarrow> mem \<Rightarrow> mem" where
  "movsl_up 0 d s m = m"
| "movsl_up (Suc n) d s m = movsl_up n (d + 4) (s + 4) (copy_dword d s m)"

primrec movsl_down :: "nat \<Rightarrow> u32 \<Rightarrow> u32 \<Rightarrow> mem \<Rightarrow> mem" where
  "movsl_down 0 d s m = m"
| "movsl_down (Suc n) d s m = movsl_down n (d - 4) (s - 4) (copy_dword d s m)"

definition memmove :: "u32 \<Rightarrow> u32 \<Rightarrow> u32 \<Rightarrow> mem \<Rightarrow> mem" where
  "memmove d s n m =
     (if s < d \<and> s + n > d
      then let s' = s + n; d' = d + n
           in if s' mod 4 = 0 \<and> d' mod 4 = 0 \<and> n mod 4 = 0
              then movsl_down (unat (n div 4)) (d' - 4) (s' - 4) m
              else movsb_down (unat n) (d' - 1) (s' - 1) m
      else if s mod 4 = 0 \<and> d mod 4 = 0 \<and> n mod 4 = 0
           then movsl_up (unat (n div 4)) d s m
           else movsb_up (unat n) d s m)"

definition memcpy :: "u32 \<Rightarrow> u32 \<Rightarrow> u32 \<Rightarrow> mem \<Rightarrow> mem" where
  "memcpy dst src n m = memmove dst src n m"

primrec memcmp :: "mem \<Rightarrow> u32 \<Rightarrow> u32 \<Rightarrow> nat \<Rightarrow> int" where
  "memcmp m p q 0 = 0"
| "memcmp m p q (Suc n) = (if m p \<noteq> m q then uint (m p) - uint (m q) else memcmp m (p + 1) (q + 1) n)"

text \<open>The loop of \<open>memfind\<close> compares addresses: it does nothing when \<open>s + n\<close> wraps around.\<close>

definition memfind :: "mem \<Rightarrow> u32 \<Rightarrow> u32 \<Rightarrow> u32 \<Rightarrow> u32" where
  "memfind m s c n =
     (let ends = s + n; len = unat ends - unat s
      in s + of_nat (case find (\<lambda>i. m (s + of_nat i) = ucast c) [0..<len] of Some i \<Rightarrow> i | None \<Rightarrow> len))"

subsection \<open>Numbers\<close>

partial_function (option) skip_blanks :: "mem \<Rightarrow> u32 \<Rightarrow> u32 option" where
  "skip_blanks m s = (if m s = 32 \<or> m s = 9 then skip_blanks m (s + 1) else Some s)"

definition digit_of :: "u8 \<Rightarrow> int option" where
  "digit_of c = (if 48 \<le> c \<and> c \<le> 57 then Some (uint c - 48)
     else if 97 \<le> c \<and> c \<le> 122 then Some (uint c - 97 + 10)
     else if 65 \<le> c \<and> c \<le> 90 then Some (uint c - 65 + 10) else None)"

text \<open>\<^verbatim>\<open>long\<close> has 32 bits; the sum wraps (``we don't properly detect overflow'').\<close>

partial_function (option) strtol_digits :: "mem \<Rightarrow> u32 \<Rightarrow> int \<Rightarrow> u32 \<Rightarrow> (u32 \<times> u32) option" where
  "strtol_digits m s base val =
     (case digit_of (m s) of
        None \<Rightarrow> Some (val, s)
      | Some dig \<Rightarrow> if dig \<ge> base then Some (val, s)
          else strtol_digits m (s + 1) base (val * word_of_int base + word_of_int dig))"

text \<open>The value and \<^verbatim>\<open>*endptr\<close>.\<close>

definition strtol :: "mem \<Rightarrow> u32 \<Rightarrow> int \<Rightarrow> (int \<times> u32) option" where
  "strtol m s0 base0 =
     (case skip_blanks m s0 of
        None \<Rightarrow> None
      | Some s1 \<Rightarrow>
          let (s2, neg) = (if m s1 = 43 then (s1 + 1, False) else if m s1 = 45 then (s1 + 1, True) else (s1, False));
              (s3, base) = (if (base0 = 0 \<or> base0 = 16) \<and> m s2 = 48 \<and> m (s2 + 1) = 120 then (s2 + 2, 16)
                            else if base0 = 0 \<and> m s2 = 48 then (s2 + 1, 8)
                            else if base0 = 0 then (s2, 10) else (s2, base0))
          in case strtol_digits m s3 base 0 of
               None \<Rightarrow> None
             | Some (val, s4) \<Rightarrow> Some (sint (if neg then - val else val), s4))"

section \<open>Null-terminated strings\<close>

fun cstring :: "mem \<Rightarrow> u32 \<Rightarrow> u8 list \<Rightarrow> bool" where
  "cstring m p [] \<longleftrightarrow> m p = 0"
| "cstring m p (x # xs) \<longleftrightarrow> x \<noteq> 0 \<and> m p = x \<and> cstring m (p + 1) xs"

lemma strlen_from_cstring: "cstring m s xs \<Longrightarrow> strlen_from m s n = Some (n + of_nat (length xs))"
  by (induction xs arbitrary: s n) (simp_all add: strlen_from.simps add.assoc)

lemma strlen_cstring: "cstring m s xs \<Longrightarrow> strlen m s = Some (of_nat (length xs))"
  by (simp add: strlen_def strlen_from_cstring)

lemma strnlen_cstring: "cstring m s xs \<Longrightarrow> strnlen m s n = min (length xs) n"
  by (induction n arbitrary: s xs) (auto split: if_splits elim: cstring.elims)

text \<open>The sign of \<open>strcmp\<close> is the lexicographic order of the byte strings.\<close>

fun str_order :: "u8 list \<Rightarrow> u8 list \<Rightarrow> int" where
  "str_order [] [] = 0"
| "str_order [] (y # ys) = -1"
| "str_order (x # xs) [] = 1"
| "str_order (x # xs) (y # ys) = (if x < y then -1 else if y < x then 1 else str_order xs ys)"

lemma str_order_0: "str_order xs ys = 0 \<longleftrightarrow> xs = ys"
  by (induction xs ys rule: str_order.induct) auto

lemma strcmp_cstring:
  "cstring m p xs \<Longrightarrow> cstring m q ys \<Longrightarrow> \<exists>r. strcmp m p q = Some r \<and> sgn r = str_order xs ys"
proof (induction xs ys arbitrary: p q rule: str_order.induct)
  case 1
  then show ?case by (simp add: strcmp.simps)
next
  case (2 y ys)
  then have "uint y > 0" by (simp add: word_neq_0_conv word_less_def)
  with 2 show ?case by (auto simp: strcmp.simps)
next
  case (3 x xs)
  then have "uint x > 0" by (simp add: word_neq_0_conv word_less_def)
  with 3 show ?case by (auto simp: strcmp.simps)
next
  case (4 x xs y ys)
  show ?case
  proof (cases "x = y")
    case True
    with 4 show ?thesis by (auto simp: strcmp.simps)
  next
    case False
    with 4 show ?thesis
      by (cases x y rule: linorder_cases) (auto simp: strcmp.simps word_less_def)
  qed
qed

lemma strcmp_eq: "cstring m p xs \<Longrightarrow> cstring m q ys \<Longrightarrow> strcmp m p q = Some 0 \<longleftrightarrow> xs = ys"
  using strcmp_cstring [of m p xs q ys] str_order_0 [of xs ys] by (auto simp: sgn_if split: if_splits)

section \<open>Blocks\<close>

definition mem_copy :: "mem \<Rightarrow> u32 \<Rightarrow> u32 \<Rightarrow> nat \<Rightarrow> mem" where
  "mem_copy m d s n = (\<lambda>a. if unat (a - d) < n then m (s + (a - d)) else m a)"

text \<open>Two adjacent blocks, the lower one first: right when nothing that is still to be read is
  overwritten.\<close>

lemma unat_minus_nat:
  assumes "k < 4294967296"
  shows "unat (x - of_nat k :: u32) = (if k \<le> unat x then unat x - k else unat x + 4294967296 - k)"
proof -
  have k: "unat (of_nat k :: u32) = k" using assms by (simp add: unat_of_nat32)
  show ?thesis
    using k unat_sub_if' [of x "of_nat k :: u32"] by (simp add: word_le_nat_alt)
qed

lemma unat_diff_split:
  assumes "k \<le> n" and "n < 4294967296"
  shows "unat (x :: u32) < k \<or> unat (x - of_nat k) < n - k \<longleftrightarrow> unat x < n"
    and "unat (x - of_nat k) < n - k \<Longrightarrow> k \<le> unat x"
  using assms unat_lt32 [of x] by (auto simp: unat_minus_nat split: if_splits)

lemma mem_copy_up:
  assumes "k + n < 4294967296" and "d = s \<or> k + n \<le> unat (d - s)"
  shows "mem_copy (mem_copy m d s k) (d + of_nat k) (s + of_nat k) n = mem_copy m d s (k + n)"
proof
  fix a
  define x where "x = a - d"
  have ad: "a - (d + of_nat k) = x - of_nat k" "s + of_nat k + (x - of_nat k) = s + x" "a - d = x"
    by (simp_all add: x_def)
  note sp = unat_diff_split [of k "k + n" x]
  show "mem_copy (mem_copy m d s k) (d + of_nat k) (s + of_nat k) n a = mem_copy m d s (k + n) a"
  proof (cases "unat (x - of_nat k) < n")
    case True
    have xk: "k \<le> unat x" "unat x < k + n" using sp True assms(1) by auto
    have "mem_copy m d s k (s + x) = m (s + x)"
    proof (cases "d = s")
      case True
      then show ?thesis by (simp add: mem_copy_def)
    next
      case False
      then have "unat x < unat (d - s)" using assms(2) xk by simp
      then have "unat (x - (d - s)) = unat x + 4294967296 - unat (d - s)"
        using unat_sub_if' [of x "d - s"] by simp
      moreover have "unat (s + x - d) = unat (x - (d - s))" by (rule arg_cong [of _ _ unat]) simp
      ultimately have "k \<le> unat (s + x - d)" using xk(1) unat_lt32 [of "d - s"] by linarith
      then show ?thesis by (simp add: mem_copy_def)
    qed
    then show ?thesis using True xk(2) unfolding mem_copy_def ad by simp
  next
    case False
    then show ?thesis using sp assms(1) unfolding mem_copy_def ad by auto
  qed
qed

lemma mem_copy_down:
  assumes "n + k < 4294967296" and "d = s \<or> n + k \<le> unat (s - d)"
  shows "mem_copy (mem_copy m (d + of_nat n) (s + of_nat n) k) d s n = mem_copy m d s (n + k)"
proof
  fix a
  define x where "x = a - d"
  have ad: "a - (d + of_nat n) = x - of_nat n" "s + of_nat n + (x - of_nat n) = s + x" "a - d = x"
    by (simp_all add: x_def)
  note sp = unat_diff_split [of n "n + k" x]
  show "mem_copy (mem_copy m (d + of_nat n) (s + of_nat n) k) d s n a = mem_copy m d s (n + k) a"
  proof (cases "unat x < n")
    case True
    have "mem_copy m (d + of_nat n) (s + of_nat n) k (s + x) = m (s + x)"
    proof (cases "d = s")
      case True
      then show ?thesis by (simp add: mem_copy_def)
    next
      case False
      define w where "w = n - unat x"
      have w: "w \<le> unat (s - d)" "k \<le> unat (s - d) - w" "w < 4294967296"
        using False assms \<open>unat x < n\<close> by (auto simp: w_def)
      have "s + x - (d + of_nat n) = (s - d) - of_nat w"
        using \<open>unat x < n\<close> by (simp add: w_def of_nat_diff)
      then have "unat (s + x - (d + of_nat n)) = unat (s - d) - w"
        using w(1,3) by (simp only: unat_minus_nat if_True)
      then have "k \<le> unat (s + x - (d + of_nat n))" using w(2) by (simp only:)
      then show ?thesis by (simp add: mem_copy_def)
    qed
    then show ?thesis using True unfolding mem_copy_def ad by simp
  next
    case False
    then show ?thesis using sp assms(1) unfolding mem_copy_def ad by auto
  qed
qed

lemma mem_copy_0 [simp]: "mem_copy m d s 0 = m"
  by (simp add: mem_copy_def)

lemma mem_copy_1: "mem_copy m d s (Suc 0) = m(d := m s)"
  by (auto simp: mem_copy_def fun_eq_iff unat_eq_0)

lemma u32_lt_4: "unat (x :: u32) < 4 \<longleftrightarrow> x = 0 \<or> x = 1 \<or> x = 2 \<or> x = 3"
proof -
  have "unat x < 4 \<longleftrightarrow> unat x = 0 \<or> unat x = 1 \<or> unat x = 2 \<or> unat x = 3" by auto
  then show ?thesis by (simp add: word_unat_eq_iff)
qed

lemma mem_copy_4: "mem_copy m d s 4 = copy_dword d s m"
proof
  fix a
  define x where "x = a - d"
  have a: "a = d + x" by (simp add: x_def)
  show "mem_copy m d s 4 a = copy_dword d s m a"
    unfolding a mem_copy_def copy_dword_def by (auto simp: u32_lt_4)
qed

lemma movsb_up_copy:
  "n < 4294967296 \<Longrightarrow> d = s \<or> n \<le> unat (d - s) \<Longrightarrow> movsb_up n d s m = mem_copy m d s n"
proof (induction n arbitrary: d s m)
  case (Suc n)
  have "movsb_up n (d + 1) (s + 1) (m(d := m s)) = mem_copy (m(d := m s)) (d + 1) (s + 1) n"
    by (rule Suc.IH) (use Suc.prems in auto)
  then show ?case
    using mem_copy_up [of 1 n d s m] Suc.prems by (simp add: mem_copy_1)
qed simp

lemma movsl_up_copy:
  "4 * n < 4294967296 \<Longrightarrow> d = s \<or> 4 * n \<le> unat (d - s) \<Longrightarrow> movsl_up n d s m = mem_copy m d s (4 * n)"
proof (induction n arbitrary: d s m)
  case (Suc n)
  have "movsl_up n (d + 4) (s + 4) (copy_dword d s m) = mem_copy (copy_dword d s m) (d + 4) (s + 4) (4 * n)"
    by (rule Suc.IH) (use Suc.prems in auto)
  then show ?case
    using mem_copy_up [of 4 "4 * n" d s m] Suc.prems by (simp add: mem_copy_4)
qed simp

lemma movsb_down_copy:
  "n < 4294967296 \<Longrightarrow> d = s \<or> n \<le> unat (s - d) \<Longrightarrow>
     movsb_down n (d + of_nat n - 1) (s + of_nat n - 1) m = mem_copy m d s n"
proof (induction n arbitrary: m)
  case (Suc n)
  have "movsb_down n (d + of_nat n - 1) (s + of_nat n - 1) (m(d + of_nat n := m (s + of_nat n))) =
      mem_copy (m(d + of_nat n := m (s + of_nat n))) d s n"
    by (rule Suc.IH) (use Suc.prems in auto)
  then show ?case
    using mem_copy_down [of n 1 d s m] Suc.prems by (simp add: mem_copy_1 algebra_simps)
qed simp

lemma movsl_down_copy:
  "4 * n < 4294967296 \<Longrightarrow> d = s \<or> 4 * n \<le> unat (s - d) \<Longrightarrow>
     movsl_down n (d + of_nat (4 * n) - 4) (s + of_nat (4 * n) - 4) m = mem_copy m d s (4 * n)"
proof (induction n arbitrary: m)
  case (Suc n)
  have "movsl_down n (d + of_nat (4 * n) - 4) (s + of_nat (4 * n) - 4)
        (copy_dword (d + of_nat (4 * n)) (s + of_nat (4 * n)) m) =
      mem_copy (copy_dword (d + of_nat (4 * n)) (s + of_nat (4 * n)) m) d s (4 * n)"
    by (rule Suc.IH) (use Suc.prems in auto)
  then show ?case
    using mem_copy_down [of "4 * n" 4 d s m] Suc.prems by (simp add: mem_copy_4 algebra_simps)
qed simp

end
