(* ===== verification/Lib_Theorems.thy ===== *)
theory Lib_Theorems
  imports Lib_String Printfmt
begin

text \<open>
  Correctness of the shared library routines: block moves with overlap, string comparison, and
  formatted output, with the round trip between printing a number and reading it back.
\<close>

section \<open>Blocks and strings\<close>

lemma u32_div4:
  assumes "(n :: u32) mod 4 = 0"
  shows "4 * unat (n div 4) = unat n" and "of_nat (4 * unat (n div 4)) = n"
proof -
  show e: "4 * unat (n div 4) = unat n"
    using assms unat_mod [of n 4] unat_div [of n 4] by (auto simp: word_unat_eq_iff)
  show "of_nat (4 * unat (n div 4)) = n" unfolding e by simp
qed

text \<open>(C21) \<open>memmove\<close> copies every byte of the source as it was before the call, whichever way the
  blocks overlap and however they are aligned, and changes nothing else; the source must not end at
  the top of the address space, where the overlap test of the code wraps around.\<close>

theorem memmove_correct:
  assumes "unat s + unat n < 4294967296" and "unat d + unat n \<le> 4294967296"
  shows "memmove d s n m = (\<lambda>a. if unat (a - d) < unat n then m (s + (a - d)) else m a)"
proof -
  have sn: "unat (s + n) = unat s + unat n" using assms(1) by (rule unat_add_lt32)
  have nlt: "unat n < 4294967296" by (rule unat_lt32)
  have "memmove d s n m = mem_copy m d s (unat n)"
  proof (cases "s < d \<and> s + n > d")
    case True
    then have "unat (s - d) = unat s + 4294967296 - unat d"
      using unat_sub_if' [of s d] by (simp add: word_less_nat_alt not_le)
    then have dn: "d = s \<or> unat n \<le> unat (s - d)" using assms(2) by linarith
    have l: "movsl_down (unat (n div 4)) (d + n - 4) (s + n - 4) m = mem_copy m d s (unat n)" if "n mod 4 = 0"
      using movsl_down_copy [of "unat (n div 4)" d s] dn nlt unfolding u32_div4 [OF that] by simp
    have b: "movsb_down (unat n) (d + n - 1) (s + n - 1) m = mem_copy m d s (unat n)"
      using movsb_down_copy [OF nlt dn] by simp
    show ?thesis
      unfolding memmove_def Let_def if_P [OF True] using l b by (simp split: if_split)
  next
    case False
    then have "d = s \<or> unat n \<le> unat (d - s)"
      using sn assms unat_sub_if' [of d s] by (auto simp: word_less_nat_alt not_less word_unat_eq_iff)
    then have l: "movsl_up (unat (n div 4)) d s m = mem_copy m d s (unat n)" if "n mod 4 = 0"
      using movsl_up_copy [of "unat (n div 4)" d s] nlt unfolding u32_div4 [OF that] by simp
    have b: "movsb_up (unat n) d s m = mem_copy m d s (unat n)"
      using movsb_up_copy [OF nlt] \<open>d = s \<or> unat n \<le> unat (d - s)\<close> by simp
    show ?thesis
      unfolding memmove_def if_not_P [OF False] using l b by (simp split: if_split)
  qed
  then show ?thesis by (simp add: mem_copy_def)
qed

theorem memmove_correct_witness:
  "memmove 101 100 3 (\<lambda>a. ucast a) 103 = 102 \<and> memmove 100 104 8 (\<lambda>a. ucast a) 107 = 111"
  using memmove_correct [of 100 3 101 "\<lambda>a. ucast a"] memmove_correct [of 104 8 100 "\<lambda>a. ucast a"] by simp

text \<open>\<open>strcmp\<close> on two terminated strings ends and returns a number whose sign is their
  lexicographic order by unsigned bytes; it is 0 exactly for equal strings.\<close>

theorem strcmp_correct:
  assumes "cstring m p xs" and "cstring m q ys"
  shows "\<exists>r. strcmp m p q = Some r \<and> sgn r = str_order xs ys \<and> (r = 0 \<longleftrightarrow> xs = ys)"
proof -
  obtain r where r: "strcmp m p q = Some r" "sgn r = str_order xs ys"
    using strcmp_cstring [OF assms] by blast
  then have "r = 0 \<longleftrightarrow> xs = ys" using str_order_0 [of xs ys] by (metis sgn_0_0)
  with r show ?thesis by blast
qed

definition two_strings :: mem where
  "two_strings = (\<lambda>_. 0)(10 := 97, 11 := 98, 20 := 97, 21 := 200)"

theorem strcmp_correct_witness:
  "\<exists>r. strcmp two_strings 10 20 = Some r \<and> r < 0"
proof -
  have "\<exists>r. strcmp two_strings 10 20 = Some r \<and> sgn r = str_order [97, 98] [97, 200] \<and> (r = 0 \<longleftrightarrow> [97, 98 :: u8] = [97, 200])"
    by (rule strcmp_correct) (simp_all add: two_strings_def)
  then show ?thesis by (auto simp: sgn_if split: if_splits)
qed

section \<open>Numbers\<close>

text \<open>The digits of a number, most significant first.\<close>

function digs :: "nat \<Rightarrow> nat \<Rightarrow> nat list" where
  "digs n b = (if n \<ge> b \<and> b > 1 then digs (n div b) b @ [n mod b] else [n mod b])"
  by auto
termination
  by (relation "measure fst") auto

declare digs.simps [simp del]

lemma printnum_digs:
  "printnum n b w pad = replicate (nat (w - int (length (digs n b)))) pad @ map hexdigit (digs n b)"
proof (induction n b w pad rule: printnum.induct)
  case (1 n b w pad)
  show ?case
  proof (cases "n \<ge> b \<and> b > 1")
    case True
    then have e: "digs n b = digs (n div b) b @ [n mod b]" by (simp add: digs.simps [of n])
    have "w - 1 - int (length (digs (n div b) b)) = w - int (length (digs n b))" by (simp add: e)
    with 1 [OF True] True show ?thesis by (simp add: printnum.simps [of n] e)
  next
    case False
    then show ?thesis by (auto simp: printnum.simps [of n] digs.simps [of n])
  qed
qed

lemma digs_value: "b > 1 \<Longrightarrow> foldl (\<lambda>v d. v * b + d) 0 (digs n b) = n"
proof (induction n b rule: digs.induct)
  case (1 n b)
  then show ?case by (cases "n \<ge> b") (simp_all add: digs.simps [of n b])
qed

lemma digs_lt: "b > 1 \<Longrightarrow> \<forall>d\<in>set (digs n b). d < b"
proof (induction n b rule: digs.induct)
  case (1 n b)
  then show ?case by (cases "n \<ge> b") (simp_all add: digs.simps [of n b])
qed

lemma digs_not_Nil: "digs n b \<noteq> []"
  by (simp add: digs.simps [of n b])

lemma lt_16: "d < 16 \<Longrightarrow> d \<in> {0, 1, 2, 3, 4, 5, 6, 7, 8, 9, 10, 11, 12, 13, 14, 15 :: nat}"
  by (simp add: numeral_eq_Suc less_Suc_eq)

lemma digit_of_hexdigit: "d < 16 \<Longrightarrow> digit_of (word_of_int (hexdigit d)) = Some (int d)"
proof -
  assume "d < 16"
  from lt_16 [OF this] show ?thesis
    by (elim insertE emptyE; simp add: digit_of_def hexdigit_def)
qed

lemma strtol_digits_string:
  "cstring m s (map (\<lambda>d. word_of_int (hexdigit d)) ds) \<Longrightarrow> \<forall>d\<in>set ds. d < b \<Longrightarrow> b \<le> 16 \<Longrightarrow>
     strtol_digits m s (int b) (of_nat v) = Some (of_nat (foldl (\<lambda>v d. v * b + d) v ds), s + of_nat (length ds))"
proof (induction ds arbitrary: s v)
  case Nil
  then show ?case by (simp add: strtol_digits.simps digit_of_def)
next
  case (Cons d ds)
  from Cons.prems have "digit_of (m s) = Some (int d)" "d < b"
    using digit_of_hexdigit [of d] by auto
  moreover have "of_nat v * word_of_int (int b) + word_of_int (int d) = (of_nat (v * b + d) :: u32)" by simp
  ultimately show ?case
    using Cons.IH [of "s + 1" "v * b + d"] Cons.prems by (simp add: strtol_digits.simps [of m s] add.assoc)
qed

lemma skip_blanks_string:
  "cstring m s (replicate k 32 @ x # xs) \<Longrightarrow> x \<noteq> 32 \<Longrightarrow> x \<noteq> 9 \<Longrightarrow>
     skip_blanks m s = Some (s + of_nat k) \<and> cstring m (s + of_nat k) (x # xs)"
proof (induction k arbitrary: s)
  case 0
  then show ?case by (simp add: skip_blanks.simps)
next
  case (Suc k)
  then have "m s = 32" and c: "cstring m (s + 1) (replicate k 32 @ x # xs)" by simp_all
  moreover have "skip_blanks m (s + 1) = Some (s + 1 + of_nat k)" "cstring m (s + 1 + of_nat k) (x # xs)"
    using Suc.IH [OF c] Suc.prems(2,3) by blast+
  moreover have "s + 1 + of_nat k = s + of_nat (Suc k)" by simp
  ultimately show ?case by (simp only: skip_blanks.simps [of m s] simp_thms if_True)
qed

text \<open>A digit is neither a blank nor a sign nor the \<^verbatim>\<open>x\<close> of a prefix.\<close>

lemma hexdigit_plain:
  assumes "d < 16"
  shows "(word_of_int (hexdigit d) :: u8) \<notin> {0, 9, 32, 43, 45, 120}"
proof -
  from lt_16 [OF assms] show ?thesis by (auto simp: hexdigit_def)
qed

lemma strtol_digit_string:
  assumes "cstring m p (replicate k 32 @ map (\<lambda>d. word_of_int (hexdigit d)) ds)" and "ds \<noteq> []"
    and "\<forall>d\<in>set ds. d < b" and "1 < b" and "b \<le> 16"
  shows "strtol m p (int b) =
    Some (sint (of_nat (foldl (\<lambda>v d. v * b + d) 0 ds) :: u32), p + of_nat (k + length ds))"
proof -
  obtain d es where ds: "ds = d # es" using assms(2) by (cases ds) auto
  have pl: "(word_of_int (hexdigit e) :: u8) \<notin> {0, 9, 32, 43, 45, 120}" if "e \<in> set ds" for e
    using assms(3,5) that by (intro hexdigit_plain) auto
  let ?s = "p + of_nat k"
  have sk: "skip_blanks m p = Some ?s" and str: "cstring m ?s (map (\<lambda>d. word_of_int (hexdigit d)) ds)"
    using skip_blanks_string [of m p k "word_of_int (hexdigit d)"] assms(1) pl [of d] by (auto simp: ds)
  have hd: "m ?s \<noteq> 43" "m ?s \<noteq> 45" using str pl [of d] by (auto simp: ds)
  have x: "m (?s + 1) \<noteq> 120" using str pl by (cases es) (auto simp: ds)
  show ?thesis
    using strtol_digits_string [OF str assms(3,5), of 0] sk hd x assms(4)
    by (simp add: strtol_def add.assoc)
qed

text \<open>(C22) Printing a number with \<open>printnum\<close> and reading the characters back with \<open>strtol\<close> gives the
  number, in base 8, 10 and 16, whatever the field width, padded with zeros or with blanks; the end
  pointer is behind the last character.\<close>

theorem strtol_printnum:
  assumes "b = 8 \<or> b = 10 \<or> b = 16" and "n < 2147483648" and "pad = 32 \<or> pad = 48"
    and "cstring m p (map word_of_int (printnum n b w pad))"
  shows "strtol m p (int b) = Some (int n, p + of_nat (length (printnum n b w pad)))"
proof -
  let ?k = "nat (w - int (length (digs n b)))"
  have b: "1 < b" "b \<le> 16" using assms(1) by auto
  have n: "sint (of_nat n :: u32) = int n"
    using assms(2) by (simp add: signed_of_nat signed_take_bit_int_eq_self)
  have ne: "digs n b \<noteq> []" by (rule digs_not_Nil)
  show ?thesis
  proof (cases "pad = 32")
    case True
    then show ?thesis
      using strtol_digit_string [OF _ ne digs_lt [OF b(1)] b, of m p ?k] assms(4)
      by (simp add: printnum_digs digs_value [OF b(1)] n comp_def)
  next
    case False
    then have pad: "pad = hexdigit 0" using assms(3) by (simp add: hexdigit_def)
    have zeros: "foldl (\<lambda>v d. v * b + d) 0 (replicate k 0 @ digs n b) = n" for k
      using digs_value [OF b(1)] by (induction k) simp_all
    have "strtol m p (int b) = Some (sint (of_nat (foldl (\<lambda>v d. v * b + d) 0 (replicate ?k 0 @ digs n b)) :: u32),
        p + of_nat (0 + length (replicate ?k 0 @ digs n b)))"
      by (rule strtol_digit_string [OF _ _ _ b])
        (use assms(4) ne digs_lt [OF b(1)] b in \<open>auto simp: printnum_digs pad comp_def map_replicate_const\<close>)
    then show ?thesis unfolding zeros n by (simp add: printnum_digs)
  qed
qed

definition text_255 :: mem where
  "text_255 = (\<lambda>_. 0)(64 := 32, 65 := 50, 66 := 53, 67 := 53)"

theorem strtol_printnum_witness:
  "printnum 255 10 4 32 = char_codes '' 255'' \<and> strtol text_255 64 10 = Some (255, 68)"
proof -
  have p: "printnum 255 10 4 32 = char_codes '' 255''"
    by (simp add: printnum.simps hexdigit_def char_codes_def)
  then show ?thesis
    using strtol_printnum [of 10 255 32 text_255 64 4] by (simp add: char_codes_def text_255_def)
qed

section \<open>Formatted output\<close>

lemma sprintputch_fold:
  "length (sp_buf b) \<le> room \<Longrightarrow> fold (sprintputch room) out b =
     \<lparr>sp_buf = take room (sp_buf b @ out), sp_cnt = sp_cnt b + length out\<rparr>"
proof (induction out arbitrary: b)
  case (Cons ch out)
  then show ?case
    by (cases "length (sp_buf b) < room") (simp_all add: sprintputch_def Let_def take_Cons')
qed simp

text \<open>(C35) \<open>vsnprintf\<close> never writes more than \<^verbatim>\<open>n\<close> bytes, always terminates the string, writes
  the longest prefix of the output that fits, and returns the length the whole output would have
  had.\<close>

theorem vsnprintf_correct:
  assumes "1 \<le> n" and "vprintfmt fmt ap = Some out"
  shows "vsnprintf False n fmt ap =
    Some (int (length out), map word_of_int (take (nat n - 1) out) @ [0]) \<and>
    length (map word_of_int (take (nat n - 1) out) @ [0 :: u8]) \<le> nat n"
proof -
  have "nat (n - 1) = nat n - 1" using assms(1) by simp
  then show ?thesis
    using assms sprintputch_fold [of "\<lparr>sp_buf = [], sp_cnt = 0\<rparr>" "nat (n - 1)" out]
    by (simp add: vsnprintf_def Let_def)
qed

lemma format_example: "vprintfmt ''x=%03d!'' [VInt 7] = Some (char_codes ''x=007!'')"
  by code_simp

theorem vsnprintf_correct_witness:
  "vsnprintf False 5 ''x=%03d!'' [VInt 7] = Some (6, [120, 61, 48, 48, 0])"
  using vsnprintf_correct [of 5, OF _ format_example] by (simp add: char_codes_def)

lemma pb_putch_fold:
  "length (pb_buf b) < 255 \<Longrightarrow> \<forall>c\<in>set (pb_calls b). length c = 255 \<Longrightarrow>
     (let t = fold pb_putch out b
      in concat (rev (pb_calls t)) @ pb_buf t = concat (rev (pb_calls b)) @ pb_buf b @ map word_of_int out \<and>
         length (pb_buf t) < 255 \<and> (\<forall>c\<in>set (pb_calls t). length c = 255) \<and> pb_cnt t = pb_cnt b + length out)"
proof (induction out arbitrary: b)
  case (Cons ch out)
  have "length (pb_buf (pb_putch ch b)) < 255" "\<forall>c\<in>set (pb_calls (pb_putch ch b)). length c = 255"
    using Cons.prems by (auto simp: pb_putch_def Let_def)
  note IH = Cons.IH [OF this, unfolded Let_def]
  have "concat (rev (pb_calls (pb_putch ch b))) @ pb_buf (pb_putch ch b) =
      concat (rev (pb_calls b)) @ pb_buf b @ [word_of_int ch]" "pb_cnt (pb_putch ch b) = pb_cnt b + 1"
    by (simp_all add: pb_putch_def Let_def)
  with IH show ?case by (simp add: Let_def)
qed simp

text \<open>The user-level \<open>cprintf\<close> loses nothing: the strings it passes to \<^verbatim>\<open>sys_cputs\<close>, at most 255
  bytes each, are together exactly the formatted output, and the count is its length.\<close>

theorem user_vcprintf_correct:
  assumes "vprintfmt fmt ap = Some out"
  shows "\<exists>calls. user_vcprintf fmt ap = Some (length out, calls) \<and>
    concat calls = map word_of_int out \<and> (\<forall>c\<in>set calls. length c \<le> 255)"
proof -
  let ?t = "fold pb_putch out \<lparr>pb_buf = [], pb_cnt = 0, pb_calls = []\<rparr>"
  have "concat (rev (pb_calls ?t)) @ pb_buf ?t = map word_of_int out" "length (pb_buf ?t) < 255"
    "\<forall>c\<in>set (pb_calls ?t). length c = 255" "pb_cnt ?t = length out"
    using pb_putch_fold [of "\<lparr>pb_buf = [], pb_cnt = 0, pb_calls = []\<rparr>" out] by (simp_all add: Let_def)
  then show ?thesis
    using assms by (intro exI [of _ "rev (pb_buf ?t # pb_calls ?t)"]) (auto simp: user_vcprintf_def Let_def)
qed

theorem user_vcprintf_correct_witness:
  "\<exists>calls. user_vcprintf ''x=%03d!'' [VInt 7] = Some (6, calls) \<and> concat calls = [120, 61, 48, 48, 55, 33]"
  using user_vcprintf_correct [OF format_example] by (auto simp: char_codes_def)

text \<open>The flag \<^verbatim>\<open>-\<close> does not pad a number on the right: \<open>printnum\<close> takes it as the padding
  character, so that a five-column 7 comes out as four minus signs and the digit.\<close>

theorem printnum_minus_flag: "vprintfmt ''%-5d'' [VInt 7] = Some (char_codes ''----7'')"
  by code_simp

end
