(* ===== verification/Block_Cache.thy ===== *)
theory Block_Cache
  imports Phys_Mem
begin

text \<open>
  The block cache of the file server, \<^verbatim>\<open>fs/bc.c\<close>, on the disk driver
  \<^verbatim>\<open>fs/ide.c\<close>. Disk block \<open>b\<close> is cached at virtual address
  \<^verbatim>\<open>DISKMAP + b * BLKSIZE\<close>; addresses of the cache are given relative to
  \<^verbatim>\<open>DISKMAP\<close>, so that they are byte positions on the disk.

  \<^item> \<open>cmem\<close> is the cache memory, \<open>cmapped\<close> and \<open>cdirty\<close> the present and dirty bits of its
    pages, \<open>disk\<close> the medium. An access to a page that is not present runs \<open>bc_pgfault\<close>
    first. The handler reads the super block and the bitmap and may fault itself; \<open>touch\<close> carries
    the number of faults that may nest before the exception stack is full.
  \<^item> \<open>page_rc\<close> and \<open>ide_rc\<close> are the answers of the kernel to \<^verbatim>\<open>sys_page_alloc\<close> and of the disk
    controller to a transfer; \<open>ide_log\<close> are the controller commands, newest first.
  \<^item> \<open>super_set\<close> and \<open>bitmap_set\<close> tell whether the globals \<^verbatim>\<open>super\<close> and
    \<^verbatim>\<open>bitmap\<close> are set.
\<close>

section \<open>Definitions\<close>

record fstate =
  disk :: bytes
  cmem :: bytes
  cmapped :: "nat \<Rightarrow> bool"
  cdirty :: "nat \<Rightarrow> bool"
  super_set :: bool
  bitmap_set :: bool
  page_rc :: int
  ide_rc :: int
  diskno :: u32
  ide_log :: "(u16 \<times> u8) list"

abbreviation (input) BLKSIZE :: nat where "BLKSIZE \<equiv> 4096"
abbreviation (input) BLKBITSIZE :: nat where "BLKBITSIZE \<equiv> 32768"
abbreviation (input) DISKBLOCKS :: nat where "DISKBLOCKS \<equiv> 0xC0000"

subsection \<open>The disk driver\<close>

definition ide_set_disk :: "u32 \<Rightarrow> (fstate, unit) op" where
  "ide_set_disk d = (if d \<noteq> 0 \<and> d \<noteq> 1 then kpanic ''bad disk number'' else kmod (\<lambda>s. s\<lparr>diskno := d\<rparr>))"

text \<open>The command registers; the busy-wait loops do not change the state.\<close>

definition ide_command :: "u32 \<Rightarrow> u32 \<Rightarrow> u8 \<Rightarrow> fstate \<Rightarrow> fstate" where
  "ide_command secno nsecs cmd s = s\<lparr>ide_log :=
     [(0x1F7, cmd),
      (0x1F6, ucast (0xE0 OR push_bit 4 (diskno s AND 1) OR (drop_bit 24 secno AND 0x0F))),
      (0x1F5, ucast (drop_bit 16 secno AND 0xFF)), (0x1F4, ucast (drop_bit 8 secno AND 0xFF)),
      (0x1F3, ucast (secno AND 0xFF)), (0x1F2, ucast nsecs)] @ ide_log s\<rparr>"

lemma ide_command_fields [simp]:
  "disk (ide_command n k c s) = disk s" "cmem (ide_command n k c s) = cmem s"
  "cmapped (ide_command n k c s) = cmapped s" "cdirty (ide_command n k c s) = cdirty s"
  "super_set (ide_command n k c s) = super_set s" "bitmap_set (ide_command n k c s) = bitmap_set s"
  "page_rc (ide_command n k c s) = page_rc s" "ide_rc (ide_command n k c s) = ide_rc s"
  by (simp_all add: ide_command_def)

text \<open>A transfer of \<open>nsecs\<close> sectors from byte \<open>512 * secno\<close> of the disk to address \<open>dst\<close> of the cache;
  a controller error stops it before the first sector.\<close>

definition ide_read :: "u32 \<Rightarrow> nat \<Rightarrow> u32 \<Rightarrow> (fstate, int) op" where
  "ide_read secno dst nsecs =
     kthen (kassert (nsecs \<le> 256))
     (kthen (kmod (ide_command secno nsecs 0x20))
     (\<lambda>s. if ide_rc s < 0 then Ret (ide_rc s) s
          else Ret 0 (s\<lparr>cmem := (\<lambda>a. if dst \<le> a \<and> a < dst + 512 * unat nsecs
                                     then disk s (512 * unat secno + (a - dst)) else cmem s a)\<rparr>)))"

definition ide_write :: "u32 \<Rightarrow> nat \<Rightarrow> u32 \<Rightarrow> (fstate, int) op" where
  "ide_write secno src nsecs =
     kthen (kassert (nsecs \<le> 256))
     (kthen (kmod (ide_command secno nsecs 0x30))
     (\<lambda>s. if ide_rc s < 0 then Ret (ide_rc s) s
          else Ret 0 (s\<lparr>disk := (\<lambda>a. if 512 * unat secno \<le> a \<and> a < 512 * unat secno + 512 * unat nsecs
                                     then cmem s (src + (a - 512 * unat secno)) else disk s a)\<rparr>)))"

subsection \<open>Faulting blocks in\<close>

abbreviation (input) SUPER :: nat where "SUPER \<equiv> 4096"
abbreviation (input) BITMAP :: nat where "BITMAP \<equiv> 8192"

text \<open>\<^verbatim>\<open>super->s_nblocks\<close> and a word of the bitmap, with \<open>t\<close> the access to a block.\<close>

definition s_nblocks_by :: "(nat \<Rightarrow> (fstate, unit) op) \<Rightarrow> (fstate, u32) op" where
  "s_nblocks_by t = kthen (t 1) (kget (\<lambda>s. load32 (cmem s) (SUPER + 4)))"

definition block_is_free_by :: "(nat \<Rightarrow> (fstate, unit) op) \<Rightarrow> u32 \<Rightarrow> (fstate, bool) op" where
  "block_is_free_by t blockno s =
     (if \<not> super_set s then Ret False s
      else kbind (s_nblocks_by t) (\<lambda>n.
           if blockno \<ge> n then kret False
           else let a = BITMAP + 4 * (unat blockno div 32)
                in kthen (t (a div 4096))
                   (kget (\<lambda>s. bit (load32 (cmem s) a) (unat blockno mod 32)))) s)"

definition bc_pgfault :: "(nat \<Rightarrow> (fstate, unit) op) \<Rightarrow> nat \<Rightarrow> (fstate, unit) op" where
  "bc_pgfault t b =
     (if b \<ge> DISKBLOCKS then kpanic ''page fault in FS''
      else kthen (\<lambda>s. if super_set s
                      then kbind (s_nblocks_by t) (\<lambda>n. if of_nat b \<ge> n then kpanic ''reading non-existent block'' else kret ()) s
                      else Ret () s)
          (kthen (\<lambda>s. if page_rc s < 0 then Panic ''At bc_pgfault sys_page_alloc''
                      else Ret () (s\<lparr>cmapped := (cmapped s)(b := True),
                                     cmem := (\<lambda>a. if a div 4096 = b then 0 else cmem s a)\<rparr>))
          (kbind (ide_read (of_nat (8 * b)) (4096 * b) 8) (\<lambda>r.
           if r < 0 then kpanic ''At bc_pgfault ide_read''
           else kthen (kmod (\<lambda>s. s\<lparr>cdirty := (cdirty s)(b := False)\<rparr>))
                (\<lambda>s. if bitmap_set s
                     then kbind (block_is_free_by t (of_nat b)) (\<lambda>f.
                          if f then kpanic ''reading free block'' else kret ()) s
                     else Ret () s)))))"

fun touch_n :: "nat \<Rightarrow> nat \<Rightarrow> (fstate, unit) op" where
  "touch_n 0 b s = (if cmapped s b then Ret () s else Panic ''exception stack overflow'')"
| "touch_n (Suc n) b s = (if cmapped s b then Ret () s else bc_pgfault (touch_n n) b s)"

text \<open>Eight nested faults fit on the exception stack; three are the most that happen.\<close>

definition touch :: "nat \<Rightarrow> (fstate, unit) op" where
  "touch = touch_n 8"

subsection \<open>Access to cached blocks\<close>

definition rd8 :: "nat \<Rightarrow> (fstate, u8) op" where
  "rd8 a = kthen (touch (a div 4096)) (kget (\<lambda>s. cmem s a))"

definition wr8 :: "nat \<Rightarrow> u8 \<Rightarrow> (fstate, unit) op" where
  "wr8 a v = kthen (touch (a div 4096))
     (kmod (\<lambda>s. s\<lparr>cmem := (cmem s)(a := v), cdirty := (cdirty s)(a div 4096 := True)\<rparr>))"

text \<open>Words are aligned and lie within one block.\<close>

definition rd32 :: "nat \<Rightarrow> (fstate, u32) op" where
  "rd32 a = kthen (touch (a div 4096)) (kget (\<lambda>s. load32 (cmem s) a))"

definition wr32 :: "nat \<Rightarrow> u32 \<Rightarrow> (fstate, unit) op" where
  "wr32 a v = kthen (touch (a div 4096))
     (kmod (\<lambda>s. s\<lparr>cmem := store32 (cmem s) a v, cdirty := (cdirty s)(a div 4096 := True)\<rparr>))"

definition s_nblocks :: "(fstate, u32) op" where
  "s_nblocks = s_nblocks_by touch"

definition diskaddr :: "u32 \<Rightarrow> (fstate, nat) op" where
  "diskaddr blockno s =
     (if blockno = 0 then Panic ''bad block number in diskaddr''
      else if super_set s
      then kbind s_nblocks (\<lambda>n. if blockno \<ge> n then kpanic ''bad block number in diskaddr''
                               else kret (4096 * unat blockno)) s
      else Ret (4096 * unat blockno) s)"

definition va_is_mapped :: "nat \<Rightarrow> fstate \<Rightarrow> bool" where
  "va_is_mapped a s = cmapped s (a div 4096)"

definition va_is_dirty :: "nat \<Rightarrow> fstate \<Rightarrow> bool" where
  "va_is_dirty a s = cdirty s (a div 4096)"

definition flush_block :: "nat \<Rightarrow> (fstate, unit) op" where
  "flush_block a =
     (let b = a div 4096
      in if b \<ge> DISKBLOCKS then kpanic ''flush_block of bad va''
         else (\<lambda>s. if \<not> va_is_mapped (4096 * b) s then Ret () s
                   else if \<not> va_is_dirty (4096 * b) s then Ret () s
                   else kbind (ide_write (of_nat (8 * b)) (4096 * b) 8) (\<lambda>r.
                        if r < 0 then kpanic ''At flush_block ide_write''
                        else kmod (\<lambda>s. s\<lparr>cdirty := (cdirty s)(b := False)\<rparr>)) s))"

section \<open>What a client of the cache sees\<close>

text \<open>The content of the file system: the cached block if there is one, else the disk.\<close>

definition view :: "fstate \<Rightarrow> bytes" where
  "view s a = (if cmapped s (a div 4096) then cmem s a else disk s a)"

text \<open>A clean cached block agrees with the disk, and only cached blocks are dirty.\<close>

definition cache_ok :: "fstate \<Rightarrow> bool" where
  "cache_ok s \<longleftrightarrow> (\<forall>b. cdirty s b \<longrightarrow> cmapped s b) \<and>
     (\<forall>a. cmapped s (a div 4096) \<and> \<not> cdirty s (a div 4096) \<longrightarrow> cmem s a = disk s a)"

definition nblocks :: "fstate \<Rightarrow> nat" where
  "nblocks s = unat (load32 (view s) (SUPER + 4))"

definition free_bit :: "bytes \<Rightarrow> nat \<Rightarrow> bool" where
  "free_bit v b = bit (load32 v (BITMAP + 4 * (b div 32))) (b mod 32)"

text \<open>A mounted file system: the super block is cached, the disk and the kernel answer, and the
  bitmap marks the super block and the bitmap itself as in use.\<close>

definition mounted :: "fstate \<Rightarrow> bool" where
  "mounted s \<longleftrightarrow> cache_ok s \<and> super_set s \<and> bitmap_set s \<and> cmapped s 1 \<and> page_rc s \<ge> 0 \<and> ide_rc s \<ge> 0 \<and>
     nblocks s \<le> DISKBLOCKS \<and>
     (\<forall>b < 2 + (nblocks s + 32767) div BLKBITSIZE. b < nblocks s \<and> \<not> free_bit (view s) b)"

lemma mountedD:
  assumes "mounted s"
  shows "cache_ok s" and "super_set s" and "bitmap_set s" and "cmapped s 1" and "page_rc s \<ge> 0" and "ide_rc s \<ge> 0"
    and "nblocks s \<le> DISKBLOCKS" and "b < 2 + (nblocks s + 32767) div 32768 \<Longrightarrow> b < nblocks s \<and> \<not> free_bit (view s) b"
  using assms by (simp_all add: mounted_def)

text \<open>\<open>loads s t\<close>: between the two states blocks have been faulted in and nothing else has happened.\<close>

definition loads :: "fstate \<Rightarrow> fstate \<Rightarrow> bool" where
  "loads s t \<longleftrightarrow> view t = view s \<and> disk t = disk s \<and> cdirty t = cdirty s \<and> (\<forall>b. cmapped s b \<longrightarrow> cmapped t b) \<and>
     super_set t = super_set s \<and> bitmap_set t = bitmap_set s \<and> page_rc t = page_rc s \<and> ide_rc t = ide_rc s \<and> cache_ok t"

lemma loads_refl: "cache_ok s \<Longrightarrow> loads s s"
  by (simp add: loads_def)

lemma loads_trans: "loads s t \<Longrightarrow> loads t u \<Longrightarrow> loads s u"
  by (simp add: loads_def)

lemma loads_mounted: "mounted s \<Longrightarrow> loads s t \<Longrightarrow> mounted t"
  unfolding mounted_def loads_def nblocks_def by auto

lemma loads_view:
  assumes "loads s t"
  shows "view t = view s" and "nblocks t = nblocks s" and "cmapped s b \<Longrightarrow> cmapped t b"
  using assms by (simp_all add: loads_def nblocks_def)

text \<open>A word does not cross a block boundary, so the cache shows what the client sees.\<close>

lemma aligned_in_block:
  assumes "a mod 4 = (0 :: nat)" and "k < 4"
  shows "(a + k) div 4096 = a div 4096"
proof -
  have "a mod 4096 mod 4 = 0" using assms(1) by (simp add: mod_mod_cancel)
  then obtain q where q: "a mod 4096 = 4 * q" by (auto simp: mod_eq_0_iff_dvd elim: dvdE)
  moreover have "a mod 4096 < 4096" by simp
  ultimately have "q \<le> 1023" by linarith
  then have "a mod 4096 + k < 4096" using assms(2) unfolding q by linarith
  moreover have "a = 4096 * (a div 4096) + a mod 4096" by simp
  ultimately have "a + k < 4096 + 4096 * (a div 4096)" by linarith
  then show ?thesis by (intro div_nat_eqI) (simp_all add: trans_le_add1)
qed

lemma load32_view:
  assumes "cmapped s (a div 4096)" and "a mod 4 = 0"
  shows "load32 (cmem s) a = load32 (view s) a"
proof -
  have "view s (a + k) = cmem s (a + k)" if "k < 4" for k
    unfolding view_def aligned_in_block [OF assms(2) that] using assms(1) by simp
  from this [of 0] this [of 1] this [of 2] this [of 3] show ?thesis by (simp add: load32_def)
qed

lemma bitmap_block: "(BITMAP + 4 * (b div 32)) div 4096 = 2 + b div 32768"
proof -
  have "(8192 + 4 * (b div 32)) div 4096 = (4 * (2048 + b div 32)) div (4 * 1024)"
    by (rule arg_cong2 [of _ _ _ _ "(div)"]) simp_all
  also have "\<dots> = (b div 32 + 2 * 1024) div 1024"
    by (subst div_mult_mult1) (simp_all add: add.commute)
  also have "\<dots> = 2 + b div 32 div 1024"
    using div_mult_self1 [of 1024 "b div 32" 2] by simp
  finally show ?thesis using div_mult2_eq [of b 32 1024] by simp
qed

subsection \<open>Loading one block\<close>

definition loaded :: "nat \<Rightarrow> fstate \<Rightarrow> fstate" where
  "loaded b s = (ide_command (of_nat (8 * b)) 8 0x20
       (s\<lparr>cmapped := (cmapped s)(b := True), cmem := (\<lambda>a. if a div 4096 = b then 0 else cmem s a)\<rparr>))
     \<lparr>cmem := (\<lambda>a. if a div 4096 = b then disk s a else cmem s a), cdirty := (cdirty s)(b := False)\<rparr>"

lemma block_range: "4096 * b \<le> a \<and> a < 4096 * b + 4096 \<longleftrightarrow> a div 4096 = b" for a b :: nat
  by (metis add.commute div_nat_eqI dividend_less_times_div less_eq_div_iff_mult_less_eq
      mult.commute mult_Suc_right order_refl times_div_less_eq_dividend zero_less_numeral)

lemma secno: "b < DISKBLOCKS \<Longrightarrow> 512 * unat (of_nat (8 * b) :: u32) = 4096 * b"
  by (subst unat_of_nat32) auto

lemma load_step:
  assumes "page_rc s \<ge> 0" and "ide_rc s \<ge> 0" and "b < DISKBLOCKS"
  shows "kthen (\<lambda>s. if page_rc s < 0 then Panic ''At bc_pgfault sys_page_alloc''
                    else Ret () (s\<lparr>cmapped := (cmapped s)(b := True),
                                   cmem := (\<lambda>a. if a div 4096 = b then 0 else cmem s a)\<rparr>))
      (kbind (ide_read (of_nat (8 * b)) (4096 * b) 8) (\<lambda>r.
         if r < 0 then kpanic ''At bc_pgfault ide_read''
         else kthen (kmod (\<lambda>s. s\<lparr>cdirty := (cdirty s)(b := False)\<rparr>)) k)) s = k (loaded b s)"
proof -
  have e: "(\<lambda>a. if 4096 * b \<le> a \<and> a < 4096 * b + 512 * unat (8 :: u32)
              then disk s (512 * unat (of_nat (8 * b) :: u32) + (a - 4096 * b))
              else if a div 4096 = b then 0 else cmem s a) =
      (\<lambda>a. if a div 4096 = b then disk s a else cmem s a)"
  proof
    fix a
    have r: "4096 * b \<le> a \<and> a < 4096 * b + 512 * unat (8 :: u32) \<longleftrightarrow> a div 4096 = b"
      using block_range [of b a] by simp
    have "a div 4096 = b \<Longrightarrow> 512 * unat (of_nat (8 * b) :: u32) + (a - 4096 * b) = a"
      unfolding secno [OF assms(3)] using r by linarith
    then show "(if 4096 * b \<le> a \<and> a < 4096 * b + 512 * unat (8 :: u32)
              then disk s (512 * unat (of_nat (8 * b) :: u32) + (a - 4096 * b))
              else if a div 4096 = b then 0 else cmem s a) = (if a div 4096 = b then disk s a else cmem s a)"
      unfolding r by simp
  qed
  show ?thesis
    using assms(1,2) e
    by (simp add: ide_read_def kthen_def kbind_def loaded_def del: of_nat_mult cong: if_cong)
qed

lemma loaded_loads:
  assumes "cache_ok s" and "\<not> cmapped s b"
  shows "loads s (loaded b s)" and "cmapped (loaded b s) b"
proof -
  have nd: "\<not> cdirty s b" using assms by (auto simp: cache_ok_def)
  show "cmapped (loaded b s) b" by (simp add: loaded_def)
  show "loads s (loaded b s)"
    using assms nd by (auto simp: loads_def loaded_def view_def cache_ok_def fun_eq_iff)
qed

subsection \<open>The page fault handler\<close>

definition can_touch :: "(nat \<Rightarrow> (fstate, unit) op) \<Rightarrow> nat \<Rightarrow> fstate \<Rightarrow> bool" where
  "can_touch t b s \<longleftrightarrow> (\<exists>s'. t b s = Ret () s' \<and> loads s s' \<and> cmapped s' b)"

lemma s_nblocks_by_ok:
  assumes "mounted s" and "t 1 s = Ret () s"
  shows "s_nblocks_by t s = Ret (of_nat (nblocks s)) s"
  using assms mountedD(4) [OF assms(1)] load32_view [of s "SUPER + 4"]
  by (simp add: s_nblocks_by_def nblocks_def)

lemma block_is_free_by_ok:
  assumes m: "mounted s" and t1: "\<And>s1. cmapped s1 1 \<Longrightarrow> t 1 s1 = Ret () s1" and b: "b < nblocks s"
    and tb: "can_touch t (2 + b div 32768) s"
  shows "\<exists>s'. block_is_free_by t (of_nat b) s = Ret (free_bit (view s) b) s' \<and> loads s s' \<and> cmapped s' (2 + b div 32768)"
proof -
  obtain s' where s': "t (2 + b div 32768) s = Ret () s'" "loads s s'" "cmapped s' (2 + b div 32768)"
    using tb by (auto simp: can_touch_def)
  have bb: "unat (of_nat b :: u32) = b" "\<not> of_nat (nblocks s) \<le> (of_nat b :: u32)"
    using b mountedD(7) [OF m] unat_lt32 by (auto simp: word_le_nat_alt unat_of_nat32)
  have "load32 (cmem s') (BITMAP + 4 * (b div 32)) = load32 (view s) (BITMAP + 4 * (b div 32))"
    using load32_view [of s' "BITMAP + 4 * (b div 32)"] s'(3) loads_view(1) [OF s'(2)] bitmap_block [of b] by simp
  then have "block_is_free_by t (of_nat b) s = Ret (free_bit (view s) b) s'"
    using mountedD(2) [OF m] s_nblocks_by_ok [where t = t, OF m t1 [OF mountedD(4) [OF m]]] bb s'(1) bitmap_block [of b]
    by (simp add: block_is_free_by_def free_bit_def)
  with s' show ?thesis by blast
qed

lemma bc_pgfault_ok:
  assumes m: "mounted s" and t1: "\<And>s1. cmapped s1 1 \<Longrightarrow> t 1 s1 = Ret () s1" and nm: "\<not> cmapped s b"
    and b: "b < nblocks s" "\<not> free_bit (view s) b"
    and tb: "\<And>s1. mounted s1 \<Longrightarrow> loads s s1 \<Longrightarrow> cmapped s1 b \<Longrightarrow> can_touch t (2 + b div 32768) s1"
  shows "\<exists>s'. bc_pgfault t b s = Ret () s' \<and> loads s s' \<and> cmapped s' b"
proof -
  have bd: "b < DISKBLOCKS" using b(1) mountedD(7) [OF m] by simp
  have nb: "\<not> of_nat (nblocks s) \<le> (of_nat b :: u32)"
    using b(1) mountedD(7) [OF m] by (simp add: word_le_nat_alt unat_of_nat32)
  note l = loaded_loads [OF mountedD(1) [OF m] nm]
  have ml: "mounted (loaded b s)" by (rule loads_mounted [OF m l(1)])
  obtain s' where s': "block_is_free_by t (of_nat b) (loaded b s) = Ret (free_bit (view s) b) s'" "loads (loaded b s) s'"
    using block_is_free_by_ok [where t = t, OF ml t1 _ tb [OF ml l]] b(1) loads_view(1,2) [OF l(1)] by auto
  have n: "kbind (s_nblocks_by t) (\<lambda>n. if of_nat b \<ge> n then kpanic ''reading non-existent block'' else kret ()) s = Ret () s"
    using s_nblocks_by_ok [where t = t, OF m t1 [OF mountedD(4) [OF m]]] nb by simp
  have f: "kbind (block_is_free_by t (of_nat b)) (\<lambda>f. if f then kpanic ''reading free block'' else kret ()) (loaded b s) = Ret () s'"
    using s'(1) b(2) by (simp add: kbind_def)
  have "bc_pgfault t b s = Ret () s'"
    unfolding bc_pgfault_def using bd n mountedD(2) [OF m]
    by (simp add: load_step [OF mountedD(5,6) [OF m] bd] mountedD(3) [OF ml] f del: of_nat_mult)
  with loads_trans [OF l(1) s'(2)] loads_view(3) [OF s'(2) l(2)] show ?thesis by blast
qed

lemma touch_n_mapped: "cmapped s b \<Longrightarrow> touch_n n b s = Ret () s"
  by (cases n) simp_all

lemma can_touch_mapped: "mounted s \<Longrightarrow> cmapped s b \<Longrightarrow> can_touch (touch_n n) b s"
  by (simp add: can_touch_def touch_n_mapped loads_refl mountedD(1))

text \<open>Every fault needs the bitmap block that covers its block; that chain ends at block 2.\<close>

lemma can_touch_step:
  assumes m: "mounted s" and b: "b < nblocks s" "\<not> free_bit (view s) b"
    and tb: "\<And>s1. mounted s1 \<Longrightarrow> loads s s1 \<Longrightarrow> cmapped s1 b \<Longrightarrow> can_touch (touch_n n) (2 + b div 32768) s1"
  shows "can_touch (touch_n (Suc n)) b s"
proof (cases "cmapped s b")
  case False
  then show ?thesis
    using bc_pgfault_ok [OF m touch_n_mapped False b tb] by (simp add: can_touch_def)
qed (rule can_touch_mapped [OF m])

lemma touch_ok:
  assumes m: "mounted s" and b: "b < nblocks s" "\<not> free_bit (view s) b"
  shows "\<exists>s'. touch b s = Ret () s' \<and> loads s s' \<and> cmapped s' b"
proof -
  have bm: "x < nblocks s1 \<and> \<not> free_bit (view s1) x" if "mounted s1" "x < 2 + (nblocks s1 + 32767) div 32768" for x s1
    using mountedD(8) [OF that(1)] that(2) by blast
  have two: "can_touch (touch_n (Suc n)) 2 s1" if "mounted s1" for n s1
  proof (rule can_touch_step [OF that])
    have "0 < nblocks s1" using mountedD(8) [OF that, of 0] by simp
    then show "2 < nblocks s1" "\<not> free_bit (view s1) 2" using bm [OF that, of 2] by simp_all
  qed (simp add: can_touch_mapped)
  have bitmap: "can_touch (touch_n (Suc (Suc n))) (2 + b div 32768) s1" if s1: "mounted s1" "loads s s1" for n s1
  proof (rule can_touch_step [OF s1(1)])
    have "b < nblocks s1" using b(1) loads_view(2) [OF s1(2)] by simp
    then have "(b + 32768) div 32768 \<le> (nblocks s1 + 32767) div 32768" by (intro div_le_mono) simp
    then have "2 + b div 32768 < 2 + (nblocks s1 + 32767) div 32768" by simp
    then show "2 + b div 32768 < nblocks s1" "\<not> free_bit (view s1) (2 + b div 32768)"
      using bm [OF s1(1)] by blast+
    have "b div 32768 < 25" using b(1) mountedD(7) [OF m] by (intro less_mult_imp_div_less) simp
    then have "(2 + b div 32768) div 32768 = 0" by simp
    then show "can_touch (touch_n (Suc n)) (2 + (2 + b div 32768) div 32768) s2" if "mounted s2" for s2
      using two [OF that, of n] by simp
  qed
  have "can_touch (touch_n (Suc (Suc (Suc 5)))) b s"
    by (rule can_touch_step [OF m b]) (rule bitmap)
  then show ?thesis by (simp add: can_touch_def touch_def eval_nat_numeral)
qed

subsection \<open>Accesses and write-back\<close>

definition in_use :: "fstate \<Rightarrow> nat \<Rightarrow> bool" where
  "in_use s b \<longleftrightarrow> b < nblocks s \<and> \<not> free_bit (view s) b"

lemma rd32_ok:
  assumes "mounted s" and "in_use s (a div 4096)" and "a mod 4 = 0"
  shows "\<exists>s'. rd32 a s = Ret (load32 (view s) a) s' \<and> loads s s'"
proof -
  obtain s' where s': "touch (a div 4096) s = Ret () s'" "loads s s'" "cmapped s' (a div 4096)"
    using touch_ok assms(1,2) unfolding in_use_def by blast
  then show ?thesis
    using load32_view [OF s'(3) assms(3)] loads_view(1) [OF s'(2)] by (simp add: rd32_def)
qed

lemma rd8_ok:
  assumes "mounted s" and "in_use s (a div 4096)"
  shows "\<exists>s'. rd8 a s = Ret (view s a) s' \<and> loads s s'"
proof -
  obtain s' where s': "touch (a div 4096) s = Ret () s'" "loads s s'" "cmapped s' (a div 4096)"
    using touch_ok assms unfolding in_use_def by blast
  then show ?thesis
    using fun_cong [OF loads_view(1) [OF s'(2)], of a] by (simp add: rd8_def view_def [of s'])
qed

text \<open>A write changes what the client sees at that place, marks the block dirty and leaves the disk
  alone. \<open>wrote s s'\<close> collects what does not depend on the place.\<close>

definition wrote :: "fstate \<Rightarrow> fstate \<Rightarrow> bool" where
  "wrote s t \<longleftrightarrow> disk t = disk s \<and> (\<forall>b. cmapped s b \<longrightarrow> cmapped t b) \<and> (\<forall>b. cdirty s b \<longrightarrow> cdirty t b) \<and>
     super_set t = super_set s \<and> bitmap_set t = bitmap_set s \<and> page_rc t = page_rc s \<and> ide_rc t = ide_rc s \<and> cache_ok t"

lemma wr32_ok:
  assumes "mounted s" and "in_use s (a div 4096)" and al: "a mod 4 = 0"
  shows "\<exists>s'. wr32 a v s = Ret () s' \<and> wrote s s' \<and> view s' = store32 (view s) a v \<and> cdirty s' (a div 4096) \<and>
    cmapped s' (a div 4096)"
proof -
  obtain t where t: "touch (a div 4096) s = Ret () t" "loads s t" "cmapped t (a div 4096)"
    using touch_ok assms(1,2) unfolding in_use_def by blast
  let ?s' = "t\<lparr>cmem := store32 (cmem t) a v, cdirty := (cdirty t)(a div 4096 := True)\<rparr>"
  have "wr32 a v s = Ret () ?s'" using t(1) by (simp add: wr32_def)
  moreover have blk: "(a + 1) div 4096 = a div 4096" "(a + 2) div 4096 = a div 4096" "(a + 3) div 4096 = a div 4096"
    by (rule aligned_in_block [OF al]; simp)+
  then have "view ?s' = store32 (view t) a v"
    using t(3) by (auto simp: view_def store32_def fun_eq_iff)
  moreover have "wrote s ?s'"
    using t(2,3) blk unfolding wrote_def loads_def cache_ok_def store32_def by auto
  ultimately show ?thesis using t(3) loads_view(1) [OF t(2)] by auto
qed

lemma wr8_ok:
  assumes "mounted s" and "in_use s (a div 4096)"
  shows "\<exists>s'. wr8 a v s = Ret () s' \<and> wrote s s' \<and> view s' = (view s)(a := v) \<and> cdirty s' (a div 4096)"
proof -
  obtain t where t: "touch (a div 4096) s = Ret () t" "loads s t" "cmapped t (a div 4096)"
    using touch_ok assms(1,2) unfolding in_use_def by blast
  let ?s' = "t\<lparr>cmem := (cmem t)(a := v), cdirty := (cdirty t)(a div 4096 := True)\<rparr>"
  have "wr8 a v s = Ret () ?s'" using t(1) by (simp add: wr8_def)
  moreover have "view ?s' = (view t)(a := v)"
    using t(3) by (auto simp: view_def fun_eq_iff)
  moreover have "wrote s ?s'"
    using t(2,3) unfolding wrote_def loads_def cache_ok_def by auto
  ultimately show ?thesis using loads_view(1) [OF t(2)] by auto
qed

lemma flush_block_ok:
  assumes c: "cache_ok s" and b: "a div 4096 < DISKBLOCKS" and rc: "ide_rc s \<ge> 0"
  shows "\<exists>s'. flush_block a s = Ret () s' \<and> view s' = view s \<and> cache_ok s' \<and> cmapped s' = cmapped s \<and>
    super_set s' = super_set s \<and> bitmap_set s' = bitmap_set s \<and> page_rc s' = page_rc s \<and> ide_rc s' = ide_rc s \<and>
    disk s' = (\<lambda>x. if x div 4096 = a div 4096 then view s x else disk s x) \<and> \<not> cdirty s' (a div 4096) \<and>
    (\<forall>b. b \<noteq> a div 4096 \<longrightarrow> cdirty s' b = cdirty s b)"
proof (cases "cmapped s (a div 4096) \<and> cdirty s (a div 4096)")
  case False
  have "flush_block a s = Ret () s"
    using False b by (auto simp: flush_block_def va_is_mapped_def va_is_dirty_def Let_def)
  moreover have "disk s = (\<lambda>x. if x div 4096 = a div 4096 then view s x else disk s x)"
    using False c by (auto simp: fun_eq_iff view_def cache_ok_def)
  ultimately show ?thesis using c False by (auto simp: cache_ok_def)
next
  case True
  let ?b = "a div 4096"
  let ?t = "ide_command (of_nat (8 * ?b)) 8 0x30 s"
  let ?s' = "?t\<lparr>disk := (\<lambda>x. if x div 4096 = ?b then cmem s x else disk s x), cdirty := (cdirty s)(?b := False)\<rparr>"
  have sec: "512 * unat (of_nat (8 * ?b) :: u32) = 4096 * ?b" by (rule secno [OF b])
  have e: "(\<lambda>x. if 4096 * ?b \<le> x \<and> x < 4096 * ?b + 512 * unat (8 :: u32)
        then cmem s (4096 * ?b + (x - 4096 * ?b)) else disk s x) = (\<lambda>x. if x div 4096 = ?b then cmem s x else disk s x)"
    using block_range [of ?b] by (auto simp: fun_eq_iff)
  have "flush_block a s = Ret () ?s'"
    using True b rc e unfolding flush_block_def ide_write_def sec Let_def va_is_mapped_def va_is_dirty_def
    by (simp add: kthen_def kbind_def del: of_nat_mult cong: if_cong)
  then show ?thesis
    using True c by (auto simp: view_def cache_ok_def fun_eq_iff)
qed

end
