(* ===== verification/Fs.thy ===== *)
theory Fs
  imports Block_Cache
begin

text \<open>
  The file system, \<^verbatim>\<open>fs/fs.c\<close>: the free block bitmap, the blocks of a file, directories,
  path names, reading, writing and truncating. A \<^verbatim>\<open>struct File *\<close> is the address of the
  structure in the block cache; its fields are at the offsets of \<^verbatim>\<open>inc/fs.h\<close>. Strings are
  lists of nonzero bytes. Every access goes through the block cache, in the order of the code.
\<close>

section \<open>Definitions\<close>

abbreviation (input) NDIRECT :: u32 where "NDIRECT \<equiv> 10"
abbreviation (input) NINDIRECT :: u32 where "NINDIRECT \<equiv> 1024"
abbreviation (input) BLKFILES :: nat where "BLKFILES \<equiv> 16"
abbreviation (input) MAXNAMELEN :: nat where "MAXNAMELEN \<equiv> 128"
abbreviation (input) FS_MAGIC :: u32 where "FS_MAGIC \<equiv> 0x4A0530AE"
abbreviation (input) FTYPE_DIR :: u32 where "FTYPE_DIR \<equiv> 1"

text \<open>\<^verbatim>\<open>struct File\<close>: name at 0, size at 128, type at 132, direct blocks at 136, indirect block
  at 176; 256 bytes. \<^verbatim>\<open>super->s_root\<close> is at offset 8 of the super block.\<close>

definition f_size_at :: "nat \<Rightarrow> nat" where "f_size_at f = f + 128"
definition f_type_at :: "nat \<Rightarrow> nat" where "f_type_at f = f + 132"
definition f_direct_at :: "nat \<Rightarrow> nat \<Rightarrow> nat" where "f_direct_at f i = f + 136 + 4 * i"
definition f_indirect_at :: "nat \<Rightarrow> nat" where "f_indirect_at f = f + 176"

abbreviation (input) ROOT :: nat where "ROOT \<equiv> SUPER + 8"

text \<open>Runs of bytes: \<^verbatim>\<open>memmove\<close> out of and into the cache, \<^verbatim>\<open>memset\<close> of a block.\<close>

primrec rd_bytes :: "nat \<Rightarrow> nat \<Rightarrow> (fstate, u8 list) op" where
  "rd_bytes a 0 = kret []"
| "rd_bytes a (Suc n) = kbind (rd8 a) (\<lambda>b. kbind (rd_bytes (a + 1) n) (\<lambda>bs. kret (b # bs)))"

primrec wr_bytes :: "nat \<Rightarrow> u8 list \<Rightarrow> (fstate, unit) op" where
  "wr_bytes a [] = kret ()"
| "wr_bytes a (b # bs) = kthen (wr8 a b) (wr_bytes (a + 1) bs)"

definition zero_block :: "nat \<Rightarrow> (fstate, unit) op" where
  "zero_block a = kthen (touch (a div 4096))
     (kmod (\<lambda>s. s\<lparr>cmem := mem_fill (cmem s) a 4096 0, cdirty := (cdirty s)(a div 4096 := True)\<rparr>))"

text \<open>\<^verbatim>\<open>strcmp\<close> of a cached string with \<open>name\<close> gives 0.\<close>

primrec name_eq :: "nat \<Rightarrow> u8 list \<Rightarrow> (fstate, bool) op" where
  "name_eq a [] = kbind (rd8 a) (\<lambda>b. kret (b = 0))"
| "name_eq a (x # xs) = kbind (rd8 a) (\<lambda>b. if b = x then name_eq (a + 1) xs else kret False)"

subsection \<open>Super block and bitmap\<close>

definition check_super :: "(fstate, unit) op" where
  "check_super =
     kbind (rd32 SUPER) (\<lambda>magic.
     if magic \<noteq> FS_MAGIC then kpanic ''bad file system magic number''
     else kbind s_nblocks (\<lambda>n. if n > 0xC0000 then kpanic ''file system is too large'' else kret ()))"

definition block_is_free :: "u32 \<Rightarrow> (fstate, bool) op" where
  "block_is_free = block_is_free_by touch"

definition bitmap_word :: "u32 \<Rightarrow> nat" where
  "bitmap_word blockno = BITMAP + 4 * (unat blockno div 32)"

definition free_block :: "u32 \<Rightarrow> (fstate, unit) op" where
  "free_block blockno =
     (if blockno = 0 then kpanic ''attempt to free zero block''
      else kbind (rd32 (bitmap_word blockno)) (\<lambda>w.
           wr32 (bitmap_word blockno) (w OR push_bit (unat blockno mod 32) 1)))"

text \<open>The search loop, from \<open>blkno\<close> on.\<close>

primrec alloc_scan :: "nat \<Rightarrow> u32 \<Rightarrow> (fstate, int) op" where
  "alloc_scan 0 blkno = kret (- E_NO_DISK)"
| "alloc_scan (Suc n) blkno =
     kbind (block_is_free blkno) (\<lambda>free.
     if free
     then kbind (rd32 (bitmap_word blkno)) (\<lambda>w.
          kthen (wr32 (bitmap_word blkno) (w AND NOT (push_bit (unat blkno mod 32) 1)))
          (kthen (flush_block (bitmap_word blkno))
          (kret (uint blkno))))
     else alloc_scan n (blkno + 1))"

definition alloc_block :: "(fstate, int) op" where
  "alloc_block = kbind s_nblocks (\<lambda>n. alloc_scan (unat n - 2) 2)"

definition check_bitmap :: "(fstate, unit) op" where
  "check_bitmap =
     kbind s_nblocks (\<lambda>n.
     kthen (kfor [0..<(unat n + 32767) div BLKBITSIZE] (\<lambda>i.
              kbind (block_is_free (2 + of_nat i)) (\<lambda>f. kassert (\<not> f))))
     (kthen (kbind (block_is_free 0) (\<lambda>f. kassert (\<not> f)))
     (kbind (block_is_free 1) (\<lambda>f. kassert (\<not> f)))))"

text \<open>\<^verbatim>\<open>check_bc\<close>: smash the super block (264 bytes are saved), write it back, drop it from
  the cache, read it again; then once more with an unaligned address.\<close>

definition bc_experiment :: "nat \<Rightarrow> bool \<Rightarrow> (fstate, unit) op" where
  "bc_experiment flush_at check_clean =
     kbind (rd_bytes SUPER 264) (\<lambda>backup.
     kthen (wr_bytes SUPER (map of_char ''OOPS!'' @ [10, 0]))
     (kthen (flush_block flush_at)
     (kthen (\<lambda>s. kassert (va_is_mapped SUPER s) s)
     (kthen (\<lambda>s. kassert (check_clean \<longrightarrow> \<not> va_is_dirty SUPER s) s)
     (kthen (kmod (\<lambda>s. s\<lparr>cmapped := (cmapped s)(1 := False), cdirty := (cdirty s)(1 := False)\<rparr>))
     (kthen (\<lambda>s. kassert (\<not> va_is_mapped SUPER s) s)
     (kthen (kbind (name_eq SUPER (map of_char ''OOPS!'' @ [10])) kassert)
     (kthen (wr_bytes SUPER backup)
     (flush_block SUPER)))))))))"

definition bc_init :: "(fstate, unit) op" where
  "bc_init = kthen (bc_experiment SUPER True) (kthen (bc_experiment (SUPER + 20) False)
     (kbind (rd_bytes SUPER 264) (\<lambda>_. kret ())))"

text \<open>\<open>disk1\<close> is the answer of \<^verbatim>\<open>ide_probe_disk1\<close>.\<close>

definition fs_init :: "bool \<Rightarrow> (fstate, unit) op" where
  "fs_init disk1 =
     kthen (ide_set_disk (if disk1 then 1 else 0))
     (kthen bc_init
     (kthen (kbind (diskaddr 1) (\<lambda>_. kmod (\<lambda>s. s\<lparr>super_set := True\<rparr>)))
     (kthen check_super
     (kthen (kbind (diskaddr 2) (\<lambda>_. kmod (\<lambda>s. s\<lparr>bitmap_set := True\<rparr>)))
     check_bitmap))))"

subsection \<open>Blocks of a file\<close>

text \<open>The result code and \<^verbatim>\<open>*ppdiskbno\<close>.\<close>

definition file_block_walk :: "nat \<Rightarrow> u32 \<Rightarrow> bool \<Rightarrow> (fstate, int \<times> nat) op" where
  "file_block_walk f filebno alloc =
     (if filebno \<ge> NDIRECT + NINDIRECT then kret (- E_INVAL, 0)
      else if filebno < NDIRECT then kret (0, f_direct_at f (unat filebno))
      else kbind (rd32 (f_indirect_at f)) (\<lambda>ind.
           kbind (if ind = 0
                  then if \<not> alloc then kret (- E_NOT_FOUND)
                       else kbind alloc_block (\<lambda>ret.
                            if ret < 0 then kret (- E_NO_DISK)
                            else kthen (wr32 (f_indirect_at f) (word_of_int ret))
                                 (kbind (diskaddr (word_of_int ret)) (\<lambda>a.
                                  kthen (zero_block a) (kthen (flush_block a) (kret 0)))))
                  else kret 0) (\<lambda>r.
           if r < 0 then kret (r, 0)
           else kbind (rd32 (f_indirect_at f)) (\<lambda>ind.
                kbind (diskaddr ind) (\<lambda>a.
                kret (0, a + 4 * unat (filebno - NDIRECT)))))))"

text \<open>The result code and \<^verbatim>\<open>*blk\<close>.\<close>

definition file_get_block :: "nat \<Rightarrow> u32 \<Rightarrow> (fstate, int \<times> nat) op" where
  "file_get_block f filebno =
     kbind (file_block_walk f filebno True) (\<lambda>(ret, slot).
     if ret < 0 then kret (ret, 0)
     else kbind (rd32 slot) (\<lambda>bno.
          kbind (if bno = 0
                 then kbind alloc_block (\<lambda>ret.
                      if ret < 0 then kret ret
                      else kthen (wr32 slot (word_of_int ret))
                           (kbind (diskaddr (word_of_int ret)) (\<lambda>a.
                            kthen (zero_block a) (kthen (flush_block a) (kret 0)))))
                 else kret 0) (\<lambda>r.
          if r < 0 then kret (r, 0)
          else kbind (rd32 slot) (\<lambda>bno. kbind (diskaddr bno) (\<lambda>a. kret (0, a))))))"

subsection \<open>Directories\<close>

text \<open>The first of the entries \<open>js\<close> of a directory block that satisfies \<open>p\<close>.\<close>

primrec find_entry :: "(nat \<Rightarrow> (fstate, bool) op) \<Rightarrow> nat \<Rightarrow> nat list \<Rightarrow> (fstate, nat option) op" where
  "find_entry p blk [] = kret None"
| "find_entry p blk (j # js) =
     kbind (p (blk + 256 * j)) (\<lambda>hit. if hit then kret (Some (blk + 256 * j)) else find_entry p blk js)"

text \<open>The blocks \<open>is\<close> of a directory in turn: an error code, or the entry found, or \<open>None\<close>.\<close>

primrec find_in_dir :: "(nat \<Rightarrow> (fstate, bool) op) \<Rightarrow> nat \<Rightarrow> nat list \<Rightarrow> (fstate, int + nat option) op" where
  "find_in_dir p dir [] = kret (Inr None)"
| "find_in_dir p dir (i # is) =
     kbind (file_get_block dir (of_nat i)) (\<lambda>(r, blk).
     if r < 0 then kret (Inl r)
     else kbind (find_entry p blk [0..<BLKFILES]) (\<lambda>e.
          case e of Some f \<Rightarrow> kret (Inr (Some f)) | None \<Rightarrow> find_in_dir p dir is))"

definition dir_lookup :: "nat \<Rightarrow> u8 list \<Rightarrow> (fstate, int \<times> nat) op" where
  "dir_lookup dir name =
     kbind (rd32 (f_size_at dir)) (\<lambda>sz.
     kthen (kassert (sint sz mod 4096 = 0))
     (kbind (find_in_dir (\<lambda>f. name_eq f name) dir [0..<unat (word_of_int (sint sz div 4096) :: u32)]) (\<lambda>r. case r of
        Inl e \<Rightarrow> kret (e, 0)
      | Inr (Some f) \<Rightarrow> kret (0, f)
      | Inr None \<Rightarrow> kret (- E_NOT_FOUND, 0))))"

definition dir_alloc_file :: "nat \<Rightarrow> (fstate, int \<times> nat) op" where
  "dir_alloc_file dir =
     kbind (rd32 (f_size_at dir)) (\<lambda>sz.
     kthen (kassert (sint sz mod 4096 = 0))
     (let nblock = (word_of_int (sint sz div 4096) :: u32)
      in kbind (find_in_dir (\<lambda>f. kbind (rd8 f) (\<lambda>b. kret (b = 0))) dir [0..<unat nblock]) (\<lambda>r. case r of
           Inl e \<Rightarrow> kret (e, 0)
         | Inr (Some f) \<Rightarrow> kret (0, f)
         | Inr None \<Rightarrow>
             kthen (wr32 (f_size_at dir) (sz + 4096))
             (kbind (file_get_block dir nblock) (\<lambda>(r, blk).
              if r < 0 then kret (r, 0) else kret (0, blk))))))"

subsection \<open>Path names\<close>

abbreviation (input) SLASH :: u8 where "SLASH \<equiv> 47"

definition skip_slash :: "u8 list \<Rightarrow> u8 list" where
  "skip_slash = dropWhile (\<lambda>c. c = SLASH)"

text \<open>What \<^verbatim>\<open>walk_path\<close> stores through its pointers; 0 is the null pointer.\<close>

record walk_result =
  w_ret :: int
  w_dir :: nat
  w_file :: nat
  w_last :: "u8 list"

definition walk_fail :: "int \<Rightarrow> walk_result" where
  "walk_fail r = \<lparr>w_ret = r, w_dir = 0, w_file = 0, w_last = []\<rparr>"

function walk_loop :: "u8 list \<Rightarrow> nat \<Rightarrow> nat \<Rightarrow> (fstate, walk_result) op" where
  "walk_loop path dir f =
     (if path = [] then kret \<lparr>w_ret = 0, w_dir = dir, w_file = f, w_last = []\<rparr>
      else let name = takeWhile (\<lambda>c. c \<noteq> SLASH) path; rest = skip_slash (dropWhile (\<lambda>c. c \<noteq> SLASH) path)
           in if length name \<ge> MAXNAMELEN then kret (walk_fail (- E_BAD_PATH))
              else kbind (rd32 (f_type_at f)) (\<lambda>type.
                   if type \<noteq> FTYPE_DIR then kret (walk_fail (- E_NOT_FOUND))
                   else kbind (dir_lookup f name) (\<lambda>(r, f').
                        if r < 0
                        then kret (if r = - E_NOT_FOUND \<and> rest = []
                                   then \<lparr>w_ret = r, w_dir = f, w_file = 0, w_last = name\<rparr> else walk_fail r)
                        else walk_loop rest f f')))"
  by auto
termination
proof (relation "measure (\<lambda>(path, dir, f). length path)", simp)
  fix path :: "u8 list" and dir f name rest and x :: u32 and r :: int and f' :: nat
  assume "path \<noteq> []" "rest = skip_slash (dropWhile (\<lambda>c. c \<noteq> SLASH) path)"
  then obtain c cs where path: "path = c # cs" by (cases path) auto
  have le: "length (skip_slash xs) \<le> length xs" for xs
    by (simp add: skip_slash_def length_dropWhile_le)
  have "length rest < length path"
  proof (cases "c = SLASH")
    case True
    then have "rest = skip_slash cs" using \<open>rest = _\<close> by (simp add: path skip_slash_def)
    with le [of cs] show ?thesis by (simp add: path)
  next
    case False
    then have "rest = skip_slash (dropWhile (\<lambda>c. c \<noteq> SLASH) cs)" using \<open>rest = _\<close> by (simp add: path)
    with le [of "dropWhile (\<lambda>c. c \<noteq> SLASH) cs"] length_dropWhile_le [of "\<lambda>c. c \<noteq> SLASH" cs] show ?thesis
      by (simp add: path)
  qed
  then show "((rest, f, f'), path, dir, f) \<in> measure (\<lambda>(path, dir, f). length path)" by simp
qed

declare walk_loop.simps [simp del]

definition walk_path :: "u8 list \<Rightarrow> (fstate, walk_result) op" where
  "walk_path path = walk_loop (skip_slash path) 0 ROOT"

subsection \<open>Truncating and flushing\<close>

text \<open>C's division of a signed number by \<^verbatim>\<open>BLKSIZE\<close>, and the number of blocks of a size.\<close>

definition c_div_blk :: "int \<Rightarrow> int" where
  "c_div_blk x = (if x \<ge> 0 then x div 4096 else - ((- x) div 4096))"

definition blocks_for :: "u32 \<Rightarrow> u32" where
  "blocks_for sz = word_of_int (c_div_blk (sint (sz + 4095)))"

definition file_free_block :: "nat \<Rightarrow> u32 \<Rightarrow> (fstate, int) op" where
  "file_free_block f filebno =
     kbind (file_block_walk f filebno False) (\<lambda>(r, slot).
     if r < 0 then kret r
     else kbind (rd32 slot) (\<lambda>bno.
          if bno \<noteq> 0 then kthen (free_block bno) (kthen (wr32 slot 0) (kret 0)) else kret 0))"

text \<open>A failing \<open>file_free_block\<close> is only reported on the console.\<close>

definition file_truncate_blocks :: "nat \<Rightarrow> u32 \<Rightarrow> (fstate, unit) op" where
  "file_truncate_blocks f newsize =
     kbind (rd32 (f_size_at f)) (\<lambda>sz.
     let old_nblocks = blocks_for sz; new_nblocks = blocks_for newsize
     in kthen (kfor [unat new_nblocks..<unat old_nblocks] (\<lambda>bno.
                 kbind (file_free_block f (of_nat bno)) (\<lambda>r. kret ())))
        (if new_nblocks \<le> NDIRECT
         then kbind (rd32 (f_indirect_at f)) (\<lambda>ind.
              if ind \<noteq> 0 then kthen (free_block ind) (wr32 (f_indirect_at f) 0) else kret ())
         else kret ()))"

definition file_set_size :: "nat \<Rightarrow> u32 \<Rightarrow> (fstate, int) op" where
  "file_set_size f newsize =
     kbind (rd32 (f_size_at f)) (\<lambda>sz.
     kthen (if sint sz > sint newsize then file_truncate_blocks f newsize else kret ())
     (kthen (wr32 (f_size_at f) newsize)
     (kthen (flush_block f)
     (kret 0))))"

definition file_flush :: "nat \<Rightarrow> (fstate, unit) op" where
  "file_flush f =
     kbind (rd32 (f_size_at f)) (\<lambda>sz.
     kthen (kfor [0..<nat (c_div_blk (sint (sz + 4095)))] (\<lambda>i.
              kbind (file_block_walk f (of_nat i) False) (\<lambda>(r, slot).
              if r < 0 \<or> slot = 0 then kret ()
              else kbind (rd32 slot) (\<lambda>bno.
                   if bno = 0 then kret () else kbind (diskaddr bno) flush_block))))
     (kthen (flush_block f)
     (kbind (rd32 (f_indirect_at f)) (\<lambda>ind.
      if ind \<noteq> 0 then kbind (diskaddr ind) flush_block else kret ()))))"

definition fs_sync :: "(fstate, unit) op" where
  "fs_sync = kbind s_nblocks (\<lambda>n. kfor [1..<unat n] (\<lambda>i. kbind (diskaddr (of_nat i)) flush_block))"

subsection \<open>Creating, opening, reading and writing\<close>

definition file_create :: "u8 list \<Rightarrow> (fstate, int \<times> nat) op" where
  "file_create path =
     kbind (walk_path path) (\<lambda>w.
     if w_ret w = 0 then kret (- E_FILE_EXISTS, 0)
     else if w_ret w \<noteq> - E_NOT_FOUND \<or> w_dir w = 0 then kret (w_ret w, 0)
     else kbind (dir_alloc_file (w_dir w)) (\<lambda>(r, f).
          if r < 0 then kret (r, 0)
          else kthen (wr_bytes f (w_last w @ [0]))
               (kthen (file_flush (w_dir w)) (kret (0, f)))))"

definition file_open :: "u8 list \<Rightarrow> (fstate, int \<times> nat) op" where
  "file_open path = kbind (walk_path path) (\<lambda>w. kret (w_ret w, w_file w))"

text \<open>Positions are \<^verbatim>\<open>off_t\<close> compared as unsigned with \<^verbatim>\<open>offset + count\<close>. Every
  round moves at least one byte, so that \<open>count\<close> rounds are enough. A position with the sign bit
  set fails in \<open>file_get_block\<close>, so the signed remainder that follows it is the unsigned one.\<close>

definition chunk :: "u32 \<Rightarrow> u32 \<Rightarrow> nat" where
  "chunk pos stop = unat (min (4096 - pos mod 4096) (stop - pos))"

primrec read_loop :: "nat \<Rightarrow> nat \<Rightarrow> u32 \<Rightarrow> u32 \<Rightarrow> (fstate, int + u8 list) op" where
  "read_loop 0 f pos stop = kret (Inr [])"
| "read_loop (Suc n) f pos stop =
     (if pos < stop
      then kbind (file_get_block f (word_of_int (c_div_blk (sint pos)))) (\<lambda>(r, blk).
           if r < 0 then kret (Inl r)
           else kbind (rd_bytes (blk + unat (pos mod 4096)) (chunk pos stop)) (\<lambda>bs.
                kbind (read_loop n f (pos + of_nat (chunk pos stop)) stop) (\<lambda>res. case res of
                  Inl e \<Rightarrow> kret (Inl e)
                | Inr later \<Rightarrow> kret (Inr (bs @ later)))))
      else kret (Inr []))"

text \<open>The result code and the bytes stored at \<^verbatim>\<open>buf\<close>.\<close>

definition file_read :: "nat \<Rightarrow> u32 \<Rightarrow> u32 \<Rightarrow> (fstate, int \<times> u8 list) op" where
  "file_read f count offset =
     kbind (rd32 (f_size_at f)) (\<lambda>sz.
     if sint offset \<ge> sint sz then kret (0, [])
     else let n = min count (sz - offset)
          in kbind (read_loop (unat n) f offset (offset + n)) (\<lambda>r. case r of
               Inl e \<Rightarrow> kret (e, [])
             | Inr bs \<Rightarrow> kret (sint n, bs)))"

primrec write_loop :: "nat \<Rightarrow> nat \<Rightarrow> u8 list \<Rightarrow> u32 \<Rightarrow> u32 \<Rightarrow> (fstate, int) op" where
  "write_loop 0 f buf pos stop = kret 0"
| "write_loop (Suc n) f buf pos stop =
     (if pos < stop
      then kbind (file_get_block f (word_of_int (c_div_blk (sint pos)))) (\<lambda>(r, blk).
           if r < 0 then kret r
           else kthen (wr_bytes (blk + unat (pos mod 4096)) (take (chunk pos stop) buf))
                (write_loop n f (drop (chunk pos stop) buf) (pos + of_nat (chunk pos stop)) stop))
      else kret 0)"

definition file_write :: "nat \<Rightarrow> u8 list \<Rightarrow> u32 \<Rightarrow> (fstate, int) op" where
  "file_write f buf offset =
     kbind (rd32 (f_size_at f)) (\<lambda>sz.
     let count = of_nat (length buf)
     in kbind (if offset + count > sz then file_set_size f (offset + count) else kret 0) (\<lambda>r.
        if r < 0 then kret r
        else kbind (write_loop (length buf) f buf offset (offset + count)) (\<lambda>r.
             if r < 0 then kret r else kret (sint count))))"

end
