(* ===== verification/Fs_Bitmap.thy ===== *)
theory Fs_Bitmap
  imports Fs Resource_Pool
begin

text \<open>
  The free block bitmap of a mounted file system as a pool of blocks: \<open>alloc_block\<close> hands out the
  first free block and writes the bitmap back at once, \<open>free_block\<close> returns a block.
\<close>

definition free_blocks :: "fstate \<Rightarrow> nat set" where
  "free_blocks s = {b. 2 \<le> b \<and> b < nblocks s \<and> free_bit (view s) b}"

text \<open>A block that may be released: allocated, and neither the super block nor the bitmap.\<close>

definition data_block :: "nat \<Rightarrow> fstate \<Rightarrow> bool" where
  "data_block b s \<longleftrightarrow> 2 + (nblocks s + 32767) div 32768 \<le> b \<and> b < nblocks s \<and> \<not> free_bit (view s) b"

section \<open>Reading the bitmap\<close>

lemma bitmap_in_use:
  assumes "mounted s" and "b < nblocks s"
  shows "in_use s (2 + b div 32768)"
proof -
  have "(b + 32768) div 32768 \<le> (nblocks s + 32767) div 32768" using assms(2) by (intro div_le_mono) simp
  then have "2 + b div 32768 < 2 + (nblocks s + 32767) div 32768" by simp
  from mountedD(8) [OF assms(1) this] show ?thesis by (simp add: in_use_def)
qed

lemma block_number:
  assumes "mounted s" and "b < nblocks s"
  shows "unat (of_nat b :: u32) = b"
  using mountedD(7) [OF assms(1)] assms(2) by (simp add: unat_of_nat32)

lemma block_is_free_ok:
  assumes m: "mounted s" and b: "b < nblocks s"
  shows "\<exists>s'. block_is_free (of_nat b) s = Ret (free_bit (view s) b) s' \<and> loads s s'"
proof -
  have "can_touch touch (2 + b div 32768) s"
    using touch_ok [OF m] bitmap_in_use [OF m b] unfolding in_use_def can_touch_def by blast
  moreover have "touch 1 s1 = Ret () s1" if "cmapped s1 1" for s1
    using that by (simp add: touch_def touch_n_mapped)
  ultimately show ?thesis
    using block_is_free_by_ok [where t = touch, OF m _ b] unfolding block_is_free_def by blast
qed

lemma s_nblocks_ok: "mounted s \<Longrightarrow> s_nblocks s = Ret (of_nat (nblocks s)) s"
  unfolding s_nblocks_def
  by (rule s_nblocks_by_ok) (simp_all only: touch_def touch_n_mapped [OF mountedD(4)])

section \<open>Changing a bit\<close>

lemma free_bit_store:
  "free_bit (store32 v (BITMAP + 4 * (b div 32)) w) x = (if x div 32 = b div 32 then bit w (x mod 32) else free_bit v x)"
proof (cases "x div 32" "b div 32" rule: linorder_cases)
  case less
  then show ?thesis by (simp add: free_bit_def)
next
  case equal
  then show ?thesis by (simp add: free_bit_def)
next
  case greater
  then show ?thesis by (simp add: free_bit_def)
qed

lemma same_bit: "x div 32 = b div 32 \<Longrightarrow> x mod 32 = b mod 32 \<longleftrightarrow> x = b" for x b :: nat
  by (metis div_mult_mod_eq)

lemma free_bit_clear:
  "free_bit (store32 v (BITMAP + 4 * (b div 32)) (load32 v (BITMAP + 4 * (b div 32)) AND NOT (push_bit (b mod 32) 1))) x \<longleftrightarrow>
     free_bit v x \<and> x \<noteq> b"
  using same_bit [of x b]
  by (cases "x div 32 = b div 32") (auto simp: free_bit_store bit_simps free_bit_def [of v])

lemma free_bit_set:
  "free_bit (store32 v (BITMAP + 4 * (b div 32)) (load32 v (BITMAP + 4 * (b div 32)) OR push_bit (b mod 32) 1)) x \<longleftrightarrow>
     free_bit v x \<or> x = b"
  using same_bit [of x b]
  by (cases "x div 32 = b div 32") (auto simp: free_bit_store bit_simps free_bit_def [of v])

lemma nblocks_store_bitmap: "load32 (store32 v (BITMAP + k) w) (SUPER + 4) = load32 v (SUPER + 4)"
  by simp

lemma bitmap_word_block: "bitmap_word w div 4096 = 2 + unat w div 32768" "bitmap_word w mod 4 = 0"
  using bitmap_block [of "unat w"] unfolding bitmap_word_def by (simp_all add: mod_add_eq mod_mult_self1)

text \<open>A write of a bitmap word keeps the file system mounted when no reserved block becomes free.\<close>

lemma mounted_write:
  assumes m: "mounted s" and w: "wrote s t" and v: "view t = store32 (view s) (BITMAP + k) x"
    and keep: "\<And>b. b < 2 + (nblocks s + 32767) div 32768 \<Longrightarrow> \<not> free_bit (view t) b"
  shows "mounted t" and "nblocks t = nblocks s"
proof -
  show n: "nblocks t = nblocks s" by (simp add: nblocks_def v)
  show "mounted t"
    using mountedD [OF m] w keep n unfolding mounted_def wrote_def by auto
qed

section \<open>Allocation\<close>

text \<open>\<open>claims b s s'\<close>: block \<open>b\<close> has become used and the bitmap block is on the disk.\<close>

definition claims :: "nat \<Rightarrow> fstate \<Rightarrow> fstate \<Rightarrow> bool" where
  "claims b s s' \<longleftrightarrow> mounted s' \<and> nblocks s' = nblocks s \<and>
     (\<forall>x. free_bit (view s') x \<longleftrightarrow> free_bit (view s) x \<and> x \<noteq> b) \<and>
     (\<forall>a. a div 4096 \<noteq> 2 + b div 32768 \<longrightarrow> view s' a = view s a) \<and>
     (\<forall>a. a div 4096 = 2 + b div 32768 \<longrightarrow> disk s' a = view s' a)"

lemma store32_other_block:
  "a div 4096 \<noteq> b div 4096 \<Longrightarrow> b mod 4 = 0 \<Longrightarrow> store32 m b w a = m a"
  using aligned_in_block [of b 1] aligned_in_block [of b 2] aligned_in_block [of b 3]
  by (auto simp: store32_def)

lemma claim_ok:
  assumes m: "mounted s" and b: "b < nblocks s" "free_bit (view s) b"
  shows "\<exists>s'. kbind (rd32 (bitmap_word (of_nat b))) (\<lambda>w.
          kthen (wr32 (bitmap_word (of_nat b)) (w AND NOT (push_bit (unat (of_nat b :: u32) mod 32) 1)))
          (kthen (flush_block (bitmap_word (of_nat b))) (kret (uint (of_nat b :: u32))))) s = Ret (int b) s' \<and> claims b s s'"
proof -
  note u = block_number [OF m b(1)]
  define a where "a = bitmap_word (of_nat b)"
  have a: "a div 4096 = 2 + b div 32768" "a mod 4 = 0" "a = BITMAP + 4 * (b div 32)"
    using bitmap_word_block [of "of_nat b"] by (simp_all add: a_def u bitmap_word_def)
  have use: "in_use s (a div 4096)" using bitmap_in_use [OF m b(1)] by (simp only: a(1))
  obtain s1 where s1: "rd32 a s = Ret (load32 (view s) a) s1" "loads s s1"
    using rd32_ok [OF m use a(2)] by blast
  note m1 = loads_mounted [OF m s1(2)] and v1 = loads_view [OF s1(2)]
  define w where "w = load32 (view s) a AND NOT (push_bit (b mod 32) 1)"
  have use1: "in_use s1 (a div 4096)" using use v1 by (simp add: in_use_def)
  obtain s2 where s2: "wr32 a w s1 = Ret () s2" "wrote s1 s2" "view s2 = store32 (view s) a w"
    using wr32_ok [OF m1 use1 a(2)] v1(1) by auto
  have fb: "free_bit (view s2) x \<longleftrightarrow> free_bit (view s) x \<and> x \<noteq> b" for x
    unfolding s2(3) w_def a(3) by (rule free_bit_clear)
  have v2: "view s2 = store32 (view s1) (BITMAP + 4 * (b div 32)) w" using s2(3) v1(1) a(3) by simp
  have m2: "mounted s2" "nblocks s2 = nblocks s"
    using mounted_write [OF m1 s2(2) v2] mountedD(8) [OF m] fb v1(2) by auto
  have ad: "a div 4096 < DISKBLOCKS" using use mountedD(7) [OF m] by (simp add: in_use_def)
  obtain s3 where s3: "flush_block a s2 = Ret () s3" "view s3 = view s2" "cache_ok s3" "cmapped s3 = cmapped s2"
    "super_set s3 = super_set s2" "bitmap_set s3 = bitmap_set s2" "page_rc s3 = page_rc s2" "ide_rc s3 = ide_rc s2"
    "disk s3 = (\<lambda>x. if x div 4096 = a div 4096 then view s2 x else disk s2 x)"
    using flush_block_ok [OF mountedD(1) [OF m2(1)] ad mountedD(6) [OF m2(1)]] by blast
  have m3: "mounted s3" "nblocks s3 = nblocks s"
    using mountedD [OF m2(1)] s3(2-8) m2(2) unfolding mounted_def nblocks_def by simp_all
  have "claims b s s3"
    unfolding claims_def using m3 s3(2,9) fb a(1) store32_other_block [of _ a "view s" w] a(2) s2(3) by simp
  moreover have "uint (of_nat b :: u32) = int b" using u by (metis uint_nat)
  ultimately show ?thesis
    unfolding a_def [symmetric] using s1(1) s2(1) s3(1) by (simp add: u w_def kthen_def)
qed

lemma claims_loads: "loads s t \<Longrightarrow> claims b t s' \<Longrightarrow> claims b s s'"
  by (simp add: claims_def loads_view)

lemma alloc_scan_ok:
  assumes "mounted s" and "2 \<le> b" and "b + n = nblocks s"
  shows "(\<exists>x s'. alloc_scan n (of_nat b) s = Ret (int x) s' \<and> claims x s s' \<and> b \<le> x \<and> x < nblocks s \<and> free_bit (view s) x \<and>
       (\<forall>y. b \<le> y \<and> y < x \<longrightarrow> \<not> free_bit (view s) y)) \<or>
     (\<exists>s'. alloc_scan n (of_nat b) s = Ret (- E_NO_DISK) s' \<and> loads s s' \<and> (\<forall>y. b \<le> y \<and> y < nblocks s \<longrightarrow> \<not> free_bit (view s) y))"
  using assms
proof (induction n arbitrary: b s)
  case 0
  then show ?case using loads_refl [OF mountedD(1) [OF 0(1)]] by auto
next
  case (Suc n)
  have b: "b < nblocks s" using Suc.prems(3) by simp
  obtain s1 where s1: "block_is_free (of_nat b) s = Ret (free_bit (view s) b) s1" "loads s s1"
    using block_is_free_ok [OF Suc.prems(1) b] by blast
  note m1 = loads_mounted [OF Suc.prems(1) s1(2)] and v1 = loads_view [OF s1(2)]
  show ?case
  proof (cases "free_bit (view s) b")
    case True
    then obtain s' where "alloc_scan (Suc n) (of_nat b) s = Ret (int b) s'" "claims b s1 s'"
      using claim_ok [OF m1, of b] s1(1) b v1 by auto
    with True b claims_loads [OF s1(2), of b s'] show ?thesis by (intro disjI1 exI [of _ b] exI [of _ s']) auto
  next
    case False
    have e: "alloc_scan (Suc n) (of_nat b) s = alloc_scan n (of_nat (Suc b)) s1"
      using s1(1) False by (simp add: add.commute)
    have "Suc b + n = nblocks s1" using Suc.prems(3) v1(2) by simp
    note IH = Suc.IH [OF m1 le_SucI [OF Suc.prems(2)] this, unfolded v1(1,2)]
    have below: "\<forall>y. b \<le> y \<and> y < k \<longrightarrow> \<not> free_bit (view s) y"
      if "\<forall>y. Suc b \<le> y \<and> y < k \<longrightarrow> \<not> free_bit (view s) y" for k
    proof (intro allI impI)
      fix y assume "b \<le> y \<and> y < k"
      then show "\<not> free_bit (view s) y" using that False by (cases "y = b") auto
    qed
    from IH show ?thesis
    proof (elim disjE exE conjE)
      fix x s' assume "alloc_scan n (of_nat (Suc b)) s1 = Ret (int x) s'" "claims x s1 s'" "Suc b \<le> x" "x < nblocks s"
        "free_bit (view s) x" "\<forall>y. Suc b \<le> y \<and> y < x \<longrightarrow> \<not> free_bit (view s) y"
      then show ?thesis
        unfolding e using claims_loads [OF s1(2), of x s'] below [of x] by (intro disjI1 exI [of _ x] exI [of _ s']) auto
    next
      fix s' assume "alloc_scan n (of_nat (Suc b)) s1 = Ret (- 9) s'" "loads s1 s'"
        "\<forall>y. Suc b \<le> y \<and> y < nblocks s \<longrightarrow> \<not> free_bit (view s) y"
      then show ?thesis
        unfolding e using loads_trans [OF s1(2), of s'] below [of "nblocks s"] by (intro disjI2 exI [of _ s']) auto
    qed
  qed
qed

lemma alloc_block_cases:
  assumes m: "mounted s"
  obtains (full) s' where "alloc_block s = Ret (- E_NO_DISK) s'" and "loads s s'" and "free_blocks s = {}"
  | (got) b s' where "alloc_block s = Ret (int b) s'" and "b \<in> free_blocks s" and "\<And>x. x \<in> free_blocks s \<Longrightarrow> b \<le> x"
      and "claims b s s'" and "free_blocks s' = free_blocks s - {b}"
proof -
  have "1 < nblocks s" using mountedD(8) [OF m, of 1] by simp
  then have n: "2 + (nblocks s - 2) = nblocks s" by arith
  have e: "alloc_block s = alloc_scan (nblocks s - 2) (of_nat 2) s"
    using s_nblocks_ok [OF m] mountedD(7) [OF m] by (simp add: alloc_block_def unat_of_nat32)
  show thesis
    using alloc_scan_ok [OF m order_refl n]
  proof (elim disjE exE conjE)
    fix x s' assume x: "alloc_scan (nblocks s - 2) (of_nat 2) s = Ret (int x) s'" "claims x s s'" "2 \<le> x" "x < nblocks s"
      "free_bit (view s) x" "\<forall>y. 2 \<le> y \<and> y < x \<longrightarrow> \<not> free_bit (view s) y"
    show thesis
    proof (rule got [OF _ _ _ x(2)])
      show "alloc_block s = Ret (int x) s'" using e x(1) by simp
      show "x \<in> free_blocks s" using x by (simp add: free_blocks_def)
      show "x \<le> y" if "y \<in> free_blocks s" for y
        using that x(6) by (auto simp: free_blocks_def not_less [symmetric])
      show "free_blocks s' = free_blocks s - {x}" using x(2) by (auto simp: free_blocks_def claims_def)
    qed
  next
    fix s' assume "alloc_scan (nblocks s - 2) (of_nat 2) s = Ret (- 9) s'" "loads s s'"
      "\<forall>y. 2 \<le> y \<and> y < nblocks s \<longrightarrow> \<not> free_bit (view s) y"
    then show thesis using e by (intro full) (auto simp: free_blocks_def)
  qed
qed

section \<open>Release\<close>

lemma free_block_ok:
  assumes m: "mounted s" and d: "data_block b s"
  shows "\<exists>s'. free_block (of_nat b) s = Ret () s' \<and> mounted s' \<and> nblocks s' = nblocks s \<and>
    (\<forall>x. free_bit (view s') x \<longleftrightarrow> free_bit (view s) x \<or> x = b) \<and>
    (\<forall>a. a div 4096 \<noteq> 2 + b div 32768 \<longrightarrow> view s' a = view s a)"
proof -
  have b: "b < nblocks s" "2 + (nblocks s + 32767) div 32768 \<le> b" using d by (simp_all add: data_block_def)
  note u = block_number [OF m b(1)]
  have nz: "(of_nat b :: u32) \<noteq> 0" using u b(2) by (auto simp: word_unat_eq_iff)
  define a where "a = bitmap_word (of_nat b)"
  have a: "a div 4096 = 2 + b div 32768" "a mod 4 = 0" "a = BITMAP + 4 * (b div 32)"
    using bitmap_word_block [of "of_nat b"] by (simp_all add: a_def u bitmap_word_def)
  have use: "in_use s (a div 4096)" using bitmap_in_use [OF m b(1)] by (simp only: a(1))
  obtain s1 where s1: "rd32 a s = Ret (load32 (view s) a) s1" "loads s s1"
    using rd32_ok [OF m use a(2)] by blast
  note m1 = loads_mounted [OF m s1(2)] and v1 = loads_view [OF s1(2)]
  define w where "w = load32 (view s) a OR push_bit (b mod 32) 1"
  have use1: "in_use s1 (a div 4096)" using use v1 by (simp add: in_use_def)
  obtain s2 where s2: "wr32 a w s1 = Ret () s2" "wrote s1 s2" "view s2 = store32 (view s) a w"
    using wr32_ok [OF m1 use1 a(2)] v1(1) by auto
  have fb: "free_bit (view s2) x \<longleftrightarrow> free_bit (view s) x \<or> x = b" for x
    unfolding s2(3) w_def a(3) by (rule free_bit_set)
  have v2: "view s2 = store32 (view s1) (BITMAP + 4 * (b div 32)) w" using s2(3) v1(1) a(3) by simp
  have m2: "mounted s2" "nblocks s2 = nblocks s"
    using mounted_write [OF m1 s2(2) v2] mountedD(8) [OF m] fb v1(2) b(2) by auto
  have "free_block (of_nat b) s = Ret () s2"
    unfolding free_block_def a_def [symmetric] using nz s1(1) s2(1) by (simp add: u w_def)
  with m2 fb s2(3) store32_other_block [of _ a "view s" w] a(1,2) show ?thesis by auto
qed

section \<open>The pool\<close>

definition block_take :: "fstate \<Rightarrow> (nat \<times> fstate) option" where
  "block_take s = (case alloc_block s of Ret r s' \<Rightarrow> if r < 0 then None else Some (nat r, s') | _ \<Rightarrow> None)"

definition block_give :: "nat \<Rightarrow> fstate \<Rightarrow> fstate" where
  "block_give b s = (case free_block (of_nat b) s of Ret _ s' \<Rightarrow> s' | _ \<Rightarrow> s)"

interpretation block_pool: resource_pool mounted free_blocks block_take data_block block_give
proof
  fix s s' :: fstate and r :: nat
  assume m: "mounted s"
  show "finite (free_blocks s)" by (simp add: free_blocks_def)
  show "block_take s = None \<longleftrightarrow> free_blocks s = {}"
    using m by (rule alloc_block_cases) (auto simp: block_take_def)
  show "mounted s' \<and> r \<in> free_blocks s \<and> free_blocks s' = free_blocks s - {r}" if "block_take s = Some (r, s')"
    using m by (rule alloc_block_cases) (use that in \<open>auto simp: block_take_def claims_def\<close>)
  show "r \<notin> free_blocks s" if "data_block r s"
    using that by (simp add: data_block_def free_blocks_def)
  show "mounted (block_give r s)" "free_blocks (block_give r s) = insert r (free_blocks s)" if "data_block r s"
    using free_block_ok [OF m that] that by (auto simp: block_give_def free_blocks_def data_block_def)
qed

end
