(* ===== verification/Fs_File.thy ===== *)
theory Fs_File
  imports Fs_Bitmap
begin

text \<open>
  Files of a mounted file system. The 1034 block pointers of a file and the pointer to its indirect
  block (number 1034) are one table; a file is well-formed when its pointers lead to distinct
  allocated data blocks. \<open>file_byte\<close> is the abstract content, where an unallocated block reads as
  zeros. The lemmas show what the operations of \<^verbatim>\<open>fs/fs.c\<close> do to that content and that
  they touch nothing outside the file and the free blocks.
\<close>

section \<open>Well-formed files\<close>

definition reserved :: "fstate \<Rightarrow> nat" where
  "reserved s = 2 + (nblocks s + 32767) div 32768"

definition ind_of :: "bytes \<Rightarrow> nat \<Rightarrow> nat" where
  "ind_of v f = unat (load32 v (f_indirect_at f))"

definition slot_at :: "bytes \<Rightarrow> nat \<Rightarrow> nat \<Rightarrow> nat" where
  "slot_at v f i = (if i < 10 then f_direct_at f i else if i < 1034 then 4096 * ind_of v f + 4 * (i - 10)
     else f_indirect_at f)"

definition has_slot :: "bytes \<Rightarrow> nat \<Rightarrow> nat \<Rightarrow> bool" where
  "has_slot v f i \<longleftrightarrow> i \<le> 1034 \<and> (10 \<le> i \<and> i < 1034 \<longrightarrow> ind_of v f \<noteq> 0)"

definition ptr :: "bytes \<Rightarrow> nat \<Rightarrow> nat \<Rightarrow> nat" where
  "ptr v f i = (if has_slot v f i then unat (load32 v (slot_at v f i)) else 0)"

definition struct_ok :: "fstate \<Rightarrow> nat \<Rightarrow> bool" where
  "struct_ok s f \<longleftrightarrow> f mod 4 = 0 \<and> f mod 4096 \<le> 3840 \<and> 4104 \<le> f \<and> in_use s (f div 4096) \<and>
     (f div 4096 = 1 \<or> reserved s \<le> f div 4096)"

definition file_ok :: "fstate \<Rightarrow> nat \<Rightarrow> bool" where
  "file_ok s f \<longleftrightarrow> struct_ok s f \<and>
     (\<forall>i. ptr (view s) f i \<noteq> 0 \<longrightarrow> data_block (ptr (view s) f i) s \<and> ptr (view s) f i \<noteq> f div 4096) \<and>
     (\<forall>i j. ptr (view s) f i \<noteq> 0 \<and> ptr (view s) f i = ptr (view s) f j \<longrightarrow> i = j)"

text \<open>Bytes that belong neither to the file nor to the bitmap nor to a free block.\<close>

definition outside :: "nat \<Rightarrow> fstate \<Rightarrow> nat \<Rightarrow> bool" where
  "outside f s x \<longleftrightarrow> in_use s (x div 4096) \<and> (x div 4096 = 1 \<or> reserved s \<le> x div 4096) \<and>
     \<not> (f \<le> x \<and> x < f + 256) \<and> (\<forall>i. ptr (view s) f i \<noteq> 0 \<longrightarrow> x div 4096 \<noteq> ptr (view s) f i)"

definition keeps :: "nat \<Rightarrow> fstate \<Rightarrow> fstate \<Rightarrow> bool" where
  "keeps f s s' \<longleftrightarrow> mounted s' \<and> file_ok s' f \<and> nblocks s' = nblocks s \<and>
     (\<forall>x. outside f s x \<longrightarrow> outside f s' x \<and> view s' x = view s x)"

definition file_byte :: "bytes \<Rightarrow> nat \<Rightarrow> nat \<Rightarrow> u8" where
  "file_byte v f k = (let b = ptr v f (k div 4096) in if b = 0 then 0 else v (4096 * b + k mod 4096))"

abbreviation (input) MAXFILESIZE :: nat where "MAXFILESIZE \<equiv> 4235264"

text \<open>Name, size and type.\<close>

definition same_meta :: "nat \<Rightarrow> bytes \<Rightarrow> bytes \<Rightarrow> bool" where
  "same_meta f v v' \<longleftrightarrow> (\<forall>k<136. v' (f + k) = v (f + k))"

definition same_content :: "nat \<Rightarrow> bytes \<Rightarrow> bytes \<Rightarrow> bool" where
  "same_content f v v' \<longleftrightarrow> (\<forall>k<MAXFILESIZE. file_byte v' f k = file_byte v f k)"

section \<open>Bytes and words\<close>

lemma load32_cong: "(\<And>k. k < 4 \<Longrightarrow> v' (a + k) = v (a + k)) \<Longrightarrow> load32 v' a = load32 v a"
  using arg_cong2 [of _ _ _ _ undefined] unfolding load32_def
  by (metis add.right_neutral one_less_numeral_iff semiring_norm(76) zero_less_numeral
      numeral_less_iff semiring_norm(77,78,79,80,81))

lemma aligned_apart: "a mod 4 = 0 \<Longrightarrow> b mod 4 = 0 \<Longrightarrow> a \<noteq> b \<Longrightarrow> a + 4 \<le> b \<or> b + 4 \<le> a" for a b :: nat
  by (auto simp: mod_eq_0_iff_dvd elim!: dvdE)

lemma div4096: "k < 4096 \<Longrightarrow> (4096 * b + k) div 4096 = b" for b k :: nat
  by (intro div_nat_eqI) simp_all

lemma struct_block: "f mod 4096 \<le> 3840 \<Longrightarrow> k < 256 \<Longrightarrow> (f + k) div 4096 = f div 4096" for f k :: nat
proof -
  assume "f mod 4096 \<le> 3840" "k < 256"
  then have "f mod 4096 + k < 4096" by simp
  then have "(4096 * (f div 4096) + (f mod 4096 + k)) div 4096 = f div 4096" by (rule div4096)
  moreover have "4096 * (f div 4096) + (f mod 4096 + k) = f + k" by simp
  ultimately show ?thesis by simp
qed

lemma in_struct_block: "f mod 4096 \<le> 3840 \<Longrightarrow> f \<le> x \<Longrightarrow> x < f + 256 \<Longrightarrow> x div 4096 = f div 4096" for f x :: nat
  using struct_block [of f "x - f"] by simp

text \<open>The bytes that decide whether the file system is mounted, and which blocks are free.\<close>

lemma free_bit_cong:
  assumes "\<And>x. x div 4096 = 2 + b div 32768 \<Longrightarrow> v' x = v x"
  shows "free_bit v' b = free_bit v b"
  unfolding free_bit_def
  by (rule arg_cong2 [of _ _ _ _ bit]) (auto intro!: load32_cong assms simp: aligned_in_block bitmap_block)

lemma mounted_cong:
  assumes m: "mounted s" and w: "wrote s t"
    and v: "\<And>x. x div 4096 = 1 \<and> x < 4104 \<or> 2 \<le> x div 4096 \<and> x div 4096 < reserved s \<Longrightarrow> view t x = view s x"
  shows "mounted t" and "nblocks t = nblocks s" and "b < nblocks s \<Longrightarrow> free_bit (view t) b = free_bit (view s) b"
proof -
  have d: "(SUPER + 4 + k) div 4096 = 1" if "k < 4" for k
    using that by (intro div_nat_eqI) simp_all
  show n: "nblocks t = nblocks s"
    unfolding nblocks_def by (intro arg_cong [of _ _ unat] load32_cong v) (use d in auto)
  have fb: "free_bit (view t) b = free_bit (view s) b" if "b < nblocks s" for b
  proof (rule free_bit_cong, rule v)
    fix x assume x: "x div 4096 = 2 + b div 32768"
    have "(b + 32768) div 32768 \<le> (nblocks s + 32767) div 32768" using that by (intro div_le_mono) simp
    then show "x div 4096 = 1 \<and> x < 4104 \<or> 2 \<le> x div 4096 \<and> x div 4096 < reserved s"
      using x by (simp add: reserved_def)
  qed
  then show "b < nblocks s \<Longrightarrow> free_bit (view t) b = free_bit (view s) b" .
  show "mounted t"
    using mountedD [OF m] w n fb unfolding mounted_def wrote_def by auto
qed

lemma zero_block_ok:
  assumes "mounted s" and "in_use s b"
  shows "\<exists>s'. zero_block (4096 * b) s = Ret () s' \<and> wrote s s' \<and> view s' = mem_fill (view s) (4096 * b) 4096 0"
proof -
  obtain t where t: "touch b s = Ret () t" "loads s t" "cmapped t b"
    using touch_ok [OF assms(1), of b] assms(2) unfolding in_use_def by blast
  let ?s' = "t\<lparr>cmem := mem_fill (cmem t) (4096 * b) 4096 0, cdirty := (cdirty t)(b := True)\<rparr>"
  have "zero_block (4096 * b) s = Ret () ?s'" using t(1) by (simp add: zero_block_def)
  moreover have "view ?s' = mem_fill (view t) (4096 * b) 4096 0"
    using t(3) block_range [of b] by (auto simp: view_def mem_fill_def fun_eq_iff)
  moreover have "wrote s ?s'"
    using t(2,3) block_range [of b] unfolding wrote_def loads_def cache_ok_def mem_fill_def by auto
  ultimately show ?thesis using loads_view(1) [OF t(2)] by auto
qed

section \<open>The pointer table\<close>

lemma ptr_1034 [simp]: "ptr v f 1034 = ind_of v f"
  by (simp add: ptr_def has_slot_def slot_at_def ind_of_def)

lemma ptr_less: "ptr v f i < 4294967296"
  by (simp add: ptr_def unat_lt32)

lemma ptr_out: "1034 < i \<Longrightarrow> ptr v f i = 0"
  by (simp add: ptr_def has_slot_def)

definition plain_block :: "fstate \<Rightarrow> nat \<Rightarrow> bool" where
  "plain_block s b \<longleftrightarrow> in_use s b \<and> (b = 1 \<or> reserved s \<le> b)"

lemma data_block_plain: "data_block b s \<Longrightarrow> plain_block s b"
  by (simp add: data_block_def plain_block_def in_use_def reserved_def)

lemma file_okD:
  assumes "file_ok s f"
  shows "f mod 4 = 0" and "f mod 4096 \<le> 3840" and "4104 \<le> f" and "plain_block s (f div 4096)"
    and "ptr (view s) f i \<noteq> 0 \<Longrightarrow> data_block (ptr (view s) f i) s"
    and "ptr (view s) f i \<noteq> 0 \<Longrightarrow> ptr (view s) f i \<noteq> f div 4096"
    and "ptr (view s) f i \<noteq> 0 \<Longrightarrow> ptr (view s) f i = ptr (view s) f j \<Longrightarrow> i = j"
  using assms unfolding file_ok_def struct_ok_def plain_block_def by blast+

lemma slot_props:
  assumes f: "file_ok s f" and i: "has_slot (view s) f i"
  shows "slot_at (view s) f i mod 4 = 0"
    and "slot_at (view s) f i div 4096 = (if 10 \<le> i \<and> i < 1034 then ind_of (view s) f else f div 4096)"
    and "plain_block s (slot_at (view s) f i div 4096)"
proof -
  have four: "(f + 4 * k) mod 4 = 0" for k using file_okD(1) [OF f] by (simp add: mod_add_eq)
  have *: "f_direct_at f i = f + 4 * (34 + i)" "f_indirect_at f = f + 4 * 44"
    by (simp_all add: f_direct_at_def f_indirect_at_def)
  show "slot_at (view s) f i mod 4 = 0"
    unfolding slot_at_def * using four by (auto simp: mod_add_eq mod_mult_left_eq)
  show blk: "slot_at (view s) f i div 4096 = (if 10 \<le> i \<and> i < 1034 then ind_of (view s) f else f div 4096)"
    unfolding slot_at_def * using struct_block [OF file_okD(2) [OF f]] div4096 [of "4 * (i - 10)"] i
    by (auto simp: has_slot_def)
  have "plain_block s (ind_of (view s) f)" if "10 \<le> i \<and> i < 1034"
    using file_okD(5) [OF f, of 1034] that i by (auto simp: has_slot_def intro: data_block_plain)
  then show "plain_block s (slot_at (view s) f i div 4096)"
    unfolding blk using file_okD(4) [OF f] by simp
qed

lemma slot_4104:
  assumes f: "file_ok s f" and i: "has_slot (view s) f i"
  shows "4104 \<le> slot_at (view s) f i"
proof (cases "10 \<le> i \<and> i < 1034")
  case True
  then have "reserved s \<le> ind_of (view s) f"
    using file_okD(5) [OF f, of 1034] i by (simp add: has_slot_def data_block_def reserved_def)
  then show ?thesis using True by (simp add: slot_at_def reserved_def)
next
  case False
  then show ?thesis using file_okD(3) [OF f] by (auto simp: slot_at_def f_direct_at_def f_indirect_at_def)
qed

lemma slot_inj:
  assumes f: "file_ok s f" and i: "has_slot (view s) f i" and j: "has_slot (view s) f j"
    and e: "slot_at (view s) f i = slot_at (view s) f j"
  shows "i = j"
proof -
  have ne: "ind_of (view s) f \<noteq> f div 4096" if "10 \<le> k \<and> k < 1034" "has_slot (view s) f k" for k
    using file_okD(6) [OF f, of 1034] that by (simp add: has_slot_def)
  have "(10 \<le> i \<and> i < 1034) = (10 \<le> j \<and> j < 1034)"
    using slot_props(2) [OF f i] slot_props(2) [OF f j] e ne [OF _ i] ne [OF _ j] by (auto split: if_splits)
  then show ?thesis
    using e i j unfolding slot_at_def f_direct_at_def f_indirect_at_def has_slot_def by (auto split: if_splits)
qed

text \<open>Apart from slot \<open>i\<close> of the file, block \<open>b\<close> and the bitmap, nothing has changed.\<close>

definition agrees :: "fstate \<Rightarrow> nat \<Rightarrow> nat \<Rightarrow> nat \<Rightarrow> bytes \<Rightarrow> bool" where
  "agrees s f i b v \<longleftrightarrow> (\<forall>x. (x div 4096 = 1 \<or> reserved s \<le> x div 4096) \<and> x div 4096 \<noteq> b \<and>
        \<not> (slot_at (view s) f i \<le> x \<and> x < slot_at (view s) f i + 4) \<longrightarrow> v x = view s x)"

text \<open>A new block \<open>b\<close> is entered in slot \<open>i\<close>: what the file system looks like afterwards.\<close>

definition attached :: "fstate \<Rightarrow> nat \<Rightarrow> nat \<Rightarrow> nat \<Rightarrow> bytes \<Rightarrow> bool" where
  "attached s f i b v \<longleftrightarrow> load32 v (slot_at (view s) f i) = of_nat b \<and> (\<forall>x. x div 4096 = b \<longrightarrow> v x = 0) \<and>
     agrees s f i b v"

lemma agrees_load:
  assumes f: "file_ok s f" and i: "has_slot (view s) f i" and b: "\<not> in_use s b" and at: "agrees s f i b v"
    and j: "has_slot (view s) f j" "i \<noteq> j"
  shows "load32 v (slot_at (view s) f j) = load32 (view s) (slot_at (view s) f j)"
proof (rule load32_cong)
  fix k :: nat assume k: "k < 4"
  let ?x = "slot_at (view s) f j"
  have blk: "(?x + k) div 4096 = ?x div 4096" by (rule aligned_in_block [OF slot_props(1) [OF f j(1)] k])
  have "?x \<noteq> slot_at (view s) f i" using slot_inj [OF f j(1) i] j(2) by blast
  then have "slot_at (view s) f i + 4 \<le> ?x \<or> ?x + 4 \<le> slot_at (view s) f i"
    using aligned_apart slot_props(1) [OF f i] slot_props(1) [OF f j(1)] by metis
  then have "\<not> (slot_at (view s) f i \<le> ?x + k \<and> ?x + k < slot_at (view s) f i + 4)" using k by linarith
  then show "v (?x + k) = view s (?x + k)"
    using at slot_props(3) [OF f j(1)] b unfolding agrees_def plain_block_def blk [symmetric] by blast
qed

text \<open>A byte that is neither in the indirect block nor in the pointers of the structure.\<close>

lemma agrees_eq:
  assumes f: "file_ok s f" and i: "has_slot (view s) f i" and b: "\<not> in_use s b" and at: "agrees s f i b v"
    and x: "plain_block s (x div 4096)" "x div 4096 \<noteq> ind_of (view s) f \<or> ind_of (view s) f = 0"
      "\<not> (f + 136 \<le> x \<and> x < f + 256)"
  shows "v x = view s x"
proof -
  have "\<not> (slot_at (view s) f i \<le> x \<and> x < slot_at (view s) f i + 4)"
  proof
    assume s: "slot_at (view s) f i \<le> x \<and> x < slot_at (view s) f i + 4"
    then have blk: "x div 4096 = slot_at (view s) f i div 4096"
      using aligned_in_block [OF slot_props(1) [OF f i], of "x - slot_at (view s) f i"] by (simp add: less_diff_conv2)
    show False
    proof (cases "10 \<le> i \<and> i < 1034")
      case True
      then have "ind_of (view s) f \<noteq> 0" using i by (simp add: has_slot_def)
      then show False using x(2) blk slot_props(2) [OF f i] True by auto
    next
      case False
      then have "slot_at (view s) f i \<le> f + 252 \<and> f + 136 \<le> slot_at (view s) f i"
        by (auto simp: slot_at_def f_direct_at_def f_indirect_at_def)
      then show False using x(3) s by linarith
    qed
  qed
  then show ?thesis using at x(1) b unfolding agrees_def plain_block_def by blast
qed

lemma data_byte_apart:
  assumes f: "file_ok s f" and n: "n < 1034" "ptr (view s) f n \<noteq> 0" and k: "k < 4096"
  shows "plain_block s ((4096 * ptr (view s) f n + k) div 4096)"
    and "(4096 * ptr (view s) f n + k) div 4096 \<noteq> ind_of (view s) f \<or> ind_of (view s) f = 0"
    and "\<not> (f + 136 \<le> 4096 * ptr (view s) f n + k \<and> 4096 * ptr (view s) f n + k < f + 256)"
proof -
  have d: "(4096 * ptr (view s) f n + k) div 4096 = ptr (view s) f n" by (rule div4096 [OF k])
  show "plain_block s ((4096 * ptr (view s) f n + k) div 4096)"
    unfolding d by (rule data_block_plain [OF file_okD(5) [OF f n(2)]])
  show "(4096 * ptr (view s) f n + k) div 4096 \<noteq> ind_of (view s) f \<or> ind_of (view s) f = 0"
    using file_okD(7) [OF f n(2), of 1034] n(1) unfolding d by auto
  show "\<not> (f + 136 \<le> 4096 * ptr (view s) f n + k \<and> 4096 * ptr (view s) f n + k < f + 256)"
    using in_struct_block [OF file_okD(2) [OF f], of "4096 * ptr (view s) f n + k"] d file_okD(6) [OF f n(2)] by fastforce
qed

lemma meta_byte_apart:
  assumes f: "file_ok s f" and k: "k < 136"
  shows "plain_block s ((f + k) div 4096)" and "(f + k) div 4096 \<noteq> ind_of (view s) f \<or> ind_of (view s) f = 0"
    and "\<not> (f + 136 \<le> f + k \<and> f + k < f + 256)"
proof -
  have d: "(f + k) div 4096 = f div 4096" using struct_block [OF file_okD(2) [OF f]] k by simp
  show "plain_block s ((f + k) div 4096)" using file_okD(4) [OF f] by (simp add: d)
  show "(f + k) div 4096 \<noteq> ind_of (view s) f \<or> ind_of (view s) f = 0"
    using file_okD(6) [OF f, of 1034] unfolding d by fastforce
  show "\<not> (f + 136 \<le> f + k \<and> f + k < f + 256)" using k by simp
qed

lemma attached_ptr:
  assumes f: "file_ok s f" and i: "has_slot (view s) f i" and b: "\<not> in_use s b" "b \<noteq> 0" "b < 4294967296"
    and p0: "ptr (view s) f i = 0" and at: "attached s f i b v"
  shows "ptr v f j = (if j = i then b else ptr (view s) f j)"
proof -
  have ag: "agrees s f i b v" using at by (simp add: attached_def)
  note ld = agrees_load [OF f i b(1) ag]
  have bi: "unat (load32 v (slot_at (view s) f i)) = b" using at b(3) by (simp add: attached_def unat_of_nat32)
  have h1034: "has_slot (view s) f 1034" by (simp add: has_slot_def)
  show ?thesis
  proof (cases "i = 1034")
    case True
    then have old: "ind_of (view s) f = 0" using p0 by simp
    have new: "ind_of v f = b" using bi True by (simp add: slot_at_def ind_of_def)
    consider "j < 10" | "10 \<le> j" "j < 1034" | "j = 1034" | "j > 1034" by linarith
    then show ?thesis
    proof cases
      case 1
      then show ?thesis using ld [of j] True by (simp add: ptr_def has_slot_def slot_at_def)
    next
      case 2
      have "v (4096 * b + 4 * (j - 10) + k) = 0" if "k < 4" for k
        using at div4096 [of "4 * (j - 10) + k" b] 2 that unfolding attached_def by (simp add: add.assoc)
      from this [of 0] this [of 1] this [of 2] this [of 3] have "load32 v (4096 * b + 4 * (j - 10)) = 0"
        by (simp add: load32_def)
      then show ?thesis using 2 old new True by (simp add: ptr_def has_slot_def slot_at_def)
    qed (use True new ptr_out in simp_all)
  next
    case False
    have ind: "ind_of v f = ind_of (view s) f"
      using ld [OF h1034] False by (simp add: ind_of_def slot_at_def)
    then have same: "slot_at v f j = slot_at (view s) f j" "has_slot v f j = has_slot (view s) f j"
      by (simp_all add: slot_at_def has_slot_def)
    show ?thesis
    proof (cases "j = i")
      case True
      then show ?thesis using same i bi by (simp add: ptr_def)
    next
      case neq: False
      then show ?thesis using ld [of j] same by (auto simp: ptr_def)
    qed
  qed
qed

text \<open>Attaching a fresh block leaves the file well-formed, its content and everything else as it was.\<close>

lemma free_blocksD:
  assumes "mounted s" and "b \<in> free_blocks s"
  shows "b < nblocks s" and "reserved s \<le> b" and "\<not> in_use s b" and "b \<noteq> 0" and "b < 4294967296"
proof -
  show n: "b < nblocks s" and u: "\<not> in_use s b"
    using assms(2) by (simp_all add: free_blocks_def in_use_def)
  show "reserved s \<le> b"
    using mountedD(8) [OF assms(1), of b] assms(2) by (auto simp: reserved_def free_blocks_def not_less [symmetric])
  then show "b \<noteq> 0" by (simp add: reserved_def)
  show "b < 4294967296" using n mountedD(7) [OF assms(1)] by simp
qed

lemma attached_keeps:
  assumes m: "mounted s" and f: "file_ok s f" and i: "has_slot (view s) f i" and b: "b \<in> free_blocks s"
    and p0: "ptr (view s) f i = 0" and at: "attached s f i b (view s')"
    and m': "mounted s'" "nblocks s' = nblocks s" and u': "\<And>x. in_use s' x \<longleftrightarrow> in_use s x \<or> x = b"
  shows "keeps f s s'" and "same_content f (view s) (view s')" and "same_meta f (view s) (view s')"
proof -
  note bd = free_blocksD [OF m b]
  note P = attached_ptr [OF f i bd(3,4,5) p0 at]
  have res: "reserved s' = reserved s" by (simp add: reserved_def m'(2))
  have db: "data_block x s' \<longleftrightarrow> data_block x s \<or> x = b" for x
    using u' [of x] bd(1,2) unfolding data_block_def in_use_def m'(2) reserved_def by auto
  have fb: "f div 4096 \<noteq> b" using file_okD(4) [OF f] bd(3) by (auto simp: plain_block_def)
  have pb: "ptr (view s) f j \<noteq> b" for j
    using file_okD(5) [OF f, of j] bd(3,4) by (auto simp: data_block_def in_use_def)
  have ok': "file_ok s' f"
    unfolding file_ok_def struct_ok_def
  proof (intro conjI allI impI)
    show "in_use s' (f div 4096)" using u' file_okD(4) [OF f] by (simp add: plain_block_def)
    show "f div 4096 = 1 \<or> reserved s' \<le> f div 4096" using file_okD(4) [OF f] by (simp add: plain_block_def res)
    fix j assume nz: "ptr (view s') f j \<noteq> 0"
    show "data_block (ptr (view s') f j) s'" "ptr (view s') f j \<noteq> f div 4096"
      using nz P [of j] file_okD(5,6) [OF f, of j] fb db by (auto split: if_splits)
  next
    fix j k assume "ptr (view s') f j \<noteq> 0 \<and> ptr (view s') f j = ptr (view s') f k"
    then show "j = k"
      using P [of j] P [of k] file_okD(7) [OF f, of j k] pb by (auto split: if_splits)
  qed (use file_okD(1,2,3) [OF f] in simp_all)
  have ag: "agrees s f i b (view s')" using at by (simp add: attached_def)
  note eq = agrees_eq [OF f i bd(3) ag]
  show "keeps f s s'"
    unfolding keeps_def
  proof (intro conjI allI impI m' ok')
    fix x assume x: "outside f s x"
    then have "plain_block s (x div 4096)" "x div 4096 \<noteq> b" using bd(3) by (auto simp: outside_def plain_block_def)
    moreover have "x div 4096 \<noteq> ind_of (view s) f \<or> ind_of (view s) f = 0"
      using x unfolding outside_def by (metis ptr_1034)
    ultimately show "view s' x = view s x" using eq x by (simp add: outside_def)
    show "outside f s' x"
      using x \<open>x div 4096 \<noteq> b\<close> u' P unfolding outside_def res by (auto split: if_splits)
  qed
  show "same_meta f (view s) (view s')"
    unfolding same_meta_def using eq [OF meta_byte_apart [OF f]] by blast
  show "same_content f (view s) (view s')"
    unfolding same_content_def
  proof (intro allI impI)
    fix k :: nat assume k: "k < MAXFILESIZE"
    have lt: "k div 4096 < 1034" using k by (intro less_mult_imp_div_less) simp
    let ?p = "ptr (view s) f (k div 4096)"
    have d: "(4096 * x + k mod 4096) div 4096 = x" for x by (rule div4096) simp
    show "file_byte (view s') f k = file_byte (view s) f k"
    proof (cases "k div 4096 = i")
      case True
      then show ?thesis using p0 P [of i] bd(4) at d [of b] by (simp add: file_byte_def attached_def)
    next
      case False
      have "view s' (4096 * ?p + k mod 4096) = view s (4096 * ?p + k mod 4096)" if nz: "?p \<noteq> 0"
        by (intro eq data_byte_apart [OF f lt nz]) simp_all
      then show ?thesis using P [of "k div 4096"] False by (simp add: file_byte_def Let_def)
    qed
  qed
qed

section \<open>Filling a slot\<close>

lemma flush_mounted:
  assumes m: "mounted s" and b: "a div 4096 < nblocks s"
  shows "\<exists>s'. flush_block a s = Ret () s' \<and> mounted s' \<and> view s' = view s \<and> nblocks s' = nblocks s \<and>
    (\<forall>x. x div 4096 = a div 4096 \<longrightarrow> disk s' x = view s x)"
proof -
  have "a div 4096 < DISKBLOCKS" using b mountedD(7) [OF m] by simp
  from flush_block_ok [OF mountedD(1) [OF m] this mountedD(6) [OF m]] show ?thesis
    using mountedD [OF m] unfolding mounted_def nblocks_def by auto
qed

lemma diskaddr_ok:
  assumes m: "mounted s" and b: "b < nblocks s" "b \<noteq> 0"
  shows "diskaddr (of_nat b) s = Ret (4096 * b) s"
proof -
  have u: "unat (of_nat b :: u32) = b" by (rule block_number [OF m b(1)])
  then have "(of_nat b :: u32) \<noteq> 0" using b(2) by (metis unat_0)
  moreover have "\<not> of_nat (nblocks s) \<le> (of_nat b :: u32)"
    using b(1) mountedD(7) [OF m] by (simp add: word_le_nat_alt unat_of_nat32)
  ultimately show ?thesis
    using s_nblocks_ok [OF m] mountedD(2) [OF m] u by (simp add: diskaddr_def)
qed

lemma diskaddr_word: "mounted s \<Longrightarrow> unat w < nblocks s \<Longrightarrow> w \<noteq> 0 \<Longrightarrow> diskaddr w s = Ret (4096 * unat w) s"
  using diskaddr_ok [of s "unat w"] by (simp add: unat_eq_0)

text \<open>The code that both \<open>file_block_walk\<close> and \<open>file_get_block\<close> have for a missing block.\<close>

definition fill_slot :: "nat \<Rightarrow> (int \<Rightarrow> int) \<Rightarrow> (fstate, int) op" where
  "fill_slot a e = kbind alloc_block (\<lambda>ret.
     if ret < 0 then kret (e ret)
     else kthen (wr32 a (word_of_int ret))
          (kbind (diskaddr (word_of_int ret)) (\<lambda>d.
           kthen (zero_block d) (kthen (flush_block d) (kret 0)))))"

text \<open>\<open>fills f i s s'\<close>: a free block has been attached at place \<open>i\<close> of the file.\<close>

definition fills :: "nat \<Rightarrow> nat \<Rightarrow> fstate \<Rightarrow> fstate \<Rightarrow> bool" where
  "fills f i s s' \<longleftrightarrow> (\<exists>b\<in>free_blocks s. free_blocks s' = free_blocks s - {b} \<and>
       (\<forall>j. ptr (view s') f j = (if j = i then b else ptr (view s) f j))) \<and>
     keeps f s s' \<and> same_content f (view s) (view s') \<and> same_meta f (view s) (view s')"

lemma fill_steps:
  assumes m: "mounted s" and b: "b < nblocks s" "reserved s \<le> b" "in_use s b" and a: "a mod 4 = 0" "4104 \<le> a"
    "plain_block s (a div 4096)" "a div 4096 \<noteq> b"
  shows "\<exists>s'. kthen (wr32 a (of_nat b)) (kbind (diskaddr (of_nat b)) (\<lambda>d.
           kthen (zero_block d) (kthen (flush_block d) (kret 0)))) s = Ret (0 :: int) s' \<and> mounted s' \<and> nblocks s' = nblocks s \<and>
    view s' = mem_fill (store32 (view s) a (of_nat b)) (4096 * b) 4096 0 \<and> (\<forall>x. in_use s' x = in_use s x)"
proof -
  have use: "in_use s (a div 4096)" using a(3) by (simp add: plain_block_def)
  obtain s1 where s1: "wr32 a (of_nat b) s = Ret () s1" "wrote s s1" "view s1 = store32 (view s) a (of_nat b)"
    using wr32_ok [OF m use a(1)] by blast
  have in_a: "x div 4096 = a div 4096 \<and> a \<le> x" if "a \<le> x \<and> x < a + 4" for x
    using aligned_in_block [OF a(1), of "x - a"] that by auto
  have v1: "view s1 x = view s x" if "x div 4096 = 1 \<and> x < 4104 \<or> 2 \<le> x div 4096 \<and> x div 4096 < reserved s" for x
  proof -
    have "\<not> (a \<le> x \<and> x < a + 4)"
      using in_a [of x] that a(2,3) unfolding plain_block_def by linarith
    then show ?thesis unfolding s1(3) by (intro store32_outside) linarith
  qed
  note m1 = mounted_cong [OF m s1(2) v1]
  have iu1: "in_use s1 x = in_use s x" for x using m1(2,3) by (auto simp: in_use_def)
  obtain s2 where s2: "zero_block (4096 * b) s1 = Ret () s2" "wrote s1 s2"
    "view s2 = mem_fill (view s1) (4096 * b) 4096 0"
    using zero_block_ok [OF m1(1)] iu1 b(3) by blast
  have v2: "view s2 x = view s1 x" if "x div 4096 = 1 \<and> x < 4104 \<or> 2 \<le> x div 4096 \<and> x div 4096 < reserved s1" for x
  proof -
    have "x div 4096 \<noteq> b" using that b(2) m1(2) by (auto simp: reserved_def)
    then show ?thesis unfolding s2(3) mem_fill_def using block_range [of b x] by auto
  qed
  note m2 = mounted_cong [OF m1(1) s2(2) v2]
  obtain s3 where s3: "flush_block (4096 * b) s2 = Ret () s3" "mounted s3" "view s3 = view s2" "nblocks s3 = nblocks s2"
    using flush_mounted [OF m2(1), of "4096 * b"] m1(2) m2(2) b(1) by auto
  have "in_use s3 x = in_use s x" for x
    using m1(2,3) m2(2,3) s3(3,4) by (auto simp: in_use_def)
  moreover have "diskaddr (of_nat b) s1 = Ret (4096 * b) s1"
    using diskaddr_ok [OF m1(1)] m1(2) b(1,2) by (simp add: reserved_def)
  ultimately show ?thesis
    using s1 s2 s3 m1(2) m2(2) by (simp add: kthen_def)
qed

lemma fill_slot_ok:
  assumes m: "mounted s" and f: "file_ok s f" and i: "has_slot (view s) f i" and p0: "ptr (view s) f i = 0"
  shows "(\<exists>s'. fill_slot (slot_at (view s) f i) e s = Ret (e (- E_NO_DISK)) s' \<and> loads s s' \<and> free_blocks s = {}) \<or>
    (\<exists>s'. fill_slot (slot_at (view s) f i) e s = Ret 0 s' \<and> fills f i s s')"
proof (rule alloc_block_cases [OF m])
  fix s' assume "alloc_block s = Ret (- E_NO_DISK) s'" "loads s s'" "free_blocks s = {}"
  then show ?thesis by (simp add: fill_slot_def)
next
  let ?a = "slot_at (view s) f i"
  fix b s1 assume al: "alloc_block s = Ret (int b) s1" and bf: "b \<in> free_blocks s" and c: "claims b s s1"
    and fr: "free_blocks s1 = free_blocks s - {b}"
  note bd = free_blocksD [OF m bf]
  have c': "mounted s1" "nblocks s1 = nblocks s" "\<And>x. free_bit (view s1) x \<longleftrightarrow> free_bit (view s) x \<and> x \<noteq> b"
    "\<And>x. x div 4096 \<noteq> 2 + b div 32768 \<Longrightarrow> view s1 x = view s x"
    using c by (simp_all add: claims_def)
  have iu1: "in_use s1 x \<longleftrightarrow> in_use s x \<or> x = b" for x using c'(2,3) bd(1) by (auto simp: in_use_def)
  have bm: "2 + b div 32768 < reserved s"
  proof -
    have "(b + 32768) div 32768 \<le> (nblocks s + 32767) div 32768" using bd(1) by (intro div_le_mono) simp
    then show ?thesis by (simp add: reserved_def)
  qed
  have res: "reserved s1 = reserved s" by (simp add: reserved_def c'(2))
  note a = slot_props [OF f i]
  have a4104: "4104 \<le> ?a" by (rule slot_4104 [OF f i])
  have ab: "?a div 4096 \<noteq> b" using a(3) bd(3) by (auto simp: plain_block_def)
  have pl: "plain_block s1 (?a div 4096)" using a(3) iu1 res by (simp add: plain_block_def)
  obtain s' where s': "kthen (wr32 ?a (of_nat b)) (kbind (diskaddr (of_nat b)) (\<lambda>d.
           kthen (zero_block d) (kthen (flush_block d) (kret 0)))) s1 = Ret (0 :: int) s'" "mounted s'" "nblocks s' = nblocks s1"
    "view s' = mem_fill (store32 (view s1) ?a (of_nat b)) (4096 * b) 4096 0" "\<And>x. in_use s' x = in_use s1 x"
    using fill_steps [OF c'(1) _ _ _ a(1) a4104 pl ab] bd(1,2) c'(2) res iu1 by auto
  have e: "fill_slot ?a e s = Ret 0 s'" using al s'(1) by (simp add: fill_slot_def)
  have out: "?a + 4 \<le> 4096 * b \<or> 4096 * b + 4096 \<le> ?a"
    using ab block_range [of b ?a] block_range [of b "?a + 3"] aligned_in_block [OF a(1), of 3] by auto
  have at: "attached s f i b (view s')"
    unfolding attached_def agrees_def s'(4)
  proof (intro conjI allI impI)
    show "load32 (mem_fill (store32 (view s1) ?a (of_nat b)) (4096 * b) 4096 0) ?a = of_nat b"
      using out by (simp add: load32_mem_fill_other)
  next
    fix x assume "x div 4096 = b"
    then show "mem_fill (store32 (view s1) ?a (of_nat b)) (4096 * b) 4096 0 x = 0"
      using block_range [of b x] by (simp add: mem_fill_def)
  next
    fix x assume x: "(x div 4096 = 1 \<or> reserved s \<le> x div 4096) \<and> x div 4096 \<noteq> b \<and> \<not> (?a \<le> x \<and> x < ?a + 4)"
    then have "view s1 x = view s x" using c'(4) bm by fastforce
    then show "mem_fill (store32 (view s1) ?a (of_nat b)) (4096 * b) 4096 0 x = view s x"
      using x block_range [of b x] by (auto simp: mem_fill_def store32_outside)
  qed
  have n': "nblocks s' = nblocks s" using s'(3) c'(2) by simp
  have iu': "in_use s' x \<longleftrightarrow> in_use s x \<or> x = b" for x using s'(5) iu1 by simp
  have "free_blocks s' = free_blocks s1"
    unfolding free_blocks_def n' c'(2) using s'(5) unfolding in_use_def n' c'(2) by blast
  then have "fills f i s s'"
    unfolding fills_def using attached_keeps [OF m f i bf p0 at s'(2) n' iu'] attached_ptr [OF f i bd(3,4,5) p0 at] bf fr
    by auto
  with e show ?thesis by blast
qed

section \<open>Finding the blocks of a file\<close>

text \<open>\<open>grows f s s'\<close>: at most, holes of the file have been filled.\<close>

definition grows :: "nat \<Rightarrow> fstate \<Rightarrow> fstate \<Rightarrow> bool" where
  "grows f s s' \<longleftrightarrow> keeps f s s' \<and> same_content f (view s) (view s') \<and> same_meta f (view s) (view s') \<and>
     free_blocks s' \<subseteq> free_blocks s \<and> (\<forall>i. ptr (view s) f i \<noteq> 0 \<longrightarrow> ptr (view s') f i = ptr (view s) f i)"

text \<open>Only pointers of the first \<open>n\<close> blocks have changed, and the indirect block only if they need it.\<close>

definition within :: "nat \<Rightarrow> nat \<Rightarrow> bytes \<Rightarrow> bytes \<Rightarrow> bool" where
  "within n f v v' \<longleftrightarrow> (\<forall>i. ptr v' f i \<noteq> ptr v f i \<longrightarrow> i < n \<or> i = 1034 \<and> 10 < n)"

lemma within_refl [simp]: "within n f v v"
  by (simp add: within_def)

lemma within_trans: "within n f v v1 \<Longrightarrow> within n f v1 v2 \<Longrightarrow> within n f v v2"
  unfolding within_def by metis

lemma within_mono: "within n f v v' \<Longrightarrow> n \<le> n' \<Longrightarrow> within n' f v v'"
  unfolding within_def by (meson le_trans less_le_trans)

lemma fills_within: "fills f i s s' \<Longrightarrow> i < n \<or> i = 1034 \<and> 10 < n \<Longrightarrow> within n f (view s) (view s')"
  unfolding fills_def within_def by (auto split: if_splits)

lemma keeps_trans: "keeps f s t \<Longrightarrow> keeps f t u \<Longrightarrow> keeps f s u"
  by (simp add: keeps_def)

lemma growsD:
  assumes "grows f s s'"
  shows "keeps f s s'" and "mounted s'" and "file_ok s' f" and "nblocks s' = nblocks s"
    and "same_content f (view s) (view s')" and "same_meta f (view s) (view s')"
  using assms by (simp_all add: grows_def keeps_def)

lemma growsD2:
  assumes "grows f s s'"
  shows "free_blocks s' \<subseteq> free_blocks s" and "ptr (view s) f i \<noteq> 0 \<Longrightarrow> ptr (view s') f i = ptr (view s) f i"
  using assms by (simp_all add: grows_def)

lemma grows_trans:
  assumes "grows f s t" and "grows f t u"
  shows "grows f s u"
  unfolding grows_def
proof (intro conjI allI impI)
  show "keeps f s u" by (rule keeps_trans [OF growsD(1) [OF assms(1)] growsD(1) [OF assms(2)]])
  show "same_content f (view s) (view u)" "same_meta f (view s) (view u)"
    using growsD(5,6) [OF assms(1)] growsD(5,6) [OF assms(2)] by (simp_all add: same_content_def same_meta_def)
  show "free_blocks u \<subseteq> free_blocks s" using growsD2(1) [OF assms(1)] growsD2(1) [OF assms(2)] by (rule order_trans [rotated])
  show "ptr (view u) f i = ptr (view s) f i" if "ptr (view s) f i \<noteq> 0" for i
    using growsD2(2) [OF assms(1) that] growsD2(2) [OF assms(2)] that by simp
qed

lemma grows_full: "grows f s t \<Longrightarrow> free_blocks s = {} \<Longrightarrow> free_blocks t = {}"
  using growsD2(1) by blast

lemma loads_grows:
  assumes "mounted s" and "file_ok s f" and "loads s s'"
  shows "grows f s s'"
proof -
  have v: "view s' = view s" "nblocks s' = nblocks s" using loads_view [OF assms(3)] by auto
  have "mounted s'" by (rule loads_mounted [OF assms(1,3)])
  moreover have "file_ok s' f" "outside f s' x = outside f s x" "free_blocks s' = free_blocks s" for x
    using assms(2) unfolding file_ok_def struct_ok_def outside_def in_use_def data_block_def reserved_def free_blocks_def v
    by auto
  ultimately show ?thesis by (simp add: grows_def keeps_def same_content_def same_meta_def v)
qed

lemma fills_grows: "fills f i s s' \<Longrightarrow> ptr (view s) f i = 0 \<Longrightarrow> grows f s s'"
  unfolding fills_def grows_def by auto

lemma rd_slot:
  assumes "mounted s" and "file_ok s f" and "has_slot (view s) f i"
  shows "\<exists>s'. rd32 (slot_at (view s) f i) s = Ret (of_nat (ptr (view s) f i)) s' \<and> loads s s'"
  using rd32_ok [OF assms(1) _ slot_props(1) [OF assms(2,3)]] slot_props(3) [OF assms(2,3)] assms(3)
  by (auto simp: plain_block_def ptr_def)

lemma rd_meta:
  assumes "mounted s" and "file_ok s f" and "k < 136" and "k mod 4 = 0"
  shows "\<exists>s'. rd32 (f + k) s = Ret (load32 (view s) (f + k)) s' \<and> loads s s'"
proof -
  have "(f + k) mod 4 = 0" using file_okD(1) [OF assms(2)] assms(4) mod_add_eq [of f 4 k] by simp
  moreover have "(f + k) div 4096 = f div 4096"
    using struct_block [OF file_okD(2) [OF assms(2)]] assms(3) by simp
  ultimately show ?thesis
    using rd32_ok [OF assms(1), of "f + k"] file_okD(4) [OF assms(2)] by (simp add: plain_block_def)
qed

lemma grows_mounted: "grows f s s' \<Longrightarrow> mounted s' \<and> file_ok s' f"
  using growsD(2,3) by blast

lemma loads_has_slot: "loads s s' \<Longrightarrow> has_slot (view s') f i = has_slot (view s) f i \<and> slot_at (view s') f i = slot_at (view s) f i"
  by (simp add: loads_view)

lemma unat_of_nat_1034: "n < 1034 \<Longrightarrow> unat (of_nat n :: u32) = n \<and> unat (of_nat n - 10 :: u32) = (if 10 \<le> n then n - 10 else unat (of_nat n - 10 :: u32))"
proof -
  assume n: "n < 1034"
  have u: "unat (of_nat n :: u32) = n" using n by (simp add: unat_of_nat32)
  moreover have "unat (of_nat n - 10 :: u32) = n - 10" if "10 \<le> n"
    using that u unat_sub [of "10 :: u32" "of_nat n"] by (simp add: word_le_nat_alt)
  ultimately show ?thesis by simp
qed

lemma file_block_walk_ok:
  assumes m: "mounted s" and f: "file_ok s f" and n: "n < 1034"
  shows "\<exists>r slot s'. file_block_walk f (of_nat n) True s = Ret (r, slot) s' \<and> grows f s s' \<and>
    within (Suc n) f (view s) (view s') \<and> (r = 0 \<and> has_slot (view s') f n \<and> slot = slot_at (view s') f n \<or>
     r = - E_NO_DISK \<and> free_blocks s' = {} \<and> \<not> has_slot (view s) f n)"
proof (cases "n < 10")
  case True
  then have "file_block_walk f (of_nat n) True s = Ret (0, slot_at (view s) f n) s"
    using unat_of_nat_1034 [OF n] by (simp add: file_block_walk_def word_le_nat_alt word_less_nat_alt slot_at_def)
  moreover have "has_slot (view s) f n" using True by (simp add: has_slot_def)
  ultimately show ?thesis using loads_grows [OF m f loads_refl [OF mountedD(1) [OF m]]] within_refl by blast
next
  case False
  note u = unat_of_nat_1034 [OF n]
  have h: "has_slot v f 1034" "slot_at v f 1034 = f_indirect_at f" for v
    by (simp_all add: has_slot_def slot_at_def)
  obtain s1 where s1: "rd32 (f_indirect_at f) s = Ret (of_nat (ind_of (view s) f)) s1" "loads s s1"
    using rd_slot [OF m f h(1)] by (auto simp: h(2))
  note g1 = loads_grows [OF m f s1(2)]
  define step :: "(fstate, int) op" where
    "step = (if (of_nat (ind_of (view s) f) :: u32) = 0 then fill_slot (f_indirect_at f) (\<lambda>_. - E_NO_DISK) else kret 0)"
  have walk: "file_block_walk f (of_nat n) True s = kbind step (\<lambda>r.
           if r < 0 then kret (r, 0)
           else kbind (rd32 (f_indirect_at f)) (\<lambda>ind.
                kbind (diskaddr ind) (\<lambda>a. kret (0, a + 4 * unat (of_nat n - NDIRECT :: u32))))) s1"
    using u False n s1(1) unfolding file_block_walk_def step_def fill_slot_def
    by (simp add: word_le_nat_alt word_less_nat_alt cong: if_cong)
  have z: "(of_nat (ind_of (view s) f) :: u32) = 0 \<longleftrightarrow> ind_of (view s) f = 0" by (simp add: ind_of_def unat_eq_0)
  have "(\<exists>s2. step s1 = Ret (- E_NO_DISK) s2 \<and> grows f s s2 \<and> view s2 = view s \<and> free_blocks s2 = {} \<and> \<not> has_slot (view s) f n) \<or>
    (\<exists>s2. step s1 = Ret 0 s2 \<and> grows f s s2 \<and> within (Suc n) f (view s) (view s2) \<and> ind_of (view s2) f \<noteq> 0)"
  proof (cases "ind_of (view s) f = 0")
    case True
    have nh: "\<not> has_slot (view s) f n" using True False n by (simp add: has_slot_def)
    have p1: "ptr (view s1) f 1034 = 0" using True loads_view(1) [OF s1(2)] by simp
    note m1 = growsD(2,3) [OF g1]
    have st: "step = fill_slot (slot_at (view s1) f 1034) (\<lambda>_. - E_NO_DISK)" using True z h by (simp add: step_def)
    consider s2 where "step s1 = Ret (- E_NO_DISK) s2" "loads s1 s2" "free_blocks s1 = {}"
      | s2 where "step s1 = Ret 0 s2" "fills f 1034 s1 s2"
      unfolding st using fill_slot_ok [OF m1 h(1) p1] by blast
    then show ?thesis
    proof cases
      case 1
      have g: "grows f s1 s2" by (rule loads_grows [OF m1 1(2)])
      show ?thesis
        using 1(1) grows_trans [OF g1 g] grows_full [OF g 1(3)] loads_view(1) [OF loads_trans [OF s1(2) 1(2)]] nh by blast
    next
      case 2
      then have "grows f s s2" using fills_grows [OF _ p1] grows_trans [OF g1] by blast
      moreover have "ind_of (view s2) f \<noteq> 0"
        using 2(2) free_blocksD(4) [OF m1(1)] unfolding fills_def by (metis ptr_1034)
      moreover have "within (Suc n) f (view s) (view s2)"
        using fills_within [OF 2(2), of "Suc n"] loads_view(1) [OF s1(2)] False by simp
      ultimately show ?thesis using 2(1) by blast
    qed
  next
    case nz: False
    then show ?thesis using g1 z loads_view(1) [OF s1(2)] by (auto simp: step_def)
  qed
  then show ?thesis
  proof (elim disjE exE conjE)
    fix s2 assume "step s1 = Ret (- E_NO_DISK) s2" "grows f s s2" "view s2 = view s" "free_blocks s2 = {}" "\<not> has_slot (view s) f n"
    then show ?thesis unfolding walk by auto
  next
    fix s2 assume s2: "step s1 = Ret 0 s2" "grows f s s2" and w2: "within (Suc n) f (view s) (view s2)"
      and i2: "ind_of (view s2) f \<noteq> 0"
    note m2 = growsD(2,3) [OF s2(2)]
    obtain s3 where s3: "rd32 (f_indirect_at f) s2 = Ret (of_nat (ind_of (view s2) f)) s3" "loads s2 s3"
      using rd_slot [OF m2 h(1)] by (auto simp: h(2))
    have v3: "view s3 = view s2" "nblocks s3 = nblocks s2" using loads_view [OF s3(2)] by auto
    have "ind_of (view s2) f < nblocks s2"
      using file_okD(5) [OF m2(2), of 1034] i2 by (simp add: data_block_def)
    then have "diskaddr (of_nat (ind_of (view s2) f)) s3 = Ret (4096 * ind_of (view s2) f) s3"
      using diskaddr_ok [OF loads_mounted [OF m2(1) s3(2)]] v3(2) i2 by simp
    then have "file_block_walk f (of_nat n) True s = Ret (0, slot_at (view s3) f n) s3"
      unfolding walk using s2(1) s3(1) u False n by (simp add: slot_at_def v3)
    moreover have "has_slot (view s3) f n" using n i2 by (simp add: has_slot_def v3)
    ultimately show ?thesis using grows_trans [OF s2(2) loads_grows [OF m2 s3(2)]] w2 v3(1) by auto
  qed
qed

lemma file_get_block_ok:
  assumes m: "mounted s" and f: "file_ok s f" and n: "n < 1034"
  shows "\<exists>r blk s'. file_get_block f (of_nat n) s = Ret (r, blk) s' \<and> grows f s s' \<and>
    within (Suc n) f (view s) (view s') \<and> (r = 0 \<and> ptr (view s') f n \<noteq> 0 \<and> blk = 4096 * ptr (view s') f n \<or>
     r = - E_NO_DISK \<and> free_blocks s' = {} \<and> ptr (view s) f n = 0)"
proof -
  obtain r slot s1 where s1: "file_block_walk f (of_nat n) True s = Ret (r, slot) s1" "grows f s s1"
    "r = 0 \<and> has_slot (view s1) f n \<and> slot = slot_at (view s1) f n \<or>
     r = - E_NO_DISK \<and> free_blocks s1 = {} \<and> \<not> has_slot (view s) f n"
    and w1: "within (Suc n) f (view s) (view s1)"
    using file_block_walk_ok [OF assms] by blast
  show ?thesis
  proof (cases "r = 0")
    case False
    then show ?thesis using s1 w1 by (auto simp: file_get_block_def ptr_def)
  next
    case True
    note m1 = growsD(2,3) [OF s1(2)]
    have sl: "has_slot (view s1) f n" "slot = slot_at (view s1) f n" using s1(3) True by auto
    obtain s2 where s2: "rd32 slot s1 = Ret (of_nat (ptr (view s1) f n)) s2" "loads s1 s2"
      using rd_slot [OF m1 sl(1)] by (auto simp: sl(2))
    note g2 = loads_grows [OF m1 s2(2)]
    note m2 = growsD(2,3) [OF g2]
    have v2: "view s2 = view s1" using loads_view [OF s2(2)] by auto
    define step :: "(fstate, int) op" where
      "step = (if (of_nat (ptr (view s1) f n) :: u32) = 0 then fill_slot slot (\<lambda>r. r) else kret 0)"
    have get: "file_get_block f (of_nat n) s = kbind step (\<lambda>r.
          if r < 0 then kret (r, 0)
          else kbind (rd32 slot) (\<lambda>bno. kbind (diskaddr bno) (\<lambda>a. kret (0, a)))) s2"
      using s1(1) s2(1) True unfolding file_get_block_def step_def fill_slot_def by (simp cong: if_cong)
    have z: "(of_nat (ptr (view s1) f n) :: u32) = 0 \<longleftrightarrow> ptr (view s1) f n = 0"
      using sl(1) by (simp add: ptr_def unat_eq_0)
    have sl2: "has_slot (view s2) f n" "slot = slot_at (view s2) f n" using sl v2 by simp_all
    have "(\<exists>s3. step s2 = Ret (- E_NO_DISK) s3 \<and> grows f s s3 \<and> within (Suc n) f (view s) (view s3) \<and>
        free_blocks s3 = {} \<and> ptr (view s) f n = 0) \<or>
      (\<exists>s3. step s2 = Ret 0 s3 \<and> grows f s s3 \<and> within (Suc n) f (view s) (view s3) \<and> ptr (view s3) f n \<noteq> 0 \<and> has_slot (view s3) f n \<and> slot = slot_at (view s3) f n)"
    proof (cases "ptr (view s1) f n = 0")
      case p0: True
      have q0: "ptr (view s) f n = 0" using p0 growsD2(2) [OF s1(2), of n] by (metis)
      have p2: "ptr (view s2) f n = 0" using p0 v2 by simp
      have st: "step = fill_slot (slot_at (view s2) f n) (\<lambda>r. r)" using p0 z sl2 by (simp add: step_def)
      consider s3 where "step s2 = Ret (- E_NO_DISK) s3" "loads s2 s3" "free_blocks s2 = {}"
        | s3 where "step s2 = Ret 0 s3" "fills f n s2 s3"
        unfolding st using fill_slot_ok [OF m2 sl2(1) p2] by blast
      then show ?thesis
      proof cases
        case 1
        have g: "grows f s2 s3" by (rule loads_grows [OF m2 1(2)])
        have "view s3 = view s1" using v2 loads_view(1) [OF 1(2)] by simp
        then show ?thesis using 1(1) grows_trans [OF grows_trans [OF s1(2) g2] g] grows_full [OF g 1(3)] w1 q0 by auto
      next
        case 2
        then have g3: "grows f s s3" using fills_grows [OF _ p2] grows_trans [OF grows_trans [OF s1(2) g2]] by blast
        obtain b where b: "b \<noteq> 0" "\<And>j. ptr (view s3) f j = (if j = n then b else ptr (view s2) f j)"
          using 2(2) free_blocksD(4) [OF m2(1)] unfolding fills_def by blast
        have "ind_of (view s3) f = ind_of (view s2) f" using b(2) [of 1034] n by simp
        then have "has_slot (view s3) f n" "slot = slot_at (view s3) f n" using sl2 by (simp_all add: has_slot_def slot_at_def)
        moreover have "within (Suc n) f (view s) (view s3)"
          using within_trans [OF w1] fills_within [OF 2(2), of "Suc n"] v2 by simp
        ultimately show ?thesis using g3 b 2(1) by auto
      qed
    next
      case False
      then show ?thesis using z sl2 v2 w1 grows_trans [OF s1(2) g2] by (auto simp: step_def)
    qed
    then show ?thesis
    proof (elim disjE exE conjE)
      fix s3 assume "step s2 = Ret (- E_NO_DISK) s3" "grows f s s3" "within (Suc n) f (view s) (view s3)" "free_blocks s3 = {}"
        "ptr (view s) f n = 0"
      then show ?thesis unfolding get by auto
    next
      fix s3 assume s3: "step s2 = Ret 0 s3" "grows f s s3" "ptr (view s3) f n \<noteq> 0" "has_slot (view s3) f n"
        "slot = slot_at (view s3) f n" "within (Suc n) f (view s) (view s3)"
      note m3 = growsD(2,3) [OF s3(2)]
      obtain s4 where s4: "rd32 slot s3 = Ret (of_nat (ptr (view s3) f n)) s4" "loads s3 s4"
        using rd_slot [OF m3 s3(4)] by (auto simp: s3(5))
      have v4: "view s4 = view s3" "nblocks s4 = nblocks s3" using loads_view [OF s4(2)] by auto
      have "ptr (view s3) f n < nblocks s3" using file_okD(5) [OF m3(2) s3(3)] by (simp add: data_block_def)
      then have "diskaddr (of_nat (ptr (view s3) f n)) s4 = Ret (4096 * ptr (view s3) f n) s4"
        using diskaddr_ok [OF loads_mounted [OF m3(1) s4(2)]] v4(2) s3(3) by simp
      then have "file_get_block f (of_nat n) s = Ret (0, 4096 * ptr (view s4) f n) s4"
        unfolding get using s3(1) s4(1) by (simp add: v4)
      with grows_trans [OF s3(2) loads_grows [OF m3 s4(2)]] s3(3,6) show ?thesis by (auto simp: v4)
    qed
  qed
qed

section \<open>Runs of bytes\<close>

lemma rd_bytes_ok:
  assumes "mounted s" and "in_use s b" and "off + n \<le> 4096"
  shows "\<exists>s'. rd_bytes (4096 * b + off) n s = Ret (map (view s) [4096 * b + off..<4096 * b + off + n]) s' \<and> loads s s'"
  using assms
proof (induction n arbitrary: off s)
  case 0
  then show ?case using loads_refl [OF mountedD(1)] by auto
next
  case (Suc n)
  have d: "(4096 * b + off) div 4096 = b" using Suc.prems(3) by (intro div4096) simp
  obtain s1 where s1: "rd8 (4096 * b + off) s = Ret (view s (4096 * b + off)) s1" "loads s s1"
    using rd8_ok [OF Suc.prems(1), of "4096 * b + off"] Suc.prems(2) unfolding d by blast
  note v1 = loads_view [OF s1(2)]
  have "in_use s1 b" using Suc.prems(2) v1 by (simp add: in_use_def)
  from Suc.IH [OF loads_mounted [OF Suc.prems(1) s1(2)] this, of "Suc off"] Suc.prems(3) obtain s2 where
    s2: "rd_bytes (4096 * b + Suc off) n s1 = Ret (map (view s1) [4096 * b + Suc off..<4096 * b + Suc off + n]) s2"
      "loads s1 s2" by auto
  have "[4096 * b + off..<4096 * b + off + Suc n] = (4096 * b + off) # [4096 * b + Suc off..<4096 * b + Suc off + n]"
    by (subst upt_conv_Cons) simp_all
  then show ?case using s1(1) s2(1) loads_trans [OF s1(2) s2(2)] v1(1) by simp
qed

definition splice :: "bytes \<Rightarrow> nat \<Rightarrow> u8 list \<Rightarrow> bytes" where
  "splice v a bs = (\<lambda>x. if a \<le> x \<and> x < a + length bs then bs ! (x - a) else v x)"

lemma splice_Cons: "splice v a (c # cs) = splice (v(a := c)) (Suc a) cs"
  by (auto simp: splice_def fun_eq_iff nth_Cons' not_less_eq_eq le_Suc_eq Suc_diff_le)

text \<open>Two states with the same reserved blocks and the same blocks in use.\<close>

definition same_use :: "fstate \<Rightarrow> fstate \<Rightarrow> bool" where
  "same_use s s' \<longleftrightarrow> mounted s' \<and> nblocks s' = nblocks s \<and> (\<forall>x. in_use s' x = in_use s x)"

lemma same_use_facts:
  assumes "same_use s s'"
  shows "reserved s' = reserved s" and "data_block b s' = data_block b s" and "plain_block s' b = plain_block s b"
    and "free_blocks s' = free_blocks s"
proof -
  have n: "nblocks s' = nblocks s" using assms by (simp add: same_use_def)
  have f: "free_bit (view s') x = free_bit (view s) x" if "x < nblocks s" for x
  proof -
    have "in_use s' x = in_use s x" using assms by (simp add: same_use_def)
    then show ?thesis using that n by (simp add: in_use_def)
  qed
  show "reserved s' = reserved s" by (simp add: reserved_def n)
  then show "plain_block s' b = plain_block s b" using assms by (simp add: plain_block_def same_use_def)
  show "data_block b s' = data_block b s" "free_blocks s' = free_blocks s"
    unfolding data_block_def free_blocks_def n using f by auto
qed

lemma same_use_cong:
  assumes "mounted s" and "wrote s t"
    and "\<And>x. x div 4096 = 1 \<and> x < 4104 \<or> 2 \<le> x div 4096 \<and> x div 4096 < reserved s \<Longrightarrow> view t x = view s x"
  shows "same_use s t"
  using mounted_cong [OF assms] by (auto simp: same_use_def in_use_def)

lemma same_use_trans: "same_use s t \<Longrightarrow> same_use t u \<Longrightarrow> same_use s u"
  by (simp add: same_use_def)

lemma wr_bytes_gen:
  assumes "mounted s" and "in_use s b" and "b = 0 \<or> reserved s \<le> b" and "off + length bs \<le> 4096"
  shows "\<exists>s'. wr_bytes (4096 * b + off) bs s = Ret () s' \<and> same_use s s' \<and> view s' = splice (view s) (4096 * b + off) bs"
  using assms
proof (induction bs arbitrary: off s)
  case Nil
  then show ?case by (auto simp: same_use_def splice_def fun_eq_iff)
next
  case (Cons c cs)
  have d: "(4096 * b + off) div 4096 = b" using Cons.prems(4) by (intro div4096) simp
  obtain s1 where s1: "wr8 (4096 * b + off) c s = Ret () s1" "wrote s s1" "view s1 = (view s)(4096 * b + off := c)"
    using wr8_ok [OF Cons.prems(1), of "4096 * b + off"] Cons.prems(2) unfolding d by blast
  have u1: "same_use s s1"
  proof (rule same_use_cong [OF Cons.prems(1) s1(2)])
    fix x assume "x div 4096 = 1 \<and> x < 4104 \<or> 2 \<le> x div 4096 \<and> x div 4096 < reserved s"
    then have "x \<noteq> 4096 * b + off" using d Cons.prems(3) by (auto simp: reserved_def)
    then show "view s1 x = view s x" using s1(3) by simp
  qed
  have "mounted s1" "in_use s1 b" "b = 0 \<or> reserved s1 \<le> b" "Suc off + length cs \<le> 4096"
    using u1 same_use_facts(1) [OF u1] Cons.prems by (simp_all add: same_use_def)
  from Cons.IH [OF this] obtain s2 where s2: "wr_bytes (4096 * b + Suc off) cs s1 = Ret () s2" "same_use s1 s2"
    "view s2 = splice (view s1) (4096 * b + Suc off) cs" by blast
  then show ?case using s1(1,3) same_use_trans [OF u1 s2(2)] by (simp add: splice_Cons kthen_def)
qed

lemmas wr_bytes_ok = wr_bytes_gen [OF _ _ disjI2]

text \<open>A change that is confined to data block \<open>n\<close> of a file.\<close>

lemma data_change:
  assumes f: "file_ok s f" and u: "same_use s s'" and n: "n < 1034" "ptr (view s) f n \<noteq> 0"
    and v: "\<And>x. x div 4096 \<noteq> ptr (view s) f n \<Longrightarrow> view s' x = view s x"
  shows "keeps f s s'" and "ptr (view s') f j = ptr (view s) f j" and "same_meta f (view s) (view s')"
    and "k < MAXFILESIZE \<Longrightarrow> file_byte (view s') f k =
      (if k div 4096 = n then view s' (4096 * ptr (view s) f n + k mod 4096) else file_byte (view s) f k)"
proof -
  note uf = same_use_facts [OF u]
  have slot: "load32 (view s') (slot_at (view s) f j) = load32 (view s) (slot_at (view s) f j)" if h: "has_slot (view s) f j" for j
  proof (rule load32_cong, rule v)
    fix k :: nat assume "k < 4"
    then have "(slot_at (view s) f j + k) div 4096 = slot_at (view s) f j div 4096"
      by (rule aligned_in_block [OF slot_props(1) [OF f h]])
    then show "(slot_at (view s) f j + k) div 4096 \<noteq> ptr (view s) f n"
      using slot_props(2) [OF f h] file_okD(6) [OF f n(2)] file_okD(7) [OF f n(2), of 1034] n(1) by auto
  qed
  have ind: "ind_of (view s') f = ind_of (view s) f"
    using slot [of 1034] by (simp add: has_slot_def slot_at_def ind_of_def)
  show P: "ptr (view s') f j = ptr (view s) f j" for j
    using slot [of j] ind by (auto simp: ptr_def has_slot_def slot_at_def)
  have st: "struct_ok s' f = struct_ok s f"
    using u uf(1) by (simp add: struct_ok_def same_use_def)
  have ok: "file_ok s' f" using f unfolding file_ok_def P uf(2) st .
  show "keeps f s s'"
    unfolding keeps_def
  proof (intro conjI allI impI ok)
    show "mounted s'" "nblocks s' = nblocks s" using u by (simp_all add: same_use_def)
    fix x assume x: "outside f s x"
    then show "outside f s' x" using u uf(1) unfolding outside_def P by (simp add: same_use_def)
    have "x div 4096 \<noteq> ptr (view s) f n" using x n(2) unfolding outside_def by blast
    then show "view s' x = view s x" by (rule v)
  qed
  show "same_meta f (view s) (view s')"
    unfolding same_meta_def
    using v struct_block [OF file_okD(2) [OF f]] file_okD(6) [OF f n(2)] by auto
  have d: "(4096 * x + k mod 4096) div 4096 = x" for x by (rule div4096) simp
  show "file_byte (view s') f k =
      (if k div 4096 = n then view s' (4096 * ptr (view s) f n + k mod 4096) else file_byte (view s) f k)"
    if "k < MAXFILESIZE"
  proof (cases "k div 4096 = n")
    case True
    then show ?thesis using n(2) by (simp add: file_byte_def Let_def P)
  next
    case False
    then have "ptr (view s) f (k div 4096) \<noteq> ptr (view s) f n" using file_okD(7) [OF f n(2), of "k div 4096"] by auto
    then show ?thesis
      using v [of "4096 * ptr (view s) f (k div 4096) + k mod 4096"] d False by (simp add: file_byte_def Let_def P)
  qed
qed

end
