(* ===== verification/Fs_Read_Write.thy ===== *)
theory Fs_Read_Write
  imports Fs_File
begin

text \<open>
  Reading and writing files: \<open>file_read\<close> returns the abstract content, \<open>file_write\<close> changes it exactly
  in the range that is written and extends the file when the range ends behind it. Both keep the file
  well-formed and leave everything outside it alone, also when the disk fills up half-way.
\<close>

section \<open>Positions\<close>

lemma sint_of_nat: "p \<le> MAXFILESIZE \<Longrightarrow> sint (of_nat p :: u32) = int p"
  by (simp add: signed_of_nat signed_take_bit_int_eq_self)

lemma unat_pos: "p \<le> MAXFILESIZE \<Longrightarrow> unat (of_nat p :: u32) = p"
  by (simp add: unat_of_nat32)

lemma block_of_pos: "p \<le> MAXFILESIZE \<Longrightarrow> (word_of_int (c_div_blk (sint (of_nat p :: u32))) :: u32) = of_nat (p div 4096)"
proof -
  assume "p \<le> MAXFILESIZE"
  then have "c_div_blk (sint (of_nat p :: u32)) = int (p div 4096)"
    by (simp add: sint_of_nat c_div_blk_def zdiv_int)
  then show ?thesis by simp
qed

lemma offset_of_pos: "p \<le> MAXFILESIZE \<Longrightarrow> unat (of_nat p mod 4096 :: u32) = p mod 4096"
  by (simp add: unat_mod unat_pos)

lemma less_pos: "p \<le> MAXFILESIZE \<Longrightarrow> q \<le> MAXFILESIZE \<Longrightarrow> (of_nat p :: u32) < of_nat q \<longleftrightarrow> p < q"
  by (simp add: word_less_nat_alt unat_pos)

lemma chunk_of_pos:
  assumes "p \<le> q" and "q \<le> MAXFILESIZE"
  shows "chunk (of_nat p) (of_nat q) = min (4096 - p mod 4096) (q - p)"
proof -
  have p: "p \<le> MAXFILESIZE" using assms by simp
  have a: "unat (4096 - of_nat p mod 4096 :: u32) = 4096 - p mod 4096"
    using unat_sub [of "of_nat p mod 4096 :: u32" 4096] offset_of_pos [OF p]
    by (simp add: word_le_nat_alt)
  have b: "unat (of_nat q - of_nat p :: u32) = q - p"
    using unat_sub [of "of_nat p :: u32" "of_nat q"] unat_pos [OF p] unat_pos [OF assms(2)] assms(1)
    by (simp add: word_le_nat_alt)
  show ?thesis
    unfolding chunk_def using a b by (simp add: min_def word_le_nat_alt)
qed

definition nblk :: "nat \<Rightarrow> nat" where
  "nblk n = (n + 4095) div 4096"

lemma nblk_le: "n \<le> MAXFILESIZE \<Longrightarrow> nblk n \<le> 1034"
proof -
  assume "n \<le> MAXFILESIZE"
  then have "(n + 4095) div 4096 \<le> (MAXFILESIZE + 4095) div 4096" by (intro div_le_mono) simp
  then show ?thesis by (simp add: nblk_def)
qed

lemma nblk_pos: "p < q \<Longrightarrow> Suc (p div 4096) \<le> nblk q"
proof -
  assume "p < q"
  then have "(p + 4096) div 4096 \<le> (q + 4095) div 4096" by (intro div_le_mono) simp
  then show ?thesis by (simp add: nblk_def)
qed

text \<open>One round: the chunk lies in one block.\<close>

lemma chunk_facts:
  assumes "p < q" and "q \<le> MAXFILESIZE" and "c = min (4096 - p mod 4096) (q - p)"
  shows "0 < c" and "p + c \<le> q" and "p mod 4096 + c \<le> 4096" and "p div 4096 < 1034"
    and "j < c \<Longrightarrow> (p + j) div 4096 = p div 4096 \<and> (p + j) mod 4096 = p mod 4096 + j"
proof -
  show "0 < c" "p + c \<le> q" "p mod 4096 + c \<le> 4096" using assms by auto
  then have c: "p mod 4096 + j < 4096" if "j < c" for j using that by linarith
  show "p div 4096 < 1034" using assms(1,2) by (intro less_mult_imp_div_less) simp
  show "(p + j) div 4096 = p div 4096 \<and> (p + j) mod 4096 = p mod 4096 + j" if "j < c"
  proof -
    have e: "p + j = 4096 * (p div 4096) + (p mod 4096 + j)" by simp
    have "(p + j) div 4096 = p div 4096" by (subst e) (rule div4096 [OF c [OF that]])
    moreover from this have "(p + j) mod 4096 = p + j - 4096 * (p div 4096)" by (simp add: modulo_nat_def)
    ultimately show ?thesis using e by linarith
  qed
qed

lemma chunk_bytes:
  assumes "p < q" and "q \<le> MAXFILESIZE" and "c = min (4096 - p mod 4096) (q - p)" and "ptr v f (p div 4096) \<noteq> 0"
  shows "map v [4096 * ptr v f (p div 4096) + p mod 4096..<4096 * ptr v f (p div 4096) + p mod 4096 + c] =
    map (file_byte v f) [p..<p + c]"
  using chunk_facts(5) [OF assms(1-3)] assms(4)
  by (intro nth_equalityI) (auto simp: file_byte_def Let_def add.assoc)

section \<open>Reading\<close>

lemma read_loop_ok:
  assumes "mounted s" and "file_ok s f" and "p \<le> q" and "q \<le> MAXFILESIZE" and "q - p \<le> n"
  shows "\<exists>res s'. read_loop n f (of_nat p) (of_nat q) s = Ret res s' \<and> grows f s s' \<and>
    within (nblk q) f (view s) (view s') \<and> (res = Inr (map (file_byte (view s) f) [p..<q]) \<or>
     res = Inl (- E_NO_DISK) \<and> free_blocks s' = {} \<and> (\<exists>k. p \<le> k \<and> k < q \<and> ptr (view s) f (k div 4096) = 0))"
  using assms
proof (induction n arbitrary: p s)
  case 0
  then show ?case using loads_grows [OF 0(1,2) loads_refl [OF mountedD(1) [OF 0(1)]]] by auto
next
  case (Suc n)
  have p: "p \<le> MAXFILESIZE" using Suc.prems(3,4) by simp
  show ?case
  proof (cases "p < q")
    case False
    then show ?thesis
      using loads_grows [OF Suc.prems(1,2) loads_refl [OF mountedD(1) [OF Suc.prems(1)]]] less_pos [OF p Suc.prems(4)]
        Suc.prems(3) by auto
  next
    case True
    define c where "c = min (4096 - p mod 4096) (q - p)"
    note C = chunk_facts [OF True Suc.prems(4) c_def]
    have ch: "chunk (of_nat p) (of_nat q) = c" using chunk_of_pos [OF Suc.prems(3,4)] by (simp add: c_def)
    obtain r blk s1 where s1: "file_get_block f (of_nat (p div 4096)) s = Ret (r, blk) s1" "grows f s s1"
      "r = 0 \<and> ptr (view s1) f (p div 4096) \<noteq> 0 \<and> blk = 4096 * ptr (view s1) f (p div 4096) \<or>
       r = - E_NO_DISK \<and> free_blocks s1 = {} \<and> ptr (view s) f (p div 4096) = 0"
      and w1: "within (nblk q) f (view s) (view s1)"
      using within_mono [OF _ nblk_pos [OF True]] file_get_block_ok [OF Suc.prems(1,2) C(4)] by blast
    show ?thesis
    proof (cases "r = 0")
      case False
      then show ?thesis using s1 w1 True less_pos [OF p Suc.prems(4)] block_of_pos [OF p] by auto
    next
      case r0: True
      let ?b = "ptr (view s1) f (p div 4096)"
      note m1 = growsD(2,3) [OF s1(2)]
      have b: "?b \<noteq> 0" "blk = 4096 * ?b" using s1(3) r0 by auto
      have use: "in_use s1 ?b" using file_okD(5) [OF m1(2) b(1)] by (simp add: data_block_def in_use_def)
      have same: "file_byte (view s1) f k = file_byte (view s) f k" if "k < q" for k
        using growsD(5) [OF s1(2)] that Suc.prems(4) by (simp add: same_content_def)
      obtain s2 where s2: "rd_bytes (blk + p mod 4096) c s1 = Ret (map (file_byte (view s) f) [p..<p + c]) s2" "loads s1 s2"
        using rd_bytes_ok [OF m1(1) use C(3)] chunk_bytes [OF True Suc.prems(4) c_def b(1)] b(2) same C(2)
        by (auto cong: map_cong)
      note g2 = grows_trans [OF s1(2) loads_grows [OF m1 s2(2)]]
      have "p + c \<le> q" "q - (p + c) \<le> n" using C(1,2) Suc.prems(5) by auto
      from Suc.IH [OF growsD(2,3) [OF g2] this(1) Suc.prems(4) this(2)] obtain res s3 where
        s3: "read_loop n f (of_nat (p + c)) (of_nat q) s2 = Ret res s3" "grows f s2 s3"
          "res = Inr (map (file_byte (view s2) f) [p + c..<q]) \<or> res = Inl (- E_NO_DISK) \<and> free_blocks s3 = {} \<and>
            (\<exists>k. p + c \<le> k \<and> k < q \<and> ptr (view s2) f (k div 4096) = 0)"
          "within (nblk q) f (view s2) (view s3)"
        by blast
      have w3: "within (nblk q) f (view s) (view s3)"
        using within_trans [OF w1] s3(4) loads_view(1) [OF s2(2)] by simp
      have hole: "ptr (view s) f i = 0" if "ptr (view s2) f i = 0" for i
        using growsD2(2) [OF g2, of i] that by (cases "ptr (view s) f i = 0") simp_all
      have "map (file_byte (view s2) f) [p + c..<q] = map (file_byte (view s) f) [p + c..<q]"
        using same loads_view(1) [OF s2(2)] by simp
      moreover have "[p..<q] = [p..<p + c] @ [p + c..<q]" using C(2) upt_add_eq_append [of p "p + c" "q - (p + c)"] by simp
      ultimately have app: "map (file_byte (view s) f) [p..<p + c] @ map (file_byte (view s2) f) [p + c..<q] =
          map (file_byte (view s) f) [p..<q]" by simp
      have go: "read_loop (Suc n) f (of_nat p) (of_nat q) s =
          kbind (read_loop n f (of_nat (p + c)) (of_nat q)) (\<lambda>res. case res of
             Inl e \<Rightarrow> kret (Inl e) | Inr later \<Rightarrow> kret (Inr (map (file_byte (view s) f) [p..<p + c] @ later))) s2"
        using s1(1) s2(1) r0 True less_pos [OF p Suc.prems(4)] block_of_pos [OF p] offset_of_pos [OF p] ch by simp
      from s3(3) show ?thesis
      proof
        assume "res = Inr (map (file_byte (view s2) f) [p + c..<q])"
        then have "read_loop (Suc n) f (of_nat p) (of_nat q) s = Ret (Inr (map (file_byte (view s) f) [p..<q])) s3"
          using go s3(1) app by simp
        with w3 grows_trans [OF g2 s3(2)] show ?thesis by blast
      next
        assume *: "res = Inl (- E_NO_DISK) \<and> free_blocks s3 = {} \<and>
            (\<exists>k. p + c \<le> k \<and> k < q \<and> ptr (view s2) f (k div 4096) = 0)"
        then have ret: "read_loop (Suc n) f (of_nat p) (of_nat q) s = Ret (Inl (- E_NO_DISK)) s3" using go s3(1) by simp
        obtain k where "p + c \<le> k" "k < q" "ptr (view s2) f (k div 4096) = 0" using * by (elim conjE exE)
        then have k: "p \<le> k \<and> k < q \<and> ptr (view s) f (k div 4096) = 0" using hole by simp
        show ?thesis
          by (rule exI [of _ "Inl (- E_NO_DISK)"], rule exI [of _ s3])
            (intro conjI disjI2 refl ret w3 grows_trans [OF g2 s3(2)] exI [of _ k] k * [THEN conjunct2, THEN conjunct1];
             use k in simp)
      qed
    qed
  qed
qed

definition f_size :: "bytes \<Rightarrow> nat \<Rightarrow> nat" where
  "f_size v f = unat (load32 v (f_size_at f))"

text \<open>A file has no blocks behind its end.\<close>

definition tight :: "bytes \<Rightarrow> nat \<Rightarrow> bool" where
  "tight v f \<longleftrightarrow> (\<forall>i. nblk (f_size v f) \<le> i \<and> i < 1034 \<longrightarrow> ptr v f i = 0) \<and>
     (nblk (f_size v f) \<le> 10 \<longrightarrow> ind_of v f = 0)"

lemma rd_size:
  assumes "mounted s" and "file_ok s f"
  shows "\<exists>s'. rd32 (f_size_at f) s = Ret (of_nat (f_size (view s) f)) s' \<and> loads s s'"
  using rd_meta [OF assms, of 128] by (simp add: f_size_def f_size_at_def)

lemma same_meta_size: "same_meta f v v' \<Longrightarrow> f_size v' f = f_size v f"
  unfolding f_size_def f_size_at_def
  by (intro arg_cong [of _ _ unat] load32_cong) (simp add: same_meta_def add.assoc)

lemma tight_within:
  assumes "tight v f" and "within n f v v'" and "f_size v f \<le> f_size v' f" and "n \<le> nblk (f_size v' f)"
  shows "tight v' f"
proof -
  have le: "nblk (f_size v f) \<le> nblk (f_size v' f)" using assms(3) by (simp add: nblk_def div_le_mono)
  have "ptr v' f i = 0" if "nblk (f_size v' f) \<le> i \<and> i < 1034 \<or> i = 1034 \<and> nblk (f_size v' f) \<le> 10" for i
  proof -
    have "ptr v' f i = ptr v f i" using assms(2,4) that unfolding within_def by fastforce
    also have "\<dots> = 0" using assms(1) that le unfolding tight_def by (metis le_trans ptr_1034)
    finally show ?thesis .
  qed
  then show ?thesis unfolding tight_def by (metis ptr_1034)
qed

lemma file_read_ok:
  assumes m: "mounted s" and f: "file_ok s f" and sz: "f_size (view s) f \<le> MAXFILESIZE" and off: "off \<le> MAXFILESIZE"
    and n: "n < 2147483648" and t: "tight (view s) f"
  shows "\<exists>r bs s'. file_read f (of_nat n) (of_nat off) s = Ret (r, bs) s' \<and> grows f s s' \<and>
    tight (view s') f \<and> (r = int (length bs) \<and> bs = map (file_byte (view s) f) [off..<min (off + n) (f_size (view s) f)] \<or>
     r = - E_NO_DISK \<and> bs = [] \<and> free_blocks s' = {} \<and>
       (\<exists>k. off \<le> k \<and> k < min (off + n) (f_size (view s) f) \<and> ptr (view s) f (k div 4096) = 0))"
proof -
  let ?sz = "f_size (view s) f"
  obtain s1 where s1: "rd32 (f_size_at f) s = Ret (of_nat ?sz) s1" "loads s s1"
    using rd_size [OF m f] by blast
  note g1 = loads_grows [OF m f s1(2)]
  show ?thesis
  proof (cases "?sz \<le> off")
    case True
    then have "file_read f (of_nat n) (of_nat off) s = Ret (0, []) s1"
      using s1(1) sint_of_nat [OF sz] sint_of_nat [OF off] by (simp add: file_read_def)
    then show ?thesis using g1 True t loads_view(1) [OF s1(2)] by auto
  next
    case False
    define k where "k = min n (?sz - off)"
    have k: "off + k \<le> MAXFILESIZE" "min (off + n) ?sz = off + k" using sz False by (auto simp: k_def)
    have "unat (of_nat ?sz - of_nat off :: u32) = ?sz - off"
      using unat_sub [of "of_nat off :: u32" "of_nat ?sz"] unat_pos [OF off] unat_pos [OF sz] False
      by (simp add: word_le_nat_alt)
    then have w: "min (of_nat n :: u32) (of_nat ?sz - of_nat off) = of_nat k"
      unfolding k_def using n by (intro word_eq_unatI) (simp add: min_def word_le_nat_alt unat_of_nat32 sz [THEN order_trans])
    have "unat (of_nat k :: u32) = k" using k(1) by (intro unat_pos) simp
    moreover have "sint (of_nat k :: u32) = int k" using k(1) by (intro sint_of_nat) simp
    moreover obtain res s2 where s2: "read_loop k f (of_nat off) (of_nat (off + k)) s1 = Ret res s2" "grows f s1 s2"
      "res = Inr (map (file_byte (view s1) f) [off..<off + k]) \<or> res = Inl (- E_NO_DISK) \<and> free_blocks s2 = {} \<and>
         (\<exists>i. off \<le> i \<and> i < off + k \<and> ptr (view s1) f (i div 4096) = 0)"
      "within (nblk (off + k)) f (view s1) (view s2)"
      using read_loop_ok [OF growsD(2,3) [OF g1] le_add1 k(1), of k] by auto
    moreover have "tight (view s2) f"
    proof (rule tight_within [OF _ s2(4)])
      have sz2: "f_size (view s2) f = ?sz" "f_size (view s1) f = ?sz"
        using same_meta_size [OF growsD(6) [OF s2(2)]] loads_view(1) [OF s1(2)] by simp_all
      then show "f_size (view s1) f \<le> f_size (view s2) f" by simp
      show "nblk (off + k) \<le> nblk (f_size (view s2) f)"
        using sz2 False unfolding nblk_def k_def by (intro div_le_mono) simp
      show "tight (view s1) f" using t loads_view(1) [OF s1(2)] by simp
    qed
    ultimately show ?thesis
      using s1(1) False sint_of_nat [OF sz] sint_of_nat [OF off] w grows_trans [OF g1 s2(2)] k(2) loads_view(1) [OF s1(2)]
      by (auto simp: file_read_def Let_def)
  qed
qed

section \<open>Changing the size\<close>

text \<open>A change that is confined to name, size and type.\<close>

lemma meta_change:
  assumes f: "file_ok s f" and u: "same_use s s'" and v: "\<And>x. \<not> (f \<le> x \<and> x < f + 136) \<Longrightarrow> view s' x = view s x"
  shows "keeps f s s'" and "ptr (view s') f j = ptr (view s) f j" and "same_content f (view s) (view s')"
proof -
  note uf = same_use_facts [OF u]
  have blk: "x div 4096 = f div 4096" if "f \<le> x \<and> x < f + 136" for x
    using in_struct_block [OF file_okD(2) [OF f], of x] that by simp
  have slot: "load32 (view s') (slot_at (view s) f j) = load32 (view s) (slot_at (view s) f j)" if h: "has_slot (view s) f j" for j
  proof (rule load32_cong, rule v)
    fix k :: nat assume k: "k < 4"
    show "\<not> (f \<le> slot_at (view s) f j + k \<and> slot_at (view s) f j + k < f + 136)"
    proof (cases "10 \<le> j \<and> j < 1034")
      case True
      then have "(slot_at (view s) f j + k) div 4096 \<noteq> f div 4096"
        using aligned_in_block [OF slot_props(1) [OF f h] k] slot_props(2) [OF f h] file_okD(6) [OF f, of 1034] h
        by (simp add: has_slot_def)
      then show ?thesis using blk by blast
    next
      case False
      then show ?thesis by (auto simp: slot_at_def f_direct_at_def f_indirect_at_def)
    qed
  qed
  have ind: "ind_of (view s') f = ind_of (view s) f"
    using slot [of 1034] by (simp add: has_slot_def slot_at_def ind_of_def)
  show P: "ptr (view s') f j = ptr (view s) f j" for j
    using slot [of j] ind by (auto simp: ptr_def has_slot_def slot_at_def)
  have "struct_ok s' f = struct_ok s f" using u uf(1) by (simp add: struct_ok_def same_use_def)
  then have ok: "file_ok s' f" using f unfolding file_ok_def P uf(2) by simp
  show "keeps f s s'"
    unfolding keeps_def
  proof (intro conjI allI impI ok)
    show "mounted s'" "nblocks s' = nblocks s" using u by (simp_all add: same_use_def)
    fix x assume x: "outside f s x"
    then show "outside f s' x" using u uf(1) unfolding outside_def P by (simp add: same_use_def)
    show "view s' x = view s x" using x by (intro v) (auto simp: outside_def)
  qed
  show "same_content f (view s) (view s')"
    unfolding same_content_def
  proof (intro allI impI)
    fix k :: nat
    let ?p = "ptr (view s) f (k div 4096)"
    have "(4096 * ?p + k mod 4096) div 4096 = ?p" by (rule div4096) simp
    then have "view s' (4096 * ?p + k mod 4096) = view s (4096 * ?p + k mod 4096)" if "?p \<noteq> 0"
      using file_okD(6) [OF f that] blk [of "4096 * ?p + k mod 4096"] by (intro v) auto
    then show "file_byte (view s') f k = file_byte (view s) f k" by (simp add: file_byte_def Let_def P)
  qed
qed

text \<open>Writing a word that is neither in the bitmap nor in the head of the super block.\<close>

lemma wr_plain:
  assumes m: "mounted s" and a: "plain_block s (a div 4096)" "a mod 4 = 0" "4104 \<le> a"
  shows "\<exists>s'. wr32 a w s = Ret () s' \<and> same_use s s' \<and> view s' = store32 (view s) a w"
proof -
  have "in_use s (a div 4096)" using a(1) by (simp add: plain_block_def)
  from wr32_ok [OF m this a(2)] obtain s' where s': "wr32 a w s = Ret () s'" "wrote s s'"
    "view s' = store32 (view s) a w" by blast
  have "same_use s s'"
  proof (rule same_use_cong [OF m s'(2)])
    fix x assume x: "x div 4096 = 1 \<and> x < 4104 \<or> 2 \<le> x div 4096 \<and> x div 4096 < reserved s"
    have "x div 4096 = a div 4096" if "a \<le> x \<and> x < a + 4"
      using aligned_in_block [OF a(2), of "x - a"] that by (simp add: less_diff_conv2)
    then have "\<not> (a \<le> x \<and> x < a + 4)" using x a(1,3) by (auto simp: plain_block_def)
    then show "view s' x = view s x" unfolding s'(3) by (intro store32_outside) linarith
  qed
  with s' show ?thesis by blast
qed

lemma wr_size:
  assumes m: "mounted s" and f: "file_ok s f"
  shows "\<exists>s'. wr32 (f_size_at f) w s = Ret () s' \<and> same_use s s' \<and> view s' = store32 (view s) (f + 128) w"
proof -
  have "(f + 128) mod 4 = 0" using file_okD(1) [OF f] mod_add_eq [of f 4 128] by simp
  moreover have "(f + 128) div 4096 = f div 4096" using struct_block [OF file_okD(2) [OF f], of 128] by simp
  ultimately show ?thesis
    using wr_plain [OF m, of "f + 128"] file_okD(3,4) [OF f] by (simp add: f_size_at_def)
qed

text \<open>What \<open>file_set_size\<close> does after a possible truncation: it stores the size and writes the block
  of the structure to the disk.\<close>

lemma set_size_tail:
  assumes m: "mounted s" and f: "file_ok s f" and n: "n \<le> MAXFILESIZE"
  shows "\<exists>s'. kthen (wr32 (f_size_at f) (of_nat n)) (kthen (flush_block f) (kret (0 :: int))) s = Ret 0 s' \<and> keeps f s s' \<and>
    same_content f (view s) (view s') \<and> (\<forall>j. ptr (view s') f j = ptr (view s) f j) \<and> free_blocks s' = free_blocks s \<and>
    f_size (view s') f = n \<and> (\<forall>x. x div 4096 = f div 4096 \<longrightarrow> disk s' x = view s' x)"
proof -
  obtain s1 where s1: "wr32 (f_size_at f) (of_nat n) s = Ret () s1" "same_use s s1"
    "view s1 = store32 (view s) (f + 128) (of_nat n)"
    using wr_size [OF m f] by blast
  have v: "view s1 x = view s x" if "\<not> (f \<le> x \<and> x < f + 136)" for x
    unfolding s1(3) using that by (intro store32_outside) linarith
  note M = meta_change [OF f s1(2) v]
  have m1: "mounted s1" "f div 4096 < nblocks s1"
    using s1(2) file_okD(4) [OF f] by (simp_all add: same_use_def plain_block_def in_use_def)
  obtain s2 where s2: "flush_block f s1 = Ret () s2" "mounted s2" "view s2 = view s1" "nblocks s2 = nblocks s1"
    "\<forall>x. x div 4096 = f div 4096 \<longrightarrow> disk s2 x = view s1 x"
    using flush_mounted [OF m1] by blast
  have u2: "same_use s1 s2" using s2 by (simp add: same_use_def in_use_def)
  have ok1: "file_ok s1 f" using M(1) by (simp add: keeps_def)
  have v2: "view s2 x = view s1 x" for x by (simp add: s2(3))
  have "f_size (view s2) f = n" by (simp add: f_size_def f_size_at_def s2(3) s1(3) unat_pos [OF n])
  with s1(1) s2 M keeps_trans [OF M(1) meta_change(1) [OF ok1 u2 v2]] same_use_facts(4) [OF s1(2)] same_use_facts(4) [OF u2]
  show ?thesis by (simp add: kthen_def)
qed

lemma file_set_size_grow:
  assumes m: "mounted s" and f: "file_ok s f" and n: "f_size (view s) f \<le> n" "n \<le> MAXFILESIZE"
  shows "\<exists>s'. file_set_size f (of_nat n) s = Ret 0 s' \<and> keeps f s s' \<and> same_content f (view s) (view s') \<and>
    free_blocks s' = free_blocks s \<and> f_size (view s') f = n \<and> (\<forall>j. ptr (view s') f j = ptr (view s) f j)"
proof -
  obtain s1 where s1: "rd32 (f_size_at f) s = Ret (of_nat (f_size (view s) f)) s1" "loads s s1"
    using rd_size [OF m f] by blast
  note g1 = loads_grows [OF m f s1(2)]
  obtain s2 where s2: "kthen (wr32 (f_size_at f) (of_nat n)) (kthen (flush_block f) (kret (0 :: int))) s1 = Ret 0 s2"
    "keeps f s1 s2" "same_content f (view s1) (view s2)" "free_blocks s2 = free_blocks s1" "f_size (view s2) f = n"
    "\<And>j. ptr (view s2) f j = ptr (view s1) f j"
    using set_size_tail [OF growsD(2,3) [OF g1] n(2)] by blast
  have "free_blocks s1 = free_blocks s" using loads_view [OF s1(2)] by (simp add: free_blocks_def)
  moreover have "\<not> sint (of_nat (f_size (view s) f) :: u32) > sint (of_nat n :: u32)"
    using sint_of_nat n by simp
  ultimately show ?thesis
    using s1(1) s2 keeps_trans [OF growsD(1) [OF g1] s2(2)] loads_view(1) [OF s1(2)] by (simp add: file_set_size_def kthen_def)
qed

section \<open>Writing\<close>

definition written :: "nat \<Rightarrow> nat \<Rightarrow> u8 list \<Rightarrow> bytes \<Rightarrow> bytes \<Rightarrow> bool" where
  "written f p bs v v' \<longleftrightarrow> (\<forall>k<MAXFILESIZE. file_byte v' f k =
     (if p \<le> k \<and> k < p + length bs then bs ! (k - p) else file_byte v f k))"

text \<open>One round of the loop.\<close>

lemma write_chunk:
  assumes m: "mounted s" and f: "file_ok s f" and c: "p mod 4096 + length bs \<le> 4096" and n: "p div 4096 < 1034"
    and b: "ptr (view s) f (p div 4096) \<noteq> 0"
  shows "\<exists>s'. wr_bytes (4096 * ptr (view s) f (p div 4096) + p mod 4096) bs s = Ret () s' \<and> keeps f s s' \<and>
    free_blocks s' = free_blocks s \<and> same_meta f (view s) (view s') \<and> written f p bs (view s) (view s') \<and>
    (\<forall>j. ptr (view s') f j = ptr (view s) f j)"
proof -
  let ?b = "ptr (view s) f (p div 4096)"
  have db: "data_block ?b s" by (rule file_okD(5) [OF f b])
  obtain s' where s': "wr_bytes (4096 * ?b + p mod 4096) bs s = Ret () s'" "same_use s s'"
    "view s' = splice (view s) (4096 * ?b + p mod 4096) bs"
    using wr_bytes_ok [OF m _ _ c, of ?b] db by (auto simp: data_block_def in_use_def reserved_def)
  have v: "view s' x = view s x" if "x div 4096 \<noteq> ?b" for x
    using that block_range [of ?b x] c unfolding s'(3) splice_def by auto
  note D = data_change [OF f s'(2) n b v]
  have "written f p bs (view s) (view s')"
    unfolding written_def
  proof (intro allI impI)
    fix k :: nat assume k: "k < MAXFILESIZE"
    have in_chunk: "p \<le> k \<and> k < p + length bs \<longleftrightarrow>
        k div 4096 = p div 4096 \<and> p mod 4096 \<le> k mod 4096 \<and> k mod 4096 < p mod 4096 + length bs"
    proof
      assume "p \<le> k \<and> k < p + length bs"
      then obtain j where j: "k = p + j" "j < length bs" by (metis add_less_cancel_left le_Suc_ex)
      have "p mod 4096 + j < 4096" using j(2) c by simp
      then have "(4096 * (p div 4096) + (p mod 4096 + j)) div 4096 = p div 4096" by (rule div4096)
      then have d: "k div 4096 = p div 4096" using j(1) by (simp add: add.assoc [symmetric])
      then have "k mod 4096 = p mod 4096 + j" using j(1) by (simp add: modulo_nat_def)
      with d j(2) show "k div 4096 = p div 4096 \<and> p mod 4096 \<le> k mod 4096 \<and> k mod 4096 < p mod 4096 + length bs" by simp
    next
      assume a: "k div 4096 = p div 4096 \<and> p mod 4096 \<le> k mod 4096 \<and> k mod 4096 < p mod 4096 + length bs"
      define q where "q = 4096 * (p div 4096)"
      have "k = q + k mod 4096" "p = q + p mod 4096"
        unfolding q_def using a mult_div_mod_eq [of 4096 k] mult_div_mod_eq [of 4096 p] by simp_all
      then show "p \<le> k \<and> k < p + length bs" using a by linarith
    qed
    show "file_byte (view s') f k = (if p \<le> k \<and> k < p + length bs then bs ! (k - p) else file_byte (view s) f k)"
    proof (cases "k div 4096 = p div 4096")
      case False
      then show ?thesis using D(4) [OF _ k] in_chunk by auto
    next
      case True
      then have "k - p = k mod 4096 - p mod 4096"
        by (metis add_diff_cancel_left div_mult_mod_eq)
      with True b in_chunk show ?thesis
        using D(4) [OF _ k] by (simp add: s'(3) splice_def file_byte_def Let_def)
    qed
  qed
  with s'(1) D(1,2,3) same_use_facts(4) [OF s'(2)] show ?thesis by blast
qed

lemma written_append:
  assumes "written f p bs v v1" and "written f (p + length bs) cs v1 v2"
  shows "written f p (bs @ cs) v v2"
  using assms unfolding written_def by (auto simp: nth_append)

lemma same_written: "same_content f v v1 \<Longrightarrow> written f p bs v1 v2 \<Longrightarrow> written f p bs v v2"
  by (simp add: same_content_def written_def)

text \<open>When the disk is full a part of the range may have been written.\<close>

definition written_part :: "nat \<Rightarrow> nat \<Rightarrow> u8 list \<Rightarrow> bytes \<Rightarrow> bytes \<Rightarrow> bool" where
  "written_part f p bs v v' \<longleftrightarrow> (\<exists>n\<le>length bs. written f p (take n bs) v v')"

definition extends :: "nat \<Rightarrow> fstate \<Rightarrow> fstate \<Rightarrow> bool" where
  "extends f s s' \<longleftrightarrow> keeps f s s' \<and> free_blocks s' \<subseteq> free_blocks s \<and> same_meta f (view s) (view s') \<and>
     (\<forall>i. ptr (view s) f i \<noteq> 0 \<longrightarrow> ptr (view s') f i = ptr (view s) f i)"

lemma extends_trans:
  assumes "extends f s t" and "extends f t u"
  shows "extends f s u"
proof -
  note a = assms [unfolded extends_def]
  have "free_blocks u \<subseteq> free_blocks s" using a by blast
  moreover have "same_meta f (view s) (view u)" using a by (simp add: same_meta_def)
  moreover have "ptr (view u) f i = ptr (view s) f i" if "ptr (view s) f i \<noteq> 0" for i using a that by simp
  ultimately show ?thesis using keeps_trans [of f s t u] a by (simp add: extends_def)
qed

lemma grows_extends: "grows f s s' \<Longrightarrow> extends f s s'"
  by (simp add: grows_def extends_def)

lemma extendsD: "extends f s s' \<Longrightarrow> mounted s'" "extends f s s' \<Longrightarrow> file_ok s' f"
  by (simp_all add: extends_def keeps_def)

lemma written_0: "written f p [] v v" "same_content f v v' \<Longrightarrow> written f p [] v v'"
  by (auto simp: written_def same_content_def)

lemma write_loop_ok:
  assumes "mounted s" and "file_ok s f" and "p + length bs = q" and "q \<le> MAXFILESIZE" and "length bs \<le> n"
  shows "\<exists>r s'. write_loop n f bs (of_nat p) (of_nat q) s = Ret r s' \<and> extends f s s' \<and>
    within (nblk q) f (view s) (view s') \<and>
    (r = 0 \<and> written f p bs (view s) (view s') \<and> (\<forall>k. p \<le> k \<and> k < q \<longrightarrow> ptr (view s') f (k div 4096) \<noteq> 0) \<or>
     r = - E_NO_DISK \<and> free_blocks s' = {} \<and> written_part f p bs (view s) (view s'))"
  using assms
proof (induction n arbitrary: p bs s)
  case 0
  then show ?case
    using grows_extends [OF loads_grows [OF 0(1,2) loads_refl [OF mountedD(1) [OF 0(1)]]]] written_0 by auto
next
  case (Suc n)
  have p: "p \<le> MAXFILESIZE" using Suc.prems(3,4) by simp
  show ?case
  proof (cases "p < q")
    case False
    then show ?thesis
      using grows_extends [OF loads_grows [OF Suc.prems(1,2) loads_refl [OF mountedD(1) [OF Suc.prems(1)]]]]
        less_pos [OF p Suc.prems(4)] Suc.prems(3) written_0 by auto
  next
    case True
    define c where "c = min (4096 - p mod 4096) (q - p)"
    note C = chunk_facts [OF True Suc.prems(4) c_def]
    have ch: "chunk (of_nat p) (of_nat q) = c" using chunk_of_pos [OF _ Suc.prems(4)] True by (simp add: c_def)
    have len: "length (take c bs) = c" using C(2) Suc.prems(3) by simp
    obtain r blk s1 where s1: "file_get_block f (of_nat (p div 4096)) s = Ret (r, blk) s1" "grows f s s1"
      "r = 0 \<and> ptr (view s1) f (p div 4096) \<noteq> 0 \<and> blk = 4096 * ptr (view s1) f (p div 4096) \<or>
       r = - E_NO_DISK \<and> free_blocks s1 = {} \<and> ptr (view s) f (p div 4096) = 0"
      and w1: "within (nblk q) f (view s) (view s1)"
      using within_mono [OF _ nblk_pos [OF True]] file_get_block_ok [OF Suc.prems(1,2) C(4)] by blast
    note e1 = grows_extends [OF s1(2)]
    show ?thesis
    proof (cases "r = 0")
      case False
      moreover have "written_part f p bs (view s) (view s1)"
        unfolding written_part_def using written_0(2) [OF growsD(5) [OF s1(2)], of p] by (intro exI [of _ 0]) simp
      ultimately show ?thesis using s1 e1 w1 True less_pos [OF p Suc.prems(4)] block_of_pos [OF p] by auto
    next
      case r0: True
      have b: "ptr (view s1) f (p div 4096) \<noteq> 0" "blk = 4096 * ptr (view s1) f (p div 4096)" using s1(3) r0 by auto
      obtain s2 where s2: "wr_bytes (blk + p mod 4096) (take c bs) s1 = Ret () s2" "extends f s1 s2"
        "written f p (take c bs) (view s1) (view s2)" "within (nblk q) f (view s1) (view s2)"
        using write_chunk [OF growsD(2,3) [OF s1(2)] _ C(4) b(1), of "take c bs"] len C(3) b(2)
        by (auto simp: extends_def within_def)
      note e2 = extends_trans [OF e1 s2(2)]
      have w2: "written f p (take c bs) (view s) (view s2)" by (rule same_written [OF growsD(5) [OF s1(2)] s2(3)])
      have "p + c + length (drop c bs) = q" "length (drop c bs) \<le> n" using C(1,2) Suc.prems(3,5) by auto
      from Suc.IH [OF extendsD [OF e2] this(1) Suc.prems(4) this(2)] obtain r' s3 where
        s3: "write_loop n f (drop c bs) (of_nat (p + c)) (of_nat q) s2 = Ret r' s3" "extends f s2 s3"
          "r' = 0 \<and> written f (p + c) (drop c bs) (view s2) (view s3) \<and>
             (\<forall>k. p + c \<le> k \<and> k < q \<longrightarrow> ptr (view s3) f (k div 4096) \<noteq> 0) \<or>
           r' = - E_NO_DISK \<and> free_blocks s3 = {} \<and> written_part f (p + c) (drop c bs) (view s2) (view s3)"
          "within (nblk q) f (view s2) (view s3)" by blast
      have w3: "within (nblk q) f (view s) (view s3)" by (rule within_trans [OF within_trans [OF w1 s2(4)] s3(4)])
      have step: "write_loop (Suc n) f bs (of_nat p) (of_nat q) s = Ret r' s3"
        using s1(1) s2(1) s3(1) r0 True less_pos [OF p Suc.prems(4)] block_of_pos [OF p] offset_of_pos [OF p] ch by simp
      have part: "written_part f p bs (view s) (view s3)" if wp: "written_part f (p + c) (drop c bs) (view s2) (view s3)"
      proof -
        obtain k where k: "k \<le> length (drop c bs)" "written f (p + c) (take k (drop c bs)) (view s2) (view s3)"
          using wp by (auto simp: written_part_def)
        have "written f p (take c bs @ take k (drop c bs)) (view s) (view s3)"
          using written_append [OF w2] k(2) len by simp
        moreover have "c + k \<le> length bs" using k(1) len by simp
        ultimately show ?thesis unfolding written_part_def by (intro exI [of _ "c + k"]) (simp add: take_add)
      qed
      have full: "ptr (view s3) f (k div 4096) \<noteq> 0"
        if "\<forall>k. p + c \<le> k \<and> k < q \<longrightarrow> ptr (view s3) f (k div 4096) \<noteq> 0" "p \<le> k" "k < q" for k
      proof (cases "k < p + c")
        case k: True
        then have "k div 4096 = p div 4096" using C(5) [of "k - p"] that(2) by simp
        then show ?thesis using b(1) extends_trans [OF s2(2) s3(2)] unfolding extends_def by metis
      qed (use that in simp)
      have "written f p bs (view s) (view s3)" if "written f (p + c) (drop c bs) (view s2) (view s3)"
        using written_append [OF w2, of "drop c bs"] that len by simp
      then show ?thesis unfolding step using extends_trans [OF e2 s3(2)] s3(3) w3 part full by auto
    qed
  qed
qed

lemma file_write_ok:
  assumes m: "mounted s" and f: "file_ok s f" and sz: "f_size (view s) f \<le> MAXFILESIZE"
    and off: "off + length bs \<le> MAXFILESIZE" and t: "tight (view s) f"
  shows "\<exists>r s'. file_write f bs (of_nat off) s = Ret r s' \<and> keeps f s s' \<and>
    f_size (view s') f = max (f_size (view s) f) (off + length bs) \<and> tight (view s') f \<and>
    (r = int (length bs) \<and> written f off bs (view s) (view s') \<and>
       (\<forall>k. off \<le> k \<and> k < off + length bs \<longrightarrow> ptr (view s') f (k div 4096) \<noteq> 0) \<or>
     r = - E_NO_DISK \<and> free_blocks s' = {} \<and> written_part f off bs (view s) (view s'))"
proof -
  let ?sz = "f_size (view s) f" and ?stop = "off + length bs"
  obtain s1 where s1: "rd32 (f_size_at f) s = Ret (of_nat ?sz) s1" "loads s s1"
    using rd_size [OF m f] by blast
  note g1 = loads_grows [OF m f s1(2)]
  have v1: "view s1 = view s" by (rule loads_view(1) [OF s1(2)])
  have cmp: "of_nat off + of_nat (length bs) > (of_nat ?sz :: u32) \<longleftrightarrow> ?sz < ?stop"
    using less_pos [OF sz off] by simp
  obtain s2 where s2: "(if of_nat off + of_nat (length bs) > (of_nat ?sz :: u32)
      then file_set_size f (of_nat off + of_nat (length bs)) else kret 0) s1 = Ret 0 s2" "keeps f s s2"
    "same_content f (view s) (view s2)" "f_size (view s2) f = max ?sz ?stop" "\<And>j. ptr (view s2) f j = ptr (view s) f j"
  proof (cases "?sz < ?stop")
    case True
    then have "f_size (view s1) f \<le> ?stop" using v1 by simp
    from file_set_size_grow [OF growsD(2,3) [OF g1] this off] obtain t where
      "file_set_size f (of_nat ?stop) s1 = Ret 0 t" "keeps f s1 t" "same_content f (view s1) (view t)" "f_size (view t) f = ?stop" "\<And>j. ptr (view t) f j = ptr (view s1) f j"
      by blast
    with True cmp keeps_trans [OF growsD(1) [OF g1]] v1 show ?thesis by (intro that [of t]) simp_all
  next
    case False
    with cmp growsD(1,5) [OF g1] v1 show ?thesis by (intro that [of s1]) simp_all
  qed
  have m2: "mounted s2" "file_ok s2 f" using s2(2) by (simp_all add: keeps_def)
  obtain r s3 where s3: "write_loop (length bs) f bs (of_nat off) (of_nat ?stop) s2 = Ret r s3" "extends f s2 s3"
    "r = 0 \<and> written f off bs (view s2) (view s3) \<and>
       (\<forall>k. off \<le> k \<and> k < ?stop \<longrightarrow> ptr (view s3) f (k div 4096) \<noteq> 0) \<or>
     r = - E_NO_DISK \<and> free_blocks s3 = {} \<and> written_part f off bs (view s2) (view s3)" "within (nblk ?stop) f (view s2) (view s3)"
    using write_loop_ok [OF m2 refl off order_refl] by blast
  have sz3: "f_size (view s3) f = max ?sz ?stop"
    using same_meta_size [of f "view s2" "view s3"] s3(2) s2(4) by (simp add: extends_def)
  have t3: "tight (view s3) f"
  proof (rule tight_within [OF t])
    show "within (nblk ?stop) f (view s) (view s3)" using s3(4) s2(5) by (simp add: within_def)
    show "f_size (view s) f \<le> f_size (view s3) f" "nblk ?stop \<le> nblk (f_size (view s3) f)"
      unfolding sz3 nblk_def by (auto intro: div_le_mono)
  qed
  have k3: "keeps f s s3" using keeps_trans [OF s2(2)] s3(2) by (simp add: extends_def)
  have si: "sint (of_nat (length bs) :: u32) = int (length bs)" using off by (intro sint_of_nat) simp
  have "written_part f off bs (view s) (view s3)" if "written_part f off bs (view s2) (view s3)"
    using that same_written [OF s2(3)] unfolding written_part_def by blast
  moreover have "file_write f bs (of_nat off) s =
      Ret (if r < 0 then r else int (length bs)) s3"
    using s1(1) s2(1) s3(1) si by (simp add: file_write_def Let_def)
  ultimately show ?thesis using k3 sz3 t3 s3(3) same_written [OF s2(3)] by auto
qed

end
