(* ===== verification/Fs_Truncate.thy ===== *)
theory Fs_Truncate
  imports Fs_Read_Write
begin

text \<open>
  Truncating a file: \<open>file_set_size\<close> with a smaller size releases exactly the blocks behind the new end,
  the indirect block included when it is no longer needed, and keeps the content before it.
\<close>

section \<open>Emptying a slot\<close>

lemma nblocks_not_in_use: "\<not> in_use s (nblocks s)"
  by (simp add: in_use_def)

lemma detached_ptr:
  assumes f: "file_ok s f" and i: "has_slot (view s) f i" and at: "agrees s f i (nblocks s) v"
    and l0: "load32 v (slot_at (view s) f i) = 0"
    and none: "\<And>j. i = 1034 \<Longrightarrow> 10 \<le> j \<Longrightarrow> j < 1034 \<Longrightarrow> ptr (view s) f j = 0"
  shows "ptr v f j = (if j = i then 0 else ptr (view s) f j)"
proof -
  note ld = agrees_load [OF f i nblocks_not_in_use at]
  have h1034: "has_slot (view s) f 1034" by (simp add: has_slot_def)
  show ?thesis
  proof (cases "i = 1034")
    case True
    have new: "ind_of v f = 0" using l0 True by (simp add: slot_at_def ind_of_def)
    consider "j < 10" | "10 \<le> j" "j < 1034" | "j = 1034" | "j > 1034" by linarith
    then show ?thesis
    proof cases
      case 1
      then show ?thesis using ld [of j] True by (simp add: ptr_def has_slot_def slot_at_def)
    next
      case 2
      then show ?thesis using new none [OF True 2] True by (simp add: ptr_def [of v] has_slot_def)
    qed (use True new ptr_out in simp_all)
  next
    case False
    have "ind_of v f = ind_of (view s) f"
      using ld [OF h1034] False by (simp add: ind_of_def slot_at_def)
    then have same: "slot_at v f j = slot_at (view s) f j" "has_slot v f j = has_slot (view s) f j"
      by (simp_all add: slot_at_def has_slot_def)
    then show ?thesis using ld [of j] l0 by (auto simp: ptr_def)
  qed
qed

text \<open>\<open>dropped f a i s s'\<close>: the data blocks from number \<open>a\<close> up to number \<open>i\<close> have been released.\<close>

definition dropped :: "nat \<Rightarrow> nat \<Rightarrow> nat \<Rightarrow> fstate \<Rightarrow> fstate \<Rightarrow> bool" where
  "dropped f a i s s' \<longleftrightarrow> keeps f s s' \<and> same_meta f (view s) (view s') \<and>
     (\<forall>j. ptr (view s') f j = (if a \<le> j \<and> j < i then 0 else ptr (view s) f j)) \<and>
     (\<forall>k<MAXFILESIZE. file_byte (view s') f k = (if a \<le> k div 4096 \<and> k div 4096 < i then 0 else file_byte (view s) f k)) \<and>
     free_blocks s' = free_blocks s \<union> (ptr (view s) f ` {a..<i} - {0})"

lemma droppedD:
  assumes "dropped f a i s s'"
  shows "keeps f s s'" and "mounted s'" and "file_ok s' f" and "same_meta f (view s) (view s')"
    and "ptr (view s') f j = (if a \<le> j \<and> j < i then 0 else ptr (view s) f j)"
    and "k < MAXFILESIZE \<Longrightarrow> file_byte (view s') f k = (if a \<le> k div 4096 \<and> k div 4096 < i then 0 else file_byte (view s) f k)"
    and "free_blocks s' = free_blocks s \<union> (ptr (view s) f ` {a..<i} - {0})"
  using assms by (simp_all add: dropped_def keeps_def)

lemma dropped_trans:
  assumes d: "dropped f a i s t" "dropped f i j t u" and le: "a \<le> i" "i \<le> j"
  shows "dropped f a j s u"
proof -
  have p: "ptr (view t) f ` {i..<j} = ptr (view s) f ` {i..<j}"
    using droppedD(5) [OF d(1)] by (intro image_cong) auto
  have "{a..<j} = {a..<i} \<union> {i..<j}" using le by auto
  then have fr: "free_blocks u = free_blocks s \<union> (ptr (view s) f ` {a..<j} - {0})"
    using droppedD(7) [OF d(1)] droppedD(7) [OF d(2)] p by auto
  have m: "same_meta f (view s) (view u)"
    using droppedD(4) [OF d(1)] droppedD(4) [OF d(2)] by (simp add: same_meta_def)
  show ?thesis
    unfolding dropped_def
    using keeps_trans [OF droppedD(1) [OF d(1)] droppedD(1) [OF d(2)]] m fr le droppedD(5,6) [OF d(1)] droppedD(5,6) [OF d(2)]
    by auto
qed

text \<open>The slot of block \<open>b\<close> has become empty and the block free.\<close>

lemma detached_keeps:
  assumes f: "file_ok s f" and i: "has_slot (view s) f i" and at: "agrees s f i (nblocks s) (view s')"
    and l0: "load32 (view s') (slot_at (view s) f i) = 0" and nz: "ptr (view s) f i \<noteq> 0"
    and none: "\<And>j. i = 1034 \<Longrightarrow> 10 \<le> j \<Longrightarrow> j < 1034 \<Longrightarrow> ptr (view s) f j = 0"
    and m': "mounted s'" "nblocks s' = nblocks s"
    and u': "\<And>x. in_use s' x \<longleftrightarrow> in_use s x \<and> x \<noteq> ptr (view s) f i"
  shows "dropped f i (Suc i) s s'"
proof -
  let ?b = "ptr (view s) f i"
  note P = detached_ptr [OF f i at l0 none]
  note eq = agrees_eq [OF f i nblocks_not_in_use at]
  have res: "reserved s' = reserved s" by (simp add: reserved_def m'(2))
  have bd: "data_block ?b s" by (rule file_okD(5) [OF f nz])
  have fb: "free_bit (view s') x \<longleftrightarrow> free_bit (view s) x \<or> x = ?b" if "x < nblocks s" for x
    using u' [of x] that m'(2) bd unfolding in_use_def data_block_def by auto
  have db: "data_block x s' \<longleftrightarrow> data_block x s \<and> x \<noteq> ?b" for x
    unfolding data_block_def m'(2) using fb by auto
  have ok': "file_ok s' f"
    unfolding file_ok_def struct_ok_def
  proof (intro conjI allI impI)
    show "in_use s' (f div 4096)" using u' file_okD(4) [OF f] file_okD(6) [OF f nz] by (simp add: plain_block_def)
    show "f div 4096 = 1 \<or> reserved s' \<le> f div 4096" using file_okD(4) [OF f] by (simp add: plain_block_def res)
    fix j assume "ptr (view s') f j \<noteq> 0"
    then have "j \<noteq> i" and j: "ptr (view s') f j = ptr (view s) f j" "ptr (view s) f j \<noteq> 0"
      using P [of j] by (auto split: if_splits)
    then have "ptr (view s) f j \<noteq> ?b" using file_okD(7) [OF f j(2), of i] by auto
    with j show "data_block (ptr (view s') f j) s'" "ptr (view s') f j \<noteq> f div 4096"
      using file_okD(5,6) [OF f j(2)] db by simp_all
  next
    fix j k assume "ptr (view s') f j \<noteq> 0 \<and> ptr (view s') f j = ptr (view s') f k"
    then show "j = k" using P [of j] P [of k] file_okD(7) [OF f, of j k] by (auto split: if_splits)
  qed (use file_okD(1,2,3) [OF f] in simp_all)
  have k: "keeps f s s'"
    unfolding keeps_def
  proof (intro conjI allI impI m' ok')
    fix x assume x: "outside f s x"
    have "x div 4096 \<noteq> ?b" using x nz unfolding outside_def by blast
    then show "outside f s' x" using x u' P unfolding outside_def res by (auto split: if_splits)
    have "x div 4096 \<noteq> ind_of (view s) f \<or> ind_of (view s) f = 0"
      using x unfolding outside_def by (metis ptr_1034)
    then show "view s' x = view s x" using eq x by (simp add: outside_def plain_block_def)
  qed
  have meta: "same_meta f (view s) (view s')"
    unfolding same_meta_def using eq [OF meta_byte_apart [OF f]] by blast
  have "file_byte (view s') f k = (if i \<le> k div 4096 \<and> k div 4096 < Suc i then 0 else file_byte (view s) f k)"
    if "k < MAXFILESIZE" for k
  proof (cases "k div 4096 = i")
    case True
    then show ?thesis using P [of i] by (simp add: file_byte_def)
  next
    case False
    have lt: "k div 4096 < 1034" using that by (intro less_mult_imp_div_less) simp
    let ?p = "ptr (view s) f (k div 4096)"
    have "view s' (4096 * ?p + k mod 4096) = view s (4096 * ?p + k mod 4096)" if nz: "?p \<noteq> 0"
      by (intro eq data_byte_apart [OF f lt nz]) simp_all
    then show ?thesis using P [of "k div 4096"] False by (auto simp: file_byte_def Let_def)
  qed
  moreover have "free_blocks s' = free_blocks s \<union> (ptr (view s) f ` {i..<Suc i} - {0})"
    using fb nz bd unfolding free_blocks_def m'(2) data_block_def by auto
  ultimately show ?thesis unfolding dropped_def using k meta P by auto
qed

section \<open>Releasing blocks\<close>

lemma release_slot:
  assumes m: "mounted s" and f: "file_ok s f" and i: "has_slot (view s) f i" and nz: "ptr (view s) f i \<noteq> 0"
    and none: "\<And>j. i = 1034 \<Longrightarrow> 10 \<le> j \<Longrightarrow> j < 1034 \<Longrightarrow> ptr (view s) f j = 0"
  shows "\<exists>s'. kthen (free_block (of_nat (ptr (view s) f i))) (wr32 (slot_at (view s) f i) 0) s = Ret () s' \<and>
    dropped f i (Suc i) s s'"
proof -
  let ?b = "ptr (view s) f i" and ?a = "slot_at (view s) f i"
  have bd: "data_block ?b s" by (rule file_okD(5) [OF f nz])
  obtain s1 where s1: "free_block (of_nat ?b) s = Ret () s1" "mounted s1" "nblocks s1 = nblocks s"
    "\<And>x. free_bit (view s1) x \<longleftrightarrow> free_bit (view s) x \<or> x = ?b"
    "\<And>x. x div 4096 \<noteq> 2 + ?b div 32768 \<Longrightarrow> view s1 x = view s x"
    using free_block_ok [OF m bd] by blast
  have iu1: "in_use s1 x \<longleftrightarrow> in_use s x \<and> x \<noteq> ?b" for x using s1(3,4) by (auto simp: in_use_def)
  note a = slot_props [OF f i]
  have "?a div 4096 \<noteq> ?b"
    unfolding a(2) using file_okD(6) [OF f nz] file_okD(7) [OF f nz, of 1034] by auto
  then have pl: "plain_block s1 (?a div 4096)"
    using a(3) iu1 s1(3) by (simp add: plain_block_def reserved_def)
  obtain s2 where s2: "wr32 ?a 0 s1 = Ret () s2" "same_use s1 s2" "view s2 = store32 (view s1) ?a 0"
    using wr_plain [OF s1(2) pl a(1) slot_4104 [OF f i]] by blast
  have bm: "2 + ?b div 32768 < reserved s"
  proof -
    have "(?b + 32768) div 32768 \<le> (nblocks s + 32767) div 32768" using bd by (intro div_le_mono) (simp add: data_block_def)
    then show ?thesis by (simp add: reserved_def)
  qed
  have ag: "agrees s f i (nblocks s) (view s2)"
    unfolding agrees_def s2(3)
  proof (intro allI impI)
    fix x assume x: "(x div 4096 = 1 \<or> reserved s \<le> x div 4096) \<and> x div 4096 \<noteq> nblocks s \<and> \<not> (?a \<le> x \<and> x < ?a + 4)"
    then have "view s1 x = view s x" using bm by (intro s1(5)) auto
    then show "store32 (view s1) ?a 0 x = view s x" using x by (subst store32_outside) auto
  qed
  have "dropped f i (Suc i) s s2"
  proof (rule detached_keeps [OF f i ag _ nz none])
    show "load32 (view s2) ?a = 0" by (simp add: s2(3))
    show "mounted s2" "nblocks s2 = nblocks s" using s2(2) s1(3) by (simp_all add: same_use_def)
    show "in_use s2 x \<longleftrightarrow> in_use s x \<and> x \<noteq> ?b" for x using s2(2) iu1 by (simp add: same_use_def)
  qed
  with s1(1) s2(1) show ?thesis by (auto simp: kthen_def)
qed

lemma grows_loads_dropped:
  assumes "mounted s" and "file_ok s f" and "loads s s'" and "\<And>j. a \<le> j \<Longrightarrow> j < i \<Longrightarrow> ptr (view s) f j = 0"
  shows "dropped f a i s s'"
proof -
  have g: "grows f s s'" by (rule loads_grows [OF assms(1-3)])
  have v: "view s' = view s" by (rule loads_view(1) [OF assms(3)])
  have "free_blocks s' = free_blocks s" using loads_view [OF assms(3)] by (simp add: free_blocks_def)
  moreover have "ptr (view s) f ` {a..<i} - {0} = {}" using assms(4) by auto
  moreover have "file_byte (view s) f k = 0" if "a \<le> k div 4096" "k div 4096 < i" for k
    using assms(4) [OF that] by (simp add: file_byte_def)
  ultimately show ?thesis
    unfolding dropped_def v using growsD(1) [OF g] assms(4) by (auto simp: same_meta_def)
qed

lemma walk_without_alloc:
  assumes m: "mounted s" and f: "file_ok s f" and n: "n < 1034"
  shows "\<exists>s'. loads s s' \<and> file_block_walk f (of_nat n) False s =
    Ret (if has_slot (view s) f n then (0, slot_at (view s) f n) else (- E_NOT_FOUND, 0)) s'"
proof (cases "n < 10")
  case True
  then have "file_block_walk f (of_nat n) False s = Ret (0, slot_at (view s) f n) s"
    using unat_of_nat_1034 [OF n] by (simp add: file_block_walk_def word_le_nat_alt word_less_nat_alt slot_at_def)
  moreover have "has_slot (view s) f n" using True by (simp add: has_slot_def)
  ultimately show ?thesis using loads_refl [OF mountedD(1) [OF m]] by auto
next
  case False
  note u = unat_of_nat_1034 [OF n]
  have h: "has_slot (view s) f 1034" "slot_at (view s) f 1034 = f_indirect_at f"
    by (simp_all add: has_slot_def slot_at_def)
  obtain s1 where s1: "rd32 (f_indirect_at f) s = Ret (of_nat (ind_of (view s) f)) s1" "loads s s1"
    using rd_slot [OF m f h(1)] by (auto simp: h(2))
  have z: "(of_nat (ind_of (view s) f) :: u32) = 0 \<longleftrightarrow> ind_of (view s) f = 0" by (simp add: ind_of_def unat_eq_0)
  show ?thesis
  proof (cases "ind_of (view s) f = 0")
    case True
    then have "\<not> has_slot (view s) f n" using False n by (simp add: has_slot_def)
    moreover have "file_block_walk f (of_nat n) False s = Ret (- E_NOT_FOUND, 0) s1"
      using u False n s1(1) True z by (simp add: file_block_walk_def word_le_nat_alt word_less_nat_alt)
    ultimately show ?thesis using s1(2) by auto
  next
    case nz: False
    note g1 = loads_grows [OF m f s1(2)]
    have v1: "view s1 = view s" by (rule loads_view(1) [OF s1(2)])
    obtain s2 where s2: "rd32 (f_indirect_at f) s1 = Ret (of_nat (ind_of (view s) f)) s2" "loads s1 s2"
      using rd_slot [OF growsD(2,3) [OF g1], of 1034] h v1 by auto
    note l = loads_trans [OF s1(2) s2(2)]
    have "ind_of (view s) f < nblocks s" using file_okD(5) [OF f, of 1034] nz by (simp add: data_block_def)
    then have "diskaddr (of_nat (ind_of (view s) f)) s2 = Ret (4096 * ind_of (view s) f) s2"
      using diskaddr_ok [OF loads_mounted [OF m l]] loads_view(2) [OF l] nz by simp
    then have "file_block_walk f (of_nat n) False s = Ret (0, slot_at (view s) f n) s2"
      using u False n s1(1) s2(1) nz z by (simp add: file_block_walk_def word_le_nat_alt word_less_nat_alt slot_at_def)
    then show ?thesis using l n nz by (auto simp: has_slot_def)
  qed
qed

lemma file_free_block_ok:
  assumes m: "mounted s" and f: "file_ok s f" and n: "n < 1034"
  shows "\<exists>r s'. file_free_block f (of_nat n) s = Ret r s' \<and> dropped f n (Suc n) s s'"
proof -
  obtain s1 where s1: "loads s s1" "file_block_walk f (of_nat n) False s =
    Ret (if has_slot (view s) f n then (0, slot_at (view s) f n) else (- E_NOT_FOUND, 0)) s1"
    using walk_without_alloc [OF assms] by blast
  note g1 = loads_grows [OF m f s1(1)]
  have v1: "view s1 = view s" by (rule loads_view(1) [OF s1(1)])
  show ?thesis
  proof (cases "has_slot (view s) f n")
    case False
    then have "ptr (view s) f n = 0" by (simp add: ptr_def)
    then have "dropped f n (Suc n) s s1" by (intro grows_loads_dropped [OF m f s1(1)]) (simp add: less_Suc_eq_le)
    then show ?thesis using s1(2) False by (simp add: file_free_block_def)
  next
    case True
    obtain s2 where s2: "rd32 (slot_at (view s) f n) s1 = Ret (of_nat (ptr (view s) f n)) s2" "loads s1 s2"
      using rd_slot [OF growsD(2,3) [OF g1], of n] True v1 by auto
    note l = loads_trans [OF s1(1) s2(2)]
    have v2: "view s2 = view s" by (rule loads_view(1) [OF l])
    note m2 = growsD(2,3) [OF loads_grows [OF m f l]]
    have z: "(of_nat (ptr (view s) f n) :: u32) = 0 \<longleftrightarrow> ptr (view s) f n = 0"
      using True by (simp add: ptr_def unat_eq_0)
    show ?thesis
    proof (cases "ptr (view s) f n = 0")
      case p0: True
      then have "dropped f n (Suc n) s s2" by (intro grows_loads_dropped [OF m f l]) (simp add: less_Suc_eq_le)
      then show ?thesis using s1(2) True s2(1) p0 by (simp add: file_free_block_def)
    next
      case nz: False
      obtain s3 where s3: "kthen (free_block (of_nat (ptr (view s) f n))) (wr32 (slot_at (view s) f n) 0) s2 = Ret () s3"
        "dropped f n (Suc n) s2 s3"
        using release_slot [OF m2, of n] True nz n v2 by auto
      have "dropped f n n s s2" by (rule grows_loads_dropped [OF m f l]) simp
      from dropped_trans [OF this s3(2)] have "dropped f n (Suc n) s s3" by simp
      moreover have "file_free_block f (of_nat n) s = Ret 0 s3"
        using s1(2) True s2(1) s3(1) nz z unfolding file_free_block_def
        by (auto simp: kthen_def kbind_def split: outcome.splits)
      ultimately show ?thesis by blast
    qed
  qed
qed

section \<open>Truncation\<close>

lemma blocks_for_nat:
  assumes "n \<le> MAXFILESIZE"
  shows "blocks_for (of_nat n) = of_nat (nblk n)"
proof -
  have e: "(of_nat n + 4095 :: u32) = of_nat (n + 4095)" by simp
  have "sint (of_nat (n + 4095) :: u32) = int (n + 4095)"
    using assms by (subst signed_of_nat) (simp add: signed_take_bit_int_eq_self)
  then have "c_div_blk (sint (of_nat (n + 4095) :: u32)) = int (nblk n)"
    by (simp add: c_div_blk_def nblk_def zdiv_int)
  then show ?thesis unfolding blocks_for_def e by simp
qed

lemma unat_nblk: "n \<le> MAXFILESIZE \<Longrightarrow> unat (blocks_for (of_nat n)) = nblk n"
  using nblk_le [of n] by (simp add: blocks_for_nat unat_of_nat32)

text \<open>What truncation to \<open>n\<close> bytes does to a file.\<close>

definition cut :: "nat \<Rightarrow> nat \<Rightarrow> fstate \<Rightarrow> fstate \<Rightarrow> bool" where
  "cut f n s s' \<longleftrightarrow> keeps f s s' \<and>
     (\<forall>j. ptr (view s') f j = (if nblk n \<le> j \<and> j < 1034 \<or> j = 1034 \<and> nblk n \<le> 10 then 0 else ptr (view s) f j)) \<and>
     (\<forall>k<MAXFILESIZE. file_byte (view s') f k = (if nblk n \<le> k div 4096 then 0 else file_byte (view s) f k)) \<and>
     free_blocks s' = free_blocks s \<union>
       ({ptr (view s) f j | j. nblk n \<le> j \<and> j < 1034 \<or> j = 1034 \<and> nblk n \<le> 10} - {0})"

lemma cut_keeps_trans:
  assumes "cut f n s t" and "keeps f t u" and "same_content f (view t) (view u)"
    and "\<And>j. ptr (view u) f j = ptr (view t) f j" and "free_blocks u = free_blocks t"
  shows "cut f n s u"
  using assms keeps_trans [of f s t u] unfolding cut_def same_content_def by auto

lemma file_truncate_blocks_ok:
  assumes m: "mounted s" and f: "file_ok s f" and t: "tight (view s) f"
    and n: "n \<le> f_size (view s) f" "f_size (view s) f \<le> MAXFILESIZE"
  shows "\<exists>s'. file_truncate_blocks f (of_nat n) s = Ret () s' \<and> cut f n s s' \<and> same_meta f (view s) (view s')"
proof -
  let ?old = "nblk (f_size (view s) f)" and ?new = "nblk n"
  obtain s1 where s1: "rd32 (f_size_at f) s = Ret (of_nat (f_size (view s) f)) s1" "loads s s1"
    using rd_size [OF m f] by blast
  have d1: "dropped f ?new ?new s s1" by (rule grows_loads_dropped [OF m f s1(2)]) simp
  have le: "?new \<le> ?old" "?old \<le> 1034" using n nblk_le by (auto simp: nblk_def div_le_mono)
  let ?body = "\<lambda>bno. kbind (file_free_block f (of_nat bno)) (\<lambda>r. kret ())"
  have "\<exists>s'. kfor [?new..<?old] ?body s1 = Ret () s' \<and> dropped f ?new ?old s s'"
  proof (rule kfor_upt_invariant [where P = "\<lambda>i. dropped f ?new i s", OF le(1) d1])
    fix i t assume i: "?new \<le> i" "i < ?old" and d: "dropped f ?new i s t"
    have "i < 1034" using i le by simp
    then obtain r t' where t': "file_free_block f (of_nat i) t = Ret r t'" "dropped f i (Suc i) t t'"
      using file_free_block_ok [OF droppedD(2,3) [OF d]] by blast
    show "\<exists>s'. ?body i t = Ret () s' \<and> dropped f ?new (Suc i) s s'"
      using t' dropped_trans [OF d t'(2) i(1)] by simp
  qed
  then obtain s2 where s2: "kfor [?new..<?old] ?body s1 = Ret () s2" "dropped f ?new ?old s s2" by blast
  note D = droppedD [OF s2(2)]
  have tz: "ptr (view s) f j = 0" if "?old \<le> j" "j < 1034" for j using t that by (simp add: tight_def)
  have P2: "ptr (view s2) f j = (if ?new \<le> j \<and> j < 1034 then 0 else ptr (view s) f j)" for j
    using D(5) [of j] tz [of j] le by auto
  have B2: "file_byte (view s2) f k = (if ?new \<le> k div 4096 then 0 else file_byte (view s) f k)" if "k < MAXFILESIZE" for k
  proof -
    have "k div 4096 < 1034" using that by (intro less_mult_imp_div_less) simp
    then show ?thesis using D(6) [OF that] tz [of "k div 4096"] by (auto simp: file_byte_def)
  qed
  have F2: "free_blocks s2 = free_blocks s \<union> ({ptr (view s) f j | j. ?new \<le> j \<and> j < 1034} - {0})"
  proof -
    have "ptr (view s) f ` {?new..<?old} - {0} = {ptr (view s) f j | j. ?new \<le> j \<and> j < 1034} - {0}"
    proof (intro set_eqI iffI)
      fix b assume b: "b \<in> {ptr (view s) f j | j. ?new \<le> j \<and> j < 1034} - {0}"
      then obtain j where j: "b = ptr (view s) f j" "?new \<le> j" "j < 1034" "b \<noteq> 0" by auto
      then have "j < ?old" by (metis tz not_le)
      with j show "b \<in> ptr (view s) f ` {?new..<?old} - {0}" by auto
    qed (use le in auto)
    with D(7) show ?thesis by simp
  qed
  have w: "unat (blocks_for (of_nat n)) = ?new" "unat (blocks_for (of_nat (f_size (view s) f))) = ?old"
    using n by (simp_all add: unat_nblk)
  have small: "blocks_for (of_nat n) \<le> 10 \<longleftrightarrow> ?new \<le> 10" using w(1) by (simp add: word_le_nat_alt)
  have go: "file_truncate_blocks f (of_nat n) s = (if ?new \<le> 10 then kbind (rd32 (f_indirect_at f)) (\<lambda>ind.
       if ind \<noteq> 0 then kthen (free_block ind) (wr32 (f_indirect_at f) 0) else kret ()) else kret ()) s2"
    using s1(1) s2(1) w small by (simp add: file_truncate_blocks_def Let_def kthen_def)
  show ?thesis
  proof (cases "?new \<le> 10")
    case False
    then have "cut f n s s2" unfolding cut_def using D(1) P2 B2 F2 by auto
    then show ?thesis using go False D(4) by auto
  next
    case True
    have h: "has_slot v f 1034" "slot_at v f 1034 = f_indirect_at f" for v by (simp_all add: has_slot_def slot_at_def)
    have i2: "ind_of (view s2) f = ind_of (view s) f" using P2 [of 1034] by simp
    obtain s3 where s3: "rd32 (f_indirect_at f) s2 = Ret (of_nat (ind_of (view s) f)) s3" "loads s2 s3"
      using rd_slot [OF D(2,3) h(1)] i2 by (auto simp: h(2))
    have d3: "dropped f 1034 1034 s2 s3" by (rule grows_loads_dropped [OF D(2,3) s3(2)]) simp
    note D3 = droppedD [OF d3]
    have v3: "view s3 = view s2" by (rule loads_view(1) [OF s3(2)])
    have z: "(of_nat (ind_of (view s) f) :: u32) = 0 \<longleftrightarrow> ind_of (view s) f = 0" by (simp add: ind_of_def unat_eq_0)
    have "\<exists>s4. (if (of_nat (ind_of (view s) f) :: u32) \<noteq> 0
        then kthen (free_block (of_nat (ind_of (view s) f))) (wr32 (f_indirect_at f) 0) else kret ()) s3 = Ret () s4 \<and>
      dropped f 1034 1035 s2 s4"
    proof (cases "ind_of (view s) f = 0")
      case i0: True
      have "dropped f 1034 1035 s2 s3"
      proof (rule grows_loads_dropped [OF D(2,3) s3(2)])
        fix j :: nat assume "1034 \<le> j" "j < 1035"
        then have "j = 1034" by simp
        then show "ptr (view s2) f j = 0" using i0 i2 by simp
      qed
      then show ?thesis using i0 z by simp
    next
      case nz: False
      have "\<exists>s'. kthen (free_block (of_nat (ptr (view s3) f 1034))) (wr32 (slot_at (view s3) f 1034) 0) s3 = Ret () s' \<and>
          dropped f 1034 (Suc 1034) s3 s'"
        by (rule release_slot [OF D3(2,3) h(1)]) (use nz i2 v3 P2 True in auto)
      then obtain s4 where "kthen (free_block (of_nat (ind_of (view s) f))) (wr32 (f_indirect_at f) 0) s3 = Ret () s4"
        "dropped f 1034 1035 s3 s4" using i2 v3 h by auto
      with dropped_trans [OF d3, of 1035 s4] nz z show ?thesis by auto
    qed
    then obtain s4 where s4: "(if (of_nat (ind_of (view s) f) :: u32) \<noteq> 0
        then kthen (free_block (of_nat (ind_of (view s) f))) (wr32 (f_indirect_at f) 0) else kret ()) s3 = Ret () s4"
      "dropped f 1034 1035 s2 s4" by blast
    note D4 = droppedD [OF s4(2)]
    have B4: "file_byte (view s4) f k = file_byte (view s2) f k" if "k < MAXFILESIZE" for k
    proof -
      have "k div 4096 < 1034" using that by (intro less_mult_imp_div_less) simp
      then show ?thesis using D4(6) [OF that] by simp
    qed
    have F4: "free_blocks s4 = free_blocks s \<union>
       ({ptr (view s) f j | j. ?new \<le> j \<and> j < 1034 \<or> j = 1034 \<and> ?new \<le> 10} - {0})"
    proof -
      have "{1034..<1035 :: nat} = {1034}" by auto
      then have "free_blocks s4 = free_blocks s2 \<union> ({ind_of (view s) f} - {0})" using D4(7) i2 by simp
      moreover have "{ptr (view s) f j | j. ?new \<le> j \<and> j < 1034 \<or> j = 1034 \<and> ?new \<le> 10} =
        {ptr (view s) f j | j. ?new \<le> j \<and> j < 1034} \<union> {ind_of (view s) f}"
        using True by (auto intro: exI [of _ 1034])
      ultimately show ?thesis using F2 by auto
    qed
    have "cut f n s s4"
      unfolding cut_def using keeps_trans [OF D(1) D4(1)] D4(5) P2 B4 B2 F4 True by auto
    moreover have "same_meta f (view s) (view s4)" using D(4) D4(4) by (simp add: same_meta_def)
    moreover have "file_truncate_blocks f (of_nat n) s = Ret () s4" using go True s3(1) s4(1) by simp
    ultimately show ?thesis by blast
  qed
qed

lemma file_set_size_cut:
  assumes m: "mounted s" and f: "file_ok s f" and t: "tight (view s) f"
    and n: "n < f_size (view s) f" "f_size (view s) f \<le> MAXFILESIZE"
  shows "\<exists>s'. file_set_size f (of_nat n) s = Ret 0 s' \<and> cut f n s s' \<and> f_size (view s') f = n \<and> tight (view s') f \<and>
    (\<forall>x. x div 4096 = f div 4096 \<longrightarrow> disk s' x = view s' x)"
proof -
  obtain s1 where s1: "rd32 (f_size_at f) s = Ret (of_nat (f_size (view s) f)) s1" "loads s s1"
    using rd_size [OF m f] by blast
  note g1 = loads_grows [OF m f s1(2)]
  have v1: "view s1 = view s" "free_blocks s1 = free_blocks s"
    using loads_view [OF s1(2)] by (simp_all add: free_blocks_def)
  obtain s2 where s2: "file_truncate_blocks f (of_nat n) s1 = Ret () s2" "cut f n s1 s2"
    using file_truncate_blocks_ok [OF growsD(2,3) [OF g1], of n] t n v1 by auto
  have c2: "cut f n s s2" using s2(2) keeps_trans [OF growsD(1) [OF g1]] unfolding cut_def v1 by auto
  have m2: "mounted s2" "file_ok s2 f" using c2 by (simp_all add: cut_def keeps_def)
  obtain s3 where s3: "kthen (wr32 (f_size_at f) (of_nat n)) (kthen (flush_block f) (kret (0 :: int))) s2 = Ret 0 s3"
    "keeps f s2 s3" "same_content f (view s2) (view s3)" "\<And>j. ptr (view s3) f j = ptr (view s2) f j"
    "free_blocks s3 = free_blocks s2" "f_size (view s3) f = n" "\<forall>x. x div 4096 = f div 4096 \<longrightarrow> disk s3 x = view s3 x"
    using set_size_tail [OF m2, of n] n by auto
  have c3: "cut f n s s3" by (rule cut_keeps_trans [OF c2 s3(2-5)])
  have "tight (view s3) f"
    unfolding tight_def s3(6) using c3 unfolding cut_def by (metis ptr_1034)
  moreover have "sint (of_nat (f_size (view s) f) :: u32) > sint (of_nat n :: u32)"
    using sint_of_nat n by simp
  ultimately show ?thesis
    using s1(1) s2(1) s3 c3 by (simp add: file_set_size_def kthen_def)
qed

section \<open>Other files\<close>

text \<open>Two files share no block and no byte of their structures.\<close>

definition apart :: "nat \<Rightarrow> nat \<Rightarrow> fstate \<Rightarrow> bool" where
  "apart f g s \<longleftrightarrow> (\<forall>k<256. outside f s (g + k)) \<and>
     (\<forall>i x. ptr (view s) g i \<noteq> 0 \<and> x div 4096 = ptr (view s) g i \<longrightarrow> outside f s x)"

lemma keeps_other:
  assumes k: "keeps f s s'" and g: "file_ok s g" and a: "apart f g s"
  shows "file_ok s' g" and "apart f g s'" and "same_content g (view s) (view s')" and "same_meta g (view s) (view s')"
    and "ptr (view s') g j = ptr (view s) g j"
proof -
  have out: "outside f s' x" "view s' x = view s x" if "outside f s x" for x
    using k that unfolding keeps_def by blast+
  have st: "outside f s (g + j)" if "j < 256" for j using a that by (simp add: apart_def)
  have dat: "outside f s x" if "ptr (view s) g i \<noteq> 0" "x div 4096 = ptr (view s) g i" for i x
    using a that by (auto simp: apart_def)
  have slot: "load32 (view s') (slot_at (view s) g i) = load32 (view s) (slot_at (view s) g i)" if h: "has_slot (view s) g i" for i
  proof (rule load32_cong, rule out(2))
    fix j :: nat assume j: "j < 4"
    show "outside f s (slot_at (view s) g i + j)"
    proof (cases "10 \<le> i \<and> i < 1034")
      case True
      then show ?thesis
        using dat [of 1034 "slot_at (view s) g i + j"] aligned_in_block [OF slot_props(1) [OF g h] j] slot_props(2) [OF g h] h
        by (simp add: has_slot_def)
    next
      case False
      then have "slot_at (view s) g i = g + (if i < 10 then 136 + 4 * i else 176)"
        by (auto simp: slot_at_def f_direct_at_def f_indirect_at_def)
      then show ?thesis using st [of "(if i < 10 then 136 + 4 * i else 176) + j"] j by (auto simp: add.assoc split: if_splits)
    qed
  qed
  have ind: "ind_of (view s') g = ind_of (view s) g"
    using slot [of 1034] by (simp add: has_slot_def slot_at_def ind_of_def)
  show P: "ptr (view s') g i = ptr (view s) g i" for i
    using slot [of i] ind by (auto simp: ptr_def has_slot_def slot_at_def)
  have n: "nblocks s' = nblocks s" and res: "reserved s' = reserved s" using k by (simp_all add: keeps_def reserved_def)
  have db: "data_block (ptr (view s) g i) s'" if "ptr (view s) g i \<noteq> 0" for i
    using out(1) [OF dat [OF that, of "4096 * ptr (view s) g i"]] file_okD(5) [OF g that]
    by (simp add: outside_def in_use_def data_block_def n)
  show "file_ok s' g"
    using g out(1) [OF st [of 0]] db unfolding file_ok_def struct_ok_def P res by (auto simp: outside_def)
  show "apart f g s'" using out(1) st dat unfolding apart_def P by blast
  show "same_meta g (view s) (view s')" using out(2) st by (simp add: same_meta_def)
  show "same_content g (view s) (view s')"
    unfolding same_content_def
  proof (intro allI impI)
    fix j :: nat
    have "(4096 * ptr (view s) g (j div 4096) + j mod 4096) div 4096 = ptr (view s) g (j div 4096)" by (rule div4096) simp
    then show "file_byte (view s') g j = file_byte (view s) g j"
      using dat [of "j div 4096" "4096 * ptr (view s) g (j div 4096) + j mod 4096"] out(2) by (auto simp: file_byte_def Let_def P)
  qed
qed

text \<open>A regular file: well-formed, not larger than a file can be, and with no block behind its end.\<close>

definition regular :: "fstate \<Rightarrow> nat \<Rightarrow> bool" where
  "regular s f \<longleftrightarrow> file_ok s f \<and> f_size (view s) f \<le> MAXFILESIZE \<and> tight (view s) f"

lemma keeps_regular:
  assumes "keeps f s s'" and "regular s g" and "apart f g s"
  shows "regular s' g"
proof -
  have g: "file_ok s g" using assms(2) by (simp add: regular_def)
  note K = keeps_other [OF assms(1) g assms(3)]
  have sz: "f_size (view s') g = f_size (view s) g" by (rule same_meta_size [OF K(4)])
  have "ind_of (view s') g = ind_of (view s) g" using K(5) [of 1034] by simp
  then have "tight (view s') g" using assms(2) by (simp add: regular_def tight_def sz K(5))
  then show ?thesis using K(1) sz assms(2) by (simp add: regular_def)
qed

text \<open>A write and what it leaves to be read.\<close>

lemma file_write_back:
  assumes "mounted s" and "regular s f" and "off + length bs \<le> MAXFILESIZE"
  obtains (ok) s' where "file_write f bs (of_nat off) s = Ret (int (length bs)) s'" and "mounted s'" and "regular s' f" and "keeps f s s'"
      and "f_size (view s') f = max (f_size (view s) f) (off + length bs)" and "written f off bs (view s) (view s')"
      and "\<exists>s''. file_read f (of_nat (length bs)) (of_nat off) s' = Ret (int (length bs), bs) s''"
  | (full) s' where "file_write f bs (of_nat off) s = Ret (- E_NO_DISK) s'" and "mounted s'" and "regular s' f" and "keeps f s s'"
      and "free_blocks s' = {}"
proof -
  have f: "file_ok s f" "f_size (view s) f \<le> MAXFILESIZE" "tight (view s) f" using assms(2) by (simp_all add: regular_def)
  obtain r s' where w: "file_write f bs (of_nat off) s = Ret r s'" "keeps f s s'"
    "f_size (view s') f = max (f_size (view s) f) (off + length bs)" "tight (view s') f"
    and r: "r = int (length bs) \<and> written f off bs (view s) (view s') \<and>
       (\<forall>k. off \<le> k \<and> k < off + length bs \<longrightarrow> ptr (view s') f (k div 4096) \<noteq> 0) \<or> r = - E_NO_DISK \<and> free_blocks s' = {}"
    using file_write_ok [OF assms(1) f(1,2) assms(3) f(3)] by blast
  have m: "mounted s'" "file_ok s' f" using w(2) by (simp_all add: keeps_def)
  have lim: "f_size (view s') f \<le> MAXFILESIZE" "off \<le> MAXFILESIZE" "length bs < 2147483648"
    using f(2) assms(3) w(3) by auto
  have reg: "regular s' f" using m(2) lim(1) w(4) by (simp add: regular_def)
  show thesis using r
  proof
    assume "r = - E_NO_DISK \<and> free_blocks s' = {}"
    then show thesis using w(1,2) m(1) reg by (intro full [of s']) auto
  next
    assume ok': "r = int (length bs) \<and> written f off bs (view s) (view s') \<and>
       (\<forall>k. off \<le> k \<and> k < off + length bs \<longrightarrow> ptr (view s') f (k div 4096) \<noteq> 0)"
    have top: "min (off + length bs) (f_size (view s') f) = off + length bs" using w(3) by simp
    have "map (file_byte (view s') f) [off..<off + length bs] = bs"
      using ok' assms(3) by (intro nth_equalityI) (simp_all add: written_def)
    moreover obtain r' out s'' where "file_read f (of_nat (length bs)) (of_nat off) s' = Ret (r', out) s''"
      "r' = int (length out) \<and> out = map (file_byte (view s') f) [off..<off + length bs] \<or>
       (\<exists>k. off \<le> k \<and> k < off + length bs \<and> ptr (view s') f (k div 4096) = 0)"
      using file_read_ok [OF m lim(1,2,3) w(4), unfolded top] by blast
    moreover have "\<not> (\<exists>k. off \<le> k \<and> k < off + length bs \<and> ptr (view s') f (k div 4096) = 0)" using ok' by blast
    ultimately have "\<exists>s''. file_read f (of_nat (length bs)) (of_nat off) s' = Ret (int (length bs), bs) s''" by auto
    then show thesis using w(1-3) m(1) reg ok' by (intro ok [of s']) auto
  qed
qed

end
