(* ===== verification/Fs_Theorems.thy ===== *)
theory Fs_Theorems
  imports Fs_Truncate
begin

text \<open>
  Properties of the file server: the block cache is transparent and writes back what it is told to,
  and the bitmap allocator hands out every free block once.
\<close>

section \<open>A small mounted disk\<close>

text \<open>Eight blocks; 0, 1 and 2 (the bitmap) are in use, only the super block is cached. The root has ten
  bytes and no block.\<close>

definition sample_disk :: bytes where
  "sample_disk = store32 (store32 (store32 (\<lambda>_. 0) (SUPER + 4) 8) BITMAP 0xF8) (ROOT + 128) 10"

definition sample_fs :: fstate where
  "sample_fs = \<lparr>disk = sample_disk, cmem = sample_disk, cmapped = (\<lambda>b. b = 1), cdirty = (\<lambda>_. False),
     super_set = True, bitmap_set = True, page_rc = 0, ide_rc = 0, diskno = 1, ide_log = []\<rparr>"

lemma sample_view: "view sample_fs = sample_disk"
  by (auto simp: view_def sample_fs_def)

lemma sample_words: "load32 sample_disk (SUPER + 4) = 8" "load32 sample_disk BITMAP = 0xF8"
  by (simp_all add: sample_disk_def)

lemma sample_nblocks: "nblocks sample_fs = 8"
  unfolding nblocks_def sample_view sample_words by simp

lemma sample_free_bit: "b < 8 \<Longrightarrow> free_bit (view sample_fs) b \<longleftrightarrow> 3 \<le> b"
proof -
  assume "b < 8"
  then have "b \<in> {0, 1, 2, 3, 4, 5, 6, 7}" by (simp add: numeral_eq_Suc less_Suc_eq)
  moreover have "free_bit (view sample_fs) b = bit (0xF8 :: u32) b" if "b < 32"
    using that sample_words(2) by (simp add: free_bit_def sample_view)
  ultimately show ?thesis by (elim insertE emptyE) simp_all
qed

lemma sample_mounted: "mounted sample_fs"
  unfolding mounted_def sample_nblocks
proof (intro conjI allI impI)
  show "\<not> free_bit (view sample_fs) b" if "b < 2 + (8 + 32767) div 32768" for b
    using that sample_free_bit [of b] by simp
qed (auto simp: sample_fs_def cache_ok_def)

section \<open>The block cache\<close>



text \<open>\<open>flush_block\<close> makes a block durable: afterwards the block on the disk is the current content,
  the block is clean, no other block of the disk has changed, and neither has any content.\<close>

theorem flush_block_durable:
  assumes "cache_ok s" and "b < DISKBLOCKS" and "off < BLKSIZE" and "ide_rc s \<ge> 0"
  shows "\<exists>s'. flush_block (4096 * b + off) s = Ret () s' \<and> view s' = view s \<and> cache_ok s' \<and> \<not> cdirty s' b \<and>
    (\<forall>a. disk s' a = (if a div 4096 = b then view s a else disk s a))"
proof -
  have d: "(4096 * b + off) div 4096 = b" using assms(3) by (intro div_nat_eqI) simp_all
  have "(4096 * b + off) div 4096 < DISKBLOCKS" unfolding d by (rule assms(2))
  from flush_block_ok [OF assms(1) this assms(4)] show ?thesis unfolding d by auto
qed

theorem flush_block_durable_witness:
  "\<exists>s'. flush_block 4100 (sample_fs\<lparr>cmem := sample_disk(5000 := 7), cdirty := (\<lambda>b. b = 1)\<rparr>) = Ret () s' \<and> disk s' 5000 = 7"
proof -
  let ?s = "sample_fs\<lparr>cmem := sample_disk(5000 := 7), cdirty := (\<lambda>b. b = 1)\<rparr>"
  have "cache_ok ?s" by (auto simp: cache_ok_def sample_fs_def)
  moreover have "view ?s 5000 = 7" by (simp add: view_def sample_fs_def)
  ultimately show ?thesis using flush_block_durable [of ?s 1 4] by (auto simp: sample_fs_def)
qed

section \<open>The bitmap allocator\<close>

text \<open>(C17) \<open>alloc_block\<close> on a mounted file system: it fails with \<^verbatim>\<open>-E_NO_DISK\<close> exactly when no
  block is free, and otherwise hands out the free block with the lowest number, marks it and only it
  as used, changes nothing outside the bitmap block, and has written the bitmap block to the disk
  when it returns.\<close>

theorem alloc_block_correct:
  assumes "mounted s"
  shows "\<exists>r s'. alloc_block s = Ret r s' \<and> mounted s' \<and>
    (if free_blocks s = {} then r = - E_NO_DISK \<and> view s' = view s
     else r = int (Min (free_blocks s)) \<and> free_blocks s' = free_blocks s - {Min (free_blocks s)} \<and>
          (\<forall>a. a div 4096 \<noteq> 2 + nat r div 32768 \<longrightarrow> view s' a = view s a) \<and>
          (\<forall>a. a div 4096 = 2 + nat r div 32768 \<longrightarrow> disk s' a = view s' a))"
proof (rule alloc_block_cases [OF assms])
  fix s' assume "alloc_block s = Ret (- E_NO_DISK) s'" "loads s s'" "free_blocks s = {}"
  then show ?thesis using loads_mounted [OF assms] by (auto simp: loads_def)
next
  fix b s' assume b: "alloc_block s = Ret (int b) s'" "b \<in> free_blocks s" "\<And>x. x \<in> free_blocks s \<Longrightarrow> b \<le> x"
    "claims b s s'" "free_blocks s' = free_blocks s - {b}"
  have "Min (free_blocks s) = b"
    using b(2,3) by (intro Min_eqI) (auto simp: free_blocks_def)
  with b show ?thesis by (auto simp: claims_def)
qed

theorem alloc_block_correct_witness:
  "\<exists>s'. alloc_block sample_fs = Ret 3 s' \<and> free_blocks s' = {4, 5, 6, 7}"
proof -
  have "free_blocks sample_fs = {b. 2 \<le> b \<and> b < 8 \<and> 3 \<le> b}"
    using sample_free_bit unfolding free_blocks_def sample_nblocks by auto
  also have "\<dots> = {3, 4, 5, 6, 7}" by (auto simp: numeral_eq_Suc less_Suc_eq)
  finally show ?thesis using alloc_block_correct [OF sample_mounted] by auto
qed

text \<open>Allocating again and again on a mounted file system succeeds exactly as often as there are
  free blocks, and never hands out a block twice.\<close>

theorem alloc_blocks_distinct:
  assumes "mounted s"
  shows "case block_pool.alloc_n n s of
      None \<Rightarrow> card (free_blocks s) < n
    | Some (bs, t) \<Rightarrow> n \<le> card (free_blocks s) \<and> length bs = n \<and> distinct bs \<and> set bs \<subseteq> free_blocks s \<and>
        free_blocks t = free_blocks s - set bs"
  using block_pool.alloc_n_complete [OF assms, of n] block_pool.alloc_n_sound [OF assms, of n]
  by (auto split: option.splits)

theorem alloc_blocks_distinct_witness:
  "\<exists>bs t. block_pool.alloc_n 2 sample_fs = Some (bs, t) \<and> length bs = 2 \<and> distinct bs"
proof -
  have "{3, 4} \<subseteq> free_blocks sample_fs"
    using sample_free_bit [of 3] sample_free_bit [of 4] by (simp add: free_blocks_def sample_nblocks)
  moreover have "finite (free_blocks sample_fs)" by (simp add: free_blocks_def)
  ultimately have "2 \<le> card (free_blocks sample_fs)" using card_mono [of "free_blocks sample_fs" "{3, 4}"] by simp
  with alloc_blocks_distinct [OF sample_mounted, of 2] show ?thesis by (auto split: option.splits)
qed

section \<open>Files\<close>

text \<open>Two files in the super block of the sample disk: the root and the empty structure behind it.\<close>

lemma sample_zero: "4104 \<le> a \<Longrightarrow> a + 4 \<le> 8192 \<Longrightarrow> a + 4 \<le> 4232 \<or> 4236 \<le> a \<Longrightarrow> load32 sample_disk a = 0"
  unfolding sample_disk_def by (subst load32_store32_other, linarith)+ (simp add: load32_def)

lemma sample_file:
  assumes "f = 4104 \<or> f = 4360"
  shows "ptr sample_disk f i = 0" and "f_size sample_disk f = (if f = 4104 then 10 else 0)" and "ind_of sample_disk f = 0"
proof -
  show ind: "ind_of sample_disk f = 0"
    using assms sample_zero [of "f + 176"] by (auto simp: ind_of_def f_indirect_at_def)
  have "load32 sample_disk 4232 = 10" by (simp add: sample_disk_def)
  then show "f_size sample_disk f = (if f = 4104 then 10 else 0)"
    using assms sample_zero [of "f + 128"] by (auto simp: f_size_def f_size_at_def)
  have "has_slot sample_disk f i \<Longrightarrow> i < 10 \<or> i = 1034" using ind by (auto simp: has_slot_def)
  moreover have "unat (load32 sample_disk (f_direct_at f i)) = 0" if "i < 10"
    using assms that sample_zero [of "f + 136 + 4 * i"] by (auto simp: f_direct_at_def)
  ultimately show "ptr sample_disk f i = 0"
    using ind by (auto simp: ptr_def slot_at_def ind_of_def)
qed

lemma sample_regular:
  assumes "f = 4104 \<or> f = 4360"
  shows "regular sample_fs f"
proof -
  have "in_use sample_fs 1" using sample_free_bit [of 1] by (simp add: in_use_def sample_nblocks)
  then have "struct_ok sample_fs f" using assms by (auto simp: struct_ok_def)
  then show ?thesis
    using sample_file [OF assms] by (simp add: regular_def file_ok_def tight_def sample_view)
qed

lemma sample_apart: "apart 4104 4360 sample_fs"
proof -
  have "in_use sample_fs 1" using sample_free_bit [of 1] by (simp add: in_use_def sample_nblocks)
  moreover have "(4360 + k) div 4096 = 1" if "k < 256" for k :: nat using that by (intro div_nat_eqI) simp_all
  ultimately show ?thesis
    using sample_file by (simp add: apart_def outside_def sample_view)
qed

text \<open>(C15) Writing a file: \<open>file_write\<close> changes exactly the bytes of the range, makes the file as long as the
  range needs, and keeps the file well-formed with every block owned once and none behind its end. It
  fails only when the disk is full. No other file changes, in its content or in its name, size and type.\<close>

theorem file_write_correct:
  assumes "mounted s" and "regular s f" and "off + length bs \<le> MAXFILESIZE" and "regular s g" and "apart f g s"
  shows "\<exists>r s'. file_write f bs (of_nat off) s = Ret r s' \<and> mounted s' \<and> regular s' f \<and>
    f_size (view s') f = max (f_size (view s) f) (off + length bs) \<and>
    (r = int (length bs) \<and> (\<forall>k<MAXFILESIZE. file_byte (view s') f k =
        (if off \<le> k \<and> k < off + length bs then bs ! (k - off) else file_byte (view s) f k)) \<or>
     r = - E_NO_DISK \<and> free_blocks s' = {}) \<and>
    regular s' g \<and> same_content g (view s) (view s') \<and> same_meta g (view s) (view s')"
proof -
  have f: "file_ok s f" "f_size (view s) f \<le> MAXFILESIZE" "tight (view s) f" and g: "file_ok s g"
    using assms(2,4) by (simp_all add: regular_def)
  obtain r s' where s': "file_write f bs (of_nat off) s = Ret r s'" "keeps f s s'"
    "f_size (view s') f = max (f_size (view s) f) (off + length bs)" "tight (view s') f"
    "r = int (length bs) \<and> written f off bs (view s) (view s') \<or> r = - E_NO_DISK \<and> free_blocks s' = {}"
    using file_write_ok [OF assms(1) f(1,2) assms(3) f(3)] by blast
  have "mounted s'" "regular s' f" using s'(2,3,4) f(2) assms(3) by (simp_all add: keeps_def regular_def)
  with s' keeps_other [OF s'(2) g assms(5)] keeps_regular [OF s'(2) assms(4,5)] show ?thesis
    unfolding written_def by blast
qed

theorem file_write_correct_witness:
  "\<exists>r s'. file_write 4104 [1, 2, 3] (of_nat 5) sample_fs = Ret r s' \<and> regular s' 4104 \<and> f_size (view s') 4104 = 10"
  using file_write_correct [OF sample_mounted sample_regular _ sample_regular sample_apart, of 5 "[1, 2, 3]"]
  by (auto simp: sample_view sample_file)

text \<open>What has been written is read back: after a successful \<open>file_write\<close> the same range read with
  \<open>file_read\<close> gives the same bytes, across block boundaries and through the indirect block.\<close>

theorem file_write_read:
  assumes "mounted s" and "regular s f" and "off + length bs \<le> MAXFILESIZE"
    and "file_write f bs (of_nat off) s = Ret (int (length bs)) s'"
  shows "\<exists>s''. file_read f (of_nat (length bs)) (of_nat off) s' = Ret (int (length bs), bs) s''"
  by (rule file_write_back [OF assms(1-3)]) (use assms(4) in auto)

theorem file_write_read_witness:
  "\<exists>r s'. file_write 4104 [1, 2, 3] (of_nat 5) sample_fs = Ret r s' \<and>
    (r = 3 \<longrightarrow> (\<exists>s''. file_read 4104 (of_nat 3) (of_nat 5) s' = Ret (3, [1, 2, 3]) s''))"
proof -
  have reg: "regular sample_fs 4104" by (rule sample_regular) simp
  then have ok: "file_ok sample_fs 4104" "f_size (view sample_fs) 4104 \<le> MAXFILESIZE" "tight (view sample_fs) 4104"
    by (simp_all add: regular_def)
  obtain r s' where s': "file_write 4104 [1, 2, 3] (of_nat 5) sample_fs = Ret r s'"
    using file_write_ok [OF sample_mounted ok(1,2) _ ok(3), of 5 "[1, 2, 3]"] by auto
  moreover have "\<exists>s''. file_read 4104 (of_nat 3) (of_nat 5) s' = Ret (3, [1, 2, 3]) s''" if "r = 3"
    using file_write_read [OF sample_mounted reg, of 5 "[1, 2, 3]" s'] s' that by simp
  ultimately show ?thesis by blast
qed

text \<open>(C16) Truncating a file returns exactly the blocks behind the new end to the bitmap, the indirect block
  too when ten blocks are enough, keeps the content of the remaining blocks, leaves no pointer behind
  the end, writes the size to the disk and changes no other file.\<close>

theorem file_set_size_truncates:
  assumes "mounted s" and "regular s f" and "n < f_size (view s) f" and "regular s g" and "apart f g s"
  shows "\<exists>s'. file_set_size f (of_nat n) s = Ret 0 s' \<and> mounted s' \<and> regular s' f \<and> f_size (view s') f = n \<and>
    (\<forall>k<MAXFILESIZE. file_byte (view s') f k = (if nblk n \<le> k div 4096 then 0 else file_byte (view s) f k)) \<and>
    free_blocks s' = free_blocks s \<union>
      ({ptr (view s) f j | j. nblk n \<le> j \<and> j < 1034 \<or> j = 1034 \<and> nblk n \<le> 10} - {0}) \<and>
    (\<forall>x. x div 4096 = f div 4096 \<longrightarrow> disk s' x = view s' x) \<and>
    regular s' g \<and> same_content g (view s) (view s') \<and> same_meta g (view s) (view s')"
proof -
  have f: "file_ok s f" "f_size (view s) f \<le> MAXFILESIZE" "tight (view s) f" and g: "file_ok s g"
    using assms(2,4) by (simp_all add: regular_def)
  obtain s' where s': "file_set_size f (of_nat n) s = Ret 0 s'" "cut f n s s'" "f_size (view s') f = n" "tight (view s') f"
    "\<forall>x. x div 4096 = f div 4096 \<longrightarrow> disk s' x = view s' x"
    using file_set_size_cut [OF assms(1) f(1,3) assms(3) f(2)] by blast
  have k: "keeps f s s'" using s'(2) by (simp add: cut_def)
  have "mounted s'" "regular s' f" using k s'(3,4) assms(3) f(2) by (simp_all add: keeps_def regular_def)
  with s' keeps_other [OF k g assms(5)] keeps_regular [OF k assms(4,5)] show ?thesis
    unfolding cut_def by blast
qed

theorem file_set_size_truncates_witness:
  "\<exists>s'. file_set_size 4104 (of_nat 3) sample_fs = Ret 0 s' \<and> regular s' 4104 \<and> f_size (view s') 4104 = 3"
  using file_set_size_truncates [OF sample_mounted sample_regular _ sample_regular sample_apart, of 3]
  by (auto simp: sample_view sample_file)

end
