(* ===== verification/Pipe.thy ===== *)
theory Pipe
  imports Resource_Pool
begin

text \<open>
  Pipes, \<^verbatim>\<open>lib/pipe.c\<close>. A pipe is one page that two descriptors map: a ring of 32 bytes with a
  read and a write position. \<open>devpipe_read\<close> and \<open>devpipe_write\<close> run in different environments without a lock;
  they are modelled one shared memory access at a time, and \<open>pipe_step\<close> interleaves them in every possible
  way. Positions are \<^verbatim>\<open>off_t\<close>, so an index is C's remainder of a signed number.

  The second part models \<^verbatim>\<open>_pipeisclosed\<close>, which compares the reference counts of two pages while other
  environments close and duplicate descriptors.
\<close>

section \<open>The buffer\<close>

record Pipe =
  p_rpos :: u32
  p_wpos :: u32
  p_buf :: "int \<Rightarrow> u8"

abbreviation (input) PIPEBUFSIZ :: nat where "PIPEBUFSIZ \<equiv> 32"

definition pipe_index :: "u32 \<Rightarrow> int" where
  "pipe_index w = (if sint w \<ge> 0 then sint w mod 32 else - ((- sint w) mod 32))"

definition pipe_empty :: "Pipe \<Rightarrow> bool" where
  "pipe_empty p \<longleftrightarrow> p_rpos p = p_wpos p"

definition pipe_full :: "Pipe \<Rightarrow> bool" where
  "pipe_full p \<longleftrightarrow> p_wpos p \<ge> p_rpos p + 32"

section \<open>Reading and writing\<close>

text \<open>Where a reader is: at the test of the loop, in \<^verbatim>\<open>_pipeisclosed\<close>, before and after it has copied a
  byte, or done with a result.\<close>

datatype rd_pc = Rd_Test | Rd_Closed | Rd_Take | Rd_Next | Rd_Ret u32

record reader =
  rd_pc :: rd_pc
  rd_i :: u32
  rd_n :: u32
  rd_buf :: "u8 list"

text \<open>One step of \<open>devpipe_read\<close>; \<open>closed\<close> is the answer of \<^verbatim>\<open>_pipeisclosed\<close> when it is asked.\<close>

definition devpipe_read_step :: "bool \<Rightarrow> Pipe \<Rightarrow> reader \<Rightarrow> reader \<times> Pipe" where
  "devpipe_read_step closed p r = (case rd_pc r of
     Rd_Test \<Rightarrow>
       (if rd_i r < rd_n r
        then if pipe_empty p
             then if rd_i r > 0 then (r\<lparr>rd_pc := Rd_Ret (rd_i r)\<rparr>, p) else (r\<lparr>rd_pc := Rd_Closed\<rparr>, p)
             else (r\<lparr>rd_pc := Rd_Take\<rparr>, p)
        else (r\<lparr>rd_pc := Rd_Ret (rd_i r)\<rparr>, p))
   | Rd_Closed \<Rightarrow> (r\<lparr>rd_pc := (if closed then Rd_Ret 0 else Rd_Test)\<rparr>, p)
   | Rd_Take \<Rightarrow> (r\<lparr>rd_pc := Rd_Next, rd_buf := rd_buf r @ [p_buf p (pipe_index (p_rpos p))]\<rparr>, p)
   | Rd_Next \<Rightarrow> (r\<lparr>rd_pc := Rd_Test, rd_i := rd_i r + 1\<rparr>, p\<lparr>p_rpos := p_rpos p + 1\<rparr>)
   | Rd_Ret v \<Rightarrow> (r, p))"

datatype wr_pc = Wr_Test | Wr_Closed | Wr_Store | Wr_Next | Wr_Ret u32

record writer =
  wr_pc :: wr_pc
  wr_i :: u32
  wr_data :: "u8 list"

definition devpipe_write_step :: "bool \<Rightarrow> Pipe \<Rightarrow> writer \<Rightarrow> writer \<times> Pipe" where
  "devpipe_write_step closed p w = (case wr_pc w of
     Wr_Test \<Rightarrow>
       (if wr_i w < of_nat (length (wr_data w))
        then if pipe_full p then (w\<lparr>wr_pc := Wr_Closed\<rparr>, p) else (w\<lparr>wr_pc := Wr_Store\<rparr>, p)
        else (w\<lparr>wr_pc := Wr_Ret (wr_i w)\<rparr>, p))
   | Wr_Closed \<Rightarrow> (w\<lparr>wr_pc := (if closed then Wr_Ret 0 else Wr_Test)\<rparr>, p)
   | Wr_Store \<Rightarrow> (w\<lparr>wr_pc := Wr_Next\<rparr>, p\<lparr>p_buf := (p_buf p)(pipe_index (p_wpos p) := wr_data w ! unat (wr_i w))\<rparr>)
   | Wr_Next \<Rightarrow> (w\<lparr>wr_pc := Wr_Test, wr_i := wr_i w + 1\<rparr>, p\<lparr>p_wpos := p_wpos p + 1\<rparr>)
   | Wr_Ret v \<Rightarrow> (w, p))"

text \<open>\<^verbatim>\<open>devpipe_stat\<close>: name, size and type.\<close>

definition devpipe_stat :: "Pipe \<Rightarrow> string \<times> u32 \<times> bool" where
  "devpipe_stat p = (''<pipe>'', p_wpos p - p_rpos p, False)"

text \<open>A reader and a writer of one pipe; \<open>got\<close> and \<open>sent\<close> are the bytes of the calls that have returned.\<close>

record pipe_sys =
  pp :: Pipe
  rd :: reader
  wr :: writer
  got :: "u8 list"
  sent :: "u8 list"

inductive pipe_step :: "pipe_sys \<Rightarrow> pipe_sys \<Rightarrow> bool" where
  read_step: "devpipe_read_step closed (pp s) (rd s) = (r, p) \<Longrightarrow> pipe_step s (s\<lparr>rd := r, pp := p\<rparr>)"
| write_step: "devpipe_write_step closed (pp s) (wr s) = (w, p) \<Longrightarrow> pipe_step s (s\<lparr>wr := w, pp := p\<rparr>)"
| read_call: "rd_pc (rd s) = Rd_Ret v \<Longrightarrow>
    pipe_step s (s\<lparr>got := got s @ rd_buf (rd s), rd := \<lparr>rd_pc = Rd_Test, rd_i = 0, rd_n = n, rd_buf = []\<rparr>\<rparr>)"
| write_call: "wr_pc (wr s) = Wr_Ret v \<Longrightarrow> length bs < 4294967296 \<Longrightarrow>
    pipe_step s (s\<lparr>sent := sent s @ take (unat (wr_i (wr s))) (wr_data (wr s)),
                   wr := \<lparr>wr_pc = Wr_Test, wr_i = 0, wr_data = bs\<rparr>\<rparr>)"

definition pipe_init :: pipe_sys where
  "pipe_init = \<lparr>pp = \<lparr>p_rpos = 0, p_wpos = 0, p_buf = (\<lambda>_. 0)\<rparr>,
     rd = \<lparr>rd_pc = Rd_Ret 0, rd_i = 0, rd_n = 0, rd_buf = []\<rparr>,
     wr = \<lparr>wr_pc = Wr_Ret 0, wr_i = 0, wr_data = []\<rparr>, got = [], sent = []\<rparr>"

text \<open>All bytes the writer has put in, and all bytes the reader has taken out.\<close>

definition accepted :: "pipe_sys \<Rightarrow> u8 list" where
  "accepted s = sent s @ take (unat (wr_i (wr s))) (wr_data (wr s))"

definition delivered :: "pipe_sys \<Rightarrow> u8 list" where
  "delivered s = got s @ take (unat (rd_i (rd s))) (rd_buf (rd s))"

section \<open>The buffer as a queue\<close>

definition pipe_ok :: "Pipe \<Rightarrow> bool" where
  "pipe_ok p \<longleftrightarrow> unat (p_rpos p) \<le> unat (p_wpos p) \<and> unat (p_wpos p) \<le> unat (p_rpos p) + 32 \<and>
     unat (p_wpos p) < 2147483616"

definition pipe_contents :: "Pipe \<Rightarrow> u8 list" where
  "pipe_contents p = map (\<lambda>k. p_buf p (int k mod 32)) [unat (p_rpos p)..<unat (p_wpos p)]"

definition pipe_put :: "u8 \<Rightarrow> Pipe \<Rightarrow> Pipe" where
  "pipe_put b p = p\<lparr>p_buf := (p_buf p)(pipe_index (p_wpos p) := b), p_wpos := p_wpos p + 1\<rparr>"

definition pipe_take :: "Pipe \<Rightarrow> (u8 \<times> Pipe) option" where
  "pipe_take p = (if pipe_empty p then None
     else Some (p_buf p (pipe_index (p_rpos p)), p\<lparr>p_rpos := p_rpos p + 1\<rparr>))"

definition pipe_room :: "Pipe \<Rightarrow> bool" where
  "pipe_room p \<longleftrightarrow> \<not> pipe_full p \<and> unat (p_wpos p) < 2147483615"

lemma unat_Suc: "unat w < 4294967295 \<Longrightarrow> unat (w + 1 :: u32) = Suc (unat w)"
  by (simp add: unat_word_ariths)

lemma pipe_index_nat: "unat w < 2147483648 \<Longrightarrow> pipe_index w = int (unat w) mod 32"
proof -
  assume a: "unat w < 2147483648"
  have "sint (of_nat n :: u32) = int n" if "n < 2147483648" for n
    using that by (simp add: signed_of_nat signed_take_bit_int_eq_self)
  from this [OF a] have "sint w = int (unat w)" by simp
  then show ?thesis by (simp add: pipe_index_def)
qed

lemma pipe_full_iff: "pipe_ok p \<Longrightarrow> pipe_full p \<longleftrightarrow> unat (p_wpos p) = unat (p_rpos p) + 32"
  unfolding pipe_ok_def pipe_full_def word_le_nat_alt by (auto simp: unat_word_ariths)

lemma pipe_empty_iff: "pipe_empty p \<longleftrightarrow> unat (p_rpos p) = unat (p_wpos p)"
  by (simp add: pipe_empty_def word_unat_eq_iff)

lemma ring_slot_apart: "r \<le> k \<Longrightarrow> k < w \<Longrightarrow> w < r + 32 \<Longrightarrow> int k mod 32 \<noteq> int w mod 32"
proof
  assume a: "r \<le> k" "k < w" "w < r + 32" and e: "int k mod 32 = int w mod 32"
  then have "(int w - int k) mod 32 = 0" by (simp add: mod_eq_dvd_iff [symmetric])
  moreover have "0 < int w - int k" "int w - int k < 32" using a by simp_all
  ultimately show False by simp
qed

lemma contents_store:
  assumes "pipe_ok p" and "\<not> pipe_full p"
  shows "pipe_contents (p\<lparr>p_buf := (p_buf p)(pipe_index (p_wpos p) := b)\<rparr>) = pipe_contents p"
proof -
  have w: "unat (p_wpos p) < unat (p_rpos p) + 32" "unat (p_wpos p) < 2147483648"
    using assms pipe_full_iff [OF assms(1)] by (auto simp: pipe_ok_def)
  show ?thesis
    using ring_slot_apart [OF _ _ w(1)] by (auto simp: pipe_contents_def pipe_index_nat [OF w(2)])
qed

lemma contents_wpos:
  assumes "pipe_ok p"
  shows "pipe_contents (p\<lparr>p_wpos := p_wpos p + 1\<rparr>) = pipe_contents p @ [p_buf p (pipe_index (p_wpos p))]"
  using assms pipe_index_nat [of "p_wpos p"] unat_Suc [of "p_wpos p"] by (simp add: pipe_contents_def pipe_ok_def)

lemma contents_rpos:
  assumes "pipe_ok p" and "\<not> pipe_empty p"
  shows "pipe_contents p = p_buf p (pipe_index (p_rpos p)) # pipe_contents (p\<lparr>p_rpos := p_rpos p + 1\<rparr>)"
proof -
  have r: "unat (p_rpos p) < unat (p_wpos p)" "unat (p_rpos p) < 2147483648"
    using assms by (auto simp: pipe_ok_def pipe_empty_iff)
  show ?thesis
    using r unat_Suc [of "p_rpos p"] pipe_index_nat [OF r(2)] by (simp add: pipe_contents_def upt_conv_Cons)
qed

lemma pipe_ok_wpos:
  "pipe_ok p \<Longrightarrow> \<not> pipe_full p \<Longrightarrow> unat (p_wpos p) < 2147483615 \<Longrightarrow> pipe_ok (p\<lparr>p_wpos := p_wpos p + 1\<rparr>)"
  using pipe_full_iff [of p] unat_Suc [of "p_wpos p"] by (auto simp: pipe_ok_def)

lemma pipe_ok_rpos: "pipe_ok p \<Longrightarrow> \<not> pipe_empty p \<Longrightarrow> pipe_ok (p\<lparr>p_rpos := p_rpos p + 1\<rparr>)"
  using pipe_empty_iff [of p] unat_Suc [of "p_rpos p"] by (auto simp: pipe_ok_def)

interpretation pipe_fifo: byte_fifo pipe_ok pipe_contents pipe_room pipe_put pipe_take
proof
  fix q q' :: Pipe and b :: u8
  assume ok: "pipe_ok q"
  let ?q = "q\<lparr>p_buf := (p_buf q)(pipe_index (p_wpos q) := b)\<rparr>"
  have put: "pipe_put b q = ?q\<lparr>p_wpos := p_wpos ?q + 1\<rparr>" by (simp add: pipe_put_def)
  have okq: "pipe_ok ?q" "pipe_full ?q = pipe_full q" using ok by (simp_all add: pipe_ok_def pipe_full_def)
  show "pipe_ok (pipe_put b q)" if "pipe_room q"
    using pipe_ok_wpos [OF okq(1)] that unfolding put by (simp add: pipe_room_def pipe_full_def)
  show "pipe_contents (pipe_put b q) = pipe_contents q @ [b]" if "pipe_room q"
    using contents_wpos [OF okq(1)] contents_store [OF ok, of b] that unfolding put by (simp add: pipe_room_def)
  show "pipe_take q = None \<longleftrightarrow> pipe_contents q = []"
    using ok by (auto simp: pipe_take_def pipe_contents_def pipe_empty_iff pipe_ok_def)
  show "pipe_ok q' \<and> pipe_contents q = b # pipe_contents q'" if "pipe_take q = Some (b, q')"
    using that contents_rpos [OF ok] pipe_ok_rpos [OF ok] by (auto simp: pipe_take_def split: if_splits)
qed

section \<open>The invariant of the two loops\<close>

definition reader_inv :: "Pipe \<Rightarrow> reader \<Rightarrow> bool" where
  "reader_inv p r \<longleftrightarrow> (rd_pc r \<in> {Rd_Take, Rd_Next} \<longrightarrow> \<not> pipe_empty p \<and> rd_i r < rd_n r) \<and>
     length (rd_buf r) = unat (rd_i r) + (if rd_pc r = Rd_Next then 1 else 0) \<and>
     (rd_pc r = Rd_Next \<longrightarrow> rd_buf r ! unat (rd_i r) = p_buf p (pipe_index (p_rpos p)))"

definition writer_inv :: "Pipe \<Rightarrow> writer \<Rightarrow> bool" where
  "writer_inv p w \<longleftrightarrow> (wr_pc w \<in> {Wr_Store, Wr_Next} \<longrightarrow> \<not> pipe_full p \<and> unat (wr_i w) < length (wr_data w)) \<and>
     unat (wr_i w) \<le> length (wr_data w) \<and> length (wr_data w) < 4294967296 \<and>
     (wr_pc w = Wr_Next \<longrightarrow> p_buf p (pipe_index (p_wpos p)) = wr_data w ! unat (wr_i w))"

definition pipe_inv :: "pipe_sys \<Rightarrow> bool" where
  "pipe_inv s \<longleftrightarrow> pipe_ok (pp s) \<and> reader_inv (pp s) (rd s) \<and> writer_inv (pp s) (wr s) \<and>
     accepted s = delivered s @ pipe_contents (pp s) \<and> length (delivered s) = unat (p_rpos (pp s))"

lemma length_contents: "pipe_ok p \<Longrightarrow> length (pipe_contents p) = unat (p_wpos p) - unat (p_rpos p)"
  by (simp add: pipe_contents_def)

lemma pipe_inv_wpos: "pipe_inv s \<Longrightarrow> unat (p_wpos (pp s)) = length (accepted s)"
  using length_contents [of "pp s"] by (simp add: pipe_inv_def pipe_ok_def)

lemma u32_less_Suc: "i < n \<Longrightarrow> unat (i + 1 :: u32) = Suc (unat i)" for i n :: u32
  using unat_Suc [of i] unat_lt32 [of n] by (simp add: word_less_nat_alt)

lemma reader_step_inv:
  assumes i: "pipe_inv s" and e: "devpipe_read_step closed (pp s) (rd s) = (r, p)"
  shows "pipe_inv (s\<lparr>rd := r, pp := p\<rparr>)"
proof (cases "rd_pc (rd s)")
  case Rd_Next
  have I: "pipe_ok (pp s)" "\<not> pipe_empty (pp s)" "rd_i (rd s) < rd_n (rd s)"
    "length (rd_buf (rd s)) = Suc (unat (rd_i (rd s)))"
    "rd_buf (rd s) ! unat (rd_i (rd s)) = p_buf (pp s) (pipe_index (p_rpos (pp s)))" "writer_inv (pp s) (wr s)"
    "accepted s = delivered s @ pipe_contents (pp s)" "length (delivered s) = unat (p_rpos (pp s))"
    using i Rd_Next by (auto simp: pipe_inv_def reader_inv_def)
  have rp: "r = (rd s)\<lparr>rd_pc := Rd_Test, rd_i := rd_i (rd s) + 1\<rparr>" "p = (pp s)\<lparr>p_rpos := p_rpos (pp s) + 1\<rparr>"
    using e Rd_Next by (simp_all add: devpipe_read_step_def)
  have ri: "unat (rd_i (rd s) + 1) = Suc (unat (rd_i (rd s)))" by (rule u32_less_Suc [OF I(3)])
  have rw: "unat (p_rpos (pp s) + 1) = Suc (unat (p_rpos (pp s)))"
    using I(1,2) by (intro unat_Suc) (auto simp: pipe_ok_def pipe_empty_iff)
  have del: "delivered (s\<lparr>rd := r, pp := p\<rparr>) = delivered s @ [p_buf (pp s) (pipe_index (p_rpos (pp s)))]"
    using I(4,5) take_Suc_conv_app_nth [of "unat (rd_i (rd s))" "rd_buf (rd s)"] by (simp add: delivered_def rp(1) ri)
  have wi: "writer_inv p (wr s)"
  proof -
    have "\<not> pipe_full p" if "\<not> pipe_full (pp s)"
      using that pipe_full_iff [OF I(1)] pipe_full_iff [OF pipe_ok_rpos [OF I(1,2)]] I(1) rw
      by (simp add: rp(2) pipe_ok_def)
    then show ?thesis using I(6) by (auto simp: writer_inv_def rp(2))
  qed
  show ?thesis
    using I(1,2,4,7,8) pipe_ok_rpos [OF I(1,2)] contents_rpos [OF I(1,2)] del wi rw ri
    by (simp add: pipe_inv_def reader_inv_def accepted_def) (simp add: rp)
next
  case Rd_Test
  then show ?thesis
    using i e by (auto simp: devpipe_read_step_def pipe_inv_def reader_inv_def accepted_def delivered_def split: if_splits)
next
  case Rd_Take
  then show ?thesis
    using i e by (auto simp: devpipe_read_step_def pipe_inv_def reader_inv_def accepted_def delivered_def nth_append)
qed (use i e in \<open>auto simp: devpipe_read_step_def pipe_inv_def reader_inv_def accepted_def delivered_def split: if_splits\<close>)

lemma writer_step_inv:
  assumes i: "pipe_inv s" and e: "devpipe_write_step closed (pp s) (wr s) = (w, p)"
    and b: "length (accepted (s\<lparr>wr := w, pp := p\<rparr>)) < 2147483616"
  shows "pipe_inv (s\<lparr>wr := w, pp := p\<rparr>)"
proof (cases "wr_pc (wr s)")
  case Wr_Test
  have l: "wr_i (wr s) < of_nat (length (wr_data (wr s))) \<longleftrightarrow> unat (wr_i (wr s)) < length (wr_data (wr s))"
    using i by (simp add: pipe_inv_def writer_inv_def word_less_nat_alt unat_of_nat32)
  then show ?thesis
    using Wr_Test i e
    by (auto simp: devpipe_write_step_def pipe_inv_def writer_inv_def accepted_def delivered_def split: if_splits)
next
  case Wr_Store
  have I: "pipe_ok (pp s)" "\<not> pipe_full (pp s)" "reader_inv (pp s) (rd s)" using i Wr_Store
    by (auto simp: pipe_inv_def writer_inv_def)
  have wp: "w = (wr s)\<lparr>wr_pc := Wr_Next\<rparr>"
    "p = (pp s)\<lparr>p_buf := (p_buf (pp s))(pipe_index (p_wpos (pp s)) := wr_data (wr s) ! unat (wr_i (wr s)))\<rparr>"
    using e Wr_Store by (simp_all add: devpipe_write_step_def)
  have "pipe_index (p_rpos (pp s)) \<noteq> pipe_index (p_wpos (pp s))" if "\<not> pipe_empty (pp s)"
    using that I(1,2) ring_slot_apart [of "unat (p_rpos (pp s))" "unat (p_rpos (pp s))" "unat (p_wpos (pp s))"]
      pipe_full_iff [OF I(1)] pipe_index_nat [of "p_rpos (pp s)"] pipe_index_nat [of "p_wpos (pp s)"]
    by (simp add: pipe_ok_def pipe_empty_iff)
  then have "reader_inv p (rd s)" using I(3) by (auto simp: reader_inv_def wp(2) pipe_empty_def)
  then show ?thesis
    using i contents_store [OF I(1,2)] Wr_Store
    by (auto simp: pipe_inv_def writer_inv_def accepted_def delivered_def wp pipe_ok_def pipe_full_def)
next
  case Wr_Next
  have I: "pipe_ok (pp s)" "\<not> pipe_full (pp s)" "unat (wr_i (wr s)) < length (wr_data (wr s))"
    "length (wr_data (wr s)) < 4294967296"
    "p_buf (pp s) (pipe_index (p_wpos (pp s))) = wr_data (wr s) ! unat (wr_i (wr s))" "reader_inv (pp s) (rd s)"
    "accepted s = delivered s @ pipe_contents (pp s)" "length (delivered s) = unat (p_rpos (pp s))"
    using i Wr_Next by (auto simp: pipe_inv_def writer_inv_def)
  have wp: "w = (wr s)\<lparr>wr_pc := Wr_Test, wr_i := wr_i (wr s) + 1\<rparr>" "p = (pp s)\<lparr>p_wpos := p_wpos (pp s) + 1\<rparr>"
    using e Wr_Next by (simp_all add: devpipe_write_step_def)
  have wi: "unat (wr_i (wr s) + 1) = Suc (unat (wr_i (wr s)))" using I(3,4) by (intro unat_Suc) simp
  have acc: "accepted (s\<lparr>wr := w, pp := p\<rparr>) = accepted s @ [wr_data (wr s) ! unat (wr_i (wr s))]"
    using I(3) by (simp add: accepted_def wp(1) wi take_Suc_conv_app_nth)
  then have lt: "unat (p_wpos (pp s)) < 2147483615" using b pipe_inv_wpos [OF i] by simp
  note ok = pipe_ok_wpos [OF I(1,2) lt]
  have "\<not> pipe_empty p" using I(1) unat_Suc [of "p_wpos (pp s)"] lt by (simp add: pipe_empty_iff wp(2) pipe_ok_def)
  then have "reader_inv p (rd s)" using I(6) by (auto simp: reader_inv_def wp(2))
  then show ?thesis
    using ok acc I contents_wpos [OF I(1)] wi by (simp add: pipe_inv_def writer_inv_def delivered_def wp)
qed (use i e in \<open>auto simp: devpipe_write_step_def pipe_inv_def writer_inv_def accepted_def delivered_def split: if_splits\<close>)

lemma call_inv:
  "pipe_inv s \<Longrightarrow> rd_pc (rd s) = Rd_Ret v \<Longrightarrow>
     pipe_inv (s\<lparr>got := got s @ rd_buf (rd s), rd := \<lparr>rd_pc = Rd_Test, rd_i = 0, rd_n = n, rd_buf = []\<rparr>\<rparr>)"
  "pipe_inv s \<Longrightarrow> wr_pc (wr s) = Wr_Ret v \<Longrightarrow> length bs < 4294967296 \<Longrightarrow>
     pipe_inv (s\<lparr>sent := sent s @ take (unat (wr_i (wr s))) (wr_data (wr s)),
                   wr := \<lparr>wr_pc = Wr_Test, wr_i = 0, wr_data = bs\<rparr>\<rparr>)"
  by (auto simp: pipe_inv_def reader_inv_def writer_inv_def accepted_def delivered_def)

text \<open>The writer's index never runs past its data, and what has been accepted only grows.\<close>

definition writer_idx :: "writer \<Rightarrow> bool" where
  "writer_idx w \<longleftrightarrow> (wr_pc w \<in> {Wr_Store, Wr_Next} \<longrightarrow> unat (wr_i w) < length (wr_data w)) \<and>
     unat (wr_i w) \<le> length (wr_data w) \<and> length (wr_data w) < 4294967296"

lemma writer_idx_step: "pipe_step s t \<Longrightarrow> writer_idx (wr s) \<Longrightarrow> writer_idx (wr t) \<and> length (accepted s) \<le> length (accepted t)"
proof (induction rule: pipe_step.induct)
  case (write_step closed s w p)
  have "unat (wr_i (wr s)) < length (wr_data (wr s)) \<Longrightarrow> unat (wr_i (wr s) + 1) = Suc (unat (wr_i (wr s)))"
    using write_step.prems by (intro unat_Suc) (auto simp: writer_idx_def)
  moreover have "wr_i (wr s) < of_nat (length (wr_data (wr s))) \<longleftrightarrow> unat (wr_i (wr s)) < length (wr_data (wr s))"
    using write_step.prems by (simp add: writer_idx_def word_less_nat_alt unat_of_nat32)
  ultimately show ?case
    using write_step by (auto simp: devpipe_write_step_def accepted_def writer_idx_def split: wr_pc.splits if_splits)
qed (auto simp: accepted_def writer_idx_def)

lemma writer_idx_reachable: "pipe_step\<^sup>*\<^sup>* pipe_init s \<Longrightarrow> writer_idx (wr s)"
proof (induction rule: rtranclp_induct)
  case base
  show ?case by (simp add: pipe_init_def writer_idx_def)
qed (use writer_idx_step in blast)

lemma pipe_inv_reachable:
  assumes "pipe_step\<^sup>*\<^sup>* pipe_init s" and "length (accepted s) < 2147483616"
  shows "pipe_inv s"
  using assms
proof (induction rule: rtranclp_induct)
  case base
  show ?case by (simp add: pipe_inv_def pipe_init_def reader_inv_def writer_inv_def pipe_ok_def accepted_def
        delivered_def pipe_contents_def)
next
  case (step s t)
  have "length (accepted s) \<le> length (accepted t)"
    using writer_idx_step [OF step.hyps(2) writer_idx_reachable [OF step.hyps(1)]] by simp
  then have i: "pipe_inv s" using step.IH step.prems by simp
  from step.hyps(2) show ?case
  proof cases
    case (read_step closed r p)
    then show ?thesis using reader_step_inv [OF i] by blast
  next
    case (write_step closed w p)
    then show ?thesis using writer_step_inv [OF i] step.prems by blast
  next
    case (read_call v n)
    then show ?thesis using call_inv(1) [OF i] by blast
  next
    case (write_call v bs)
    then show ?thesis using call_inv(2) [OF i] by blast
  qed
qed

text \<open>(C24) A pipe is a queue, under every interleaving of the memory accesses of its reader and its writer and
  over any number of calls: what the reader has taken out is the beginning of what the writer has put
  in, at most 32 bytes are under way and they are the ones in the buffer, and a byte is never
  overwritten before it is read. The positions must not have reached the sign bit.\<close>

theorem pipe_fifo_interleaved:
  assumes "pipe_step\<^sup>*\<^sup>* pipe_init s" and "length (accepted s) < 2147483616"
  shows "accepted s = delivered s @ pipe_contents (pp s) \<and> length (pipe_contents (pp s)) \<le> 32 \<and>
    length (accepted s) = unat (p_wpos (pp s)) \<and> length (delivered s) = unat (p_rpos (pp s))"
proof -
  note i = pipe_inv_reachable [OF assms]
  then have "pipe_ok (pp s)" by (simp add: pipe_inv_def)
  then show ?thesis using i pipe_inv_wpos [OF i] length_contents [of "pp s"] by (simp add: pipe_inv_def pipe_ok_def)
qed

theorem pipe_fifo_interleaved_witness:
  "\<exists>s. pipe_step\<^sup>*\<^sup>* pipe_init s \<and> accepted s = [7] \<and> delivered s = [] \<and> pipe_contents (pp s) = [7]"
proof -
  define w where "w = (\<lambda>c i. pipe_init\<lparr>wr := \<lparr>wr_pc = c, wr_i = i, wr_data = [7]\<rparr>\<rparr>)"
  define p where "p = (pp pipe_init)\<lparr>p_buf := (\<lambda>_. 0)(0 := 7)\<rparr>"
  have 1: "pipe_step pipe_init (w Wr_Test 0)"
    using pipe_step.write_call [of pipe_init 0 "[7]"] by (simp add: pipe_init_def w_def)
  have 2: "pipe_step (w Wr_Test 0) (w Wr_Store 0)"
    using pipe_step.write_step [of False "w Wr_Test 0"]
    by (simp add: devpipe_write_step_def w_def pipe_init_def pipe_full_def)
  have 3: "pipe_step (w Wr_Store 0) ((w Wr_Next 0)\<lparr>pp := p\<rparr>)"
    using pipe_step.write_step [of False "w Wr_Store 0"]
    by (simp add: devpipe_write_step_def w_def pipe_init_def p_def pipe_index_def)
  have 4: "pipe_step ((w Wr_Next 0)\<lparr>pp := p\<rparr>) ((w Wr_Test 1)\<lparr>pp := p\<lparr>p_wpos := 1\<rparr>\<rparr>)"
    using pipe_step.write_step [of False "(w Wr_Next 0)\<lparr>pp := p\<rparr>"]
    by (simp add: devpipe_write_step_def w_def pipe_init_def p_def)
  let ?s = "(w Wr_Test 1)\<lparr>pp := p\<lparr>p_wpos := 1\<rparr>\<rparr>"
  have r: "pipe_step\<^sup>*\<^sup>* pipe_init ?s" using 1 2 3 4 by (meson converse_rtranclp_into_rtranclp r_into_rtranclp)
  have a: "accepted ?s = [7]" "delivered ?s = []" by (simp_all add: accepted_def delivered_def w_def pipe_init_def)
  then have "pipe_contents (pp ?s) = [7]" using pipe_fifo_interleaved [OF r] by simp
  with r a show ?thesis by blast
qed

section \<open>Is the other end closed?\<close>

text \<open>The reference counts that \<^verbatim>\<open>_pipeisclosed\<close> reads: \<open>r_mine\<close> of the page of its own descriptor, \<open>r_pipe\<close> of the
  pipe page; \<open>r_other\<close> is the count of the descriptor page of the other end. \<open>pending\<close> counts operations
  half-way: \<open>devpipe_close\<close> unmaps the descriptor before the pipe, \<open>dup\<close> maps the pipe before
  the descriptor, so that in between the pipe page has one reference more.\<close>

record pipe_refs =
  r_mine :: nat
  r_other :: nat
  r_pipe :: nat
  pending :: nat

inductive ref_step :: "pipe_refs \<Rightarrow> pipe_refs \<Rightarrow> bool" where
  close_mine_fd: "r_mine s > 1 \<Longrightarrow> ref_step s (s\<lparr>r_mine := r_mine s - 1, pending := pending s + 1\<rparr>)"
| close_other_fd: "r_other s > 0 \<Longrightarrow> ref_step s (s\<lparr>r_other := r_other s - 1, pending := pending s + 1\<rparr>)"
| close_data: "pending s > 0 \<Longrightarrow> ref_step s (s\<lparr>r_pipe := r_pipe s - 1, pending := pending s - 1\<rparr>)"
| dup_data: "ref_step s (s\<lparr>r_pipe := r_pipe s + 1, pending := pending s + 1\<rparr>)"
| dup_mine_fd: "pending s > 0 \<Longrightarrow> ref_step s (s\<lparr>r_mine := r_mine s + 1, pending := pending s - 1\<rparr>)"
| dup_other_fd: "pending s > 0 \<Longrightarrow> r_other s > 0 \<Longrightarrow>
    ref_step s (s\<lparr>r_other := r_other s + 1, pending := pending s - 1\<rparr>)"

text \<open>The loop of \<^verbatim>\<open>_pipeisclosed\<close>: read \<^verbatim>\<open>env_runs\<close>, the two counts, and \<^verbatim>\<open>env_runs\<close> again.\<close>

datatype chk = Chk_Start | Chk_Fd nat | Chk_Pipe nat nat | Chk_Again nat bool | Chk_Done bool

definition pipeisclosed_step :: "nat \<Rightarrow> pipe_refs \<Rightarrow> chk \<Rightarrow> chk" where
  "pipeisclosed_step runs s c = (case c of
     Chk_Start \<Rightarrow> Chk_Fd runs
   | Chk_Fd n \<Rightarrow> Chk_Pipe n (r_mine s)
   | Chk_Pipe n fd \<Rightarrow> Chk_Again n (fd = r_pipe s)
   | Chk_Again n ret \<Rightarrow> if n = runs then Chk_Done ret else Chk_Start
   | Chk_Done ret \<Rightarrow> Chk_Done ret)"

record chk_sys =
  refs :: pipe_refs
  env_runs :: nat
  chk :: chk

text \<open>With one processor another environment can only run while this one does not, and \<^verbatim>\<open>env_runs\<close> has
  grown when this one runs again. With more processors (\<open>smp\<close>) they run at the same time.\<close>

inductive chk_step :: "bool \<Rightarrow> chk_sys \<Rightarrow> chk_sys \<Rightarrow> bool" for smp where
  check: "chk_step smp s (s\<lparr>chk := pipeisclosed_step (env_runs s) (refs s) (chk s)\<rparr>)"
| preempted: "ref_step\<^sup>*\<^sup>* (refs s) r \<Longrightarrow> chk_step smp s (s\<lparr>refs := r, env_runs := Suc (env_runs s)\<rparr>)"
| parallel: "smp \<Longrightarrow> ref_step (refs s) r \<Longrightarrow> chk_step smp s (s\<lparr>refs := r\<rparr>)"

inductive_cases chk_stepE: "chk_step smp s t"

definition chk_init :: "nat \<Rightarrow> nat \<Rightarrow> chk_sys" where
  "chk_init m k = \<lparr>refs = \<lparr>r_mine = m, r_other = k, r_pipe = m + k, pending = 0\<rparr>, env_runs = 1, chk = Chk_Start\<rparr>"

definition refs_ok :: "pipe_refs \<Rightarrow> bool" where
  "refs_ok s \<longleftrightarrow> r_mine s > 0 \<and> r_pipe s = r_mine s + r_other s + pending s"

lemma ref_step_ok: "ref_step s t \<Longrightarrow> refs_ok s \<Longrightarrow> refs_ok t \<and> (r_other s = 0 \<longrightarrow> r_other t = 0)"
  by (induction rule: ref_step.induct) (auto simp: refs_ok_def)

lemma ref_steps_ok: "ref_step\<^sup>*\<^sup>* s t \<Longrightarrow> refs_ok s \<Longrightarrow> refs_ok t \<and> (r_other s = 0 \<longrightarrow> r_other t = 0)"
  by (induction rule: rtranclp_induct) (use ref_step_ok in blast)+

definition chk_inv :: "chk_sys \<Rightarrow> bool" where
  "chk_inv s \<longleftrightarrow> refs_ok (refs s) \<and> (case chk s of
     Chk_Start \<Rightarrow> True
   | Chk_Fd n \<Rightarrow> n \<le> env_runs s
   | Chk_Pipe n fd \<Rightarrow> n \<le> env_runs s \<and> (n = env_runs s \<longrightarrow> fd = r_mine (refs s))
   | Chk_Again n ret \<Rightarrow> n \<le> env_runs s \<and> (n = env_runs s \<and> ret \<longrightarrow> r_other (refs s) = 0)
   | Chk_Done ret \<Rightarrow> ret \<longrightarrow> r_other (refs s) = 0)"

lemma chk_inv_step: "chk_step False s t \<Longrightarrow> chk_inv s \<Longrightarrow> chk_inv t"
proof (induction rule: chk_step.induct)
  case (check s)
  then show ?case by (auto simp: chk_inv_def pipeisclosed_step_def refs_ok_def split: chk.splits)
next
  case (preempted s r)
  then show ?case using ref_steps_ok [OF preempted.hyps] by (auto simp: chk_inv_def split: chk.splits)
qed simp

lemma chk_inv_reachable: "(chk_step False)\<^sup>*\<^sup>* (chk_init m k) s \<Longrightarrow> 0 < m \<Longrightarrow> chk_inv s"
proof (induction rule: rtranclp_induct)
  case base
  then show ?case by (simp add: chk_inv_def chk_init_def refs_ok_def)
qed (use chk_inv_step in blast)



text \<open>On several processors it can be wrong: while it reads the two counts, another environment closes its
  copy of the same end on another processor, \<^verbatim>\<open>env_runs\<close> does not change, and the reader is told that the
  pipe is closed although a writer is there.\<close>

theorem pipeisclosed_race:
  "\<exists>s. (chk_step True)\<^sup>*\<^sup>* (chk_init 2 1) s \<and> chk s = Chk_Done True \<and> r_other (refs s) = 1"
proof -
  let ?s = "\<lambda>m p k c. \<lparr>refs = \<lparr>r_mine = m, r_other = 1, r_pipe = p, pending = k\<rparr>, env_runs = 1, chk = c\<rparr>"
  have c: "chk_step True (?s m p k c) (?s m p k (pipeisclosed_step 1 \<lparr>r_mine = m, r_other = 1, r_pipe = p, pending = k\<rparr> c))"
    for m p k c using chk_step.check [of True "?s m p k c"] by simp
  have 1: "chk_step True (chk_init 2 1) (?s 2 3 0 (Chk_Fd 1))"
    using c [of 2 3 0 Chk_Start] by (simp add: chk_init_def pipeisclosed_step_def)
  have 2: "chk_step True (?s 2 3 0 (Chk_Fd 1)) (?s 2 3 0 (Chk_Pipe 1 2))"
    using c [of 2 3 0 "Chk_Fd 1"] by (simp add: pipeisclosed_step_def)
  have 3: "chk_step True (?s 2 3 0 (Chk_Pipe 1 2)) (?s 1 3 1 (Chk_Pipe 1 2))"
    using chk_step.parallel [OF TrueI ref_step.close_mine_fd, of "?s 2 3 0 (Chk_Pipe 1 2)"] by simp
  have 4: "chk_step True (?s 1 3 1 (Chk_Pipe 1 2)) (?s 1 2 0 (Chk_Pipe 1 2))"
    using chk_step.parallel [OF TrueI ref_step.close_data, of "?s 1 3 1 (Chk_Pipe 1 2)"] by simp
  have 5: "chk_step True (?s 1 2 0 (Chk_Pipe 1 2)) (?s 1 2 0 (Chk_Again 1 True))"
    using c [of 1 2 0 "Chk_Pipe 1 2"] by (simp add: pipeisclosed_step_def)
  have 6: "chk_step True (?s 1 2 0 (Chk_Again 1 True)) (?s 1 2 0 (Chk_Done True))"
    using c [of 1 2 0 "Chk_Again 1 True"] by (simp add: pipeisclosed_step_def)
  have "(chk_step True)\<^sup>*\<^sup>* (chk_init 2 1) (?s 1 2 0 (Chk_Done True))"
    using 1 2 3 4 5 6 by (meson converse_rtranclp_into_rtranclp r_into_rtranclp)
  then show ?thesis by (intro exI [of _ "?s 1 2 0 (Chk_Done True)"]) simp
qed

end
