(* ===== verification/Kdebug.thy ===== *)
theory Kdebug
  imports Syscall_Safe
begin

text \<open>
  Debugging symbols, \<^verbatim>\<open>kern/kdebug.c\<close>. \<open>stab_binsearch\<close> searches a table in which only the
  entries of one type are ordered; it is a function of the table, with \<open>None\<close> for a page fault on an
  entry. \<open>debuginfo_eip\<close> looks an instruction address up in the kernel's table or in
  the table that a user program brings with it. Indices are C's \<^verbatim>\<open>int\<close>; tables are too small for
  them to overflow.
\<close>

section \<open>Definitions\<close>

record Stab =
  n_strx :: u32
  n_type :: u8
  n_other :: u8
  n_desc :: u16
  n_value :: u32

type_synonym stab_table = "int \<Rightarrow> Stab option"

text \<open>C's division by two, which rounds towards zero.\<close>

definition half :: "int \<Rightarrow> int" where
  "half k = (if k \<ge> 0 then k div 2 else - ((- k) div 2))"

lemma half_between: "l \<le> r \<Longrightarrow> l \<le> half (l + r) \<and> half (l + r) \<le> r"
  by (auto simp: half_def)

text \<open>The inner loop: the last entry of the type in \<open>[l, m]\<close>, or \<open>l - 1\<close>.\<close>

function earlier_stab :: "stab_table \<Rightarrow> u8 \<Rightarrow> int \<Rightarrow> int \<Rightarrow> int option" where
  "earlier_stab stabs type l m =
     (if m \<ge> l
      then case stabs m of
             None \<Rightarrow> None
           | Some st \<Rightarrow> if n_type st \<noteq> type then earlier_stab stabs type l (m - 1) else Some m
      else Some m)"
  by pat_completeness auto
termination by (relation "measure (\<lambda>(_, _, l, m). nat (m - l + 1))") auto

declare earlier_stab.simps [simp del]

lemma earlier_stab_Some:
  assumes "earlier_stab stabs type l m = Some k"
  shows "k \<le> m" and "l \<le> k \<Longrightarrow> \<exists>st. stabs k = Some st \<and> n_type st = type"
    and "k < i \<Longrightarrow> i \<le> m \<Longrightarrow> l \<le> i \<Longrightarrow> \<exists>st. stabs i = Some st \<and> n_type st \<noteq> type"
  using assms
proof (induction stabs type l m rule: earlier_stab.induct)
  case (1 stabs type l m)
  {
    case 1
    then show ?case using "1.IH"(1) by (subst (asm) earlier_stab.simps) (fastforce split: if_splits option.splits)
  next
    case 2
    then show ?case using "1.IH"(2) by (subst (asm) earlier_stab.simps) (auto split: if_splits option.splits)
  next
    case 3
    then show ?case using "1.IH"(3)
      by (subst (asm) earlier_stab.simps) (cases "i = m"; fastforce split: if_splits option.splits)
  }
qed

text \<open>The outer loop. It ends because an exact match either moves \<open>l\<close> up or is not exact any more when
  the address has been incremented.\<close>

definition exact_at :: "stab_table \<Rightarrow> u32 \<Rightarrow> int \<Rightarrow> nat" where
  "exact_at stabs addr l = (case stabs l of Some st \<Rightarrow> if n_value st = addr then 1 else 0 | None \<Rightarrow> 0)"

function stab_loop ::
  "stab_table \<Rightarrow> u8 \<Rightarrow> u32 \<Rightarrow> int \<Rightarrow> int \<Rightarrow> int \<Rightarrow> int \<Rightarrow> bool \<Rightarrow> (int \<times> int \<times> bool) option" where
  "stab_loop stabs type addr l r region_left region_right any_matches =
     (if l \<le> r
      then let true_m = half (l + r)
           in case earlier_stab stabs type l true_m of
                None \<Rightarrow> None
              | Some m \<Rightarrow>
                  if m < l then stab_loop stabs type addr (true_m + 1) r region_left region_right any_matches
                  else case stabs m of
                    None \<Rightarrow> None
                  | Some st \<Rightarrow>
                      if n_value st < addr
                      then stab_loop stabs type addr (true_m + 1) r m region_right True
                      else if n_value st > addr
                      then stab_loop stabs type addr l (m - 1) region_left (m - 1) True
                      else stab_loop stabs type (addr + 1) m r m region_right True
      else Some (region_left, region_right, any_matches))"
  by pat_completeness auto

termination
proof (relation "inv_image (less_than <*lex*> less_than)
    (\<lambda>(stabs, _, addr, l, r, _). (nat (r - l + 1), exact_at stabs addr l))", goal_cases)
  case (2 stabs type addr l r rl rr any true_m m)
  then show ?case using half_between [of l r] by simp
next
  case (3 stabs type addr l r rl rr any true_m m st)
  then show ?case using half_between [of l r] by simp
next
  case (4 stabs type addr l r rl rr any true_m m st)
  then show ?case using half_between [of l r] earlier_stab_Some(1) [of stabs type l true_m m] by simp
next
  case (5 stabs type addr l r rl rr any true_m m st)
  then have "l \<le> m" "m \<le> r" "n_value st = addr"
    using half_between [of l r] earlier_stab_Some(1) [of stabs type l true_m m] by auto
  then show ?case using 5 by (cases "l = m") (auto simp: exact_at_def)
qed auto

declare stab_loop.simps [simp del]

text \<open>The loop after the search: back from the right end of the region to an entry of the type.\<close>

function rightmost :: "stab_table \<Rightarrow> u8 \<Rightarrow> int \<Rightarrow> int \<Rightarrow> int option" where
  "rightmost stabs type region_left l =
     (if l > region_left
      then case stabs l of
             None \<Rightarrow> None
           | Some st \<Rightarrow> if n_type st \<noteq> type then rightmost stabs type region_left (l - 1) else Some l
      else Some l)"
  by pat_completeness auto
termination by (relation "measure (\<lambda>(_, _, rl, l). nat (l - rl))") auto

declare rightmost.simps [simp del]

definition stab_binsearch :: "stab_table \<Rightarrow> int \<Rightarrow> int \<Rightarrow> u8 \<Rightarrow> u32 \<Rightarrow> (int \<times> int) option" where
  "stab_binsearch stabs region_left region_right type addr =
     (case stab_loop stabs type addr region_left region_right region_left region_right False of
        None \<Rightarrow> None
      | Some (rl, rr, any_matches) \<Rightarrow>
          if \<not> any_matches then Some (rl, rl - 1)
          else case rightmost stabs type rl rr of None \<Rightarrow> None | Some l \<Rightarrow> Some (l, rr))"

subsection \<open>Looking up an instruction address\<close>

text \<open>Names are pointers into a string table or the literal \<^verbatim>\<open>"<unknown>"\<close>.\<close>

datatype debug_name = Unknown_Name | Name_At u32

record Eipdebuginfo =
  eip_file :: debug_name
  eip_line :: int
  eip_fn_name :: debug_name
  eip_fn_namelen :: int
  eip_fn_addr :: u32
  eip_fn_narg :: int

record UserStabData =
  usd_stabs :: u32
  usd_stab_end :: u32
  usd_stabstr :: u32
  usd_stabstr_end :: u32

text \<open>The table at an address, through the loaded page directory. An entry can be read when all of its
  twelve bytes can.\<close>

definition stab_entry :: "kstate \<Rightarrow> u32 \<Rightarrow> stab_table" where
  "stab_entry s stabs i =
     (let p = stabs + 12 * word_of_int i
      in case kbind (vload32 p) (\<lambda>strx. kbind (vread (p + 4)) (\<lambda>ty. kbind (vread (p + 5)) (\<lambda>other.
              kbind (vload16 (p + 6)) (\<lambda>desc. kbind (vload32 (p + 8)) (\<lambda>val.
              kret \<lparr>n_strx = strx, n_type = ty, n_other = other, n_desc = desc, n_value = val\<rparr>))))) s of
           Ret st _ \<Rightarrow> Some st | Panic _ \<Rightarrow> None | Gone _ _ \<Rightarrow> None)"

definition or_fault :: "(kstate \<Rightarrow> 'a option) \<Rightarrow> (kstate, 'a) op" where
  "or_fault f s = (case f s of None \<Rightarrow> Panic ''page fault in kernel mode'' | Some a \<Rightarrow> Ret a s)"

text \<open>Lines 128 to 164: the kernel's own table, whose place the linker decides (\<open>kern\<close>), or the one the
  user program announces at \<^verbatim>\<open>USTABDATA\<close>. \<open>None\<close> when memory that the code checks is not mapped.\<close>

definition find_stabs :: "UserStabData \<Rightarrow> u32 \<Rightarrow> (kstate, UserStabData option) op" where
  "find_stabs kern addr =
     (if addr \<ge> ULIM then kret (Some kern)
      else curenv_get (\<lambda>c.
        kbind (kget (\<lambda>s. env_pgdir (envs s c))) (\<lambda>pgdir.
        kbind (user_mem_check pgdir 0x200000 16 (PTE_P OR PTE_U)) (\<lambda>r.
        if r \<noteq> 0 then kret None
        else
          kbind (vload32 0x200000) (\<lambda>stabs. kbind (vload32 0x200004) (\<lambda>stab_end.
          kbind (vload32 0x200008) (\<lambda>stabstr. kbind (vload32 0x20000C) (\<lambda>stabstr_end.
          kbind (user_mem_check pgdir stabs 12 (PTE_P OR PTE_U)) (\<lambda>r.
          if r \<noteq> 0 then kret None
          else
            kbind (user_mem_check pgdir stabstr (stabstr_end - stabstr) (PTE_P OR PTE_U)) (\<lambda>r.
            if r \<noteq> 0 then kret None
            else kret (Some \<lparr>usd_stabs = stabs, usd_stab_end = stab_end, usd_stabstr = stabstr,
                             usd_stabstr_end = stabstr_end\<rparr>)))))))))))"

text \<open>\<^verbatim>\<open>strfind(name, ':') - name\<close> for a name inside the string table, which ends with a null byte: as many
  rounds as the table has bytes are enough.\<close>

fun colon_at :: "nat \<Rightarrow> u32 \<Rightarrow> int \<Rightarrow> (kstate, int) op" where
  "colon_at 0 p k = kpanic ''string without end''"
| "colon_at (Suc n) p k =
     kbind (vread p) (\<lambda>b. if b = 0 \<or> b = 58 then kret k else colon_at n (p + 1) (k + 1))"

text \<open>Lines 234 to 237: back to the entry that names the source file.\<close>

function back_to_file :: "stab_table \<Rightarrow> int \<Rightarrow> int \<Rightarrow> int option" where
  "back_to_file stabs lfile lline =
     (if lline \<ge> lfile
      then case stabs lline of
             None \<Rightarrow> None
           | Some st \<Rightarrow>
               if n_type st \<noteq> 0x84 \<and> (n_type st \<noteq> 0x64 \<or> n_value st = 0)
               then back_to_file stabs lfile (lline - 1) else Some lline
      else Some lline)"
  by pat_completeness auto
termination by (relation "measure (\<lambda>(_, lfile, lline). nat (lline - lfile + 1))") auto

text \<open>Lines 244 to 248: the number of parameter entries behind the function's entry.\<close>

function count_params :: "stab_table \<Rightarrow> int \<Rightarrow> int \<Rightarrow> int option" where
  "count_params stabs rfun lline =
     (if lline < rfun
      then case stabs lline of
             None \<Rightarrow> None
           | Some st \<Rightarrow> if n_type st = 0xA0 then map_option (\<lambda>k. k + 1) (count_params stabs rfun (lline + 1)) else Some 0
      else Some 0)"
  by pat_completeness auto
termination by (relation "measure (\<lambda>(_, rfun, lline). nat (rfun - lline))") auto

declare back_to_file.simps [simp del] count_params.simps [simp del]

definition debuginfo_eip :: "UserStabData \<Rightarrow> u32 \<Rightarrow> (kstate, int \<times> Eipdebuginfo) op" where
  "debuginfo_eip kern addr =
     (let info0 = \<lparr>eip_file = Unknown_Name, eip_line = 0, eip_fn_name = Unknown_Name, eip_fn_namelen = 9,
                   eip_fn_addr = addr, eip_fn_narg = 0\<rparr>
      in kbind (find_stabs kern addr) (\<lambda>d. case d of
           None \<Rightarrow> kret (- 1, info0)
         | Some u \<Rightarrow>
         (let stabs = usd_stabs u; str = usd_stabstr u; size = usd_stabstr_end u - usd_stabstr u;
              entry = (\<lambda>i. or_fault (\<lambda>s. stab_entry s stabs i));
              search = (\<lambda>l r ty a. or_fault (\<lambda>s. stab_binsearch (stab_entry s stabs) l r ty a))
          in kbind (if usd_stabstr_end u \<le> str then kret True
                    else kbind (vread (usd_stabstr_end u - 1)) (\<lambda>b. kret (b \<noteq> 0))) (\<lambda>bad.
             if bad then kret (- 1, info0)
             else
             kbind (search 0 (sint (usd_stab_end u - stabs) div 12 - 1) 0x64 addr) (\<lambda>(lfile, rfile).
             if lfile = 0 then kret (- 1, info0)
             else
             kbind (search lfile rfile 0x24 addr) (\<lambda>(lfun, rfun).
             kbind (if lfun \<le> rfun
                    then kbind (entry lfun) (\<lambda>st.
                         kret (info0\<lparr>eip_fn_name := (if n_strx st < size then Name_At (str + n_strx st) else Unknown_Name),
                                     eip_fn_addr := n_value st\<rparr>, addr - n_value st, lfun, rfun))
                    else kret (info0, addr, lfile, rfile)) (\<lambda>(info1, addr1, lline, rline).
             kbind (case eip_fn_name info1 of
                      Unknown_Name \<Rightarrow> kret 9
                    | Name_At p \<Rightarrow> colon_at (unat size) p 0) (\<lambda>len.
             kbind (entry lfile) (\<lambda>fst.
             let info2 = info1\<lparr>eip_fn_namelen := len, eip_file := Name_At (str + n_strx fst)\<rparr>
             in kbind (search lline rline 0x44 addr1) (\<lambda>(lline, rline).
             if lline > rline then kret (- 1, info2)
             else
             kbind (entry rline) (\<lambda>lst.
             kbind (or_fault (\<lambda>s. back_to_file (stab_entry s stabs) lfile lline)) (\<lambda>lline.
             kbind (if lline \<ge> lfile
                    then kbind (entry lline) (\<lambda>st. kret (if n_strx st < size then Name_At (str + n_strx st) else eip_file info2))
                    else kret (eip_file info2)) (\<lambda>file.
             kbind (if lfun < rfun then or_fault (\<lambda>s. count_params (stab_entry s stabs) rfun (lfun + 1)) else kret 0) (\<lambda>narg.
             kret (0, info2\<lparr>eip_line := int (unat (n_desc lst)), eip_file := file, eip_fn_narg := narg\<rparr>)))))))))))))))"

text \<open>The search for the colon ends inside a readable string table that ends with a null byte.\<close>

lemma colon_at_ok:
  assumes "\<And>i. i < n \<Longrightarrow> hw_read s (p + of_nat i) \<noteq> None"
    and "j < n" and "phys s (the (hw_read s (p + of_nat j))) = 0"
  shows "\<exists>k'. colon_at n p k s = Ret k' s"
  using assms
proof (induction n arbitrary: p k j)
  case (Suc n)
  obtain a where a: "hw_read s p = Some a" using Suc.prems(1) [of 0] by auto
  have rd: "vread p s = Ret (phys s a) s" using a by (simp add: vread_def)
  show ?case
  proof (cases "phys s a = 0 \<or> phys s a = 58")
    case True
    then show ?thesis using rd by auto
  next
    case False
    then have "j \<noteq> 0" using Suc.prems(3) a by (cases j) auto
    then obtain j' where j: "j = Suc j'" by (cases j) auto
    have e: "p + 1 + of_nat i = p + of_nat (Suc i)" for i :: nat by simp
    have "\<exists>k'. colon_at n (p + 1) (k + 1) s = Ret k' s"
      using Suc.prems(1) [of "Suc i" for i] Suc.prems(2,3) j by (intro Suc.IH [of "p + 1" j']) (auto simp only: e Suc_less_eq)
    then show ?thesis using rd False by simp
  qed
qed simp

section \<open>What the search finds\<close>

text \<open>The entries of the type in a region, and their addresses.\<close>

definition matches :: "stab_table \<Rightarrow> u8 \<Rightarrow> int \<Rightarrow> int \<Rightarrow> int set" where
  "matches stabs type L R = {i. L \<le> i \<and> i \<le> R \<and> (\<exists>st. stabs i = Some st \<and> n_type st = type)}"

definition stab_addr :: "stab_table \<Rightarrow> int \<Rightarrow> u32" where
  "stab_addr stabs i = n_value (the (stabs i))"

lemma finite_matches [simp]: "finite (matches stabs type L R)"
  by (rule finite_subset [of _ "{L..R}"]) (auto simp: matches_def)

text \<open>What the code relies on: the region is readable and its entries of the type are in order, and no
  entry starts one byte after an entry that starts at the address.\<close>

definition searchable :: "stab_table \<Rightarrow> u8 \<Rightarrow> int \<Rightarrow> int \<Rightarrow> u32 \<Rightarrow> bool" where
  "searchable stabs type L R addr \<longleftrightarrow>
     (\<forall>i. L \<le> i \<and> i \<le> R \<longrightarrow> stabs i \<noteq> None) \<and>
     (\<forall>i\<in>matches stabs type L R. \<forall>j\<in>matches stabs type L R. i \<le> j \<longrightarrow> stab_addr stabs i \<le> stab_addr stabs j) \<and>
     addr \<noteq> - 1 \<and>
     ((\<exists>i\<in>matches stabs type L R. stab_addr stabs i = addr) \<longrightarrow>
      (\<forall>i\<in>matches stabs type L R. stab_addr stabs i \<noteq> addr + 1))"

definition at_or_before :: "stab_table \<Rightarrow> u8 \<Rightarrow> int \<Rightarrow> int \<Rightarrow> u32 \<Rightarrow> int set" where
  "at_or_before stabs type L R addr = {i \<in> matches stabs type L R. stab_addr stabs i \<le> addr}"

definition after_addr :: "stab_table \<Rightarrow> u8 \<Rightarrow> int \<Rightarrow> int \<Rightarrow> u32 \<Rightarrow> int set" where
  "after_addr stabs type L R addr = {i \<in> matches stabs type L R. stab_addr stabs i > addr}"

text \<open>The invariant of the loop; \<open>a\<close> is the address that was asked for, \<open>b\<close> the one the loop has now.\<close>

definition bracket :: "stab_table \<Rightarrow> u8 \<Rightarrow> int \<Rightarrow> int \<Rightarrow> u32 \<Rightarrow> u32 \<Rightarrow> int \<Rightarrow> int \<Rightarrow> int \<Rightarrow> bool \<Rightarrow> bool" where
  "bracket stabs type L R a b l r rl any \<longleftrightarrow>
     L \<le> l \<and> r \<le> R \<and>
     (b = a \<or> b = a + 1 \<and> (\<exists>i\<in>matches stabs type L R. stab_addr stabs i = a)) \<and>
     (\<forall>i\<in>matches stabs type L R. i < l \<longrightarrow> stab_addr stabs i \<le> a \<and> i \<le> rl) \<and>
     (\<forall>i\<in>matches stabs type L R. r < i \<longrightarrow> stab_addr stabs i > a) \<and>
     (rl = L \<or> rl \<in> at_or_before stabs type L R a) \<and>
     (r = R \<or> r + 1 \<in> after_addr stabs type L R a) \<and>
     (any \<longrightarrow> matches stabs type L R \<noteq> {}) \<and>
     (\<not> any \<longrightarrow> r = R \<and> (\<forall>i\<in>matches stabs type L R. l \<le> i))"

lemma word_less_succ: "a \<noteq> - 1 \<Longrightarrow> x < a + 1 \<longleftrightarrow> x \<le> (a :: u32)"
proof -
  assume "a \<noteq> - 1"
  then have "unat a \<noteq> 4294967295" using word_eq_unatI [of a "- 1"] by (auto simp: unsigned_minus_1_eq_mask mask_eq_exp_minus_1)
  then have "unat (a + 1) = unat a + 1" using unat_lt32 [of a] unat_add_lt32 [of a 1] by simp
  then show ?thesis by (simp add: word_less_nat_alt word_le_nat_alt less_Suc_eq_le)
qed

lemma bracketD:
  assumes "bracket stabs type L R a b l r rl any"
  shows "L \<le> l" and "r \<le> R" and "b = a \<or> b = a + 1 \<and> (\<exists>i\<in>matches stabs type L R. stab_addr stabs i = a)"
    and "\<And>i. i \<in> matches stabs type L R \<Longrightarrow> i < l \<Longrightarrow> stab_addr stabs i \<le> a \<and> i \<le> rl"
    and "\<And>i. i \<in> matches stabs type L R \<Longrightarrow> r < i \<Longrightarrow> stab_addr stabs i > a"
    and "rl = L \<or> rl \<in> at_or_before stabs type L R a" and "r = R \<or> r + 1 \<in> after_addr stabs type L R a"
    and "any \<Longrightarrow> matches stabs type L R \<noteq> {}" and "\<not> any \<Longrightarrow> r = R"
    and "\<And>i. \<not> any \<Longrightarrow> i \<in> matches stabs type L R \<Longrightarrow> l \<le> i"
  using assms by (auto simp: bracket_def)

lemma bracketI:
  assumes "L \<le> l" and "r \<le> R" and "b = a \<or> b = a + 1 \<and> (\<exists>i\<in>matches stabs type L R. stab_addr stabs i = a)"
    and "\<And>i. i \<in> matches stabs type L R \<Longrightarrow> i < l \<Longrightarrow> stab_addr stabs i \<le> a \<and> i \<le> rl"
    and "\<And>i. i \<in> matches stabs type L R \<Longrightarrow> r < i \<Longrightarrow> stab_addr stabs i > a"
    and "rl = L \<or> rl \<in> at_or_before stabs type L R a" and "r = R \<or> r + 1 \<in> after_addr stabs type L R a"
    and "any \<Longrightarrow> matches stabs type L R \<noteq> {}" and "\<not> any \<Longrightarrow> r = R"
    and "\<And>i. \<not> any \<Longrightarrow> i \<in> matches stabs type L R \<Longrightarrow> l \<le> i"
  shows "bracket stabs type L R a b l r rl any"
  using assms by (auto simp: bracket_def)

lemma bracket_none:
  assumes "bracket stabs type L R a b l r rl any" and "l \<le> r" and "earlier_stab stabs type l (half (l + r)) = Some m" and "m < l"
  shows "bracket stabs type L R a b (half (l + r) + 1) r rl any"
proof -
  have "i \<notin> matches stabs type L R" if "l \<le> i" "i \<le> half (l + r)" for i
    using earlier_stab_Some(3) [OF assms(3), of i] that assms(4) by (auto simp: matches_def)
  note no = this and D = bracketD [OF assms(1)] and h = half_between [OF assms(2)]
  show ?thesis
  proof (rule bracketI)
    fix i assume i: "i \<in> matches stabs type L R"
    then have c: "i < l \<or> half (l + r) < i" using no [of i] by linarith
    show "i < half (l + r) + 1 \<Longrightarrow> stab_addr stabs i \<le> a \<and> i \<le> rl" using D(4) [OF i] c by linarith
    show "\<not> any \<Longrightarrow> half (l + r) + 1 \<le> i" using D(10) [OF _ i] c by linarith
  qed (use D h in auto)
qed

lemma bracket_match:
  assumes s: "searchable stabs type L R a" and b: "bracket stabs type L R a b l r rl any" and lr: "l \<le> r"
    and m: "earlier_stab stabs type l (half (l + r)) = Some m" "l \<le> m"
  shows "m \<in> matches stabs type L R" and "m \<le> half (l + r)"
    and "stab_addr stabs m < b \<Longrightarrow> bracket stabs type L R a b (half (l + r) + 1) r m True"
    and "stab_addr stabs m > b \<Longrightarrow> bracket stabs type L R a b l (m - 1) rl True"
    and "stab_addr stabs m = b \<Longrightarrow> bracket stabs type L R a (b + 1) m r m True"
proof -
  let ?M = "matches stabs type L R"
  note D = bracketD [OF b]
  note e = earlier_stab_Some [OF m(1)]
  have h: "l \<le> half (l + r)" "half (l + r) \<le> r" using half_between [OF lr] by auto
  show mM: "m \<in> ?M" using e(1) e(2) [OF m(2)] b h m(2) by (auto simp: matches_def bracket_def)
  show mh: "m \<le> half (l + r)" by (rule e(1))
  have sort: "i \<in> ?M \<Longrightarrow> j \<in> ?M \<Longrightarrow> i \<le> j \<Longrightarrow> stab_addr stabs i \<le> stab_addr stabs j" for i j
    using s by (auto simp: searchable_def)
  have max: "a \<noteq> - 1" using s by (simp add: searchable_def)
  have aa: "a < a + 1" using word_less_succ [OF max] by simp
  have last: "i \<le> m" if "i \<in> ?M" "i \<le> half (l + r)" for i
    using e(3) [of i] that m(2) b by (fastforce simp: matches_def bracket_def)
  show "bracket stabs type L R a b (half (l + r) + 1) r m True" if lt: "stab_addr stabs m < b"
  proof -
    have "stab_addr stabs m \<le> a"
      using b lt word_less_succ [OF max] by (auto simp: bracket_def)
    note ma = this
    show ?thesis
    proof (rule bracketI)
      fix i assume i: "i \<in> ?M" "i < half (l + r) + 1"
      then have "i \<le> m" using last [of i] by simp
      then show "stab_addr stabs i \<le> a \<and> i \<le> m" using order_trans [OF sort [OF i(1) mM] ma] by simp
    next
      show "m = L \<or> m \<in> at_or_before stabs type L R a" using mM ma by (simp add: at_or_before_def)
      show "L \<le> half (l + r) + 1" using D(1) h by linarith
    qed (use D(2,3,5,7) mM in auto)
  qed
  show "bracket stabs type L R a b l (m - 1) rl True" if gt: "stab_addr stabs m > b"
  proof -
    have "stab_addr stabs m > a" using b gt aa by (auto simp: bracket_def)
    note ma = this
    show ?thesis
    proof (rule bracketI)
      fix i assume i: "i \<in> ?M" "m - 1 < i"
      then show "stab_addr stabs i > a" using less_le_trans [OF ma sort [OF mM i(1)]] by simp
    next
      show "m - 1 = R \<or> m - 1 + 1 \<in> after_addr stabs type L R a" using mM ma by (simp add: after_addr_def)
      show "m - 1 \<le> R" using D(2) h mh by linarith
    qed (use D(1,3,4,6) mM in auto)
  qed
  show "bracket stabs type L R a (b + 1) m r m True" if eq: "stab_addr stabs m = b"
  proof -
    have ba: "b = a" using b s eq mM by (auto simp: bracket_def searchable_def)
    show ?thesis
    proof (rule bracketI)
      fix i assume i: "i \<in> ?M" "i < m"
      then show "stab_addr stabs i \<le> a \<and> i \<le> m" using sort [OF i(1) mM] eq ba by simp
    next
      show "m = L \<or> m \<in> at_or_before stabs type L R a" using mM eq ba by (simp add: at_or_before_def)
      show "b + 1 = a \<or> b + 1 = a + 1 \<and> (\<exists>i\<in>?M. stab_addr stabs i = a)" using mM eq ba by auto
      show "L \<le> m" using D(1) m(2) by linarith
    qed (use D(2,5,7) mM in auto)
  qed
qed

lemma earlier_stab_total:
  assumes "\<And>i. l \<le> i \<Longrightarrow> i \<le> m \<Longrightarrow> stabs i \<noteq> None"
  shows "\<exists>k. earlier_stab stabs type l m = Some k"
  using assms
proof (induction stabs type l m rule: earlier_stab.induct)
  case (1 stabs type l m)
  show ?case
  proof (cases "l \<le> m")
    case True
    then obtain st where "stabs m = Some st" using "1.prems" [of m] by auto
    then show ?thesis using "1.IH" [OF True] "1.prems" by (subst earlier_stab.simps) auto
  qed (subst earlier_stab.simps, simp)
qed

lemma stab_loop_ok:
  assumes "searchable stabs type L R a" and "bracket stabs type L R a b l r rl any" and "rr = r"
  shows "\<exists>l' b' rl' r' any'. stab_loop stabs type b l r rl rr any = Some (rl', r', any') \<and> r' < l' \<and>
    bracket stabs type L R a b' l' r' rl' any'"
  using assms
proof (induction stabs type b l r rl rr any rule: stab_loop.induct)
  case (1 stabs type b l r rl rr any)
  show ?case
  proof (cases "l \<le> r")
    case False
    then show ?thesis using "1.prems"
      by (subst stab_loop.simps) (auto intro: exI [of _ l] exI [of _ b])
  next
    case True
    note h = half_between [OF True] and D = bracketD [OF "1.prems"(2)]
    have "\<exists>m. earlier_stab stabs type l (half (l + r)) = Some m"
      using "1.prems"(1) D(1,2) h by (intro earlier_stab_total) (simp add: searchable_def)
    then obtain m where m: "earlier_stab stabs type l (half (l + r)) = Some m" by blast
    show ?thesis
    proof (cases "m < l")
      case True
      then show ?thesis
        using "1.IH"(1) [OF \<open>l \<le> r\<close> refl m True "1.prems"(1) bracket_none [OF "1.prems"(2) \<open>l \<le> r\<close> m True] "1.prems"(3)] m \<open>l \<le> r\<close>
        by (subst stab_loop.simps) (simp add: Let_def)
    next
      case False
      then have lm: "l \<le> m" by simp
      note M = bracket_match [OF "1.prems"(1,2) True m lm]
      obtain st where st: "stabs m = Some st" using M(1) by (auto simp: matches_def)
      then have v: "n_value st = stab_addr stabs m" by (simp add: stab_addr_def)
      consider "stab_addr stabs m < b" | "stab_addr stabs m > b" | "stab_addr stabs m = b" by (rule linorder_cases)
      then show ?thesis
      proof cases
        case 1
        then show ?thesis
          using "1.IH"(2) [OF True refl m False st _ "1.prems"(1) M(3) "1.prems"(3)] v m True False st
          by (subst stab_loop.simps) (simp add: Let_def)
      next
        case 2
        then show ?thesis
          using "1.IH"(3) [OF True refl m False st _ _ "1.prems"(1) M(4) refl] v m True False st
          by (subst stab_loop.simps) (auto simp: Let_def)
      next
        case 3
        then show ?thesis
          using "1.IH"(4) [OF True refl m False st _ _ "1.prems"(1) M(5) "1.prems"(3)] v m True False st
          by (subst stab_loop.simps) (simp add: Let_def)
      qed
    qed
  qed
qed

lemma rightmost_none:
  assumes "\<And>i. rl < i \<Longrightarrow> i \<le> l \<Longrightarrow> \<exists>st. stabs i = Some st \<and> n_type st \<noteq> type"
  shows "rightmost stabs type rl l = Some (min rl l)"
  using assms
proof (induction stabs type rl l rule: rightmost.induct)
  case (1 stabs type rl l)
  show ?case
  proof (cases "rl < l")
    case True
    then obtain st where "stabs l = Some st" "n_type st \<noteq> type" using "1.prems" [of l] by auto
    then show ?thesis using "1.IH" [OF True] "1.prems" True by (subst rightmost.simps) auto
  qed (subst rightmost.simps, simp)
qed


definition fun_stab :: "u32 \<Rightarrow> Stab" where
  "fun_stab v = \<lparr>n_strx = 0, n_type = 0x24, n_other = 0, n_desc = 0, n_value = v\<rparr>"


text \<open>The search is wrong when an entry of the type starts one byte after the entry that starts at the
  address: the incremented address matches the next entry exactly, and the search reports that one
  as the entry that contains the address.\<close>

theorem stab_binsearch_one_byte:
  "stab_binsearch (\<lambda>i. Some (fun_stab (16 + word_of_int i))) 0 1 0x24 16 = Some (1, 1)"
  by (simp add: stab_binsearch_def stab_loop.simps earlier_stab.simps rightmost.simps half_def fun_stab_def)

end
