(* ===== verification/User_Lib.thy ===== *)
theory User_Lib
  imports Syscall_Inv
begin

text \<open>
  What user-level code of \<^verbatim>\<open>lib/\<close> sees of the machine: the stubs of \<^verbatim>\<open>lib/syscall.c\<close> over the
  kernel's dispatcher, the page tables in the window at \<^verbatim>\<open>UVPT\<close>, and memory through the loaded page
  directory with the rights of user mode.

  A library routine is an operation on the kernel state, and \<open>Panic\<close> is also the panic of the
  user program or a page fault that nobody serves. Entry to and exit from the kernel save and
  restore registers and take and release the kernel lock (see \<open>Trap\<close>) and leave address spaces alone, so
  the state between two calls is the one in which the kernel handles them; no other
  environment runs in between.
\<close>

section \<open>System call stubs\<close>

definition usyscall :: "u32 \<Rightarrow> bool \<Rightarrow> u32 \<Rightarrow> u32 \<Rightarrow> u32 \<Rightarrow> u32 \<Rightarrow> u32 \<Rightarrow> (kstate, int) op" where
  "usyscall num check a1 a2 a3 a4 a5 =
     kbind (syscall num a1 a2 a3 a4 a5) (\<lambda>ret.
     if check \<and> ret > 0 then kpanic ''syscall returned a positive number'' else kret ret)"

definition lib_sys_cputs :: "u32 \<Rightarrow> u32 \<Rightarrow> (kstate, unit) op" where
  "lib_sys_cputs s len = kthen (usyscall SYS_cputs False s len 0 0 0) (kret ())"

definition lib_sys_cgetc :: "(kstate, int) op" where
  "lib_sys_cgetc = usyscall SYS_cgetc False 0 0 0 0 0"

definition lib_sys_env_destroy :: "u32 \<Rightarrow> (kstate, int) op" where
  "lib_sys_env_destroy envid = usyscall SYS_env_destroy True envid 0 0 0 0"

definition lib_sys_getenvid :: "(kstate, int) op" where
  "lib_sys_getenvid = usyscall SYS_getenvid False 0 0 0 0 0"

definition lib_sys_yield :: "(kstate, unit) op" where
  "lib_sys_yield = kthen (usyscall SYS_yield False 0 0 0 0 0) (kret ())"

definition lib_sys_page_alloc :: "u32 \<Rightarrow> u32 \<Rightarrow> u32 \<Rightarrow> (kstate, int) op" where
  "lib_sys_page_alloc envid va perm = usyscall SYS_page_alloc True envid va perm 0 0"

definition lib_sys_page_map :: "u32 \<Rightarrow> u32 \<Rightarrow> u32 \<Rightarrow> u32 \<Rightarrow> u32 \<Rightarrow> (kstate, int) op" where
  "lib_sys_page_map srcenv srcva dstenv dstva perm = usyscall SYS_page_map True srcenv srcva dstenv dstva perm"

definition lib_sys_page_unmap :: "u32 \<Rightarrow> u32 \<Rightarrow> (kstate, int) op" where
  "lib_sys_page_unmap envid va = usyscall SYS_page_unmap True envid va 0 0 0"

text \<open>\<^verbatim>\<open>sys_exofork\<close> of \<^verbatim>\<open>inc/lib.h\<close> traps without a check of the result.\<close>

definition lib_sys_exofork :: "(kstate, int) op" where
  "lib_sys_exofork = usyscall SYS_exofork False 0 0 0 0 0"

definition lib_sys_env_set_status :: "u32 \<Rightarrow> u32 \<Rightarrow> (kstate, int) op" where
  "lib_sys_env_set_status envid status = usyscall SYS_env_set_status True envid status 0 0 0"

definition lib_sys_env_set_trapframe :: "u32 \<Rightarrow> u32 \<Rightarrow> (kstate, int) op" where
  "lib_sys_env_set_trapframe envid tf = usyscall SYS_env_set_trapframe True envid tf 0 0 0"

definition lib_sys_env_set_pgfault_upcall :: "u32 \<Rightarrow> u32 \<Rightarrow> (kstate, int) op" where
  "lib_sys_env_set_pgfault_upcall envid upcall = usyscall SYS_env_set_pgfault_upcall True envid upcall 0 0 0"

definition lib_sys_ipc_try_send :: "u32 \<Rightarrow> u32 \<Rightarrow> u32 \<Rightarrow> u32 \<Rightarrow> (kstate, int) op" where
  "lib_sys_ipc_try_send envid val srcva perm = usyscall SYS_ipc_try_send False envid val srcva perm 0"

definition lib_sys_ipc_recv :: "u32 \<Rightarrow> (kstate, int) op" where
  "lib_sys_ipc_recv dstva = usyscall SYS_ipc_recv True dstva 0 0 0 0"

lemmas stub_defs = lib_sys_cputs_def lib_sys_cgetc_def lib_sys_env_destroy_def lib_sys_getenvid_def lib_sys_yield_def
  lib_sys_page_alloc_def lib_sys_page_map_def lib_sys_page_unmap_def lib_sys_exofork_def lib_sys_env_set_status_def
  lib_sys_env_set_trapframe_def lib_sys_env_set_pgfault_upcall_def lib_sys_ipc_try_send_def lib_sys_ipc_recv_def

text \<open>A stub returns what the kernel function returns.\<close>

lemma stub_Ret:
  "sys_page_alloc e va perm s = Ret r s' \<Longrightarrow> r \<le> 0 \<Longrightarrow> lib_sys_page_alloc e va perm s = Ret r s'"
  "sys_page_map se sva de dva perm s = Ret r s' \<Longrightarrow> r \<le> 0 \<Longrightarrow> lib_sys_page_map se sva de dva perm s = Ret r s'"
  "sys_page_unmap e va s = Ret r s' \<Longrightarrow> r \<le> 0 \<Longrightarrow> lib_sys_page_unmap e va s = Ret r s'"
  "sys_exofork s = Ret r s' \<Longrightarrow> lib_sys_exofork s = Ret r s'"
  "sys_env_set_status e st s = Ret r s' \<Longrightarrow> r \<le> 0 \<Longrightarrow> lib_sys_env_set_status e st s = Ret r s'"
  "sys_env_set_pgfault_upcall e f s = Ret r s' \<Longrightarrow> r \<le> 0 \<Longrightarrow> lib_sys_env_set_pgfault_upcall e f s = Ret r s'"
  "sys_getenvid s = Ret r s' \<Longrightarrow> lib_sys_getenvid s = Ret r s'"
  by (simp_all add: stub_defs usyscall_def syscall_def)

section \<open>The page tables as a program sees them\<close>

text \<open>\<^verbatim>\<open>uvpd[i]\<close> and \<^verbatim>\<open>uvpt[pn]\<close>. The directory is entered in itself at \<^verbatim>\<open>UVPT\<close>
  (\<open>env_setup_vm\<close>), so a program reads its directory and, where the directory entry is present, the tables.\<close>

definition uvpd :: "u32 \<Rightarrow> (kstate, u32) op" where
  "uvpd i = curenv_get (\<lambda>c. kget (\<lambda>s. kld (env_pgdir (envs s c) + 4 * i) s))"

definition uvpt :: "u32 \<Rightarrow> (kstate, u32) op" where
  "uvpt pn =
     kbind (uvpd (drop_bit 10 pn)) (\<lambda>pde.
     if pde AND PTE_P = 0 then kpanic ''page fault at UVPT''
     else kget (kld (PTE_ADDR pde + KERNBASE + 4 * (pn AND 0x3FF))))"

section \<open>Memory of a program\<close>

text \<open>The processor's translation in user mode: present and user-accessible on both levels, and
  writable on both for a store.\<close>

definition user_addr :: "bool \<Rightarrow> kstate \<Rightarrow> u32 \<Rightarrow> nat option" where
  "user_addr wr s va =
     (let need = (if wr then PTE_P OR PTE_U OR PTE_W else PTE_P OR PTE_U);
          pde = load32 (phys s) (unat (PTE_ADDR (cr3 s)) + 4 * unat (PDX va))
      in if pde AND need \<noteq> need then None
         else let pte = load32 (phys s) (unat (PTE_ADDR pde) + 4 * unat (PTX va))
              in if pte AND need \<noteq> need then None
                 else Some (unat (PTE_ADDR pte) + unat (PGOFF va)))"

definition uload :: "u32 \<Rightarrow> (kstate, u8) op" where
  "uload va s = (case user_addr False s va of None \<Rightarrow> Panic ''page fault'' | Some a \<Rightarrow> Ret (phys s a) s)"

definition ustore :: "u32 \<Rightarrow> u8 \<Rightarrow> (kstate, unit) op" where
  "ustore va b s = (case user_addr True s va of
     None \<Rightarrow> Panic ''page fault'' | Some a \<Rightarrow> Ret () (s\<lparr>phys := (phys s)(a := b)\<rparr>))"

text \<open>\<^verbatim>\<open>memcpy\<close> between regions that do not overlap.\<close>

definition umemcpy :: "u32 \<Rightarrow> u32 \<Rightarrow> u32 \<Rightarrow> (kstate, unit) op" where
  "umemcpy dst src n = kfor [0..<unat n] (\<lambda>i. kbind (uload (src + of_nat i)) (\<lambda>b. ustore (dst + of_nat i) b))"

section \<open>A running environment\<close>

text \<open>Environment \<open>c\<close> runs: the kernel invariant holds, its directory is loaded, and table entries alone
  decide on access.\<close>

definition user_runs :: "nat \<Rightarrow> (nat \<Rightarrow> nat) \<Rightarrow> nat \<Rightarrow> kstate \<Rightarrow> bool" where
  "user_runs kd ext c s \<longleftrightarrow> in_syscall kd ext c s \<and> cr3 s = page2pa (dir_of s c) \<and> pdes_open s (dirs s)"

lemma user_runsD:
  assumes "user_runs kd ext c s"
  shows "in_syscall kd ext c s" and "kernel_ok kd ext s" and "curenv s = Some c" and "c \<in> live s"
    and "cr3 s = page2pa (dir_of s c)" and "pdes_open s (dirs s)" and "vm_ok s (dirs s) ext" and "dir_of s c \<in> dirs s"
    and "dir_of s c < 65536"
  using assms in_syscallD [of kd ext c s] kernel_okD(1,12) [of kd ext s] dir_lt [of s "dirs s" ext "dir_of s c"]
  by (auto simp: user_runs_def)

text \<open>An operation on page tables keeps it.\<close>

lemma user_runs_vm:
  assumes "user_runs kd ext c s" and "kernel_ok kd ext s'" and "vm_frame s s'" and "data_kept s s' (dirs s)"
  shows "user_runs kd ext c s'" and "dirs s' = dirs s" and "live s' = live s" and "dir_of s' = dir_of s"
proof -
  have f: "envs s' = envs s" "cpus s' = cpus s" "cpunum s' = cpunum s" "kernel_lock s' = kernel_lock s" "cr3 s' = cr3 s"
    using assms(3) by (simp_all add: vm_frame_def)
  show d: "dirs s' = dirs s" "live s' = live s" "dir_of s' = dir_of s"
    using f by (auto simp: dirs_def live_def dir_of_def)
  show "user_runs kd ext c s'"
    using assms f d data_kept_open [OF assms(4)] by (auto simp: user_runs_def in_syscall_def curenv_def)
qed

text \<open>The memory of an environment: what it reads at an address.\<close>

definition umem :: "kstate \<Rightarrow> nat \<Rightarrow> u32 \<Rightarrow> u8 option" where
  "umem s i va = map_option (\<lambda>(p, _). phys s (4096 * p + unat (PGOFF va))) (vmap s (dir_of s i) va)"

lemma drop_bit_PGNUM: "drop_bit 10 (PGNUM va) = PDX va"
proof (rule word_eq_unatI)
  show "unat (drop_bit 10 (PGNUM va)) = unat (PDX va)"
    by (simp add: unat_drop_bit_eq drop_bit_eq_div unat_div unat_PGNUM unat_PDX div_mult2_eq [symmetric])
qed

lemma PGNUM_and_low: "PGNUM va AND 0x3FF = PTX va"
  by (simp add: PGNUM_def PTX_def)

lemma uvpd_ok:
  assumes "user_runs kd ext c s" and "unat i < 1024"
  shows "uvpd i s = Ret (slot s (dir_of s c) (unat i)) s"
  using user_runsD [OF assms(1)] kernel_okD(3) assms(2)
  by (simp add: uvpd_def curenv_get_def kld_entry)

lemma uvpt_ok:
  assumes r: "user_runs kd ext c s" and va: "unat (PDX va) < UPDES"
  shows "uvpt (PGNUM va) s = (if present (slot s (dir_of s c) (unat (PDX va)))
    then Ret (slot s (tfr s (loc (dir_of s c) va)) (unat (PTX va))) s else Panic ''page fault at UVPT'')"
proof -
  let ?d = "dir_of s c" and ?pde = "slot s (dir_of s c) (unat (PDX va))"
  note D = user_runsD [OF r]
  show ?thesis
  proof (cases "present ?pde")
    case True
    then have t: "loc ?d va \<in> tables s (dirs s)" using D(8) va by (simp add: tables_def)
    have "PTE_ADDR ?pde = page2pa (tfr s (loc ?d va))" by (simp add: PTE_ADDR_frame tfr_def)
    then have "kld (PTE_ADDR ?pde + KERNBASE + 4 * PTX va) s = slot s (tfr s (loc ?d va)) (unat (PTX va))"
      using tfr_lt [OF D(7) t] kld_entry [of "tfr s (loc ?d va)" "PTX va" s] by simp
    then show ?thesis using True uvpd_ok [OF r, of "PDX va"] by (simp add: uvpt_def drop_bit_PGNUM PGNUM_and_low)
  next
    case False
    then show ?thesis using uvpd_ok [OF r, of "PDX va"] by (simp add: uvpt_def drop_bit_PGNUM)
  qed
qed

text \<open>In an open address space the translation is decided by the entry of the page.\<close>

definition user_need :: "bool \<Rightarrow> u32" where
  "user_need wr = (if wr then 7 else 5)"

lemma user_addr_vmap:
  assumes r: "user_runs kd ext c s" and va: "unat (PDX va) < UPDES"
  shows "user_addr wr s va = (case vmap s (dir_of s c) va of None \<Rightarrow> None
    | Some (p, pm) \<Rightarrow> if pm AND user_need wr = user_need wr then Some (4096 * p + unat (PGOFF va)) else None)"
proof -
  let ?d = "dir_of s c" and ?pde = "slot s (dir_of s c) (unat (PDX va))"
  let ?pte = "slot s (frame ?pde) (unat (PTX va))" and ?n = "user_need wr"
  note D = user_runsD [OF r]
  have addr: "unat (PTE_ADDR w) = 4096 * frame w" for w
    by (simp add: PTE_ADDR_frame unat_page2pa frame_def)
  have ld: "load32 (phys s) (unat (PTE_ADDR w) + 4 * i) = slot s (frame w) i" for w i
    by (simp add: addr slot_def algebra_simps)
  have cr3: "frame (cr3 s) = ?d" using D(5,9) by simp
  have n7: "7 AND ?n = ?n" "?n AND 1 = 1" by (simp_all add: user_need_def)
  have pde: "?pde AND ?n = ?n" if "present ?pde"
  proof -
    have "?pde AND 7 = 7" using D(6,8) va that by (simp add: pdes_open_def)
    then have "?pde AND (7 AND ?n) = 7 AND ?n" by (simp only: and.assoc [symmetric])
    then show ?thesis by (simp only: n7)
  qed
  have np: "w AND ?n \<noteq> ?n" if "\<not> present w" for w :: u32
  proof
    assume "w AND ?n = ?n"
    then have "w AND (?n AND 1) = ?n AND 1" by (simp only: and.assoc [symmetric])
    then show False using that n7(2) by simp
  qed
  have low: "(?pte AND 0xFFF) AND ?n = ?pte AND ?n" by (simp add: user_need_def and.assoc)
  have "user_addr wr s va = (if ?pde AND ?n \<noteq> ?n then None else if ?pte AND ?n \<noteq> ?n then None
      else Some (4096 * frame ?pte + unat (PGOFF va)))"
    using ld [of "cr3 s"] ld [of ?pde] by (simp add: user_addr_def Let_def cr3 addr user_need_def)
  also have "\<dots> = (case vmap s ?d va of None \<Rightarrow> None
    | Some (p, pm) \<Rightarrow> if pm AND ?n = ?n then Some (4096 * p + unat (PGOFF va)) else None)"
    using pde np [of ?pde] np [of ?pte] low by (auto simp: vmap_def Let_def)
  finally show ?thesis .
qed

section \<open>Contents of pages\<close>

lemma byte_of_load32:
  assumes "j < 4"
  shows "m (a + j) = ucast (drop_bit (8 * j) (load32 m a))"
proof -
  have e: "ucast (drop_bit (8 * j) (load32 m a)) = m (a + j)" if "j = 0 \<or> j = 1 \<or> j = 2 \<or> j = 3" for j
    using that unfolding load32_def
    by (elim disjE; simp; intro bit_eqI) (auto simp: bit_simps dest: bit_imp_le_length)
  have "j = 0 \<or> j = 1 \<or> j = 2 \<or> j = 3" using assms by linarith
  from e [OF this] show ?thesis by simp
qed

lemma bytes_of_slots:
  assumes "\<And>k. k < 1024 \<Longrightarrow> slot s' q' k = slot s q k" and "i < 4096"
  shows "phys s' (4096 * q' + i) = phys s (4096 * q + i)"
proof -
  let ?k = "i div 4" and ?j = "i mod 4"
  have kj: "4096 * p + i = 4 * (1024 * p + ?k) + ?j" for p by simp
  have "slot s' q' ?k = slot s q ?k" using assms by simp
  then show ?thesis
    unfolding kj using byte_of_load32 [of ?j "phys s'" "4 * (1024 * q' + ?k)"] byte_of_load32 [of ?j "phys s" "4 * (1024 * q + ?k)"]
    by (simp add: slot_def)
qed

lemma slots_of_bytes:
  assumes "\<And>i. i < 4096 \<Longrightarrow> phys s' (4096 * q' + i) = phys s (4096 * q + i)" and "k < 1024"
  shows "slot s' q' k = slot s q k"
proof -
  have "phys s' (4 * (1024 * q' + k) + j) = phys s (4 * (1024 * q + k) + j)" if "j < 4" for j
    using assms(1) [of "4 * k + j"] assms(2) that by (simp add: algebra_simps)
  from this [of 0] this [of 1] this [of 2] this [of 3] show ?thesis
    by (simp add: slot_def load32_def)
qed

lemma mapped_data_page:
  assumes "vm_ok s D ext" and "d \<in> D" and "unat (PDX va) < UPDES" and "vmap s d va = Some (p, pm)"
  shows "data_page s D p" and "p < unat (npages s)"
proof -
  have m: "(loc d va, unat (PTX va)) \<in> maps s D" "mfr s (loc d va, unat (PTX va)) = p"
    using vmap_maps [OF assms(1-3)] assms(4) by auto
  then show "data_page s D p" "p < unat (npages s)"
    using vm_okD(7) [OF assms(1) m(1)] used_not_free(3) [OF assms(1) m(1)] by (auto simp: data_page_def)
qed

text \<open>A store into a page of a program changes nothing else.\<close>

lemma data_write_ok:
  assumes r: "user_runs kd ext c s" and p: "data_page s (dirs s) p"
    and m: "\<And>a. a div 4096 \<noteq> p \<Longrightarrow> m a = phys s a"
  shows "user_runs kd ext c (s\<lparr>phys := m\<rparr>)" and "\<And>d va. d \<in> dirs s \<Longrightarrow> unat (PDX va) < UPDES \<Longrightarrow>
      vmap (s\<lparr>phys := m\<rparr>) d va = vmap s d va"
    and "q \<noteq> p \<Longrightarrow> k < 1024 \<Longrightarrow> slot (s\<lparr>phys := m\<rparr>) q k = slot s q k"
    and "dirs (s\<lparr>phys := m\<rparr>) = dirs s" and "live (s\<lparr>phys := m\<rparr>) = live s" and "dir_of (s\<lparr>phys := m\<rparr>) = dir_of s"
    and "data_page (s\<lparr>phys := m\<rparr>) (dirs s) q = data_page s (dirs s) q"
proof -
  let ?s = "s\<lparr>phys := m\<rparr>"
  note D = user_runsD [OF r]
  have sl: "slot ?s q k = slot s q k" if "q \<noteq> p" "k < 1024" for q k
    by (rule slots_of_bytes [OF _ that(2)]) (use that(1) m in simp)
  then show "q \<noteq> p \<Longrightarrow> k < 1024 \<Longrightarrow> slot ?s q k = slot s q k" by simp
  show dd: "dirs ?s = dirs s" "live ?s = live s" "dir_of ?s = dir_of s"
    by (auto simp: dirs_def live_def dir_of_def)
  have dsl: "slot ?s d i = slot s d i" if "d \<in> dirs s" "i < 955" for d i
    using that p sl [of d i] by (auto simp: data_page_def)
  have tsl: "slot ?s (tfr s t) j = slot s (tfr s t) j" if "t \<in> tables s (dirs s)" "j < 1024" for t j
    using that p sl [of "tfr s t" j] by (auto simp: data_page_def)
  note view = view_cong [of "dirs s" ?s s]
  have tab: "tables ?s (dirs s) = tables s (dirs s)" "\<And>t. t \<in> tables s (dirs s) \<Longrightarrow> tfr ?s t = tfr s t"
    using view(1,2) dsl tsl by auto
  have fp: "free_pages ?s = free_pages s" "pages_ok ?s" using pages_ok_cong [of ?s s] vm_okD(1) [OF D(7)] by simp_all
  have "tfr ?s ` tables ?s (dirs s) = tfr s ` tables s (dirs s)" using tab by auto
  then show "data_page ?s (dirs s) q = data_page s (dirs s) q" by (simp add: data_page_def fp)
  have vm: "vm_ok ?s (dirs s) ext"
    by (rule vm_ok_cong [OF D(7)]) (use dsl tsl fp vm_okD(8) [OF D(7)] in auto)
  have vf: "vm_frame s ?s" by (simp add: vm_frame_def)
  have "pdes_open ?s (dirs s)" using pdes_open_cong [of "dirs s" ?s s] dsl D(6) by simp
  then show "user_runs kd ext c ?s"
    using r kernel_ok_vm(1) [OF D(2) vf vm] dd by (auto simp: user_runs_def in_syscall_def curenv_def)
  show "vmap ?s d va = vmap s d va" if d: "d \<in> dirs s" "unat (PDX va) < UPDES" for d va
  proof -
    have "slot ?s (tfr s (loc d va)) (unat (PTX va)) = slot s (tfr s (loc d va)) (unat (PTX va))" if "loc d va \<in> tables s (dirs s)"
      using tsl [OF that] by simp
    then show ?thesis using dsl [OF d] d by (auto simp: vmap_pte tables_def tfr_def)
  qed
qed

text \<open>Copying one page: source and destination page differ and the destination may be written.\<close>

lemma page_addr_parts:
  assumes "va mod 4096 = (0 :: u32)" and "i < 4096"
  shows "PGNUM (va + of_nat i) = PGNUM va" and "unat (PGOFF (va + of_nat i)) = i"
proof -
  have "unat (va mod 4096) = unat va mod 4096" by (simp add: unat_mod)
  then have va: "unat va mod 4096 = 0" using assms(1) by simp
  then obtain n where n: "unat va = 4096 * n" by (auto simp: mod_eq_0_iff_dvd dvd_def)
  then have lt: "unat va + i < 4294967296" using assms(2) unat_lt32 [of va] by simp
  then have u: "unat (va + of_nat i) = unat va + i"
    using unat_add_lt32 [of va "of_nat i"] unat_of_nat32 [of i] assms(2) by simp
  show "PGNUM (va + of_nat i) = PGNUM va"
    by (rule word_eq_unatI) (use n assms(2) in \<open>simp add: unat_PGNUM u\<close>)
  show "unat (PGOFF (va + of_nat i)) = i" using n assms(2) by (simp add: unat_PGOFF u)
qed

definition copied :: "kstate \<Rightarrow> nat \<Rightarrow> nat \<Rightarrow> nat \<Rightarrow> kstate" where
  "copied s p q n = s\<lparr>phys := (\<lambda>a. if a div 4096 = p \<and> a mod 4096 < n then phys s (4096 * q + a mod 4096) else phys s a)\<rparr>"

lemma copied_ok:
  assumes "user_runs kd ext c s" and "data_page s (dirs s) p"
  shows "user_runs kd ext c (copied s p q n)" and "\<And>d va. d \<in> dirs s \<Longrightarrow> unat (PDX va) < UPDES \<Longrightarrow> vmap (copied s p q n) d va = vmap s d va"
    and "g \<noteq> p \<Longrightarrow> k < 1024 \<Longrightarrow> slot (copied s p q n) g k = slot s g k"
    and "dirs (copied s p q n) = dirs s" and "live (copied s p q n) = live s" and "dir_of (copied s p q n) = dir_of s"
    and "data_page (copied s p q n) (dirs s) g = data_page s (dirs s) g"
  using data_write_ok [OF assms, of "phys (copied s p q n)"] by (simp_all add: copied_def)

lemma umemcpy_page:
  assumes r: "user_runs kd ext c s" and src: "src mod 4096 = 0" "unat (PDX src) < UPDES" "vmap s (dir_of s c) src = Some (q, pq)" "pq AND 5 = 5"
    and dst: "dst mod 4096 = 0" "unat (PDX dst) < UPDES" "vmap s (dir_of s c) dst = Some (p, pp)" "pp AND 7 = 7" and ne: "q \<noteq> p"
  shows "umemcpy dst src PGSIZE s = Ret () (copied s p q 4096)" and "k < 1024 \<Longrightarrow> slot (copied s p q 4096) p k = slot s q k"
    and "data_page s (dirs s) p"
proof -
  note D = user_runsD [OF r]
  show dp: "data_page s (dirs s) p" using mapped_data_page(1) [OF D(7,8) dst(2,3)] .
  show "slot (copied s p q 4096) p k = slot s q k" if "k < 1024"
    by (rule slots_of_bytes [OF _ that]) (simp add: copied_def)
  have step: "kbind (uload (src + of_nat i)) (\<lambda>b. ustore (dst + of_nat i) b) (copied s p q i) = Ret () (copied s p q (Suc i))"
    if i: "i < 4096" for i
  proof -
    let ?t = "copied s p q i"
    note C = copied_ok [OF r dp, where q = q and n = i]
    note S = page_addr_parts [OF src(1) i] and E = page_addr_parts [OF dst(1) i]
    have pdx: "unat (PDX (src + of_nat i)) < UPDES" "unat (PDX (dst + of_nat i)) < UPDES"
      using src(2) dst(2) S(1) E(1) by (simp_all add: PGNUM_eq_iff)
    have v: "vmap ?t (dir_of ?t c) (src + of_nat i) = Some (q, pq)" "vmap ?t (dir_of ?t c) (dst + of_nat i) = Some (p, pp)"
      using C(2) [OF D(8)] src(2) dst(2) vmap_page [OF S(1)] vmap_page [OF E(1)] src(3) dst(3) by (simp_all add: C(6))
    have ld: "uload (src + of_nat i) ?t = Ret (phys s (4096 * q + i)) ?t"
      using user_addr_vmap [OF C(1) pdx(1), of False] v(1) src(4) ne i
      by (simp add: uload_def user_need_def S(2)) (simp add: copied_def)
    have "ustore (dst + of_nat i) b ?t = Ret () (?t\<lparr>phys := (phys ?t)(4096 * p + i := b)\<rparr>)" for b
      using user_addr_vmap [OF C(1) pdx(2), of True] v(2) dst(4) by (simp add: ustore_def user_need_def E(2))
    moreover have "a div 4096 = p \<and> a mod 4096 < Suc i \<longleftrightarrow> a = 4096 * p + i \<or> a div 4096 = p \<and> a mod 4096 < i" for a
    proof -
      have "a = 4096 * p + i \<longleftrightarrow> a div 4096 = p \<and> a mod 4096 = i" using i by auto
      then show ?thesis by auto
    qed
    then have "(phys ?t)(4096 * p + i := phys s (4096 * q + i)) = phys (copied s p q (Suc i))"
      using i by (auto simp: copied_def fun_eq_iff)
    then have "?t\<lparr>phys := (phys ?t)(4096 * p + i := phys s (4096 * q + i))\<rparr> = copied s p q (Suc i)"
      by (simp add: copied_def)
    ultimately show ?thesis using ld by simp
  qed
  have "\<exists>s'. kfor [0..<4096] (\<lambda>i. kbind (uload (src + of_nat i)) (\<lambda>b. ustore (dst + of_nat i) b)) s = Ret () s' \<and> s' = copied s p q 4096"
    by (rule kfor_upt_invariant) (use step in \<open>auto simp: copied_def\<close>)
  then show "umemcpy dst src PGSIZE s = Ret () (copied s p q 4096)"
    by (simp add: umemcpy_def del: upt_rec_numeral)
qed

end
