(* ===== verification/Fork.thy ===== *)
theory Fork
  imports User_Lib
begin

text \<open>
  Copy-on-write fork at user level: \<^verbatim>\<open>lib/fork.c\<close> and \<^verbatim>\<open>lib/pgfault.c\<close>, as sequences of system
  calls. \<^verbatim>\<open>_pgfault_handler\<close> is a variable of the program, passed in and returned; \<open>upcall\<close> is the address
  of \<^verbatim>\<open>_pgfault_upcall\<close>. Stores that the compiled code makes to its own stack between the calls are not
  part of the model; when they hit a page that has just been marked, \<open>pgfault\<close> serves the fault.
\<close>

section \<open>Definitions\<close>

definition pgfault :: "u32 \<Rightarrow> u32 \<Rightarrow> (kstate, unit) op" where
  "pgfault utf_fault_va err =
     (let addr = ROUNDDOWN utf_fault_va PGSIZE; perm = PTE_P OR PTE_W OR PTE_U
      in if err AND 2 = 0 then kpanic ''At pgfault:Page fault not write fault''
         else kbind (uvpt (PGNUM addr)) (\<lambda>pte.
              if pte AND (PTE_COW OR PTE_W) = 0 then kpanic ''At pgfault:Page fault not Copy-on-write''
              else kbind lib_sys_getenvid (\<lambda>i. let id = word_of_int i in
                   kbind (lib_sys_page_alloc id PFTEMP perm) (\<lambda>r.
                   if r < 0 then kpanic ''At pagefault page_alloc''
                   else kthen (umemcpy PFTEMP addr PGSIZE)
                       (kbind (lib_sys_page_map id PFTEMP id addr perm) (\<lambda>r.
                        if r < 0 then kpanic ''At pagefault page_map''
                        else kbind (lib_sys_page_unmap id PFTEMP) (\<lambda>r.
                             if r < 0 then kpanic ''At pagefault page_unmap'' else kret ())))))))"

text \<open>\<open>set_pgfault_handler\<close> returns the new value of \<^verbatim>\<open>_pgfault_handler\<close>.\<close>

definition set_pgfault_handler :: "u32 \<Rightarrow> u32 \<Rightarrow> u32 \<Rightarrow> (kstate, u32) op" where
  "set_pgfault_handler upcall cur handler =
     (if cur = 0
      then kbind lib_sys_getenvid (\<lambda>i. let id = word_of_int i in
           kbind (lib_sys_page_alloc id (UXSTACKTOP - PGSIZE) (PTE_P OR PTE_W OR PTE_U)) (\<lambda>r.
           if r < 0 then kpanic ''At set_pgfault_handler:allocating''
           else kbind (lib_sys_env_set_pgfault_upcall id upcall) (\<lambda>r.
                if r < 0 then kpanic ''At set_pgfault_handler'' else kret handler)))
      else kret handler)"

definition duppage :: "u32 \<Rightarrow> u32 \<Rightarrow> (kstate, int) op" where
  "duppage envid pn =
     kbind lib_sys_getenvid (\<lambda>i. let id = word_of_int i; va = pn * PGSIZE; perm = PTE_P OR PTE_U in
     kbind (uvpt pn) (\<lambda>pte.
     if pte AND PTE_W \<noteq> 0 \<or> pte AND PTE_COW \<noteq> 0
     then kbind (lib_sys_page_map id va envid va (perm OR PTE_COW)) (\<lambda>r.
          if r < 0 then kret r
          else kbind (lib_sys_page_map id va id va (perm OR PTE_COW)) (\<lambda>r.
               if r < 0 then kret r else kret 0))
     else if pte AND PTE_SHARE \<noteq> 0
     then kbind (lib_sys_page_map id va envid va (pte AND PTE_SYSCALL)) (\<lambda>r. if r < 0 then kret r else kret 0)
     else kbind (lib_sys_page_map id va envid va perm) (\<lambda>r. if r < 0 then kret r else kret 0)))"

text \<open>The loop over the address space below the stack top.\<close>

lemma fork_loop_measure: "i < USTACKTOP \<Longrightarrow> (4005552128 :: nat) - unat (i + PGSIZE) < 4005552128 - unat i"
proof -
  assume "i < USTACKTOP"
  then have "unat i < 4005552128" by (simp add: word_less_nat_alt)
  moreover from this have "unat (i + PGSIZE) = unat i + 4096"
    using unat_add_lt32 [of i PGSIZE] by simp
  ultimately show ?thesis by simp
qed

function fork_loop :: "u32 \<Rightarrow> u32 \<Rightarrow> (kstate, int) op" where
  "fork_loop child_id i =
     (if i < USTACKTOP
      then kbind (uvpd (PDX i)) (\<lambda>pde.
           if pde AND PTE_P = 0 then fork_loop child_id (i + PGSIZE)
           else kbind (uvpt (PGNUM i)) (\<lambda>pte.
                if pte AND PTE_P = 0 then fork_loop child_id (i + PGSIZE)
                else kbind (duppage child_id (PGNUM i)) (\<lambda>ret.
                     if ret < 0 then kret ret else fork_loop child_id (i + PGSIZE))))
      else kret 0)"
  by pat_completeness auto
termination by (relation "measure (\<lambda>(_, i). 4005552128 - unat i)") (auto intro: fork_loop_measure)

declare fork_loop.simps [simp del]

text \<open>The result with the new values of \<^verbatim>\<open>_pgfault_handler\<close> and, in the child, of \<^verbatim>\<open>thisenv\<close>.\<close>

definition fork :: "u32 \<Rightarrow> u32 \<Rightarrow> u32 \<Rightarrow> (kstate, int \<times> u32 \<times> nat option) op" where
  "fork upcall cur handler =
     kbind (set_pgfault_handler upcall cur handler) (\<lambda>hd.
     kbind lib_sys_exofork (\<lambda>i.
     if i < 0 then kret (i, hd, None)
     else if i = 0 then kbind lib_sys_getenvid (\<lambda>me. kret (0, hd, Some (ENVX (word_of_int me))))
     else let child_id = word_of_int i in
       kbind (lib_sys_page_alloc child_id (UXSTACKTOP - PGSIZE) (PTE_P OR PTE_W OR PTE_U)) (\<lambda>ret.
       if ret < 0 then kret (ret, hd, None)
       else kbind (lib_sys_env_set_pgfault_upcall child_id upcall) (\<lambda>ret.
            if ret < 0 then kret (ret, hd, None)
            else kbind (fork_loop child_id 0) (\<lambda>ret.
                 if ret < 0 then kret (ret, hd, None)
                 else kbind (lib_sys_env_set_status child_id 2) (\<lambda>ret.
                      if ret < 0 then kret (ret, hd, None) else kret (i, hd, None)))))))"

definition sfork :: "(kstate, int) op" where
  "sfork = kpanic ''sfork not implemented''"

end
