(* ===== verification/Fork_Calls.thy ===== *)
theory Fork_Calls
  imports Fork
begin

text \<open>
  The system calls as a running program uses them: each keeps \<open>user_runs\<close>, changes one mapping, and leaves
  the contents of pages alone. Reference counts are the number of places where a page is mapped, which
  tells how many more mappings a page can take.
\<close>

section \<open>Calls\<close>

lemma self_id:
  assumes "user_runs kd ext c s"
  shows "lib_sys_getenvid s = Ret (sint (env_id (envs s c))) s" and "names (env_id (envs s c)) c s = Some c"
    and "may_touch c c s" and "word_of_int (sint (env_id (envs s c))) = env_id (envs s c)"
proof -
  note D = user_runsD [OF assms]
  have "sys_getenvid s = Ret (sint (env_id (envs s c))) s"
    by (simp add: sys_getenvid_def curenv_get_in [OF D(1)])
  then show "lib_sys_getenvid s = Ret (sint (env_id (envs s c))) s" by (rule stub_Ret)
  have "env_id (envs s c) \<noteq> 0" using kernel_okD(5) [OF D(2,4)] by auto
  then show "names (env_id (envs s c)) c s = Some c"
    using kernel_okD(4) [OF D(2,4)] D(4) by (simp add: names_def)
qed (simp_all add: may_touch_def)

lemma ucall_alloc:
  assumes r: "user_runs kd ext c s" and va: "\<not> bad_va va" "\<not> bad_perm perm" and e: "names envid c s = Some e" "may_touch c e s"
  obtains (mapped) pg s' where "lib_sys_page_alloc envid va perm s = Ret 0 s'" and "user_runs kd ext c s'" and "pg \<in> free_pages s"
      and "space_upd s s' e va (Some (pg, perm OR PTE_P))" and "data_kept s s' (dirs s)"
      and "\<And>k. k < 1024 \<Longrightarrow> slot s' pg k = 0" and "live s' = live s" and "dir_of s' = dir_of s" and "dirs s' = dirs s"
  | (no_mem) s' where "lib_sys_page_alloc envid va perm s = Ret (- E_NO_MEM) s'" and "user_runs kd ext c s'"
      and "same_spaces s s'" and "data_kept s s' (dirs s)" and "\<exists>p. free_pages s \<subseteq> {p}" and "free_pages s' = free_pages s"
      and "live s' = live s" and "dir_of s' = dir_of s" and "dirs s' = dirs s"
proof (rule sys_page_alloc_ok [OF user_runsD(1) [OF r] va e])
  fix pg s' assume a: "sys_page_alloc envid va perm s = Ret 0 s'" "kernel_ok kd ext s'" "pg \<in> free_pages s"
    "space_upd s s' e va (Some (pg, perm OR PTE_P))" "vm_frame s s'" "data_kept s s' (dirs s)" "\<And>k. k < 1024 \<Longrightarrow> slot s' pg k = 0"
  show thesis
    using stub_Ret(1) [OF a(1)] user_runs_vm [OF r a(2,5,6)] a(3,4,6,7) by (intro mapped [of s' pg]) auto
next
  fix s' assume a: "sys_page_alloc envid va perm s = Ret (- E_NO_MEM) s'" "kernel_ok kd ext s'"
    "same_spaces s s'" "vm_frame s s'" "data_kept s s' (dirs s)" "\<exists>p. free_pages s \<subseteq> {p}" "free_pages s' = free_pages s"
  show thesis
    using stub_Ret(1) [OF a(1)] user_runs_vm [OF r a(2,4,5)] a(3,5-7) by (intro no_mem [of s']) auto
qed

lemma ucall_map:
  assumes r: "user_runs kd ext c s" and va: "\<not> bad_va srcva" "\<not> bad_va dstva" "\<not> bad_perm perm"
    and src: "names srcenvid c s = Some se" "may_touch c se s" and dst: "names dstenvid c s = Some de" "may_touch c de s"
    and v: "vmap s (dir_of s se) srcva = Some (p, pm)" and w: "perm AND PTE_W \<noteq> 0 \<Longrightarrow> pm AND PTE_W \<noteq> 0"
    and room: "unat (pp_ref (pages s p)) < 65535"
  obtains (mapped) s' where "lib_sys_page_map srcenvid srcva dstenvid dstva perm s = Ret 0 s'" and "user_runs kd ext c s'"
      and "space_upd s s' de dstva (Some (p, perm OR PTE_P))" and "data_kept s s' (dirs s)"
      and "live s' = live s" and "dir_of s' = dir_of s" and "dirs s' = dirs s"
  | (no_mem) "lib_sys_page_map srcenvid srcva dstenvid dstva perm s = Ret (- E_NO_MEM) s" and "free_pages s = {}"
      and "\<not> present (slot s (dir_of s de) (unat (PDX dstva)))"
proof (rule sys_page_map_ok [OF user_runsD(1) [OF r] va src dst])
  show "unat (pp_ref (pages s q)) < 65535" if "vmap s (dir_of s se) srcva = Some (q, pn)" for q pn
    using that v room by simp
next
  assume "case vmap s (dir_of s se) srcva of None \<Rightarrow> True | Some (pg, pm) \<Rightarrow> pm AND PTE_W = 0 \<and> perm AND PTE_W \<noteq> 0"
  then show thesis using v w by auto
next
  assume "sys_page_map srcenvid srcva dstenvid dstva perm s = Ret (- E_NO_MEM) s" "free_pages s = {}"
    "\<not> present (slot s (dir_of s de) (unat (PDX dstva)))"
  then show thesis by (intro no_mem) (auto intro: stub_Ret)
next
  fix q pn s' assume a: "sys_page_map srcenvid srcva dstenvid dstva perm s = Ret 0 s'" "kernel_ok kd ext s'"
    "vmap s (dir_of s se) srcva = Some (q, pn)" "space_upd s s' de dstva (Some (q, perm OR PTE_P))"
    "vm_frame s s'" "data_kept s s' (dirs s)"
  then show thesis
    using stub_Ret(2) [OF a(1)] user_runs_vm [OF r a(2,5,6)] v by (intro mapped [of s']) auto
qed

lemma ucall_unmap:
  assumes r: "user_runs kd ext c s" and va: "\<not> bad_va va" and e: "names envid c s = Some e" "may_touch c e s"
  obtains s' where "lib_sys_page_unmap envid va s = Ret 0 s'" and "user_runs kd ext c s'"
    and "space_upd s s' e va None" and "data_kept s s' (dirs s)"
    and "live s' = live s" and "dir_of s' = dir_of s" and "dirs s' = dirs s"
proof (rule sys_page_unmap_ok [OF user_runsD(1) [OF r] va e])
  fix s' assume a: "sys_page_unmap envid va s = Ret 0 s'" "kernel_ok kd ext s'" "space_upd s s' e va None"
    "vm_frame s s'" "data_kept s s' (dirs s)"
  show thesis
    using stub_Ret(3) [OF a(1)] user_runs_vm [OF r a(2,4,5)] a(3,5) by (intro that [of s']) auto
qed

section \<open>Counting mappings\<close>

definition mappers :: "kstate \<Rightarrow> nat set \<Rightarrow> nat \<Rightarrow> (nat \<times> nat) set" where
  "mappers s D p = {(d, n). d \<in> D \<and> n < 977920 \<and> (\<exists>pm. vmap s d (of_nat (4096 * n)) = Some (p, pm))}"

lemma page_index:
  assumes "n < 977920"
  shows "unat (PDX (of_nat (4096 * n))) = n div 1024" and "unat (PTX (of_nat (4096 * n))) = n mod 1024"
    and "unat (PDX (of_nat (4096 * n))) < 955" and "unat (PGNUM (of_nat (4096 * n))) = n"
proof -
  have u: "unat (of_nat (4096 * n) :: u32) = 4096 * n" using assms by (intro unat_page_addr) simp
  show "unat (PDX (of_nat (4096 * n))) = n div 1024" "unat (PTX (of_nat (4096 * n))) = n mod 1024" "unat (PGNUM (of_nat (4096 * n))) = n"
    by (simp_all only: unat_PDX unat_PTX unat_PGNUM u) (simp_all add: div_mult2_eq [of _ 4096 1024, simplified])
  then show "unat (PDX (of_nat (4096 * n))) < 955" using assms by simp
qed

lemma mappers_maps:
  assumes ok: "vm_ok s D ext"
  shows "card (mappers s D p) = card {m \<in> maps s D. mfr s m = p}" and "finite (mappers s D p)"
proof -
  let ?f = "\<lambda>((d, i), j). (d, 1024 * i + j) :: nat \<times> nat" and ?M = "{m \<in> maps s D. mfr s m = p}"
  have bnd: "d \<in> D" "i < 955" "j < 1024" if "((d, i), j) \<in> maps s D" for d i j
    using that by (auto simp: maps_def tables_def)
  have inj: "inj_on ?f ?M"
  proof (rule inj_onI)
    fix x y assume x: "x \<in> ?M" and y: "y \<in> ?M" and eq: "?f x = ?f y"
    obtain d i j d' i' j' where xy: "x = ((d, i), j)" "y = ((d', i'), j')" by (metis surj_pair)
    have "j < 1024" "j' < 1024" using bnd(3) x y xy by blast+
    then show "x = y" using eq xy slot_index_inj [of j j' i i'] by simp
  qed
  have "mappers s D p = ?f ` ?M"
  proof (intro set_eqI iffI)
    fix x assume "x \<in> mappers s D p"
    then obtain d n pm where x: "x = (d, n)" "d \<in> D" "n < 977920" "vmap s d (of_nat (4096 * n)) = Some (p, pm)"
      by (auto simp: mappers_def)
    define va :: u32 where "va = of_nat (4096 * n)"
    note I = page_index [OF x(3), folded va_def] and v = x(4) [folded va_def]
    have "((d, n div 1024), n mod 1024) \<in> ?M"
      using vmap_maps [OF ok x(2) I(3)] v by (simp add: I(1,2))
    then show "x \<in> ?f ` ?M" by (rule rev_image_eqI) (simp add: x(1))
  next
    fix x assume "x \<in> ?f ` ?M"
    then obtain d i j where x: "x = (d, 1024 * i + j)" "((d, i), j) \<in> maps s D" "mfr s ((d, i), j) = p" by auto
    note b = bnd [OF x(2)]
    have n: "1024 * i + j < 977920" using b by simp
    define va :: u32 where "va = of_nat (4096 * (1024 * i + j))"
    note I = page_index [OF n, folded va_def]
    have ij: "unat (PDX va) = i" "unat (PTX va) = j" using I(1,2) b(3) by simp_all
    then have "vmap s d va \<noteq> None" using vmap_maps(1) [OF ok b(1) I(3)] x(2) by simp
    then obtain q pm where v: "vmap s d va = Some (q, pm)" by auto
    then have "q = p" using vmap_maps(2) [OF ok b(1) I(3) v] x(3) ij by simp
    then show "x \<in> mappers s D p" unfolding x(1) mappers_def using b(1) n v va_def by blast
  qed
  then show "card (mappers s D p) = card ?M" "finite (mappers s D p)"
    using card_image [OF inj] finite_maps [OF vm_okD(2) [OF ok], of s] by simp_all
qed

lemma pp_ref_mappers:
  assumes ok: "vm_ok s D ext" and p: "data_page s D p" "p < unat (npages s)"
  shows "unat (pp_ref (pages s p)) = card (mappers s D p) + ext p"
proof -
  have "{t \<in> tables s D. tfr s t = p} = {}" "p \<notin> D" using p(1) by (auto simp: data_page_def)
  then have "refs s D p = card {m \<in> maps s D. mfr s m = p}" by (simp only: refs_def card.empty if_False add_0_right)
  then show ?thesis
    using vm_okD(8) [OF ok p(2)] mappers_maps(1) [OF ok, of p] by simp
qed

text \<open>A page that nobody maps yet, and its count after one mapping.\<close>

lemma free_no_mappers: "vm_ok s D ext \<Longrightarrow> p \<in> free_pages s \<Longrightarrow> mappers s D p = {}"
  using free_not_mapped [of s D ext p] page_index(3) by (auto simp: mappers_def)

end
