(* ===== verification/Sample_User.thy ===== *)
theory Sample_User
  imports Sample_Kernel User_Lib
begin

text \<open>
  The sample machine with memory for its environment, which runs at user level: frame 2 is the page table of
  directory entry \<open>d\<close>, and frame 7 is mapped by its first entry, with permission \<open>f\<close>. In
  \<open>sample_user\<close> this is a copy-on-write page at address 0x800000, in \<open>sample_fds\<close> the page of descriptor 0.
\<close>

definition sample_at :: "nat \<Rightarrow> u32 \<Rightarrow> kstate" where
  "sample_at d f = set_slot 2 0 (page2pa 7 OR f) (set_slot 1 d (page2pa 2 OR 7)
     (sample\<lparr>pages := \<lambda>i. (sample_pages i)\<lparr>pp_ref := (if i \<in> {1, 2, 6, 7} then 1 else 0)\<rparr>\<rparr>))"

definition sample_perm :: "u32 \<Rightarrow> bool" where
  "sample_perm f \<longleftrightarrow> f = 0x805 \<or> f = 0x407"

lemma sample_at_fields [simp]:
  "npages (sample_at d f) = 8" "page_free_list (sample_at d f) = Some 3" "envs (sample_at d f) = sample_env" "env_free_list (sample_at d f) = Some 1"
  "cpus (sample_at d f) = cpus sample" "cpunum (sample_at d f) = 0" "kern_pgdir (sample_at d f) = kv 6" "cr3 (sample_at d f) = page2pa 1"
  "kernel_lock (sample_at d f) = kernel_lock sample"
  "pages (sample_at d f) i = (sample_pages i)\<lparr>pp_ref := (if i \<in> {1, 2, 6, 7} then 1 else 0)\<rparr>"
  by (simp_all add: sample_at_def) (simp_all add: set_slot_def)

lemma sample_at_slot:
  assumes "i < 1024" and "d < 955" and "sample_perm f"
  shows "slot (sample_at d f) p i = (if p = 1 \<and> i = d then 0x2007 else if p = 2 \<and> i = 0 then 0x7000 + f else 0)"
proof -
  have "slot (sample\<lparr>pages := P\<rparr>) p i = 0" for P using sample_slot [of p i] by (simp add: slot_def)
  then show ?thesis using assms by (auto simp: sample_at_def slot_set_slot page2pa_def sample_perm_def)
qed

lemma sample_at_tables:
  assumes "d < 955" and "sample_perm f"
  shows "tables (sample_at d f) {1} = {(1, d)}" "tfr (sample_at d f) (1, d) = 2"
    "maps (sample_at d f) {1} = {((1, d), 0)}" "mfr (sample_at d f) ((1, d), 0) = 7"
proof -
  note S = sample_at_slot [OF _ assms]
  have o: "frame (0x7000 + f) = 7" "present (0x7000 + f)" using assms(2) by (auto simp: sample_perm_def frame_def PGNUM_def)
  show t: "tables (sample_at d f) {1} = {(1, d)}" "tfr (sample_at d f) (1, d) = 2"
    using assms(1) by (auto simp: tables_def tfr_def S frame_def PGNUM_def split: if_splits)
  show "maps (sample_at d f) {1} = {((1, d), 0)}"
    unfolding maps_def t(1) using t(2) o(2) by (auto simp: S split: if_splits)
  show "mfr (sample_at d f) ((1, d), 0) = 7"
    unfolding mfr_def fst_conv snd_conv t(2) using o(1) by (simp add: S)
qed

lemma sample_at_free: "free_list (sample_at d f) [3, 4, 5]" "free_pages (sample_at d f) = {3, 4, 5}" "pages_ok (sample_at d f)"
proof -
  show l: "free_list (sample_at d f) [3, 4, 5]" by (simp add: free_list_def sample_pages_def)
  show "free_pages (sample_at d f) = {3, 4, 5}" using free_pages_eq [OF l] by simp
  show "pages_ok (sample_at d f)" by (rule pages_okI [OF _ l]) (auto simp: sample_pages_def)
qed

lemma sample_at_vm_ok:
  assumes "d < 955" and "sample_perm f"
  shows "vm_ok (sample_at d f) {1} sample_ext"
proof (rule vm_okI)
  note T = sample_at_tables [OF assms]
  have m: "{m \<in> maps (sample_at d f) {1}. mfr (sample_at d f) m = q} = (if q = 7 then {((1, d), 0)} else {})" for q
    unfolding T(3) using T(4) by auto
  have t: "{t \<in> tables (sample_at d f) {1}. tfr (sample_at d f) t = q} = (if q = 2 then {(1, d)} else {})" for q
    unfolding T(1) using T(2) by auto
  show "unat (pp_ref (pages (sample_at d f) q)) = refs (sample_at d f) {1} q + sample_ext q" for q
    unfolding refs_def m t by (simp add: sample_ext_def)
qed (use sample_at_free(3) sample_at_tables [OF assms] in \<open>simp_all\<close>)

lemma sample_at_live: "live (sample_at d f) = {0}" "dir_of (sample_at d f) 0 = 1" "dirs (sample_at d f) = {1}"
  using sample_live sample_dir by (simp_all add: live_def dir_of_def dirs_def)

lemma sample_at_runs:
  assumes "d < 955" and "sample_perm f"
  shows "user_runs 6 sample_ext 0 (sample_at d f)"
proof -
  have "vm_ok (sample_at d f) (dirs sample) sample_ext" using sample_at_vm_ok [OF assms] by (simp add: dirs_def sample_live sample_dir)
  then have "kernel_ok 6 sample_ext (sample_at d f)"
    by (rule kernel_ok_cong(1) [OF sample_kernel_ok]) (simp_all add: curenv_def sample_live)
  moreover have "pdes_open (sample_at d f) {1}" by (simp add: pdes_open_def sample_at_slot [OF _ assms])
  ultimately show ?thesis
    by (simp add: user_runs_def in_syscall_def curenv_def holding_def sample_at_live)
qed

lemma sample_at_vmap:
  assumes "d < 955" and "sample_perm f"
  shows "vmap (sample_at d f) 1 va = (if unat (PDX va) = d \<and> unat (PTX va) = 0 then Some (7, f) else None)"
proof -
  have o: "frame (0x7000 + f) = 7" "present (0x7000 + f)" "(0x7000 + f) AND 0xFFF = f" using assms(2) by (auto simp: sample_perm_def frame_def PGNUM_def)
  show ?thesis using o by (auto simp: vmap_def Let_def sample_at_slot [OF _ assms] frame_def PGNUM_def)
qed

section \<open>The two samples\<close>

definition sample_user :: kstate where
  "sample_user = sample_at 2 0x805"

definition sample_fds :: kstate where
  "sample_fds = sample_at 832 0x407"

lemma sample_perms [simp]: "sample_perm 0x805" "sample_perm 0x407"
  by (simp_all add: sample_perm_def)

lemma sample_dirs: "(2 :: nat) < 955" "(832 :: nat) < 955"
  by simp_all

lemma sample_user_free: "free_pages sample_user = {3, 4, 5}"
  by (simp add: sample_user_def sample_at_free)

lemma sample_user_live: "live sample_user = {0}" "dir_of sample_user 0 = 1" "dirs sample_user = {1}"
  by (simp_all only: sample_user_def sample_at_live)

lemma sample_user_runs: "user_runs 6 sample_ext 0 sample_user"
  by (simp add: sample_user_def sample_at_runs)

lemma sample_user_pages: "pages sample_user i = (sample_pages i)\<lparr>pp_ref := (if i \<in> {1, 2, 6, 7} then 1 else 0)\<rparr>"
  by (simp add: sample_user_def)

lemma sample_user_vmap: "vmap sample_user 1 va = (if PGNUM va = 0x800 then Some (7, 0x805) else None)"
proof -
  have "PGNUM va = 0x800 \<longleftrightarrow> unat (PDX va) = 2 \<and> unat (PTX va) = 0"
    using PGNUM_eq_iff [of va "0x800000"] by (simp add: PDX_def PTX_def PGNUM_def word_unat_eq_iff)
  then show ?thesis unfolding sample_user_def sample_at_vmap [OF sample_dirs(1) sample_perms(1)] by simp
qed

lemma sample_fds_vmap: "vmap sample_fds 1 va = (if PGNUM va = 0xD0000 then Some (7, 0x407) else None)"
proof -
  have "PGNUM va = 0xD0000 \<longleftrightarrow> unat (PDX va) = 832 \<and> unat (PTX va) = 0"
    using PGNUM_eq_iff [of va "0xD0000000"] by (simp add: PDX_def PTX_def PGNUM_def word_unat_eq_iff)
  then show ?thesis unfolding sample_fds_def sample_at_vmap [OF sample_dirs(2) sample_perms(2)] by simp
qed

lemma sample_fds_facts: "user_runs 6 sample_ext 0 sample_fds" "dir_of sample_fds 0 = 1" "unat (pp_ref (pages sample_fds i)) \<le> 1"
  by (simp_all add: sample_fds_def sample_at_runs sample_at_live)

end
