(* ===== verification/Fork_Theorems.thy ===== *)
theory Fork_Theorems
  imports Fork_Calls Sample_User
begin

text \<open>
  What copy-on-write promises: a served write fault gives the program a private, writable copy with the
  same contents, and \<open>fork\<close> gives the child the parent's memory, without either being able to change
  what the other sees. \<open>umem s i va\<close> is the byte that environment \<open>i\<close> reads at \<open>va\<close>.
\<close>

section \<open>Serving a write fault\<close>

lemma space_updD:
  assumes "space_upd s s' e va m"
  shows "envs s' = envs s" and "i \<in> live s \<Longrightarrow> unat (PDX va') < UPDES \<Longrightarrow>
    vmap s' (dir_of s i) va' = (if i = e \<and> PGNUM va' = PGNUM va then m else vmap s (dir_of s i) va')"
  using assms by (auto simp: space_upd_def)

lemma and_mask_mono: "m AND n = n \<Longrightarrow> w AND n \<noteq> 0 \<Longrightarrow> w AND m \<noteq> 0" for w m n :: u32
proof
  assume e: "m AND n = n" and "w AND n \<noteq> 0" and "w AND m = 0"
  then have "(w AND m) AND n = 0" by simp
  moreover have "(w AND m) AND n = w AND n" unfolding and.assoc e ..
  ultimately show False using \<open>w AND n \<noteq> 0\<close> by simp
qed

text \<open>A page just allocated is mapped once.\<close>

lemma fresh_room:
  assumes r: "user_runs kd ext c s" "user_runs kd ext c s'" and sp: "space_upd s s' e va (Some (p, pm))"
    and d: "dir_of s' = dir_of s" "dirs s' = dirs s" and p: "p \<in> free_pages s" and va: "unat (PDX va) < UPDES" and e: "e \<in> live s"
  shows "unat (pp_ref (pages s' p)) \<le> 1"
proof -
  note D = user_runsD [OF r(1)] and D' = user_runsD [OF r(2)]
  note U = space_updD [OF sp]
  have "mappers s' (dirs s') p \<subseteq> {(dir_of s e, unat (PGNUM va))}"
  proof
    fix x assume "x \<in> mappers s' (dirs s') p"
    then obtain i n pn where x: "x = (dir_of s i, n)" "i \<in> live s" "n < 977920" "vmap s' (dir_of s i) (of_nat (4096 * n)) = Some (p, pn)"
      using d by (auto simp: mappers_def dirs_def)
    note I = page_index [OF x(3)]
    have "vmap s (dir_of s i) (of_nat (4096 * n)) \<noteq> Some (p, pn)"
      using free_not_mapped [OF D(7) p _ I(3)] x(2) by (auto simp: dirs_def)
    then have "i = e" "PGNUM (of_nat (4096 * n)) = PGNUM va"
      using U(2) [OF x(2) I(3)] x(4) by (auto split: if_splits)
    then show "x \<in> {(dir_of s e, unat (PGNUM va))}" using I(4) x(1) by simp
  qed
  then have "card (mappers s' (dirs s') p) \<le> 1"
    using card_mono [of "{(dir_of s e, unat (PGNUM va))}"] by simp
  moreover have v: "vmap s' (dir_of s e) va = Some (p, pm)" using U(2) [OF e va] by simp
  have "dir_of s e \<in> dirs s'" using e d(2) by (simp add: dirs_def)
  from mapped_data_page [OF D'(7) this va v] have "data_page s' (dirs s') p" "p < unat (npages s')" .
  moreover have "ext p = 0" using free_not_used(4) [OF D(7) p] .
  ultimately show ?thesis using pp_ref_mappers [OF D'(7)] by simp
qed

lemma ROUNDDOWN_user:
  assumes "va < UTOP"
  shows "\<not> bad_va (ROUNDDOWN va PGSIZE)" and "PGNUM (ROUNDDOWN va PGSIZE) = PGNUM va" and "unat (PDX va) < UPDES"
    and "ROUNDDOWN va PGSIZE mod 4096 = 0"
proof -
  have u: "unat (ROUNDDOWN va PGSIZE) = 4096 * (unat va div 4096)"
    by (simp add: unat_ROUNDDOWN minus_mod_eq_mult_div)
  show m: "ROUNDDOWN va PGSIZE mod 4096 = 0"
    by (rule word_eq_unatI) (simp add: unat_mod u)
  show "\<not> bad_va (ROUNDDOWN va PGSIZE)"
    using m assms ROUNDDOWN_le [of va PGSIZE] by (simp add: bad_va_def not_le)
  show "PGNUM (ROUNDDOWN va PGSIZE) = PGNUM va"
    by (rule word_eq_unatI) (simp add: unat_PGNUM u)
  show "unat (PDX va) < UPDES" using assms by (intro user_va_below) (simp add: word_less_nat_alt)
qed

lemma uvpt_flags:
  assumes r: "user_runs kd ext c s" and va: "unat (PDX va) < UPDES" and v: "vmap s (dir_of s c) va = Some (p, pm)"
  obtains pte where "uvpt (PGNUM va) s = Ret pte s" and "pte AND 0xFFF = pm" and "\<And>m. m AND 0xFFF = m \<Longrightarrow> pte AND m = pm AND m"
    and "uvpd (PDX va) s = Ret (slot s (dir_of s c) (unat (PDX va))) s" and "present (slot s (dir_of s c) (unat (PDX va)))"
    and "present pte"
proof -
  let ?pde = "slot s (dir_of s c) (unat (PDX va))"
  let ?pte = "slot s (frame ?pde) (unat (PTX va))"
  have p: "present ?pde" "present ?pte" "?pte AND 0xFFF = pm" using v by (auto simp: vmap_def Let_def split: if_splits)
  have "?pte AND m = pm AND m" if "m AND 0xFFF = m" for m
  proof -
    have "0xFFF AND m = m" using that by (simp only: and.commute)
    then have "(?pte AND 0xFFF) AND m = ?pte AND m" by (simp only: and.assoc)
    then show ?thesis using p(3) by simp
  qed
  then show thesis
    using uvpt_ok [OF r va] uvpd_ok [OF r, of "PDX va"] p by (intro that [of ?pte]) (auto simp: tfr_def)
qed

text \<open>The steps of \<open>pgfault\<close> from a state in which the faulting page is mapped and can be read.\<close>

lemma pgfault_ok:
  assumes r: "user_runs kd ext c s" and err: "err AND 2 \<noteq> 0" and va: "fva < UTOP" "PGNUM fva \<noteq> PGNUM PFTEMP"
    and v: "vmap s (dir_of s c) fva = Some (q, pm)" "pm AND 5 = 5" "pm AND (PTE_COW OR PTE_W) \<noteq> 0"
    and mem: "\<And>p. \<not> free_pages s \<subseteq> {p}"
  obtains p s1 s3 s' where "pgfault fva err s = Ret () s'" and "p \<in> free_pages s" and "p \<noteq> q"
    and "user_runs kd ext c s1" "space_upd s s1 c PFTEMP (Some (p, 7))" "data_kept s s1 (dirs s)"
    and "user_runs kd ext c s3" "space_upd (copied s1 p q 4096) s3 c fva (Some (p, 7))" "data_kept (copied s1 p q 4096) s3 (dirs s)"
    and "user_runs kd ext c s'" "space_upd s3 s' c PFTEMP None" "data_kept s3 s' (dirs s)"
    and "data_page s1 (dirs s) p" "live s1 = live s" "dir_of s1 = dir_of s" "dirs s1 = dirs s"
    and "live s3 = live s" "dir_of s3 = dir_of s" "dirs s3 = dirs s" "live s' = live s" "dir_of s' = dir_of s" "dirs s' = dirs s"
    and "\<And>k. k < 1024 \<Longrightarrow> slot (copied s1 p q 4096) p k = slot s q k"
proof -
  let ?a = "ROUNDDOWN fva PGSIZE" and ?id = "env_id (envs s c)"
  note R = ROUNDDOWN_user [OF va(1)] and D = user_runsD [OF r] and S = self_id [OF r]
  have pt: "\<not> bad_va PFTEMP" "\<not> bad_perm 7" "PFTEMP mod 4096 = (0::u32)" by (simp_all add: bad_va_def bad_perm_def)
  note pdx = good_va_PDX [OF pt(1)] good_va_PDX [OF R(1)]
  have va_s: "vmap s (dir_of s c) ?a = Some (q, pm)" using vmap_page [OF R(2)] v(1) by simp
  obtain pte where pte: "uvpt (PGNUM ?a) s = Ret pte s" "pte AND (PTE_COW OR PTE_W) = pm AND (PTE_COW OR PTE_W)"
    by (rule uvpt_flags [OF r pdx(2) va_s]) (rule that, assumption, simp)
  show thesis
  proof (rule ucall_alloc [OF r pt(1,2) S(2,3)])
    fix s1 assume "\<exists>p. free_pages s \<subseteq> {p}"
    then show thesis using mem by blast
  next
    fix p s1 assume a: "lib_sys_page_alloc ?id PFTEMP 7 s = Ret 0 s1" "user_runs kd ext c s1" "p \<in> free_pages s"
      "space_upd s s1 c PFTEMP (Some (p, 7 OR PTE_P))" "data_kept s s1 (dirs s)" "live s1 = live s" "dir_of s1 = dir_of s" "dirs s1 = dirs s"
    note U1 = space_updD [OF a(4)] and D1 = user_runsD [OF a(2)]
    have v1: "vmap s1 (dir_of s1 c) PFTEMP = Some (p, 7)" "vmap s1 (dir_of s1 c) ?a = Some (q, pm)"
      using U1(2) [OF D(4) pdx(1)] U1(2) [OF D(4) pdx(2)] va_s va(2) R(2) a(7) by simp_all
    have qp: "q \<noteq> p" using free_not_mapped [OF D(7) a(3) D(8) pdx(2)] va_s by auto
    note cp = umemcpy_page [OF a(2) R(4) pdx(2) v1(2) v(2) pt(3) pdx(1) v1(1) _ qp, simplified]
    let ?s2 = "copied s1 p q 4096"
    have dp: "data_page s1 (dirs s1) p" using cp(3) a(8) by simp
    note C = copied_ok [OF a(2) dp, where q = q and n = 4096]
    have v2: "vmap ?s2 (dir_of ?s2 c) PFTEMP = Some (p, 7)" "vmap ?s2 (dir_of ?s2 c) ?a = Some (q, pm)"
      using C(2) [OF D1(8)] pdx v1 by (simp_all add: C(6))
    have e2: "envs ?s2 = envs s" "pages ?s2 = pages s1" using U1(1) by (simp_all add: copied_def)
    have "unat (pp_ref (pages ?s2 p)) \<le> 1"
      using fresh_room [OF r a(2,4,7,8,3) pdx(1) D(4)] e2(2) by simp
    then have room: "unat (pp_ref (pages ?s2 p)) < 65535" by simp
    note S2 = self_id(2,3) [OF C(1), unfolded e2(1)]
    show thesis
    proof (rule ucall_map [OF C(1) pt(1) R(1) pt(2) S2 S2 v2(1) _ room])
      assume "\<not> present (slot ?s2 (dir_of ?s2 c) (unat (PDX ?a)))"
      then show thesis using v2(2) by (simp add: vmap_def Let_def split: if_splits)
    next
      fix s3 assume b: "lib_sys_page_map ?id PFTEMP ?id ?a 7 ?s2 = Ret 0 s3" "user_runs kd ext c s3"
        "space_upd ?s2 s3 c ?a (Some (p, 7 OR PTE_P))" "data_kept ?s2 s3 (dirs ?s2)" "live s3 = live ?s2" "dir_of s3 = dir_of ?s2" "dirs s3 = dirs ?s2"
      have e3: "envs s3 = envs s" using space_updD(1) [OF b(3)] e2 by simp
      note S3 = self_id(2,3) [OF b(2), unfolded e3]
      show thesis
      proof (rule ucall_unmap [OF b(2) pt(1) S3])
        fix s' assume d: "lib_sys_page_unmap ?id PFTEMP s3 = Ret 0 s'" "user_runs kd ext c s'" "space_upd s3 s' c PFTEMP None"
          "data_kept s3 s' (dirs s3)" "live s' = live s3" "dir_of s' = dir_of s3" "dirs s' = dirs s3"
        have "pgfault fva err s = Ret () s'"
          using err pte v(3) S(1,4) a(1) cp(1) b(1) d(1) by (simp add: pgfault_def Let_def kthen_def)
        moreover have "space_upd s s1 c PFTEMP (Some (p, 7))" using a(4) by simp
        moreover have "space_upd ?s2 s3 c fva (Some (p, 7))" using b(3) R(2) by (simp add: space_upd_def)
        moreover have "slot ?s2 p k = slot s q k" if "k < 1024" for k
          using cp(2) [OF that] data_keptD [OF a(5) mapped_data_page(1) [OF D(7,8) pdx(2) va_s] that] by simp
        ultimately show thesis
          using a b d C(4-6) dp qp by (intro that [of s' p s1 s3]) simp_all
      qed
    qed simp
  qed
qed

text \<open>The memory of an environment after a change of mappings.\<close>

lemma umem_eqI:
  assumes "vmap s' (dir_of s' i) va = Some (p', pm')" and "vmap s (dir_of s i) va = Some (p, pm)"
    and "\<And>k. k < 1024 \<Longrightarrow> slot s' p' k = slot s p k"
  shows "umem s' i va = umem s i va"
proof -
  have "phys s' (4096 * p' + unat (PGOFF va)) = phys s (4096 * p + unat (PGOFF va))"
    by (rule bytes_of_slots [OF assms(3)]) (simp_all add: unat_PGOFF)
  then show ?thesis using assms(1,2) by (simp add: umem_def)
qed

lemma umem_None: "vmap s' (dir_of s' i) va = None \<Longrightarrow> vmap s (dir_of s i) va = None \<Longrightarrow> umem s' i va = umem s i va"
  by (simp add: umem_def)

lemma umem_step:
  assumes r: "user_runs kd ext c s" and u: "space_upd s s' e va m" "data_kept s s' (dirs s)" "dir_of s' = dir_of s"
    and i: "i \<in> live s" "unat (PDX va') < UPDES" "\<not> (i = e \<and> PGNUM va' = PGNUM va)"
  shows "umem s' i va' = umem s i va'"
proof -
  note D = user_runsD [OF r]
  have di: "dir_of s i \<in> dirs s" using i(1) by (simp add: dirs_def)
  have v': "vmap s' (dir_of s' i) va' = vmap s (dir_of s i) va'" using space_updD(2) [OF u(1) i(1,2)] i(3) u(3) by simp
  show ?thesis
  proof (cases "vmap s (dir_of s i) va'")
    case None
    then show ?thesis using v' by (intro umem_None) simp_all
  next
    case (Some x)
    then obtain g pg where v: "vmap s (dir_of s i) va' = Some (g, pg)" by (cases x) auto
    then show ?thesis
      using v' data_keptD [OF u(2) mapped_data_page(1) [OF D(7) di i(2) v]] by (intro umem_eqI [of s' i va' g pg s g pg]) auto
  qed
qed

lemma umem_copied:
  assumes r: "user_runs kd ext c s" "data_page s (dirs s) p" and i: "i \<in> live s" "unat (PDX va) < UPDES"
    and g: "\<And>pm. vmap s (dir_of s i) va \<noteq> Some (p, pm)"
  shows "umem (copied s p q n) i va = umem s i va"
proof -
  note C = copied_ok [OF r, where q = q and n = n]
  have v': "vmap (copied s p q n) (dir_of (copied s p q n) i) va = vmap s (dir_of s i) va"
    using C(2) i by (simp add: C(6) dirs_def)
  show ?thesis
  proof (cases "vmap s (dir_of s i) va")
    case None
    then show ?thesis using v' by (intro umem_None) simp_all
  next
    case (Some x)
    then obtain h ph where v: "vmap s (dir_of s i) va = Some (h, ph)" by (cases x) auto
    then have "h \<noteq> p" using g by auto
    then show ?thesis using v v' C(3) by (intro umem_eqI [of _ i va h ph s h ph]) auto
  qed
qed

text \<open>(C6) A write fault on a copy-on-write page is served: \<open>pgfault\<close> gives the environment a page of its own at
  that address, writable and with the same contents, and removes its temporary mapping. No other
  mapping changes, and no environment sees a single byte of its memory change.\<close>

theorem pgfault_correct:
  assumes "user_runs kd ext c s" and "err AND 2 \<noteq> 0" and "fva < UTOP" and "PGNUM fva \<noteq> PGNUM PFTEMP"
    and "vmap s (dir_of s c) fva = Some (q, pm)" and "pm AND (PTE_P OR PTE_U) = PTE_P OR PTE_U" and "pm AND PTE_COW \<noteq> 0"
    and "\<And>p. \<not> free_pages s \<subseteq> {p}"
  shows "\<exists>p s'. pgfault fva err s = Ret () s' \<and> user_runs kd ext c s' \<and> p \<in> free_pages s \<and>
    (\<forall>i\<in>live s. \<forall>va. unat (PDX va) < UPDES \<longrightarrow> vmap s' (dir_of s' i) va =
       (if i = c \<and> PGNUM va = PGNUM PFTEMP then None
        else if i = c \<and> PGNUM va = PGNUM fva then Some (p, PTE_P OR PTE_U OR PTE_W) else vmap s (dir_of s i) va)) \<and>
    (\<forall>i\<in>live s. \<forall>va. unat (PDX va) < UPDES \<and> \<not> (i = c \<and> PGNUM va = PGNUM PFTEMP) \<longrightarrow> umem s' i va = umem s i va)"
proof -
  have pm: "pm AND 5 = 5" "pm AND (PTE_COW OR PTE_W) \<noteq> 0"
    using assms(6,7) and_mask_mono [of "PTE_COW OR PTE_W" PTE_COW pm] by simp_all
  obtain p s1 s3 s' where run: "pgfault fva err s = Ret () s'" and p: "p \<in> free_pages s" "p \<noteq> q"
    and 1: "user_runs kd ext c s1" "space_upd s s1 c PFTEMP (Some (p, 7))" "data_kept s s1 (dirs s)"
    and 3: "user_runs kd ext c s3" "space_upd (copied s1 p q 4096) s3 c fva (Some (p, 7))" "data_kept (copied s1 p q 4096) s3 (dirs s)"
    and 4: "user_runs kd ext c s'" "space_upd s3 s' c PFTEMP None" "data_kept s3 s' (dirs s)"
    and f: "data_page s1 (dirs s) p" "live s1 = live s" "dir_of s1 = dir_of s" "dirs s1 = dirs s"
      "live s3 = live s" "dir_of s3 = dir_of s" "dirs s3 = dirs s" "live s' = live s" "dir_of s' = dir_of s" "dirs s' = dirs s"
    and cont: "\<And>k. k < 1024 \<Longrightarrow> slot (copied s1 p q 4096) p k = slot s q k"
    by (rule pgfault_ok [OF assms(1-5) pm assms(8)]) (rule that, (assumption | simp)+)
  let ?s2 = "copied s1 p q 4096"
  note D = user_runsD [OF assms(1)]
  have dp1: "data_page s1 (dirs s1) p" using f(1,4) by simp
  note C = copied_ok [OF 1(1) dp1, where q = q and n = 4096]
  have v: "vmap s1 (dir_of s i) va = (if i = c \<and> PGNUM va = PGNUM PFTEMP then Some (p, 7) else vmap s (dir_of s i) va)"
    "vmap ?s2 (dir_of s i) va = vmap s1 (dir_of s i) va"
    "vmap s3 (dir_of s i) va = (if i = c \<and> PGNUM va = PGNUM fva then Some (p, 7) else vmap ?s2 (dir_of s i) va)"
    "vmap s' (dir_of s i) va = (if i = c \<and> PGNUM va = PGNUM PFTEMP then None else vmap s3 (dir_of s i) va)"
    if "i \<in> live s" "unat (PDX va) < UPDES" for i va
    using space_updD(2) [OF 1(2) that] C(2) [of "dir_of s i" va] space_updD(2) [OF 3(2), of i va] space_updD(2) [OF 4(2), of i va] that
    by (auto simp: C(5,6) f dirs_def)
  have "umem s' i va = umem s i va" if i: "i \<in> live s" "unat (PDX va) < UPDES" and n: "\<not> (i = c \<and> PGNUM va = PGNUM PFTEMP)" for i va
  proof -
    have "umem s' i va = umem s3 i va" using umem_step [OF 3(1) 4(2)] 4(3) f i n by simp
    also have "\<dots> = umem s i va"
    proof (cases "i = c \<and> PGNUM va = PGNUM fva")
      case True
      have "slot s3 p k = slot s q k" if k: "k < 1024" for k
        using data_keptD [OF 3(3) _ k] C(7) dp1 f(4) cont [OF k] by simp
      then show ?thesis
        using v(3) [OF i] True vmap_page [of va fva] assms(5) f(6) by (intro umem_eqI [of s3 i va p 7 s q pm]) auto
    next
      case False
      have "vmap s1 (dir_of s1 i) va \<noteq> Some (p, pn)" for pn
        using v(1) [OF i] n f(3) free_not_mapped [OF D(7) p(1) _ i(2)] i(1) by (auto simp: dirs_def)
      then show ?thesis
        using umem_step [OF C(1) 3(2)] umem_copied [OF 1(1) dp1] umem_step [OF assms(1) 1(2)] 1(3) 3(3) f i n False
        by (simp add: C(4-6))
    qed
    finally show ?thesis .
  qed
  then show ?thesis using run 4(1) p(1) v f(9) by (intro exI [of _ p] exI [of _ s'] conjI) auto
qed

theorem pgfault_correct_witness:
  "\<exists>p s'. pgfault 0x800123 2 sample_user = Ret () s' \<and> p \<in> {3, 4, 5} \<and> vmap s' (dir_of s' 0) 0x800123 = Some (p, 7) \<and>
     umem s' 0 0x800123 = umem sample_user 0 0x800123 \<and> vmap sample_user (dir_of sample_user 0) 0x800123 = Some (7, 0x805)"
proof -
  have n: "PGNUM 0x800123 = 0x800" "PGNUM PFTEMP = 0x7ff" "unat (PDX 0x800123) < UPDES" by (simp_all add: PGNUM_def PDX_def)
  have v: "vmap sample_user (dir_of sample_user 0) 0x800123 = Some (7, 0x805)"
    unfolding sample_user_live(2) sample_user_vmap n by simp
  have "\<not> free_pages sample_user \<subseteq> {p}" for p unfolding sample_user_free by simp
  with pgfault_correct [OF sample_user_runs, of 2 "0x800123" 7 "0x805"] v n show ?thesis
    by (auto simp: sample_user_live(1) sample_user_free)
qed

end
