(* ===== verification/Fork_Copy.thy ===== *)
theory Fork_Copy
  imports Fork_Theorems
begin

text \<open>
  The copying loop of \<open>fork\<close>: every page of the parent below its stack top is shared with the child, and
  what was writable is marked copy-on-write on both sides.
\<close>

section \<open>Marks\<close>

definition cow :: "u32 \<Rightarrow> bool" where
  "cow pm \<longleftrightarrow> pm AND PTE_W \<noteq> 0 \<or> pm AND PTE_COW \<noteq> 0"

text \<open>What \<open>duppage\<close> leaves in the parent and enters in the child.\<close>

definition parent_perm :: "u32 \<Rightarrow> u32" where
  "parent_perm pm = (if cow pm then PTE_P OR PTE_U OR PTE_COW else pm)"

definition child_perm :: "u32 \<Rightarrow> u32" where
  "child_perm pm = (if cow pm then PTE_P OR PTE_U OR PTE_COW
     else if pm AND PTE_SHARE \<noteq> 0 then pm AND PTE_SYSCALL OR PTE_P else PTE_P OR PTE_U)"

lemma mappers_upd:
  assumes "space_upd s s' e va (Some (p, pm))" and "dirs s' = dirs s" and "e \<in> live s" and "unat (PDX va) < UPDES"
  shows "mappers s' (dirs s') q \<subseteq> (if q = p then insert (dir_of s e, unat (PGNUM va)) (mappers s (dirs s) q) else mappers s (dirs s) q)"
proof
  fix x assume "x \<in> mappers s' (dirs s') q"
  then obtain i n pn where x: "x = (dir_of s i, n)" "i \<in> live s" "n < 977920" "vmap s' (dir_of s i) (of_nat (4096 * n)) = Some (q, pn)"
    using assms(2) by (auto simp: mappers_def dirs_def)
  note I = page_index [OF x(3)]
  have "dir_of s i \<in> dirs s" using x(2) by (simp add: dirs_def)
  then have m: "x \<in> mappers s (dirs s) q" if "vmap s (dir_of s i) (of_nat (4096 * n)) = Some (q, pn)"
    using x(1,3) that unfolding mappers_def by blast
  show "x \<in> (if q = p then insert (dir_of s e, unat (PGNUM va)) (mappers s (dirs s) q) else mappers s (dirs s) q)"
  proof (cases "i = e \<and> PGNUM (of_nat (4096 * n)) = PGNUM va")
    case True
    then have "q = p" "x = (dir_of s e, unat (PGNUM va))"
      using space_updD(2) [OF assms(1) x(2) I(3)] x(1,4) I(4) by auto
    then show ?thesis by simp
  next
    case False
    then show ?thesis using m space_updD(2) [OF assms(1) x(2) I(3)] x(4) by (auto split: if_splits)
  qed
qed

lemma mapped_room:
  assumes r: "user_runs kd ext c s" and i: "i \<in> live s" "unat (PDX va) < UPDES" and v: "vmap s (dir_of s i) va = Some (p, pm)"
  shows "unat (pp_ref (pages s p)) = card (mappers s (dirs s) p) + ext p" and "finite (mappers s (dirs s) p)"
proof -
  note D = user_runsD [OF r]
  have "dir_of s i \<in> dirs s" using i(1) by (simp add: dirs_def)
  from mapped_data_page [OF D(7) this i(2) v] show "unat (pp_ref (pages s p)) = card (mappers s (dirs s) p) + ext p"
    by (rule pp_ref_mappers [OF D(7)])
  show "finite (mappers s (dirs s) p)" by (rule mappers_maps(2) [OF D(7)])
qed

section \<open>One page\<close>

text \<open>A page of \<open>c\<close> shared with its child \<open>e\<close>.\<close>

lemma share_page:
  assumes r: "user_runs kd ext c s" and va: "\<not> bad_va va" and perm: "\<not> bad_perm perm" "perm AND PTE_W = 0"
    and e: "names cid c s = Some e" "may_touch c e s" and v: "vmap s (dir_of s c) va = Some (p, pm)"
    and room: "unat (pp_ref (pages s p)) < 65535"
  obtains (shared) s' where "lib_sys_page_map (env_id (envs s c)) va cid va perm s = Ret 0 s'" and "user_runs kd ext c s'"
      and "space_upd s s' e va (Some (p, perm OR PTE_P))" and "data_kept s s' (dirs s)"
      and "live s' = live s" and "dir_of s' = dir_of s" and "dirs s' = dirs s"
      and "\<And>va'. PGNUM va' = PGNUM va \<Longrightarrow> umem s' e va' = umem s c va'"
  | (no_mem) "lib_sys_page_map (env_id (envs s c)) va cid va perm s = Ret (- E_NO_MEM) s" and "free_pages s = {}"
      and "\<not> present (slot s (dir_of s e) (unat (PDX va)))"
proof -
  note S = self_id(2,3) [OF r] and D = user_runsD [OF r]
  show thesis
  proof (rule ucall_map [OF r va va perm(1) S e v _ room])
    fix s' assume a: "lib_sys_page_map (env_id (envs s c)) va cid va perm s = Ret 0 s'" "user_runs kd ext c s'"
      "space_upd s s' e va (Some (p, perm OR PTE_P))" "data_kept s s' (dirs s)" "live s' = live s" "dir_of s' = dir_of s" "dirs s' = dirs s"
    have "umem s' e va' = umem s c va'" if va': "PGNUM va' = PGNUM va" for va'
    proof -
      have pdx: "unat (PDX va') < UPDES" using good_va_PDX [OF va] va' by (simp add: PGNUM_eq_iff)
      have el: "e \<in> live s" using names_live [OF D(1) e(1)] .
      have v': "vmap s' (dir_of s' e) va' = Some (p, perm OR PTE_P)" "vmap s (dir_of s c) va' = Some (p, pm)"
        using space_updD(2) [OF a(3) el pdx] va' a(6) vmap_page [OF va'] v by simp_all
      have "slot s' p k = slot s p k" if "k < 1024" for k
        using data_keptD [OF a(4) mapped_data_page(1) [OF D(7,8) good_va_PDX [OF va] v] that] .
      then have "phys s' (4096 * p + unat (PGOFF va')) = phys s (4096 * p + unat (PGOFF va'))"
        by (rule bytes_of_slots) (simp_all add: unat_PGOFF)
      then show ?thesis using v' by (simp add: umem_def)
    qed
    then show thesis using a by (intro shared [of s']) auto
  qed (use perm(2) no_mem in auto)
qed

lemma PGNUM_times: "\<not> bad_va va \<Longrightarrow> PGNUM va * PGSIZE = va"
proof -
  assume "\<not> bad_va va"
  then have m: "unat (va mod 4096) = 0" by (simp add: bad_va_def)
  then have "4096 * (unat va div 4096) = unat va" using mult_div_mod_eq [of 4096 "unat va"] by (simp add: unat_mod)
  moreover have "unat (PGNUM va * PGSIZE) = 4096 * (unat va div 4096)"
    using calculation unat_lt32 [of va] by (simp add: unat_word_ariths unat_PGNUM mult.commute)
  ultimately show ?thesis by (intro word_eq_unatI) simp
qed

lemma self_mapper:
  assumes "i \<in> live s" and "\<not> bad_va va" and "vmap s (dir_of s i) va = Some (p, pm)"
  shows "(dir_of s i, unat (PGNUM va)) \<in> mappers s (dirs s) p"
proof -
  have "of_nat (4096 * unat (PGNUM va)) = va"
    using PGNUM_times [OF assms(2)] by (simp add: mult.commute)
  moreover have "unat (PGNUM va) < 977920"
    using assms(2) by (auto simp: bad_va_def not_le word_less_nat_alt unat_PGNUM intro!: less_mult_imp_div_less)
  moreover have "dir_of s i \<in> dirs s" using assms(1) by (simp add: dirs_def)
  ultimately show ?thesis using assms(3) unfolding mappers_def by force
qed

text \<open>A page that is not marked: shared with the permissions of the second and third branch.\<close>

lemma share_perm_ok:
  assumes "\<not> cow pm" and "pm AND PTE_P \<noteq> 0"
  shows "\<not> bad_perm (pm AND PTE_SYSCALL)" and "(pm AND PTE_SYSCALL) AND PTE_W = 0"
proof -
  have "(pm AND PTE_SYSCALL) AND NOT PTE_SYSCALL = 0" unfolding and.assoc by simp
  moreover have "(pm AND PTE_SYSCALL) AND 1 = pm AND 1" unfolding and.assoc by simp
  then have "(pm AND PTE_SYSCALL) AND (PTE_U OR PTE_P) \<noteq> 0"
    using assms(2) and_mask_mono [of "PTE_U OR PTE_P" 1 "pm AND PTE_SYSCALL"] by simp
  ultimately show "\<not> bad_perm (pm AND PTE_SYSCALL)" unfolding bad_perm_def by blast
  have "(pm AND PTE_SYSCALL) AND PTE_W = pm AND PTE_W" unfolding and.assoc by simp
  then show "(pm AND PTE_SYSCALL) AND PTE_W = 0" using assms(1) by (simp add: cow_def)
qed

definition page_shared :: "nat \<Rightarrow> nat \<Rightarrow> u32 \<Rightarrow> nat \<Rightarrow> u32 \<Rightarrow> kstate \<Rightarrow> kstate \<Rightarrow> bool" where
  "page_shared c e va p pm s s' \<longleftrightarrow> envs s' = envs s \<and> live s' = live s \<and> dir_of s' = dir_of s \<and> dirs s' = dirs s \<and>
     (\<forall>i\<in>live s. \<forall>va'. unat (PDX va') < UPDES \<longrightarrow> vmap s' (dir_of s i) va' =
        (if PGNUM va' = PGNUM va \<and> i = e then Some (p, child_perm pm)
         else if PGNUM va' = PGNUM va \<and> i = c then Some (p, parent_perm pm) else vmap s (dir_of s i) va')) \<and>
     (\<forall>i\<in>live s. \<forall>va'. unat (PDX va') < UPDES \<longrightarrow>
        umem s' i va' = (if PGNUM va' = PGNUM va \<and> i = e then umem s c va' else umem s i va')) \<and>
     (\<forall>q. mappers s' (dirs s') q \<subseteq>
        (if q = p then insert (dir_of s e, unat (PGNUM va)) (mappers s (dirs s) q) else mappers s (dirs s) q))"

lemma page_sharedD:
  assumes "page_shared c e va p pm s s'"
  shows "envs s' = envs s" and "live s' = live s" and "dir_of s' = dir_of s" and "dirs s' = dirs s"
    and "i \<in> live s \<Longrightarrow> unat (PDX va') < UPDES \<Longrightarrow> vmap s' (dir_of s i) va' =
        (if PGNUM va' = PGNUM va \<and> i = e then Some (p, child_perm pm)
         else if PGNUM va' = PGNUM va \<and> i = c then Some (p, parent_perm pm) else vmap s (dir_of s i) va')"
    and "i \<in> live s \<Longrightarrow> unat (PDX va') < UPDES \<Longrightarrow>
        umem s' i va' = (if PGNUM va' = PGNUM va \<and> i = e then umem s c va' else umem s i va')"
    and "mappers s' (dirs s') q \<subseteq>
        (if q = p then insert (dir_of s e, unat (PGNUM va)) (mappers s (dirs s) q) else mappers s (dirs s) q)"
  using assms unfolding page_shared_def by blast+

lemma share_only:
  assumes r: "user_runs kd ext c s" and ce: "e \<noteq> c" and va: "\<not> bad_va va" and perm: "\<not> bad_perm perm" "perm AND PTE_W = 0"
    and e: "names cid c s = Some e" "may_touch c e s" and v: "vmap s (dir_of s c) va = Some (p, pm)"
    and room: "card (mappers s (dirs s) p) + ext p + 1 < 65535"
    and pm: "perm OR PTE_P = child_perm pm" "parent_perm pm = pm"
  obtains (ok) s' where "lib_sys_page_map (env_id (envs s c)) va cid va perm s = Ret 0 s'" and "user_runs kd ext c s'"
      and "page_shared c e va p pm s s'"
  | (no_mem) "lib_sys_page_map (env_id (envs s c)) va cid va perm s = Ret (- E_NO_MEM) s" and "free_pages s = {}"
proof -
  note D = user_runsD [OF r]
  have el: "e \<in> live s" using names_live [OF D(1) e(1)] .
  have rm: "unat (pp_ref (pages s p)) < 65535" using mapped_room(1) [OF r D(4) good_va_PDX [OF va] v] room by simp
  show thesis
  proof (rule share_page [OF r va perm e v rm])
    fix s' assume a: "lib_sys_page_map (env_id (envs s c)) va cid va perm s = Ret 0 s'" "user_runs kd ext c s'"
      "space_upd s s' e va (Some (p, perm OR PTE_P))" "data_kept s s' (dirs s)" "live s' = live s" "dir_of s' = dir_of s" "dirs s' = dirs s"
      "\<And>va'. PGNUM va' = PGNUM va \<Longrightarrow> umem s' e va' = umem s c va'"
    have vc: "vmap s (dir_of s c) va' = Some (p, pm)" if "PGNUM va' = PGNUM va" for va' using vmap_page [OF that] v by simp
    have "umem s' i va' = (if PGNUM va' = PGNUM va \<and> i = e then umem s c va' else umem s i va')"
      if "i \<in> live s" "unat (PDX va') < UPDES" for i va'
      using a(8) umem_step [OF r a(3,4,6) that] by auto
    moreover have "vmap s' (dir_of s i) va' = (if PGNUM va' = PGNUM va \<and> i = e then Some (p, child_perm pm)
         else if PGNUM va' = PGNUM va \<and> i = c then Some (p, parent_perm pm) else vmap s (dir_of s i) va')"
      if "i \<in> live s" "unat (PDX va') < UPDES" for i va'
      using space_updD(2) [OF a(3) that] vc pm ce by auto
    ultimately have "page_shared c e va p pm s s'"
      using space_updD(1) [OF a(3)] a(5-7) mappers_upd [OF a(3,7) el good_va_PDX [OF va]] by (simp add: page_shared_def)
    then show thesis using a(1,2) by (intro ok) auto
  qed (use no_mem in auto)
qed

lemma cow_page:
  assumes r: "user_runs kd ext c s" and ce: "e \<noteq> c" and va: "\<not> bad_va va"
    and e: "names cid c s = Some e" "may_touch c e s" and v: "vmap s (dir_of s c) va = Some (p, pm)"
    and room: "card (mappers s (dirs s) p) + ext p + 1 < 65535" and cw: "cow pm"
  obtains (ok) s1 s' where "lib_sys_page_map (env_id (envs s c)) va cid va 0x805 s = Ret 0 s1"
      and "lib_sys_page_map (env_id (envs s c)) va (env_id (envs s c)) va 0x805 s1 = Ret 0 s'"
      and "user_runs kd ext c s'" and "page_shared c e va p pm s s'"
  | (no_mem) "lib_sys_page_map (env_id (envs s c)) va cid va 0x805 s = Ret (- E_NO_MEM) s" and "free_pages s = {}"
proof -
  note D = user_runsD [OF r] and pdx = good_va_PDX [OF va]
  have el: "e \<in> live s" using names_live [OF D(1) e(1)] .
  have perm: "\<not> bad_perm 0x805" "0x805 AND PTE_W = 0" "0x805 OR PTE_P = (0x805 :: u32)" by (simp_all add: bad_perm_def)
  have rm: "unat (pp_ref (pages s p)) < 65535" using mapped_room(1) [OF r D(4) pdx v] room by simp
  show thesis
  proof (rule share_page [OF r va perm(1,2) e v rm])
    fix s1 assume a: "lib_sys_page_map (env_id (envs s c)) va cid va 0x805 s = Ret 0 s1" "user_runs kd ext c s1"
      "space_upd s s1 e va (Some (p, 0x805 OR PTE_P))" "data_kept s s1 (dirs s)" "live s1 = live s" "dir_of s1 = dir_of s" "dirs s1 = dirs s"
      "\<And>va'. PGNUM va' = PGNUM va \<Longrightarrow> umem s1 e va' = umem s c va'"
    note U1 = space_updD [OF a(3)] and S1 = self_id(2,3) [OF a(2)]
    have v1: "vmap s1 (dir_of s1 c) va = Some (p, pm)" using U1(2) [OF D(4) pdx] ce v a(6) by simp
    have cl: "c \<in> live s1" using D(4) a(5) by simp
    note M1 = mappers_upd [OF a(3,7) el pdx]
    have "card (mappers s1 (dirs s1) p) \<le> card (mappers s (dirs s) p) + 1"
      using M1 [of p] mapped_room(2) [OF r D(4) pdx v] card_mono [OF _ M1, of p] by (auto intro: order_trans [OF _ card_insert_le_m1] simp: card_insert_if split: if_splits)
    then have rm1: "unat (pp_ref (pages s1 p)) < 65535" using mapped_room(1) [OF a(2) cl pdx v1] room by simp
    show thesis
    proof (rule share_page [OF a(2) va perm(1,2) S1 v1 rm1])
      assume "\<not> present (slot s1 (dir_of s1 c) (unat (PDX va)))"
      then show thesis using v1 by (simp add: vmap_def Let_def split: if_splits)
    next
      fix s' assume b: "lib_sys_page_map (env_id (envs s1 c)) va (env_id (envs s1 c)) va 0x805 s1 = Ret 0 s'" "user_runs kd ext c s'"
        "space_upd s1 s' c va (Some (p, 0x805 OR PTE_P))" "data_kept s1 s' (dirs s1)" "live s' = live s1" "dir_of s' = dir_of s1" "dirs s' = dirs s1"
        "\<And>va'. PGNUM va' = PGNUM va \<Longrightarrow> umem s' c va' = umem s1 c va'"
      note U2 = space_updD [OF b(3)]
      have "umem s' i va' = (if PGNUM va' = PGNUM va \<and> i = e then umem s c va' else umem s i va')"
        if i: "i \<in> live s" "unat (PDX va') < UPDES" for i va'
      proof -
        have "umem s' i va' = umem s1 i va'"
          using b(8) [of va'] umem_step [OF a(2) b(3,4,6), of i va'] i a(5) by auto
        then show ?thesis using a(8) [of va'] umem_step [OF r a(3,4,6) i] by auto
      qed
      moreover have "vmap s' (dir_of s i) va' = (if PGNUM va' = PGNUM va \<and> i = e then Some (p, child_perm pm)
           else if PGNUM va' = PGNUM va \<and> i = c then Some (p, parent_perm pm) else vmap s (dir_of s i) va')"
        if "i \<in> live s" "unat (PDX va') < UPDES" for i va'
        using U1(2) [OF that] U2(2) [of i va'] that a(5,6) cw ce by (auto simp: child_perm_def parent_perm_def)
      moreover have "mappers s' (dirs s') q \<subseteq> (if q = p then insert (dir_of s e, unat (PGNUM va)) (mappers s (dirs s) q) else mappers s (dirs s) q)" for q
        using mappers_upd [OF b(3,7) cl pdx, of q] M1 [of q] self_mapper [OF D(4) va v] a(6) by (auto split: if_splits)
      ultimately have "page_shared c e va p pm s s'"
        using U1(1) U2(1) a(5-7) b(5-7) by (simp add: page_shared_def)
      then show thesis using a(1) b(1,2) U1(1) by (intro ok [of s1 s']) auto
    qed
  qed (use no_mem in auto)
qed

lemma duppage_ok:
  assumes r: "user_runs kd ext c s" and ce: "e \<noteq> c" and va: "\<not> bad_va va"
    and e: "names cid c s = Some e" "may_touch c e s" and v: "vmap s (dir_of s c) va = Some (p, pm)"
    and room: "card (mappers s (dirs s) p) + ext p + 1 < 65535"
  obtains (ok) s' where "duppage cid (PGNUM va) s = Ret 0 s'" and "user_runs kd ext c s'" and "page_shared c e va p pm s s'"
  | (no_mem) "duppage cid (PGNUM va) s = Ret (- E_NO_MEM) s" and "free_pages s = {}"
proof -
  note S = self_id [OF r]
  obtain pte where pte: "uvpt (PGNUM va) s = Ret pte s" "\<And>m. m AND 0xFFF = m \<Longrightarrow> pte AND m = pm AND m" "present pte"
    by (rule uvpt_flags [OF r good_va_PDX [OF va] v]) (rule that, (assumption | simp)+)
  have fl: "pte AND PTE_W = pm AND PTE_W" "pte AND PTE_COW = pm AND PTE_COW" "pte AND PTE_SHARE = pm AND PTE_SHARE"
    "pte AND PTE_SYSCALL = pm AND PTE_SYSCALL" "pte AND PTE_P = pm AND PTE_P"
    using pte(2) [of PTE_W] pte(2) [of PTE_COW] pte(2) [of PTE_SHARE] pte(2) [of PTE_SYSCALL] pte(2) [of PTE_P] by simp_all
  have run: "duppage cid (PGNUM va) s =
      (if cow pm then kbind (lib_sys_page_map (env_id (envs s c)) va cid va 0x805) (\<lambda>r. if r < 0 then kret r
          else kbind (lib_sys_page_map (env_id (envs s c)) va (env_id (envs s c)) va 0x805) (\<lambda>r. if r < 0 then kret r else kret 0)) s
       else kbind (lib_sys_page_map (env_id (envs s c)) va cid va (if pm AND PTE_SHARE \<noteq> 0 then pm AND PTE_SYSCALL else 5))
         (\<lambda>r. if r < 0 then kret r else kret 0) s)"
    using S(1,4) pte(1) fl PGNUM_times [OF va] by (simp add: duppage_def Let_def cow_def cong: if_cong)
  show thesis
  proof (cases "cow pm")
    case True
    show thesis
      by (rule cow_page [OF r ce va e v room True]) (use run True ok no_mem in \<open>auto simp: kbind_def\<close>)
  next
    case False
    let ?perm = "if pm AND PTE_SHARE \<noteq> 0 then pm AND PTE_SYSCALL else 5"
    have "\<not> bad_perm ?perm" "?perm AND PTE_W = 0" "?perm OR PTE_P = child_perm pm" "parent_perm pm = pm"
      using share_perm_ok [OF False] pte(3) fl(5) False by (simp_all add: child_perm_def parent_perm_def bad_perm_def)
    then show thesis
      by (rule share_only [OF r ce va _ _ e v room]) (use run False ok no_mem in \<open>auto simp: kbind_def\<close>)
  qed
qed

section \<open>The loop\<close>

text \<open>The page numbers below the stack top at which \<open>c\<close> maps page \<open>q\<close>.\<close>

definition below :: "kstate \<Rightarrow> nat \<Rightarrow> nat \<Rightarrow> nat set" where
  "below s c q = {n. n < 977918 \<and> (\<exists>pm. vmap s (dir_of s c) (of_nat (4096 * n)) = Some (q, pm))}"

lemma finite_below [simp]: "finite (below s c q)"
  by (rule finite_subset [of _ "{..<977918}"]) (auto simp: below_def)

text \<open>The first \<open>k\<close> pages have been copied.\<close>

definition copied_upto :: "nat \<Rightarrow> nat \<Rightarrow> kstate \<Rightarrow> nat \<Rightarrow> kstate \<Rightarrow> bool" where
  "copied_upto c e s k t \<longleftrightarrow> envs t = envs s \<and> live t = live s \<and> dir_of t = dir_of s \<and> dirs t = dirs s \<and>
     (\<forall>i\<in>live s. \<forall>va. unat (PDX va) < UPDES \<longrightarrow> vmap t (dir_of s i) va =
        (if unat (PGNUM va) < k \<and> i = e then map_option (\<lambda>(p, pm). (p, child_perm pm)) (vmap s (dir_of s c) va)
         else if unat (PGNUM va) < k \<and> i = c then map_option (\<lambda>(p, pm). (p, parent_perm pm)) (vmap s (dir_of s c) va)
         else vmap s (dir_of s i) va)) \<and>
     (\<forall>i\<in>live s. \<forall>va. unat (PDX va) < UPDES \<longrightarrow>
        umem t i va = (if unat (PGNUM va) < k \<and> i = e then umem s c va else umem s i va)) \<and>
     (\<forall>q. mappers t (dirs t) q \<subseteq> mappers s (dirs s) q \<union> {dir_of s e} \<times> {n \<in> below s c q. n < k})"

lemma copied_uptoD:
  assumes "copied_upto c e s k t"
  shows "envs t = envs s" and "live t = live s" and "dir_of t = dir_of s" and "dirs t = dirs s"
    and "i \<in> live s \<Longrightarrow> unat (PDX va) < UPDES \<Longrightarrow> vmap t (dir_of s i) va =
        (if unat (PGNUM va) < k \<and> i = e then map_option (\<lambda>(p, pm). (p, child_perm pm)) (vmap s (dir_of s c) va)
         else if unat (PGNUM va) < k \<and> i = c then map_option (\<lambda>(p, pm). (p, parent_perm pm)) (vmap s (dir_of s c) va)
         else vmap s (dir_of s i) va)"
    and "i \<in> live s \<Longrightarrow> unat (PDX va) < UPDES \<Longrightarrow>
        umem t i va = (if unat (PGNUM va) < k \<and> i = e then umem s c va else umem s i va)"
    and "mappers t (dirs t) q \<subseteq> mappers s (dirs s) q \<union> {dir_of s e} \<times> {n \<in> below s c q. n < k}"
  using assms unfolding copied_upto_def by blast+

lemma copied_0: "copied_upto c e s 0 s"
  by (simp add: copied_upto_def)

lemma page_number_eq: "unat (PGNUM va) = n \<Longrightarrow> n < 977920 \<Longrightarrow> PGNUM va = PGNUM (of_nat (4096 * n))"
  using page_index(4) [of n] by (intro word_eq_unatI) simp

text \<open>A page the parent does not map.\<close>

lemma copied_skip:
  assumes c: "copied_upto c e s k t" and k: "k < 977918" and ce: "e \<noteq> c" and l: "c \<in> live s" "e \<in> live s"
    and n: "vmap t (dir_of t c) (of_nat (4096 * k)) = None"
    and empty: "\<And>va. unat (PGNUM va) < 977918 \<Longrightarrow> vmap s (dir_of s e) va = None"
  shows "copied_upto c e s (Suc k) t"
proof -
  note C = copied_uptoD [OF c] and I = page_index [of k]
  have none: "vmap s (dir_of s c) va = None" "vmap s (dir_of s e) va = None" "umem s c va = None" "umem s e va = None"
    if "unat (PGNUM va) = k" "unat (PDX va) < UPDES" for va
  proof -
    have "vmap t (dir_of s c) va = None" using vmap_page [OF page_number_eq [OF that(1)]] n k C(3) by simp
    then show "vmap s (dir_of s c) va = None" "vmap s (dir_of s e) va = None"
      using C(5) [OF l(1) that(2)] that(1) empty [of va] k by simp_all
    then show "umem s c va = None" "umem s e va = None" by (simp_all add: umem_def)
  qed
  have "mappers t (dirs t) q \<subseteq> mappers s (dirs s) q \<union> {dir_of s e} \<times> {n \<in> below s c q. n < Suc k}" for q
    using C(7) [of q] by auto
  then show ?thesis
    using C(1-4) C(5,6) none ce unfolding copied_upto_def by (auto simp: less_Suc_eq)
qed

text \<open>A page that \<open>duppage\<close> has shared.\<close>

lemma copied_shared:
  assumes c: "copied_upto c e s k t" and k: "k < 977918" and ce: "e \<noteq> c" and l: "c \<in> live s" "e \<in> live s"
    and v: "vmap t (dir_of t c) (of_nat (4096 * k)) = Some (p, pm)" and sh: "page_shared c e (of_nat (4096 * k)) p pm t t'"
  shows "copied_upto c e s (Suc k) t'"
proof -
  define va :: u32 where "va = of_nat (4096 * k)"
  have k': "k < 977920" using k by simp
  note C = copied_uptoD [OF c] and I = page_index [OF k', folded va_def] and v = v [folded va_def]
  note S = page_sharedD [OF sh [folded va_def], unfolded C(2-4)]
  have at: "PGNUM va' = PGNUM va \<longleftrightarrow> unat (PGNUM va') = k" for va' using I(4) by (auto intro: word_eq_unatI)
  have s: "vmap s (dir_of s c) va' = Some (p, pm)" if "unat (PGNUM va') = k" "unat (PDX va') < UPDES" for va'
    using C(5) [OF l(1) that(2)] that(1) vmap_page [of va' va t "dir_of s c"] v at C(3) by simp
  then have kb: "k \<in> below s c p" using I(3,4) k unfolding below_def va_def by blast
  have "mappers t' (dirs s) q \<subseteq> mappers s (dirs s) q \<union> {dir_of s e} \<times> {n \<in> below s c q. n < Suc k}" for q
  proof -
    have "mappers t (dirs s) q \<subseteq> mappers s (dirs s) q \<union> {dir_of s e} \<times> {n \<in> below s c q. n < Suc k}"
      using C(7) [of q] unfolding C(4) by (auto simp: less_Suc_eq)
    moreover have "q = p \<Longrightarrow> (dir_of s e, unat (PGNUM va)) \<in> {dir_of s e} \<times> {n \<in> below s c q. n < Suc k}" using kb I(4) by simp
    ultimately show ?thesis using S(7) [of q] unfolding S(4) by (cases "q = p") (simp_all, blast+)
  qed
  moreover have "vmap t' (dir_of s i) va' =
        (if unat (PGNUM va') < Suc k \<and> i = e then map_option (\<lambda>(p, pm). (p, child_perm pm)) (vmap s (dir_of s c) va')
         else if unat (PGNUM va') < Suc k \<and> i = c then map_option (\<lambda>(p, pm). (p, parent_perm pm)) (vmap s (dir_of s c) va')
         else vmap s (dir_of s i) va')" if i: "i \<in> live s" "unat (PDX va') < UPDES" for i va'
    using S(5) [OF i] C(5) [OF i] s [OF _ i(2)] ce unfolding at by (cases "unat (PGNUM va') = k") (simp_all add: less_Suc_eq)
  moreover have "umem t' i va' = (if unat (PGNUM va') < Suc k \<and> i = e then umem s c va' else umem s i va')"
    if i: "i \<in> live s" "unat (PDX va') < UPDES" for i va'
    using S(6) [OF i] C(6) [OF i] C(6) [OF l(1) i(2)] ce unfolding at by (cases "unat (PGNUM va') = k") (simp_all add: less_Suc_eq)
  ultimately show ?thesis using S(1-4) C(1) by (simp add: copied_upto_def)
qed

lemma names_cong: "envs t = envs s \<Longrightarrow> live t = live s \<Longrightarrow> names cid c t = names cid c s \<and> may_touch c e t = may_touch c e s"
  by (simp add: names_def may_touch_def)

lemma copied_room:
  assumes c: "copied_upto c e s k t" and k: "k \<in> below s c p" and fin: "finite (mappers s (dirs s) p)"
    and room: "card (mappers s (dirs s) p) + x + card (below s c p) < 65535"
  shows "card (mappers t (dirs t) p) + x + 1 < 65535"
proof -
  let ?B = "{n \<in> below s c p. n < k}"
  have "card (mappers t (dirs t) p) \<le> card (mappers s (dirs s) p \<union> {dir_of s e} \<times> ?B)"
    using copied_uptoD(7) [OF c] fin by (intro card_mono) auto
  also have "\<dots> \<le> card (mappers s (dirs s) p) + card ?B"
    using card_Un_le [of "mappers s (dirs s) p" "{dir_of s e} \<times> ?B"] by (simp add: card_cartesian_product)
  finally have "card (mappers t (dirs t) p) \<le> card (mappers s (dirs s) p) + card ?B" .
  moreover have "card ?B + 1 \<le> card (below s c p)"
  proof -
    have "insert k ?B \<subseteq> below s c p" using k by auto
    then show ?thesis using card_mono [OF finite_below, of "insert k ?B" s c p] by simp
  qed
  ultimately show ?thesis using room by simp
qed

lemma fork_loop_ok:
  assumes s: "user_runs kd ext c s" and ce: "e \<noteq> c" and e: "names cid c s = Some e" "may_touch c e s"
    and empty: "\<And>va. unat (PGNUM va) < 977918 \<Longrightarrow> vmap s (dir_of s e) va = None"
    and room: "\<And>q. below s c q \<noteq> {} \<Longrightarrow> card (mappers s (dirs s) q) + ext q + card (below s c q) < 65535"
  shows "k \<le> 977918 \<Longrightarrow> user_runs kd ext c t \<Longrightarrow> copied_upto c e s k t \<Longrightarrow>
    \<exists>r k' t'. fork_loop cid (of_nat (4096 * k)) t = Ret r t' \<and> user_runs kd ext c t' \<and> copied_upto c e s k' t' \<and> k' \<le> 977918 \<and>
      (r = 0 \<and> k' = 977918 \<or> r = - E_NO_MEM \<and> free_pages t' = {})"
proof (induction "977918 - k" arbitrary: k t)
  case 0
  then have "k = 977918" by simp
  then show ?case using 0 by (subst fork_loop.simps) (intro exI [of _ 0] exI [of _ k] exI [of _ t], simp)
next
  case (Suc m)
  then have k: "k < 977918" by simp
  define va :: u32 where "va = of_nat (4096 * k)"
  have u: "unat va = 4096 * k" unfolding va_def using k by (intro unat_page_addr) simp
  note I = page_index [of k, folded va_def]
  have "unat (va mod 4096) = 0" by (simp add: unat_mod u)
  then have "va mod 4096 = 0" by (simp only: unat_eq_zero)
  then have lt: "va < USTACKTOP" "\<not> bad_va va" using k by (simp_all add: word_less_nat_alt word_le_nat_alt u bad_va_def)
  have nx: "va + PGSIZE = of_nat (4096 * Suc k)" by (simp add: va_def)
  note C = copied_uptoD [OF Suc.prems(3)] and D = user_runsD [OF s] and pdx = good_va_PDX [OF lt(2)]
  have l: "c \<in> live s" "e \<in> live s" using D(4) names_live [OF D(1) e(1)] by auto
  have IH: "\<exists>r k' t''. fork_loop cid (va + PGSIZE) t' = Ret r t'' \<and> user_runs kd ext c t'' \<and> copied_upto c e s k' t'' \<and> k' \<le> 977918 \<and>
      (r = 0 \<and> k' = 977918 \<or> r = - E_NO_MEM \<and> free_pages t'' = {})"
    if "user_runs kd ext c t'" "copied_upto c e s (Suc k) t'" for t'
    unfolding nx using Suc.hyps(2) k by (intro Suc.hyps(1)) (use that in auto)
  show ?case
  proof (cases "vmap t (dir_of t c) va")
    case None
    have "fork_loop cid va t = fork_loop cid (va + PGSIZE) t"
      using None uvpd_ok [OF Suc.prems(2), of "PDX va"] uvpt_ok [OF Suc.prems(2) pdx] lt(1)
      by (subst fork_loop.simps) (auto simp: vmap_def Let_def tfr_def split: if_splits)
    moreover have "copied_upto c e s (Suc k) t"
      using copied_skip [OF Suc.prems(3) k ce l _ empty] None by (simp add: va_def)
    ultimately show ?thesis using IH [OF Suc.prems(2)] unfolding va_def by simp
  next
    case (Some x)
    then obtain p pm where v: "vmap t (dir_of t c) va = Some (p, pm)" by (cases x) auto
    obtain pte where pte: "uvpt (PGNUM va) t = Ret pte t" "uvpd (PDX va) t = Ret (slot t (dir_of t c) (unat (PDX va))) t"
      "present (slot t (dir_of t c) (unat (PDX va)))" "present pte"
      by (rule uvpt_flags [OF Suc.prems(2) pdx v]) (rule that, assumption+)
    have run: "fork_loop cid va t = kbind (duppage cid (PGNUM va)) (\<lambda>ret. if ret < 0 then kret ret else fork_loop cid (va + PGSIZE)) t"
      using pte lt(1) by (subst fork_loop.simps) simp
    have "vmap s (dir_of s c) va = Some (p, pm)" using v C(5) [OF l(1) pdx] I(4) k C(3) by simp
    then have kb: "k \<in> below s c p" using k unfolding below_def va_def by blast
    have "finite (mappers s (dirs s) p)" by (rule mappers_maps(2) [OF D(7)])
    from copied_room [OF Suc.prems(3) kb this room] kb have rm: "card (mappers t (dirs t) p) + ext p + 1 < 65535" by blast
    have nm: "names cid c t = Some e" "may_touch c e t" using names_cong [OF C(1,2)] e by simp_all
    show ?thesis
    proof (rule duppage_ok [OF Suc.prems(2) ce lt(2) nm v rm])
      fix t' assume t': "duppage cid (PGNUM va) t = Ret 0 t'" "user_runs kd ext c t'" "page_shared c e va p pm t t'"
      have "copied_upto c e s (Suc k) t'"
        using copied_shared [OF Suc.prems(3) k ce l, of p pm t'] v t'(3) by (simp add: va_def)
      then show ?thesis using IH [OF t'(2)] run t'(1) unfolding va_def by simp
    next
      assume "duppage cid (PGNUM va) t = Ret (- E_NO_MEM) t" "free_pages t = {}"
      then show ?thesis using run Suc.prems k unfolding va_def [symmetric]
        by (intro exI [of _ "- E_NO_MEM"] exI [of _ k] exI [of _ t]) simp
    qed
  qed
qed

end
