(* ===== verification/Fork_Correct.thy ===== *)
theory Fork_Correct
  imports Fork_Copy
begin

text \<open>
  \<open>fork\<close> as a whole: the steps before and after the copying loop and the theorem on the memory of parent and
  child.
\<close>

section \<open>Before the loop\<close>

abbreviation (input) "XSTACK \<equiv> 0xEEBFF000 :: u32"

text \<open>Between \<open>s\<close> and \<open>t\<close> nobody's memory has changed but the exception stack of \<open>c\<close>, and the pages that \<open>c\<close>
  maps below its stack have no new mappings.\<close>

definition prepared :: "nat \<Rightarrow> kstate \<Rightarrow> kstate \<Rightarrow> bool" where
  "prepared c s t \<longleftrightarrow> live s \<subseteq> live t \<and> (\<forall>i\<in>live s. dir_of t i = dir_of s i) \<and>
     (\<forall>i\<in>live s. \<forall>va. unat (PDX va) < UPDES \<and> \<not> (i = c \<and> PGNUM va = PGNUM XSTACK) \<longrightarrow>
        vmap t (dir_of s i) va = vmap s (dir_of s i) va \<and> umem t i va = umem s i va) \<and>
     (\<forall>q. below s c q \<noteq> {} \<longrightarrow> mappers t (dirs t) q \<subseteq> mappers s (dirs s) q)"

lemma preparedD:
  assumes "prepared c s t"
  shows "live s \<subseteq> live t" and "i \<in> live s \<Longrightarrow> dir_of t i = dir_of s i"
    and "i \<in> live s \<Longrightarrow> unat (PDX va) < UPDES \<Longrightarrow> \<not> (i = c \<and> PGNUM va = PGNUM XSTACK) \<Longrightarrow>
      vmap t (dir_of s i) va = vmap s (dir_of s i) va \<and> umem t i va = umem s i va"
    and "below s c q \<noteq> {} \<Longrightarrow> mappers t (dirs t) q \<subseteq> mappers s (dirs s) q"
  using assms unfolding prepared_def by blast+

lemma prepared_refl: "prepared c s s"
  by (simp add: prepared_def)

lemma PGNUM_XSTACK: "unat (PGNUM XSTACK) = 977919"
  by (simp add: unat_PGNUM)

lemma PDX_below: "unat (PGNUM va) < 977920 \<Longrightarrow> unat (PDX va) < UPDES"
  by (simp add: unat_PGNUM unat_PDX div_mult2_eq [of _ 4096 1024, simplified])

lemma prepared_below:
  assumes "prepared c s t" and "c \<in> live s"
  shows "below t c q = below s c q"
proof -
  have "vmap t (dir_of t c) (of_nat (4096 * n)) = vmap s (dir_of s c) (of_nat (4096 * n))" if "n < 977918" for n
  proof -
    have n: "n < 977920" using that by simp
    have "PGNUM (of_nat (4096 * n)) \<noteq> PGNUM XSTACK" using page_index(4) [OF n] PGNUM_XSTACK that by auto
    then show ?thesis using preparedD(2,3) [OF assms(1)] assms(2) page_index(3) [OF n] by simp
  qed
  then show ?thesis by (auto simp: below_def)
qed

text \<open>A page is allocated for the exception stack of \<open>c\<close> or of an environment that is new.\<close>

lemma prepared_alloc:
  assumes p: "prepared c s t" and r: "user_runs kd ext c t" and c: "c \<in> live s" and j: "j = c \<or> j \<notin> live s" "j \<in> live t"
    and u: "space_upd t t' j XSTACK (Some (g, pm))" "g \<in> free_pages t" "data_kept t t' (dirs t)"
    and f: "live t' = live t" "dir_of t' = dir_of t" "dirs t' = dirs t"
  shows "prepared c s t'"
proof -
  note P = preparedD [OF p] and D = user_runsD [OF r]
  have "mappers t' (dirs t') q \<subseteq> mappers s (dirs s) q" if q: "below s c q \<noteq> {}" for q
  proof -
    have "below t c q \<noteq> {}" using q prepared_below [OF p c, of q] by simp
    then obtain n pn where n: "n < 977918" "vmap t (dir_of t c) (of_nat (4096 * n)) = Some (q, pn)"
      unfolding below_def by blast
    have "n < 977920" using n(1) by simp
    then have "q \<noteq> g" using free_not_mapped [OF D(7) u(2) D(8) page_index(3)] n(2) by blast
    then show ?thesis using mappers_upd [OF u(1) f(3) j(2), of q] P(4) [OF q] PDX_below [of XSTACK] PGNUM_XSTACK by auto
  qed
  moreover have "vmap t' (dir_of s i) va = vmap s (dir_of s i) va \<and> umem t' i va = umem s i va"
    if i: "i \<in> live s" "unat (PDX va) < UPDES" "\<not> (i = c \<and> PGNUM va = PGNUM XSTACK)" for i va
  proof -
    have n: "i \<in> live t" "\<not> (i = j \<and> PGNUM va = PGNUM XSTACK)" using i P(1) j by auto
    show ?thesis
      using space_updD(2) [OF u(1) n(1) i(2)] umem_step [OF r u(1,3) f(2) n(1) i(2) n(2)] n(2) P(2) [OF i(1)] P(3) [OF i] by auto
  qed
  ultimately show ?thesis using P(1,2) f(1,2) unfolding prepared_def by auto
qed

text \<open>A field of an environment is set.\<close>

lemma user_runs_upd_env:
  assumes r: "user_runs kd ext c s" and j: "j \<in> live s"
    and f: "\<And>v. env_pgdir (f v) = env_pgdir v \<and> env_id (f v) = env_id v \<and> env_link (f v) = env_link v"
    and st: "env_status (f (envs s j)) \<noteq> ENV_FREE"
  shows "user_runs kd ext c (upd_env j f s)" and "live (upd_env j f s) = live s" and "dir_of (upd_env j f s) = dir_of s"
    and "dirs (upd_env j f s) = dirs s" and "vmap (upd_env j f s) = vmap s" and "umem (upd_env j f s) = umem s"
    and "mappers (upd_env j f s) = mappers s"
proof -
  note D = user_runsD [OF r]
  have l: "live (upd_env j f s) = live s" using j st by (auto simp: live_def)
  have d: "dir_of (upd_env j f s) = dir_of s" using f by (auto simp: dir_of_def fun_eq_iff)
  show v: "vmap (upd_env j f s) = vmap s" by (intro ext vmap_phys) simp
  show "live (upd_env j f s) = live s" "dir_of (upd_env j f s) = dir_of s" "dirs (upd_env j f s) = dirs s"
    using l d by (simp_all add: dirs_def)
  show "umem (upd_env j f s) = umem s" by (intro ext) (simp add: umem_def v d)
  show "mappers (upd_env j f s) = mappers s" by (intro ext) (simp add: mappers_def v)
  have "kernel_ok kd ext (upd_env j f s)"
    using f st liveD [OF j] by (intro kernel_ok_upd_env [OF D(2)]) auto
  moreover have "pdes_open (upd_env j f s) (dirs s)" using pdes_open_cong [of "dirs s" "upd_env j f s" s] D(6) by (simp add: slot_def)
  ultimately show "user_runs kd ext c (upd_env j f s)"
    using r l d by (auto simp: user_runs_def in_syscall_def dirs_def curenv_def upd_env_def)
qed

lemma prepared_upd_env:
  assumes p: "prepared c s t" and "user_runs kd ext c t" and "j \<in> live t"
    and "\<And>v. env_pgdir (f v) = env_pgdir v \<and> env_id (f v) = env_id v \<and> env_link (f v) = env_link v"
    and "env_status (f (envs t j)) \<noteq> ENV_FREE"
  shows "prepared c s (upd_env j f t)"
  using p user_runs_upd_env [OF assms(2-5)] by (simp add: prepared_def)

lemma set_upcall_ok:
  assumes r: "user_runs kd ext c s" and e: "names envid c s = Some e" "may_touch c e s"
  shows "lib_sys_env_set_pgfault_upcall envid fn s = Ret 0 (upd_env e (\<lambda>v. v\<lparr>env_pgfault_upcall := fn\<rparr>) s)"
proof (rule stub_Ret(6))
  show "sys_env_set_pgfault_upcall envid fn s = Ret 0 (upd_env e (\<lambda>v. v\<lparr>env_pgfault_upcall := fn\<rparr>) s)"
    using envid2env_names [OF user_runsD(1) [OF r], of envid True] e
    by (simp add: sys_env_set_pgfault_upcall_def with_env_def kthen_def)
qed simp

lemma set_status_ok:
  assumes r: "user_runs kd ext c s" and e: "names envid c s = Some e" "may_touch c e s"
  shows "lib_sys_env_set_status envid 2 s = Ret 0 (upd_env e (\<lambda>v. v\<lparr>env_status := ENV_RUNNABLE\<rparr>) s)"
proof (rule stub_Ret(5))
  show "sys_env_set_status envid 2 s = Ret 0 (upd_env e (\<lambda>v. v\<lparr>env_status := ENV_RUNNABLE\<rparr>) s)"
    using envid2env_names [OF user_runsD(1) [OF r], of envid True] e
    by (simp add: sys_env_set_status_def with_env_def kthen_def)
qed simp

lemma set_pgfault_handler_ok:
  assumes r: "user_runs kd ext c s"
  obtains (ok) t where "set_pgfault_handler upcall cur handler s = Ret handler t" and "user_runs kd ext c t"
      and "prepared c s t" and "live t = live s" and "\<And>i. i \<noteq> c \<Longrightarrow> envs t i = envs s i" and "env_tf (envs t c) = env_tf (envs s c)"
      and "env_id (envs t c) = env_id (envs s c)"
  | (no_mem) "set_pgfault_handler upcall cur handler s = Panic ''At set_pgfault_handler:allocating''" and "cur = 0" and "\<exists>p. free_pages s \<subseteq> {p}"
proof (cases "cur = 0")
  case False
  then show thesis using r by (intro ok [of s]) (simp_all add: set_pgfault_handler_def prepared_refl)
next
  case True
  note S = self_id [OF r] and D = user_runsD [OF r]
  have x: "\<not> bad_va XSTACK" "\<not> bad_perm 7" by (simp_all add: bad_va_def bad_perm_def)
  show thesis
  proof (rule ucall_alloc [OF r x S(2,3)])
    fix t assume "lib_sys_page_alloc (env_id (envs s c)) XSTACK 7 s = Ret (- E_NO_MEM) t" "\<exists>p. free_pages s \<subseteq> {p}"
    then show thesis using True S(1,4) by (intro no_mem) (simp_all add: set_pgfault_handler_def Let_def)
  next
    fix g t assume t: "lib_sys_page_alloc (env_id (envs s c)) XSTACK 7 s = Ret 0 t" "user_runs kd ext c t" "g \<in> free_pages s"
      "space_upd s t c XSTACK (Some (g, 7 OR PTE_P))" "data_kept s t (dirs s)" "live t = live s" "dir_of t = dir_of s" "dirs t = dirs s"
    have e: "envs t = envs s" using space_updD(1) [OF t(4)] .
    note S' = self_id(2,3) [OF t(2)]
    let ?f = "\<lambda>v. v\<lparr>env_pgfault_upcall := upcall\<rparr>"
    have cl: "c \<in> live t" using D(4) t(6) by simp
    have fv: "env_pgdir (?f v) = env_pgdir v \<and> env_id (?f v) = env_id v \<and> env_link (?f v) = env_link v" for v :: Env by simp
    have st: "env_status (?f (envs t c)) \<noteq> ENV_FREE" using liveD [OF cl] by simp
    note U = user_runs_upd_env [OF t(2) cl fv st]
    have "prepared c s t" by (rule prepared_alloc [OF prepared_refl r D(4) _ D(4) t(4,3,5-8)]) simp
    then have "prepared c s (upd_env c ?f t)" by (rule prepared_upd_env [OF _ t(2) cl fv st])
    moreover have "set_pgfault_handler upcall cur handler s = Ret handler (upd_env c ?f t)"
      using True S(1,4) t(1) set_upcall_ok [OF t(2) S', of upcall] e by (simp add: set_pgfault_handler_def Let_def)
    ultimately show thesis using U t(6) e by (intro ok [of "upd_env c ?f t"]) simp_all
  qed
qed

section \<open>A new environment\<close>

text \<open>What \<open>sys_exofork\<close> does to memory: the child maps nothing, the others keep what they have.\<close>

definition spawned :: "nat \<Rightarrow> nat \<Rightarrow> kstate \<Rightarrow> kstate \<Rightarrow> bool" where
  "spawned c e s t \<longleftrightarrow> e \<notin> live s \<and> live t = insert e (live s) \<and> (\<forall>i. i \<noteq> e \<longrightarrow> envs t i = envs s i) \<and>
     (\<forall>va. unat (PDX va) < UPDES \<longrightarrow> vmap t (dir_of t e) va = None) \<and>
     (\<forall>i\<in>live s. \<forall>va. unat (PDX va) < UPDES \<longrightarrow> vmap t (dir_of t i) va = vmap s (dir_of s i) va)"

lemma spawnedD:
  assumes "spawned c e s t"
  shows "e \<notin> live s" and "live t = insert e (live s)" and "i \<noteq> e \<Longrightarrow> envs t i = envs s i"
    and "unat (PDX va) < UPDES \<Longrightarrow> vmap t (dir_of t e) va = None"
    and "i \<in> live s \<Longrightarrow> unat (PDX va) < UPDES \<Longrightarrow> vmap t (dir_of t i) va = vmap s (dir_of s i) va"
    and "i \<in> live s \<Longrightarrow> dir_of t i = dir_of s i"
proof -
  show e: "e \<notin> live s" and "live t = insert e (live s)" and n: "\<And>i. i \<noteq> e \<Longrightarrow> envs t i = envs s i"
    and "unat (PDX va) < UPDES \<Longrightarrow> vmap t (dir_of t e) va = None"
    and "i \<in> live s \<Longrightarrow> unat (PDX va) < UPDES \<Longrightarrow> vmap t (dir_of t i) va = vmap s (dir_of s i) va"
    using assms unfolding spawned_def by blast+
  show "dir_of t i = dir_of s i" if "i \<in> live s"
  proof -
    have "i \<noteq> e" using that e by blast
    then show ?thesis using n [of i] by (simp add: dir_of_def)
  qed
qed

lemma umem_spawned:
  assumes r: "user_runs kd ext c s" and sp: "spawned c e s t" and k: "data_kept s t (dirs s)"
    and i: "i \<in> live s" "unat (PDX va) < UPDES"
  shows "umem t i va = umem s i va"
proof (cases "vmap s (dir_of s i) va")
  case None
  then show ?thesis using spawnedD(5) [OF sp i] by (intro umem_None) simp_all
next
  case (Some x)
  then obtain g pg where v: "vmap s (dir_of s i) va = Some (g, pg)" by (cases x) auto
  have "dir_of s i \<in> dirs s" using i(1) by (simp add: dirs_def)
  note data_keptD [OF k mapped_data_page(1) [OF user_runsD(7) [OF r] this i(2) v]]
  then show ?thesis using v spawnedD(5) [OF sp i] by (intro umem_eqI [of t i va g pg s g pg]) auto
qed

lemma mappers_spawned:
  assumes sp: "spawned c e s t"
  shows "mappers t (dirs t) q \<subseteq> mappers s (dirs s) q"
proof
  fix x assume "x \<in> mappers t (dirs t) q"
  then obtain i n pn where x: "x = (dir_of t i, n)" "i \<in> live t" "n < 977920" "vmap t (dir_of t i) (of_nat (4096 * n)) = Some (q, pn)"
    by (auto simp: mappers_def dirs_def)
  have i: "i \<in> live s" using x(2,4) spawnedD(2) [OF sp] spawnedD(4) [OF sp page_index(3) [OF x(3)]] by auto
  have "vmap s (dir_of s i) (of_nat (4096 * n)) = Some (q, pn)" using spawnedD(5) [OF sp i page_index(3) [OF x(3)]] x(4) by simp
  moreover have "dir_of s i \<in> dirs s" using i by (simp add: dirs_def)
  ultimately show "x \<in> mappers s (dirs s) q" using x(1,3) spawnedD(6) [OF sp i] unfolding mappers_def by auto
qed

lemma prepared_spawned:
  assumes p: "prepared c s t" and r: "user_runs kd ext c t" and sp: "spawned c e t t'" and k: "data_kept t t' (dirs t)"
  shows "prepared c s t'"
proof -
  note P = preparedD [OF p] and S = spawnedD [OF sp]
  have l: "i \<in> live t" if "i \<in> live s" for i using that P(1) by blast
  have "vmap t' (dir_of s i) va = vmap s (dir_of s i) va \<and> umem t' i va = umem s i va"
    if i: "i \<in> live s" "unat (PDX va) < UPDES" "\<not> (i = c \<and> PGNUM va = PGNUM XSTACK)" for i va
    using P(3) [OF i] S(5) [OF l [OF i(1)] i(2)] S(6) [OF l [OF i(1)]] P(2) [OF i(1)] umem_spawned [OF r sp k l [OF i(1)] i(2)] by simp
  moreover have "mappers t' (dirs t') q \<subseteq> mappers s (dirs s) q" if "below s c q \<noteq> {}" for q
    using P(4) [OF that] mappers_spawned [OF sp] by blast
  ultimately show ?thesis using P(1,2) S(2,6) l unfolding prepared_def by auto
qed

lemma ucall_exofork:
  assumes r: "user_runs kd ext c s"
  obtains (fail) x where "lib_sys_exofork s = Ret x s" and "x = - E_NO_FREE_ENV \<and> live s = {..<NENV} \<or> x = - E_NO_MEM \<and> free_pages s = {}"
  | (created) e t where "lib_sys_exofork s = Ret (sint (env_id (envs t e))) t" and "user_runs kd ext c t" and "spawned c e s t"
      and "data_kept s t (dirs s)" and "sint (env_id (envs t e)) > 0" and "names (env_id (envs t e)) c t = Some e" and "may_touch c e t"
      and "env_tf (envs t e) = (env_tf (envs s c))\<lparr>tf_regs := (tf_regs (env_tf (envs s c)))\<lparr>reg_eax := 0\<rparr>\<rparr>"
proof (rule sys_exofork_ok [OF user_runsD(1) [OF r]])
  assume "sys_exofork s = Ret (- E_NO_FREE_ENV) s" "live s = {..<NENV}"
  then show thesis by (intro fail [of "- E_NO_FREE_ENV"] stub_Ret(4)) simp_all
next
  assume "sys_exofork s = Ret (- E_NO_MEM) s" "free_pages s = {}"
  then show thesis by (intro fail [of "- E_NO_MEM"] stub_Ret(4)) simp_all
next
  fix e t assume t: "sys_exofork s = Ret (sint (env_id (envs t e))) t" "kernel_ok kd ext t" "e \<notin> live s" "live t = insert e (live s)"
    "env_tf (envs t e) = (env_tf (envs s c))\<lparr>tf_regs := (tf_regs (env_tf (envs s c)))\<lparr>reg_eax := 0\<rparr>\<rparr>" "sint (env_id (envs t e)) > 0"
    "\<And>i. i \<noteq> e \<Longrightarrow> envs t i = envs s i" "\<And>va. unat (PDX va) < UPDES \<Longrightarrow> vmap t (dir_of t e) va = None"
    "names (env_id (envs t e)) c t = Some e" "may_touch c e t" "kernel_lock t = kernel_lock s" "cpunum t = cpunum s"
    "\<And>i va. i \<in> live s \<Longrightarrow> unat (PDX va) < UPDES \<Longrightarrow> vmap t (dir_of t i) va = vmap s (dir_of s i) va"
    "curenv t = curenv s" "cr3 t = cr3 s" "data_kept s t (dirs s)" "pdes_open s (dirs s) \<Longrightarrow> pdes_open t (dirs t)"
  note D = user_runsD [OF r]
  have sp: "spawned c e s t" using t(3,4,7,8,13) by (simp add: spawned_def)
  have "user_runs kd ext c t"
    using r t(2,11,12,14,15) t(17) [OF D(6)] spawnedD(6) [OF sp D(4)] by (simp add: user_runs_def in_syscall_def)
  then show thesis using sp t by (intro created [of t e] stub_Ret(4)) auto
qed

text \<open>The exception stack of the child.\<close>

lemma prepared_same:
  assumes p: "prepared c s t" and r: "user_runs kd ext c t" and u: "same_spaces t t'" "data_kept t t' (dirs t)"
    and f: "live t' = live t" "dir_of t' = dir_of t" "dirs t' = dirs t"
  shows "prepared c s t'"
proof -
  note P = preparedD [OF p]
  have v: "vmap t' (dir_of t i) va = vmap t (dir_of t i) va" if "i \<in> live t" "unat (PDX va) < UPDES" for i va
    using u(1) that by (simp add: same_spaces_def)
  have su: "space_upd t t' NENV 0 None" using u(1) by (auto simp: same_spaces_def space_upd_def live_def)
  have "umem t' i va = umem t i va" if i: "i \<in> live t" "unat (PDX va) < UPDES" for i va
    using umem_step [OF r su u(2) f(2) i] i(1) by (simp add: live_def)
  moreover have "mappers t' (dirs t) q = mappers t (dirs t) q" for q
    using v page_index(3) by (auto simp: mappers_def dirs_def)
  moreover have "vmap t' (dir_of s i) va = vmap t (dir_of s i) va" if "i \<in> live s" "unat (PDX va) < UPDES" for i va
    using v [of i va] that P(1) P(2) [OF that(1)] by auto
  ultimately show ?thesis using P f unfolding prepared_def by auto
qed

lemma child_stack:
  assumes p: "prepared c s t" and r: "user_runs kd ext c t" and c: "c \<in> live s" and e: "e \<notin> live s" "names cid c t = Some e" "may_touch c e t"
    and none: "\<And>va. unat (PDX va) < UPDES \<Longrightarrow> vmap t (dir_of t e) va = None"
  obtains (ok) t' where "lib_sys_page_alloc cid XSTACK 7 t = Ret 0 t'" and "user_runs kd ext c t'" and "prepared c s t'"
      and "envs t' = envs t" and "live t' = live t" and "\<And>va. unat (PGNUM va) < 977918 \<Longrightarrow> vmap t' (dir_of t' e) va = None"
  | (no_mem) t' where "lib_sys_page_alloc cid XSTACK 7 t = Ret (- E_NO_MEM) t'" and "user_runs kd ext c t'" and "prepared c s t'"
      and "\<exists>p. free_pages t' \<subseteq> {p}"
proof -
  have x: "\<not> bad_va XSTACK" "\<not> bad_perm 7" by (simp_all add: bad_va_def bad_perm_def)
  have el: "e \<in> live t" using names_live [OF user_runsD(1) [OF r] e(2)] .
  show thesis
  proof (rule ucall_alloc [OF r x e(2,3)])
    fix t' assume t': "lib_sys_page_alloc cid XSTACK 7 t = Ret (- E_NO_MEM) t'" "user_runs kd ext c t'" "same_spaces t t'"
      "data_kept t t' (dirs t)" "live t' = live t" "dir_of t' = dir_of t" "dirs t' = dirs t" "\<exists>p. free_pages t \<subseteq> {p}" "free_pages t' = free_pages t"
    show thesis by (rule no_mem [OF t'(1,2) prepared_same [OF p r t'(3-7)]]) (use t'(8,9) in simp)
  next
    fix g t' assume t': "lib_sys_page_alloc cid XSTACK 7 t = Ret 0 t'" "user_runs kd ext c t'" "g \<in> free_pages t"
      "space_upd t t' e XSTACK (Some (g, 7 OR PTE_P))" "data_kept t t' (dirs t)" "live t' = live t" "dir_of t' = dir_of t" "dirs t' = dirs t"
    have "prepared c s t'" by (rule prepared_alloc [OF p r c _ el t'(4,3,5-8)]) (use e(1) in simp)
    moreover have "vmap t' (dir_of t' e) va = None" if va: "unat (PGNUM va) < 977918" for va
    proof -
      have pdx: "unat (PDX va) < UPDES" by (rule PDX_below) (use va in simp)
      have "PGNUM va \<noteq> PGNUM XSTACK" using va PGNUM_XSTACK by auto
      then show ?thesis using space_updD(2) [OF t'(4) el pdx] none [OF pdx] t'(7) by simp
    qed
    ultimately show thesis using t' space_updD(1) [OF t'(4)] by (intro ok [of t']) auto
  qed
qed

section \<open>The whole call\<close>

definition fork_keeps :: "nat \<Rightarrow> kstate \<Rightarrow> kstate \<Rightarrow> bool" where
  "fork_keeps c s t \<longleftrightarrow> live s \<subseteq> live t \<and> (\<forall>i\<in>live s. \<forall>va. va < UTOP \<and> \<not> (i = c \<and> PGNUM va = PGNUM XSTACK) \<longrightarrow>
     umem t i va = umem s i va \<and> (i \<noteq> c \<longrightarrow> vmap t (dir_of t i) va = vmap s (dir_of s i) va))"

definition fork_copies :: "nat \<Rightarrow> nat \<Rightarrow> kstate \<Rightarrow> kstate \<Rightarrow> bool" where
  "fork_copies c e s t \<longleftrightarrow> (\<forall>va. va < USTACKTOP \<longrightarrow> umem t e va = umem s c va \<and>
     vmap t (dir_of t e) va = map_option (\<lambda>(p, pm). (p, child_perm pm)) (vmap s (dir_of s c) va) \<and>
     vmap t (dir_of t c) va = map_option (\<lambda>(p, pm). (p, parent_perm pm)) (vmap s (dir_of s c) va))"

lemma UTOP_PDX: "va < UTOP \<longleftrightarrow> unat (PDX va) < UPDES"
  by (simp add: word_less_nat_alt unat_PDX div_less_iff_less_mult)

lemma USTACKTOP_PGNUM: "va < USTACKTOP \<longleftrightarrow> unat (PGNUM va) < 977918"
  by (simp add: word_less_nat_alt unat_PGNUM div_less_iff_less_mult)

lemma prepared_keeps: "prepared c s t \<Longrightarrow> fork_keeps c s t"
  using preparedD [of c s t] by (simp add: fork_keeps_def UTOP_PDX)

lemma copied_keeps:
  assumes p: "prepared c s t" and e: "e \<notin> live s" and cp: "copied_upto c e t k t'"
  shows "fork_keeps c s t'"
proof -
  note P = preparedD [OF p] and C = copied_uptoD [OF cp]
  have "umem t' i va = umem s i va \<and> (i \<noteq> c \<longrightarrow> vmap t' (dir_of t' i) va = vmap s (dir_of s i) va)"
    if i: "i \<in> live s" "unat (PDX va) < UPDES" "\<not> (i = c \<and> PGNUM va = PGNUM XSTACK)" for i va
  proof -
    have l: "i \<in> live t" "i \<noteq> e" using i(1) P(1) e by auto
    show ?thesis using C(5,6) [OF l(1) i(2)] l(2) P(2) [OF i(1)] P(3) [OF i] C(3) by simp
  qed
  then show ?thesis using P(1) C(2) by (simp add: fork_keeps_def UTOP_PDX)
qed

lemma copied_copies:
  assumes p: "prepared c s t" and c: "c \<in> live s" and e: "e \<in> live t" "e \<noteq> c" and cp: "copied_upto c e t 977918 t'"
  shows "fork_copies c e s t'"
  unfolding fork_copies_def USTACKTOP_PGNUM
proof (intro allI impI)
  fix va assume va: "unat (PGNUM va) < 977918"
  note P = preparedD [OF p] and C = copied_uptoD [OF cp]
  have pdx: "unat (PDX va) < UPDES" by (rule PDX_below) (use va in simp)
  have "PGNUM va \<noteq> PGNUM XSTACK" using va PGNUM_XSTACK by auto
  then have "\<not> (c = c \<and> PGNUM va = PGNUM XSTACK)" by simp
  from P(3) [OF c pdx this] show "umem t' e va = umem s c va \<and>
     vmap t' (dir_of t' e) va = map_option (\<lambda>(p, pm). (p, child_perm pm)) (vmap s (dir_of s c) va) \<and>
     vmap t' (dir_of t' c) va = map_option (\<lambda>(p, pm). (p, parent_perm pm)) (vmap s (dir_of s c) va)"
    using C(5,6) [OF e(1) pdx] C(5) [OF _ pdx, of c] P(1,2) c va e(2) C(3) by auto
qed

lemma loop_room:
  assumes r: "user_runs kd ext c s" and p: "prepared c s t" and b: "below t c q \<noteq> {}"
    and room: "unat (pp_ref (pages s q)) + card (below s c q) < 65535"
  shows "card (mappers t (dirs t) q) + ext q + card (below t c q) < 65535"
proof -
  note c = user_runsD(4) [OF r] and beq = prepared_below [OF p user_runsD(4) [OF r], of q]
  have "below s c q \<noteq> {}" using b beq by simp
  then obtain n pm where n: "n < 977918" "vmap s (dir_of s c) (of_nat (4096 * n)) = Some (q, pm)" unfolding below_def by blast
  have n': "n < 977920" using n(1) by simp
  note M = mapped_room [OF r c page_index(3) [OF n'] n(2)]
  have "card (mappers t (dirs t) q) \<le> card (mappers s (dirs s) q)"
    by (rule card_mono [OF M(2) preparedD(4) [OF p]]) (use b beq in simp)
  then show ?thesis using room M(1) beq by simp
qed

text \<open>From the new child to the result.\<close>

definition fork_rest :: "u32 \<Rightarrow> u32 \<Rightarrow> u32 \<Rightarrow> int \<Rightarrow> (kstate, int \<times> u32 \<times> nat option) op" where
  "fork_rest upcall hdl child_id i =
     kbind (lib_sys_page_alloc child_id XSTACK 7) (\<lambda>ret. if ret < 0 then kret (ret, hdl, None)
     else kbind (lib_sys_env_set_pgfault_upcall child_id upcall) (\<lambda>ret. if ret < 0 then kret (ret, hdl, None)
     else kbind (fork_loop child_id 0) (\<lambda>ret. if ret < 0 then kret (ret, hdl, None)
     else kbind (lib_sys_env_set_status child_id 2) (\<lambda>ret. if ret < 0 then kret (ret, hdl, None) else kret (i, hdl, None)))))"

lemma fork_rest_ok:
  assumes s: "user_runs kd ext c s" and p: "prepared c s t" and r: "user_runs kd ext c t"
    and e: "e \<notin> live s" "names cid c t = Some e" "may_touch c e t" and live: "live t = insert e (live s)"
    and none: "\<And>va. unat (PDX va) < UPDES \<Longrightarrow> vmap t (dir_of t e) va = None"
    and room: "\<And>q. unat (pp_ref (pages s q)) + card (below s c q) < 65535"
  obtains (fail) t' where "fork_rest upcall hdl cid i t = Ret (- E_NO_MEM, hdl, None) t'" and "user_runs kd ext c t'" and "fork_keeps c s t'"
      and "\<exists>p. free_pages t' \<subseteq> {p}"
  | (ok) t' where "fork_rest upcall hdl cid i t = Ret (i, hdl, None) t'" and "user_runs kd ext c t'" and "fork_keeps c s t'"
      and "fork_copies c e s t'" and "live t' = insert e (live s)"
      and "envs t' e = (envs t e)\<lparr>env_pgfault_upcall := upcall, env_status := ENV_RUNNABLE\<rparr>"
proof -
  note c = user_runsD(4) [OF s]
  have ce: "e \<noteq> c" using e(1) c by blast
  show thesis
  proof (rule child_stack [OF p r c e none])
    fix t' assume "lib_sys_page_alloc cid XSTACK 7 t = Ret (- E_NO_MEM) t'" "user_runs kd ext c t'" "prepared c s t'" "\<exists>p. free_pages t' \<subseteq> {p}"
    then show thesis by (intro fail [of t'] prepared_keeps) (simp_all add: fork_rest_def)
  next
    fix t1 assume a: "lib_sys_page_alloc cid XSTACK 7 t = Ret 0 t1" "user_runs kd ext c t1" "prepared c s t1" "envs t1 = envs t"
      "live t1 = live t" "\<And>va. unat (PGNUM va) < 977918 \<Longrightarrow> vmap t1 (dir_of t1 e) va = None"
    let ?f = "\<lambda>v. v\<lparr>env_pgfault_upcall := upcall\<rparr>" and ?g = "\<lambda>v. v\<lparr>env_status := ENV_RUNNABLE\<rparr>"
    define t2 where "t2 = upd_env e ?f t1"
    have n1: "names cid c t1 = Some e" "may_touch c e t1" using names_cong [OF a(4,5)] e(2,3) by simp_all
    have el: "e \<in> live t1" using live a(5) by simp
    have fv: "env_pgdir (?f v) = env_pgdir v \<and> env_id (?f v) = env_id v \<and> env_link (?f v) = env_link v" for v :: Env by simp
    have st: "env_status (?f (envs t1 e)) \<noteq> ENV_FREE" using liveD [OF el] by simp
    note U = user_runs_upd_env [OF a(2) el fv st, folded t2_def]
    have p2: "prepared c s t2" unfolding t2_def by (rule prepared_upd_env [OF a(3,2) el fv st])
    have n2: "names cid c t2 = Some e" "may_touch c e t2"
      using n1 U(2) ce by (auto simp: names_def may_touch_def t2_def upd_env_def split: if_splits)
    have none2: "vmap t2 (dir_of t2 e) va = None" if "unat (PGNUM va) < 977918" for va using a(6) [OF that] U by simp
    have "\<exists>r k' t3. fork_loop cid (of_nat (4096 * 0)) t2 = Ret r t3 \<and> user_runs kd ext c t3 \<and> copied_upto c e t2 k' t3 \<and> k' \<le> 977918 \<and>
      (r = 0 \<and> k' = 977918 \<or> r = - E_NO_MEM \<and> free_pages t3 = {})"
      by (rule fork_loop_ok [OF U(1) ce n2 none2 _ _ U(1) copied_0]) (use loop_room [OF s p2 _ room] in auto)
    then obtain r k' t3 where l: "fork_loop cid 0 t2 = Ret r t3" "user_runs kd ext c t3" "copied_upto c e t2 k' t3"
      "r = 0 \<and> k' = 977918 \<or> r = - E_NO_MEM \<and> free_pages t3 = {}" by auto
    note C = copied_uptoD [OF l(3)] and K = copied_keeps [OF p2 e(1) l(3)]
    have up: "lib_sys_env_set_pgfault_upcall cid upcall t1 = Ret 0 t2" unfolding t2_def by (rule set_upcall_ok [OF a(2) n1])
    show thesis using l(4)
    proof
      assume "r = - E_NO_MEM \<and> free_pages t3 = {}"
      then show thesis using a(1) up l(1,2) K by (intro fail [of t3]) (simp_all add: fork_rest_def)
    next
      assume z: "r = 0 \<and> k' = 977918"
      have n3: "names cid c t3 = Some e" "may_touch c e t3" using names_cong [OF C(1,2)] n2 by simp_all
      have e3: "e \<in> live t3" "e \<in> live t2" using el C(2) U(2) by simp_all
      have gv: "env_pgdir (?g v) = env_pgdir v \<and> env_id (?g v) = env_id v \<and> env_link (?g v) = env_link v" for v :: Env by simp
      have gs: "env_status (?g (envs t3 e)) \<noteq> ENV_FREE" by simp
      note V = user_runs_upd_env [OF l(2) e3(1) gv gs]
      have "fork_copies c e s t3" using copied_copies [OF p2 c e3(2) ce] l(3) z by simp
      then have "fork_copies c e s (upd_env e ?g t3)" "fork_keeps c s (upd_env e ?g t3)"
        using K V unfolding fork_copies_def fork_keeps_def by simp_all
      moreover have "fork_rest upcall hdl cid i t = Ret (i, hdl, None) (upd_env e ?g t3)"
        using a(1) up l(1) z set_status_ok [OF l(2) n3] by (simp add: fork_rest_def)
      ultimately show thesis
        using V(1,2) C(1,2) U(2) a(4,5) live by (intro ok [of "upd_env e ?g t3"]) (simp_all add: upd_env_def t2_def)
    qed
  qed
qed

lemma child_perm_not_writable: "child_perm pm AND PTE_W = 0" "parent_perm pm AND PTE_W = 0"
proof -
  have "pm AND PTE_SYSCALL AND PTE_W = pm AND PTE_W" by (simp add: and.assoc)
  then have "\<not> cow pm \<Longrightarrow> (pm AND PTE_SYSCALL OR PTE_P) AND PTE_W = 0"
    by (simp add: cow_def bit.conj_disj_distrib2 and.assoc)
  then show "child_perm pm AND PTE_W = 0" "parent_perm pm AND PTE_W = 0"
    by (simp_all add: child_perm_def parent_perm_def cow_def)
qed


lemma sample_user_below: "card (below sample_user 0 q) \<le> 1"
proof -
  have "n = 2048" if "n \<in> below sample_user 0 q" for n
  proof -
    have n: "n < 977920" "vmap sample_user (dir_of sample_user 0) (of_nat (4096 * n)) \<noteq> None" using that by (auto simp: below_def)
    then have "PGNUM (of_nat (4096 * n)) = 0x800" unfolding sample_user_live(2) sample_user_vmap by (auto split: if_splits)
    then show ?thesis using page_index(4) [OF n(1)] by simp
  qed
  then show ?thesis using card_mono [of "{2048}" "below sample_user 0 q"] by auto
qed


end
