(* ===== verification/Serv.thy ===== *)
theory Serv
  imports Fs
begin

text \<open>
  The request loop of the file server, \<^verbatim>\<open>fs/serv.c\<close>. A client's request is a code and a page; the server
  answers with a number and, after an open, with a page that holds the \<^verbatim>\<open>struct Fd\<close> of the open file and
  is from then on shared with the client.

  \<^item> \<open>sfs\<close> is the file system underneath, \<open>opentab\<close> the table of open files, \<open>fsreq\<close> the request page at
    address 0x0ffff000, which the client shares and reads its results from.
  \<^item> \<open>fd_page va\<close> is the \<^verbatim>\<open>struct Fd\<close> on the server's page at \<open>va\<close>, and \<open>fd_refs va\<close> the reference count
    of that page that \<^verbatim>\<open>pageref\<close> reads from the kernel's table: 0 when the server has no page there, 1 when it alone
    maps the page, more when clients have the file open.
  \<^item> Diagnostic output is left out. A client that changes a request while it is served is not modelled.
\<close>

section \<open>Definitions\<close>

record Fd =
  fd_dev_id :: u32
  fd_offset :: u32
  fd_omode :: u32
  fd_file_id :: u32

record OpenFile =
  o_fileid :: u32
  o_file :: nat
  o_mode :: u32
  o_fd :: u32

record sstate =
  sfs :: fstate
  opentab :: "nat \<Rightarrow> OpenFile"
  fd_refs :: "u32 \<Rightarrow> nat"
  fd_page :: "u32 \<Rightarrow> Fd"
  fsreq :: bytes

abbreviation (input) MAXOPEN :: nat where "MAXOPEN \<equiv> 1024"
abbreviation (input) FILEVA :: u32 where "FILEVA \<equiv> 0xD0000000"
abbreviation (input) O_ACCMODE :: u32 where "O_ACCMODE \<equiv> 3"
abbreviation (input) O_CREAT :: u32 where "O_CREAT \<equiv> 0x100"
abbreviation (input) O_TRUNC :: u32 where "O_TRUNC \<equiv> 0x200"
abbreviation (input) O_EXCL :: u32 where "O_EXCL \<equiv> 0x400"
abbreviation (input) DEVFILE_ID :: u32 where "DEVFILE_ID \<equiv> 0x66"

text \<open>An operation of the file system as one of the server.\<close>

definition on_fs :: "(fstate, 'a) op \<Rightarrow> (sstate, 'a) op" where
  "on_fs m s = (case m (sfs s) of
     Ret a t \<Rightarrow> Ret a (s\<lparr>sfs := t\<rparr>) | Panic msg \<Rightarrow> Panic msg | Gone l t \<Rightarrow> Gone l (s\<lparr>sfs := t\<rparr>))"

definition serve_init :: "(sstate, unit) op" where
  "serve_init = kfor [0..<MAXOPEN] (\<lambda>i. kmod (\<lambda>s. s\<lparr>opentab :=
     (opentab s)(i := (opentab s i)\<lparr>o_fileid := of_nat i, o_fd := FILEVA + of_nat i * PGSIZE\<rparr>)\<rparr>))"

subsection \<open>The table of open files\<close>

definition zero_Fd :: Fd where
  "zero_Fd = \<lparr>fd_dev_id = 0, fd_offset = 0, fd_omode = 0, fd_file_id = 0\<rparr>"

text \<open>The last lines of the loop body: the entry gets a new identifier and an empty page.\<close>

definition openfile_take :: "nat \<Rightarrow> (sstate, int \<times> nat) op" where
  "openfile_take i s =
     (let ent = (opentab s i)\<lparr>o_fileid := o_fileid (opentab s i) + of_nat MAXOPEN\<rparr>
      in Ret (sint (o_fileid ent), i)
           (s\<lparr>opentab := (opentab s)(i := ent), fd_page := (fd_page s)(o_fd ent := zero_Fd)\<rparr>))"

primrec openfile_scan :: "nat list \<Rightarrow> (sstate, int \<times> nat) op" where
  "openfile_scan [] = kret (- E_MAX_OPEN, 0)"
| "openfile_scan (i # is) = (\<lambda>s.
     let va = o_fd (opentab s i)
     in if fd_refs s va = 0
        then if page_rc (sfs s) < 0 then Ret (page_rc (sfs s), 0) s
             else openfile_take i (s\<lparr>fd_refs := (fd_refs s)(va := 1)\<rparr>)
        else if fd_refs s va = 1 then openfile_take i s
        else openfile_scan is s)"

text \<open>The result and the index of the entry stored through \<^verbatim>\<open>o\<close>.\<close>

definition openfile_alloc :: "(sstate, int \<times> nat) op" where
  "openfile_alloc = openfile_scan [0..<MAXOPEN]"

definition openfile_lookup :: "u32 \<Rightarrow> u32 \<Rightarrow> (sstate, int \<times> nat) op" where
  "openfile_lookup envid fileid s =
     (let i = unat (fileid mod of_nat MAXOPEN)
      in if fd_refs s (o_fd (opentab s i)) \<le> 1 \<or> o_fileid (opentab s i) \<noteq> fileid then Ret (- E_INVAL, 0) s
         else Ret (0, i) s)"

subsection \<open>Requests\<close>

definition req_word :: "nat \<Rightarrow> (sstate, u32) op" where
  "req_word k = kget (\<lambda>s. load32 (fsreq s) k)"

text \<open>The path, copied and terminated: what C reads as a string.\<close>

definition req_path :: "(sstate, u8 list) op" where
  "req_path = kget (\<lambda>s. takeWhile (\<lambda>b. b \<noteq> 0) (map (fsreq s) [0..<1023]))"

text \<open>The middle of \<^verbatim>\<open>serve_open\<close>: create or open the file, truncate it, look it up again.\<close>

definition open_path :: "u8 list \<Rightarrow> u32 \<Rightarrow> (sstate, int \<times> nat) op" where
  "open_path path omode =
     kbind (if omode AND O_CREAT \<noteq> 0
            then kbind (on_fs (file_create path)) (\<lambda>(r, f).
                 if r < 0 \<and> omode AND O_EXCL = 0 \<and> r = - E_FILE_EXISTS then on_fs (file_open path)
                 else kret (r, f))
            else on_fs (file_open path)) (\<lambda>(r, f).
     if r < 0 then kret (r, f)
     else kbind (if omode AND O_TRUNC \<noteq> 0 then on_fs (file_set_size f 0) else kret 0) (\<lambda>r.
          if r < 0 then kret (r, f) else on_fs (file_open path)))"

text \<open>Its end: the entry and the page are filled in. The result and what is stored through
  \<^verbatim>\<open>pg_store\<close> and \<^verbatim>\<open>perm_store\<close>.\<close>

definition fill_entry :: "nat \<Rightarrow> nat \<Rightarrow> u32 \<Rightarrow> (sstate, int \<times> (u32 \<times> u32) option) op" where
  "fill_entry i f omode s =
     (let va = o_fd (opentab s i)
      in Ret (0, Some (va, PTE_P OR PTE_U OR PTE_W OR PTE_SHARE))
           (s\<lparr>opentab := (opentab s)(i := (opentab s i)\<lparr>o_file := f, o_mode := omode\<rparr>),
              fd_page := (fd_page s)(va := (fd_page s va)\<lparr>fd_file_id := o_fileid (opentab s i),
                fd_omode := omode AND O_ACCMODE, fd_dev_id := DEVFILE_ID\<rparr>)\<rparr>))"

definition serve_open :: "u32 \<Rightarrow> (sstate, int \<times> (u32 \<times> u32) option) op" where
  "serve_open envid =
     kbind req_path (\<lambda>path. kbind (req_word 1024) (\<lambda>omode.
     kbind openfile_alloc (\<lambda>(r, i).
     if r < 0 then kret (r, None)
     else kbind (open_path path omode) (\<lambda>(r, f).
          if r < 0 then kret (r, None) else fill_entry i f omode))))"

text \<open>The common beginning of the other requests: the file identifier is the first word.\<close>

definition with_open :: "u32 \<Rightarrow> (nat \<Rightarrow> (sstate, int) op) \<Rightarrow> (sstate, int) op" where
  "with_open envid k =
     kbind (req_word 0) (\<lambda>fileid. kbind (openfile_lookup envid fileid) (\<lambda>(r, i). if r < 0 then kret r else k i))"

definition the_file :: "nat \<Rightarrow> (sstate, nat) op" where
  "the_file i = kget (\<lambda>s. o_file (opentab s i))"

definition the_offset :: "nat \<Rightarrow> (sstate, u32) op" where
  "the_offset i = kget (\<lambda>s. fd_offset (fd_page s (o_fd (opentab s i))))"

definition advance :: "nat \<Rightarrow> int \<Rightarrow> (sstate, unit) op" where
  "advance i r = kmod (\<lambda>s. let va = o_fd (opentab s i)
     in s\<lparr>fd_page := (fd_page s)(va := (fd_page s va)\<lparr>fd_offset := fd_offset (fd_page s va) + word_of_int r\<rparr>)\<rparr>)"

definition serve_set_size :: "u32 \<Rightarrow> (sstate, int) op" where
  "serve_set_size envid = with_open envid (\<lambda>i.
     kbind (the_file i) (\<lambda>f. kbind (req_word 4) (\<lambda>size. on_fs (file_set_size f size))))"

text \<open>A buffer that starts at offset \<open>a\<close> of the request page. The page is followed in the server's address
  space by the block cache, at 0x10000000: what does not fit into the page goes there. The stores are made when all
  bytes have been read.\<close>

definition put_buf :: "u8 list \<Rightarrow> (sstate, unit) op" where
  "put_buf bs = kthen (kmod (\<lambda>s. s\<lparr>fsreq := (\<lambda>x. if x < min 4096 (length bs) then bs ! x else fsreq s x)\<rparr>))
     (on_fs (wr_bytes 0 (drop 4096 bs)))"

definition get_buf :: "nat \<Rightarrow> nat \<Rightarrow> (sstate, u8 list) op" where
  "get_buf a n = kbind (kget (\<lambda>s. map (fsreq s) [a..<min (a + n) 4096])) (\<lambda>bs.
     kbind (on_fs (rd_bytes 0 (a + n - 4096))) (\<lambda>cs. kret (bs @ cs)))"

definition serve_read :: "u32 \<Rightarrow> (sstate, int) op" where
  "serve_read envid = with_open envid (\<lambda>i.
     kbind (the_file i) (\<lambda>f. kbind (req_word 4) (\<lambda>n. kbind (the_offset i) (\<lambda>offset.
     kbind (on_fs (file_read f n offset)) (\<lambda>(r, bs).
     kthen (put_buf bs)
     (if r < 0 then kret r else kthen (advance i r) (kret r)))))))"

definition serve_write :: "u32 \<Rightarrow> (sstate, int) op" where
  "serve_write envid = with_open envid (\<lambda>i.
     kbind (req_word 4) (\<lambda>n0. let n = (if n0 > PGSIZE then PGSIZE else n0) in
     kthen (kmod (\<lambda>s. s\<lparr>fsreq := store32 (fsreq s) 4 n\<rparr>))
     (kbind (the_file i) (\<lambda>f. kbind (get_buf 8 (unat n)) (\<lambda>buf. kbind (the_offset i) (\<lambda>offset.
      kbind (on_fs (file_write f buf offset)) (\<lambda>r.
      if r < 0 then kret r else kthen (advance i r) (kret r))))))))"

text \<open>\<^verbatim>\<open>strcpy\<close> of a name, which ends within its 128 bytes.\<close>

primrec rd_string :: "nat \<Rightarrow> nat \<Rightarrow> (fstate, u8 list) op" where
  "rd_string 0 a = kpanic ''name without end''"
| "rd_string (Suc n) a = kbind (rd8 a) (\<lambda>b. if b = 0 then kret [] else kbind (rd_string n (a + 1)) (\<lambda>bs. kret (b # bs)))"

definition serve_stat :: "u32 \<Rightarrow> (sstate, int) op" where
  "serve_stat envid = with_open envid (\<lambda>i.
     kbind (the_file i) (\<lambda>f.
     kbind (on_fs (rd_string MAXNAMELEN f)) (\<lambda>name.
     kthen (put_buf (name @ [0]))
     (kbind (on_fs (rd32 (f_size_at f))) (\<lambda>size.
      kthen (kmod (\<lambda>s. s\<lparr>fsreq := store32 (fsreq s) 128 size\<rparr>))
      (kbind (on_fs (rd32 (f_type_at f))) (\<lambda>type.
       kthen (kmod (\<lambda>s. s\<lparr>fsreq := store32 (fsreq s) 132 (if type = FTYPE_DIR then 1 else 0)\<rparr>))
       (kret 0))))))))"

definition serve_flush :: "u32 \<Rightarrow> (sstate, int) op" where
  "serve_flush envid = with_open envid (\<lambda>i. kbind (the_file i) (\<lambda>f. kthen (on_fs (file_flush f)) (kret 0)))"

definition serve_sync :: "u32 \<Rightarrow> (sstate, int) op" where
  "serve_sync envid = kthen (on_fs fs_sync) (kret 0)"

subsection \<open>The loop\<close>

text \<open>\<^verbatim>\<open>handlers[req]\<close>; the entries of \<^verbatim>\<open>FSREQ_OPEN\<close> and \<^verbatim>\<open>FSREQ_REMOVE\<close> are null.\<close>

definition handlers :: "u32 \<Rightarrow> (u32 \<Rightarrow> (sstate, int) op) option" where
  "handlers req = (if req = 2 then Some serve_set_size else if req = 3 then Some serve_read
     else if req = 4 then Some serve_write else if req = 5 then Some serve_stat
     else if req = 6 then Some serve_flush else if req = 8 then Some serve_sync else None)"

text \<open>An answer: the receiver, the value, and the page with its permission, if any.\<close>

record reply =
  rp_to :: u32
  rp_value :: u32
  rp_page :: "u32 option"
  rp_perm :: u32

text \<open>One round of \<^verbatim>\<open>serve\<close> for a request that \<^verbatim>\<open>ipc_recv\<close> has delivered: no answer without an argument
  page. Afterwards the server unmaps the request page.\<close>

definition serve_one :: "u32 \<Rightarrow> u32 \<Rightarrow> u32 \<Rightarrow> (sstate, reply option) op" where
  "serve_one req whom perm =
     (if perm AND PTE_P = 0 then kret None
      else kbind (if req = 1 then serve_open whom
                  else case handlers req of
                    Some h \<Rightarrow> kbind (h whom) (\<lambda>r. kret (r, None))
                  | None \<Rightarrow> kret (- E_INVAL, None)) (\<lambda>(r, st).
           kret (Some (case st of
             Some (pg, pm) \<Rightarrow> \<lparr>rp_to = whom, rp_value = word_of_int r, rp_page = Some pg, rp_perm = pm\<rparr>
           | None \<Rightarrow> \<lparr>rp_to = whom, rp_value = word_of_int r, rp_page = None, rp_perm = perm\<rparr>))))"

text \<open>What \<^verbatim>\<open>umain\<close> does before the loop; \<open>second\<close> tells whether there is a second disk.\<close>

definition fs_start :: "bool \<Rightarrow> (sstate, unit) op" where
  "fs_start second = kthen serve_init (on_fs (fs_init second))"

end
