(* ===== verification/File_Client.thy ===== *)
theory File_Client
  imports Serv
begin

text \<open>
  The file device of the user library, \<^verbatim>\<open>lib/file.c\<close>, on top of the server: any number of client
  environments, each with its descriptor table and its request buffer, and the server that they call.

  \<^item> \<open>fdtab s (c, i)\<close> is the server's page that client \<open>c\<close> maps at descriptor \<open>i\<close>; \<open>bufs s c\<close> is the client's
    \<^verbatim>\<open>fsipcbuf\<close>.
  \<^item> \<open>fsipc\<close> is a call of the server: \<^verbatim>\<open>ipc_send\<close> repeats until the server receives, \<^verbatim>\<open>ipc_recv\<close> waits for its answer, and the
    server handles one request at a time, so that a request is one step. The request page is the client's buffer, shared.
  \<^item> A page that comes with the answer is mapped at the descriptor, which counts as one more reference to it; the count of a
    descriptor page is what tells the server whether the file is still open.
\<close>

section \<open>Definitions\<close>

record cstate =
  srv :: sstate
  fdtab :: "nat \<times> nat \<Rightarrow> u32 option"
  bufs :: "nat \<Rightarrow> bytes"

abbreviation (input) MAXFD :: nat where "MAXFD \<equiv> 32"

definition fsipc :: "nat \<Rightarrow> u32 \<Rightarrow> (cstate, int \<times> u32 option) op" where
  "fsipc c type s = (case serve_one type (of_nat c) (PTE_P OR PTE_W OR PTE_U) ((srv s)\<lparr>fsreq := bufs s c\<rparr>) of
     Ret (Some rp) t \<Rightarrow> Ret (sint (rp_value rp), rp_page rp) (s\<lparr>srv := t, bufs := (bufs s)(c := fsreq t)\<rparr>)
   | Ret None t \<Rightarrow> Gone Halted (s\<lparr>srv := t, bufs := (bufs s)(c := fsreq t)\<rparr>)
   | Panic msg \<Rightarrow> Panic msg
   | Gone l t \<Rightarrow> Gone l (s\<lparr>srv := t\<rparr>))"

definition fill_req :: "nat \<Rightarrow> (bytes \<Rightarrow> bytes) \<Rightarrow> (cstate, unit) op" where
  "fill_req c f = kmod (\<lambda>s. s\<lparr>bufs := (bufs s)(c := f (bufs s c))\<rparr>)"

text \<open>Descriptor \<open>i\<close> is used: its page must be mapped.\<close>

definition with_fd :: "nat \<Rightarrow> nat \<Rightarrow> (u32 \<Rightarrow> (cstate, 'a) op) \<Rightarrow> (cstate, 'a) op" where
  "with_fd c i k s = (case fdtab s (c, i) of None \<Rightarrow> Panic ''page fault'' | Some va \<Rightarrow> k va s)"

definition fd_id :: "u32 \<Rightarrow> (cstate, u32) op" where
  "fd_id va = kget (\<lambda>s. fd_file_id (fd_page (srv s) va))"

definition map_fd :: "nat \<Rightarrow> nat \<Rightarrow> u32 \<Rightarrow> (cstate, unit) op" where
  "map_fd c i va = kmod (\<lambda>s. s\<lparr>fdtab := (fdtab s)((c, i) := Some va),
     srv := (srv s)\<lparr>fd_refs := (fd_refs (srv s))(va := fd_refs (srv s) va + 1)\<rparr>\<rparr>)"

definition unmap_fd :: "nat \<Rightarrow> nat \<Rightarrow> (cstate, unit) op" where
  "unmap_fd c i s = (case fdtab s (c, i) of None \<Rightarrow> Ret () s
   | Some va \<Rightarrow> Ret () (s\<lparr>fdtab := (fdtab s)((c, i) := None),
       srv := (srv s)\<lparr>fd_refs := (fd_refs (srv s))(va := fd_refs (srv s) va - 1)\<rparr>\<rparr>))"

definition put_string :: "u8 list \<Rightarrow> bytes \<Rightarrow> bytes" where
  "put_string str b = (\<lambda>x. if x < length str then str ! x else if x = length str then 0 else b x)"

text \<open>\<^verbatim>\<open>open\<close>: the lowest free descriptor gets the page of the answer. When the request fails no page comes, and
  \<^verbatim>\<open>fd_close(fd, 0)\<close> finds nothing to close.\<close>

definition open_file :: "nat \<Rightarrow> u8 list \<Rightarrow> u32 \<Rightarrow> (cstate, int) op" where
  "open_file c path mode =
     (if length path \<ge> 1024 then kret (- E_BAD_PATH)
      else kbind (kget (\<lambda>s. find (\<lambda>i. fdtab s (c, i) = None) [0..<MAXFD])) (\<lambda>fd. case fd of
           None \<Rightarrow> kret (- E_MAX_OPEN)
         | Some i \<Rightarrow>
             kthen (fill_req c (\<lambda>b. store32 (put_string path b) 1024 mode))
             (kbind (fsipc c 1) (\<lambda>(r, pg).
              kthen (case pg of Some va \<Rightarrow> map_fd c i va | None \<Rightarrow> kret ())
              (if r < 0 then kret r else kret (int i))))))"

definition devfile_flush :: "nat \<Rightarrow> nat \<Rightarrow> (cstate, int) op" where
  "devfile_flush c i = with_fd c i (\<lambda>va. kbind (fd_id va) (\<lambda>fileid.
     kthen (fill_req c (\<lambda>b. store32 b 0 fileid)) (kbind (fsipc c 6) (\<lambda>(r, pg). kret r))))"

text \<open>The result and the bytes stored in \<^verbatim>\<open>buf\<close>. The assertions compare with unsigned sizes.\<close>

definition devfile_read :: "nat \<Rightarrow> nat \<Rightarrow> u32 \<Rightarrow> (cstate, int \<times> u8 list) op" where
  "devfile_read c i n = with_fd c i (\<lambda>va. kbind (fd_id va) (\<lambda>fileid.
     kthen (fill_req c (\<lambda>b. store32 (store32 b 0 fileid) 4 n))
     (kbind (fsipc c 3) (\<lambda>(r, pg).
      if r < 0 then kret (r, [])
      else kthen (kassert (r \<le> uint n)) (kthen (kassert (r \<le> 4096))
           (kbind (kget (\<lambda>s. map (bufs s c) [0..<nat r])) (\<lambda>bs. kret (r, bs))))))))"

definition devfile_write :: "nat \<Rightarrow> nat \<Rightarrow> u8 list \<Rightarrow> (cstate, int) op" where
  "devfile_write c i buf = with_fd c i (\<lambda>va. kbind (fd_id va) (\<lambda>fileid.
     let n = (if length buf > 4088 then 4088 else length buf) in
     kthen (fill_req c (\<lambda>b. let b' = store32 (store32 b 0 fileid) 4 (of_nat n)
                            in (\<lambda>x. if 8 \<le> x \<and> x < 8 + n then buf ! (x - 8) else b' x)))
     (kbind (fsipc c 4) (\<lambda>(r, pg).
      if r < 0 then kret r
      else kthen (kassert (r \<le> int n)) (kthen (kassert (r \<le> 4096)) (kret r))))))"

text \<open>The result with name, size and the directory flag.\<close>

definition devfile_stat :: "nat \<Rightarrow> nat \<Rightarrow> (cstate, int \<times> u8 list \<times> u32 \<times> u32) op" where
  "devfile_stat c i = with_fd c i (\<lambda>va. kbind (fd_id va) (\<lambda>fileid.
     kthen (fill_req c (\<lambda>b. store32 b 0 fileid))
     (kbind (fsipc c 5) (\<lambda>(r, pg).
      if r < 0 then kret (r, [], 0, 0)
      else kbind (kget (\<lambda>s. bufs s c)) (\<lambda>b.
           kret (0, takeWhile (\<lambda>x. x \<noteq> 0) (map b [0..<128]), load32 b 128, load32 b 132))))))"

definition devfile_trunc :: "nat \<Rightarrow> nat \<Rightarrow> u32 \<Rightarrow> (cstate, int) op" where
  "devfile_trunc c i newsize = with_fd c i (\<lambda>va. kbind (fd_id va) (\<lambda>fileid.
     kthen (fill_req c (\<lambda>b. store32 (store32 b 0 fileid) 4 newsize))
     (kbind (fsipc c 2) (\<lambda>(r, pg). kret r))))"

definition sync :: "nat \<Rightarrow> (cstate, int) op" where
  "sync c = kbind (fsipc c 8) (\<lambda>(r, pg). kret r)"

text \<open>What \<^verbatim>\<open>lib/fd.c\<close> does for a descriptor of this device: \<^verbatim>\<open>close\<close> flushes and unmaps, \<^verbatim>\<open>seek\<close>
  stores the position, \<^verbatim>\<open>dup\<close> closes \<open>j\<close> and maps the page of \<open>i\<close> there; when \<open>i\<close> is \<open>j\<close> the page is gone by then.\<close>

definition lookup_fd :: "nat \<Rightarrow> nat \<Rightarrow> cstate \<Rightarrow> u32 option" where
  "lookup_fd c i s = (if i < MAXFD then fdtab s (c, i) else None)"

definition close_file :: "nat \<Rightarrow> nat \<Rightarrow> (cstate, int) op" where
  "close_file c i s = (if lookup_fd c i s = None then Ret (- E_INVAL) s
     else kbind (devfile_flush c i) (\<lambda>r. kthen (unmap_fd c i) (kret r)) s)"

definition seek_file :: "nat \<Rightarrow> nat \<Rightarrow> u32 \<Rightarrow> (cstate, int) op" where
  "seek_file c i offset s = (case lookup_fd c i s of
     None \<Rightarrow> Ret (- E_INVAL) s
   | Some va \<Rightarrow> Ret 0 (s\<lparr>srv := (srv s)\<lparr>fd_page :=
       (fd_page (srv s))(va := (fd_page (srv s) va)\<lparr>fd_offset := offset\<rparr>)\<rparr>\<rparr>))"

definition dup_file :: "nat \<Rightarrow> nat \<Rightarrow> nat \<Rightarrow> (cstate, int) op" where
  "dup_file c i j s =
     (if lookup_fd c i s = None then Ret (- E_INVAL) s
      else kbind (close_file c j) (\<lambda>_ s. case fdtab s (c, i) of
             None \<Rightarrow> kthen (unmap_fd c j) (kret (- E_INVAL)) s
           | Some va \<Rightarrow> kthen (unmap_fd c j) (kthen (map_fd c j va) (kret (int j))) s) s)"

text \<open>\<^verbatim>\<open>stat\<close> opens the file, asks for its status and closes it again.\<close>

definition stat_file :: "nat \<Rightarrow> u8 list \<Rightarrow> (cstate, int \<times> u8 list \<times> u32 \<times> u32) op" where
  "stat_file c path = kbind (open_file c path 0) (\<lambda>fd.
     if fd < 0 then kret (fd, [], 0, 0)
     else kbind (devfile_stat c (nat fd)) (\<lambda>r. kthen (close_file c (nat fd)) (kret r)))"

end
