(* ===== verification/Serv_Theorems.thy ===== *)
theory Serv_Theorems
  imports Serv Fs_Theorems
begin

text \<open>
  The table of open files gives out fresh identifiers and never touches a file that a client has open; requests
  with an identifier that is not valid change nothing; what a client writes it reads back.
\<close>

section \<open>The table\<close>

lemma on_fs_simps [simp]:
  "m (sfs s) = Ret a t \<Longrightarrow> on_fs m s = Ret a (s\<lparr>sfs := t\<rparr>)"
  "m (sfs s) = Panic msg \<Longrightarrow> on_fs m s = Panic msg"
  by (simp_all add: on_fs_def)

text \<open>Entry \<open>i\<close> has page \<open>i\<close> of the descriptor area and an identifier that is \<open>i\<close> modulo the size of the table.\<close>

definition table_ok :: "sstate \<Rightarrow> bool" where
  "table_ok s \<longleftrightarrow> (\<forall>i<MAXOPEN. o_fd (opentab s i) = FILEVA + of_nat i * PGSIZE \<and> unat (o_fileid (opentab s i)) mod MAXOPEN = i)"

lemma table_okD: "table_ok s \<Longrightarrow> i < MAXOPEN \<Longrightarrow> o_fd (opentab s i) = FILEVA + of_nat i * PGSIZE"
  "table_ok s \<Longrightarrow> i < MAXOPEN \<Longrightarrow> unat (o_fileid (opentab s i)) mod MAXOPEN = i"
  by (simp_all add: table_ok_def)

lemma fd_addr_inj:
  assumes "i < MAXOPEN" "j < MAXOPEN" and "FILEVA + of_nat i * PGSIZE = FILEVA + of_nat j * PGSIZE"
  shows "i = j"
proof -
  have "unat (of_nat i * PGSIZE :: u32) = i * 4096" if "i < MAXOPEN" for i
    using that by (simp add: unat_word_ariths unat_of_nat)
  then show ?thesis using assms by (metis add_left_cancel mult_cancel2 zero_neq_numeral)
qed

lemma table_distinct:
  assumes "table_ok s" and "i < MAXOPEN" and "j < MAXOPEN" and "o_fd (opentab s i) = o_fd (opentab s j)"
  shows "i = j"
  using assms(4) fd_addr_inj [OF assms(2,3)] table_okD(1) [OF assms(1)] assms(2,3) by simp

lemma serve_init_ok: "\<exists>s'. serve_init s = Ret () s' \<and> table_ok s' \<and> sfs s' = sfs s"
proof -
  let ?P = "\<lambda>k s'. sfs s' = sfs s \<and> (\<forall>i<k. o_fd (opentab s' i) = FILEVA + of_nat i * PGSIZE \<and> o_fileid (opentab s' i) = of_nat i)"
  have "\<exists>s'. serve_init s = Ret () s' \<and> ?P MAXOPEN s'"
    unfolding serve_init_def by (rule kfor_upt_invariant) (auto simp: less_Suc_eq)
  moreover have "unat (of_nat i :: u32) mod MAXOPEN = i" if "i < MAXOPEN" for i
    using that by (simp add: unat_of_nat)
  ultimately show ?thesis by (auto simp: table_ok_def)
qed

text \<open>The identifiers that clients may use.\<close>

definition opened :: "sstate \<Rightarrow> u32 set" where
  "opened s = {fileid. \<exists>i. openfile_lookup 0 fileid s = Ret (0, i) s}"

lemma lookup_opened:
  "openfile_lookup envid fileid s =
     (if fileid \<in> opened s then Ret (0, unat (fileid mod of_nat MAXOPEN)) s else Ret (- E_INVAL, 0) s)"
  by (auto simp: opened_def openfile_lookup_def Let_def)

lemma opened_iff:
  "fileid \<in> opened s \<longleftrightarrow> fd_refs s (o_fd (opentab s (unat fileid mod MAXOPEN))) > 1 \<and> o_fileid (opentab s (unat fileid mod MAXOPEN)) = fileid"
  by (auto simp: opened_def openfile_lookup_def Let_def unat_mod)

text \<open>A client maps a descriptor page once more.\<close>

definition share :: "u32 \<Rightarrow> sstate \<Rightarrow> sstate" where
  "share va s = s\<lparr>fd_refs := (fd_refs s)(va := fd_refs s va + 1)\<rparr>"

lemma scan_find:
  "openfile_scan is s = (case find (\<lambda>i. fd_refs s (o_fd (opentab s i)) \<le> 1) is of
     None \<Rightarrow> Ret (- E_MAX_OPEN, 0) s
   | Some i \<Rightarrow> if fd_refs s (o_fd (opentab s i)) = 0 \<and> page_rc (sfs s) < 0 then Ret (page_rc (sfs s), 0) s
       else openfile_take i (s\<lparr>fd_refs := (fd_refs s)(o_fd (opentab s i) := 1)\<rparr>))"
proof (induction "is")
  case (Cons i js)
  have "s\<lparr>fd_refs := (fd_refs s)(va := 1)\<rparr> = s" if "fd_refs s va = 1" for va
    using that by (metis (full_types) fun_upd_triv sstate.surjective sstate.update_convs(3))
  then show ?case using Cons.IH by (cases "fd_refs s (o_fd (opentab s i))") (auto simp: Let_def)
qed simp

lemma id_step: "unat (x + 1024 :: u32) mod MAXOPEN = unat x mod MAXOPEN" "x + 1024 \<noteq> (x :: u32)"
proof -
  have "(unat x + 1024) mod 4294967296 mod 1024 = (unat x + 1024) mod 1024"
    by (rule mod_mod_cancel) simp
  then show "unat (x + 1024) mod MAXOPEN = unat x mod MAXOPEN" by (simp add: unat_word_ariths)
qed simp

text \<open>The effect of taking entry \<open>i\<close>.\<close>

lemma take_ok:
  assumes ok: "table_ok s" and i: "i < MAXOPEN" and ref: "fd_refs s (o_fd (opentab s i)) \<le> 1"
    and s': "openfile_take i (s\<lparr>fd_refs := (fd_refs s)(o_fd (opentab s i) := 1)\<rparr>) = Ret (r, j) s'"
  shows "j = i" and "r = sint (o_fileid (opentab s i) + 1024)" and "table_ok s'" and "opened s' = opened s"
    and "opened (share (o_fd (opentab s i)) s') = insert (o_fileid (opentab s i) + 1024) (opened s)"
    and "o_fileid (opentab s i) + 1024 \<notin> opened s" and "sfs s' = sfs s" and "fsreq s' = fsreq s"
    and "fd_refs s' = (fd_refs s)(o_fd (opentab s i) := 1)" and "opentab s' = (opentab s)(i := (opentab s i)\<lparr>o_fileid := o_fileid (opentab s i) + 1024\<rparr>)"
    and "o_fd (opentab s' i) = o_fd (opentab s i)" and "fd_refs s va > 1 \<Longrightarrow> fd_page s' va = fd_page s va \<and> fd_refs s' va = fd_refs s va"
proof -
  let ?id = "o_fileid (opentab s i) + 1024" and ?va = "o_fd (opentab s i)"
  have e: "j = i" "r = sint ?id" "s' = s\<lparr>fd_refs := (fd_refs s)(?va := 1), opentab := (opentab s)(i := (opentab s i)\<lparr>o_fileid := ?id\<rparr>),
      fd_page := (fd_page s)(?va := zero_Fd)\<rparr>"
    using s' by (auto simp: openfile_take_def Let_def)
  show "j = i" "r = sint ?id" by fact+
  show "sfs s' = sfs s" "fsreq s' = fsreq s" "o_fd (opentab s' i) = ?va" "fd_refs s' = (fd_refs s)(?va := 1)"
    "opentab s' = (opentab s)(i := (opentab s i)\<lparr>o_fileid := ?id\<rparr>)" by (simp_all add: e(3))
  show "table_ok s'" using ok id_step(1) [of "o_fileid (opentab s i)"] by (auto simp: table_ok_def e(3))
  have mod: "unat ?id mod MAXOPEN = i" using id_step(1) [of "o_fileid (opentab s i)"] table_okD(2) [OF ok i] by simp
  have va: "o_fd (opentab s k) = ?va \<longleftrightarrow> k = i" if "k < MAXOPEN" for k using table_distinct [OF ok that i] by auto
  have lt: "unat f mod MAXOPEN < MAXOPEN" for f :: u32 by simp
  show "?id \<notin> opened s" using ref mod by (simp add: opened_iff)
  show "opened s' = opened s"
    using ref va lt by (auto simp: opened_iff e(3) set_eq_iff)
  show "opened (share ?va s') = insert ?id (opened s)"
    using ref va lt mod by (auto simp: opened_iff share_def e(3) set_eq_iff)
  show "fd_page s' va = fd_page s va \<and> fd_refs s' va = fd_refs s va" if "fd_refs s va > 1"
    using that ref by (auto simp: e(3))
qed

text \<open>(C13) Identifiers of open files. \<open>openfile_alloc\<close> fails with \<^verbatim>\<open>-E_MAX_OPEN\<close> when clients share all 1024
  descriptor pages and with the kernel's error when there is no memory, and then changes nothing. Otherwise it takes the
  first entry whose page no client maps and gives it an identifier that was not valid before and differs from the
  entry's previous one, so that clients with an identifier of the file that used to be there are refused. No identifier
  becomes valid or invalid by this, the new one becomes valid when the client maps the page, and the page and count of every file
  that is open stay as they are.\<close>

theorem openfile_alloc_correct:
  assumes "table_ok s"
  shows "(openfile_alloc s = Ret (- E_MAX_OPEN, 0) s \<and> (\<forall>i<MAXOPEN. fd_refs s (o_fd (opentab s i)) > 1)) \<or>
    (openfile_alloc s = Ret (page_rc (sfs s), 0) s \<and> page_rc (sfs s) < 0) \<or>
    (\<exists>i id s'. openfile_alloc s = Ret (sint id, i) s' \<and> i < MAXOPEN \<and> fd_refs s (o_fd (opentab s i)) \<le> 1 \<and>
       (\<forall>j<i. fd_refs s (o_fd (opentab s j)) > 1) \<and> id \<notin> opened s \<and> id \<noteq> o_fileid (opentab s i) \<and> table_ok s' \<and>
       opened s' = opened s \<and> opened (share (o_fd (opentab s' i)) s') = insert id (opened s) \<and>
       openfile_lookup envid id (share (o_fd (opentab s' i)) s') = Ret (0, i) (share (o_fd (opentab s' i)) s') \<and>
       sfs s' = sfs s \<and> (\<forall>va. fd_refs s va > 1 \<longrightarrow> fd_page s' va = fd_page s va \<and> fd_refs s' va = fd_refs s va))"
proof (cases "find (\<lambda>i. fd_refs s (o_fd (opentab s i)) \<le> 1) [0..<MAXOPEN]")
  case None
  then have "\<forall>i<MAXOPEN. fd_refs s (o_fd (opentab s i)) > 1"
    unfolding find_None_iff by (auto simp: not_le simp del: upt_rec_numeral)
  then show ?thesis using None by (simp add: openfile_alloc_def scan_find del: upt_rec_numeral)
next
  case (Some i)
  let ?va = "o_fd (opentab s i)" and ?id = "o_fileid (opentab s i) + 1024"
  have i: "i < MAXOPEN" "fd_refs s ?va \<le> 1" "\<forall>j<i. fd_refs s (o_fd (opentab s j)) > 1"
    using Some unfolding find_Some_iff by (auto simp: not_le simp del: upt_rec_numeral)
  show ?thesis
  proof (cases "fd_refs s ?va = 0 \<and> page_rc (sfs s) < 0")
    case True
    then show ?thesis using Some by (simp add: openfile_alloc_def scan_find del: upt_rec_numeral)
  next
    case False
    obtain r j s' where s': "openfile_take i (s\<lparr>fd_refs := (fd_refs s)(?va := 1)\<rparr>) = Ret (r, j) s'"
      by (simp add: openfile_take_def Let_def)
    note T = take_ok [OF assms i(1,2) s']
    have run: "openfile_alloc s = Ret (sint ?id, i) s'"
      using Some False s' T(1,2) by (auto simp: openfile_alloc_def scan_find simp del: upt_rec_numeral)
    have "unat ?id mod MAXOPEN = i"
      using id_step(1) [of "o_fileid (opentab s i)"] table_okD(2) [OF assms i(1)] by simp
    then have "openfile_lookup envid ?id (share ?va s') = Ret (0, i) (share ?va s')"
      using T(5) by (simp add: lookup_opened unat_mod)
    then show ?thesis
      using run i T id_step(2) by (intro disjI2 exI [of _ i] exI [of _ ?id] exI [of _ s']) auto
  qed
qed

section \<open>Requests\<close>

text \<open>What a valid identifier in the request page leads to.\<close>

lemma with_open_ok:
  "with_open envid k s = (if load32 (fsreq s) 0 \<in> opened s then k (unat (load32 (fsreq s) 0) mod MAXOPEN) s else Ret (- E_INVAL) s)"
  by (simp add: with_open_def req_word_def lookup_opened unat_mod)


definition adv :: "nat \<Rightarrow> int \<Rightarrow> sstate \<Rightarrow> sstate" where
  "adv i r s = (let va = o_fd (opentab s i)
     in s\<lparr>fd_page := (fd_page s)(va := (fd_page s va)\<lparr>fd_offset := fd_offset (fd_page s va) + word_of_int r\<rparr>)\<rparr>)"

lemma adv_fields [simp]:
  "sfs (adv i r s) = sfs s" "opentab (adv i r s) = opentab s" "fd_refs (adv i r s) = fd_refs s" "fsreq (adv i r s) = fsreq s"
  "va = o_fd (opentab s i) \<Longrightarrow> fd_offset (fd_page (adv i r s) va) = fd_offset (fd_page s va) + word_of_int r"
  by (simp_all add: adv_def Let_def)

lemma get_buf_ok: "a + n \<le> 4096 \<Longrightarrow> get_buf a n s = Ret (map (fsreq s) [a..<a + n]) s"
  by (simp add: get_buf_def on_fs_def)

lemma put_buf_ok:
  "length bs \<le> 4096 \<Longrightarrow> put_buf bs s = Ret () (s\<lparr>fsreq := (\<lambda>x. if x < length bs then bs ! x else fsreq s x)\<rparr>)"
  by (simp add: put_buf_def on_fs_def kthen_def)

lemma serve_write_run:
  assumes id: "load32 (fsreq s) 0 \<in> opened s" "i = unat (load32 (fsreq s) 0) mod MAXOPEN"
    and n: "load32 (fsreq s) 4 = of_nat (length bs)" "length bs \<le> 4088" and buf: "\<And>k. k < length bs \<Longrightarrow> fsreq s (8 + k) = bs ! k"
    and w: "file_write (o_file (opentab s i)) bs (fd_offset (fd_page s (o_fd (opentab s i)))) (sfs s) = Ret r t"
  shows "serve_write envid s = Ret r ((if r < 0 then (\<lambda>s. s) else adv i r)
    (s\<lparr>fsreq := store32 (fsreq s) 4 (of_nat (length bs)), sfs := t\<rparr>))"
proof -
  let ?s = "s\<lparr>fsreq := store32 (fsreq s) 4 (of_nat (length bs))\<rparr>"
  have u: "unat (of_nat (length bs) :: u32) = length bs" using n(2) by (simp add: unat_of_nat)
  have le: "\<not> (of_nat (length bs) :: u32) > 0x1000" using n(2) u by (simp add: word_less_nat_alt)
  have "map (fsreq ?s) [8..<8 + length bs] = bs"
    using buf by (intro nth_equalityI) (simp_all add: store32_outside)
  then have g: "get_buf 8 (length bs) ?s = Ret bs ?s" using n(2) by (simp add: get_buf_ok)
  show ?thesis
    using id(1) w g le by (simp add: serve_write_def with_open_ok id(2) [symmetric] req_word_def n(1) u the_file_def the_offset_def advance_def adv_def Let_def kthen_def)
qed

lemma serve_read_run:
  assumes id: "load32 (fsreq s) 0 \<in> opened s" "i = unat (load32 (fsreq s) 0) mod MAXOPEN"
    and r: "file_read (o_file (opentab s i)) (load32 (fsreq s) 4) (fd_offset (fd_page s (o_fd (opentab s i)))) (sfs s) = Ret (r, bs) t"
    and p: "put_buf bs (s\<lparr>sfs := t\<rparr>) = Ret () s'"
  shows "serve_read envid s = Ret r ((if r < 0 then (\<lambda>s. s) else adv i r) s')"
  using id(1) r p by (simp add: serve_read_def with_open_ok id(2) [symmetric] req_word_def the_file_def the_offset_def advance_def adv_def Let_def kthen_def)

text \<open>A request page.\<close>

definition request :: "u32 \<Rightarrow> nat \<Rightarrow> bytes \<Rightarrow> bool" where
  "request fileid n page \<longleftrightarrow> load32 page 0 = fileid \<and> load32 page 4 = of_nat n"

text \<open>The client sets the position of an open file.\<close>

definition seek_to :: "nat \<Rightarrow> nat \<Rightarrow> sstate \<Rightarrow> sstate" where
  "seek_to i off s = (let va = o_fd (opentab s i) in s\<lparr>fd_page := (fd_page s)(va := (fd_page s va)\<lparr>fd_offset := of_nat off\<rparr>)\<rparr>)"

definition answer :: "u32 \<Rightarrow> int \<Rightarrow> reply option" where
  "answer whom r = Some \<lparr>rp_to = whom, rp_value = word_of_int r, rp_page = None, rp_perm = PTE_P OR PTE_U OR PTE_W\<rparr>"

lemma serve_one_plain:
  "serve_read whom s = Ret r s' \<Longrightarrow> serve_one 3 whom 7 s = Ret (answer whom r) s'"
  "serve_write whom s = Ret r s' \<Longrightarrow> serve_one 4 whom 7 s = Ret (answer whom r) s'"
  by (simp_all add: serve_one_def handlers_def answer_def)

lemma opened_cong: "opentab t = opentab s \<Longrightarrow> fd_refs t = fd_refs s \<Longrightarrow> opened t = opened s"
  by (auto simp: opened_iff)

text \<open>What a client has written to an open file it reads back. A write request with a valid identifier either fails for
  want of disk blocks and leaves the position alone, or writes all the bytes at the position of the file, advances the position by
  their number and leaves every other open file's descriptor and every other file alone; and a read request for as many
  bytes, after the client has set the position back, returns exactly these bytes in the request page.\<close>

lemma serve_write_read:
  assumes "mounted (sfs s)" and "fileid \<in> opened s" and "i = unat fileid mod MAXOPEN" and "regular (sfs s) (o_file (opentab s i))"
    and "fd_offset (fd_page s (o_fd (opentab s i))) = of_nat off" and "off + length bs \<le> MAXFILESIZE" and "length bs \<le> 4088"
    and "request fileid (length bs) (fsreq s)" and "\<And>k. k < length bs \<Longrightarrow> fsreq s (8 + k) = bs ! k"
  shows "\<exists>r t. serve_one 4 whom 7 s = Ret (answer whom r) t \<and> mounted (sfs t) \<and> regular (sfs t) (o_file (opentab s i)) \<and>
    opentab t = opentab s \<and> (\<forall>va. va \<noteq> o_fd (opentab s i) \<longrightarrow> fd_page t va = fd_page s va) \<and>
    (\<forall>g. regular (sfs s) g \<and> apart (o_file (opentab s i)) g (sfs s) \<longrightarrow>
       same_content g (view (sfs s)) (view (sfs t)) \<and> same_meta g (view (sfs s)) (view (sfs t))) \<and>
    (r = - E_NO_DISK \<and> free_blocks (sfs t) = {} \<and> fd_offset (fd_page t (o_fd (opentab s i))) = of_nat off \<or>
     r = int (length bs) \<and> fd_offset (fd_page t (o_fd (opentab s i))) = of_nat (off + length bs) \<and>
     written (o_file (opentab s i)) off bs (view (sfs s)) (view (sfs t)) \<and>
     (\<forall>page whom. request fileid (length bs) page \<longrightarrow>
        (\<exists>t'. serve_one 3 whom 7 (seek_to i off (t\<lparr>fsreq := page\<rparr>)) = Ret (answer whom (int (length bs))) t' \<and>
              map (fsreq t') [0..<length bs] = bs)))"
proof -
  let ?f = "o_file (opentab s i)" and ?va = "o_fd (opentab s i)" and ?n = "of_nat (length bs) :: u32"
  have id: "load32 (fsreq s) 0 \<in> opened s" "i = unat (load32 (fsreq s) 0) mod MAXOPEN" "load32 (fsreq s) 4 = ?n"
    using assms(2,3,8) by (simp_all add: request_def)
  have other: "same_content g (view (sfs s)) (view t) \<and> same_meta g (view (sfs s)) (view t)"
    if "keeps ?f (sfs s) t" "regular (sfs s) g" "apart ?f g (sfs s)" for g t
    using keeps_other(3,4) [OF that(1) _ that(3)] that(2) by (simp add: regular_def)
  show ?thesis
  proof (rule file_write_back [OF assms(1,4,6)])
    fix t assume t: "file_write ?f bs (of_nat off) (sfs s) = Ret (- E_NO_DISK) t" "mounted t" "regular t ?f" "keeps ?f (sfs s) t" "free_blocks t = {}"
    have w: "file_write ?f bs (fd_offset (fd_page s ?va)) (sfs s) = Ret (- E_NO_DISK) t" using t(1) assms(5) by simp
    note run = serve_one_plain(2) [OF serve_write_run [OF id assms(7,9) w]]
    show ?thesis
      using run t(2-5) assms(5) other [OF t(4)] by (intro exI [of _ "- E_NO_DISK"] exI) (auto intro: run)
  next
    fix t assume t: "file_write ?f bs (of_nat off) (sfs s) = Ret (int (length bs)) t" "mounted t" "regular t ?f" "keeps ?f (sfs s) t"
      "f_size (view t) ?f = max (f_size (view (sfs s)) ?f) (off + length bs)" "written ?f off bs (view (sfs s)) (view t)"
      "\<exists>u. file_read ?f (of_nat (length bs)) (of_nat off) t = Ret (int (length bs), bs) u"
    have w: "file_write ?f bs (fd_offset (fd_page s ?va)) (sfs s) = Ret (int (length bs)) t" using t(1) assms(5) by simp
    let ?t = "adv i (int (length bs)) (s\<lparr>fsreq := store32 (fsreq s) 4 ?n, sfs := t\<rparr>)"
    have run: "serve_one 4 whom 7 s = Ret (answer whom (int (length bs))) ?t"
      using serve_one_plain(2) [OF serve_write_run [OF id assms(7,9) w]] by simp
    have pg: "fd_page ?t va = fd_page s va" if "va \<noteq> ?va" for va using that by (simp add: adv_def Let_def)
    have "\<exists>t'. serve_one 3 whom 7 (seek_to i off (?t\<lparr>fsreq := page\<rparr>)) = Ret (answer whom (int (length bs))) t' \<and>
              map (fsreq t') [0..<length bs] = bs" if page: "request fileid (length bs) page" for page whom
    proof -
      define u where "u = seek_to i off (?t\<lparr>fsreq := page\<rparr>)"
      obtain v where v: "file_read ?f (of_nat (length bs)) (of_nat off) t = Ret (int (length bs), bs) v" using t(7) by blast
      have u: "opentab u = opentab s" "fd_refs u = fd_refs s" "fsreq u = page" "sfs u = t" "fd_offset (fd_page u ?va) = of_nat off"
        by (simp_all add: u_def seek_to_def Let_def)
      have idu: "load32 (fsreq u) 0 \<in> opened u" "i = unat (load32 (fsreq u) 0) mod MAXOPEN"
        using opened_cong [OF u(1,2)] assms(2,3) page by (simp_all add: u(3) request_def)
      have "file_read (o_file (opentab u i)) (load32 (fsreq u) 4) (fd_offset (fd_page u (o_fd (opentab u i)))) (sfs u) = Ret (int (length bs), bs) v"
        using v page by (simp add: u request_def)
      from serve_one_plain(1) [OF serve_read_run [OF idu this put_buf_ok]] assms(7)
      have "serve_one 3 whom 7 u = Ret (answer whom (int (length bs)))
          (adv i (int (length bs)) (u\<lparr>sfs := v, fsreq := \<lambda>x. if x < length bs then bs ! x else page x\<rparr>))" by (simp add: u(3) cong: if_cong)
      moreover have "map (\<lambda>x. if x < length bs then bs ! x else page x) [0..<length bs] = bs"
        by (intro nth_equalityI) simp_all
      ultimately show ?thesis unfolding u_def [symmetric] by (intro exI conjI) (assumption, simp)
    qed
    then show ?thesis
      using run t(2,3,6) assms(5) pg other [OF t(4)]
      by (intro exI [of _ "int (length bs)"] exI [of _ ?t]) simp
  qed
qed

text \<open>A read request with a valid identifier for at most a page of bytes returns the bytes of the file from its
  position, as many as are asked for and there are, advances the position by their number and changes no file. It can fail only
  where the file has a hole and the disk is full.\<close>

theorem serve_read_correct:
  assumes "mounted (sfs s)" and "fileid \<in> opened s" and "i = unat fileid mod MAXOPEN" and "regular (sfs s) (o_file (opentab s i))"
    and "fd_offset (fd_page s (o_fd (opentab s i))) = of_nat off" and "off \<le> MAXFILESIZE" and "request fileid n (fsreq s)" and "n \<le> 4096"
  shows "\<exists>r t. serve_one 3 whom 7 s = Ret (answer whom r) t \<and> mounted (sfs t) \<and> opentab t = opentab s \<and>
    same_content (o_file (opentab s i)) (view (sfs s)) (view (sfs t)) \<and>
    (let m = min (off + n) (f_size (view (sfs s)) (o_file (opentab s i))) - off
     in r = int m \<and> map (fsreq t) [0..<m] = map (file_byte (view (sfs s)) (o_file (opentab s i))) [off..<off + m] \<and>
          fd_offset (fd_page t (o_fd (opentab s i))) = of_nat (off + m) \<or>
        r = - E_NO_DISK \<and> free_blocks (sfs t) = {} \<and> (\<exists>k<m. ptr (view (sfs s)) (o_file (opentab s i)) ((off + k) div 4096) = 0) \<and>
          fd_offset (fd_page t (o_fd (opentab s i))) = of_nat off)"
proof -
  let ?f = "o_file (opentab s i)" and ?va = "o_fd (opentab s i)"
  define top where "top = min (off + n) (f_size (view (sfs s)) ?f)"
  have f: "file_ok (sfs s) ?f" "f_size (view (sfs s)) ?f \<le> MAXFILESIZE" "tight (view (sfs s)) ?f" using assms(4) by (simp_all add: regular_def)
  have id: "load32 (fsreq s) 0 \<in> opened s" "i = unat (load32 (fsreq s) 0) mod MAXOPEN" using assms(2,3,7) by (simp_all add: request_def)
  have "n < 2147483648" using assms(8) by simp
  from file_read_ok [OF assms(1) f(1,2) assms(6) this f(3), folded top_def] obtain r bs t where
    t: "file_read ?f (of_nat n) (of_nat off) (sfs s) = Ret (r, bs) t" "grows ?f (sfs s) t"
    and r: "r = int (length bs) \<and> bs = map (file_byte (view (sfs s)) ?f) [off..<top] \<or>
      r = - E_NO_DISK \<and> bs = [] \<and> free_blocks t = {} \<and> (\<exists>k. off \<le> k \<and> k < top \<and> ptr (view (sfs s)) ?f (k div 4096) = 0)" by blast
  have rd: "file_read ?f (load32 (fsreq s) 4) (fd_offset (fd_page s ?va)) (sfs s) = Ret (r, bs) t"
    using t(1) assms(5,7) by (simp add: request_def)
  have le: "length bs \<le> 4096" using r assms(8) by (auto simp: top_def)
  let ?s = "s\<lparr>sfs := t, fsreq := \<lambda>x. if x < length bs then bs ! x else fsreq s x\<rparr>"
  have "put_buf bs (s\<lparr>sfs := t\<rparr>) = Ret () ?s" using put_buf_ok [OF le] by (simp cong: if_cong)
  note run = serve_one_plain(1) [OF serve_read_run [OF id rd this], of whom]
  have g: "mounted t" "same_content ?f (view (sfs s)) (view t)" using t(2) by (simp_all add: grows_def keeps_def same_content_def)
  show ?thesis using r
  proof
    assume ok: "r = int (length bs) \<and> bs = map (file_byte (view (sfs s)) ?f) [off..<top]"
    then have m: "length bs = top - off" "bs = map (file_byte (view (sfs s)) ?f) [off..<off + (top - off)]"
      by (simp, cases "off \<le> top") (simp_all add: ok)
    have "map (fsreq (adv i r ?s)) [0..<top - off] = bs" using m(1) by (intro nth_equalityI) simp_all
    moreover have "serve_one 3 whom 7 s = Ret (answer whom r) (adv i r ?s)" using run ok by simp
    ultimately show ?thesis
      using ok m g assms(5) by (intro exI [of _ r] exI [of _ "adv i r ?s"]) (simp add: top_def [symmetric])
  next
    assume no: "r = - E_NO_DISK \<and> bs = [] \<and> free_blocks t = {} \<and> (\<exists>k. off \<le> k \<and> k < top \<and> ptr (view (sfs s)) ?f (k div 4096) = 0)"
    then obtain k where k: "off \<le> k" "k < top" "ptr (view (sfs s)) ?f (k div 4096) = 0" by blast
    have "\<exists>j<top - off. ptr (view (sfs s)) ?f ((off + j) div 4096) = 0" using k by (intro exI [of _ "k - off"]) auto
    moreover have "serve_one 3 whom 7 s = Ret (answer whom r) ?s" using run no by simp
    ultimately show ?thesis
      using no g assms(5) by (intro exI [of _ r] exI [of _ ?s]) (simp add: top_def [symmetric])
  qed
qed

text \<open>(C40) The server does not bound the number of bytes of a read request by the size of the request page. With more than 4096
  bytes to return, the rest of the data overwrites the block cache behind the page: block 0 of the disk gets the bytes of
  the file, and its next write-back makes this permanent.\<close>

theorem serve_read_overflows:
  assumes "mounted (sfs s)" and "fileid \<in> opened s" and "i = unat fileid mod MAXOPEN" and "regular (sfs s) (o_file (opentab s i))"
    and "fd_offset (fd_page s (o_fd (opentab s i))) = of_nat off" and "request fileid n (fsreq s)" and "n \<le> 8192"
    and "off + n \<le> f_size (view (sfs s)) (o_file (opentab s i))"
    and "\<And>k. k < n \<Longrightarrow> ptr (view (sfs s)) (o_file (opentab s i)) ((off + k) div 4096) \<noteq> 0"
  shows "\<exists>t. serve_one 3 whom 7 s = Ret (answer whom (int n)) t \<and>
    (\<forall>k. 4096 + k < n \<longrightarrow> view (sfs t) k = file_byte (view (sfs s)) (o_file (opentab s i)) (off + (4096 + k)))"
proof -
  let ?f = "o_file (opentab s i)" and ?va = "o_fd (opentab s i)"
  have f: "file_ok (sfs s) ?f" "f_size (view (sfs s)) ?f \<le> MAXFILESIZE" "tight (view (sfs s)) ?f" using assms(4) by (simp_all add: regular_def)
  have id: "load32 (fsreq s) 0 \<in> opened s" "i = unat (load32 (fsreq s) 0) mod MAXOPEN" using assms(2,3,6) by (simp_all add: request_def)
  have off: "off \<le> MAXFILESIZE" "n < 2147483648" using assms(7,8) f(2) by simp_all
  have top: "min (off + n) (f_size (view (sfs s)) ?f) = off + n" using assms(8) by simp
  have hole: "\<not> (\<exists>k. off \<le> k \<and> k < off + n \<and> ptr (view (sfs s)) ?f (k div 4096) = 0)"
  proof
    assume "\<exists>k. off \<le> k \<and> k < off + n \<and> ptr (view (sfs s)) ?f (k div 4096) = 0"
    then obtain k where "off \<le> k" "k < off + n" "ptr (view (sfs s)) ?f (k div 4096) = 0" by blast
    moreover from this have "k - off < n" "off + (k - off) = k" by linarith+
    ultimately show False using assms(9) [of "k - off"] by simp
  qed
  with file_read_ok [OF assms(1) f(1,2) off f(3), unfolded top] obtain bs t where
    t: "file_read ?f (of_nat n) (of_nat off) (sfs s) = Ret (int n, bs) t" "grows ?f (sfs s) t"
    and bs: "bs = map (file_byte (view (sfs s)) ?f) [off..<off + n]" by (auto simp: length_map)
  have rd: "file_read ?f (load32 (fsreq s) 4) (fd_offset (fd_page s ?va)) (sfs s) = Ret (int n, bs) t"
    using t(1) assms(5,6) by (simp add: request_def)
  have m: "mounted t" using t(2) by (simp add: grows_def keeps_def)
  have "in_use t 0" using mountedD(8) [OF m, of 0] by (simp add: in_use_def)
  moreover have "0 + length (drop 4096 bs) \<le> 4096" using assms(7) by (simp add: bs)
  ultimately obtain u where u: "wr_bytes 0 (drop 4096 bs) t = Ret () u" "view u = splice (view t) 0 (drop 4096 bs)"
    using wr_bytes_gen [OF m, of 0 0 "drop 4096 bs"] by auto
  let ?s = "s\<lparr>sfs := u, fsreq := \<lambda>x. if x < min 4096 (length bs) then bs ! x else fsreq s x\<rparr>"
  have "put_buf bs (s\<lparr>sfs := t\<rparr>) = Ret () ?s" using u(1) by (simp add: put_buf_def kthen_def cong: if_cong)
  from serve_one_plain(1) [OF serve_read_run [OF id rd this], of whom]
  have run: "serve_one 3 whom 7 s = Ret (answer whom (int n)) (adv i (int n) ?s)" by simp
  have "view u k = file_byte (view (sfs s)) ?f (off + (4096 + k))" if "4096 + k < n" for k
  proof -
    have "k < n - 4096" using that by linarith
    then show ?thesis using that by (simp add: u(2) splice_def bs)
  qed
  then show ?thesis using run by (intro exI [of _ "adv i (int n) ?s"]) simp
qed

section \<open>Witnesses\<close>

text \<open>Entry 7 of the table is open with identifier 1031 at position 5 of the sample file; a request to write three bytes
  has arrived.\<close>

definition sample_page :: bytes where
  "sample_page = store32 (store32 (\<lambda>x. if x = 8 then 10 else if x = 9 then 11 else if x = 10 then 12 else 0) 0 1031) 4 3"

definition sample_srv :: sstate where
  "sample_srv = \<lparr>sfs = sample_fs,
     opentab = (\<lambda>i. \<lparr>o_fileid = (if i = 7 then 1031 else of_nat i), o_file = 4104, o_mode = 2, o_fd = FILEVA + of_nat i * PGSIZE\<rparr>),
     fd_refs = (\<lambda>va. if va = FILEVA + 0x7000 then 2 else 0),
     fd_page = (\<lambda>_. \<lparr>fd_dev_id = DEVFILE_ID, fd_offset = of_nat 5, fd_omode = 2, fd_file_id = 1031\<rparr>), fsreq = sample_page\<rparr>"

lemma sample_page_words: "load32 sample_page 0 = 1031" "load32 sample_page 4 = 3"
  "k < 3 \<Longrightarrow> sample_page (8 + k) = [10, 11, 12] ! k"
proof -
  show "load32 sample_page 0 = 1031" "load32 sample_page 4 = 3" by (simp_all add: sample_page_def)
  assume "k < 3"
  then have "k = 0 \<or> k = 1 \<or> k = 2" by linarith
  then show "sample_page (8 + k) = [10, 11, 12] ! k"
    unfolding sample_page_def by (elim disjE) (simp_all add: store32_outside)
qed

lemma sample_srv_facts: "table_ok sample_srv" "1031 \<in> opened sample_srv" "5 \<notin> opened sample_srv" "sfs sample_srv = sample_fs"
  "fsreq sample_srv = sample_page" "opentab sample_srv i = \<lparr>o_fileid = (if i = 7 then 1031 else of_nat i), o_file = 4104, o_mode = 2, o_fd = FILEVA + of_nat i * PGSIZE\<rparr>"
  by (simp_all add: sample_srv_def table_ok_def opened_iff unat_of_nat)

theorem openfile_alloc_correct_witness:
  "\<exists>id s'. openfile_alloc sample_srv = Ret (sint id, 0) s' \<and> id \<noteq> 0 \<and> id \<notin> opened sample_srv \<and> opened s' = opened sample_srv"
proof -
  have r0: "fd_refs sample_srv (o_fd (opentab sample_srv 0)) = 0" "page_rc (sfs sample_srv) = 0" "o_fileid (opentab sample_srv 0) = 0"
    by (simp_all add: sample_srv_def sample_fs_def)
  then have n: "\<not> (\<forall>i<MAXOPEN. fd_refs sample_srv (o_fd (opentab sample_srv i)) > 1)" "\<not> page_rc (sfs sample_srv) < 0"
    by (auto intro: exI [of _ 0])
  from openfile_alloc_correct [OF sample_srv_facts(1), of 0] n
  obtain i id s' where i: "openfile_alloc sample_srv = Ret (sint id, i) s'" "\<forall>j<i. fd_refs sample_srv (o_fd (opentab sample_srv j)) > 1"
    "id \<notin> opened sample_srv" "id \<noteq> o_fileid (opentab sample_srv i)" "opened s' = opened sample_srv" by blast
  have "i = 0" using i(2) r0(1) by (metis gr0I not_one_less_zero)
  then show ?thesis using i r0(3) by auto
qed


theorem serve_read_correct_witness:
  "\<exists>r t. serve_one 3 0x1001 7 sample_srv = Ret (answer 0x1001 r) t \<and> mounted (sfs t) \<and> opentab t = opentab sample_srv"
proof -
  have "request 1031 3 (fsreq sample_srv)" using sample_page_words by (simp add: request_def sample_srv_facts(5))
  moreover have "mounted (sfs sample_srv)" "regular (sfs sample_srv) (o_file (opentab sample_srv 7))"
    "fd_offset (fd_page sample_srv (o_fd (opentab sample_srv 7))) = of_nat 5"
    using sample_mounted sample_regular [of 4104] by (simp_all add: sample_srv_facts(4,6)) (simp add: sample_srv_def)
  ultimately show ?thesis using serve_read_correct [OF _ sample_srv_facts(2), of 7 5 3 "0x1001"] by (auto simp: Let_def)
qed

text \<open>A file of 5000 bytes in blocks 3 and 4, of which the first byte of the second block is 171.\<close>

definition long_disk :: bytes where
  "long_disk = store32 (store32 (store32 (store32 (store32 (\<lambda>x. if x = 16384 then 171 else 0) (SUPER + 4) 8) BITMAP 0xE0) 4232 5000) 4240 3) 4244 4"

lemma load32_aligned_store: "a mod 4 = 0 \<Longrightarrow> b mod 4 = 0 \<Longrightarrow> load32 (store32 m b v) a = (if a = b then v else load32 m a)" for a b :: nat
  using aligned_apart [of a b] by (cases "a = b") auto

lemma long_word:
  assumes "a mod 4 = 0" and "a < 16384"
  shows "load32 long_disk a = (if a = 4244 then 4 else if a = 4240 then 3 else if a = 4232 then 5000 else if a = 8192 then 0xE0 else if a = 4100 then 8 else 0)"
proof -
  have "a + 4 \<le> 16384" using assms by presburger
  then have "load32 (\<lambda>x. if x = 16384 then 171 else 0) a = 0" by (simp add: load32_def)
  then show ?thesis using assms(1) by (simp add: long_disk_def load32_aligned_store)
qed

definition long_fs :: fstate where
  "long_fs = sample_fs\<lparr>disk := long_disk, cmem := long_disk\<rparr>"

lemma long_view: "view long_fs = long_disk"
  by (auto simp: view_def long_fs_def)

lemma long_nblocks: "nblocks long_fs = 8"
  by (simp add: nblocks_def long_view long_word)

lemma long_free_bit: "b < 8 \<Longrightarrow> free_bit (view long_fs) b \<longleftrightarrow> 5 \<le> b"
proof -
  assume b: "b < 8"
  then have "b \<in> {0, 1, 2, 3, 4, 5, 6, 7}" by (simp add: numeral_eq_Suc less_Suc_eq)
  moreover have "free_bit (view long_fs) b = bit (0xE0 :: u32) b" using b by (simp add: free_bit_def long_view long_word)
  ultimately show ?thesis by (elim insertE emptyE) simp_all
qed

lemma long_mounted: "mounted long_fs"
  unfolding mounted_def long_nblocks
proof (intro conjI allI impI)
  show "\<not> free_bit (view long_fs) b" if "b < 2 + (8 + 32767) div 32768" for b
    using that long_free_bit [of b] by simp
qed (auto simp: long_fs_def sample_fs_def cache_ok_def)

lemma long_ptr: "ptr long_disk 4104 i = (if i = 0 then 3 else if i = 1 then 4 else 0)" "ind_of long_disk 4104 = 0"
proof -
  show ind: "ind_of long_disk 4104 = 0" by (simp add: ind_of_def f_indirect_at_def long_word)
  have "unat (load32 long_disk (f_direct_at 4104 i)) = (if i = 0 then 3 else if i = 1 then 4 else 0)" if "i < 10"
  proof -
    have "i \<in> {0, 1, 2, 3, 4, 5, 6, 7, 8, 9}" using that by (simp add: numeral_eq_Suc less_Suc_eq)
    then show ?thesis by (elim insertE emptyE) (simp_all add: f_direct_at_def long_word)
  qed
  moreover have "has_slot long_disk 4104 i \<Longrightarrow> i < 10 \<or> i = 1034" using ind by (auto simp: has_slot_def)
  ultimately show "ptr long_disk 4104 i = (if i = 0 then 3 else if i = 1 then 4 else 0)"
    using ind by (auto simp: ptr_def slot_at_def ind_of_def has_slot_def)
qed

lemma long_regular: "regular long_fs 4104"
proof -
  have "in_use long_fs 1" using long_free_bit [of 1] by (simp add: in_use_def long_nblocks)
  then have "struct_ok long_fs 4104" by (simp add: struct_ok_def)
  moreover have "data_block 3 long_fs" "data_block 4 long_fs" using long_free_bit [of 3] long_free_bit [of 4] by (simp_all add: data_block_def long_nblocks)
  moreover have "f_size long_disk 4104 = 5000" by (simp add: f_size_def f_size_at_def long_word)
  ultimately show ?thesis
    by (auto simp: regular_def file_ok_def tight_def long_view long_ptr nblk_def)
qed

theorem serve_read_overflows_witness:
  "\<exists>t. serve_one 3 0x1001 7 (sample_srv\<lparr>sfs := long_fs, fsreq := store32 sample_page 4 4097, fd_page := (\<lambda>_. zero_Fd)\<rparr>) = Ret (answer 0x1001 4097) t \<and>
    view (sfs t) 0 = 171 \<and> view long_fs 0 = 0"
proof -
  let ?s = "sample_srv\<lparr>sfs := long_fs, fsreq := store32 sample_page 4 4097, fd_page := (\<lambda>_. zero_Fd)\<rparr>"
  have o: "opened ?s = opened sample_srv" by (rule opened_cong) simp_all
  have "load32 (store32 sample_page 4 4097) 0 = 1031" using sample_page_words(1) by simp
  then have req: "request 1031 4097 (fsreq ?s)" by (simp add: request_def)
  have sz: "f_size long_disk 4104 = 5000" by (simp add: f_size_def f_size_at_def long_word)
  have p: "ptr long_disk 4104 (k div 4096) \<noteq> 0" if "k < 4097" for k :: nat
    using that by (cases "k < 4096") (auto simp: long_ptr not_less le_less_Suc_eq)
  have z: "fd_offset (fd_page ?s (o_fd (opentab ?s 7))) = of_nat 0" by (simp add: zero_Fd_def)
  have "\<exists>t. serve_one 3 0x1001 7 ?s = Ret (answer 0x1001 (int 4097)) t \<and>
    (\<forall>k. 4096 + k < 4097 \<longrightarrow> view (sfs t) k = file_byte (view (sfs ?s)) (o_file (opentab ?s 7)) (0 + (4096 + k)))"
    by (rule serve_read_overflows [OF _ _ _ _ z req])
      (use long_mounted long_regular sample_srv_facts(2) o p sz in \<open>simp_all add: sample_srv_facts(6) long_view\<close>)
  moreover have "file_byte long_disk 4104 4096 = 171" by (simp add: file_byte_def long_ptr) (simp add: long_disk_def store32_outside)
  moreover have "view long_fs 0 = 0" by (simp add: long_view) (simp add: long_disk_def store32_outside)
  ultimately show ?thesis by (auto simp: sample_srv_facts(6) long_view)
qed

end
