(* ===== verification/File_Client_Theorems.thy ===== *)
theory File_Client_Theorems
  imports File_Client Serv_Theorems
begin

text \<open>
  The file stack as clients see it: reference counts are exact in every reachable state, so that an
  open descriptor is never refused, and data written through one descriptor is read back through any descriptor of the same
  open file.
\<close>

section \<open>What the server does to descriptors in use\<close>

text \<open>Between \<open>s\<close> and \<open>t\<close> no entry whose page clients map has changed, and no page has become shared.\<close>

definition open_frame :: "sstate \<Rightarrow> sstate \<Rightarrow> bool" where
  "open_frame s t \<longleftrightarrow> table_ok t \<and>
     (\<forall>k<MAXOPEN. let va = o_fd (opentab s k) in
        if fd_refs s va > 1 then o_fileid (opentab t k) = o_fileid (opentab s k) \<and> fd_refs t va = fd_refs s va \<and>
          fd_file_id (fd_page t va) = fd_file_id (fd_page s va)
        else fd_refs t va \<le> 1)"

definition quiet :: "sstate \<Rightarrow> sstate \<Rightarrow> bool" where
  "quiet s t \<longleftrightarrow> (\<forall>k. o_fileid (opentab t k) = o_fileid (opentab s k) \<and> o_fd (opentab t k) = o_fd (opentab s k)) \<and>
     fd_refs t = fd_refs s \<and> (\<forall>va. fd_file_id (fd_page t va) = fd_file_id (fd_page s va))"

lemma table_ok_fd: "table_ok s \<Longrightarrow> table_ok t \<Longrightarrow> k < MAXOPEN \<Longrightarrow> o_fd (opentab t k) = o_fd (opentab s k)"
  by (simp add: table_ok_def)

lemma quiet_frame: "table_ok s \<Longrightarrow> quiet s t \<Longrightarrow> open_frame s t"
  by (simp add: open_frame_def quiet_def table_ok_def Let_def)

lemma open_frame_trans:
  assumes "open_frame s t" and "open_frame t u" and "table_ok s"
  shows "open_frame s u"
  unfolding open_frame_def
proof (intro conjI allI impI)
  show u: "table_ok u" using assms(2) by (simp add: open_frame_def)
  fix k assume k: "k < MAXOPEN"
  have "table_ok t" using assms(1) by (simp add: open_frame_def)
  note fd = table_ok_fd [OF assms(3) this k]
  let ?P = "\<lambda>s t. let va = o_fd (opentab s k) in
        if fd_refs s va > 1 then o_fileid (opentab t k) = o_fileid (opentab s k) \<and> fd_refs t va = fd_refs s va \<and>
          fd_file_id (fd_page t va) = fd_file_id (fd_page s va)
        else fd_refs t va \<le> 1"
  have "?P s t" "?P t u" using assms(1,2) k by (simp_all add: open_frame_def)
  then show "?P s u" by (simp add: Let_def fd split: if_splits)
qed

text \<open>Operations that leave the table alone.\<close>

definition quiet_op :: "(sstate, 'a) op \<Rightarrow> bool" where
  "quiet_op m \<longleftrightarrow> (\<forall>s a t. m s = Ret a t \<longrightarrow> quiet s t)"

lemma quiet_refl: "quiet s s" and quiet_trans: "quiet s t \<Longrightarrow> quiet t u \<Longrightarrow> quiet s u"
  by (simp_all add: quiet_def)

named_theorems quiet_intros

lemma quiet_kret [quiet_intros]: "quiet_op (kret a)" and quiet_kget [quiet_intros]: "quiet_op (kget f)"
  by (simp_all add: quiet_op_def quiet_refl)

lemma quiet_kbind [quiet_intros]: "quiet_op m \<Longrightarrow> (\<And>a. quiet_op (f a)) \<Longrightarrow> quiet_op (kbind m f)"
  unfolding quiet_op_def kbind_eq_Ret by (blast intro: quiet_trans)

lemma quiet_kthen [quiet_intros]: "quiet_op m \<Longrightarrow> quiet_op n \<Longrightarrow> quiet_op (kthen m n)"
  unfolding kthen_def by (rule quiet_kbind)

lemma quiet_on_fs [quiet_intros]: "quiet_op (on_fs m)"
  by (auto simp: quiet_op_def on_fs_def quiet_def split: outcome.splits)

lemma quiet_kmod [quiet_intros]: "(\<And>s. quiet s (f s)) \<Longrightarrow> quiet_op (kmod f)"
  by (simp add: quiet_op_def)

lemma quiet_if [quiet_intros]: "quiet_op m \<Longrightarrow> quiet_op n \<Longrightarrow> quiet_op (if b then m else n)"
  by simp

lemma quiet_case_prod [quiet_intros]: "(\<And>a b. quiet_op (f a b)) \<Longrightarrow> quiet_op (case p of (a, b) \<Rightarrow> f a b)"
  by (cases p) simp

lemma quiet_with_open [quiet_intros]: "(\<And>i. quiet_op (k i)) \<Longrightarrow> quiet_op (with_open envid k)"
  by (auto simp: quiet_op_def with_open_ok quiet_refl split: if_splits)

lemma quiet_fields [quiet_intros]: "quiet_op (req_word k)" "quiet_op (the_file i)" "quiet_op (the_offset i)" "quiet_op (advance i r)"
  "quiet_op (put_buf bs)" "quiet_op (get_buf a n)"
  unfolding req_word_def the_file_def the_offset_def advance_def put_buf_def get_buf_def Let_def
  by (intro quiet_intros; simp add: quiet_def)+

lemma handlers_quiet: "handlers req = Some h \<Longrightarrow> quiet_op (h envid)"
proof -
  have "quiet_op (serve_set_size envid)" "quiet_op (serve_read envid)" "quiet_op (serve_write envid)" "quiet_op (serve_stat envid)"
    "quiet_op (serve_flush envid)" "quiet_op (serve_sync envid)"
    unfolding serve_set_size_def serve_read_def serve_write_def serve_stat_def serve_flush_def serve_sync_def Let_def
    by (intro quiet_intros; simp add: quiet_def)+
  then show "handlers req = Some h \<Longrightarrow> quiet_op (h envid)" by (auto simp: handlers_def split: if_splits)
qed

text \<open>Opening: the entry taken had a page that no client mapped.\<close>

lemma alloc_frame:
  assumes ok: "table_ok s" and a: "openfile_alloc s = Ret (r, i) s'"
  obtains (fail) "s' = s" and "r < 0"
  | (took) "open_frame s s'" and "i < MAXOPEN" and "fd_refs s (o_fd (opentab s i)) \<le> 1" and "fd_refs s' (o_fd (opentab s i)) = 1"
      and "r = sint (o_fileid (opentab s' i))"
proof (cases "find (\<lambda>i. fd_refs s (o_fd (opentab s i)) \<le> 1) [0..<MAXOPEN]")
  case None
  then show thesis using a by (intro fail) (auto simp: openfile_alloc_def scan_find simp del: upt_rec_numeral)
next
  case (Some k)
  let ?va = "o_fd (opentab s k)"
  have k: "k < MAXOPEN" "fd_refs s ?va \<le> 1" using Some unfolding find_Some_iff by (auto simp del: upt_rec_numeral)
  show thesis
  proof (cases "fd_refs s ?va = 0 \<and> page_rc (sfs s) < 0")
    case True
    then show thesis using a Some by (intro fail) (auto simp: openfile_alloc_def scan_find simp del: upt_rec_numeral)
  next
    case False
    then have t: "openfile_take k (s\<lparr>fd_refs := (fd_refs s)(?va := 1)\<rparr>) = Ret (r, i) s'"
      using a Some by (auto simp: openfile_alloc_def scan_find simp del: upt_rec_numeral)
    note T = take_ok [OF ok k t]
    have "open_frame s s'"
      unfolding open_frame_def using T(3,9,10,12) k by (auto simp: Let_def)
    then show thesis using T k by (intro took) auto
  qed
qed

lemma quiet_open_path: "quiet_op (open_path path omode)"
  unfolding open_path_def by (intro quiet_intros)

lemma serve_open_frame:
  assumes ok: "table_ok s" and a: "serve_open envid s = Ret (r, st) t"
  shows "open_frame s t" and "st = Some (va, pm) \<Longrightarrow> \<exists>k<MAXOPEN. va = o_fd (opentab s k) \<and> fd_refs s va \<le> 1 \<and>
    fd_refs t va = 1 \<and> fd_file_id (fd_page t va) = o_fileid (opentab t k)"
proof -
  obtain path omode where pm: "req_path s = Ret path s" "req_word 1024 s = Ret omode s" by (simp add: req_path_def req_word_def)
  obtain r1 i s1 where al: "openfile_alloc s = Ret (r1, i) s1" using a pm unfolding serve_open_def by (auto simp: kbind_eq_Ret)
  have run: "serve_open envid s = (if r1 < 0 then Ret (r1, None) s1
      else kbind (open_path path omode) (\<lambda>(r, f). if r < 0 then kret (r, None) else fill_entry i f omode) s1)"
    using pm al by (simp add: serve_open_def)
  have refl: "open_frame s s" using ok by (simp add: quiet_frame quiet_refl)
  have "open_frame s t \<and> (st = Some (va, pm) \<longrightarrow> (\<exists>k<MAXOPEN. va = o_fd (opentab s k) \<and> fd_refs s va \<le> 1 \<and>
    fd_refs t va = 1 \<and> fd_file_id (fd_page t va) = o_fileid (opentab t k)))" for va pm
  proof (rule alloc_frame [OF ok al])
    assume "s1 = s" "r1 < 0"
    then show ?thesis using a run refl by simp
  next
    assume T: "open_frame s s1" "i < MAXOPEN" "fd_refs s (o_fd (opentab s i)) \<le> 1" "fd_refs s1 (o_fd (opentab s i)) = 1"
    have ok1: "table_ok s1" using T(1) by (simp add: open_frame_def)
    note fd1 = table_ok_fd [OF ok ok1 T(2)]
    show ?thesis
    proof (cases "r1 < 0")
      case True
      then show ?thesis using a run T(1) by simp
    next
      case False
      then obtain r2 f s2 where s2: "open_path path omode s1 = Ret (r2, f) s2"
        "(if r2 < 0 then kret (r2, None) else fill_entry i f omode) s2 = Ret (r, st) t"
        using a run by (auto simp: kbind_eq_Ret)
      have q: "quiet s1 s2" using quiet_open_path s2(1) by (auto simp: quiet_op_def)
      note F2 = open_frame_trans [OF T(1) quiet_frame [OF ok1 q] ok]
      show ?thesis
      proof (cases "r2 < 0")
        case True
        then show ?thesis using s2(2) F2 by simp
      next
        case False
        have q2: "o_fd (opentab s2 i) = o_fd (opentab s i)" "fd_refs s2 = fd_refs s1" using q fd1 by (simp_all add: quiet_def)
        have t: "t = s2\<lparr>opentab := (opentab s2)(i := (opentab s2 i)\<lparr>o_file := f, o_mode := omode\<rparr>),
              fd_page := (fd_page s2)(o_fd (opentab s i) := (fd_page s2 (o_fd (opentab s i)))\<lparr>fd_file_id := o_fileid (opentab s2 i),
                fd_omode := omode AND O_ACCMODE, fd_dev_id := DEVFILE_ID\<rparr>)\<rparr>"
          and st: "st = Some (o_fd (opentab s i), 0x407)"
          using s2(2) False q2 by (auto simp: fill_entry_def Let_def)
        have "table_ok s2" using F2 by (simp add: open_frame_def)
        then have "open_frame s2 t"
          using q2 T(4) table_distinct [OF \<open>table_ok s2\<close> _ T(2)] by (auto simp: open_frame_def table_ok_def t Let_def)
        from open_frame_trans [OF F2 this ok] show ?thesis
          using st T(2,3,4) q2 by (auto simp: t)
      qed
    qed
  qed
  then show "open_frame s t" "st = Some (va, pm) \<Longrightarrow> \<exists>k<MAXOPEN. va = o_fd (opentab s k) \<and> fd_refs s va \<le> 1 \<and>
    fd_refs t va = 1 \<and> fd_file_id (fd_page t va) = o_fileid (opentab t k)" by blast+
qed

lemma serve_one_frame:
  assumes ok: "table_ok s" and a: "serve_one req whom perm s = Ret (Some rp) t"
  shows "open_frame s t" and "rp_page rp = Some va \<Longrightarrow> \<exists>k<MAXOPEN. va = o_fd (opentab s k) \<and> fd_refs s va \<le> 1 \<and>
    fd_refs t va = 1 \<and> fd_file_id (fd_page t va) = o_fileid (opentab t k)"
proof -
  obtain r st where m: "(if req = 1 then serve_open whom else case handlers req of
      Some h \<Rightarrow> kbind (h whom) (\<lambda>r. kret (r, None)) | None \<Rightarrow> kret (- E_INVAL, None)) s = Ret (r, st) t"
    and "Some rp = Some (case st of
             Some (pg, pm) \<Rightarrow> \<lparr>rp_to = whom, rp_value = word_of_int r, rp_page = Some pg, rp_perm = pm\<rparr>
           | None \<Rightarrow> \<lparr>rp_to = whom, rp_value = word_of_int r, rp_page = None, rp_perm = perm\<rparr>)"
    using a by (auto simp: serve_one_def kbind_eq_Ret split: if_splits)
  then have rp: "rp_page rp = map_option fst st" by (cases st) auto
  have "open_frame s t \<and> (rp_page rp = Some va \<longrightarrow> (\<exists>k<MAXOPEN. va = o_fd (opentab s k) \<and> fd_refs s va \<le> 1 \<and>
    fd_refs t va = 1 \<and> fd_file_id (fd_page t va) = o_fileid (opentab t k)))" for va
  proof (cases "req = 1")
    case True
    then have "serve_open whom s = Ret (r, st) t" using m by simp
    note serve_open_frame [OF ok this]
    then show ?thesis using rp by (cases st) auto
  next
    case False
    have "st = None \<and> quiet s t"
    proof (cases "handlers req")
      case None
      then show ?thesis using m False by (simp add: quiet_refl)
    next
      case (Some h)
      then show ?thesis using m False handlers_quiet [OF Some, of whom] by (auto simp: kbind_eq_Ret quiet_op_def)
    qed
    then show ?thesis using rp quiet_frame [OF ok] by simp
  qed
  then show "open_frame s t" "rp_page rp = Some va \<Longrightarrow> \<exists>k<MAXOPEN. va = o_fd (opentab s k) \<and> fd_refs s va \<le> 1 \<and>
    fd_refs t va = 1 \<and> fd_file_id (fd_page t va) = o_fileid (opentab t k)" by blast+
qed

section \<open>Reference counts\<close>

definition users :: "cstate \<Rightarrow> u32 \<Rightarrow> (nat \<times> nat) set" where
  "users s va = {x. fdtab s x = Some va}"

text \<open>Descriptor pages belong to entries of the table and carry their identifiers, and the count of a page is one for
  the server and one for every descriptor that maps it.\<close>

definition desc_ok :: "cstate \<Rightarrow> bool" where
  "desc_ok s \<longleftrightarrow> table_ok (srv s) \<and> finite {x. fdtab s x \<noteq> None} \<and>
     (\<forall>x va. fdtab s x = Some va \<longrightarrow>
        (\<exists>k<MAXOPEN. va = o_fd (opentab (srv s) k) \<and> fd_file_id (fd_page (srv s) va) = o_fileid (opentab (srv s) k))) \<and>
     (\<forall>k<MAXOPEN. let va = o_fd (opentab (srv s) k) in
        fd_refs (srv s) va = 0 \<and> users s va = {} \<or> fd_refs (srv s) va = 1 + card (users s va))"

lemma desc_okD:
  assumes "desc_ok s"
  shows "table_ok (srv s)" and "finite (users s va)" and "fdtab s x = Some va \<Longrightarrow>
      \<exists>k<MAXOPEN. va = o_fd (opentab (srv s) k) \<and> fd_file_id (fd_page (srv s) va) = o_fileid (opentab (srv s) k)"
    and "k < MAXOPEN \<Longrightarrow> fd_refs (srv s) (o_fd (opentab (srv s) k)) = 0 \<and> users s (o_fd (opentab (srv s) k)) = {} \<or>
      fd_refs (srv s) (o_fd (opentab (srv s) k)) = 1 + card (users s (o_fd (opentab (srv s) k)))"
proof -
  have f: "finite {x. fdtab s x \<noteq> None}" using assms by (simp add: desc_ok_def)
  show "finite (users s va)" by (rule finite_subset [OF _ f]) (auto simp: users_def)
  show "table_ok (srv s)" using assms by (simp add: desc_ok_def)
  show "fdtab s x = Some va \<Longrightarrow>
      \<exists>k<MAXOPEN. va = o_fd (opentab (srv s) k) \<and> fd_file_id (fd_page (srv s) va) = o_fileid (opentab (srv s) k)"
    using assms unfolding desc_ok_def by blast
  show "k < MAXOPEN \<Longrightarrow> fd_refs (srv s) (o_fd (opentab (srv s) k)) = 0 \<and> users s (o_fd (opentab (srv s) k)) = {} \<or>
      fd_refs (srv s) (o_fd (opentab (srv s) k)) = 1 + card (users s (o_fd (opentab (srv s) k)))"
    using assms unfolding desc_ok_def Let_def by blast
qed

lemma desc_refs: "desc_ok s \<Longrightarrow> fdtab s x = Some va \<Longrightarrow> fd_refs (srv s) va = 1 + card (users s va) \<and> 1 < fd_refs (srv s) va"
proof -
  assume s: "desc_ok s" and x: "fdtab s x = Some va"
  have u: "x \<in> users s va" using x by (simp add: users_def)
  then have c: "card (users s va) > 0" using desc_okD(2) [OF s] by (metis card_gt_0_iff empty_iff)
  obtain k where "k < MAXOPEN" "va = o_fd (opentab (srv s) k)" using desc_okD(3) [OF s x] by blast
  then have "fd_refs (srv s) va = 0 \<and> users s va = {} \<or> fd_refs (srv s) va = 1 + card (users s va)" using desc_okD(4) [OF s, of k] by simp
  then show ?thesis using u c by auto
qed

lemma desc_unused: "desc_ok s \<Longrightarrow> k < MAXOPEN \<Longrightarrow> fd_refs (srv s) (o_fd (opentab (srv s) k)) \<le> 1 \<Longrightarrow> users s (o_fd (opentab (srv s) k)) = {}"
  using desc_okD(2) [of s "o_fd (opentab (srv s) k)"] desc_okD(4) [of s k] by (auto simp: card_0_eq)

text \<open>A request keeps this.\<close>

lemma desc_frame:
  assumes s: "desc_ok s" and f: "open_frame (srv s) t"
  shows "desc_ok (s\<lparr>srv := t, bufs := b\<rparr>)"
proof -
  let ?t = "s\<lparr>srv := t, bufs := b\<rparr>"
  have ok: "table_ok t" using f by (simp add: open_frame_def)
  note fd = table_ok_fd [OF desc_okD(1) [OF s] ok]
  have P: "if fd_refs (srv s) (o_fd (opentab (srv s) k)) > 1
      then o_fileid (opentab t k) = o_fileid (opentab (srv s) k) \<and>
          fd_refs t (o_fd (opentab (srv s) k)) = fd_refs (srv s) (o_fd (opentab (srv s) k)) \<and>
          fd_file_id (fd_page t (o_fd (opentab (srv s) k))) = fd_file_id (fd_page (srv s) (o_fd (opentab (srv s) k)))
      else fd_refs t (o_fd (opentab (srv s) k)) \<le> 1" if "k < MAXOPEN" for k
    using f that unfolding open_frame_def Let_def by blast
  have u: "users ?t = users s" by (simp add: users_def fun_eq_iff)
  have A: "\<exists>k<MAXOPEN. va = o_fd (opentab t k) \<and> fd_file_id (fd_page t va) = o_fileid (opentab t k)" if x: "fdtab s x = Some va" for x va
  proof -
    obtain k where k: "k < MAXOPEN" "va = o_fd (opentab (srv s) k)" "fd_file_id (fd_page (srv s) va) = o_fileid (opentab (srv s) k)"
      using desc_okD(3) [OF s x] by blast
    then show ?thesis using P [OF k(1)] desc_refs [OF s x] fd [OF k(1)] by auto
  qed
  have B: "fd_refs t (o_fd (opentab t k)) = 0 \<and> users s (o_fd (opentab t k)) = {} \<or>
      fd_refs t (o_fd (opentab t k)) = 1 + card (users s (o_fd (opentab t k)))" if k: "k < MAXOPEN" for k
    using P [OF k] desc_okD(4) [OF s k] desc_unused [OF s k] unfolding fd [OF k] by (auto split: if_splits)
  show ?thesis using s ok A B by (simp add: desc_ok_def u Let_def)
qed

text \<open>Mapping and unmapping.\<close>

lemma desc_map:
  assumes s: "desc_ok s" and i: "fdtab s (c, i) = None" and k: "k < MAXOPEN" "va = o_fd (opentab (srv s) k)"
    and id: "fd_file_id (fd_page (srv s) va) = o_fileid (opentab (srv s) k)" and ref: "fd_refs (srv s) va \<ge> 1"
  shows "\<exists>t. map_fd c i va s = Ret () t \<and> desc_ok t \<and> fdtab t = (fdtab s)((c, i) := Some va) \<and> srv t = share va (srv s) \<and> bufs t = bufs s"
proof -
  let ?t = "s\<lparr>fdtab := (fdtab s)((c, i) := Some va), srv := share va (srv s)\<rparr>"
  have run: "map_fd c i va s = Ret () ?t" by (simp add: map_fd_def share_def)
  have u: "users ?t w = (if w = va then insert (c, i) (users s va) else users s w)" for w
    using i by (auto simp: users_def)
  have "(c, i) \<notin> users s va" using i by (simp add: users_def)
  then have cd: "card (insert (c, i) (users s va)) = card (users s va) + 1" using desc_okD(2) [OF s] by simp
  have fin: "finite {x. ((fdtab s)((c, i) := Some va)) x \<noteq> None}"
    using s by (auto simp: desc_ok_def intro: finite_subset [of _ "insert (c, i) {x. fdtab s x \<noteq> None}"])
  have A: "\<exists>k<MAXOPEN. w = o_fd (opentab (srv s) k) \<and> fd_file_id (fd_page (srv s) w) = o_fileid (opentab (srv s) k)"
    if "((fdtab s)((c, i) := Some va)) x = Some w" for x w
    using that desc_okD(3) [OF s, of x w] k id by (auto split: if_splits)
  have sh: "fd_refs (share va (srv s)) w = (if w = va then fd_refs (srv s) va + 1 else fd_refs (srv s) w)" for w
    by (simp add: share_def)
  have B: "fd_refs (share va (srv s)) w = 0 \<and> users ?t w = {} \<or> fd_refs (share va (srv s)) w = 1 + card (users ?t w)"
    if j: "j < MAXOPEN" "w = o_fd (opentab (srv s) j)" for j w
    using desc_okD(4) [OF s j(1), folded j(2)] ref sh [of w] u [of w] cd by (cases "w = va") simp_all
  have "table_ok (share va (srv s))" using desc_okD(1) [OF s] by (simp add: table_ok_def share_def)
  moreover have "opentab (share va (srv s)) = opentab (srv s)" "fd_page (share va (srv s)) = fd_page (srv s)" by (simp_all add: share_def)
  ultimately have "desc_ok ?t" unfolding desc_ok_def using fin A B by (simp add: Let_def)
  with run show ?thesis by auto
qed

lemma desc_unmap:
  assumes s: "desc_ok s"
  shows "\<exists>t. unmap_fd c i s = Ret () t \<and> desc_ok t \<and> fdtab t = (fdtab s)((c, i) := None) \<and> opentab (srv t) = opentab (srv s) \<and>
    fd_page (srv t) = fd_page (srv s) \<and> bufs t = bufs s"
proof (cases "fdtab s (c, i)")
  case None
  then show ?thesis using s by (simp add: unmap_fd_def) (metis fun_upd_triv)
next
  case (Some va)
  let ?r = "(srv s)\<lparr>fd_refs := (fd_refs (srv s))(va := fd_refs (srv s) va - 1)\<rparr>"
  let ?t = "s\<lparr>fdtab := (fdtab s)((c, i) := None), srv := ?r\<rparr>"
  have run: "unmap_fd c i s = Ret () ?t" using Some by (simp add: unmap_fd_def)
  have u: "users ?t w = (if w = va then users s va - {(c, i)} else users s w)" for w
    using Some by (auto simp: users_def)
  have mem: "(c, i) \<in> users s va" using Some by (simp add: users_def)
  have cd: "card (users s va - {(c, i)}) = card (users s va) - 1" "card (users s va) > 0"
    using mem desc_okD(2) [OF s, of va] by (simp_all add: card_gt_0_iff) blast
  have fin: "finite {x. ((fdtab s)((c, i) := None)) x \<noteq> None}"
    using s by (auto simp: desc_ok_def intro: finite_subset [of _ "{x. fdtab s x \<noteq> None}"])
  have A: "\<exists>k<MAXOPEN. w = o_fd (opentab (srv s) k) \<and> fd_file_id (fd_page (srv s) w) = o_fileid (opentab (srv s) k)"
    if "((fdtab s)((c, i) := None)) x = Some w" for x w
    using that desc_okD(3) [OF s, of x w] by (auto split: if_splits)
  have rr: "fd_refs ?r w = (if w = va then fd_refs (srv s) va - 1 else fd_refs (srv s) w)" for w by simp
  have B: "fd_refs ?r w = 0 \<and> users ?t w = {} \<or> fd_refs ?r w = 1 + card (users ?t w)"
    if j: "j < MAXOPEN" "w = o_fd (opentab (srv s) j)" for j w
    using desc_okD(4) [OF s j(1), folded j(2)] rr [of w] u [of w] desc_refs [OF s Some] cd by (cases "w = va") (simp_all only: if_True if_False, auto)
  have "table_ok ?r" using desc_okD(1) [OF s] by (simp add: table_ok_def)
  then have "desc_ok ?t" unfolding desc_ok_def using fin A B by (simp add: Let_def)
  with run show ?thesis by auto
qed

section \<open>Client operations\<close>

lemma desc_bufs: "desc_ok s \<Longrightarrow> desc_ok (s\<lparr>bufs := b\<rparr>)"
  using desc_frame [of s "srv s" b] by (simp add: quiet_frame quiet_refl desc_okD(1))

lemma open_frame_cong: "opentab s = opentab s' \<Longrightarrow> fd_refs s = fd_refs s' \<Longrightarrow> fd_page s = fd_page s' \<Longrightarrow> open_frame s u = open_frame s' u"
  by (simp add: open_frame_def)

lemma fsipc_ok:
  assumes s: "desc_ok s" and r: "fsipc c type s = Ret (r, pg) t"
  shows "desc_ok t" and "fdtab t = fdtab s" and "pg = Some va \<Longrightarrow> \<exists>k<MAXOPEN. va = o_fd (opentab (srv t) k) \<and>
    fd_refs (srv t) va \<ge> 1 \<and> fd_file_id (fd_page (srv t) va) = o_fileid (opentab (srv t) k)"
proof -
  let ?s = "(srv s)\<lparr>fsreq := bufs s c\<rparr>"
  obtain rp u where u: "serve_one type (of_nat c) 7 ?s = Ret (Some rp) u" "t = s\<lparr>srv := u, bufs := (bufs s)(c := fsreq u)\<rparr>" "pg = rp_page rp"
    using r by (auto simp: fsipc_def split: outcome.splits option.splits)
  have ok: "table_ok ?s" using desc_okD(1) [OF s] by (simp add: table_ok_def)
  have f: "open_frame (srv s) u" using serve_one_frame(1) [OF ok u(1)] open_frame_cong [of ?s "srv s" u] by simp
  show "desc_ok t" using desc_frame [OF s f] u(2) by simp
  show "fdtab t = fdtab s" by (simp add: u(2))
  have "table_ok u" using f by (simp add: open_frame_def)
  note fd = table_ok_fd [OF desc_okD(1) [OF s] this]
  assume "pg = Some va"
  then show "\<exists>k<MAXOPEN. va = o_fd (opentab (srv t) k) \<and> fd_refs (srv t) va \<ge> 1 \<and> fd_file_id (fd_page (srv t) va) = o_fileid (opentab (srv t) k)"
    using serve_one_frame(2) [OF ok u(1), of va] u(2,3) fd by auto
qed

definition ok_op :: "(cstate, 'a) op \<Rightarrow> bool" where
  "ok_op m \<longleftrightarrow> (\<forall>s r t. desc_ok s \<and> m s = Ret r t \<longrightarrow> desc_ok t)"

named_theorems ok_intros

lemma ok_kret [ok_intros]: "ok_op (kret a)" and ok_kget [ok_intros]: "ok_op (kget f)" and ok_kassert [ok_intros]: "ok_op (kassert b)"
  by (auto simp: ok_op_def split: if_splits)

lemma ok_kbind [ok_intros]: "ok_op m \<Longrightarrow> (\<And>a. ok_op (f a)) \<Longrightarrow> ok_op (kbind m f)"
  unfolding ok_op_def kbind_eq_Ret by blast

lemma ok_kthen [ok_intros]: "ok_op m \<Longrightarrow> ok_op n \<Longrightarrow> ok_op (kthen m n)"
  unfolding kthen_def by (rule ok_kbind)

lemma ok_if [ok_intros]: "ok_op m \<Longrightarrow> ok_op n \<Longrightarrow> ok_op (if b then m else n)"
  by simp

lemma ok_case_prod [ok_intros]: "(\<And>a b. ok_op (f a b)) \<Longrightarrow> ok_op (case p of (a, b) \<Rightarrow> f a b)"
  by (cases p) simp

lemma ok_with_fd [ok_intros]: "(\<And>va. ok_op (k va)) \<Longrightarrow> ok_op (with_fd c i k)"
  unfolding ok_op_def with_fd_def by (auto split: option.splits)

lemma ok_fsipc [ok_intros]: "ok_op (fsipc c type)"
  unfolding ok_op_def using fsipc_ok(1) by fastforce

lemma ok_fill [ok_intros]: "ok_op (fill_req c f)" and ok_fd_id [ok_intros]: "ok_op (fd_id va)"
  by (auto simp: ok_op_def fill_req_def fd_id_def intro: desc_bufs)

lemma ok_unmap [ok_intros]: "ok_op (unmap_fd c i)"
  unfolding ok_op_def
proof (intro allI impI)
  fix s r t assume "desc_ok s \<and> unmap_fd c i s = Ret r t"
  then show "desc_ok t" using desc_unmap [of s c i] by auto
qed

lemma devfile_ok [ok_intros]: "ok_op (devfile_flush c i)" "ok_op (devfile_read c i n)" "ok_op (devfile_write c i buf)" "ok_op (devfile_stat c i)"
  "ok_op (devfile_trunc c i newsize)" "ok_op (sync c)"
  unfolding devfile_flush_def devfile_read_def devfile_write_def devfile_stat_def devfile_trunc_def sync_def Let_def
  by (intro ok_intros)+

lemma close_file_ok [ok_intros]: "ok_op (close_file c i)"
proof -
  have "ok_op (kbind (devfile_flush c i) (\<lambda>r. kthen (unmap_fd c i) (kret r)))" by (intro ok_intros)
  then show ?thesis by (auto simp: ok_op_def close_file_def)
qed

lemma seek_file_ok: "ok_op (seek_file c i offset)"
proof -
  have "desc_ok (s\<lparr>srv := (srv s)\<lparr>fd_page := (fd_page (srv s))(va := (fd_page (srv s) va)\<lparr>fd_offset := offset\<rparr>)\<rparr>\<rparr>)"
    if "desc_ok s" for s va
  proof -
    let ?t = "(srv s)\<lparr>fd_page := (fd_page (srv s))(va := (fd_page (srv s) va)\<lparr>fd_offset := offset\<rparr>)\<rparr>"
    have "quiet (srv s) ?t" by (simp add: quiet_def)
    then show ?thesis using desc_frame [OF that quiet_frame [OF desc_okD(1) [OF that]], of ?t "bufs s"] by simp
  qed
  then show ?thesis by (auto simp: ok_op_def seek_file_def split: option.splits)
qed

lemma open_file_ok: "ok_op (open_file c path mode)"
  unfolding ok_op_def
proof (intro allI impI)
  fix s r t assume a: "desc_ok s \<and> open_file c path mode s = Ret r t"
  show "desc_ok t"
  proof (cases "length path \<ge> 1024 \<or> find (\<lambda>i. fdtab s (c, i) = None) [0..<MAXFD] = None")
    case True
    then have "t = s" using a by (auto simp: open_file_def kbind_def simp del: upt_rec_numeral split: if_splits)
    then show ?thesis using a by simp
  next
    case False
    then obtain i where i: "find (\<lambda>i. fdtab s (c, i) = None) [0..<MAXFD] = Some i" "\<not> length path \<ge> 1024" by auto
    then have free: "fdtab s (c, i) = None" unfolding find_Some_iff by auto
    let ?s = "s\<lparr>bufs := (bufs s)(c := store32 (put_string path (bufs s c)) 1024 mode)\<rparr>"
    obtain r1 pg u where u: "fsipc c 1 ?s = Ret (r1, pg) u"
      "kthen (case pg of Some va \<Rightarrow> map_fd c i va | None \<Rightarrow> kret ()) (if r1 < 0 then kret r1 else kret (int i)) u = Ret r t"
      using a i by (auto simp: open_file_def fill_req_def kbind_eq_Ret kthen_def simp del: upt_rec_numeral)
    have s': "desc_ok ?s" using a by (intro desc_bufs) simp
    note F = fsipc_ok [OF s' u(1)]
    show ?thesis
    proof (cases pg)
      case None
      then show ?thesis using u(2) F(1) by (auto simp: kthen_def split: if_splits)
    next
      case (Some va)
      obtain k where k: "k < MAXOPEN" "va = o_fd (opentab (srv u) k)" "fd_refs (srv u) va \<ge> 1"
        "fd_file_id (fd_page (srv u) va) = o_fileid (opentab (srv u) k)" using F(3) [OF Some] by blast
      have "fdtab u (c, i) = None" using free F(2) by simp
      from desc_map [OF F(1) this k(1,2,4,3)] show ?thesis using u(2) Some by (auto simp: kthen_def split: if_splits)
    qed
  qed
qed

lemma dup_file_ok: "ok_op (dup_file c i j)"
  unfolding ok_op_def
proof (intro allI impI)
  fix s r t assume a: "desc_ok s \<and> dup_file c i j s = Ret r t"
  show "desc_ok t"
  proof (cases "lookup_fd c i s = None")
    case True
    then have "t = s" using a by (simp add: dup_file_def)
    then show ?thesis using a by simp
  next
    case False
    then obtain x u where u: "close_file c j s = Ret x u" "(case fdtab u (c, i) of
             None \<Rightarrow> kthen (unmap_fd c j) (kret (- E_INVAL)) u
           | Some va \<Rightarrow> kthen (unmap_fd c j) (kthen (map_fd c j va) (kret (int j))) u) = Ret r t"
      using a by (auto simp: dup_file_def kbind_eq_Ret)
    have ok: "desc_ok u" using a u(1) close_file_ok by (auto simp: ok_op_def)
    obtain v where v: "unmap_fd c j u = Ret () v" "desc_ok v" "fdtab v = (fdtab u)((c, j) := None)" "opentab (srv v) = opentab (srv u)"
      "fd_page (srv v) = fd_page (srv u)" using desc_unmap [OF ok] by blast
    show ?thesis
    proof (cases "fdtab u (c, i)")
      case None
      then show ?thesis using u(2) v(1,2) by simp
    next
      case (Some va)
      show ?thesis
      proof (cases "i = j")
        case True
        have "fd_refs (srv v) va \<ge> 1"
          using v(1) Some True desc_refs [OF ok Some] by (auto simp: unmap_fd_def)
        moreover obtain k where "k < MAXOPEN" "va = o_fd (opentab (srv v) k)" "fd_file_id (fd_page (srv v) va) = o_fileid (opentab (srv v) k)"
          using desc_okD(3) [OF ok Some] v(4,5) by auto
        moreover have "fdtab v (c, j) = None" by (simp add: v(3))
        ultimately obtain w where "map_fd c j va v = Ret () w" "desc_ok w" using desc_map [OF v(2)] by blast
        then show ?thesis using u(2) v(1) Some by (simp add: kthen_def)
      next
        case False
        then have x: "fdtab v (c, i) = Some va" "fdtab v (c, j) = None" using Some by (simp_all add: v(3))
        have "fd_refs (srv v) va \<ge> 1" using desc_refs [OF v(2) x(1)] by simp
        with desc_okD(3) [OF v(2) x(1)] obtain w where "map_fd c j va v = Ret () w" "desc_ok w"
          using desc_map [OF v(2) x(2)] by blast
        then show ?thesis using u(2) v(1) Some by (simp add: kthen_def)
      qed
    qed
  qed
qed

lemma ok_opD: "ok_op m \<Longrightarrow> desc_ok s \<Longrightarrow> m s = Ret r t \<Longrightarrow> desc_ok t"
  unfolding ok_op_def by blast

text \<open>Any number of clients, each making one call after the other, in any order.\<close>

inductive client_step :: "cstate \<Rightarrow> cstate \<Rightarrow> bool" where
  Open: "open_file c path mode s = Ret r t \<Longrightarrow> client_step s t"
| Close: "close_file c i s = Ret r t \<Longrightarrow> client_step s t"
| Dup: "dup_file c i j s = Ret r t \<Longrightarrow> client_step s t"
| Seek: "seek_file c i offset s = Ret r t \<Longrightarrow> client_step s t"
| Read: "devfile_read c i n s = Ret (r, bs) t \<Longrightarrow> client_step s t"
| Write: "devfile_write c i buf s = Ret r t \<Longrightarrow> client_step s t"
| Stat: "devfile_stat c i s = Ret x t \<Longrightarrow> client_step s t"
| Trunc: "devfile_trunc c i newsize s = Ret r t \<Longrightarrow> client_step s t"
| Flush: "devfile_flush c i s = Ret r t \<Longrightarrow> client_step s t"
| Sync: "sync c s = Ret r t \<Longrightarrow> client_step s t"

lemma client_step_ok: "client_step s t \<Longrightarrow> desc_ok s \<Longrightarrow> desc_ok t"
  by (induction rule: client_step.induct)
    (blast intro: ok_opD [OF open_file_ok] ok_opD [OF close_file_ok] ok_opD [OF dup_file_ok] ok_opD [OF seek_file_ok]
      ok_opD [OF devfile_ok(1)] ok_opD [OF devfile_ok(2)] ok_opD [OF devfile_ok(3)] ok_opD [OF devfile_ok(4)]
      ok_opD [OF devfile_ok(5)] ok_opD [OF devfile_ok(6)])+

lemma client_steps_ok: "client_step\<^sup>*\<^sup>* s t \<Longrightarrow> desc_ok s \<Longrightarrow> desc_ok t"
  by (induction rule: rtranclp_induct) (auto intro: client_step_ok)

lemma desc_start:
  assumes "table_ok s" and "fd_refs s = (\<lambda>_. 0)"
  shows "desc_ok \<lparr>srv = s, fdtab = (\<lambda>_. None), bufs = b\<rparr>"
  using assms by (simp add: desc_ok_def users_def)

lemma desc_opened:
  assumes s: "desc_ok s" and x: "fdtab s x = Some va"
  shows "fd_file_id (fd_page (srv s) va) \<in> opened (srv s)"
    and "\<exists>k<MAXOPEN. va = o_fd (opentab (srv s) k) \<and> fd_file_id (fd_page (srv s) va) = o_fileid (opentab (srv s) k) \<and>
      k = unat (fd_file_id (fd_page (srv s) va)) mod MAXOPEN"
proof -
  obtain k where k: "k < MAXOPEN" "va = o_fd (opentab (srv s) k)" "fd_file_id (fd_page (srv s) va) = o_fileid (opentab (srv s) k)"
    using desc_okD(3) [OF s x] by blast
  have m: "unat (o_fileid (opentab (srv s) k)) mod MAXOPEN = k" using table_okD(2) [OF desc_okD(1) [OF s] k(1)] .
  show "fd_file_id (fd_page (srv s) va) \<in> opened (srv s)"
    using desc_refs [OF s x] k m by (simp add: opened_iff)
  show "\<exists>k<MAXOPEN. va = o_fd (opentab (srv s) k) \<and> fd_file_id (fd_page (srv s) va) = o_fileid (opentab (srv s) k) \<and>
      k = unat (fd_file_id (fd_page (srv s) va)) mod MAXOPEN" using k m by auto
qed


section \<open>Reading back\<close>

lemma sint_small: "- 2147483648 \<le> r \<Longrightarrow> r < 2147483648 \<Longrightarrow> sint (word_of_int r :: u32) = r"
  by (simp add: sint_sbintrunc' signed_take_bit_int_eq_self)

lemma fsipc_answer:
  assumes "serve_one type (of_nat c) 7 ((srv s)\<lparr>fsreq := bufs s c\<rparr>) = Ret (answer (of_nat c) r) t" and "- 2147483648 \<le> r" "r < 2147483648"
  shows "fsipc c type s = Ret (r, None) (s\<lparr>srv := t, bufs := (bufs s)(c := fsreq t)\<rparr>)"
  using assms sint_small [OF assms(2,3)] by (simp add: fsipc_def answer_def)

text \<open>(C9) The whole file stack: library, server, file system and block cache. What is written through a descriptor is
  read back, after seeking to where it was written, through any descriptor that shares the open file, be it of the same
  client or another; the write fails only when the disk is full, and it changes no other file.\<close>

theorem client_write_read:
  assumes "desc_ok s" and "fdtab s (c, i) = Some va" and "mounted (sfs (srv s))" and "f = o_file (opentab (srv s) (unat (fd_file_id (fd_page (srv s) va)) mod MAXOPEN))"
    and "regular (sfs (srv s)) f" and "fd_offset (fd_page (srv s) va) = of_nat off" and "off + length bs \<le> MAXFILESIZE" and "length bs \<le> 4088"
    and "fdtab s (d, j) = Some va" and "j < MAXFD"
  shows "\<exists>r t. devfile_write c i bs s = Ret r t \<and>
    (\<forall>g. regular (sfs (srv s)) g \<and> apart f g (sfs (srv s)) \<longrightarrow> same_content g (view (sfs (srv s))) (view (sfs (srv t)))) \<and>
    (r = - E_NO_DISK \<and> free_blocks (sfs (srv t)) = {} \<or>
     r = int (length bs) \<and> (\<exists>t1 t2. seek_file d j (of_nat off) t = Ret 0 t1 \<and>
       devfile_read d j (of_nat (length bs)) t1 = Ret (int (length bs), bs) t2))"
proof -
  define fileid where "fileid = fd_file_id (fd_page (srv s) va)"
  define k where "k = unat fileid mod MAXOPEN"
  define b where "b = store32 (store32 (bufs s c) 0 fileid) 4 (of_nat (length bs))"
  define B where "B = (\<lambda>x. if 8 \<le> x \<and> x < 8 + length bs then bs ! (x - 8) else b x)"
  define S where "S = (srv s)\<lparr>fsreq := B\<rparr>"
  have k: "k < MAXOPEN" "va = o_fd (opentab (srv s) k)" "fileid = o_fileid (opentab (srv s) k)" "fileid \<in> opened (srv s)" "f = o_file (opentab (srv s) k)"
    using desc_opened [OF assms(1,2)] assms(4) by (auto simp: k_def fileid_def)
  have op: "fileid \<in> opened S" using opened_cong [of S "srv s"] k(4) by (simp add: S_def)
  have "load32 B a = load32 b a" if "a = 0 \<or> a = 4" for a using that by (auto simp: load32_def B_def)
  then have req: "request fileid (length bs) (fsreq S)" by (simp add: request_def S_def b_def)
  have buf: "fsreq S (8 + x) = bs ! x" if "x < length bs" for x using that by (simp add: S_def B_def)
  have wr: "devfile_write c i bs s = kbind (fsipc c 4) (\<lambda>(r, pg). if r < 0 then kret r
      else kthen (kassert (r \<le> int (length bs))) (kthen (kassert (r \<le> 4096)) (kret r))) (s\<lparr>bufs := (bufs s)(c := B)\<rparr>)"
    using assms(2,8) by (simp add: devfile_write_def with_fd_def fd_id_def fill_req_def kthen_def Let_def B_def b_def fileid_def cong: if_cong)
  have "mounted (sfs S)" "regular (sfs S) (o_file (opentab S k))" "fd_offset (fd_page S (o_fd (opentab S k))) = of_nat off"
    using assms(3,5,6) k by (simp_all add: S_def)
  from serve_write_read [OF this(1) op k_def this(2,3) assms(7,8) req buf, of "of_nat c"] obtain r t where
    t: "serve_one 4 (of_nat c) 7 S = Ret (answer (of_nat c) r) t" "opentab t = opentab S"
    "\<forall>g. regular (sfs S) g \<and> apart f g (sfs S) \<longrightarrow> same_content g (view (sfs S)) (view (sfs t))"
    and r: "r = - E_NO_DISK \<and> free_blocks (sfs t) = {} \<or> r = int (length bs) \<and> (\<forall>page whom. request fileid (length bs) page \<longrightarrow>
        (\<exists>t'. serve_one 3 whom 7 (seek_to k off (t\<lparr>fsreq := page\<rparr>)) = Ret (answer whom (int (length bs))) t' \<and>
              map (fsreq t') [0..<length bs] = bs))"
    using k(5) by (auto simp: S_def)
  define u where "u = s\<lparr>srv := t, bufs := (bufs s)(c := fsreq t)\<rparr>"
  have rr: "- 2147483648 \<le> r" "r < 2147483648" using r assms(8) by auto
  have f: "fsipc c 4 (s\<lparr>bufs := (bufs s)(c := B)\<rparr>) = Ret (r, None) u"
    using fsipc_answer [of 4 c "s\<lparr>bufs := (bufs s)(c := B)\<rparr>" r t] t(1) rr by (simp add: S_def u_def)
  have run: "devfile_write c i bs s = Ret r u" using wr f r assms(8) by (auto simp: kthen_def)
  have u: "desc_ok u" "fdtab u = fdtab s" using fsipc_ok [OF desc_bufs [OF assms(1)] f] by simp_all
  have idu: "fd_file_id (fd_page t va) = fileid"
    using desc_okD(3) [OF u(1), of "(d, j)" va] u(2) assms(9) t(2) k table_distinct [OF desc_okD(1) [OF assms(1)]]
    by (auto simp: u_def S_def)
  have "\<exists>t1 t2. seek_file d j (of_nat off) u = Ret 0 t1 \<and> devfile_read d j (of_nat (length bs)) t1 = Ret (int (length bs), bs) t2"
    if rl: "r = int (length bs)"
  proof -
    define t1 where "t1 = u\<lparr>srv := (srv u)\<lparr>fd_page := (fd_page (srv u))(va := (fd_page (srv u) va)\<lparr>fd_offset := of_nat off\<rparr>)\<rparr>\<rparr>"
    define page where "page = store32 (store32 (bufs t1 d) 0 fileid) 4 (of_nat (length bs))"
    have sk: "seek_file d j (of_nat off) u = Ret 0 t1"
      using assms(9,10) u(2) by (simp add: seek_file_def lookup_fd_def t1_def)
    have "request fileid (length bs) page" by (simp add: request_def page_def)
    then obtain v where v: "serve_one 3 (of_nat d) 7 (seek_to k off (t\<lparr>fsreq := page\<rparr>)) = Ret (answer (of_nat d) (int (length bs))) v"
      "map (fsreq v) [0..<length bs] = bs" using r rl by auto
    have eq: "seek_to k off (t\<lparr>fsreq := page\<rparr>) = (srv t1)\<lparr>fsreq := page\<rparr>"
      using k(2) t(2) by (simp add: seek_to_def t1_def u_def S_def Let_def)
    have fs: "fsipc d 3 (t1\<lparr>bufs := (bufs t1)(d := page)\<rparr>) = Ret (int (length bs), None)
        (t1\<lparr>srv := v, bufs := (bufs t1)(d := fsreq v)\<rparr>)"
      using fsipc_answer [of 3 d "t1\<lparr>bufs := (bufs t1)(d := page)\<rparr>" "int (length bs)" v] v(1) eq assms(8) by simp
    have "fdtab t1 (d, j) = Some va" "fd_file_id (fd_page (srv t1) va) = fileid"
      using assms(9) u(2) idu by (simp_all add: t1_def) (simp add: u_def)
    then have "devfile_read d j (of_nat (length bs)) t1 = Ret (int (length bs), bs) (t1\<lparr>srv := v, bufs := (bufs t1)(d := fsreq v)\<rparr>)"
      using fs v(2) assms(8) by (simp add: devfile_read_def with_fd_def fd_id_def fill_req_def kthen_def page_def unat_of_nat uint_nat)
    with sk show ?thesis by blast
  qed
  then show ?thesis using run r t(3) by (intro exI [of _ r] exI [of _ u]) (auto simp: u_def S_def)
qed

section \<open>Witnesses\<close>

text \<open>Client 0 opens the root directory of the sample disk.\<close>

definition sample_client :: cstate where
  "sample_client = \<lparr>srv = sample_srv\<lparr>fd_refs := \<lambda>_. 0\<rparr>, fdtab = (\<lambda>_. None), bufs = (\<lambda>_ _. 0)\<rparr>"

lemma sample_path: "takeWhile (\<lambda>b. b \<noteq> 0) (map (store32 (put_string [47] m) 1024 v) [0..<1023]) = [47]"
proof -
  have "[0..<1023] = 0 # [Suc 0..<1023]" by (rule upt_conv_Cons) simp
  also have "[Suc 0..<1023] = Suc 0 # [Suc (Suc 0)..<1023]" by (rule upt_conv_Cons) simp
  finally have "[0..<1023] = 0 # Suc 0 # [Suc (Suc 0)..<1023]" .
  moreover have "store32 (put_string [47] m) 1024 v 0 = 47" "store32 (put_string [47] m) 1024 v (Suc 0) = 0"
    by (simp_all add: store32_outside put_string_def)
  ultimately show ?thesis by (simp del: upt_rec_numeral)
qed

lemma sample_open: "\<exists>t. open_file 0 [47] 2 sample_client = Ret 0 t \<and> fdtab t (0, 0) = Some FILEVA \<and> sfs (srv t) = sample_fs \<and>
  o_file (opentab (srv t) 0) = 4104 \<and> fd_file_id (fd_page (srv t) FILEVA) = 1024 \<and> fd_offset (fd_page (srv t) FILEVA) = of_nat 0"
proof -
  let ?S = "(srv sample_client)\<lparr>fsreq := store32 (put_string [47] (\<lambda>_. 0)) 1024 2\<rparr>"
  have fd: "find (\<lambda>i. fdtab sample_client (0, i) = None) [0..<MAXFD] = Some 0"
    unfolding upt_conv_Cons [of 0 MAXFD, simplified] by (simp add: sample_client_def)
  have sc: "find (\<lambda>i. fd_refs ?S (o_fd (opentab ?S i)) \<le> 1) [0..<MAXOPEN] = Some 0"
    unfolding upt_conv_Cons [of 0 MAXOPEN, simplified] by (simp add: sample_client_def)
  have path: "req_path ?S = Ret [47] ?S" "req_word 1024 ?S = Ret 2 ?S"
    using sample_path by (simp_all add: req_path_def req_word_def sample_client_def del: upt_rec_numeral)
  have "skip_slash [47] = []" by (simp add: skip_slash_def)
  then have op: "file_open [47] m = Ret (0, 4104) m" for m
    by (simp add: file_open_def walk_path_def walk_loop.simps)
  obtain r i s1 where al: "openfile_alloc ?S = Ret (r, i) s1" "r = 1024" "i = 0" "sfs s1 = sample_fs" "o_fd (opentab s1 0) = FILEVA"
    "o_fileid (opentab s1 0) = 1024" "fd_page s1 FILEVA = zero_Fd"
    using sc by (simp add: openfile_alloc_def scan_find openfile_take_def Let_def sample_client_def sample_srv_def sample_fs_def del: upt_rec_numeral)
  have "open_path [47] 2 s1 = Ret (0, 4104) s1" using op al(4) by (simp add: open_path_def on_fs_def)
  then have so: "serve_open 0 ?S = fill_entry 0 4104 2 s1" using path al(1-3) by (simp add: serve_open_def)
  then have "\<exists>u. serve_one 1 0 7 ?S = Ret (Some \<lparr>rp_to = 0, rp_value = 0, rp_page = Some FILEVA, rp_perm = 0x407\<rparr>) u \<and>
      sfs u = sample_fs \<and> o_file (opentab u 0) = 4104 \<and> fd_file_id (fd_page u FILEVA) = 1024 \<and> fd_offset (fd_page u FILEVA) = 0"
    using al by (simp add: serve_one_def fill_entry_def Let_def zero_Fd_def)
  then obtain u where u: "serve_one 1 0 7 ?S = Ret (Some \<lparr>rp_to = 0, rp_value = 0, rp_page = Some FILEVA, rp_perm = 0x407\<rparr>) u"
    "sfs u = sample_fs" "o_file (opentab u 0) = 4104" "fd_file_id (fd_page u FILEVA) = 1024" "fd_offset (fd_page u FILEVA) = 0" by blast
  have "fsipc 0 1 (sample_client\<lparr>bufs := (bufs sample_client)(0 := store32 (put_string [47] (\<lambda>_. 0)) 1024 2)\<rparr>) =
      Ret (0, Some FILEVA) (sample_client\<lparr>srv := u, bufs := (bufs sample_client)(0 := fsreq u)\<rparr>)"
    using u(1) by (simp add: fsipc_def)
  then have "open_file 0 [47] 2 sample_client = kbind (map_fd 0 0 FILEVA) (\<lambda>_. kret 0)
      (sample_client\<lparr>srv := u, bufs := (bufs sample_client)(0 := fsreq u)\<rparr>)"
    using fd by (simp add: open_file_def fill_req_def kthen_def sample_client_def del: upt_rec_numeral)
  then show ?thesis using u(2-5) by (simp add: map_fd_def)
qed

lemma sample_client_start: "table_ok (srv sample_client)" "fd_refs (srv sample_client) = (\<lambda>_. 0)"
  "sample_client = \<lparr>srv = srv sample_client, fdtab = (\<lambda>_. None), bufs = bufs sample_client\<rparr>"
proof -
  have "table_ok (s\<lparr>fd_refs := r\<rparr>) = table_ok s" for s r by (simp add: table_ok_def)
  then show "table_ok (srv sample_client)" using sample_srv_facts(1) by (simp add: sample_client_def)
qed (simp_all add: sample_client_def)


theorem client_write_read_witness:
  "\<exists>s r t. open_file 0 [47] 2 sample_client = Ret 0 s \<and> devfile_write 0 0 [1, 2, 3] s = Ret r t \<and>
    (r = 3 \<longrightarrow> (\<exists>t1 t2. seek_file 0 0 (of_nat 0) t = Ret 0 t1 \<and> devfile_read 0 0 (of_nat 3) t1 = Ret (3, [1, 2, 3]) t2))"
proof -
  obtain s where s: "open_file 0 [47] 2 sample_client = Ret 0 s" "fdtab s (0, 0) = Some FILEVA" "sfs (srv s) = sample_fs"
    "o_file (opentab (srv s) 0) = 4104" "fd_file_id (fd_page (srv s) FILEVA) = 1024" "fd_offset (fd_page (srv s) FILEVA) = of_nat 0"
    using sample_open by blast
  have ok: "desc_ok s"
    using ok_opD [OF open_file_ok _ s(1)] desc_start [OF sample_client_start(1,2), of "bufs sample_client"] sample_client_start(3) [symmetric] by simp
  from client_write_read [OF ok s(2) _ refl _ s(6) _ _ s(2), of "[1, 2, 3]"] s sample_mounted sample_regular [of 4104]
  show ?thesis by (auto simp: numeral_3_eq_3)
qed

end
