(* ===== verification/Fd_Layer.thy ===== *)
theory Fd_Layer
  imports User_Lib
begin

text \<open>
  The descriptor layer of the user library, \<^verbatim>\<open>lib/fd.c\<close> and \<^verbatim>\<open>lib/pageref.c\<close>, as sequences of system
  calls and memory accesses of the running environment. A \<^verbatim>\<open>struct Fd *\<close> is the address of the
  descriptor's page; a device is a record of operations, and the table of devices is the list \<open>devtab\<close> (the file
  device serves its requests in another environment, so its operations are those of \<open>File_Client\<close>).
  Diagnostic output is left out.
\<close>

section \<open>Words in the memory of a program\<close>

definition uload32 :: "u32 \<Rightarrow> (kstate, u32) op" where
  "uload32 va = kbind (uload va) (\<lambda>b0. kbind (uload (va + 1)) (\<lambda>b1. kbind (uload (va + 2)) (\<lambda>b2. kbind (uload (va + 3)) (\<lambda>b3.
     kret (ucast b0 OR push_bit 8 (ucast b1) OR push_bit 16 (ucast b2) OR push_bit 24 (ucast b3))))))"

definition ustore32 :: "u32 \<Rightarrow> u32 \<Rightarrow> (kstate, unit) op" where
  "ustore32 va v = kthen (ustore va (ucast v)) (kthen (ustore (va + 1) (ucast (drop_bit 8 v)))
     (kthen (ustore (va + 2) (ucast (drop_bit 16 v))) (ustore (va + 3) (ucast (drop_bit 24 v)))))"

section \<open>Descriptors\<close>

abbreviation (input) MAXFD :: int where "MAXFD \<equiv> 32"
abbreviation (input) FDTABLE :: u32 where "FDTABLE \<equiv> 0xD0000000"
abbreviation (input) FILEDATA :: u32 where "FILEDATA \<equiv> 0xD0020000"

abbreviation (input) O_RDONLY :: u32 where "O_RDONLY \<equiv> 0"
abbreviation (input) O_WRONLY :: u32 where "O_WRONLY \<equiv> 1"
abbreviation (input) O_RDWR :: u32 where "O_RDWR \<equiv> 2"
abbreviation (input) O_ACCMODE :: u32 where "O_ACCMODE \<equiv> 3"

definition INDEX2FD :: "int \<Rightarrow> u32" where
  "INDEX2FD i = FDTABLE + word_of_int i * PGSIZE"

definition INDEX2DATA :: "int \<Rightarrow> u32" where
  "INDEX2DATA i = FILEDATA + word_of_int i * PGSIZE"

definition fd2num :: "u32 \<Rightarrow> int" where
  "fd2num fd = sint ((fd - FDTABLE) div PGSIZE)"

definition fd2data :: "u32 \<Rightarrow> u32" where
  "fd2data fd = INDEX2DATA (fd2num fd)"

text \<open>The fields of the descriptor at \<open>fd\<close>.\<close>

abbreviation (input) fd_dev_id_at :: "u32 \<Rightarrow> u32" where "fd_dev_id_at fd \<equiv> fd"
abbreviation (input) fd_offset_at :: "u32 \<Rightarrow> u32" where "fd_offset_at fd \<equiv> fd + 4"
abbreviation (input) fd_omode_at :: "u32 \<Rightarrow> u32" where "fd_omode_at fd \<equiv> fd + 8"

text \<open>\<^verbatim>\<open>(uvpd[PDX(va)] & PTE_P) && (uvpt[PGNUM(va)] & PTE_P)\<close>: the second is read only if the
  first holds.\<close>

definition page_mapped :: "u32 \<Rightarrow> (kstate, bool) op" where
  "page_mapped va = kbind (uvpd (PDX va)) (\<lambda>pde.
     if pde AND PTE_P = 0 then kret False
     else kbind (uvpt (PGNUM va)) (\<lambda>pte. kret (pte AND PTE_P \<noteq> 0)))"

text \<open>The result and what is stored through \<^verbatim>\<open>fd_store\<close>.\<close>

primrec fd_scan :: "int list \<Rightarrow> (kstate, int \<times> u32) op" where
  "fd_scan [] = kret (- E_MAX_OPEN, 0)"
| "fd_scan (i # is) = kbind (page_mapped (INDEX2FD i)) (\<lambda>m. if m then fd_scan is else kret (0, INDEX2FD i))"

definition fd_alloc :: "(kstate, int \<times> u32) op" where
  "fd_alloc = fd_scan [0..MAXFD - 1]"

definition fd_lookup :: "int \<Rightarrow> (kstate, int \<times> u32) op" where
  "fd_lookup fdnum =
     (if fdnum < 0 \<or> fdnum \<ge> MAXFD then kret (- E_INVAL, 0)
      else kbind (page_mapped (INDEX2FD fdnum)) (\<lambda>m. if m then kret (0, INDEX2FD fdnum) else kret (- E_INVAL, 0)))"

definition pageref :: "u32 \<Rightarrow> (kstate, int) op" where
  "pageref v = kbind (uvpd (PDX v)) (\<lambda>pde.
     if pde AND PTE_P = 0 then kret 0
     else kbind (uvpt (PGNUM v)) (\<lambda>pte.
          if pte AND PTE_P = 0 then kret 0
          else kget (\<lambda>s. uint (pp_ref (pages s (unat (PGNUM pte)))))))"

section \<open>Devices\<close>

record dev =
  dev_id :: u32
  dev_name :: string
  dev_read :: "(u32 \<Rightarrow> u32 \<Rightarrow> u32 \<Rightarrow> (kstate, int) op) option"
  dev_write :: "(u32 \<Rightarrow> u32 \<Rightarrow> u32 \<Rightarrow> (kstate, int) op) option"
  dev_close :: "(u32 \<Rightarrow> (kstate, int) op) option"
  dev_stat :: "(u32 \<Rightarrow> u32 \<Rightarrow> (kstate, int) op) option"
  dev_trunc :: "(u32 \<Rightarrow> u32 \<Rightarrow> (kstate, int) op) option"
  dev_addr :: u32

definition dev_lookup :: "dev list \<Rightarrow> u32 \<Rightarrow> (kstate, int \<times> dev option) op" where
  "dev_lookup devtab devid = (case find (\<lambda>d. dev_id d = devid) devtab of
     None \<Rightarrow> kret (- E_INVAL, None) | Some d \<Rightarrow> kret (0, Some d))"

definition fd_close :: "dev list \<Rightarrow> u32 \<Rightarrow> bool \<Rightarrow> (kstate, int) op" where
  "fd_close devtab fd must_exist =
     kbind (fd_lookup (fd2num fd)) (\<lambda>(r, fd2).
     if r < 0 \<or> fd \<noteq> fd2 then kret (if must_exist then r else 0)
     else kbind (uload32 (fd_dev_id_at fd)) (\<lambda>devid. kbind (dev_lookup devtab devid) (\<lambda>(r, d).
          kbind (case d of None \<Rightarrow> kret r
                 | Some d \<Rightarrow> (case dev_close d of Some f \<Rightarrow> f fd | None \<Rightarrow> kret 0)) (\<lambda>r.
          kthen (lib_sys_page_unmap 0 fd) (kret r)))))"

definition close :: "dev list \<Rightarrow> int \<Rightarrow> (kstate, int) op" where
  "close devtab fdnum = kbind (fd_lookup fdnum) (\<lambda>(r, fd). if r < 0 then kret r else fd_close devtab fd True)"

definition close_all :: "dev list \<Rightarrow> (kstate, unit) op" where
  "close_all devtab = kfor [0..<32] (\<lambda>i. kthen (close devtab (int i)) (kret ()))"

text \<open>\<^verbatim>\<open>err:\<close> of \<^verbatim>\<open>dup\<close>.\<close>

definition dup_err :: "u32 \<Rightarrow> u32 \<Rightarrow> int \<Rightarrow> (kstate, int) op" where
  "dup_err newfd nva r = kthen (lib_sys_page_unmap 0 newfd) (kthen (lib_sys_page_unmap 0 nva) (kret r))"

definition dup :: "dev list \<Rightarrow> int \<Rightarrow> int \<Rightarrow> (kstate, int) op" where
  "dup devtab oldfdnum newfdnum =
     kbind (fd_lookup oldfdnum) (\<lambda>(r, oldfd).
     if r < 0 then kret r
     else kthen (close devtab newfdnum)
       (let newfd = INDEX2FD newfdnum; ova = fd2data oldfd; nva = fd2data newfd in
        kbind (page_mapped ova) (\<lambda>m.
        kbind (if m then kbind (uvpt (PGNUM ova)) (\<lambda>pte. lib_sys_page_map 0 ova 0 nva (pte AND PTE_SYSCALL)) else kret r) (\<lambda>r.
        if r < 0 then dup_err newfd nva r
        else kbind (uvpt (PGNUM oldfd)) (\<lambda>pte.
             kbind (lib_sys_page_map 0 oldfd 0 newfd (pte AND PTE_SYSCALL)) (\<lambda>r.
             if r < 0 then dup_err newfd nva r else kret newfdnum))))))"

section \<open>Operations through the device\<close>

text \<open>\<^verbatim>\<open>(r = fd_lookup(fdnum, &fd)) < 0 || (r = dev_lookup(fd->fd_dev_id, &dev)) < 0\<close>, and then the
  rest with both.\<close>

definition with_dev :: "dev list \<Rightarrow> int \<Rightarrow> (u32 \<Rightarrow> dev \<Rightarrow> (kstate, int) op) \<Rightarrow> (kstate, int) op" where
  "with_dev devtab fdnum k =
     kbind (fd_lookup fdnum) (\<lambda>(r, fd).
     if r < 0 then kret r
     else kbind (uload32 (fd_dev_id_at fd)) (\<lambda>devid. kbind (dev_lookup devtab devid) (\<lambda>(r, d).
          case d of None \<Rightarrow> kret r | Some d \<Rightarrow> k fd d)))"

definition fd_read :: "dev list \<Rightarrow> int \<Rightarrow> u32 \<Rightarrow> u32 \<Rightarrow> (kstate, int) op" where
  "fd_read devtab fdnum buf n = with_dev devtab fdnum (\<lambda>fd d.
     kbind (uload32 (fd_omode_at fd)) (\<lambda>m.
     if m AND O_ACCMODE = O_WRONLY then kret (- E_INVAL)
     else case dev_read d of None \<Rightarrow> kret (- E_NOT_SUPP) | Some f \<Rightarrow> f fd buf n))"

text \<open>Every round but the last reads at least one byte, so \<open>n\<close> rounds are enough. The total is an \<^verbatim>\<open>int\<close> that is
  compared as unsigned.\<close>

primrec readn_loop :: "nat \<Rightarrow> dev list \<Rightarrow> int \<Rightarrow> u32 \<Rightarrow> u32 \<Rightarrow> u32 \<Rightarrow> (kstate, int) op" where
  "readn_loop 0 devtab fdnum buf n tot = kret (sint tot)"
| "readn_loop (Suc k) devtab fdnum buf n tot =
     (if tot < n
      then kbind (fd_read devtab fdnum (buf + tot) (n - tot)) (\<lambda>m.
           if m < 0 then kret m else if m = 0 then kret (sint tot)
           else readn_loop k devtab fdnum buf n (tot + word_of_int m))
      else kret (sint tot))"

definition readn :: "dev list \<Rightarrow> int \<Rightarrow> u32 \<Rightarrow> u32 \<Rightarrow> (kstate, int) op" where
  "readn devtab fdnum buf n = readn_loop (unat n) devtab fdnum buf n 0"

definition fd_write :: "dev list \<Rightarrow> int \<Rightarrow> u32 \<Rightarrow> u32 \<Rightarrow> (kstate, int) op" where
  "fd_write devtab fdnum buf n = with_dev devtab fdnum (\<lambda>fd d.
     kbind (uload32 (fd_omode_at fd)) (\<lambda>m.
     if m AND O_ACCMODE = O_RDONLY then kret (- E_INVAL)
     else case dev_write d of None \<Rightarrow> kret (- E_NOT_SUPP) | Some f \<Rightarrow> f fd buf n))"

definition seek :: "int \<Rightarrow> u32 \<Rightarrow> (kstate, int) op" where
  "seek fdnum offset = kbind (fd_lookup fdnum) (\<lambda>(r, fd).
     if r < 0 then kret r else kthen (ustore32 (fd_offset_at fd) offset) (kret 0))"

definition ftruncate :: "dev list \<Rightarrow> int \<Rightarrow> u32 \<Rightarrow> (kstate, int) op" where
  "ftruncate devtab fdnum newsize = with_dev devtab fdnum (\<lambda>fd d.
     kbind (uload32 (fd_omode_at fd)) (\<lambda>m.
     if m AND O_ACCMODE = O_RDONLY then kret (- E_INVAL)
     else case dev_trunc d of None \<Rightarrow> kret (- E_NOT_SUPP) | Some f \<Rightarrow> f fd newsize))"

text \<open>A \<^verbatim>\<open>struct Stat\<close>: the name, and at 128, 132 and 136 size, type and device.\<close>

definition fstat :: "dev list \<Rightarrow> int \<Rightarrow> u32 \<Rightarrow> (kstate, int) op" where
  "fstat devtab fdnum st = with_dev devtab fdnum (\<lambda>fd d.
     case dev_stat d of None \<Rightarrow> kret (- E_NOT_SUPP)
     | Some f \<Rightarrow> kthen (ustore st 0) (kthen (ustore32 (st + 128) 0) (kthen (ustore32 (st + 132) 0)
         (kthen (ustore32 (st + 136) (dev_addr d)) (f fd st)))))"

end
