(* ===== verification/User_Space.thy ===== *)
theory User_Space
  imports Fork_Theorems Fd_Layer
begin

text \<open>
  Words in the memory of a program, and a calculus for sequences of its system calls and stores.

  \<^item> \<open>uword s i va\<close> is the 32-bit word that environment \<open>i\<close> has at \<open>va\<close>; \<open>uload32\<close> and \<open>ustore32\<close> access it.
  \<^item> \<open>changes kd ext c s g s'\<close> says that environment \<open>c\<close> went from \<open>s\<close> to \<open>s'\<close> and that all this did is to map
    the pages in the domain of \<open>g\<close> as \<open>g\<close> says: everywhere else, and in every other environment,
    mappings and contents are as before. Each call is such a change, and they compose with \<open>++\<close>.
\<close>

section \<open>Words\<close>

text \<open>The word at an aligned address.\<close>

definition uword :: "kstate \<Rightarrow> nat \<Rightarrow> u32 \<Rightarrow> u32 option" where
  "uword s i va = map_option (\<lambda>(p, _). slot s p (unat (PGOFF va) div 4)) (vmap s (dir_of s i) va)"

lemma word_in_page:
  assumes "va mod 4 = (0 :: u32)" and "j < 4"
  shows "PGNUM (va + of_nat j) = PGNUM va" and "unat (PGOFF (va + of_nat j)) = unat (PGOFF va) + j"
    and "unat (PGOFF va) = 4 * (unat (PGOFF va) div 4)"
proof -
  have "unat va mod 4 = 0" using assms(1) unat_mod [of va 4] by simp
  then obtain m where m: "unat va = 4 * m" by (auto simp: mod_eq_0_iff_dvd dvd_def)
  then have "m < 1073741824" using unat_lt32 [of va] by simp
  then have "4 * m + j < 4294967296" using assms(2) by linarith
  then have u: "unat (va + of_nat j) = 4 * m + j"
    using unat_add_lt32 [of va "of_nat j"] unat_of_nat32 [of j] assms(2) m by simp
  have d: "(4 * m + j) div 4096 = m div 1024" "(4 * m) div 4096 = m div 1024"
    using div_mult2_eq [of "4 * m + j" 4 1024] div_mult2_eq [of "4 * m" 4 1024] assms(2) by simp_all
  have r: "(4 * m + j) mod 4096 = 4 * (m mod 1024) + j" "(4 * m) mod 4096 = 4 * (m mod 1024)"
    using mod_mult2_eq [of "4 * m + j" 4 1024] mod_mult2_eq [of "4 * m" 4 1024] assms(2) by simp_all
  show "PGNUM (va + of_nat j) = PGNUM va"
    by (rule word_eq_unatI) (simp add: unat_PGNUM u m d)
  show "unat (PGOFF (va + of_nat j)) = unat (PGOFF va) + j" by (simp add: unat_PGOFF u m r)
  show "unat (PGOFF va) = 4 * (unat (PGOFF va) div 4)" by (simp add: unat_PGOFF m r)
qed

lemma uload_ok:
  assumes "user_runs kd ext c s" and "unat (PDX va) < UPDES" and "vmap s (dir_of s c) va = Some (p, pm)" and "pm AND 5 = 5"
  shows "uload va s = Ret (phys s (4096 * p + unat (PGOFF va))) s"
  using user_addr_vmap [OF assms(1,2), of False] assms(3,4) by (simp add: uload_def user_need_def)

lemma ustore_ok:
  assumes "user_runs kd ext c s" and "unat (PDX va) < UPDES" and "vmap s (dir_of s c) va = Some (p, pm)" and "pm AND 7 = 7"
  shows "ustore va b s = Ret () (s\<lparr>phys := (phys s)(4096 * p + unat (PGOFF va) := b)\<rparr>)"
  using user_addr_vmap [OF assms(1,2), of True] assms(3,4) by (simp add: ustore_def user_need_def)

lemma word_pages:
  assumes "va mod 4 = (0 :: u32)" and "unat (PDX va) < UPDES" and "j < 4"
  shows "unat (PDX (va + of_nat j)) < UPDES" and "vmap s d (va + of_nat j) = vmap s d va"
  using word_in_page(1) [OF assms(1,3)] assms(2) vmap_page [OF word_in_page(1) [OF assms(1,3)]] by (auto simp: PGNUM_eq_iff)

lemma slot_load32: "slot s p (unat (PGOFF va) div 4) = load32 (phys s) (4096 * p + unat (PGOFF va))" if "va mod 4 = (0 :: u32)"
proof -
  have "4 * (1024 * p + unat (PGOFF va) div 4) = 4096 * p + unat (PGOFF va)" using word_in_page(3) [OF that, of 0] by simp
  then show ?thesis by (simp add: slot_def)
qed

lemma uload32_ok:
  assumes r: "user_runs kd ext c s" and va: "va mod 4 = 0" "unat (PDX va) < UPDES"
    and v: "vmap s (dir_of s c) va = Some (p, pm)" "pm AND 5 = 5"
  shows "uload32 va s = Ret (slot s p (unat (PGOFF va) div 4)) s" and "uword s c va = Some (slot s p (unat (PGOFF va) div 4))"
proof -
  have "uload (va + of_nat j) s = Ret (phys s (4096 * p + unat (PGOFF va) + j)) s" if "j < 4" for j
    using uload_ok [OF r word_pages(1) [OF va that]] word_pages(2) [OF va that] v word_in_page(2) [OF va(1) that] by (simp add: add.assoc)
  from this [of 0] this [of 1] this [of 2] this [of 3]
  show "uload32 va s = Ret (slot s p (unat (PGOFF va) div 4)) s"
    unfolding slot_load32 [OF va(1)] by (simp add: uload32_def load32_def)
  show "uword s c va = Some (slot s p (unat (PGOFF va) div 4))" using v by (simp add: uword_def)
qed

lemma ustore32_ok:
  assumes r: "user_runs kd ext c s" and va: "va mod 4 = 0" "unat (PDX va) < UPDES"
    and v: "vmap s (dir_of s c) va = Some (p, pm)" "pm AND 7 = 7"
  shows "ustore32 va x s = Ret () (s\<lparr>phys := store32 (phys s) (4096 * p + unat (PGOFF va)) x\<rparr>)"
proof -
  note D = user_runsD [OF r]
  let ?a = "4096 * p + unat (PGOFF va)"
  have dp: "data_page s (dirs s) p" using mapped_data_page(1) [OF D(7,8) va(2) v(1)] .
  have a: "(?a + j) div 4096 = p" if "j < 4" for j
  proof -
    define w where "w = unat (PGOFF va) div 4"
    have w: "unat (PGOFF va) = 4 * w" using word_in_page(3) [OF va(1), of 0] by (simp add: w_def)
    have "4 * w < 4096" unfolding w [symmetric] by (simp add: unat_PGOFF)
    then have "w < 1024" by simp
    then have "4 * w + j < 4096" using that by linarith
    then show ?thesis by (simp add: w add.assoc)
  qed
  have st: "ustore (va + of_nat j) b (s\<lparr>phys := m\<rparr>) = Ret () (s\<lparr>phys := m(?a + j := b)\<rparr>)"
    if m: "\<forall>y. y div 4096 \<noteq> p \<longrightarrow> m y = phys s y" and j: "j < 4" for j b m
  proof -
    have W: "user_runs kd ext c (s\<lparr>phys := m\<rparr>)" "vmap (s\<lparr>phys := m\<rparr>) (dir_of s c) va = vmap s (dir_of s c) va"
      "dir_of (s\<lparr>phys := m\<rparr>) = dir_of s"
      using data_write_ok(1,2,6) [OF r dp, of m] m D(8) va(2) by auto
    have "vmap (s\<lparr>phys := m\<rparr>) (dir_of (s\<lparr>phys := m\<rparr>) c) (va + of_nat j) = Some (p, pm)"
      using W(2) word_pages(2) [OF va j] v(1) by (simp add: W(3))
    from ustore_ok [OF W(1) word_pages(1) [OF va j] this v(2)] word_in_page(2) [OF va(1) j] show ?thesis by (simp add: add.assoc)
  qed
  define m1 where "m1 = (phys s)(?a := ucast x)"
  define m2 where "m2 = m1(?a + 1 := ucast (drop_bit 8 x))"
  define m3 where "m3 = m2(?a + 2 := ucast (drop_bit 16 x))"
  have m1: "\<forall>y. y div 4096 \<noteq> p \<longrightarrow> m1 y = phys s y" using a [of 0] by (auto simp: m1_def)
  have m2: "\<forall>y. y div 4096 \<noteq> p \<longrightarrow> m2 y = phys s y" using m1 a [of 1] by (auto simp: m2_def)
  have m3: "\<forall>y. y div 4096 \<noteq> p \<longrightarrow> m3 y = phys s y" using m2 a [of 2] by (auto simp: m3_def)
  have "store32 (phys s) ?a x = m3(?a + 3 := ucast (drop_bit 24 x))" by (simp add: store32_def m1_def m2_def m3_def)
  then show ?thesis
    using st [of "phys s" 0 "ucast x"] st [OF m1, of 1] st [OF m2, of 2] st [OF m3, of 3]
    by (simp add: ustore32_def kthen_def m1_def [symmetric] m2_def [symmetric] m3_def [symmetric] del: fun_upd_apply One_nat_def add_2_eq_Suc')
qed

section \<open>Changes of one address space\<close>

text \<open>Environment \<open>i\<close> sees the same page at \<open>va\<close>, with the same contents.\<close>

definition same_page :: "kstate \<Rightarrow> kstate \<Rightarrow> nat \<Rightarrow> u32 \<Rightarrow> bool" where
  "same_page s s' i va \<longleftrightarrow> vmap s' (dir_of s i) va = vmap s (dir_of s i) va \<and>
     (\<forall>p pm k. vmap s (dir_of s i) va = Some (p, pm) \<longrightarrow> k < 1024 \<longrightarrow> slot s' p k = slot s p k)"

definition changes :: "nat \<Rightarrow> (nat \<Rightarrow> nat) \<Rightarrow> nat \<Rightarrow> kstate \<Rightarrow> (u32 \<Rightarrow> (nat \<times> u32) option option) \<Rightarrow> kstate \<Rightarrow> bool" where
  "changes kd ext c s g s' \<longleftrightarrow> user_runs kd ext c s \<and> user_runs kd ext c s' \<and> envs s' = envs s \<and>
     live s' = live s \<and> dir_of s' = dir_of s \<and> dirs s' = dirs s \<and>
     (\<forall>va m. unat (PDX va) < UPDES \<longrightarrow> g (PGNUM va) = Some m \<longrightarrow> vmap s' (dir_of s c) va = m) \<and>
     (\<forall>i\<in>live s. \<forall>va. unat (PDX va) < UPDES \<longrightarrow> (i = c \<longrightarrow> g (PGNUM va) = None) \<longrightarrow> same_page s s' i va)"

lemma changesD:
  assumes "changes kd ext c s g s'"
  shows "user_runs kd ext c s" and "user_runs kd ext c s'" and "envs s' = envs s" and "live s' = live s"
    and "dir_of s' = dir_of s" and "dirs s' = dirs s"
    and "unat (PDX va) < UPDES \<Longrightarrow> g (PGNUM va) = Some m \<Longrightarrow> vmap s' (dir_of s c) va = m"
    and "i \<in> live s \<Longrightarrow> unat (PDX va) < UPDES \<Longrightarrow> (i = c \<Longrightarrow> g (PGNUM va) = None) \<Longrightarrow> same_page s s' i va"
  using assms by (auto simp: changes_def)

lemma changes_refl: "user_runs kd ext c s \<Longrightarrow> changes kd ext c s Map.empty s"
  by (simp add: changes_def same_page_def)

lemma changes_trans:
  assumes "changes kd ext c s g t" and "changes kd ext c t h u"
  shows "changes kd ext c s (g ++ h) u"
proof -
  note G = changesD [OF assms(1)] and H = changesD [OF assms(2)]
  have c: "c \<in> live s" using user_runsD(4) [OF G(1)] .
  have "vmap u (dir_of s c) va = m" if va: "unat (PDX va) < UPDES" and m: "(g ++ h) (PGNUM va) = Some m" for va m
  proof (cases "h (PGNUM va)")
    case None
    then have "g (PGNUM va) = Some m" using m by (simp add: map_add_Some_iff)
    then show ?thesis using G(7) [OF va] H(8) [of c va] None c va by (simp add: same_page_def G(4,5))
  next
    case (Some n)
    then show ?thesis using m H(7) [OF va Some] by (simp add: map_add_find_right G(5))
  qed
  moreover have "same_page s u i va" if i: "i \<in> live s" "unat (PDX va) < UPDES" "i = c \<longrightarrow> (g ++ h) (PGNUM va) = None" for i va
    using G(8) [OF i(1,2)] H(8) [of i va] i by (auto simp: same_page_def G(4,5))
  ultimately show ?thesis using G H by (auto simp: changes_def)
qed

text \<open>Entries that only say what was so before can be left out.\<close>

lemma changes_drop:
  assumes "changes kd ext c s g s'" and "\<And>va m. unat (PDX va) < UPDES \<Longrightarrow> g (PGNUM va) = Some m \<Longrightarrow> h (PGNUM va) = None \<Longrightarrow>
      m = None \<and> vmap s (dir_of s c) va = None" and "\<And>n m. h n = Some m \<Longrightarrow> g n = Some m"
  shows "changes kd ext c s h s'"
proof -
  note G = changesD [OF assms(1)]
  have "same_page s s' i va" if i: "i \<in> live s" "unat (PDX va) < UPDES" "i = c \<longrightarrow> h (PGNUM va) = None" for i va
  proof (cases "i = c \<and> g (PGNUM va) \<noteq> None")
    case True
    then obtain m where m: "g (PGNUM va) = Some m" by auto
    then have "m = None" "vmap s (dir_of s c) va = None" using assms(2) [OF i(2) m] i(3) True by auto
    then show ?thesis using G(7) [OF i(2) m] True by (simp add: same_page_def)
  qed (use G(8) [OF i(1,2)] in auto)
  then show ?thesis using G assms(3) by (auto simp: changes_def)
qed

text \<open>What the environment reads elsewhere.\<close>

lemma same_page_words:
  assumes "same_page s s' i va" and "dir_of s' = dir_of s"
  shows "uword s' i va = uword s i va" and "umem s' i va = umem s i va"
proof -
  have "unat (PGOFF va) div 4 < 1024" using mod_less_divisor [of 4096 "unat va"] by (simp add: unat_PGOFF div_less_iff_less_mult)
  then show "uword s' i va = uword s i va"
    using assms by (cases "vmap s (dir_of s i) va") (auto simp: uword_def same_page_def)
  show "umem s' i va = umem s i va"
  proof (cases "vmap s (dir_of s i) va")
    case None
    then show ?thesis using assms by (simp add: umem_def same_page_def)
  next
    case (Some x)
    then obtain p pm where v: "vmap s (dir_of s i) va = Some (p, pm)" by (cases x) auto
    then show ?thesis using assms umem_eqI [of s' i va p pm s p pm] by (simp add: same_page_def)
  qed
qed

section \<open>The calls as changes\<close>

lemma same_page_kept:
  assumes r: "user_runs kd ext c s" and d: "data_kept s s' (dirs s)" and i: "i \<in> live s" "unat (PDX va) < UPDES"
    and v: "vmap s' (dir_of s i) va = vmap s (dir_of s i) va"
  shows "same_page s s' i va"
proof -
  note D = user_runsD [OF r]
  have "dir_of s i \<in> dirs s" using i(1) by (simp add: dirs_def)
  then show ?thesis
    using v data_keptD [OF d mapped_data_page(1) [OF D(7) _ i(2)]] by (auto simp: same_page_def)
qed

lemma changes_space_upd:
  assumes r: "user_runs kd ext c s" "user_runs kd ext c s'" and u: "space_upd s s' c va m" and d: "data_kept s s' (dirs s)"
    and e: "live s' = live s" "dir_of s' = dir_of s" "dirs s' = dirs s"
  shows "changes kd ext c s [PGNUM va \<mapsto> m] s'"
proof -
  note U = space_updD [OF u]
  have "same_page s s' i va'" if "i \<in> live s" "unat (PDX va') < UPDES" "i = c \<longrightarrow> PGNUM va' \<noteq> PGNUM va" for i va'
    using same_page_kept [OF r(1) d that(1,2)] U(2) [OF that(1,2)] that(3) by auto
  moreover have "vmap s' (dir_of s c) va' = m" if "unat (PDX va') < UPDES" "PGNUM va' = PGNUM va" for va'
    using U(2) [OF user_runsD(4) [OF r(1)] that(1)] that(2) by simp
  ultimately show ?thesis using r U(1) e by (auto simp: changes_def)
qed

lemma self_names [simp]: "names 0 c s = Some c" "may_touch c c s"
  by (simp_all add: names_def may_touch_def)

lemma changes_alloc:
  assumes r: "user_runs kd ext c s" and va: "\<not> bad_va va" and perm: "\<not> bad_perm perm"
  obtains (mapped) p s' where "lib_sys_page_alloc 0 va perm s = Ret 0 s'" and "p \<in> free_pages s"
      and "changes kd ext c s [PGNUM va \<mapsto> Some (p, perm OR PTE_P)] s'" and "\<And>k. k < 1024 \<Longrightarrow> slot s' p k = 0"
      and "unat (pp_ref (pages s' p)) \<le> 1"
  | (no_mem) s' where "lib_sys_page_alloc 0 va perm s = Ret (- E_NO_MEM) s'" and "changes kd ext c s Map.empty s'"
      and "\<exists>p. free_pages s \<subseteq> {p}"
proof (rule ucall_alloc [OF r va perm self_names])
  fix p s' assume a: "lib_sys_page_alloc 0 va perm s = Ret 0 s'" "user_runs kd ext c s'" "p \<in> free_pages s"
    "space_upd s s' c va (Some (p, perm OR PTE_P))" "data_kept s s' (dirs s)" "\<And>k. k < 1024 \<Longrightarrow> slot s' p k = 0"
    "live s' = live s" "dir_of s' = dir_of s" "dirs s' = dirs s"
  show thesis
    using changes_space_upd [OF r a(2,4,5,7-9)] fresh_room [OF r a(2,4,8,9,3) good_va_PDX [OF va] user_runsD(4) [OF r]] a(1,3,6)
    by (intro mapped [of s' p]) auto
next
  fix s' assume a: "lib_sys_page_alloc 0 va perm s = Ret (- E_NO_MEM) s'" "user_runs kd ext c s'" "same_spaces s s'"
    "data_kept s s' (dirs s)" "\<exists>p. free_pages s \<subseteq> {p}" "live s' = live s" "dir_of s' = dir_of s" "dirs s' = dirs s"
  have "same_page s s' i va'" if "i \<in> live s" "unat (PDX va') < UPDES" for i va'
    using same_page_kept [OF r a(4) that] a(3) that by (simp add: same_spaces_def)
  then show thesis using no_mem [of s'] a r by (auto simp: changes_def same_spaces_def)
qed

lemma changes_map:
  assumes r: "user_runs kd ext c s" and va: "\<not> bad_va srcva" "\<not> bad_va dstva" "\<not> bad_perm perm"
    and v: "vmap s (dir_of s c) srcva = Some (p, pm)" and w: "perm AND PTE_W \<noteq> 0 \<Longrightarrow> pm AND PTE_W \<noteq> 0"
    and room: "unat (pp_ref (pages s p)) < 65535"
  obtains (mapped) s' where "lib_sys_page_map 0 srcva 0 dstva perm s = Ret 0 s'"
      and "changes kd ext c s [PGNUM dstva \<mapsto> Some (p, perm OR PTE_P)] s'"
  | (no_mem) "lib_sys_page_map 0 srcva 0 dstva perm s = Ret (- E_NO_MEM) s"
      and "\<not> present (slot s (dir_of s c) (unat (PDX dstva)))"
proof (rule ucall_map [OF r va self_names self_names v w room])
  fix s' assume a: "lib_sys_page_map 0 srcva 0 dstva perm s = Ret 0 s'" "user_runs kd ext c s'"
    "space_upd s s' c dstva (Some (p, perm OR PTE_P))" "data_kept s s' (dirs s)" "live s' = live s" "dir_of s' = dir_of s" "dirs s' = dirs s"
  show thesis using mapped [OF a(1) changes_space_upd [OF r a(2-7)]] .
qed (use no_mem in auto)

lemma changes_unmap:
  assumes r: "user_runs kd ext c s" and va: "\<not> bad_va va"
  obtains s' where "lib_sys_page_unmap 0 va s = Ret 0 s'" and "changes kd ext c s [PGNUM va \<mapsto> None] s'"
proof (rule ucall_unmap [OF r va self_names])
  fix s' assume a: "lib_sys_page_unmap 0 va s = Ret 0 s'" "user_runs kd ext c s'" "space_upd s s' c va None" "data_kept s s' (dirs s)"
    "live s' = live s" "dir_of s' = dir_of s" "dirs s' = dirs s"
  show thesis using that [OF a(1) changes_space_upd [OF r a(2-7)]] .
qed

text \<open>A store into a page that is mapped nowhere else.\<close>

definition only_mapped :: "kstate \<Rightarrow> nat \<Rightarrow> u32 \<Rightarrow> nat \<Rightarrow> bool" where
  "only_mapped s c va p \<longleftrightarrow> (\<forall>i\<in>live s. \<forall>va' pm. unat (PDX va') < UPDES \<longrightarrow> vmap s (dir_of s i) va' = Some (p, pm) \<longrightarrow>
     i = c \<and> PGNUM va' = PGNUM va)"

lemma changes_store:
  assumes r: "user_runs kd ext c s" and va: "va mod 4 = 0" "unat (PDX va) < UPDES"
    and v: "vmap s (dir_of s c) va = Some (p, pm)" "pm AND 7 = 7" and o: "only_mapped s c va p"
  obtains s' where "ustore32 va x s = Ret () s'" and "changes kd ext c s [PGNUM va \<mapsto> Some (p, pm)] s'"
    and "\<And>k. k < 1024 \<Longrightarrow> slot s' p k = (if k = unat (PGOFF va) div 4 then x else slot s p k)"
    and "pages s' = pages s" and "free_pages s' = free_pages s"
proof -
  note D = user_runsD [OF r]
  let ?k = "unat (PGOFF va) div 4"
  define s' where "s' = set_slot p ?k x s"
  have dp: "data_page s (dirs s) p" using mapped_data_page(1) [OF D(7,8) va(2) v(1)] .
  have k: "?k < 1024" using mod_less_divisor [of 4096 "unat va"] by (simp add: unat_PGOFF div_less_iff_less_mult)
  have e: "s' = s\<lparr>phys := store32 (phys s) (4096 * p + unat (PGOFF va)) x\<rparr>"
    using word_in_page(3) [OF va(1), of 0] by (simp add: s'_def set_slot_def)
  have st: "ustore32 va x s = Ret () s'" using ustore32_ok [OF r va v] e by simp
  have out: "phys s' a = phys s a" if "a div 4096 \<noteq> p" for a
  proof -
    have "a < 4 * (1024 * p + ?k) \<or> 4 * (1024 * p + ?k) + 4 \<le> a"
    proof (rule ccontr)
      assume "\<not> ?thesis"
      then have "4096 * p \<le> a" "a < 4096 * p + 4096" using k by auto
      then have "a div 4096 = p" by (intro div_nat_eqI) simp_all
      then show False using that by simp
    qed
    then show ?thesis by (simp add: s'_def set_slot_def store32_outside)
  qed
  note W = data_write_ok [OF r dp, of "phys s'"]
  have s'e: "s\<lparr>phys := phys s'\<rparr> = s'" by (simp add: e)
  have W': "user_runs kd ext c s'" "\<And>d va. d \<in> dirs s \<Longrightarrow> unat (PDX va) < UPDES \<Longrightarrow> vmap s' d va = vmap s d va"
    "\<And>q k. q \<noteq> p \<Longrightarrow> k < 1024 \<Longrightarrow> slot s' q k = slot s q k" "dirs s' = dirs s" "live s' = live s" "dir_of s' = dir_of s"
    using W(1-6) out unfolding s'e by auto
  have sl: "slot s' p j = (if j = ?k then x else slot s p j)" if "j < 1024" for j
    using that k by (simp add: s'_def slot_set_slot)
  have "same_page s s' i va'" if i: "i \<in> live s" "unat (PDX va') < UPDES" "i = c \<longrightarrow> PGNUM va' \<noteq> PGNUM va" for i va'
    using W'(2) [of "dir_of s i" va'] W'(3) i o by (fastforce simp: same_page_def only_mapped_def dirs_def)
  moreover have "vmap s' (dir_of s c) va' = Some (p, pm)" if "unat (PDX va') < UPDES" "PGNUM va' = PGNUM va" for va'
    using W'(2) [OF D(8) that(1)] vmap_page [OF that(2)] v(1) by simp
  moreover have "envs s' = envs s" "pages s' = pages s" "page_free_list s' = page_free_list s" "npages s' = npages s" by (simp_all add: e)
  ultimately show thesis
    using st sl r W' pages_ok_cong [of s' s] vm_okD(1) [OF D(7)] by (intro that [of s']) (auto simp: changes_def)
qed

end
