(* ===== verification/User_Console.thy ===== *)
theory User_Console
  imports Fd_Layer
begin

text \<open>
  The console device of the user library, \<^verbatim>\<open>lib/console.c\<close>. The address of a local variable whose
  address is taken is a parameter. \<^verbatim>\<open>sys_yield\<close> does not return to the modelled run, so one round of a loop
  that yields is enough.
\<close>

definition user_cputchar :: "u32 \<Rightarrow> int \<Rightarrow> (kstate, unit) op" where
  "user_cputchar c_at ch = kthen (ustore c_at (word_of_int ch)) (lib_sys_cputs c_at 1)"

definition user_getchar :: "dev list \<Rightarrow> u32 \<Rightarrow> (kstate, int) op" where
  "user_getchar devtab c_at = kbind (fd_read devtab 0 c_at 1) (\<lambda>r.
     if r < 0 then kret r else if r < 1 then kret (- E_EOF)
     else kbind (uload c_at) (\<lambda>c. kret (uint c)))"

abbreviation (input) DEVCONS_ID :: u32 where "DEVCONS_ID \<equiv> 0x63"

definition user_iscons :: "int \<Rightarrow> (kstate, int) op" where
  "user_iscons fdnum = kbind (fd_lookup fdnum) (\<lambda>(r, fd).
     if r < 0 then kret r
     else kbind (uload32 (fd_dev_id_at fd)) (\<lambda>devid. kret (if devid = DEVCONS_ID then 1 else 0)))"

definition opencons :: "(kstate, int) op" where
  "opencons = kbind fd_alloc (\<lambda>(r, fd).
     if r < 0 then kret r
     else kbind (lib_sys_page_alloc 0 fd (PTE_P OR PTE_U OR PTE_W OR PTE_SHARE)) (\<lambda>r.
          if r < 0 then kret r
          else kthen (ustore32 (fd_dev_id_at fd) DEVCONS_ID)
            (kthen (ustore32 (fd_omode_at fd) O_RDWR) (kret (fd2num fd)))))"

primrec devcons_wait :: "nat \<Rightarrow> (kstate, int) op" where
  "devcons_wait 0 = kret 0"
| "devcons_wait (Suc k) = kbind lib_sys_cgetc (\<lambda>c. if c = 0 then kthen lib_sys_yield (devcons_wait k) else kret c)"

definition devcons_read :: "u32 \<Rightarrow> u32 \<Rightarrow> u32 \<Rightarrow> (kstate, int) op" where
  "devcons_read fd vbuf n =
     (if n = 0 then kret 0
      else kbind (devcons_wait 1) (\<lambda>c.
           if c < 0 then kret c
           else if c = 4 then kret 0
           else kthen (ustore vbuf (word_of_int c)) (kret 1)))"

text \<open>Each round writes at least one byte; \<open>buf\<close> is the buffer of 128 bytes on the stack.\<close>

primrec devcons_write_loop :: "nat \<Rightarrow> u32 \<Rightarrow> u32 \<Rightarrow> u32 \<Rightarrow> u32 \<Rightarrow> (kstate, int) op" where
  "devcons_write_loop 0 buf vbuf n tot = kret (sint tot)"
| "devcons_write_loop (Suc k) buf vbuf n tot =
     (if tot < n
      then let m = (if n - tot > 127 then 127 else n - tot) in
           kthen (umemcpy buf (vbuf + tot) m) (kthen (lib_sys_cputs buf m) (devcons_write_loop k buf vbuf n (tot + m)))
      else kret (sint tot))"

definition devcons_write :: "u32 \<Rightarrow> u32 \<Rightarrow> u32 \<Rightarrow> u32 \<Rightarrow> (kstate, int) op" where
  "devcons_write buf fd vbuf n = devcons_write_loop (unat n) buf vbuf n 0"

definition devcons_close :: "u32 \<Rightarrow> (kstate, int) op" where
  "devcons_close fd = kret 0"

text \<open>\<^verbatim>\<open>strcpy\<close> of a constant.\<close>

primrec ustrcpy :: "u32 \<Rightarrow> u8 list \<Rightarrow> (kstate, unit) op" where
  "ustrcpy va [] = ustore va 0"
| "ustrcpy va (b # bs) = kthen (ustore va b) (ustrcpy (va + 1) bs)"

definition devcons_stat :: "u32 \<Rightarrow> u32 \<Rightarrow> (kstate, int) op" where
  "devcons_stat fd st = kthen (ustrcpy st [60, 99, 111, 110, 115, 62]) (kret 0)"

definition devcons :: "u32 \<Rightarrow> u32 \<Rightarrow> dev" where
  "devcons buf addr = \<lparr>dev_id = DEVCONS_ID, dev_name = ''cons'', dev_read = Some devcons_read,
     dev_write = Some (devcons_write buf), dev_close = Some devcons_close, dev_stat = Some devcons_stat,
     dev_trunc = None, dev_addr = addr\<rparr>"

end
