(* ===== verification/User_Pipe.thy ===== *)
theory User_Pipe
  imports User_Console Pipe
begin

text \<open>
  Pipes as system calls and memory accesses of one environment, \<^verbatim>\<open>lib/pipe.c\<close>: how \<^verbatim>\<open>pipe\<close> sets up the
  two descriptors and the page they share, the device operations, and the end-of-file test. \<open>Pipe\<close> has the
  accesses of several environments to that page, interleaved.
\<close>

abbreviation (input) DEVPIPE_ID :: u32 where "DEVPIPE_ID \<equiv> 0x70"
abbreviation (input) p_rpos_at :: "u32 \<Rightarrow> u32" where "p_rpos_at p \<equiv> p"
abbreviation (input) p_wpos_at :: "u32 \<Rightarrow> u32" where "p_wpos_at p \<equiv> p + 4"
abbreviation (input) p_buf_at :: "u32 \<Rightarrow> u32" where "p_buf_at p \<equiv> p + 8"
abbreviation (input) SHARED :: u32 where "SHARED \<equiv> 0x407"

definition pipe_err3 :: "u32 \<Rightarrow> (kstate, unit) op" where
  "pipe_err3 va = kthen (lib_sys_page_unmap 0 va) (kret ())"

definition pipe_err2 :: "u32 \<Rightarrow> (kstate, unit) op" where
  "pipe_err2 fd1 = kthen (lib_sys_page_unmap 0 fd1) (kret ())"

definition pipe_err1 :: "u32 \<Rightarrow> (kstate, unit) op" where
  "pipe_err1 fd0 = kthen (lib_sys_page_unmap 0 fd0) (kret ())"

text \<open>The result and what is stored in \<^verbatim>\<open>pfd\<close>.\<close>

definition pipe :: "(kstate, int \<times> (int \<times> int) option) op" where
  "pipe =
     kbind fd_alloc (\<lambda>(r, fd0).
     kbind (if r < 0 then kret r else lib_sys_page_alloc 0 fd0 SHARED) (\<lambda>r.
     if r < 0 then kret (r, None)
     else kbind fd_alloc (\<lambda>(r, fd1).
     kbind (if r < 0 then kret r else lib_sys_page_alloc 0 fd1 SHARED) (\<lambda>r.
     if r < 0 then kthen (pipe_err1 fd0) (kret (r, None))
     else let va = fd2data fd0 in
     kbind (lib_sys_page_alloc 0 va SHARED) (\<lambda>r.
     if r < 0 then kthen (pipe_err2 fd1) (kthen (pipe_err1 fd0) (kret (r, None)))
     else kbind (lib_sys_page_map 0 va 0 (fd2data fd1) SHARED) (\<lambda>r.
     if r < 0 then kthen (pipe_err3 va) (kthen (pipe_err2 fd1) (kthen (pipe_err1 fd0) (kret (r, None))))
     else kthen (ustore32 (fd_dev_id_at fd0) DEVPIPE_ID)
         (kthen (ustore32 (fd_omode_at fd0) O_RDONLY)
         (kthen (ustore32 (fd_dev_id_at fd1) DEVPIPE_ID)
         (kthen (ustore32 (fd_omode_at fd1) O_WRONLY)
           (kret (0, Some (fd2num fd0, fd2num fd1))))))))))))"

text \<open>The environment runs all the time, so \<^verbatim>\<open>env_runs\<close> is the same after the two counts as before, and one
  round is enough.\<close>

primrec pipeisclosed_loop :: "nat \<Rightarrow> u32 \<Rightarrow> u32 \<Rightarrow> (kstate, int) op" where
  "pipeisclosed_loop 0 fd p = kret 0"
| "pipeisclosed_loop (Suc k) fd p = curenv_get (\<lambda>c.
     kbind (kget (\<lambda>s. Env.env_runs (envs s c))) (\<lambda>n.
     kbind (pageref fd) (\<lambda>a. kbind (pageref p) (\<lambda>b.
     kbind (kget (\<lambda>s. Env.env_runs (envs s c))) (\<lambda>nn.
     if n = nn then kret (if a = b then 1 else 0) else pipeisclosed_loop k fd p)))))"

definition pipeisclosed_pages :: "u32 \<Rightarrow> u32 \<Rightarrow> (kstate, int) op" where
  "pipeisclosed_pages fd p = pipeisclosed_loop 1 fd p"

definition pipeisclosed :: "int \<Rightarrow> (kstate, int) op" where
  "pipeisclosed fdnum = kbind (fd_lookup fdnum) (\<lambda>(r, fd).
     if r < 0 then kret r else pipeisclosed_pages fd (fd2data fd))"

text \<open>The inner loops: \<open>Some r\<close> is a return, \<open>None\<close> goes on with the byte. After \<^verbatim>\<open>sys_yield\<close> the modelled
  run is over.\<close>

primrec pipe_wait_data :: "nat \<Rightarrow> u32 \<Rightarrow> u32 \<Rightarrow> nat \<Rightarrow> (kstate, int option) op" where
  "pipe_wait_data 0 fd p i = kret None"
| "pipe_wait_data (Suc k) fd p i =
     kbind (uload32 (p_rpos_at p)) (\<lambda>rpos. kbind (uload32 (p_wpos_at p)) (\<lambda>wpos.
     if rpos = wpos
     then if i > 0 then kret (Some (sint (of_nat i :: u32)))
          else kbind (pipeisclosed_pages fd p) (\<lambda>closed.
               if closed \<noteq> 0 then kret (Some 0) else kthen lib_sys_yield (pipe_wait_data k fd p i))
     else kret None))"

primrec user_pipe_read_loop :: "nat \<Rightarrow> nat \<Rightarrow> u32 \<Rightarrow> u32 \<Rightarrow> u32 \<Rightarrow> (kstate, int) op" where
  "user_pipe_read_loop 0 i fd p buf = kret (sint (of_nat i :: u32))"
| "user_pipe_read_loop (Suc k) i fd p buf =
     kbind (pipe_wait_data 1 fd p i) (\<lambda>w. case w of Some r \<Rightarrow> kret r
     | None \<Rightarrow>
       kbind (uload32 (p_rpos_at p)) (\<lambda>rpos.
       kbind (uload (p_buf_at p + word_of_int (pipe_index rpos))) (\<lambda>b.
       kthen (ustore (buf + of_nat i) b)
       (kthen (kbind (uload32 (p_rpos_at p)) (\<lambda>rpos. ustore32 (p_rpos_at p) (rpos + 1)))
         (user_pipe_read_loop k (Suc i) fd p buf)))))"

definition user_pipe_read :: "u32 \<Rightarrow> u32 \<Rightarrow> u32 \<Rightarrow> (kstate, int) op" where
  "user_pipe_read fd vbuf n = user_pipe_read_loop (unat n) 0 fd (fd2data fd) vbuf"

primrec pipe_wait_room :: "nat \<Rightarrow> u32 \<Rightarrow> u32 \<Rightarrow> (kstate, int option) op" where
  "pipe_wait_room 0 fd p = kret None"
| "pipe_wait_room (Suc k) fd p =
     kbind (uload32 (p_wpos_at p)) (\<lambda>wpos. kbind (uload32 (p_rpos_at p)) (\<lambda>rpos.
     if wpos \<ge> rpos + 32
     then kbind (pipeisclosed_pages fd p) (\<lambda>closed.
          if closed \<noteq> 0 then kret (Some 0) else kthen lib_sys_yield (pipe_wait_room k fd p))
     else kret None))"

primrec user_pipe_write_loop :: "nat \<Rightarrow> nat \<Rightarrow> u32 \<Rightarrow> u32 \<Rightarrow> u32 \<Rightarrow> (kstate, int) op" where
  "user_pipe_write_loop 0 i fd p buf = kret (sint (of_nat i :: u32))"
| "user_pipe_write_loop (Suc k) i fd p buf =
     kbind (pipe_wait_room 1 fd p) (\<lambda>w. case w of Some r \<Rightarrow> kret r
     | None \<Rightarrow>
       kbind (uload32 (p_wpos_at p)) (\<lambda>wpos.
       kbind (uload (buf + of_nat i)) (\<lambda>b.
       kthen (ustore (p_buf_at p + word_of_int (pipe_index wpos)) b)
       (kthen (kbind (uload32 (p_wpos_at p)) (\<lambda>wpos. ustore32 (p_wpos_at p) (wpos + 1)))
         (user_pipe_write_loop k (Suc i) fd p buf)))))"

definition user_pipe_write :: "u32 \<Rightarrow> u32 \<Rightarrow> u32 \<Rightarrow> (kstate, int) op" where
  "user_pipe_write fd vbuf n = user_pipe_write_loop (unat n) 0 fd (fd2data fd) vbuf"

definition user_pipe_stat :: "u32 \<Rightarrow> u32 \<Rightarrow> u32 \<Rightarrow> (kstate, int) op" where
  "user_pipe_stat addr fd st =
     (let p = fd2data fd in
      kthen (ustrcpy st [60, 112, 105, 112, 101, 62])
      (kbind (uload32 (p_wpos_at p)) (\<lambda>wpos. kbind (uload32 (p_rpos_at p)) (\<lambda>rpos.
       kthen (ustore32 (st + 128) (wpos - rpos))
       (kthen (ustore32 (st + 132) 0) (kthen (ustore32 (st + 136) addr) (kret 0)))))))"

definition devpipe_close :: "u32 \<Rightarrow> (kstate, int) op" where
  "devpipe_close fd = kthen (lib_sys_page_unmap 0 fd) (lib_sys_page_unmap 0 (fd2data fd))"

definition devpipe :: "u32 \<Rightarrow> dev" where
  "devpipe addr = \<lparr>dev_id = DEVPIPE_ID, dev_name = ''pipe'', dev_read = Some user_pipe_read,
     dev_write = Some user_pipe_write, dev_close = Some devpipe_close, dev_stat = Some (user_pipe_stat addr),
     dev_trunc = None, dev_addr = addr\<rparr>"

end
