(* ===== verification/Fd_Theorems.thy ===== *)
theory Fd_Theorems
  imports User_Space User_Pipe Fork_Copy
begin

text \<open>
  What descriptors promise: the lowest closed one is handed out, closing removes exactly one, a duplicate is the same
  open file, and \<^verbatim>\<open>pipe\<close> makes two descriptors of one fresh page or leaves everything as it was. Descriptor
  \<open>k\<close> of environment \<open>c\<close> is open when its page is mapped; \<open>fd_pg k\<close> and \<open>data_pg k\<close> are the page numbers of
  the descriptor and of its data page.
\<close>

section \<open>Addresses\<close>

definition fd_pg :: "nat \<Rightarrow> u32" where
  "fd_pg k = 0xD0000 + of_nat k"

definition data_pg :: "nat \<Rightarrow> u32" where
  "data_pg k = 0xD0020 + of_nat k"

definition fd_open :: "kstate \<Rightarrow> nat \<Rightarrow> nat \<Rightarrow> bool" where
  "fd_open s c k \<longleftrightarrow> vmap s (dir_of s c) (INDEX2FD (int k)) \<noteq> None"

lemma fd_addr:
  assumes "k < 32"
  shows "unat (INDEX2FD (int k)) = 3489660928 + 4096 * k" and "unat (INDEX2DATA (int k)) = 3489792000 + 4096 * k"
    and "unat (fd_pg k) = 851968 + k" and "unat (data_pg k) = 852000 + k"
proof -
  have k: "unat (word_of_int (int k) * PGSIZE) = 4096 * k" "unat (of_nat k :: u32) = k"
    using assms by (simp_all add: unat_word_ariths unat_of_nat)
  show "unat (INDEX2FD (int k)) = 3489660928 + 4096 * k" "unat (INDEX2DATA (int k)) = 3489792000 + 4096 * k"
    "unat (fd_pg k) = 851968 + k" "unat (data_pg k) = 852000 + k"
    unfolding INDEX2FD_def INDEX2DATA_def fd_pg_def data_pg_def using assms k by (simp_all add: unat_word_ariths)
qed

lemma fd_pages:
  assumes "k < 32"
  shows "PGNUM (INDEX2FD (int k)) = fd_pg k" and "PGNUM (INDEX2DATA (int k)) = data_pg k"
    and "\<not> bad_va (INDEX2FD (int k))" and "\<not> bad_va (INDEX2DATA (int k))"
    and "fd2num (INDEX2FD (int k)) = int k" and "fd2data (INDEX2FD (int k)) = INDEX2DATA (int k)"
proof -
  note A = fd_addr [OF assms]
  have d: "(a + 4096 * k) div 4096 = a div 4096 + k" if "4096 dvd a" for a
    using that by (auto simp: dvd_def)
  show "PGNUM (INDEX2FD (int k)) = fd_pg k" "PGNUM (INDEX2DATA (int k)) = data_pg k"
    by (rule word_eq_unatI, simp add: unat_PGNUM A d)+
  have m: "unat (w mod PGSIZE) = unat w mod 4096" for w :: u32 by (simp add: unat_mod)
  have "unat (INDEX2FD (int k) mod PGSIZE) = 0" "unat (INDEX2DATA (int k) mod PGSIZE) = 0"
    unfolding m A using mod_mult_self2 [of 3489660928 4096 k] mod_mult_self2 [of 3489792000 4096 k] by simp_all
  then show "\<not> bad_va (INDEX2FD (int k))" "\<not> bad_va (INDEX2DATA (int k))"
    using assms A(1,2) by (simp_all add: bad_va_def word_le_nat_alt unat_eq_0)
  have "unat ((INDEX2FD (int k) - FDTABLE) div PGSIZE) = k"
    using assms A(1) by (simp add: unat_div unat_sub word_le_nat_alt)
  then have "(INDEX2FD (int k) - FDTABLE) div PGSIZE = of_nat k"
    using assms by (intro word_eq_unatI) (simp add: unat_of_nat32)
  then show n: "fd2num (INDEX2FD (int k)) = int k"
    using assms by (simp add: fd2num_def signed_of_nat signed_take_bit_int_eq_self)
  show "fd2data (INDEX2FD (int k)) = INDEX2DATA (int k)" by (simp add: fd2data_def n)
qed

lemma fd_pg_inj [simp]:
  assumes "j < 32" "k < 32"
  shows "fd_pg j = fd_pg k \<longleftrightarrow> j = k" and "data_pg j = data_pg k \<longleftrightarrow> j = k" and "fd_pg j \<noteq> data_pg k" and "data_pg k \<noteq> fd_pg j"
proof -
  show "fd_pg j = fd_pg k \<longleftrightarrow> j = k" "data_pg j = data_pg k \<longleftrightarrow> j = k"
    using fd_addr(3,4) assms by (metis add_left_cancel)+
  have "unat (fd_pg j) \<noteq> unat (data_pg k)" using fd_addr(3) [OF assms(1)] fd_addr(4) [OF assms(2)] assms by simp
  then show "fd_pg j \<noteq> data_pg k" "data_pg k \<noteq> fd_pg j" by metis+
qed

text \<open>Fields of a descriptor.\<close>

lemma fd_field:
  assumes "k < 32" and "a = 0 \<or> a = 4 \<or> a = 8 \<or> a = (12 :: u32)"
  shows "(INDEX2FD (int k) + a) mod 4 = 0" and "PGNUM (INDEX2FD (int k) + a) = fd_pg k"
    and "unat (PDX (INDEX2FD (int k) + a)) < UPDES" and "unat (PGOFF (INDEX2FD (int k) + a)) div 4 = unat a div 4"
proof -
  note A = fd_addr(1) [OF assms(1)] and P = fd_pages(3) [OF assms(1)]
  have al: "INDEX2FD (int k) mod 4096 = 0" using P by (simp add: bad_va_def)
  have a: "a = of_nat (unat a)" "unat a < 4096" "unat a mod 4 = 0" using assms(2) by auto
  note B = page_addr_parts [OF al a(2), folded a(1)]
  show "PGNUM (INDEX2FD (int k) + a) = fd_pg k" using B(1) fd_pages(1) [OF assms(1)] by simp
  then show "unat (PDX (INDEX2FD (int k) + a)) < UPDES"
    using B(1) [unfolded PGNUM_eq_iff] good_va_PDX [OF P] by simp
  show "unat (PGOFF (INDEX2FD (int k) + a)) div 4 = unat a div 4" using B(2) by simp
  have u: "unat (INDEX2FD (int k) + a) = 3489660928 + 4096 * k + unat a"
    using unat_add_lt32 [of "INDEX2FD (int k)" a] A assms(1) a(2) by simp
  have "(3489660928 + 4096 * k + unat a) mod 4 = 0" using a(3) by presburger
  then have "unat ((INDEX2FD (int k) + a) mod 4) = 0" by (simp add: unat_mod u)
  then show "(INDEX2FD (int k) + a) mod 4 = 0" by (simp add: unat_eq_0)
qed

section \<open>Looking at descriptors\<close>

lemma page_mapped_ok:
  assumes "user_runs kd ext c s" and "unat (PDX va) < UPDES"
  shows "page_mapped va s = Ret (vmap s (dir_of s c) va \<noteq> None) s"
  using uvpd_ok [OF assms(1), of "PDX va"] uvpt_ok [OF assms] assms(2)
  by (auto simp: page_mapped_def vmap_pte pte_view_of_def tfr_def)

lemma fd_mapped_ok:
  assumes "user_runs kd ext c s" and "k < 32"
  shows "page_mapped (INDEX2FD (int k)) s = Ret (fd_open s c k) s"
  using page_mapped_ok [OF assms(1) good_va_PDX [OF fd_pages(3) [OF assms(2)]]] by (simp add: fd_open_def)

lemma fd_lookup_ok:
  assumes "user_runs kd ext c s" and "k < 32"
  shows "fd_lookup (int k) s = (if fd_open s c k then Ret (0, INDEX2FD (int k)) s else Ret (- E_INVAL, 0) s)"
  using fd_mapped_ok [OF assms] assms(2) by (simp add: fd_lookup_def)

lemma fd_scan_ok:
  assumes "user_runs kd ext c s" and "\<forall>k\<in>set ks. k < 32"
  shows "fd_scan (map int ks) s = (case find (\<lambda>k. \<not> fd_open s c k) ks of
    None \<Rightarrow> Ret (- E_MAX_OPEN, 0) s | Some k \<Rightarrow> Ret (0, INDEX2FD (int k)) s)"
  using assms(2) by (induction ks) (use fd_mapped_ok [OF assms(1)] in \<open>auto simp: fd_open_def\<close>)

lemma fd_alloc_ok:
  assumes "user_runs kd ext c s"
  shows "fd_alloc s = (case find (\<lambda>k. \<not> fd_open s c k) [0..<32] of
    None \<Rightarrow> Ret (- E_MAX_OPEN, 0) s | Some k \<Rightarrow> Ret (0, INDEX2FD (int k)) s)"
proof -
  have "[0..MAXFD - 1] = map int [0..<32]" by (rule nth_equalityI) (simp_all add: nth_upto del: upt_rec_numeral)
  then show ?thesis using fd_scan_ok [OF assms, of "[0..<32]"] by (simp add: fd_alloc_def del: upt_rec_numeral)
qed

text \<open>Descriptor \<open>k\<close> is open on the device with identifier \<open>devid\<close>, and the environment may read it.\<close>

definition fd_device :: "kstate \<Rightarrow> nat \<Rightarrow> nat \<Rightarrow> u32 \<Rightarrow> bool" where
  "fd_device s c k devid \<longleftrightarrow> (\<exists>p pm. vmap s (dir_of s c) (INDEX2FD (int k)) = Some (p, pm) \<and> pm AND 5 = 5) \<and>
     uword s c (INDEX2FD (int k)) = Some devid"

lemma fd_device_ok:
  assumes "user_runs kd ext c s" and "k < 32" and "fd_device s c k devid"
  shows "uload32 (INDEX2FD (int k)) s = Ret devid s" and "fd_open s c k"
proof -
  obtain p pm where v: "vmap s (dir_of s c) (INDEX2FD (int k)) = Some (p, pm)" "pm AND 5 = 5"
    and w: "uword s c (INDEX2FD (int k)) = Some devid" using assms(3) by (auto simp: fd_device_def)
  show "uload32 (INDEX2FD (int k)) s = Ret devid s"
    using uload32_ok [OF assms(1) _ _ v] fd_field(1,3) [OF assms(2), of 0] w by simp
  show "fd_open s c k" using v by (simp add: fd_open_def)
qed

section \<open>Closing\<close>

text \<open>The contract of a device's close operation: it ends, and unmaps at most the two pages of the descriptor.\<close>

locale closing_device =
  fixes dclose :: "u32 \<Rightarrow> (kstate, int) op"
  assumes dcloses: "user_runs kd ext c s \<Longrightarrow> k < 32 \<Longrightarrow>
    \<exists>r s' g. dclose (INDEX2FD (int k)) s = Ret r s' \<and> changes kd ext c s g s' \<and> (\<forall>n m. g n = Some m \<longrightarrow> (n = fd_pg k \<or> n = data_pg k) \<and> m = None)"
begin

lemma fd_close_ok:
  assumes r: "user_runs kd ext c s" and k: "k < 32" and d: "fd_device s c k devid"
    and f: "find (\<lambda>d. dev_id d = devid) devtab = Some d" "dev_close d = Some dclose"
  shows "\<exists>r s1 s' g. dclose (INDEX2FD (int k)) s = Ret r s1 \<and> close devtab (int k) s = Ret r s' \<and>
    changes kd ext c s g s1 \<and> changes kd ext c s1 [fd_pg k \<mapsto> None] s' \<and>
    (\<forall>n m. g n = Some m \<longrightarrow> (n = fd_pg k \<or> n = data_pg k) \<and> m = None)"
proof -
  obtain r1 s1 g where 1: "dclose (INDEX2FD (int k)) s = Ret r1 s1" "changes kd ext c s g s1"
    "\<forall>n m. g n = Some m \<longrightarrow> (n = fd_pg k \<or> n = data_pg k) \<and> m = None" using dcloses [OF r k] by blast
  obtain s' where 2: "lib_sys_page_unmap 0 (INDEX2FD (int k)) s1 = Ret 0 s'" "changes kd ext c s1 [fd_pg k \<mapsto> None] s'"
    using changes_unmap [OF changesD(2) [OF 1(2)] fd_pages(3) [OF k]] fd_pages(1) [OF k] by metis
  have "close devtab (int k) s = Ret r1 s'"
    using fd_lookup_ok [OF r k] fd_device_ok [OF r k d] f 1(1) 2(1)
    by (simp add: close_def fd_close_def fd_pages(5) [OF k] dev_lookup_def kthen_def)
  then show ?thesis using 1 2(2) by blast
qed

text \<open>Afterwards the descriptor is closed and nothing but its two pages has changed.\<close>

lemma closed:
  assumes r: "user_runs kd ext c s" and k: "k < 32" and d: "fd_device s c k devid"
    and f: "find (\<lambda>d. dev_id d = devid) devtab = Some d" "dev_close d = Some dclose"
  shows "\<exists>r s' g. close devtab (int k) s = Ret r s' \<and> changes kd ext c s g s' \<and> g (fd_pg k) = Some None \<and>
    (\<forall>n m. g n = Some m \<longrightarrow> (n = fd_pg k \<or> n = data_pg k) \<and> m = None)"
proof -
  obtain r s1 s' g where a: "close devtab (int k) s = Ret r s'" "changes kd ext c s g s1" "changes kd ext c s1 [fd_pg k \<mapsto> None] s'"
    "\<forall>n m. g n = Some m \<longrightarrow> (n = fd_pg k \<or> n = data_pg k) \<and> m = None" using fd_close_ok [OF assms] by blast
  have "\<forall>n m. (g ++ [fd_pg k \<mapsto> None]) n = Some m \<longrightarrow> (n = fd_pg k \<or> n = data_pg k) \<and> m = None" using a(4) by auto
  then show ?thesis using a(1) changes_trans [OF a(2,3)]
    by (intro exI [of _ r] exI [of _ s'] exI [of _ "g ++ [fd_pg k \<mapsto> None]"]) simp
qed

end

text \<open>Pipe and console keep the contract.\<close>

lemma devpipe_close_ok:
  assumes r: "user_runs kd ext c s" and k: "k < 32"
  obtains s' where "devpipe_close (INDEX2FD (int k)) s = Ret 0 s'" and "changes kd ext c s [fd_pg k \<mapsto> None, data_pg k \<mapsto> None] s'"
proof -
  obtain s1 where 1: "lib_sys_page_unmap 0 (INDEX2FD (int k)) s = Ret 0 s1" "changes kd ext c s [fd_pg k \<mapsto> None] s1"
    using changes_unmap [OF r fd_pages(3) [OF k]] fd_pages(1) [OF k] by metis
  obtain s2 where 2: "lib_sys_page_unmap 0 (INDEX2DATA (int k)) s1 = Ret 0 s2" "changes kd ext c s1 [data_pg k \<mapsto> None] s2"
    using changes_unmap [OF changesD(2) [OF 1(2)] fd_pages(4) [OF k]] fd_pages(2) [OF k] by metis
  have "devpipe_close (INDEX2FD (int k)) s = Ret 0 s2"
    using 1(1) 2(1) fd_pages(6) [OF k] by (simp add: devpipe_close_def kthen_def)
  then show thesis using that changes_trans [OF 1(2) 2(2)] by simp
qed

interpretation pipe_dev: closing_device devpipe_close
proof
  fix kd ext c s and k :: nat assume a: "user_runs kd ext c s" "k < 32"
  then obtain s' where "devpipe_close (INDEX2FD (int k)) s = Ret 0 s'" "changes kd ext c s [fd_pg k \<mapsto> None, data_pg k \<mapsto> None] s'"
    using devpipe_close_ok by blast
  then show "\<exists>r s' g. devpipe_close (INDEX2FD (int k)) s = Ret r s' \<and> changes kd ext c s g s' \<and>
      (\<forall>n m. g n = Some m \<longrightarrow> (n = fd_pg k \<or> n = data_pg k) \<and> m = None)"
    by (intro exI [of _ 0] exI [of _ s'] exI [of _ "[fd_pg k \<mapsto> None, data_pg k \<mapsto> None]"]) auto
qed

interpretation cons_dev: closing_device devcons_close
proof
  fix kd ext c s and k :: nat assume "user_runs kd ext c s" "k < (32::nat)"
  then show "\<exists>r s' g. devcons_close (INDEX2FD (int k)) s = Ret r s' \<and> changes kd ext c s g s' \<and>
      (\<forall>n m. g n = Some m \<longrightarrow> (n = fd_pg k \<or> n = data_pg k) \<and> m = None)"
    using changes_refl [of kd ext c s] by (auto simp: devcons_close_def intro!: exI [of _ Map.empty])
qed

text \<open>The table of devices; the file device's operations are not looked at.\<close>

definition the_devtab :: "dev \<Rightarrow> u32 \<Rightarrow> u32 \<Rightarrow> u32 \<Rightarrow> dev list" where
  "the_devtab file pa ca buf = [file, devpipe pa, devcons buf ca]"

lemma find_dev:
  assumes "dev_id file = 0x66"
  shows "find (\<lambda>d. dev_id d = DEVPIPE_ID) (the_devtab file pa ca buf) = Some (devpipe pa)"
    and "find (\<lambda>d. dev_id d = DEVCONS_ID) (the_devtab file pa ca buf) = Some (devcons buf ca)"
    and "dev_close (devpipe pa) = Some devpipe_close" and "dev_close (devcons buf ca) = Some devcons_close"
  using assms by (simp_all add: the_devtab_def devpipe_def devcons_def)

text \<open>Descriptor \<open>k\<close> is free to be mapped, or \<open>close\<close> makes it so.\<close>

definition fd_clearable :: "kstate \<Rightarrow> nat \<Rightarrow> nat \<Rightarrow> bool" where
  "fd_clearable s c k \<longleftrightarrow> fd_device s c k DEVPIPE_ID \<or>
     vmap s (dir_of s c) (INDEX2DATA (int k)) = None \<and> (fd_device s c k DEVCONS_ID \<or> \<not> fd_open s c k)"

lemma close_clears:
  assumes r: "user_runs kd ext c s" and k: "k < 32" and fl: "dev_id file = 0x66" and d: "fd_clearable s c k"
  obtains r s' where "close (the_devtab file pa ca buf) (int k) s = Ret r s'"
    and "changes kd ext c s [fd_pg k \<mapsto> None, data_pg k \<mapsto> None] s'"
proof -
  note F = find_dev [OF fl] and P = fd_pages [OF k]
  consider "fd_device s c k DEVPIPE_ID" | "fd_device s c k DEVCONS_ID" "vmap s (dir_of s c) (INDEX2DATA (int k)) = None"
    | "\<not> fd_open s c k" "vmap s (dir_of s c) (INDEX2DATA (int k)) = None" using d by (auto simp: fd_clearable_def)
  then show thesis
  proof cases
    case 1
    obtain s1 where s1: "devpipe_close (INDEX2FD (int k)) s = Ret 0 s1" "changes kd ext c s [fd_pg k \<mapsto> None, data_pg k \<mapsto> None] s1"
      using devpipe_close_ok [OF r k] .
    obtain r' s' where "close (the_devtab file pa ca buf) (int k) s = Ret r' s'" "changes kd ext c s1 [fd_pg k \<mapsto> None] s'"
      using pipe_dev.fd_close_ok [OF r k 1 F(1,3)] s1(1) by fastforce
    moreover have "[fd_pg k \<mapsto> None, data_pg k \<mapsto> None] ++ [fd_pg k \<mapsto> None] = [fd_pg k \<mapsto> (None::(nat \<times> u32) option), data_pg k \<mapsto> None]"
      using k by (auto simp: fun_eq_iff)
    ultimately show thesis using that changes_trans [OF s1(2)] by metis
  next
    case 2
    obtain r' s1 s' where c': "close (the_devtab file pa ca buf) (int k) s = Ret r' s'" "changes kd ext c s1 [fd_pg k \<mapsto> None] s'"
      "devcons_close (INDEX2FD (int k)) s = Ret r' s1"
      using cons_dev.fd_close_ok [OF r k 2(1) F(2,4)] by blast
    then have c: "close (the_devtab file pa ca buf) (int k) s = Ret r' s'" "changes kd ext c s [fd_pg k \<mapsto> None] s'"
      by (auto simp: devcons_close_def)
    show thesis
    proof (rule that [OF c(1)])
      have "same_page s s' c va" if "unat (PDX va) < UPDES" "PGNUM va = data_pg k" for va
        using changesD(8) [OF c(2) user_runsD(4) [OF r] that(1)] k that(2) by simp
      moreover have "vmap s (dir_of s c) va = None" if "PGNUM va = data_pg k" for va
        using vmap_page [of va "INDEX2DATA (int k)"] that P(2) 2(2) by simp
      ultimately show "changes kd ext c s [fd_pg k \<mapsto> None, data_pg k \<mapsto> None] s'"
        using c(2) unfolding changes_def by (auto simp: same_page_def split: if_splits)
    qed
  next
    case 3
    have c: "close (the_devtab file pa ca buf) (int k) s = Ret (- E_INVAL) s"
      using fd_lookup_ok [OF r k] 3(1) by (simp add: close_def)
    show thesis
    proof (rule that [OF c])
      have "vmap s (dir_of s c) va = None" if "PGNUM va = data_pg k \<or> PGNUM va = fd_pg k" for va
      proof -
        have "vmap s (dir_of s c) (INDEX2FD (int k)) = None" using 3(1) by (simp add: fd_open_def del: not_None_eq)
        then show ?thesis using vmap_page [of va "INDEX2DATA (int k)"] vmap_page [of va "INDEX2FD (int k)"] that P(1,2) 3(2) by metis
      qed
      then show "changes kd ext c s [fd_pg k \<mapsto> None, data_pg k \<mapsto> None] s"
        using r by (auto simp: changes_def same_page_def split: if_splits)
    qed
  qed
qed

text \<open>How many more mappings a page has after a change.\<close>

lemma changes_mappers:
  assumes g: "changes kd ext c s g s'" and fin: "finite N" and N: "\<And>n pm. g n = Some (Some (q, pm)) \<Longrightarrow> n \<in> N"
    and v: "vmap s' (dir_of s c) va = Some (q, qm)" "unat (PDX va) < UPDES"
    and m: "vmap s (dir_of s c) va0 = Some (q, qm0)" "unat (PDX va0) < UPDES"
  shows "unat (pp_ref (pages s' q)) \<le> unat (pp_ref (pages s q)) + card N"
proof -
  note G = changesD [OF g]
  have c: "c \<in> live s" using user_runsD(4) [OF G(1)] .
  note R = mapped_room [OF G(1) c m(2,1)] and R' = mapped_room [OF G(2), unfolded G(4,5), OF c v(2,1)]
  have "mappers s' (dirs s') q \<subseteq> mappers s (dirs s) q \<union> (\<lambda>n. (dir_of s c, unat n)) ` N"
  proof
    fix x assume "x \<in> mappers s' (dirs s') q"
    then obtain i n pn where x: "x = (dir_of s i, n)" "i \<in> live s" "n < 977920" "vmap s' (dir_of s i) (of_nat (4096 * n)) = Some (q, pn)"
      using G(4-6) by (auto simp: mappers_def dirs_def)
    note I = page_index [OF x(3)]
    show "x \<in> mappers s (dirs s) q \<union> (\<lambda>n. (dir_of s c, unat n)) ` N"
    proof (cases "i = c \<and> g (PGNUM (of_nat (4096 * n))) \<noteq> None")
      case True
      then have "g (PGNUM (of_nat (4096 * n))) = Some (Some (q, pn))" using G(7) [OF I(3)] x(4) by fastforce
      then have "PGNUM (of_nat (4096 * n)) \<in> N" by (rule N)
      then have "(dir_of s c, unat (PGNUM (of_nat (4096 * n)))) \<in> (\<lambda>n. (dir_of s c, unat n)) ` N" by simp
      then show ?thesis using True x(1) I(4) by simp
    next
      case False
      then have "same_page s s' i (of_nat (4096 * n))" using G(8) [OF x(2) I(3)] by auto
      then have "vmap s (dir_of s i) (of_nat (4096 * n)) = Some (q, pn)" using x(4) by (simp add: same_page_def)
      then show ?thesis unfolding x(1) mappers_def using x(2,3) by (auto simp: dirs_def)
    qed
  qed
  then have "card (mappers s' (dirs s') q) \<le> card (mappers s (dirs s) q \<union> (\<lambda>n. (dir_of s c, unat n)) ` N)"
    using R(2) fin by (intro card_mono) auto
  also have "\<dots> \<le> card (mappers s (dirs s) q) + card N"
    using card_Un_le [of "mappers s (dirs s) q" "(\<lambda>n. (dir_of s c, unat n)) ` N"] card_image_le [OF fin, of "\<lambda>n. (dir_of s c, unat n)"] by linarith
  finally show ?thesis using R(1) R'(1) by simp
qed

section \<open>Duplicating\<close>

lemma syscall_perm:
  assumes "pm AND PTE_P \<noteq> 0"
  shows "\<not> bad_perm (pm AND PTE_SYSCALL)" and "(pm AND PTE_SYSCALL) AND PTE_W \<noteq> 0 \<Longrightarrow> pm AND PTE_W \<noteq> 0"
    and "(pm AND PTE_SYSCALL) OR PTE_P = pm AND PTE_SYSCALL"
proof -
  have "(pm AND PTE_SYSCALL) AND NOT PTE_SYSCALL = 0" unfolding and.assoc by simp
  moreover have e: "(pm AND PTE_SYSCALL) AND 1 = pm AND 1" "(pm AND PTE_SYSCALL) AND PTE_W = pm AND PTE_W" unfolding and.assoc by simp_all
  have "(pm AND PTE_SYSCALL) AND (PTE_U OR PTE_P) \<noteq> 0"
    using and_mask_mono [of "PTE_U OR PTE_P" 1 "pm AND PTE_SYSCALL"] e(1) assms by simp
  ultimately show "\<not> bad_perm (pm AND PTE_SYSCALL)" by (simp add: bad_perm_def)
  show "(pm AND PTE_SYSCALL) AND PTE_W \<noteq> 0 \<Longrightarrow> pm AND PTE_W \<noteq> 0" using e(2) by simp
  have x: "x OR (x AND 1) = x" for x :: u32 by (rule bit_eqI) (auto simp: bit_or_iff bit_and_iff)
  have "pm AND 1 = 1" using assms by (simp add: and_one_eq not_mod_2_eq_0_eq_1)
  then show "(pm AND PTE_SYSCALL) OR PTE_P = pm AND PTE_SYSCALL" using x [of "pm AND PTE_SYSCALL"] e(1) by simp
qed

lemma map_copy:
  assumes r: "user_runs kd ext c s" and va: "\<not> bad_va a" "\<not> bad_va b" and v: "vmap s (dir_of s c) a = Some (p, pm)"
    and room: "unat (pp_ref (pages s p)) < 65535" and pr: "present (slot s (dir_of s c) (unat (PDX b)))"
  obtains pte s' where "uvpt (PGNUM a) s = Ret pte s" and "lib_sys_page_map 0 a 0 b (pte AND PTE_SYSCALL) s = Ret 0 s'"
    and "changes kd ext c s [PGNUM b \<mapsto> Some (p, pm AND PTE_SYSCALL)] s'"
proof -
  obtain pte where pte: "uvpt (PGNUM a) s = Ret pte s" "\<And>m. m AND 0xFFF = m \<Longrightarrow> pte AND m = pm AND m" "present pte"
    using uvpt_flags [OF r good_va_PDX [OF va(1)] v] by metis
  have e: "pte AND PTE_SYSCALL = pm AND PTE_SYSCALL" "pm AND PTE_P \<noteq> 0" using pte(2) [of PTE_SYSCALL] pte(2) [of PTE_P] pte(3) by simp_all
  note S = syscall_perm [OF e(2)]
  from changes_map [OF r va S(1) v S(2) room] pr obtain s' where "lib_sys_page_map 0 a 0 b (pm AND PTE_SYSCALL) s = Ret 0 s'"
    "changes kd ext c s [PGNUM b \<mapsto> Some (p, pm AND PTE_SYSCALL)] s'" unfolding S(3) by metis
  then show thesis using pte(1) e(1) by (intro that [of pte]) simp_all
qed

lemma same_table:
  assumes "i < 32" "j < 32"
  shows "PDX (INDEX2FD (int j)) = PDX (INDEX2FD (int i))" and "PDX (INDEX2DATA (int j)) = PDX (INDEX2FD (int i))"
proof -
  have "(3489660928 + 4096 * k) div 4194304 = (832::nat)" "(3489792000 + 4096 * k) div 4194304 = (832::nat)" if "k < 32" for k
    using that by (intro div_nat_eqI; simp)+
  then show "PDX (INDEX2FD (int j)) = PDX (INDEX2FD (int i))" "PDX (INDEX2DATA (int j)) = PDX (INDEX2FD (int i))"
    using assms by (intro word_eq_unatI; simp add: unat_PDX fd_addr)+
qed

lemma entry_none:
  assumes "user_runs kd ext c s" and "vmap s (dir_of s c) va = None"
  shows "changes kd ext c s [PGNUM va \<mapsto> None] s"
proof -
  have "vmap s (dir_of s c) va' = None" if "PGNUM va' = PGNUM va" for va'
    using vmap_page [OF that] assms(2) by simp
  then show ?thesis using assms(1) by (auto simp: changes_def same_page_def split: if_splits)
qed

lemma vmap_table: "vmap s d va \<noteq> None \<Longrightarrow> present (slot s d (unat (PDX va)))"
  by (auto simp: vmap_pte split: if_splits)

text \<open>The second half of \<^verbatim>\<open>dup\<close> first: the data page, when there is one.\<close>

lemma dup_data:
  assumes r: "user_runs kd ext c s" and k: "i < 32" "j < 32" and o: "fd_open s c i"
    and closed: "vmap s (dir_of s c) (INDEX2DATA (int j)) = None"
    and room: "\<And>q qm. vmap s (dir_of s c) (INDEX2DATA (int i)) = Some (q, qm) \<Longrightarrow> unat (pp_ref (pages s q)) < 65535"
  obtains b s' where "page_mapped (INDEX2DATA (int i)) s = Ret b s"
    and "(if b then kbind (uvpt (PGNUM (INDEX2DATA (int i)))) (\<lambda>pte. lib_sys_page_map 0 (INDEX2DATA (int i)) 0 (INDEX2DATA (int j)) (pte AND PTE_SYSCALL)) else kret 0) s = Ret 0 s'"
    and "changes kd ext c s [data_pg j \<mapsto> map_option (\<lambda>(q, qm). (q, qm AND PTE_SYSCALL)) (vmap s (dir_of s c) (INDEX2DATA (int i)))] s'"
proof (cases "vmap s (dir_of s c) (INDEX2DATA (int i))")
  case None
  then show thesis
    using that [of False s] page_mapped_ok [OF r good_va_PDX [OF fd_pages(4) [OF k(1)]]] entry_none [OF r closed] fd_pages(2) [OF k(2)] by simp
next
  note Pi = fd_pages [OF k(1)] and Pj = fd_pages [OF k(2)]
  case (Some x)
  then obtain q qm where v: "vmap s (dir_of s c) (INDEX2DATA (int i)) = Some (q, qm)" by (cases x) auto
  have "present (slot s (dir_of s c) (unat (PDX (INDEX2DATA (int j)))))"
    using vmap_table o same_table(2) [OF k] by (simp add: fd_open_def)
  then obtain pte s' where "uvpt (PGNUM (INDEX2DATA (int i))) s = Ret pte s"
    "lib_sys_page_map 0 (INDEX2DATA (int i)) 0 (INDEX2DATA (int j)) (pte AND PTE_SYSCALL) s = Ret 0 s'"
    "changes kd ext c s [PGNUM (INDEX2DATA (int j)) \<mapsto> Some (q, qm AND PTE_SYSCALL)] s'"
    by (rule map_copy [OF r Pi(4) Pj(4) v room [OF v]])
  then show thesis using that [of True s'] page_mapped_ok [OF r good_va_PDX [OF Pi(4)]] v Pj(2) by simp
qed



end
