(* ===== verification/Pipe_Setup.thy ===== *)
theory Pipe_Setup
  imports Fd_Theorems
begin

text \<open>
  How a pipe comes into being: \<^verbatim>\<open>pipe\<close> of \<^verbatim>\<open>lib/pipe.c\<close> takes the two lowest closed descriptors and gives
  them one fresh page, or fails and leaves the address space as it was, whatever it had already mapped.
\<close>

section \<open>Fresh pages\<close>

text \<open>No environment maps the page.\<close>

definition unused :: "kstate \<Rightarrow> nat \<Rightarrow> bool" where
  "unused s p \<longleftrightarrow> (\<forall>i\<in>live s. \<forall>va pm. unat (PDX va) < UPDES \<longrightarrow> vmap s (dir_of s i) va \<noteq> Some (p, pm))"

lemma free_unused: "user_runs kd ext c s \<Longrightarrow> p \<in> free_pages s \<Longrightarrow> unused s p"
  using free_not_mapped [OF user_runsD(7)] by (auto simp: unused_def dirs_def)

lemma unused_before:
  assumes g: "changes kd ext c s g s'" and u: "unused s' p"
    and n: "\<And>va m. unat (PDX va) < UPDES \<Longrightarrow> g (PGNUM va) = Some m \<Longrightarrow> vmap s (dir_of s c) va = None"
  shows "unused s p"
proof -
  note G = changesD [OF g]
  have "vmap s (dir_of s i) va \<noteq> Some (p, pm)" if i: "i \<in> live s" "unat (PDX va) < UPDES" for i va pm
  proof (cases "i = c \<and> g (PGNUM va) \<noteq> None")
    case True
    then show ?thesis using n [OF i(2)] by auto
  next
    case False
    then show ?thesis using G(8) [OF i] u i by (auto simp: same_page_def unused_def G(4,5))
  qed
  then show ?thesis by (simp add: unused_def)
qed

lemma only_mapped_fresh:
  assumes g: "changes kd ext c s [PGNUM va \<mapsto> Some (p, pm)] s'" and u: "unused s p"
  shows "only_mapped s' c va p"
proof -
  note G = changesD [OF g]
  have "i = c \<and> PGNUM va' = PGNUM va" if i: "i \<in> live s" "unat (PDX va') < UPDES" and v: "vmap s' (dir_of s i) va' = Some (p, pn)" for i va' pn
  proof (rule ccontr)
    assume "\<not> (i = c \<and> PGNUM va' = PGNUM va)"
    then have "same_page s s' i va'" using G(8) [OF i] by auto
    then have "vmap s (dir_of s i) va' = Some (p, pn)" using v unfolding same_page_def by metis
    then show False using u i unfolding unused_def by blast
  qed
  then show ?thesis by (simp add: only_mapped_def G(4,5))
qed

lemma only_mapped_after:
  assumes g: "changes kd ext c s g s'" and o: "only_mapped s c va p"
    and n: "\<And>n pm. g n = Some (Some (p, pm)) \<Longrightarrow> n = PGNUM va"
  shows "only_mapped s' c va p"
proof -
  note G = changesD [OF g]
  have "i = c \<and> PGNUM va' = PGNUM va" if i: "i \<in> live s" "unat (PDX va') < UPDES" and v: "vmap s' (dir_of s i) va' = Some (p, pn)" for i va' pn
  proof (cases "i = c \<and> g (PGNUM va') \<noteq> None")
    case True
    then obtain m where m: "g (PGNUM va') = Some m" by auto
    then show ?thesis using G(7) [OF i(2) m] v True n by auto
  next
    case False
    then have "same_page s s' i va'" using G(8) [OF i] by auto
    then have "vmap s (dir_of s i) va' = Some (p, pn)" using v unfolding same_page_def by metis
    then show ?thesis using o i unfolding only_mapped_def by blast
  qed
  then show ?thesis by (simp add: only_mapped_def G(4,5))
qed

text \<open>Writing the header of a descriptor whose page is mapped nowhere else.\<close>

lemma init_fd:
  assumes r: "user_runs kd ext c s" and k: "k < 32" and v: "vmap s (dir_of s c) (INDEX2FD (int k)) = Some (p, pm)" "pm AND 7 = 7"
    and o: "only_mapped s c (INDEX2FD (int k)) p"
  obtains t s' where "ustore32 (INDEX2FD (int k)) devid s = Ret () t" and "ustore32 (INDEX2FD (int k) + 8) mode t = Ret () s'"
    and "changes kd ext c s [fd_pg k \<mapsto> Some (p, pm)] s'" and "slot s' p 0 = devid" and "slot s' p 2 = mode"
    and "\<And>n. n < 1024 \<Longrightarrow> n \<noteq> 0 \<Longrightarrow> n \<noteq> 2 \<Longrightarrow> slot s' p n = slot s p n"
proof -
  let ?fd = "INDEX2FD (int k)"
  note F0 = fd_field [OF k, of 0, simplified] and F8 = fd_field [OF k, of 8, simplified]
  have P: "PGNUM (?fd + 8) = PGNUM ?fd" using F8(2) fd_pages(1) [OF k] by simp
  obtain t where t: "ustore32 ?fd devid s = Ret () t" "changes kd ext c s [PGNUM ?fd \<mapsto> Some (p, pm)] t"
    "\<And>n. n < 1024 \<Longrightarrow> slot t p n = (if n = unat (PGOFF ?fd) div 4 then devid else slot s p n)"
    by (rule changes_store [OF r F0(1,3) v o, of devid]) (rule that; blast)
  note T = changesD [OF t(2)]
  have "only_mapped t c ?fd p" by (rule only_mapped_after [OF t(2) o]) (simp split: if_splits)
  then have ot: "only_mapped t c (?fd + 8) p" unfolding only_mapped_def P .
  have "vmap t (dir_of t c) (?fd + 8) = Some (p, pm)" using T(7) [OF F8(3), of "Some (p, pm)"] P by (simp add: T(5))
  note st = changes_store [OF T(2) F8(1,3) this v(2) ot, of mode]
  obtain s' where s': "ustore32 (?fd + 8) mode t = Ret () s'"
    "changes kd ext c t [PGNUM (?fd + 8) \<mapsto> Some (p, pm)] s'"
    "\<And>n. n < 1024 \<Longrightarrow> slot s' p n = (if n = unat (PGOFF (?fd + 8)) div 4 then mode else slot t p n)"
    by (rule st) (rule that; blast)
  have "changes kd ext c s [fd_pg k \<mapsto> Some (p, pm)] s'"
    using changes_trans [OF t(2) s'(2)] P fd_pages(1) [OF k] by simp
  then show thesis using that [of t s'] t(1,3) s'(1,3) F0(4) F8(4) by simp
qed

section \<open>Making a pipe\<close>

lemma fd_open_changes:
  assumes g: "changes kd ext c s g s'" and k: "k < 32"
  shows "fd_open s' c k = (case g (fd_pg k) of Some m \<Rightarrow> m \<noteq> None | None \<Rightarrow> fd_open s c k)"
proof -
  note G = changesD [OF g] and P = fd_pages [OF k]
  show ?thesis
    using G(7) [OF good_va_PDX [OF P(3)]] G(8) [OF user_runsD(4) [OF G(1)] good_va_PDX [OF P(3)]] P(1)
    by (auto simp: fd_open_def same_page_def G(5) split: option.splits)
qed

lemma unmap_fd:
  assumes "user_runs kd ext c s" and "k < 32"
  obtains s' where "pipe_err1 (INDEX2FD (int k)) s = Ret () s'" and "pipe_err2 (INDEX2FD (int k)) s = Ret () s'"
    and "changes kd ext c s [fd_pg k \<mapsto> None] s'"
proof -
  obtain s' where "lib_sys_page_unmap 0 (INDEX2FD (int k)) s = Ret 0 s'" "changes kd ext c s [fd_pg k \<mapsto> None] s'"
    using changes_unmap [OF assms(1) fd_pages(3) [OF assms(2)]] fd_pages(1) [OF assms(2)] by metis
  then show thesis using that [of s'] by (simp add: pipe_err1_def pipe_err2_def kthen_def)
qed

lemma fd_closed_entry:
  assumes "k < 32" and "PGNUM va = fd_pg k" and "\<not> fd_open s c k"
  shows "vmap s (dir_of s c) va = None"
  using vmap_page [of va "INDEX2FD (int k)" s "dir_of s c"] fd_pages(1) [OF assms(1)] assms(2,3) by (simp add: fd_open_def del: not_None_eq)

lemma find_closed:
  assumes "k < 32" and "\<not> fd_open s c k" and "\<And>n. n < k \<Longrightarrow> fd_open s c n"
  shows "find (\<lambda>n. \<not> fd_open s c n) [0..<32] = Some k"
  using assms by (intro find_Some_iff [THEN iffD2] exI [of _ k]) (simp add: nth_upto del: upt_rec_numeral)

lemma fd_alloc_lowest:
  assumes "user_runs kd ext c s" and "k < 32" and "\<not> fd_open s c k" and "\<And>n. n < k \<Longrightarrow> fd_open s c n"
  shows "fd_alloc s = Ret (0, INDEX2FD (int k)) s"
  using fd_alloc_ok [OF assms(1)] find_closed [of k s c] assms(2-4) by simp

lemma shared_perm: "\<not> bad_perm SHARED" "SHARED OR PTE_P = SHARED"
  by (simp_all add: bad_perm_def)

text \<open>The two lowest closed descriptors, without left-over data pages.\<close>

definition free_pair :: "kstate \<Rightarrow> nat \<Rightarrow> nat \<Rightarrow> nat \<Rightarrow> bool" where
  "free_pair s c i j \<longleftrightarrow> i < j \<and> j < 32 \<and> \<not> fd_open s c i \<and> \<not> fd_open s c j \<and> (\<forall>n<j. n \<noteq> i \<longrightarrow> fd_open s c n) \<and>
     vmap s (dir_of s c) (INDEX2DATA (int i)) = None \<and> vmap s (dir_of s c) (INDEX2DATA (int j)) = None"

lemma free_pairD:
  assumes "free_pair s c i j"
  shows "i < j" and "j < 32" and "i < 32" and "\<not> fd_open s c i" and "\<not> fd_open s c j" and "\<And>n. n < j \<Longrightarrow> n \<noteq> i \<Longrightarrow> fd_open s c n"
    and "vmap s (dir_of s c) (INDEX2DATA (int i)) = None" and "vmap s (dir_of s c) (INDEX2DATA (int j)) = None"
  using assms by (auto simp: free_pair_def)

lemma pipe_descriptors:
  assumes r: "user_runs kd ext c s" and f: "free_pair s c i j"
  obtains (ok) p0 p1 s1 s2 where "fd_alloc s = Ret (0, INDEX2FD (int i)) s" and "lib_sys_page_alloc 0 (INDEX2FD (int i)) SHARED s = Ret 0 s1"
      and "fd_alloc s1 = Ret (0, INDEX2FD (int j)) s1" and "lib_sys_page_alloc 0 (INDEX2FD (int j)) SHARED s1 = Ret 0 s2"
      and "changes kd ext c s [fd_pg i \<mapsto> Some (p0, SHARED)] s1" and "changes kd ext c s1 [fd_pg j \<mapsto> Some (p1, SHARED)] s2"
      and "unused s p0" and "unused s1 p1"
  | (fail1) s1 where "fd_alloc s = Ret (0, INDEX2FD (int i)) s" and "lib_sys_page_alloc 0 (INDEX2FD (int i)) SHARED s = Ret (- E_NO_MEM) s1"
      and "changes kd ext c s Map.empty s1"
  | (fail2) p0 s1 s2 where "fd_alloc s = Ret (0, INDEX2FD (int i)) s" and "lib_sys_page_alloc 0 (INDEX2FD (int i)) SHARED s = Ret 0 s1"
      and "fd_alloc s1 = Ret (0, INDEX2FD (int j)) s1" and "lib_sys_page_alloc 0 (INDEX2FD (int j)) SHARED s1 = Ret (- E_NO_MEM) s2"
      and "changes kd ext c s [fd_pg i \<mapsto> Some (p0, SHARED)] s2"
proof -
  note F = free_pairD [OF f]
  note Pi = fd_pages [OF F(3)] and Pj = fd_pages [OF F(2)]
  have a: "fd_alloc s = Ret (0, INDEX2FD (int i)) s" by (rule fd_alloc_lowest [OF r F(3,4)]) (use F(1,6) in auto)
  show thesis
  proof (rule changes_alloc [OF r Pi(3) shared_perm(1)])
    fix s1 assume "lib_sys_page_alloc 0 (INDEX2FD (int i)) SHARED s = Ret (- E_NO_MEM) s1" "changes kd ext c s Map.empty s1"
    then show thesis using fail1 a by blast
  next
    fix p0 s1 assume 1: "lib_sys_page_alloc 0 (INDEX2FD (int i)) SHARED s = Ret 0 s1" "p0 \<in> free_pages s"
      "changes kd ext c s [PGNUM (INDEX2FD (int i)) \<mapsto> Some (p0, SHARED OR PTE_P)] s1"
    note c1 = 1(3) [unfolded Pi(1) shared_perm(2)]
    note D1 = changesD [OF c1]
    have op: "fd_open s1 c n = (n = i \<or> fd_open s c n)" if "n < 32" for n
      using fd_open_changes [OF c1 that] that F(3) by auto
    have b: "fd_alloc s1 = Ret (0, INDEX2FD (int j)) s1"
      by (rule fd_alloc_lowest [OF D1(2) F(2)]) (use op F in auto)
    show thesis
    proof (rule changes_alloc [OF D1(2) Pj(3) shared_perm(1)])
      fix s2 assume "lib_sys_page_alloc 0 (INDEX2FD (int j)) SHARED s1 = Ret (- E_NO_MEM) s2" "changes kd ext c s1 Map.empty s2"
      then show thesis using fail2 [OF a 1(1) b] changes_trans [OF c1] by fastforce
    next
      fix p1 s2 assume 2: "lib_sys_page_alloc 0 (INDEX2FD (int j)) SHARED s1 = Ret 0 s2" "p1 \<in> free_pages s1"
        "changes kd ext c s1 [PGNUM (INDEX2FD (int j)) \<mapsto> Some (p1, SHARED OR PTE_P)] s2"
      show thesis
        using ok [OF a 1(1) b 2(1) c1 2(3) [unfolded Pj(1) shared_perm(2)]] free_unused [OF r 1(2)] free_unused [OF D1(2) 2(2)] by blast
    qed
  qed
qed

lemma pipe_data:
  assumes r: "user_runs kd ext c s" and k: "i < 32" "j < 32" "i \<noteq> j" and o: "fd_open s c i"
  obtains (ok) p s1 s2 where "lib_sys_page_alloc 0 (INDEX2DATA (int i)) SHARED s = Ret 0 s1"
      and "lib_sys_page_map 0 (INDEX2DATA (int i)) 0 (INDEX2DATA (int j)) SHARED s1 = Ret 0 s2"
      and "changes kd ext c s [data_pg i \<mapsto> Some (p, SHARED), data_pg j \<mapsto> Some (p, SHARED)] s2"
      and "unused s p" and "\<And>n. n < 1024 \<Longrightarrow> slot s2 p n = 0"
  | (fail) s1 where "lib_sys_page_alloc 0 (INDEX2DATA (int i)) SHARED s = Ret (- E_NO_MEM) s1" and "changes kd ext c s Map.empty s1"
proof (rule changes_alloc [OF r fd_pages(4) [OF k(1)] shared_perm(1)])
  fix s1 assume "lib_sys_page_alloc 0 (INDEX2DATA (int i)) SHARED s = Ret (- E_NO_MEM) s1" "changes kd ext c s Map.empty s1"
  then show thesis using fail by blast
next
  note Pi = fd_pages [OF k(1)] and Pj = fd_pages [OF k(2)]
  fix p s1 assume 1: "lib_sys_page_alloc 0 (INDEX2DATA (int i)) SHARED s = Ret 0 s1" "p \<in> free_pages s"
    "changes kd ext c s [PGNUM (INDEX2DATA (int i)) \<mapsto> Some (p, SHARED OR PTE_P)] s1" "\<And>n. n < 1024 \<Longrightarrow> slot s1 p n = 0"
    "unat (pp_ref (pages s1 p)) \<le> 1"
  note c1 = 1(3) [unfolded Pi(2) shared_perm(2)]
  note D1 = changesD [OF c1]
  have v: "vmap s1 (dir_of s1 c) (INDEX2DATA (int i)) = Some (p, SHARED)"
    using D1(7) [OF good_va_PDX [OF Pi(4)], of "Some (p, SHARED)"] Pi(2) by (simp add: D1(5))
  have "fd_open s1 c i" using fd_open_changes [OF c1 k(1)] o k(1) by simp
  then have pr: "present (slot s1 (dir_of s1 c) (unat (PDX (INDEX2DATA (int j)))))"
    using vmap_table [of s1 "dir_of s1 c" "INDEX2FD (int i)"] same_table(2) [OF k(1,2)] by (simp add: fd_open_def del: not_None_eq)
  have room: "unat (pp_ref (pages s1 p)) < 65535" using 1(5) by simp
  show thesis
  proof (rule changes_map [OF D1(2) Pi(4) Pj(4) shared_perm(1) v _ room])
    fix s2 assume 2: "lib_sys_page_map 0 (INDEX2DATA (int i)) 0 (INDEX2DATA (int j)) SHARED s1 = Ret 0 s2"
      "changes kd ext c s1 [PGNUM (INDEX2DATA (int j)) \<mapsto> Some (p, SHARED OR PTE_P)] s2"
    note c2 = 2(2) [unfolded Pj(2) shared_perm(2)]
    have "same_page s1 s2 c (INDEX2DATA (int i))"
      using changesD(8) [OF c2 _ good_va_PDX [OF Pi(4)]] user_runsD(4) [OF D1(2)] Pi(2) k by simp
    then have "slot s2 p n = 0" if "n < 1024" for n using v 1(4) that by (simp add: same_page_def)
    then show thesis using ok [OF 1(1) 2(1)] changes_trans [OF c1 c2] free_unused [OF r 1(2)] by simp
  qed (use pr in simp_all)
qed

text \<open>The four stores into the two fresh descriptors.\<close>

lemma pipe_headers:
  assumes r: "user_runs kd ext c s" and k: "i < 32" "j < 32" "i \<noteq> j" and d: "p0 \<noteq> p1" "p \<noteq> p0" "p \<noteq> p1"
    and v: "vmap s (dir_of s c) (INDEX2FD (int i)) = Some (p0, SHARED)" "vmap s (dir_of s c) (INDEX2FD (int j)) = Some (p1, SHARED)"
    "vmap s (dir_of s c) (INDEX2DATA (int i)) = Some (p, SHARED)"
    and o: "only_mapped s c (INDEX2FD (int i)) p0" "only_mapped s c (INDEX2FD (int j)) p1"
  obtains s1 s2 s3 s4 where "ustore32 (INDEX2FD (int i)) DEVPIPE_ID s = Ret () s1" and "ustore32 (INDEX2FD (int i) + 8) O_RDONLY s1 = Ret () s2"
    and "ustore32 (INDEX2FD (int j)) DEVPIPE_ID s2 = Ret () s3" and "ustore32 (INDEX2FD (int j) + 8) O_WRONLY s3 = Ret () s4"
    and "changes kd ext c s [fd_pg i \<mapsto> Some (p0, SHARED), fd_pg j \<mapsto> Some (p1, SHARED)] s4"
    and "fd_device s4 c i DEVPIPE_ID" and "fd_device s4 c j DEVPIPE_ID"
    and "uword s4 c (INDEX2FD (int i) + 8) = Some O_RDONLY" and "uword s4 c (INDEX2FD (int j) + 8) = Some O_WRONLY"
    and "\<forall>n<1024. slot s4 p n = slot s p n"
proof -
  note Pi = fd_pages [OF k(1)] and Pj = fd_pages [OF k(2)] and c = user_runsD(4) [OF r]
  note pi = good_va_PDX [OF Pi(3)] good_va_PDX [OF Pi(4)] and pj = good_va_PDX [OF Pj(3)]
  have sh: "SHARED AND 7 = 7" by simp
  obtain s1 s2 where 1: "ustore32 (INDEX2FD (int i)) DEVPIPE_ID s = Ret () s1" "ustore32 (INDEX2FD (int i) + 8) O_RDONLY s1 = Ret () s2"
    "changes kd ext c s [fd_pg i \<mapsto> Some (p0, SHARED)] s2" "slot s2 p0 0 = DEVPIPE_ID" "slot s2 p0 2 = O_RDONLY"
    by (rule init_fd [OF r k(1) v(1) sh o(1), of DEVPIPE_ID O_RDONLY])
  note D1 = changesD [OF 1(3)]
  have v2: "vmap s2 (dir_of s2 c) (INDEX2FD (int i)) = Some (p0, SHARED)" "vmap s2 (dir_of s2 c) (INDEX2FD (int j)) = Some (p1, SHARED)"
    using D1(7) [OF pi(1), of "Some (p0, SHARED)"] D1(8) [OF c pj] v(2) Pi(1) Pj(1) k by (simp_all add: same_page_def D1(5))
  have o2: "only_mapped s2 c (INDEX2FD (int j)) p1"
    by (rule only_mapped_after [OF 1(3) o(2)]) (use d(1) in \<open>auto split: if_splits\<close>)
  obtain s3 s4 where 2: "ustore32 (INDEX2FD (int j)) DEVPIPE_ID s2 = Ret () s3" "ustore32 (INDEX2FD (int j) + 8) O_WRONLY s3 = Ret () s4"
    "changes kd ext c s2 [fd_pg j \<mapsto> Some (p1, SHARED)] s4" "slot s4 p1 0 = DEVPIPE_ID" "slot s4 p1 2 = O_WRONLY"
    by (rule init_fd [OF D1(2) k(2) v2(2) sh o2, of DEVPIPE_ID O_WRONLY])
  note D2 = changesD [OF 2(3)]
  have sp: "same_page s2 s4 c (INDEX2FD (int i))" "same_page s s2 c (INDEX2DATA (int i))" "same_page s2 s4 c (INDEX2DATA (int i))"
    using D2(8) [of c "INDEX2FD (int i)"] D1(8) [OF c pi(2)] D2(8) [of c "INDEX2DATA (int i)"] pi c Pi(1,2) k D1(4) by simp_all
  have v4: "vmap s4 (dir_of s4 c) (INDEX2FD (int i)) = Some (p0, SHARED)" "vmap s4 (dir_of s4 c) (INDEX2FD (int j)) = Some (p1, SHARED)"
    using D2(7) [OF pj, of "Some (p1, SHARED)"] sp(1) v2(1) Pj(1) by (simp_all add: same_page_def D2(5))
  have sl: "slot s4 p0 n = slot s2 p0 n" "slot s4 p n = slot s p n" if "n < 1024" for n
    using sp v2(1) v(3) that by (simp_all add: same_page_def D1(5))
  have w: "uword s4 c (INDEX2FD (int m) + a) = Some (slot s4 q (unat a div 4))"
    if "m < 32" "vmap s4 (dir_of s4 c) (INDEX2FD (int m)) = Some (q, SHARED)" "a = 0 \<or> a = 8" for m q a
  proof -
    have "vmap s4 (dir_of s4 c) (INDEX2FD (int m) + a) = Some (q, SHARED)"
      using vmap_page [of "INDEX2FD (int m) + a" "INDEX2FD (int m)"] fd_field(2) [OF that(1), of a] fd_pages(1) [OF that(1)] that(2,3) by auto
    then show ?thesis using fd_field(4) [OF that(1), of a] that(3) by (auto simp: uword_def)
  qed
  have "changes kd ext c s [fd_pg i \<mapsto> Some (p0, SHARED), fd_pg j \<mapsto> Some (p1, SHARED)] s4"
    using changes_trans [OF 1(3) 2(3)] by simp
  then show thesis
    using that [OF 1(1,2) 2(1,2)] w [OF k(1) v4(1), of 0] w [OF k(1) v4(1), of 8] w [OF k(2) v4(2), of 0] w [OF k(2) v4(2), of 8] v4 sl 1(4,5) 2(4,5) by (simp add: fd_device_def)
qed

lemma entry_was_none:
  assumes "free_pair s c i j" and "PGNUM va \<in> {fd_pg i, fd_pg j, data_pg i, data_pg j}"
  shows "vmap s (dir_of s c) va = None"
proof -
  note F = free_pairD [OF assms(1)]
  show ?thesis
    using assms(2) fd_closed_entry [OF F(3) _ F(4), of va] fd_closed_entry [OF F(2) _ F(5), of va]
      vmap_page [of va "INDEX2DATA (int i)" s "dir_of s c"] vmap_page [of va "INDEX2DATA (int j)" s "dir_of s c"]
      F(7,8) fd_pages(2) [OF F(3)] fd_pages(2) [OF F(2)] by fastforce
qed

text \<open>After a failure the descriptors that had been made are unmapped again.\<close>

lemma pipe_undone:
  assumes "changes kd ext c s g s'" and "free_pair s c i j" and "\<And>n m. g n = Some m \<Longrightarrow> n \<in> {fd_pg i, fd_pg j} \<and> m = None"
  shows "changes kd ext c s Map.empty s'"
  by (rule changes_drop [OF assms(1)]) (use assms(3) entry_was_none [OF assms(2)] in auto)

lemma pipe_no_second:
  assumes f: "free_pair s c i j"
    and a: "fd_alloc s = Ret (0, INDEX2FD (int i)) s" "lib_sys_page_alloc 0 (INDEX2FD (int i)) SHARED s = Ret 0 s1"
      "fd_alloc s1 = Ret (0, INDEX2FD (int j)) s1" "lib_sys_page_alloc 0 (INDEX2FD (int j)) SHARED s1 = Ret (- E_NO_MEM) s2"
    and g: "changes kd ext c s [fd_pg i \<mapsto> Some (p0, SHARED)] s2"
  shows "\<exists>s'. pipe s = Ret (- E_NO_MEM, None) s' \<and> changes kd ext c s Map.empty s'"
proof -
  obtain s3 where u: "pipe_err1 (INDEX2FD (int i)) s2 = Ret () s3" "changes kd ext c s2 [fd_pg i \<mapsto> None] s3"
    by (rule unmap_fd [OF changesD(2) [OF g] free_pairD(3) [OF f]])
  have "pipe s = Ret (- E_NO_MEM, None) s3" using a u(1) by (simp add: pipe_def kthen_def)
  moreover have "changes kd ext c s Map.empty s3" by (rule pipe_undone [OF changes_trans [OF g u(2)] f]) (auto split: if_splits)
  ultimately show ?thesis by blast
qed

lemma pipe_no_data:
  assumes f: "free_pair s c i j"
    and a: "fd_alloc s = Ret (0, INDEX2FD (int i)) s" "lib_sys_page_alloc 0 (INDEX2FD (int i)) SHARED s = Ret 0 s1"
      "fd_alloc s1 = Ret (0, INDEX2FD (int j)) s1" "lib_sys_page_alloc 0 (INDEX2FD (int j)) SHARED s1 = Ret 0 s2"
    and g: "changes kd ext c s [fd_pg i \<mapsto> Some (p0, SHARED)] s1" "changes kd ext c s1 [fd_pg j \<mapsto> Some (p1, SHARED)] s2"
    and b: "lib_sys_page_alloc 0 (INDEX2DATA (int i)) SHARED s2 = Ret (- E_NO_MEM) s3" "changes kd ext c s2 Map.empty s3"
  shows "\<exists>s'. pipe s = Ret (- E_NO_MEM, None) s' \<and> changes kd ext c s Map.empty s'"
proof -
  note F = free_pairD [OF f]
  obtain s4 where e2: "pipe_err2 (INDEX2FD (int j)) s3 = Ret () s4" "changes kd ext c s3 [fd_pg j \<mapsto> None] s4"
    by (rule unmap_fd [OF changesD(2) [OF b(2)] F(2)])
  obtain s5 where e1: "pipe_err1 (INDEX2FD (int i)) s4 = Ret () s5" "changes kd ext c s4 [fd_pg i \<mapsto> None] s5"
    by (rule unmap_fd [OF changesD(2) [OF e2(2)] F(3)])
  have "pipe s = Ret (- E_NO_MEM, None) s5" using a b(1) e1(1) e2(1) fd_pages(6) [OF F(3)] by (simp add: pipe_def kthen_def Let_def)
  moreover have "changes kd ext c s Map.empty s5"
    by (rule pipe_undone [OF changes_trans [OF changes_trans [OF changes_trans [OF changes_trans [OF g] b(2)] e2(2)] e1(2)] f]) (auto split: if_splits)
  ultimately show ?thesis by blast
qed

text \<open>When every allocation succeeds, the two descriptors share one data page.\<close>

lemma pipe_made:
  assumes r: "user_runs kd ext c s" and f: "free_pair s c i j"
    and a: "fd_alloc s = Ret (0, INDEX2FD (int i)) s" "lib_sys_page_alloc 0 (INDEX2FD (int i)) SHARED s = Ret 0 s1"
      "fd_alloc s1 = Ret (0, INDEX2FD (int j)) s1" "lib_sys_page_alloc 0 (INDEX2FD (int j)) SHARED s1 = Ret 0 s2"
    and g: "changes kd ext c s [fd_pg i \<mapsto> Some (p0, SHARED)] s1" "changes kd ext c s1 [fd_pg j \<mapsto> Some (p1, SHARED)] s2"
    and u: "unused s p0" "unused s1 p1" and ne: "p1 \<noteq> p0" and q: "p \<noteq> p0" "p \<noteq> p1"
    and b: "lib_sys_page_alloc 0 (INDEX2DATA (int i)) SHARED s2 = Ret 0 s3"
      "lib_sys_page_map 0 (INDEX2DATA (int i)) 0 (INDEX2DATA (int j)) SHARED s3 = Ret 0 s4"
      "changes kd ext c s2 [data_pg i \<mapsto> Some (p, SHARED), data_pg j \<mapsto> Some (p, SHARED)] s4"
  obtains s' where "pipe s = Ret (0, Some (int i, int j)) s'"
    and "changes kd ext c s [fd_pg i \<mapsto> Some (p0, SHARED), fd_pg j \<mapsto> Some (p1, SHARED),
        data_pg i \<mapsto> Some (p, SHARED), data_pg j \<mapsto> Some (p, SHARED)] s'"
    and "fd_device s' c i DEVPIPE_ID" and "fd_device s' c j DEVPIPE_ID"
    and "uword s' c (INDEX2FD (int i) + 8) = Some O_RDONLY" and "uword s' c (INDEX2FD (int j) + 8) = Some O_WRONLY"
    and "\<forall>n<1024. slot s' p n = slot s4 p n"
proof -
  note F = free_pairD [OF f] and H = changes_trans [OF changes_trans [OF g] b(3)]
  note Pi = fd_pages [OF F(3)] and Pj = fd_pages [OF F(2)]
  have ij: "i \<noteq> j" using F(1) by simp
  have "vmap s4 (dir_of s4 c) (INDEX2FD (int i)) = Some (p0, SHARED)" "vmap s4 (dir_of s4 c) (INDEX2FD (int j)) = Some (p1, SHARED)"
    "vmap s4 (dir_of s4 c) (INDEX2DATA (int i)) = Some (p, SHARED)"
    using changesD(7) [OF H good_va_PDX [OF Pi(3)]] changesD(7) [OF H good_va_PDX [OF Pj(3)]] changesD(7) [OF H good_va_PDX [OF Pi(4)]]
      Pi(1,2) Pj(1) F(1-3) by (simp_all add: changesD(5) [OF H])
  moreover have "only_mapped s4 c (INDEX2FD (int i)) p0"
    by (rule only_mapped_after [OF changes_trans [OF g(2) b(3)] only_mapped_fresh [OF g(1) [folded Pi(1)] u(1)]])
      (use ne q in \<open>auto split: if_splits\<close>)
  moreover have "only_mapped s4 c (INDEX2FD (int j)) p1"
    by (rule only_mapped_after [OF b(3) only_mapped_fresh [OF g(2) [folded Pj(1)] u(2)]]) (use q in \<open>auto split: if_splits\<close>)
  ultimately obtain t1 t2 t3 t4 where h: "ustore32 (INDEX2FD (int i)) DEVPIPE_ID s4 = Ret () t1" "ustore32 (INDEX2FD (int i) + 8) O_RDONLY t1 = Ret () t2"
    "ustore32 (INDEX2FD (int j)) DEVPIPE_ID t2 = Ret () t3" "ustore32 (INDEX2FD (int j) + 8) O_WRONLY t3 = Ret () t4"
    and k: "changes kd ext c s4 [fd_pg i \<mapsto> Some (p0, SHARED), fd_pg j \<mapsto> Some (p1, SHARED)] t4"
    and w: "fd_device t4 c i DEVPIPE_ID" "fd_device t4 c j DEVPIPE_ID"
    "uword t4 c (INDEX2FD (int i) + 8) = Some O_RDONLY" "uword t4 c (INDEX2FD (int j) + 8) = Some O_WRONLY"
    "\<forall>n<1024. slot t4 p n = slot s4 p n"
    by (rule pipe_headers [OF changesD(2) [OF b(3)] F(3,2) ij ne [symmetric] q])
  have "pipe s = Ret (0, Some (int i, int j)) t4"
    using a b(1,2) h Pi(5,6) Pj(5,6) by (simp add: pipe_def kthen_def Let_def)
  moreover have "([fd_pg i \<mapsto> Some (p0, SHARED)] ++ [fd_pg j \<mapsto> Some (p1, SHARED)]) ++ [data_pg i \<mapsto> Some (p, SHARED), data_pg j \<mapsto> Some (p, SHARED)]
      ++ [fd_pg i \<mapsto> Some (p0, SHARED), fd_pg j \<mapsto> Some (p1, SHARED)] =
      [fd_pg i \<mapsto> Some (p0, SHARED), fd_pg j \<mapsto> Some (p1, SHARED), data_pg i \<mapsto> Some (p, SHARED), data_pg j \<mapsto> Some (p, SHARED)]"
    using F(1-3) by (auto simp: fun_eq_iff)
  ultimately show thesis using that [of t4] changes_trans [OF H k] w by simp
qed



end
