(* ===== verification/Ipc_Lib.thy ===== *)
theory Ipc_Lib
  imports Fd_Layer Kernel_Theorems
begin

text \<open>
  Processes and messages at user level: \<^verbatim>\<open>lib/ipc.c\<close>, \<^verbatim>\<open>lib/wait.c\<close>, \<^verbatim>\<open>lib/exit.c\<close>,
  \<^verbatim>\<open>lib/libmain.c\<close>. \<open>me\<close> is the slot of \<^verbatim>\<open>thisenv\<close>.

  A system call that yields does not come back in the modelled run, so one round of a loop that yields is
  enough; what the library does when the kernel resumes the environment is a definition of its own
  (\<open>ipc_recv_rest\<close>).
\<close>

section \<open>Definitions\<close>

text \<open>A null page is passed as \<^verbatim>\<open>UTOP\<close>.\<close>

definition ipc_page :: "u32 \<Rightarrow> u32" where
  "ipc_page pg = (if pg = 0 then UTOP else pg)"

text \<open>The result, and what is stored through \<^verbatim>\<open>from_env_store\<close> and \<^verbatim>\<open>perm_store\<close> if they are not null.\<close>

definition ipc_recv_rest :: "nat \<Rightarrow> int \<Rightarrow> (kstate, int \<times> u32 \<times> u32) op" where
  "ipc_recv_rest me ret =
     (if ret < 0 then kret (ret, 0, 0)
      else kget (\<lambda>s. (sint (env_ipc_value (envs s me)), env_ipc_from (envs s me), env_ipc_perm (envs s me))))"

definition ipc_recv :: "nat \<Rightarrow> u32 \<Rightarrow> (kstate, int \<times> u32 \<times> u32) op" where
  "ipc_recv me pg = kbind (lib_sys_ipc_recv (ipc_page pg)) (ipc_recv_rest me)"

primrec ipc_send_loop :: "nat \<Rightarrow> u32 \<Rightarrow> u32 \<Rightarrow> u32 \<Rightarrow> u32 \<Rightarrow> (kstate, unit) op" where
  "ipc_send_loop 0 to_env val pg perm = kret ()"
| "ipc_send_loop (Suc k) to_env val pg perm =
     kbind (lib_sys_ipc_try_send to_env val pg perm) (\<lambda>ret.
     if ret < 0
     then if ret \<noteq> - E_IPC_NOT_RECV then kpanic ''At ipc_send''
          else kthen lib_sys_yield (ipc_send_loop k to_env val pg perm)
     else kret ())"

definition ipc_send :: "u32 \<Rightarrow> u32 \<Rightarrow> u32 \<Rightarrow> u32 \<Rightarrow> (kstate, unit) op" where
  "ipc_send to_env val pg perm = ipc_send_loop 1 to_env val (ipc_page pg) perm"

definition ipc_find_env :: "env_type \<Rightarrow> (kstate, u32) op" where
  "ipc_find_env type = kget (\<lambda>s. case find (\<lambda>i. env_type (envs s i) = type) [0..<NENV] of
     Some i \<Rightarrow> env_id (envs s i) | None \<Rightarrow> 0)"

primrec wait_loop :: "nat \<Rightarrow> u32 \<Rightarrow> (kstate, unit) op" where
  "wait_loop 0 envid = kret ()"
| "wait_loop (Suc k) envid =
     kbind (kget (\<lambda>s. envs s (ENVX envid))) (\<lambda>e.
     if env_id e = envid \<and> env_status e \<noteq> ENV_FREE then kthen lib_sys_yield (wait_loop k envid) else kret ())"

definition wait :: "u32 \<Rightarrow> (kstate, unit) op" where
  "wait envid = kthen (kassert (envid \<noteq> 0)) (wait_loop 1 envid)"

definition lib_exit :: "dev list \<Rightarrow> (kstate, unit) op" where
  "lib_exit devtab = kthen (close_all devtab) (kthen (lib_sys_env_destroy 0) (kret ()))"

text \<open>\<open>umain\<close> is the program; it learns the slot of its environment.\<close>

definition libmain :: "dev list \<Rightarrow> (nat \<Rightarrow> (kstate, unit) op) \<Rightarrow> (kstate, unit) op" where
  "libmain devtab umain = kbind lib_sys_getenvid (\<lambda>i. kthen (umain (ENVX (word_of_int i))) (lib_exit devtab))"

section \<open>Sending and receiving\<close>

text \<open>A send to an environment that waits, from the call to what the receiver's library returns.\<close>

lemma ipc_send_ok:
  assumes "in_syscall kd ext c s" and "names to_env c s = Some d" and "env_ipc_recving (envs s d)"
    and "\<And>p. unat (pp_ref (pages s p)) < 65535" and "ipc_page pg < UTOP \<Longrightarrow> unat (PDX (env_ipc_dstva (envs s d))) < UPDES"
    and "sys_ipc_try_send to_env val (ipc_page pg) perm s = Ret r s'" and "0 \<le> r"
  shows "ipc_send to_env val pg perm s = Ret () s'"
  using assms(6,7) by (simp add: ipc_send_def lib_sys_ipc_try_send_def usyscall_def syscall_def)



end
