(* ===== verification/Cmd_Line.thy ===== *)
theory Cmd_Line
  imports Lib_String
begin

text \<open>
  Taking command lines apart: the options of \<^verbatim>\<open>lib/args.c\<close>, the words of a monitor command
  (\<^verbatim>\<open>runcmd\<close> of \<^verbatim>\<open>kern/monitor.c\<close>) and the tokens of a shell command (\<^verbatim>\<open>user/sh.c\<close>). The
  tokenizers work in the line itself, over the byte memory of \<open>Lib_String\<close>: they overwrite what ends a
  word with null bytes and hand out pointers. Each is compared with a reference function on lists.
\<close>

section \<open>Definitions\<close>

subsection \<open>Options\<close>

text \<open>\<open>a_argv\<close> is the array up to its null pointer, so that \<^verbatim>\<open>*args->argc\<close> is its length; a pointer to a
  string is the string, \<open>None\<close> the null pointer.\<close>

record Argstate =
  a_argv :: "u8 list list"
  a_curarg :: "u8 list option"
  a_argvalue :: "u8 list option"

definition argstart :: "u8 list list \<Rightarrow> Argstate" where
  "argstart argv = \<lparr>a_argv = argv, a_curarg = (if length argv > 1 then Some [] else None), a_argvalue = None\<rparr>"

text \<open>The move of the array down by one from its second element.\<close>

definition shift_args :: "u8 list list \<Rightarrow> u8 list list" where
  "shift_args argv = take 1 argv @ drop 2 argv"

definition argnext :: "Argstate \<Rightarrow> int \<times> Argstate" where
  "argnext args0 =
     (let args = args0\<lparr>a_argvalue := None\<rparr>;
          take_char = (\<lambda>a. case a_curarg a of
             Some (c # cs) \<Rightarrow> (uint c, a\<lparr>a_curarg := Some cs\<rparr>) | _ \<Rightarrow> (- 1, a\<lparr>a_curarg := None\<rparr>))
      in case a_curarg args of
           None \<Rightarrow> (- 1, args)
         | Some cur \<Rightarrow>
             if cur = []
             then if length (a_argv args) = 1 \<or> take 1 (a_argv args ! 1) \<noteq> [45] \<or> length (a_argv args ! 1) = 1
                  then (- 1, args\<lparr>a_curarg := None\<rparr>)
                  else let cur1 = drop 1 (a_argv args ! 1);
                           args1 = args\<lparr>a_curarg := Some cur1, a_argv := shift_args (a_argv args)\<rparr>
                       in if cur1 = [45] then (- 1, args1\<lparr>a_curarg := None\<rparr>) else take_char args1
             else take_char args)"

definition argnextvalue :: "Argstate \<Rightarrow> u8 list option \<times> Argstate" where
  "argnextvalue args =
     (case a_curarg args of
        None \<Rightarrow> (None, args)
      | Some cur \<Rightarrow>
          let args' = (if cur \<noteq> [] then args\<lparr>a_argvalue := Some cur, a_curarg := Some []\<rparr>
             else if length (a_argv args) > 1
             then args\<lparr>a_argvalue := Some (a_argv args ! 1), a_argv := shift_args (a_argv args)\<rparr>
             else args\<lparr>a_argvalue := None, a_curarg := None\<rparr>)
          in (a_argvalue args', args'))"

definition argvalue :: "Argstate \<Rightarrow> u8 list option \<times> Argstate" where
  "argvalue args = (case a_argvalue args of Some v \<Rightarrow> (Some v, args) | None \<Rightarrow> argnextvalue args)"

subsection \<open>Words of a monitor command\<close>

text \<open>\<^verbatim>\<open>strchr(WHITESPACE, c)\<close> and \<^verbatim>\<open>strchr(SYMBOLS, c)\<close>.\<close>

definition is_white :: "u8 \<Rightarrow> bool" where
  "is_white c \<longleftrightarrow> c \<in> {9, 13, 10, 32}"

definition is_symbol :: "u8 \<Rightarrow> bool" where
  "is_symbol c \<longleftrightarrow> c \<in> {60, 124, 62, 38, 59, 40, 41}"

partial_function (option) gobble :: "u32 \<Rightarrow> mem \<Rightarrow> (u32 \<times> mem) option" where
  "gobble s m = (if m s \<noteq> 0 \<and> is_white (m s) then gobble (s + 1) (m(s := 0)) else Some (s, m))"

partial_function (option) scan_word :: "(u8 \<Rightarrow> bool) \<Rightarrow> mem \<Rightarrow> u32 \<Rightarrow> u32 option" where
  "scan_word stop m s = (if m s \<noteq> 0 \<and> \<not> stop (m s) then scan_word stop m (s + 1) else Some s)"

text \<open>The parsing loop; no list of arguments when there are too many.\<close>

partial_function (option) parse_args :: "u32 \<Rightarrow> u32 list \<Rightarrow> mem \<Rightarrow> (u32 list option \<times> mem) option" where
  "parse_args buf argv m0 = Option.bind (gobble buf m0) (\<lambda>(p, m).
     if m p = 0 then Some (Some argv, m)
     else if length argv = 15 then Some (None, m)
     else Option.bind (scan_word is_white m p) (\<lambda>q. parse_args q (argv @ [p]) m))"

subsection \<open>Tokens of the shell\<close>

text \<open>The result and the new values of \<^verbatim>\<open>*p1\<close> and \<^verbatim>\<open>*p2\<close>.\<close>

definition gettoken_at :: "u32 \<Rightarrow> u32 \<Rightarrow> u32 \<Rightarrow> mem \<Rightarrow> (int \<times> u32 \<times> u32 \<times> mem) option" where
  "gettoken_at s0 p1 p2 m0 =
     (if s0 = 0 then Some (0, p1, p2, m0)
      else Option.bind (gobble s0 m0) (\<lambda>(s, m).
        if m s = 0 then Some (0, 0, 0, m)
        else if is_symbol (m s) then Some (uint (m s), s, s + 1, m(s := 0))
        else Option.bind (scan_word (\<lambda>c. is_white c \<or> is_symbol c) m s) (\<lambda>q. Some (119, s, q, m))))"

record lexer =
  lx_nc :: int
  lx_np1 :: u32
  lx_np2 :: u32

text \<open>\<^verbatim>\<open>gettoken(s, 0)\<close> and \<^verbatim>\<open>gettoken(0, &t)\<close>; the latter returns the token that was found before.\<close>

definition gettoken_start :: "u32 \<Rightarrow> lexer \<Rightarrow> mem \<Rightarrow> (lexer \<times> mem) option" where
  "gettoken_start s l m0 = Option.bind (gettoken_at s (lx_np1 l) (lx_np2 l) m0) (\<lambda>(nc, np1, np2, m).
     Some (\<lparr>lx_nc = nc, lx_np1 = np1, lx_np2 = np2\<rparr>, m))"

definition gettoken :: "lexer \<Rightarrow> mem \<Rightarrow> (int \<times> u32 \<times> lexer \<times> mem) option" where
  "gettoken l m0 = Option.bind (gettoken_at (lx_np2 l) (lx_np1 l) (lx_np2 l) m0) (\<lambda>(nc, np1, np2, m).
     Some (lx_nc l, lx_np1 l, \<lparr>lx_nc = nc, lx_np1 = np1, lx_np2 = np2\<rparr>, m))"

text \<open>All tokens of a line, as the loop of the shell's \<^verbatim>\<open>runcmd\<close> asks for them.\<close>

partial_function (option) shell_tokens :: "lexer \<Rightarrow> mem \<Rightarrow> ((int \<times> u32) list \<times> mem) option" where
  "shell_tokens l0 m0 = Option.bind (gettoken l0 m0) (\<lambda>(c, t, l, m).
     if c = 0 then Some ([], m)
     else Option.bind (shell_tokens l m) (\<lambda>(ts, m'). Some ((c, t) # ts, m')))"

section \<open>Options\<close>

text \<open>The options and the remaining arguments: every word that starts with a minus sign and goes on stands
  for its characters, up to the first other word or behind \<^verbatim>\<open>--\<close>.\<close>

fun options :: "u8 list list \<Rightarrow> u8 list \<times> u8 list list" where
  "options [] = ([], [])"
| "options (w # ws) =
     (if take 1 w \<noteq> [45] \<or> length w = 1 then ([], w # ws)
      else if w = [45, 45] then ([], ws)
      else let (os, rest) = options ws in (drop 1 w @ os, rest))"

text \<open>\<^verbatim>\<open>while ((r = argnext(&args)) >= 0)\<close>, with the characters it sees.\<close>

partial_function (option) all_args :: "Argstate \<Rightarrow> (int list \<times> Argstate) option" where
  "all_args args = (let (r, args') = argnext args
     in if r < 0 then Some ([], args') else Option.bind (all_args args') (\<lambda>(rs, a). Some (r # rs, a)))"

lemma uint_nonneg [simp]: "\<not> uint (c :: u8) < 0"
  by (simp add: not_less)

lemma all_args_cur:
  assumes "\<And>v. all_args \<lparr>a_argv = A, a_curarg = Some [], a_argvalue = v\<rparr> = Some (rs, b)"
  shows "all_args \<lparr>a_argv = A, a_curarg = Some cs, a_argvalue = v\<rparr> = Some (map uint cs @ rs, b)"
proof (induction cs arbitrary: v)
  case Nil
  then show ?case using assms by simp
next
  case (Cons c cs)
  have "argnext \<lparr>a_argv = A, a_curarg = Some (c # cs), a_argvalue = v\<rparr> = (uint c, \<lparr>a_argv = A, a_curarg = Some cs, a_argvalue = None\<rparr>)"
    by (simp add: argnext_def)
  then show ?case using Cons.IH by (simp add: all_args.simps)
qed

lemma all_args_options:
  "all_args \<lparr>a_argv = a0 # ws, a_curarg = Some [], a_argvalue = v\<rparr> =
     Some (map uint (fst (options ws)), \<lparr>a_argv = a0 # snd (options ws), a_curarg = None, a_argvalue = None\<rparr>)"
proof (induction ws arbitrary: v rule: options.induct)
  case 1
  then show ?case by (simp add: all_args.simps argnext_def)
next
  case (2 w ws)
  show ?case
  proof (cases "take 1 w \<noteq> [45] \<or> length w = 1 \<or> w = [45, 45]")
    case True
    then show ?thesis by (auto simp: all_args.simps [of "\<lparr>a_argv = a0 # w # ws, a_curarg = Some [], a_argvalue = v\<rparr>"] argnext_def shift_args_def)
  next
    case False
    then obtain c cs where w: "w = 45 # c # cs" by (cases w; cases "tl w") auto
    have n: "argnext \<lparr>a_argv = a0 # w # ws, a_curarg = Some [], a_argvalue = v\<rparr> =
        (uint c, \<lparr>a_argv = a0 # ws, a_curarg = Some cs, a_argvalue = None\<rparr>)"
      using False by (simp add: w argnext_def shift_args_def Let_def)
    have "all_args \<lparr>a_argv = a0 # ws, a_curarg = Some cs, a_argvalue = None\<rparr> =
        Some (map uint cs @ map uint (fst (options ws)), \<lparr>a_argv = a0 # snd (options ws), a_curarg = None, a_argvalue = None\<rparr>)"
      by (rule all_args_cur) (use 2 False in simp)
    then show ?thesis
      unfolding all_args.simps [of "\<lparr>a_argv = a0 # w # ws, a_curarg = Some [], a_argvalue = v\<rparr>"] n
      using False by (auto simp: w case_prod_beta)
  qed
qed

section \<open>Strings in memory\<close>

lemma cstring_cong: "(\<And>i. i \<le> length xs \<Longrightarrow> m' (p + of_nat i) = m (p + of_nat i)) \<Longrightarrow> cstring m' p xs = cstring m p xs"
proof (induction xs arbitrary: p)
  case Nil
  then show ?case using Nil.prems [of 0] by simp
next
  case (Cons x xs)
  have "cstring m' (p + 1) xs = cstring m (p + 1) xs"
    by (rule Cons.IH) (use Cons.prems [of "Suc i" for i] in \<open>simp add: algebra_simps\<close>)
  then show ?case using Cons.prems [of 0] by simp
qed

lemma cstring_append: "cstring m p (xs @ ys) \<longleftrightarrow> (\<forall>i<length xs. xs ! i \<noteq> 0 \<and> m (p + of_nat i) = xs ! i) \<and> cstring m (p + of_nat (length xs)) ys"
proof (induction xs arbitrary: p)
  case (Cons x xs)
  have "(\<forall>i<length (x # xs). P i) \<longleftrightarrow> P 0 \<and> (\<forall>i<length xs. P (Suc i))" for P by (simp add: All_less_Suc2)
  then show ?case using Cons.IH [of "p + 1"] by (auto simp: algebra_simps)
qed simp

text \<open>Addresses within a string are different.\<close>

lemma addr_inj: "i < 4294967296 \<Longrightarrow> j < 4294967296 \<Longrightarrow> p + of_nat i = p + of_nat j \<longleftrightarrow> i = j" for p :: u32
proof
  assume a: "i < 4294967296" "j < 4294967296" "p + of_nat i = p + of_nat j"
  then have "(of_nat i :: u32) = of_nat j" by simp
  then have "unat (of_nat i :: u32) = unat (of_nat j :: u32)" by simp
  then show "i = j" using a(1,2) by (simp only: unat_of_nat32)
qed simp

definition untouched :: "u32 \<Rightarrow> nat \<Rightarrow> mem \<Rightarrow> mem \<Rightarrow> bool" where
  "untouched p n m m' \<longleftrightarrow> (\<forall>a. (\<forall>i<n. a \<noteq> p + of_nat i) \<longrightarrow> m' a = m a)"

lemma gobble_ok:
  assumes "cstring m p s" and "length s < 4294967296"
  shows "\<exists>m'. gobble p m = Some (p + of_nat (length (takeWhile is_white s)), m') \<and>
    untouched p (length (takeWhile is_white s)) m m' \<and>
    (\<forall>i<length (takeWhile is_white s). m' (p + of_nat i) = 0) \<and>
    cstring m' (p + of_nat (length (takeWhile is_white s))) (dropWhile is_white s)"
  using assms
proof (induction s arbitrary: p m)
  case Nil
  then show ?case by (simp add: gobble.simps untouched_def)
next
  case (Cons x s)
  show ?case
  proof (cases "is_white x")
    case False
    then show ?thesis using Cons.prems by (simp add: gobble.simps untouched_def)
  next
    case True
    let ?n = "length (takeWhile is_white s)"
    have ne: "p + 1 + of_nat i \<noteq> p" if "i \<le> length s" for i
      using addr_inj [of "Suc i" 0 p] that Cons.prems(2) by (simp add: algebra_simps)
    have "cstring (m(p := 0)) (p + 1) s"
      using cstring_cong [of s "m(p := 0)" "p + 1" m] ne Cons.prems(1) by simp
    moreover have "length s < 4294967296" using Cons.prems(2) by simp
    ultimately obtain m' where m': "gobble (p + 1) (m(p := 0)) = Some (p + 1 + of_nat ?n, m')"
      "untouched (p + 1) ?n (m(p := 0)) m'" "\<forall>i<?n. m' (p + 1 + of_nat i) = 0" "cstring m' (p + 1 + of_nat ?n) (dropWhile is_white s)"
      using Cons.IH by blast
    have g: "gobble p m = Some (p + of_nat (Suc ?n), m')"
      using True Cons.prems(1) m'(1) by (simp add: gobble.simps [of p m] algebra_simps)
    have l: "?n \<le> length s" by (rule length_takeWhile_le)
    have "m' p = 0" using m'(2) ne l unfolding untouched_def by (metis fun_upd_same less_imp_le order_trans)
    then have z: "\<forall>i<Suc ?n. m' (p + of_nat i) = 0" using m'(3) by (auto simp: less_Suc_eq_0_disj algebra_simps)
    have "untouched p (Suc ?n) m m'"
      unfolding untouched_def
    proof (intro allI impI)
      fix a assume a: "\<forall>i<Suc ?n. a \<noteq> p + of_nat i"
      then have "a \<noteq> p" "\<forall>i<?n. a \<noteq> p + 1 + of_nat i" using spec [OF a, of 0] by (auto simp: algebra_simps dest: spec [of _ "Suc _"])
      then show "m' a = m a" using m'(2) by (simp add: untouched_def)
    qed
    then show ?thesis using g z m'(4) True by (auto simp: algebra_simps)
  qed
qed

lemma scan_word_ok:
  "cstring m p s \<Longrightarrow> scan_word stop m p = Some (p + of_nat (length (takeWhile (\<lambda>c. \<not> stop c) s)))"
proof (induction s arbitrary: p)
  case Nil
  then show ?case by (simp add: scan_word.simps)
next
  case (Cons x s)
  then show ?case by (cases "stop x") (simp_all add: scan_word.simps [of stop m p] algebra_simps)
qed

section \<open>Words\<close>

abbreviation plain :: "(u8 \<Rightarrow> bool) \<Rightarrow> u8 list \<Rightarrow> u8 list" where
  "plain stop \<equiv> takeWhile (\<lambda>c. \<not> stop c)"

abbreviation behind :: "(u8 \<Rightarrow> bool) \<Rightarrow> u8 list \<Rightarrow> u8 list" where
  "behind stop \<equiv> dropWhile (\<lambda>c. \<not> stop c)"

lemma dropWhile_starts: "dropWhile P s = c # cs \<Longrightarrow> \<not> P c"
  by (metis hd_dropWhile list.distinct(1) list.sel(1))

lemma behind_shorter: "dropWhile P s = c # cs \<Longrightarrow> \<not> stop c \<Longrightarrow> length (behind stop (c # cs)) < length s"
  using length_dropWhile_le [of P s] length_dropWhile_le [of "\<lambda>c. \<not> stop c" cs] by simp

text \<open>The words of a line.\<close>

function words :: "u8 list \<Rightarrow> u8 list list" where
  "words s = (case dropWhile is_white s of [] \<Rightarrow> []
     | c # cs \<Rightarrow> plain is_white (c # cs) # words (behind is_white (c # cs)))"
  by pat_completeness auto
termination
proof (relation "measure length")
  fix s c and cs :: "u8 list"
  assume "dropWhile is_white s = c # cs"
  then show "(behind is_white (c # cs), s) \<in> measure length"
    unfolding in_measure by (rule behind_shorter) (rule dropWhile_starts, fact)
qed (rule wf_measure)

declare words.simps [simp del]

lemma cstring_split:
  assumes "cstring m p (xs @ ys)" and "m' (p + of_nat (length xs)) = 0" and "untouched (p + of_nat (length xs)) n m m'"
    and "length xs + n < 4294967296" and "0 \<notin> set xs"
  shows "cstring m' p xs"
proof -
  have "m' (p + of_nat i) = xs ! i" if i: "i < length xs" for i
  proof -
    have "p + of_nat i \<noteq> p + of_nat (length xs) + of_nat k" if "k < n" for k
      using addr_inj [of i "length xs + k" p] i that assms(4) by (simp add: algebra_simps)
    then have "m' (p + of_nat i) = m (p + of_nat i)" using assms(3) by (simp add: untouched_def)
    then show ?thesis using assms(1) i by (simp add: cstring_append)
  qed
  then show ?thesis using assms(2,5) cstring_append [of m' p xs "[]"] nth_mem by fastforce
qed

lemma cstring_no_zero: "cstring m p s \<Longrightarrow> 0 \<notin> set s"
  by (induction s arbitrary: p) auto

lemma untouched_trans:
  assumes "untouched p n m m1" and "untouched (p + of_nat n) k m1 m2"
  shows "untouched p (n + k) m m2"
  unfolding untouched_def
proof (intro allI impI)
  fix a assume a: "\<forall>i<n + k. a \<noteq> p + of_nat i"
  then have "\<forall>i<k. a \<noteq> p + of_nat n + of_nat i" using spec [OF a, of "n + i" for i] by (auto simp: algebra_simps)
  then show "m2 a = m a" using assms a by (simp add: untouched_def)
qed

lemma untouched_mono: "untouched p n m m' \<Longrightarrow> n \<le> k \<Longrightarrow> untouched p k m m'"
  by (auto simp: untouched_def)

text \<open>One word: blanks are overwritten, the word is found.\<close>

lemma next_word:
  assumes "cstring m p s" and "length s < 4294967296" and "dropWhile is_white s = c # cs"
  shows "\<exists>m' n. gobble p m = Some (p + of_nat n, m') \<and> untouched p n m m' \<and> (\<forall>i<n. m' (p + of_nat i) = 0) \<and>
    n + length (c # cs) = length s \<and> cstring m' (p + of_nat n) (c # cs) \<and> m' (p + of_nat n) = c \<and> c \<noteq> 0"
proof -
  obtain m' where m': "gobble p m = Some (p + of_nat (length (takeWhile is_white s)), m')"
    "untouched p (length (takeWhile is_white s)) m m'" "\<forall>i<length (takeWhile is_white s). m' (p + of_nat i) = 0"
    "cstring m' (p + of_nat (length (takeWhile is_white s))) (c # cs)" using gobble_ok [OF assms(1,2)] assms(3) by auto
  have "length (takeWhile is_white s) + length (c # cs) = length s"
    using assms(3) by (metis length_append takeWhile_dropWhile_id)
  then show ?thesis using m' by (intro exI [of _ m'] exI [of _ "length (takeWhile is_white s)"]) auto
qed

lemma no_word:
  assumes "cstring m p s" and "length s < 4294967296" and "dropWhile is_white s = []"
  shows "\<exists>m'. gobble p m = Some (p + of_nat (length s), m') \<and> untouched p (length s) m m' \<and> m' p = 0 \<and> m' (p + of_nat (length s)) = 0"
proof -
  have "takeWhile is_white s = s" using assms(3) by (metis append_Nil2 takeWhile_dropWhile_id)
  from gobble_ok [OF assms(1,2), unfolded this assms(3)]
  obtain m' where "gobble p m = Some (p + of_nat (length s), m')" "untouched p (length s) m m'" "\<forall>i<length s. m' (p + of_nat i) = 0"
    "m' (p + of_nat (length s)) = 0" by auto
  then show ?thesis by (cases s) (auto dest: spec [of _ 0])
qed

lemma first_blank:
  assumes "dropWhile is_white s = c # cs" and "n + length (c # cs) = length s" and "s \<noteq> []" and "is_white (hd s)"
  shows "0 < n"
proof (rule ccontr)
  assume "\<not> 0 < n"
  with assms have "length (dropWhile is_white (tl s)) = length s" by (cases s) auto
  then show False using length_dropWhile_le [of is_white "tl s"] assms(3) by (cases s) auto
qed

lemma parse_args_ok:
  "cstring m p s \<Longrightarrow> length s < 4294967296 \<Longrightarrow> length argv \<le> 15 \<Longrightarrow>
    \<exists>r m'. parse_args p argv m = Some (r, m') \<and> untouched p (length s) m m' \<and>
      (case r of None \<Rightarrow> length argv + length (words s) > 15
       | Some av \<Rightarrow> (\<exists>ps. av = argv @ ps \<and> list_all2 (cstring m') ps (words s)) \<and> length argv + length (words s) \<le> 15 \<and>
           (s = [] \<or> is_white (hd s) \<longrightarrow> m' p = 0))"
proof (induction "length s" arbitrary: s p m argv rule: less_induct)
  case less
  show ?case
  proof (cases "dropWhile is_white s")
    case Nil
    obtain m' where "gobble p m = Some (p + of_nat (length s), m')" "untouched p (length s) m m'" "m' p = 0" "m' (p + of_nat (length s)) = 0"
      using no_word [OF less.prems(1,2) Nil] by blast
    moreover have "words s = []" by (subst words.simps) (simp only: Nil list.case)
    ultimately show ?thesis using less.prems(3) by (simp add: parse_args.simps [of p])
  next
    case (Cons c cs)
    obtain m1 n where g: "gobble p m = Some (p + of_nat n, m1)" "untouched p n m m1" "\<forall>i<n. m1 (p + of_nat i) = 0"
      "n + length (c # cs) = length s" "cstring m1 (p + of_nat n) (c # cs)" "m1 (p + of_nat n) = c" "c \<noteq> 0"
      using next_word [OF less.prems(1,2) Cons] by blast
    let ?w = "plain is_white (c # cs)" and ?r = "behind is_white (c # cs)"
    have c: "\<not> is_white c" using dropWhile_starts [OF Cons] .
    have W: "words s = ?w # words ?r" by (simp add: words.simps [of s] Cons)
    have wr: "?w @ ?r = c # cs" by (rule takeWhile_dropWhile_id)
    have len: "length ?w + length ?r = length (c # cs)" using wr by (metis length_append)
    show ?thesis
    proof (cases "length argv = 15")
      case True
      then have "parse_args p argv m = Some (None, m1)" using g(1,6,7) by (simp add: parse_args.simps [of p])
      then show ?thesis using True W untouched_mono [OF g(2), of "length s"] g(4) by auto
    next
      case False
      let ?p = "p + of_nat n"
      let ?q = "?p + of_nat (length ?w)"
      have cq: "cstring m1 ?q ?r" using g(5) cstring_append [of m1 ?p ?w ?r] unfolding wr by blast
      have lr: "length ?r < length s" by (rule behind_shorter [where stop = is_white, OF Cons c])
      from less.hyps [OF lr cq, of "argv @ [?p]"] less.prems(2,3) lr False obtain r m' where
        i: "parse_args ?q (argv @ [?p]) m1 = Some (r, m')" "untouched ?q (length ?r) m1 m'"
        "case r of None \<Rightarrow> length (argv @ [?p]) + length (words ?r) > 15
         | Some av \<Rightarrow> (\<exists>ps. av = (argv @ [?p]) @ ps \<and> list_all2 (cstring m') ps (words ?r)) \<and> length (argv @ [?p]) + length (words ?r) \<le> 15 \<and>
             (?r = [] \<or> is_white (hd ?r) \<longrightarrow> m' ?q = 0)" by fastforce
      have pa: "parse_args p argv m = Some (r, m')"
        using g(1,6,7) False i(1) scan_word_ok [OF g(5), of is_white] by (simp add: parse_args.simps [of p argv m])
      have o: "untouched p (length s) m m'"
      proof -
        have "untouched ?p (length ?w + length ?r) m1 m'"
          using i(2) untouched_trans [of ?p "length ?w" m1 m1 "length ?r" m'] by (simp add: untouched_def)
        from untouched_trans [OF g(2) this] show ?thesis using g(4) len by simp
      qed
      have "?r = [] \<or> is_white (hd ?r)" using hd_dropWhile [of "\<lambda>c. \<not> is_white c" "c # cs"] by blast
      then have z: "m' ?q = 0" if "r \<noteq> None" using i(3) that by auto
      have w: "cstring m' ?p ?w" if "r \<noteq> None"
      proof (rule cstring_split [OF _ z [OF that] i(2)])
        show "cstring m1 ?p (?w @ ?r)" using g(5) by (simp only: wr)
        show "length ?w + length ?r < 4294967296" using len g(4) less.prems(2) by linarith
        show "0 \<notin> set ?w" using cstring_no_zero [OF g(5)] set_takeWhileD by metis
      qed
      have "m' p = 0" if "is_white (hd s)" "s \<noteq> []" "r \<noteq> None"
      proof -
        have n: "0 < n" by (rule first_blank [OF Cons g(4) that(2,1)])
        have "p \<noteq> ?q + of_nat k" if "k < length ?r" for k
          using addr_inj [of 0 "n + length ?w + k" p] n that len g(4) less.prems(2) by (simp add: algebra_simps)
        then have "m' p = m1 p" using i(2) by (simp add: untouched_def)
        moreover have "m1 p = 0" using spec [OF g(3), of 0] n by simp
        ultimately show ?thesis by simp
      qed
      moreover have ne: "s \<noteq> []" using Cons by auto
      ultimately show ?thesis
      proof (cases r)
        case None
        then show ?thesis using pa o i(3) W by auto
      next
        case (Some av)
        then obtain ps where ps: "av = argv @ ?p # ps" "list_all2 (cstring m') ps (words ?r)" "length argv + length (words s) \<le> 15"
          using i(3) W by auto
        then have "list_all2 (cstring m') (?p # ps) (words s)" using w Some W by simp
        moreover have "is_white (hd s) \<longrightarrow> m' p = 0" using \<open>\<lbrakk>is_white (hd s); s \<noteq> []; r \<noteq> None\<rbrakk> \<Longrightarrow> m' p = 0\<close> ne Some by blast
        ultimately show ?thesis using pa o ps Some ne by (intro exI [of _ r] exI [of _ m']) auto
      qed
    qed
  qed
qed

section \<open>Tokens\<close>

definition ends_word :: "u8 \<Rightarrow> bool" where
  "ends_word c \<longleftrightarrow> is_white c \<or> is_symbol c"

text \<open>The tokens of a line: blanks separate, a symbol is a token of its own.\<close>

function lex :: "u8 list \<Rightarrow> (int \<times> u8 list) list" where
  "lex s = (case dropWhile is_white s of [] \<Rightarrow> []
     | c # cs \<Rightarrow> if is_symbol c then (uint c, [c]) # lex cs
         else (119, plain ends_word (c # cs)) # lex (behind ends_word (c # cs)))"
  by pat_completeness auto
termination
proof (relation "measure length")
  fix s c and cs :: "u8 list"
  assume d: "dropWhile is_white s = c # cs"
  then show "(cs, s) \<in> measure length" using length_dropWhile_le [of is_white s] by simp
  assume "\<not> is_symbol c"
  then have "\<not> ends_word c" using dropWhile_starts [OF d] by (simp add: ends_word_def)
  then show "(behind ends_word (c # cs), s) \<in> measure length"
    unfolding in_measure by (rule behind_shorter [where stop = ends_word, OF d])
qed (rule wf_measure)

declare lex.simps [simp del]

text \<open>A token of the scanner is one of the line: the same code, and for a word a pointer to its string.\<close>

definition token_at :: "mem \<Rightarrow> int \<times> u32 \<Rightarrow> int \<times> u8 list \<Rightarrow> bool" where
  "token_at m = (\<lambda>(c, t) (k, w). c = k \<and> (k = 119 \<longrightarrow> cstring m t w))"

lemma symbol_code: "is_symbol c \<Longrightarrow> uint c \<noteq> 0 \<and> uint c \<noteq> 119"
  by (auto simp: is_symbol_def)

lemma shell_tokens_step:
  "shell_tokens \<lparr>lx_nc = k, lx_np1 = t, lx_np2 = q\<rparr> m = Option.bind (gettoken_at q t q m) (\<lambda>(nc, np1, np2, m').
     if k = 0 then Some ([], m') else Option.bind (shell_tokens \<lparr>lx_nc = nc, lx_np1 = np1, lx_np2 = np2\<rparr> m') (\<lambda>(ts, m2). Some ((k, t) # ts, m2)))"
  by (subst shell_tokens.simps) (auto simp: gettoken_def split: bind_splits)

lemma addr_not_null: "unat p + n < 4294967296 \<Longrightarrow> p \<noteq> 0 \<Longrightarrow> p + of_nat n \<noteq> (0 :: u32) \<and> unat (p + of_nat n) = unat p + n"
proof -
  assume a: "unat p + n < 4294967296" "p \<noteq> 0"
  then have "unat (p + of_nat n) = unat p + n" by (simp add: unat_word_ariths unat_of_nat take_bit_nat_eq_self)
  then show ?thesis using a by (metis add_is_0 unat_0 unat_eq_zero)
qed

text \<open>What the rest of the line does not reach stays.\<close>

lemma untouched_before:
  assumes "untouched (p + of_nat d) k m m'" and "i < d" and "d + k < 4294967296"
  shows "m' (p + of_nat i) = m (p + of_nat i)"
proof -
  have "p + of_nat i \<noteq> p + of_nat d + of_nat j" if "j < k" for j
    using addr_inj [of i "d + j" p] assms(2,3) that by (simp add: algebra_simps)
  then show ?thesis using assms(1) by (simp add: untouched_def)
qed

text \<open>One token: where it is, what comes behind it, and that it ends with a null byte once the rest of the
  line is scanned.\<close>

lemma shell_tokens_ok:
  "cstring m p s \<Longrightarrow> unat p + length s < 4294967296 \<Longrightarrow> p \<noteq> 0 \<Longrightarrow>
    \<exists>k t q m1 ts m2. gettoken_at p a b m = Some (k, t, q, m1) \<and>
      shell_tokens \<lparr>lx_nc = k, lx_np1 = t, lx_np2 = q\<rparr> m1 = Some (ts, m2) \<and> untouched p (length s) m m2 \<and>
      list_all2 (token_at m2) ts (lex s) \<and> (s = [] \<or> ends_word (hd s) \<longrightarrow> m2 p = 0)"
proof (induction "length s" arbitrary: s p m a b rule: less_induct)
  case less
  have ls: "length s < 4294967296" using less.prems(2) by linarith
  show ?case
  proof (cases "dropWhile is_white s")
    case Nil
    obtain m' where g: "gobble p m = Some (p + of_nat (length s), m')" "untouched p (length s) m m'" "m' p = 0" "m' (p + of_nat (length s)) = 0"
      using no_word [OF less.prems(1) ls Nil] by blast
    moreover have "lex s = []" by (subst lex.simps) (simp only: Nil list.case)
    moreover have "gettoken_at p a b m = Some (0, 0, 0, m')" using g less.prems(3) by (simp add: gettoken_at_def)
    moreover have "shell_tokens \<lparr>lx_nc = 0, lx_np1 = 0, lx_np2 = 0\<rparr> m' = Some ([], m')"
      by (subst shell_tokens_step) (simp add: gettoken_at_def)
    ultimately show ?thesis by (intro exI conjI) auto
  next
    case (Cons c cs)
    obtain m1 n where g: "gobble p m = Some (p + of_nat n, m1)" "untouched p n m m1" "\<forall>i<n. m1 (p + of_nat i) = 0"
      "n + length (c # cs) = length s" "cstring m1 (p + of_nat n) (c # cs)" "m1 (p + of_nat n) = c" "c \<noteq> 0"
      using next_word [OF less.prems(1) ls Cons] by blast
    let ?p = "p + of_nat n"
    have ne: "s \<noteq> []" using Cons by auto
    have blank: "m1 p = 0" if "is_white (hd s)"
      using spec [OF g(3), of 0] first_blank [OF Cons g(4) ne that] by simp
    show ?thesis
    proof (cases "is_symbol c")
      case True
      let ?m1 = "m1(?p := 0)" and ?q = "p + of_nat (Suc n)"
      have q: "?q \<noteq> 0" "unat ?q = unat p + Suc n" using addr_not_null [of p "Suc n"] less.prems(2,3) g(4) by simp_all
      have gt: "gettoken_at p a b m = Some (uint c, ?p, ?q, ?m1)"
        using g(1,6,7) True less.prems(3) by (simp add: gettoken_at_def algebra_simps)
      have c1: "cstring ?m1 ?q cs"
      proof -
        have "?q + of_nat i \<noteq> ?p" if "i \<le> length cs" for i
          using addr_inj [of "Suc n + i" n p] that g(4) ls by (simp add: algebra_simps)
        then have "cstring ?m1 ?q cs = cstring m1 ?q cs" by (intro cstring_cong) simp
        then show ?thesis using g(5) by (simp add: algebra_simps)
      qed
      have lc: "length cs < length s" "unat ?q + length cs < 4294967296" using g(4) q(2) less.prems(2) by simp_all
      from less.hyps [OF lc(1) c1 lc(2) q(1), of ?p ?q] obtain k t r m3 ts m2 where
        i: "gettoken_at ?q ?p ?q ?m1 = Some (k, t, r, m3)" "shell_tokens \<lparr>lx_nc = k, lx_np1 = t, lx_np2 = r\<rparr> m3 = Some (ts, m2)"
          "untouched ?q (length cs) ?m1 m2" "list_all2 (token_at m2) ts (lex cs)" by blast
      have st: "shell_tokens \<lparr>lx_nc = uint c, lx_np1 = ?p, lx_np2 = ?q\<rparr> ?m1 = Some ((uint c, ?p) # ts, m2)"
        using i(1,2) symbol_code [OF True] by (subst shell_tokens_step) simp
      have L: "lex s = (uint c, [c]) # lex cs" by (subst lex.simps) (simp add: Cons True)
      have "untouched p (Suc n) m ?m1"
        unfolding untouched_def
      proof (intro allI impI)
        fix x assume "\<forall>i<Suc n. x \<noteq> p + of_nat i"
        then have "x \<noteq> ?p" "\<forall>i<n. x \<noteq> p + of_nat i" by (blast, auto)
        then show "?m1 x = m x" using g(2) by (simp add: untouched_def)
      qed
      from untouched_trans [OF this i(3)] have o: "untouched p (length s) m m2" using g(4) by simp
      have "m2 p = 0" if "ends_word (hd s)"
      proof -
        have "m2 p = ?m1 p" using untouched_before [OF i(3), of 0] ls g(4) by simp
        moreover have "?m1 p = 0"
        proof (cases "is_white (hd s)")
          case True
          then show ?thesis using blank by simp
        next
          case False
          then have "n = 0" using Cons g(4) ne by (cases s) auto
          then show ?thesis by simp
        qed
        ultimately show ?thesis by simp
      qed
      then show ?thesis
        using gt st o i(4) L ne symbol_code [OF True] by (intro exI conjI) (auto simp: token_at_def)
    next
      case False
      let ?w = "plain ends_word (c # cs)" and ?r = "behind ends_word (c # cs)"
      let ?q = "p + of_nat (n + length ?w)"
      have c: "\<not> ends_word c" using False dropWhile_starts [OF Cons] by (simp add: ends_word_def)
      have wr: "?w @ ?r = c # cs" by (rule takeWhile_dropWhile_id)
      have len: "length ?w + length ?r = length (c # cs)" using wr by (metis length_append)
      have q: "?q \<noteq> 0" "unat ?q = unat p + (n + length ?w)"
        using addr_not_null [of p "n + length ?w"] less.prems(2,3) g(4) len by linarith+
      have q': "?q = ?p + of_nat (length ?w)" by (simp only: of_nat_add add.assoc)
      have gt: "gettoken_at p a b m = Some (119, ?p, ?q, m1)"
        using g(1,6,7) False less.prems(3) scan_word_ok [OF g(5), of ends_word] unfolding q'
        by (simp add: gettoken_at_def ends_word_def [abs_def])
      have cq: "cstring m1 ?q ?r" using g(5) cstring_append [of m1 ?p ?w ?r] unfolding wr q' by blast
      have lr: "length ?r < length s" by (rule behind_shorter [where stop = ends_word, OF Cons c])
      have lq: "unat ?q + length ?r < 4294967296" using q(2) g(4) len less.prems(2) by linarith
      from less.hyps [OF lr cq lq q(1), of ?p ?q] obtain k t r m3 ts m2 where
        i: "gettoken_at ?q ?p ?q m1 = Some (k, t, r, m3)" "shell_tokens \<lparr>lx_nc = k, lx_np1 = t, lx_np2 = r\<rparr> m3 = Some (ts, m2)"
          "untouched ?q (length ?r) m1 m2" "list_all2 (token_at m2) ts (lex ?r)" "?r = [] \<or> ends_word (hd ?r) \<longrightarrow> m2 ?q = 0" by blast
      have st: "shell_tokens \<lparr>lx_nc = 119, lx_np1 = ?p, lx_np2 = ?q\<rparr> m1 = Some ((119, ?p) # ts, m2)"
        using i(1,2) by (subst shell_tokens_step) simp
      have L: "lex s = (119, ?w) # lex ?r" by (subst lex.simps) (simp only: Cons list.case False if_False)
      have z: "m2 (?p + of_nat (length ?w)) = 0"
        using i(5) hd_dropWhile [of "\<lambda>c. \<not> ends_word c" "c # cs"] unfolding q' by blast
      have w: "cstring m2 ?p ?w"
      proof (rule cstring_split [OF _ z i(3) [unfolded q']])
        show "cstring m1 ?p (?w @ ?r)" using g(5) by (simp only: wr)
        show "length ?w + length ?r < 4294967296" using len g(4) ls by linarith
        show "0 \<notin> set ?w" using cstring_no_zero [OF g(5)] set_takeWhileD by metis
      qed
      have o: "untouched p (length s) m m2"
        using untouched_trans [OF untouched_mono [OF g(2), of "n + length ?w"] i(3)] g(4) len by (simp add: add.assoc)
      have "m2 p = 0" if e: "ends_word (hd s)"
      proof -
        have wh: "is_white (hd s)"
        proof (rule ccontr)
          assume "\<not> is_white (hd s)"
          then have "hd s = c" using Cons ne by (cases s) auto
          then show False using e c by simp
        qed
        have "m2 p = m1 p" using untouched_before [OF i(3), of 0] first_blank [OF Cons g(4) ne wh] ls g(4) len by simp
        then show ?thesis using blank [OF wh] by simp
      qed
      then show ?thesis
        using gt st o i(4) L ne w by (intro exI conjI) (auto simp: token_at_def)
    qed
  qed
qed

section \<open>Properties\<close>

text \<open>(C39) The loop \<^verbatim>\<open>while ((r = argnext(&args)) >= 0)\<close> that a program runs after \<^verbatim>\<open>argstart\<close> ends, sees
  exactly the characters of the leading words that start with a minus sign, and leaves in the array the
  program's name and the words behind them (\<^verbatim>\<open>--\<close> ends the options and is removed, \<^verbatim>\<open>-\<close> is a word).\<close>

theorem args_correct:
  assumes "argv \<noteq> []"
  shows "all_args (argstart argv) = Some (map uint (fst (options (tl argv))),
     \<lparr>a_argv = hd argv # snd (options (tl argv)), a_curarg = None, a_argvalue = None\<rparr>)"
proof (cases "length argv > 1")
  case True
  then show ?thesis using all_args_options [of "hd argv" "tl argv" None] by (simp add: argstart_def assms)
next
  case False
  then obtain a where "argv = [a]" using assms by (cases argv; cases "tl argv") auto
  then show ?thesis by (simp add: argstart_def all_args.simps argnext_def)
qed

theorem args_correct_witness:
  "all_args (argstart [[108, 115], [45, 70, 108], [45], [120]]) =
     Some ([70, 108], \<lparr>a_argv = [[108, 115], [45], [120]], a_curarg = None, a_argvalue = None\<rparr>)"
  using args_correct [of "[[108, 115], [45, 70, 108], [45], [120]]"] by simp

text \<open>The tokenizer of the monitor, run on a line of the console: it ends, with more than 15 words it
  refuses the line, otherwise the argument array points to exactly the words of the line, each of them a
  string of its own. It writes within the line only.\<close>

theorem runcmd_args_correct:
  assumes "cstring m buf s" and "length s < 4294967296"
  shows "\<exists>r m'. parse_args buf [] m = Some (r, m') \<and> untouched buf (length s) m m' \<and>
    (if length (words s) > 15 then r = None else \<exists>argv. r = Some argv \<and> list_all2 (cstring m') argv (words s))"
proof -
  obtain r m' where p: "parse_args buf [] m = Some (r, m')" "untouched buf (length s) m m'"
    "case r of None \<Rightarrow> length (words s) > 15 | Some av \<Rightarrow> list_all2 (cstring m') av (words s) \<and> length (words s) \<le> 15"
    using parse_args_ok [OF assms, of "[]"] by (auto split: option.splits)
  then show ?thesis by (intro exI [of _ r] exI [of _ m']) (auto split: option.splits)
qed

text \<open>(C36) The scanner of the shell, asked for tokens until it reports the end: it ends, its tokens are
  those of the line in order, every word token points to its string by then, and it writes within the line
  only.\<close>

theorem shell_tokens_correct:
  assumes "cstring m p line" and "unat p + length line < 4294967296" and "p \<noteq> 0"
  shows "\<exists>l m1 ts m2. gettoken_start p l0 m = Some (l, m1) \<and> shell_tokens l m1 = Some (ts, m2) \<and>
    list_all2 (token_at m2) ts (lex line) \<and> untouched p (length line) m m2"
  using shell_tokens_ok [OF assms, of "lx_np1 l0" "lx_np2 l0"] unfolding gettoken_start_def by auto

text \<open>A line of a shell, and a line with a few words.\<close>

definition sample_line :: "u8 list \<Rightarrow> mem" where
  "sample_line l = (\<lambda>a. if unat (a - 4096) < length l then l ! unat (a - 4096) else 0)"

lemma sample_line_words: "words [32, 108, 115, 32, 32, 45, 108] = [[108, 115], [45, 108]]"
  by (simp add: words.simps [of "_ # _"] words.simps [of "[]"] is_white_def)

lemma sample_lex: "lex [108, 115, 62, 32, 120] = [(119, [108, 115]), (62, [62]), (119, [120])]"
  by (simp add: lex.simps [of "_ # _"] lex.simps [of "[]"] is_white_def is_symbol_def ends_word_def)

theorem runcmd_args_correct_witness:
  "\<exists>argv m'. parse_args 4096 [] (sample_line [32, 108, 115, 32, 32, 45, 108]) = Some (Some argv, m') \<and>
     list_all2 (cstring m') argv [[108, 115], [45, 108]]"
proof -
  have "cstring (sample_line [32, 108, 115, 32, 32, 45, 108]) 4096 [32, 108, 115, 32, 32, 45, 108]" by (simp add: sample_line_def)
  from runcmd_args_correct [OF this] show ?thesis by (auto simp: sample_line_words)
qed

theorem shell_tokens_correct_witness:
  "\<exists>l m1 ts m2. gettoken_start 4096 \<lparr>lx_nc = 0, lx_np1 = 0, lx_np2 = 0\<rparr> (sample_line [108, 115, 62, 32, 120]) = Some (l, m1) \<and>
     shell_tokens l m1 = Some (ts, m2) \<and> list_all2 (token_at m2) ts [(119, [108, 115]), (62, [62]), (119, [120])]"
proof -
  have "cstring (sample_line [108, 115, 62, 32, 120]) 4096 [108, 115, 62, 32, 120]" by (simp add: sample_line_def)
  from shell_tokens_correct [OF this, of "\<lparr>lx_nc = 0, lx_np1 = 0, lx_np2 = 0\<rparr>"] show ?thesis unfolding sample_lex by force
qed

end
