(* ===== verification/Kernel_Space.thy ===== *)
theory Kernel_Space
  imports Kernel_Inv
begin

text \<open>
  The start of memory management: \<open>mem_init\<close> and \<open>mem_init_mp\<close> of \<^verbatim>\<open>kern/pmap.c\<close>, and the address
  space they give the kernel. \<open>kvm_ok\<close> is the invariant of the kernel's own directory (its tables
  are different pages that nobody else can get) with the promise that the free list has a page for every table
  the kernel part may still need; \<open>boot_map_region\<close> keeps it and maps exactly the pages of its range.
\<close>

section \<open>Definitions\<close>

definition zero_Env :: Env where
  "zero_Env = \<lparr>env_tf = zero_tf, env_link = None, env_id = 0, env_parent_id = 0, env_type = ENV_TYPE_USER,
     env_status = ENV_FREE, env_runs = 0, env_cpunum = 0, env_pgdir = 0, env_pgfault_upcall = 0,
     env_ipc_recving = False, env_ipc_dstva = 0, env_ipc_value = 0, env_ipc_from = 0, env_ipc_perm = 0\<rparr>"

text \<open>
  The first half, up to \<open>page_init\<close>. \<open>cmos\<close> is the non-volatile memory, \<open>kend\<close> the linker's symbol
  \<^verbatim>\<open>end\<close>; a \<^verbatim>\<open>struct PageInfo\<close> has 8 bytes and a \<^verbatim>\<open>struct Env\<close> 124. The results are the addresses of
  the two arrays.
\<close>

definition mem_init_alloc :: "(u32 \<Rightarrow> u8) \<Rightarrow> u32 \<Rightarrow> (kstate, u32 \<times> u32) op" where
  "mem_init_alloc cmos kend =
     kthen (i386_detect_memory cmos)
     (kbind (boot_alloc kend PGSIZE) (\<lambda>pgdir.
      kthen (kmod (\<lambda>s. kmemset pgdir 0 4096 (s\<lparr>kern_pgdir := pgdir\<rparr>)))
     (kbind (PADDR pgdir) (\<lambda>pa.
      kthen (kmod (kst (pgdir + 4 * PDX UVPT) (pa OR PTE_U OR PTE_P)))
     (kbind (kget npages) (\<lambda>n.
      kbind (boot_alloc kend (n * 8)) (\<lambda>pages_va.
      kthen (kmod (\<lambda>s. s\<lparr>pages := (\<lambda>_. \<lparr>pp_link = None, pp_ref = 0\<rparr>)\<rparr>))
     (kbind (boot_alloc kend (of_nat NENV * 124)) (\<lambda>envs_va.
      kthen (kmod (\<lambda>s. s\<lparr>envs := (\<lambda>_. zero_Env)\<rparr>))
     (kthen (page_init kend)
     (kret (pages_va, envs_va))))))))))))"

text \<open>The stacks of the processors; \<open>kstacks\<close> is the array \<^verbatim>\<open>percpu_kstacks\<close>.\<close>

definition mem_init_mp :: "u32 \<Rightarrow> (kstate, unit) op" where
  "mem_init_mp kstacks = kfor [0..<NCPU] (\<lambda>i.
     kbind (PADDR (kstacks + of_nat i * KSTKSIZE)) (\<lambda>pa.
     kbind (kget kern_pgdir) (\<lambda>pgdir.
       boot_map_region pgdir (KSTACKTOP - KSTKSIZE - of_nat i * (KSTKSIZE + KSTKGAP)) KSTKSIZE pa (PTE_W OR PTE_P))))"

text \<open>The second half: the mappings, and the switch to the new directory. The self tests \<^verbatim>\<open>check_*\<close> between the
  halves and around the switch are not part of the model.\<close>

definition mem_init_map :: "u32 \<Rightarrow> u32 \<Rightarrow> u32 \<Rightarrow> u32 \<Rightarrow> (kstate, unit) op" where
  "mem_init_map pages_va envs_va bootstack kstacks =
     kbind (kget kern_pgdir) (\<lambda>pgdir.
     kbind (PADDR pages_va) (\<lambda>pages_pa.
     kthen (boot_map_region pgdir UPAGES PTSIZE pages_pa PTE_U)
     (kbind (PADDR envs_va) (\<lambda>envs_pa.
     kthen (boot_map_region pgdir UENVS PTSIZE envs_pa PTE_U)
     (kbind (PADDR bootstack) (\<lambda>stack_pa.
     kthen (boot_map_region pgdir (KSTACKTOP - KSTKSIZE) KSTKSIZE stack_pa PTE_W)
     (kthen (mem_init_mp kstacks)
     (kthen (boot_map_region pgdir KERNBASE (0xFFFFFFFF - KERNBASE) 0 PTE_W)
     (kbind (PADDR pgdir) (\<lambda>pa. kmod (lcr3 pa)))))))))))"

section \<open>The kernel's directory\<close>

text \<open>What a directory maps, by the number of the page.\<close>

definition kpage :: "kstate \<Rightarrow> nat \<Rightarrow> nat \<Rightarrow> (nat \<times> u32) option" where
  "kpage s d k = (let pde = slot s d (k div 1024); pte = slot s (frame pde) (k mod 1024)
     in if present pde \<and> present pte then Some (frame pte, pte AND 0xFFF) else None)"

lemma vmap_kpage: "vmap s d va = kpage s d (unat va div 4096)"
proof -
  have "unat va div 4096 div 1024 = unat va div 4194304" by (simp add: div_mult2_eq [symmetric])
  then show ?thesis unfolding vmap_def kpage_def unat_PDX unat_PTX by simp
qed

text \<open>Entry 957 is the directory itself; the entries from 955 on belong to the kernel.\<close>

definition ktabs :: "kstate \<Rightarrow> nat \<Rightarrow> nat set" where
  "ktabs s d = {i. i < 1024 \<and> i \<noteq> 957 \<and> present (slot s d i)}"

abbreviation kparts :: "nat set" where
  "kparts \<equiv> {955..<1024} - {957}"

definition kvm_ok :: "nat \<Rightarrow> kstate \<Rightarrow> bool" where
  "kvm_ok kd s \<longleftrightarrow> pages_ok s \<and> kd < unat (npages s) \<and> kd \<notin> free_pages s \<and> kern_pgdir s = kv kd \<and>
     (\<forall>i\<in>ktabs s kd. frame (slot s kd i) < unat (npages s) \<and> frame (slot s kd i) \<noteq> kd \<and> frame (slot s kd i) \<notin> free_pages s) \<and>
     inj_on (\<lambda>i. frame (slot s kd i)) (ktabs s kd) \<and> card (kparts - ktabs s kd) \<le> card (free_pages s) \<and>
     pp_ref (pages s kd) \<noteq> 0"

lemma kvm_okD:
  assumes "kvm_ok kd s"
  shows "pages_ok s" and "kd < unat (npages s)" and "kd < 65536" and "kd \<notin> free_pages s" and "kern_pgdir s = kv kd"
    and "i \<in> ktabs s kd \<Longrightarrow> frame (slot s kd i) < unat (npages s) \<and> frame (slot s kd i) < 65536 \<and> frame (slot s kd i) \<noteq> kd \<and> frame (slot s kd i) \<notin> free_pages s"
    and "inj_on (\<lambda>i. frame (slot s kd i)) (ktabs s kd)" and "card (kparts - ktabs s kd) \<le> card (free_pages s)"
    and "pp_ref (pages s kd) \<noteq> 0"
  using assms pages_ok_npages [of s] by (auto simp: kvm_ok_def)

text \<open>Replacing one entry of one of its tables.\<close>

lemma kvm_set_pte:
  fixes v :: u32
  assumes ok: "kvm_ok kd s" and k: "k < 1048576" "k div 1024 \<in> ktabs s kd"
    and s': "s' = set_slot (frame (slot s kd (k div 1024))) (k mod 1024) v s"
  shows "kvm_ok kd s'"
    and "\<And>j. j < 1048576 \<Longrightarrow> j div 1024 \<noteq> 957 \<Longrightarrow>
      kpage s' kd j = (if j = k then if present v then Some (frame v, v AND 0xFFF) else None else kpage s kd j)"
    and "ktabs s' kd = ktabs s kd"
proof -
  let ?t = "frame (slot s kd (k div 1024))"
  note D = kvm_okD [OF ok]
  note T = D(6) [OF k(2)]
  have d: "slot s' kd i = slot s kd i" if "i < 1024" for i
    using that T by (simp add: s' slot_set_slot)
  have tabs: "ktabs s' kd = ktabs s kd" unfolding ktabs_def using d by auto
  show "ktabs s' kd = ktabs s kd" by (rule tabs)
  have i: "i < 1024" if "i \<in> ktabs s kd" for i using that by (simp add: ktabs_def)
  have fr: "pages s' = pages s" "page_free_list s' = page_free_list s" "npages s' = npages s" "kern_pgdir s' = kern_pgdir s"
    by (simp_all add: s')
  have inj: "inj_on (\<lambda>i. frame (slot s' kd i)) (ktabs s kd)"
    using D(7) inj_on_cong [of "ktabs s kd" "\<lambda>i. frame (slot s' kd i)" "\<lambda>i. frame (slot s kd i)"] d i by simp
  show "kvm_ok kd s'"
    unfolding kvm_ok_def tabs using D inj d i fr pages_ok_cong [of s' s] by auto
  fix j :: nat assume j: "j < 1048576" "j div 1024 \<noteq> 957"
  have jd: "j div 1024 < 1024" "j mod 1024 < 1024" "k mod 1024 < 1024" using j(1) by auto
  have eq: "j = k \<longleftrightarrow> j div 1024 = k div 1024 \<and> j mod 1024 = k mod 1024"
    by (metis div_mult_mod_eq)
  have same: "frame (slot s kd (j div 1024)) = ?t \<longleftrightarrow> j div 1024 = k div 1024" if "present (slot s kd (j div 1024))"
    using that D(7) k(2) j jd(1) by (auto simp: ktabs_def inj_on_def)
  show "kpage s' kd j = (if j = k then if present v then Some (frame v, v AND 0xFFF) else None else kpage s kd j)"
  proof (cases "present (slot s kd (j div 1024))")
    case False
    then show ?thesis using k(2) d [OF jd(1)] by (auto simp: kpage_def ktabs_def)
  next
    case True
    have "slot s' (frame (slot s kd (j div 1024))) (j mod 1024) =
        (if j = k then v else slot s (frame (slot s kd (j div 1024))) (j mod 1024))"
      unfolding s' using slot_set_slot [OF jd(3,2), of ?t v s "frame (slot s kd (j div 1024))"] same [OF True] eq by auto
    then show ?thesis using True d [OF jd(1)] by (cases "j = k") (simp_all add: kpage_def Let_def)
  qed
qed

text \<open>A fresh page becomes a table.\<close>

lemma kvm_new_table:
  assumes ok: "kvm_ok kd s" and i: "i \<in> kparts" "i \<notin> ktabs s kd" and np: "page_alloc 1 s = Ret (Some np) (after_alloc 1 np s)"
    and s': "s' = new_table kd i np s"
  shows "kvm_ok kd s'" and "i \<in> ktabs s' kd" and "frame (slot s' kd i) = np" and "free_pages s' \<subseteq> free_pages s"
    and "\<And>j. j < 1048576 \<Longrightarrow> j div 1024 \<noteq> 957 \<Longrightarrow> kpage s' kd j = kpage s kd j"
    and "ktabs s' kd = insert i (ktabs s kd)"
proof -
  note D = kvm_okD [OF ok]
  note A = page_alloc_ok [OF D(1) np]
  have il: "i < 1024" "i \<noteq> 957" "\<not> present (slot s kd i)" using i by (auto simp: ktabs_def)
  have npl: "np < unat (npages s)" "np < 65536" "np \<noteq> kd" "np \<notin> free_pages (after_alloc 1 np s)"
    using A(2,3) D(1,2,4) free_pages_bound [OF D(1) A(2)] pages_ok_npages [OF D(1)] by auto
  note P = pages_ok_set_ref [OF A(1) npl(4), of "\<lambda>p. pp_ref p + 1"]
  have fr: "pages s' = pages (upd_page np (\<lambda>p. p\<lparr>pp_ref := pp_ref p + 1\<rparr>) (after_alloc 1 np s))"
    "page_free_list s' = page_free_list (upd_page np (\<lambda>p. p\<lparr>pp_ref := pp_ref p + 1\<rparr>) (after_alloc 1 np s))"
    "npages s' = npages (upd_page np (\<lambda>p. p\<lparr>pp_ref := pp_ref p + 1\<rparr>) (after_alloc 1 np s))"
    by (simp_all add: s' new_table_def)
  have pok: "pages_ok s'" and free: "free_pages s' = free_pages s - {np}"
    using pages_ok_cong [OF fr] P A(3) by simp_all
  have sl: "slot s' g j = (if g = kd \<and> j = i then page2pa np OR PTE_P OR PTE_W OR PTE_U else if g = np then 0 else slot s g j)"
    if "j < 1024" for g j using slot_new_table [OF npl(2) that il(1) npl(3)] by (simp add: s')
  have d: "slot s' kd j = (if j = i then page2pa np OR PTE_P OR PTE_W OR PTE_U else slot s kd j)" if "j < 1024" for j
    using sl [OF that, of kd] npl(3) by simp
  show tabs: "ktabs s' kd = insert i (ktabs s kd)"
    using il d table_entry(2) [of np] by (auto simp: ktabs_def split: if_splits)
  then show "i \<in> ktabs s' kd" by simp
  show fi: "frame (slot s' kd i) = np" using d [OF il(1)] table_entry(1) [OF npl(2)] by simp
  show "free_pages s' \<subseteq> free_pages s" using free by auto
  have other: "frame (slot s' kd j) = frame (slot s kd j)" "frame (slot s kd j) \<noteq> np" if "j \<in> ktabs s kd" for j
    using that i(2) d [of j] D(6) [OF that] A(2) by (auto simp: ktabs_def)
  show "kvm_ok kd s'"
    unfolding kvm_ok_def tabs
  proof (intro conjI)
    show "\<forall>j\<in>insert i (ktabs s kd). frame (slot s' kd j) < unat (npages s') \<and> frame (slot s' kd j) \<noteq> kd \<and> frame (slot s' kd j) \<notin> free_pages s'"
      using fi npl D(6) other free fr(3) by auto
    show "inj_on (\<lambda>j. frame (slot s' kd j)) (insert i (ktabs s kd))"
      unfolding inj_on_insert
    proof
      show "inj_on (\<lambda>j. frame (slot s' kd j)) (ktabs s kd)"
        using D(7) other(1) inj_on_cong [of "ktabs s kd" "\<lambda>j. frame (slot s' kd j)" "\<lambda>j. frame (slot s kd j)"] by simp
      show "frame (slot s' kd i) \<notin> (\<lambda>j. frame (slot s' kd j)) ` (ktabs s kd - {i})"
      proof
        assume "frame (slot s' kd i) \<in> (\<lambda>j. frame (slot s' kd j)) ` (ktabs s kd - {i})"
        then obtain j where j: "j \<in> ktabs s kd" "np = frame (slot s' kd j)" unfolding fi by blast
        show False using j(2) other [OF j(1)] by simp
      qed
    qed
    have "kparts - insert i (ktabs s kd) = (kparts - ktabs s kd) - {i}" by blast
    then have "card (kparts - insert i (ktabs s kd)) = card (kparts - ktabs s kd) - 1" using i by simp
    moreover have "card (free_pages s') = card (free_pages s) - 1" using free A(2) by simp
    ultimately show "card (kparts - insert i (ktabs s kd)) \<le> card (free_pages s')" using D(8) by linarith
  qed (use pok D npl(3) free fr in \<open>auto simp: s' new_table_def\<close>)
  fix j :: nat assume j: "j < 1048576" "j div 1024 \<noteq> 957"
  have jd: "j div 1024 < 1024" "j mod 1024 < 1024" using j(1) by auto
  show "kpage s' kd j = kpage s kd j"
  proof (cases "j div 1024 = i")
    case True
    then show ?thesis using il(3) d [OF jd(1)] table_entry(1) [OF npl(2)] sl [OF jd(2), of np] npl(3)
      by (simp add: kpage_def Let_def)
  next
    case False
    then have sd: "slot s' kd (j div 1024) = slot s kd (j div 1024)" using d [OF jd(1)] by simp
    have "slot s' (frame (slot s kd (j div 1024))) (j mod 1024) = slot s (frame (slot s kd (j div 1024))) (j mod 1024)"
      if "present (slot s kd (j div 1024))"
      using that sl [OF jd(2)] other(2) [of "j div 1024"] D(6) [of "j div 1024"] j jd(1) by (auto simp: ktabs_def)
    then show ?thesis using sd by (auto simp: kpage_def Let_def)
  qed
qed

lemma kwalk_ok:
  assumes ok: "kvm_ok kd s" and i: "unat (PDX va) \<in> kparts"
  shows "\<exists>np s'. pgdir_walk (kv kd) va True s = Ret (Some (kv np + 4 * PTX va)) s' \<and> kvm_ok kd s' \<and>
    unat (PDX va) \<in> ktabs s' kd \<and> frame (slot s' kd (unat (PDX va))) = np \<and> free_pages s' \<subseteq> free_pages s \<and> vm_frame s s' \<and>
    (\<forall>j<1048576. j div 1024 \<noteq> 957 \<longrightarrow> kpage s' kd j = kpage s kd j)"
proof (cases "unat (PDX va) \<in> ktabs s kd")
  case True
  note D = kvm_okD [OF ok]
  let ?w = "slot s kd (unat (PDX va))"
  have "pgdir_walk (kv kd) va True s = Ret (Some (kv (frame ?w) + 4 * PTX va)) s"
    using True D(3) KADDR_frame [of ?w s] D(6) [OF True]
    by (simp add: pgdir_walk_def Let_def kld_entry kbind_def ktabs_def)
  then show ?thesis using True ok by (intro exI [of _ "frame ?w"] exI [of _ s]) simp
next
  case False
  note D = kvm_okD [OF ok]
  have "kparts - ktabs s kd \<noteq> {}" using i False by blast
  then have "card (kparts - ktabs s kd) > 0" by (simp add: card_gt_0_iff)
  then have "free_pages s \<noteq> {}" using D(8) by (metis card.empty leD)
  then obtain np where np: "page_alloc 1 s = Ret (Some np) (after_alloc 1 np s)"
    using page_alloc_cases [OF D(1), of 1] by metis
  let ?t = "new_table kd (unat (PDX va)) np s"
  note N = kvm_new_table [OF ok i False np refl]
  have ab: "\<not> present (slot s kd (unat (PDX va)))" using False i by (auto simp: ktabs_def)
  have "kst (kv kd + 4 * PDX va) (page2pa np OR PTE_P OR PTE_W OR PTE_U)
     (upd_page np (\<lambda>p. p\<lparr>pp_ref := pp_ref p + 1\<rparr>) (after_alloc 1 np s)) = ?t"
    using D(3) by (simp add: kst_entry new_table_def)
  moreover have "kld (kv kd + 4 * PDX va) ?t = slot ?t kd (unat (PDX va))" using D(3) by (simp add: kld_entry)
  moreover have "KADDR (PTE_ADDR (slot ?t kd (unat (PDX va)))) ?t = Ret (kv np) ?t"
    using KADDR_frame [of "slot ?t kd (unat (PDX va))" ?t] kvm_okD(6) [OF N(1,2)] N(3) by simp
  ultimately have "pgdir_walk (kv kd) va True s = Ret (Some (kv np + 4 * PTX va)) ?t"
    using ab D(3) np by (simp add: pgdir_walk_def Let_def kld_entry kbind_def kthen_def)
  then show ?thesis using N by (intro exI [of _ np] exI [of _ ?t]) simp
qed

section \<open>Mapping a range\<close>

lemma page2pa_Suc: "page2pa k + PGSIZE = page2pa (Suc k)"
  by (simp add: page2pa_def push_bit_eq_mult algebra_simps)

lemma page2pa_index:
  assumes "k < 1048576"
  shows "unat (PDX (page2pa k)) = k div 1024" and "unat (PTX (page2pa k)) = k mod 1024"
proof -
  have "4096 * k div 4194304 = k div 1024" using div_mult_mult1 [of 4096 k 1024] by simp
  then show "unat (PDX (page2pa k)) = k div 1024" using assms by (simp add: unat_PDX unat_page2pa)
  show "unat (PTX (page2pa k)) = k mod 1024" using assms by (simp add: unat_PTX unat_page2pa)
qed

lemma kvm_store:
  assumes ok: "kvm_ok kd s" and k: "k < 1048576" "k div 1024 \<in> ktabs s kd" and np: "frame (slot s kd (k div 1024)) = np"
    and f: "f < 1048576" and perm: "perm AND NOT 0xFFF = 0"
  shows "\<exists>s'. kst (kv np + 4 * PTX (page2pa k)) (page2pa f OR perm OR PTE_P) s = s' \<and> kvm_ok kd s' \<and> free_pages s' = free_pages s \<and> vm_frame s s' \<and>
    (\<forall>j<1048576. j div 1024 \<noteq> 957 \<longrightarrow> kpage s' kd j = (if j = k then Some (f, perm OR PTE_P) else kpage s kd j))"
proof -
  let ?v = "page2pa f OR perm OR PTE_P"
  let ?s = "set_slot np (k mod 1024) ?v s"
  have low: "(perm OR PTE_P) AND NOT 0xFFF = 0" using perm by (simp add: bit.conj_disj_distrib2)
  have v: "present ?v" "frame ?v = f" "?v AND 0xFFF = perm OR PTE_P"
    using frame_entry [OF f low] low_flags [OF low] present_or [of "page2pa f OR perm"] by (simp_all add: or.assoc)
  have "kst (kv np + 4 * PTX (page2pa k)) ?v s = ?s"
    using kst_entry [of np "PTX (page2pa k)" ?v s] kvm_okD(6) [OF ok k(2)] np page2pa_index(2) [OF k(1)] by simp
  moreover have "free_pages ?s = free_pages s" by (rule pages_ok_cong(2)) simp_all
  ultimately show ?thesis
    using kvm_set_pte [OF ok k, of ?s ?v] v unfolding np by simp
qed

lemma boot_map_loop_ok:
  "kvm_ok kd s \<Longrightarrow> n = (sz - add + 4095) div 4096 \<Longrightarrow> k + n \<le> 1048576 \<Longrightarrow> f + n \<le> 1048576 \<Longrightarrow> perm AND NOT 0xFFF = 0 \<Longrightarrow>
    \<forall>j. k \<le> j \<longrightarrow> j < k + n \<longrightarrow> j div 1024 \<in> kparts \<Longrightarrow>
    \<exists>s'. boot_map_loop (kv kd) add sz (page2pa k) (page2pa f) perm s = Ret () s' \<and> kvm_ok kd s' \<and> free_pages s' \<subseteq> free_pages s \<and>
      vm_frame s s' \<and> (\<forall>j<1048576. j div 1024 \<noteq> 957 \<longrightarrow>
        kpage s' kd j = (if k \<le> j \<and> j < k + n then Some (f + (j - k), perm OR PTE_P) else kpage s kd j))"
proof (induction n arbitrary: add k f s)
  case 0
  then have "\<not> add < sz" by auto
  then show ?case using 0 by (auto simp: boot_map_loop.simps)
next
  case (Suc n)
  have add: "add < sz" using Suc.prems(2) by (cases "add < sz") auto
  have n: "n = (sz - (add + 4096) + 4095) div 4096"
  proof (cases "add + 4096 \<le> sz")
    case True
    then have "sz - add + 4095 = (sz - (add + 4096) + 4095) + 4096" by simp
    then show ?thesis using Suc.prems(2) by simp
  next
    case False
    then have "sz - add + 4095 < 2 * 4096" "sz - (add + 4096) = 0" by auto
    then show ?thesis using Suc.prems(2) by simp
  qed
  have k: "k < 1048576" "f < 1048576" "k div 1024 \<in> kparts" using Suc.prems(3,4,6) by auto
  obtain np s1 where w: "pgdir_walk (kv kd) (page2pa k) True s = Ret (Some (kv np + 4 * PTX (page2pa k))) s1"
    "kvm_ok kd s1" "k div 1024 \<in> ktabs s1 kd" "frame (slot s1 kd (k div 1024)) = np" "free_pages s1 \<subseteq> free_pages s" "vm_frame s s1"
    "\<forall>j<1048576. j div 1024 \<noteq> 957 \<longrightarrow> kpage s1 kd j = kpage s kd j"
    using kwalk_ok [OF Suc.prems(1), of "page2pa k"] k page2pa_index(1) [OF k(1)] by auto
  obtain s2 where s2: "kst (kv np + 4 * PTX (page2pa k)) (page2pa f OR perm OR PTE_P) s1 = s2" "kvm_ok kd s2" "free_pages s2 = free_pages s1" "vm_frame s1 s2"
    "\<forall>j<1048576. j div 1024 \<noteq> 957 \<longrightarrow> kpage s2 kd j = (if j = k then Some (f, perm OR PTE_P) else kpage s1 kd j)"
    using kvm_store [OF w(2) k(1) w(3,4) k(2) Suc.prems(5)] by blast
  obtain s' where s': "boot_map_loop (kv kd) (add + 4096) sz (page2pa (Suc k)) (page2pa (Suc f)) perm s2 = Ret () s'" "kvm_ok kd s'"
    "free_pages s' \<subseteq> free_pages s2" "vm_frame s2 s'"
    "\<forall>j<1048576. j div 1024 \<noteq> 957 \<longrightarrow> kpage s' kd j = (if Suc k \<le> j \<and> j < Suc k + n then Some (Suc f + (j - Suc k), perm OR PTE_P) else kpage s2 kd j)"
    using Suc.IH [OF s2(2) n, of "Suc k" "Suc f"] Suc.prems(3-6) by auto
  have "boot_map_loop (kv kd) add sz (page2pa k) (page2pa f) perm s = Ret () s'"
    using add w(1) s2(1) s'(1) page2pa_Suc [of k] page2pa_Suc [of f] by (simp add: boot_map_loop.simps [of "kv kd" add])
  moreover have "kpage s' kd j = (if k \<le> j \<and> j < k + Suc n then Some (f + (j - k), perm OR PTE_P) else kpage s kd j)"
    if "j < 1048576" "j div 1024 \<noteq> 957" for j
  proof -
    note at_j = spec [OF s'(5), of j, THEN mp, THEN mp, OF that] spec [OF s2(5), of j, THEN mp, THEN mp, OF that]
      spec [OF w(7), of j, THEN mp, THEN mp, OF that]
    consider "j < k" | "j = k" | "k < j" by linarith
    then show ?thesis using at_j by cases (auto simp: Suc_le_eq)
  qed
  moreover have "vm_frame s s'" using w(6) s2(4) s'(4) vm_frame_trans by blast
  moreover have "free_pages s' \<subseteq> free_pages s" using s'(3) s2(3) w(5) by auto
  ultimately show ?case using s'(2) by blast
qed

text \<open>\<open>kspace kd s m\<close>: the directory is well formed and maps page number \<open>j\<close> to \<open>m j\<close>.\<close>

definition kspace :: "nat \<Rightarrow> kstate \<Rightarrow> (nat \<Rightarrow> (nat \<times> u32) option) \<Rightarrow> bool" where
  "kspace kd s m \<longleftrightarrow> kvm_ok kd s \<and> (\<forall>j<1048576. j div 1024 \<noteq> 957 \<longrightarrow> kpage s kd j = m j)"

definition with_region :: "nat \<Rightarrow> nat \<Rightarrow> nat \<Rightarrow> u32 \<Rightarrow> (nat \<Rightarrow> (nat \<times> u32) option) \<Rightarrow> nat \<Rightarrow> (nat \<times> u32) option" where
  "with_region k n f perm m = (\<lambda>j. if k \<le> j \<and> j < k + n then Some (f + (j - k), perm OR PTE_P) else m j)"

definition kstep :: "nat \<Rightarrow> kstate \<Rightarrow> (nat \<Rightarrow> (nat \<times> u32) option) \<Rightarrow> kstate \<Rightarrow> bool" where
  "kstep kd s m s' \<longleftrightarrow> kspace kd s' m \<and> free_pages s' \<subseteq> free_pages s \<and> vm_frame s s'"

lemma kstep_trans: "kstep kd s m t \<Longrightarrow> kstep kd t m' u \<Longrightarrow> kstep kd s m' u"
  by (auto simp: kstep_def intro: vm_frame_trans)

lemma boot_map_region_ok:
  assumes "kspace kd s m" and "va = page2pa k" and "pa = page2pa f" and "n = (unat sz + 4095) div 4096"
    and "977920 \<le> k" and "k + n \<le> 1048576" and "k + n \<le> 979968 \<or> 980992 \<le> k" and "f + n \<le> 1048576" and "perm AND NOT 0xFFF = 0"
  shows "\<exists>s'. boot_map_region (kv kd) va sz pa perm s = Ret () s' \<and> kstep kd s (with_region k n f perm m) s'"
proof -
  have r: "j div 1024 \<in> kparts" if "k \<le> j" "j < k + n" for j
  proof -
    have "j < 979968 \<or> 980992 \<le> j" "977920 \<le> j" "j < 1048576" using that assms(5-7) by linarith+
    then have "j div 1024 < 957 \<or> 958 \<le> j div 1024" "955 \<le> j div 1024" "j div 1024 < 1024" by auto
    then show ?thesis by auto
  qed
  have ok: "kvm_ok kd s" using assms(1) by (simp add: kspace_def)
  obtain s' where s': "boot_map_loop (kv kd) 0 (unat sz) (page2pa k) (page2pa f) perm s = Ret () s'" "kvm_ok kd s'" "free_pages s' \<subseteq> free_pages s"
    "vm_frame s s'" "\<forall>j<1048576. j div 1024 \<noteq> 957 \<longrightarrow>
        kpage s' kd j = (if k \<le> j \<and> j < k + n then Some (f + (j - k), perm OR PTE_P) else kpage s kd j)"
    using boot_map_loop_ok [OF ok, of n "unat sz" 0 k f perm] assms(4,6,8,9) r by auto
  have "kspace kd s' (with_region k n f perm m)"
    using s'(2,5) assms(1) unfolding kspace_def with_region_def by simp
  then show ?thesis using s' unfolding boot_map_region_def assms(2,3) kstep_def by blast
qed

lemma PADDR_kv: "f < 65536 \<Longrightarrow> PADDR (kv f) s = Ret (page2pa f) s"
  using kv_ge [of f] by (simp add: PADDR_def not_less [symmetric])

text \<open>Below \<^verbatim>\<open>KSTACKTOP\<close> eight pages of every processor's stack alternate with eight pages that are not mapped.\<close>

primrec with_stacks :: "nat \<Rightarrow> nat \<Rightarrow> (nat \<Rightarrow> (nat \<times> u32) option) \<Rightarrow> nat \<Rightarrow> (nat \<times> u32) option" where
  "with_stacks sf 0 m = m"
| "with_stacks sf (Suc i) m = with_region (983032 - 16 * i) 8 (sf + 8 * i) (PTE_W OR PTE_P) (with_stacks sf i m)"

lemma stack_addresses:
  assumes "i < 8"
  shows "KSTACKTOP - KSTKSIZE - of_nat i * (KSTKSIZE + KSTKGAP) = page2pa (983032 - 16 * i)"
    and "kv sf + of_nat i * KSTKSIZE = kv (sf + 8 * i)"
proof -
  have "i \<in> {0, 1, 2, 3, 4, 5, 6, 7}" using assms by auto
  then show "KSTACKTOP - KSTKSIZE - of_nat i * (KSTKSIZE + KSTKGAP) = page2pa (983032 - 16 * i)"
    by (auto simp: page2pa_def)
  show "kv sf + of_nat i * KSTKSIZE = kv (sf + 8 * i)"
    by (simp add: page2pa_def push_bit_eq_mult algebra_simps)
qed

lemma mem_init_mp_ok:
  assumes "kspace kd s m" and "sf + 64 \<le> 65536"
  shows "\<exists>s'. mem_init_mp (kv sf) s = Ret () s' \<and> kstep kd s (with_stacks sf 8 m) s'"
  unfolding mem_init_mp_def
proof (rule kfor_upt_invariant)
  show "kstep kd s (with_stacks sf 0 m) s" using assms(1) by (simp add: kstep_def)
next
  fix i t
  assume i: "0 \<le> i" "i < 8" and t: "kstep kd s (with_stacks sf i m) t"
  have kp: "kern_pgdir t = kv kd" using t kvm_okD(5) by (simp add: kstep_def kspace_def)
  have "\<exists>u. boot_map_region (kv kd) (KSTACKTOP - KSTKSIZE - of_nat i * (KSTKSIZE + KSTKGAP)) KSTKSIZE (page2pa (sf + 8 * i)) (PTE_W OR PTE_P) t = Ret () u \<and>
    kstep kd t (with_region (983032 - 16 * i) 8 (sf + 8 * i) (PTE_W OR PTE_P) (with_stacks sf i m)) u"
  proof (rule boot_map_region_ok [OF _ stack_addresses(1) [OF i(2)] refl])
    show "kspace kd t (with_stacks sf i m)" using t by (simp add: kstep_def)
  qed (use i(2) assms(2) in auto)
  then obtain u where u: "boot_map_region (kv kd) (KSTACKTOP - KSTKSIZE - of_nat i * (KSTKSIZE + KSTKGAP)) KSTKSIZE (page2pa (sf + 8 * i)) (PTE_W OR PTE_P) t = Ret () u"
    "kstep kd t (with_region (983032 - 16 * i) 8 (sf + 8 * i) (PTE_W OR PTE_P) (with_stacks sf i m)) u" by blast
  have "PADDR (kv sf + of_nat i * KSTKSIZE) t = Ret (page2pa (sf + 8 * i)) t"
    unfolding stack_addresses(2) [OF i(2)] by (rule PADDR_kv) (use i(2) assms(2) in simp)
  then show "\<exists>u. kbind (PADDR (kv sf + of_nat i * KSTKSIZE)) (\<lambda>pa. kbind (kget kern_pgdir) (\<lambda>pgdir.
       boot_map_region pgdir (KSTACKTOP - KSTKSIZE - of_nat i * (KSTKSIZE + KSTKGAP)) KSTKSIZE pa (PTE_W OR PTE_P))) t = Ret () u \<and>
     kstep kd s (with_stacks sf (Suc i) m) u"
    using u kp kstep_trans [OF t u(2)] by simp
qed simp

section \<open>The address space of the kernel\<close>

text \<open>What the kernel's directory maps when \<open>mem_init\<close> is done: the arrays of pages and environments, readable
  by everybody, at \<^verbatim>\<open>UPAGES\<close> and \<^verbatim>\<open>UENVS\<close>; the stacks; all of physical memory from \<^verbatim>\<open>KERNBASE\<close> on. \<open>pf\<close>, \<open>ef\<close> and
  \<open>sf\<close> are the frames of the arrays and of the stacks.\<close>

definition kernel_map :: "nat \<Rightarrow> nat \<Rightarrow> nat \<Rightarrow> nat \<Rightarrow> (nat \<times> u32) option" where
  "kernel_map pf ef sf j =
     (let below = 983039 - j in
      if 983040 \<le> j then Some (j - 983040, PTE_W OR PTE_P)
      else if below div 16 < NCPU \<and> below mod 16 < 8 then Some (sf + 8 * (below div 16) + (7 - below mod 16), PTE_W OR PTE_P)
      else if 978944 \<le> j \<and> j < 979968 then Some (pf + (j - 978944), PTE_U OR PTE_P)
      else if 977920 \<le> j \<and> j < 978944 then Some (ef + (j - 977920), PTE_U OR PTE_P)
      else None)"

lemma with_stacks_eq:
  "n \<le> 8 \<Longrightarrow> with_stacks sf n m j =
    (if j < 983040 \<and> (983039 - j) div 16 < n \<and> (983039 - j) mod 16 < 8
     then Some (sf + 8 * ((983039 - j) div 16) + (7 - (983039 - j) mod 16), PTE_W OR PTE_P) else m j)"
proof (induction n)
  case (Suc n)
  let ?q = "(983039 - j) div 16" and ?r = "(983039 - j) mod 16"
  have qr: "983039 - j = 16 * ?q + ?r" "?r < 16" by simp_all
  have iff: "983032 - 16 * n \<le> j \<and> j < 983032 - 16 * n + 8 \<longleftrightarrow> j < 983040 \<and> ?q = n \<and> ?r < 8"
  proof
    assume a: "983032 - 16 * n \<le> j \<and> j < 983032 - 16 * n + 8"
    then have t: "983039 - j < 16 * n + 8" "16 * n \<le> 983039 - j" "j < 983040" using Suc.prems by linarith+
    then have "(983039 - j) - 16 * n < 8" by linarith
    then obtain d where d: "983039 - j = d + 16 * n" "d < 8" using t(2) by (metis add.commute le_add_diff_inverse)
    then show "j < 983040 \<and> ?q = n \<and> ?r < 8" using t(3) by simp
  next
    assume "j < 983040 \<and> ?q = n \<and> ?r < 8"
    then show "983032 - 16 * n \<le> j \<and> j < 983032 - 16 * n + 8" using qr Suc.prems by linarith
  qed
  show ?case
  proof (cases "j < 983040 \<and> ?q = n \<and> ?r < 8")
    case True
    then have "j - (983032 - 16 * n) = 7 - ?r" using qr iff Suc.prems by linarith
    then show ?thesis using True iff by (simp add: with_region_def)
  next
    case False
    then show ?thesis using iff Suc by (auto simp: with_region_def less_Suc_eq)
  qed
qed simp

lemma mem_init_map_ok:
  assumes "kspace kd s (\<lambda>_. None)" and "pf + 1024 \<le> 65536" and "ef + 1024 \<le> 65536" and "bf + 8 \<le> 65536" and "sf + 64 \<le> 65536"
  shows "\<exists>s'. mem_init_map (kv pf) (kv ef) (kv bf) (kv sf) s = Ret () (lcr3 (page2pa kd) s') \<and> kstep kd s (kernel_map pf ef sf) s'"
proof -
  have D: "kern_pgdir t = kv kd" if "kstep kd s m t" for m t using that kvm_okD(5) by (simp add: kstep_def kspace_def)
  have S: "kspace kd t m" if "kstep kd u m t" for m u t using that by (simp add: kstep_def)
  have A: "UPAGES = page2pa 978944" "UENVS = page2pa 977920" "KSTACKTOP - KSTKSIZE = page2pa 983032" "KERNBASE = page2pa 983040" "0 = page2pa 0"
    by (simp_all add: page2pa_def)
  let ?m1 = "with_region 978944 1024 pf PTE_U (\<lambda>_. None)"
  have "\<exists>s1. boot_map_region (kv kd) UPAGES PTSIZE (page2pa pf) PTE_U s = Ret () s1 \<and> kstep kd s ?m1 s1"
    by (rule boot_map_region_ok [OF assms(1) A(1) refl]) (use assms in simp_all)
  then obtain s1 where s1: "boot_map_region (kv kd) UPAGES PTSIZE (page2pa pf) PTE_U s = Ret () s1" "kstep kd s ?m1 s1" by blast
  let ?m2 = "with_region 977920 1024 ef PTE_U ?m1"
  have "\<exists>s2. boot_map_region (kv kd) UENVS PTSIZE (page2pa ef) PTE_U s1 = Ret () s2 \<and> kstep kd s1 ?m2 s2"
    by (rule boot_map_region_ok [OF S [OF s1(2)] A(2) refl]) (use assms in simp_all)
  then obtain s2 where s2: "boot_map_region (kv kd) UENVS PTSIZE (page2pa ef) PTE_U s1 = Ret () s2" "kstep kd s1 ?m2 s2" by blast
  let ?m3 = "with_region 983032 8 bf PTE_W ?m2"
  have "\<exists>s3. boot_map_region (kv kd) (KSTACKTOP - KSTKSIZE) KSTKSIZE (page2pa bf) PTE_W s2 = Ret () s3 \<and> kstep kd s2 ?m3 s3"
    by (rule boot_map_region_ok [OF S [OF s2(2)] A(3) refl]) (use assms in simp_all)
  then obtain s3 where s3: "boot_map_region (kv kd) (KSTACKTOP - KSTKSIZE) KSTKSIZE (page2pa bf) PTE_W s2 = Ret () s3" "kstep kd s2 ?m3 s3" by blast
  obtain s4 where s4: "mem_init_mp (kv sf) s3 = Ret () s4" "kstep kd s3 (with_stacks sf 8 ?m3) s4"
    using mem_init_mp_ok [OF S [OF s3(2)] assms(5)] by blast
  let ?m5 = "with_region 983040 65536 0 PTE_W (with_stacks sf 8 ?m3)"
  have "\<exists>s5. boot_map_region (kv kd) KERNBASE (0xFFFFFFFF - KERNBASE) 0 PTE_W s4 = Ret () s5 \<and> kstep kd s4 ?m5 s5"
    by (rule boot_map_region_ok [OF S [OF s4(2)] A(4) A(5)]) (use assms in simp_all)
  then obtain s5 where s5: "boot_map_region (kv kd) KERNBASE (0xFFFFFFFF - KERNBASE) 0 PTE_W s4 = Ret () s5" "kstep kd s4 ?m5 s5" by blast
  have k: "kstep kd s ?m5 s5" using s1(2) s2(2) s3(2) s4(2) s5(2) kstep_trans by blast
  have "?m5 j = kernel_map pf ef sf j" if "j < 1048576" for j
    using that unfolding with_region_def with_stacks_eq [OF order_refl] kernel_map_def Let_def by auto
  then have M: "kstep kd s (kernel_map pf ef sf) s5" using k by (simp add: kstep_def kspace_def)
  have kd: "kern_pgdir s = kv kd" "kd < 65536" using assms(1) kvm_okD(3,5) by (auto simp: kspace_def)
  have "mem_init_map (kv pf) (kv ef) (kv bf) (kv sf) s = Ret () (lcr3 (page2pa kd) s5)"
    using s1(1) s2(1) s3(1) s4(1) s5(1) PADDR_kv [of pf] PADDR_kv [of ef] PADDR_kv [of bf] PADDR_kv [OF kd(2)] assms(2-4) kd(1)
    by (simp add: mem_init_map_def)
  then show ?thesis using M by blast
qed

end
