(* ===== verification/Boot_Memory.thy ===== *)
theory Boot_Memory
  imports Kernel_Space Sample_State
begin

text \<open>
  The first half of \<open>mem_init\<close>: where the boot allocator puts the kernel's directory and arrays, which
  pages are free afterwards, and that the second half finds what it needs. The result for the whole start
  of memory management is that the kernel invariant holds, from which every other theory sets out.
\<close>

section \<open>The boot allocator by frames\<close>

lemma kv_add: "kv a + page2pa m = kv (a + m)"
  by (simp add: page2pa_def push_bit_eq_mult algebra_simps)

lemma unat_kv: "a < 65536 \<Longrightarrow> unat (kv a) = 4096 * a + 0xF0000000"
  by (simp add: unat_word_ariths unat_page2pa)

lemma kv_nonzero: "a < 65536 \<Longrightarrow> kv a \<noteq> 0"
  using kv_ge [of a] by auto

lemma ROUNDUP_frames:
  assumes "unat n \<le> 268435456"
  shows "ROUNDUP n PGSIZE = page2pa ((unat n + 4095) div 4096)"
proof (rule word_eq_unatI)
  have "(unat n + 4095) div 4096 \<le> 65536" using assms by linarith
  then show "unat (ROUNDUP n PGSIZE) = unat (page2pa ((unat n + 4095) div 4096))"
    using assms by (simp add: unat_ROUNDUP_PGSIZE unat_page2pa)
qed

lemma ROUNDUP_kend:
  assumes "0xF0100000 \<le> kend" and "kend \<le> 0xF0400000"
  shows "\<exists>a. ROUNDUP kend PGSIZE = kv a \<and> 256 \<le> a \<and> a \<le> 1024"
proof -
  have u: "4027580416 \<le> unat kend" "unat kend \<le> 4030726144" using assms by (simp_all add: word_le_nat_alt)
  let ?a = "(unat kend + 4095) div 4096 - 983040"
  have a: "256 \<le> ?a" "?a \<le> 1024" using u by linarith+
  have "ROUNDUP kend PGSIZE = kv ?a"
    by (rule word_eq_unatI) (use a u in \<open>simp add: unat_kv unat_ROUNDUP_PGSIZE diff_mult_distrib2\<close>)
  then show ?thesis using a by blast
qed

lemma boot_alloc_frames:
  assumes "nextfree s = kv a" and "a < 65536" and "n \<noteq> 0" and "unat n \<le> 268435456" and "m = (unat n + 4095) div 4096"
    and "a + m < unat (npages s)" and "unat (npages s) \<le> 65536"
  shows "boot_alloc kend n s = Ret (kv a) (s\<lparr>nextfree := kv (a + m)\<rparr>)"
proof -
  have ne: "kv a \<noteq> 0" using assms(2) by (rule kv_nonzero)
  have nf: "ROUNDUP n PGSIZE + kv a = kv (a + m)"
    using ROUNDUP_frames [OF assms(4)] kv_add [of a m] assms(5) by (simp add: add.commute)
  have "unat (page2pa (a + m)) = 4096 * (a + m)" using assms(6,7) by (intro unat_page2pa) linarith
  moreover have "unat (npages s * PGSIZE) = unat (npages s) * 4096" using assms(7) by (simp add: unat_word_ariths)
  ultimately have "\<not> kv (a + m) - KERNBASE > npages s * PGSIZE" using assms(6) by (simp add: word_less_nat_alt)
  then show ?thesis using ne nf assms(1,3) by (simp add: boot_alloc_def Let_def)
qed

lemma page_init_frame:
  assumes "page_init kend s = Ret () s'" and "nextfree s \<noteq> 0"
  shows "phys s' = phys s" and "npages s' = npages s" and "kern_pgdir s' = kern_pgdir s" and "envs s' = envs s"
    and "cpus s' = cpus s" and "cpunum s' = cpunum s"
proof -
  have f: "phys (fold (page_init_step io us) xs t) = phys t \<and> npages (fold (page_init_step io us) xs t) = npages t \<and>
    kern_pgdir (fold (page_init_step io us) xs t) = kern_pgdir t \<and> envs (fold (page_init_step io us) xs t) = envs t \<and>
    cpus (fold (page_init_step io us) xs t) = cpus t \<and> cpunum (fold (page_init_step io us) xs t) = cpunum t" for io us xs t
    by (induction xs arbitrary: t) (simp_all add: page_init_step_alt)
  obtain io us where "s' = fold (page_init_step io us) [0..<unat (npages s)] s"
    using assms by (auto simp: page_init_def boot_alloc_0 PADDR_def Let_def split: if_splits)
  then show "phys s' = phys s" "npages s' = npages s" "kern_pgdir s' = kern_pgdir s" "envs s' = envs s"
    "cpus s' = cpus s" "cpunum s' = cpunum s" using f by simp_all
qed

section \<open>The first half of \<open>mem_init\<close>\<close>

lemma slot_cleared:
  assumes "f < 65536" and "j < 1024"
  shows "slot (kmemset (kv f) 0 4096 s) f j = 0"
proof -
  have "unat (kv f - KERNBASE) = 4096 * f" using assms(1) by (simp add: unat_page2pa)
  then show ?thesis using assms(2) by (simp add: slot_def load32_mem_fill_zero)
qed

text \<open>The memory size and the image of the kernel in the first four megabytes, as the boot loader leaves the machine.\<close>

definition boot_state :: "(u32 \<Rightarrow> u8) \<Rightarrow> u32 \<Rightarrow> kstate \<Rightarrow> bool" where
  "boot_state cmos kend s \<longleftrightarrow> page_free_list s = None \<and> nextfree s = 0 \<and> 0xF0100000 \<le> kend \<and> kend \<le> 0xF0400000 \<and>
     (\<exists>t. i386_detect_memory cmos s = Ret () t \<and> 4096 \<le> unat (npages t) \<and> unat (npages t) \<le> 65536 \<and> npages_basemem t = 160)"

lemma detect_frame:
  assumes "i386_detect_memory cmos s = Ret u t"
  shows "page_free_list t = page_free_list s" and "nextfree t = nextfree s" and "cpus t = cpus s" and "cpunum t = cpunum s"
  using assms by (auto simp: i386_detect_memory_def Let_def kprintf_def kthen_def)

lemma pages_used_at_boot:
  assumes "256 \<le> n" and "n < 65536" and "p < 65536"
  shows "boot_used 160 0x60 ((kv n - KERNBASE - EXTPHYSMEM) div PGSIZE) p \<longleftrightarrow> p = 0 \<or> p = 7 \<or> 160 \<le> p \<and> p < n"
proof -
  have "unat (page2pa n - EXTPHYSMEM) = 4096 * n - 1048576"
    using assms(1,2) by (subst unat_sub) (simp_all add: word_le_nat_alt unat_page2pa)
  then have u: "unat ((kv n - KERNBASE - EXTPHYSMEM) div PGSIZE) = n - 256" using assms(1) by (simp add: unat_div)
  have "unat (160 + 0x60 + (kv n - KERNBASE - EXTPHYSMEM) div PGSIZE) = n"
    using u assms(1,2) by (subst unat_add_lt32) simp_all
  moreover have "unat (of_nat p :: u32) = p" using assms(3) by (simp add: unat_of_nat take_bit_nat_eq_self)
  ultimately show ?thesis by (auto simp: boot_used_def word_le_nat_alt word_less_nat_alt word_unat_eq_iff)
qed

lemma no_kernel_tables:
  assumes "\<And>j. j < 1024 \<Longrightarrow> slot s kd j = (if j = 957 then v else 0)"
  shows "ktabs s kd = {}" and "j < 1048576 \<Longrightarrow> j div 1024 \<noteq> 957 \<Longrightarrow> kpage s kd j = None"
  using assms by (auto simp: ktabs_def kpage_def Let_def)

lemma mem_init_alloc_ok:
  assumes b: "boot_state cmos kend s"
  shows "\<exists>kd pf ef t. mem_init_alloc cmos kend s = Ret (kv pf, kv ef) t \<and> kspace kd t (\<lambda>_. None) \<and>
    pf + 1024 \<le> 65536 \<and> ef + 1024 \<le> 65536 \<and> slot t kd 957 = (page2pa kd OR PTE_U OR PTE_P) \<and>
    free_pages t = {p. p < unat (npages t) \<and> p \<noteq> 0 \<and> p \<noteq> 7 \<and> \<not> (160 \<le> p \<and> p < ef + 31)} \<and>
    256 \<le> kd \<and> pf = kd + 1 \<and> pf < ef \<and> ef + 31 < 1200 \<and> 8 * unat (npages t) \<le> 4096 * (ef - pf) \<and> 4096 \<le> unat (npages t) \<and>
    cpus t = cpus s \<and> cpunum t = cpunum s"
proof -
  note B = b [unfolded boot_state_def]
  from B obtain s1 where det: "i386_detect_memory cmos s = Ret () s1" and np: "4096 \<le> unat (npages s1)" "unat (npages s1) \<le> 65536"
    and bm: "npages_basemem s1 = 160" by blast
  note F = detect_frame [OF det]
  have s: "page_free_list s1 = None" "nextfree s1 = 0" using B F by simp_all
  obtain kd where kd: "ROUNDUP kend PGSIZE = kv kd" "256 \<le> kd" "kd \<le> 1024" using ROUNDUP_kend B by blast
  define m where "m = (8 * unat (npages s1) + 4095) div 4096"
  have m: "m \<le> 128" "1 \<le> m" "8 * unat (npages s1) \<le> 4096 * m" using np unfolding m_def by linarith+
  have n8: "unat (npages s1 * 8) = 8 * unat (npages s1)" using np(2) by (simp add: unat_word_ariths)
  let ?t1 = "s1\<lparr>nextfree := kv (kd + 1)\<rparr>"
  have a1: "boot_alloc kend PGSIZE s1 = Ret (kv kd) ?t1"
  proof -
    have "boot_alloc kend PGSIZE (s1\<lparr>nextfree := kv kd\<rparr>) = Ret (kv kd) ?t1"
      using boot_alloc_frames [of "s1\<lparr>nextfree := kv kd\<rparr>" kd PGSIZE 1 kend] kd np by simp
    moreover have "kv kd \<noteq> 0" using kd(3) by (intro kv_nonzero) simp
    ultimately show ?thesis using s(2) kd(1) by (simp add: boot_alloc_def Let_def)
  qed
  let ?t2 = "kmemset (kv kd) 0 4096 (?t1\<lparr>kern_pgdir := kv kd\<rparr>)"
  let ?t3 = "set_slot kd 957 (page2pa kd OR PTE_U OR PTE_P) ?t2"
  have k3: "kst (kv kd + 4 * PDX UVPT) (page2pa kd OR PTE_U OR PTE_P) ?t2 = ?t3"
    using kst_entry [of kd "PDX UVPT"] kd(3) by (simp add: PDX_def)
  let ?t4 = "?t3\<lparr>nextfree := kv (kd + 1 + m)\<rparr>"
  have a2: "boot_alloc kend (npages s1 * 8) ?t3 = Ret (kv (kd + 1)) ?t4"
    using kd(3) m np n8 by (intro boot_alloc_frames) (auto simp: m_def set_slot_def kmemset_def word_unat_eq_iff)
  let ?t5 = "?t4\<lparr>pages := (\<lambda>_. \<lparr>pp_link = None, pp_ref = 0\<rparr>)\<rparr>"
  let ?t6 = "?t5\<lparr>nextfree := kv (kd + 1 + m + 31)\<rparr>"
  have a3: "boot_alloc kend (of_nat NENV * 124) ?t5 = Ret (kv (kd + 1 + m)) ?t6"
    using kd(3) m np by (intro boot_alloc_frames) auto
  let ?t7 = "?t6\<lparr>envs := (\<lambda>_. zero_Env)\<rparr>"
  let ?n = "kd + 1 + m + 31"
  have n: "256 \<le> ?n" "?n < 1200" using kd m by linarith+
  have nf: "nextfree ?t7 = kv ?n" "kv ?n \<ge> KERNBASE" "kv ?n \<noteq> 0" using kv_ge [of ?n] n by auto
  have t7: "npages ?t7 = npages s1" "page_free_list ?t7 = None" "npages_basemem ?t7 = 160" "kern_pgdir ?t7 = kv kd"
    "cpus ?t7 = cpus s1" "cpunum ?t7 = cpunum s1" "phys ?t7 = phys ?t3"
    using s bm by (simp_all add: set_slot_def kmemset_def)
  let ?u = "boot_used 160 0x60 ((kv ?n - KERNBASE - EXTPHYSMEM) div PGSIZE)"
  have used: "?u p \<longleftrightarrow> p = 0 \<or> p = 7 \<or> 160 \<le> p \<and> p < ?n" if "p < unat (npages s1)" for p
    using pages_used_at_boot [of ?n p] n that np(2) by simp
  obtain t where t: "page_init kend ?t7 = Ret () t" "pages_ok t" "free_pages t = {p. p < unat (npages s1) \<and> \<not> ?u p}"
    "\<forall>p<unat (npages s1). pp_ref (pages t p) = (if ?u p then 1 else 0)"
    using page_init_spec [of ?t7 kend] np(2) nf t7 by auto
  note fr = page_init_frame [OF t(1)]
  have f: "free_pages t = {p. p < unat (npages s1) \<and> p \<noteq> 0 \<and> p \<noteq> 7 \<and> \<not> (160 \<le> p \<and> p < ?n)}"
    using t(3) used by auto
  have sl: "slot t kd j = (if j = 957 then page2pa kd OR PTE_U OR PTE_P else 0)" if "j < 1024" for j
  proof -
    have "slot t kd j = slot ?t3 kd j" using fr(1) nf(1,3) t7(7) by (simp add: slot_def)
    then show ?thesis using that kd(3) slot_cleared [of kd j] by (simp add: slot_set_slot)
  qed
  have K: "ktabs t kd = {}" "\<And>j. j < 1048576 \<Longrightarrow> j div 1024 \<noteq> 957 \<Longrightarrow> kpage t kd j = None"
    using no_kernel_tables [of t kd "page2pa kd OR PTE_U OR PTE_P"] sl by blast+
  have "kvm_ok kd t"
    unfolding kvm_ok_def K(1)
  proof (intro conjI)
    have "p \<in> free_pages t" if "p \<in> {1200..<4096}" for p
    proof -
      have "1200 \<le> p" "p < 4096" using that by simp_all
      then have "p < unat (npages s1)" "p \<noteq> 0" "p \<noteq> 7" "\<not> p < ?n" using n(2) np(1) by linarith+
      then show ?thesis unfolding f by blast
    qed
    then have "{1200..<4096} \<subseteq> free_pages t" by blast
    moreover have "finite (free_pages t)" using free_pages_finite [OF t(2)] .
    ultimately have "card {1200..<4096::nat} \<le> card (free_pages t)" by (rule card_mono [rotated])
    moreover have "card (kparts - {}) \<le> 69" by (rule order_trans [OF card_mono [of "{955..<1024}"]]) auto
    ultimately show "card (kparts - {}) \<le> card (free_pages t)" by simp
    show "pp_ref (pages t kd) \<noteq> 0" using t(4) used [of kd] kd np(1) by simp
    show "kd < unat (npages t)" "kern_pgdir t = kv kd" using fr(2,3) nf(1,3) t7(1,4) kd(3) np(1) by simp_all
    show "kd \<notin> free_pages t" unfolding f using kd(2) by auto
  qed (use t(2) in simp_all)
  then have "kspace kd t (\<lambda>_. None)" using K(2) by (simp add: kspace_def)
  moreover have "mem_init_alloc cmos kend s = Ret (kv (kd + 1), kv (kd + 1 + m)) t"
    using det a1 a2 a3 k3 t(1) PADDR_kv [of kd ?t2] kd(3) by (simp add: mem_init_alloc_def)
  ultimately show ?thesis
    using sl [of 957] f fr nf t7 F kd m np n
    by (intro exI [of _ kd] exI [of _ "kd + 1"] exI [of _ "kd + 1 + m"] exI [of _ t]) (simp add: add.assoc)
qed

section \<open>Properties\<close>

lemma lcr3_simps [simp]:
  "pages (lcr3 pa s) = pages s" "page_free_list (lcr3 pa s) = page_free_list s" "npages (lcr3 pa s) = npages s"
  "kern_pgdir (lcr3 pa s) = kern_pgdir s" "slot (lcr3 pa s) f i = slot s f i" "cr3 (lcr3 pa s) = pa"
  "cpus (lcr3 pa s) = cpus s" "cpunum (lcr3 pa s) = cpunum s"
  by (simp_all add: lcr3_def slot_def)

text \<open>Both halves in a row.\<close>

lemma mem_init_halves:
  assumes "boot_state cmos kend s" and "bf + 8 \<le> 65536" and "sf + 64 \<le> 65536"
  shows "\<exists>kd pf ef t u. mem_init_alloc cmos kend s = Ret (kv pf, kv ef) t \<and>
    mem_init_map (kv pf) (kv ef) (kv bf) (kv sf) t = Ret () (lcr3 (page2pa kd) u) \<and> kspace kd u (kernel_map pf ef sf) \<and>
    free_pages u \<subseteq> {p. p < unat (npages u) \<and> p \<noteq> 0 \<and> p \<noteq> 7 \<and> \<not> (160 \<le> p \<and> p < ef + 31)} \<and>
    256 \<le> kd \<and> pf = kd + 1 \<and> pf < ef \<and> 8 * unat (npages u) \<le> 4096 * (ef - pf) \<and> cpus u = cpus s \<and> cpunum u = cpunum s"
proof -
  obtain kd pf ef t where t: "mem_init_alloc cmos kend s = Ret (kv pf, kv ef) t" "kspace kd t (\<lambda>_. None)"
    "pf + 1024 \<le> 65536" "ef + 1024 \<le> 65536"
    "free_pages t = {p. p < unat (npages t) \<and> p \<noteq> 0 \<and> p \<noteq> 7 \<and> \<not> (160 \<le> p \<and> p < ef + 31)}"
    "256 \<le> kd" "pf = kd + 1" "pf < ef" "8 * unat (npages t) \<le> 4096 * (ef - pf)" "cpus t = cpus s" "cpunum t = cpunum s"
    using mem_init_alloc_ok [OF assms(1)] by blast
  obtain u where u: "mem_init_map (kv pf) (kv ef) (kv bf) (kv sf) t = Ret () (lcr3 (page2pa kd) u)" "kstep kd t (kernel_map pf ef sf) u"
    using mem_init_map_ok [OF t(2,3,4) assms(2,3)] by blast
  have "npages u = npages t" "cpus u = cpus t" "cpunum u = cpunum t" using u(2) by (simp_all add: kstep_def vm_frame_def)
  then show ?thesis
    using t u by (intro exI [of _ kd] exI [of _ pf] exI [of _ ef] exI [of _ t] exI [of _ u]) (simp add: kstep_def)
qed

text \<open>(C4) The start of memory management, on a machine with at least 16 and at most 256 megabytes whose kernel
  image ends in the first four: neither half of \<open>mem_init\<close> panics, and the directory that \<^verbatim>\<open>cr3\<close> is switched to maps
  physical memory at \<^verbatim>\<open>KERNBASE\<close>, the arrays of pages and environments readable by users at \<^verbatim>\<open>UPAGES\<close> and \<^verbatim>\<open>UENVS\<close>,
  eight stacks with unmapped pages between them, and nothing else outside \<^verbatim>\<open>UVPT\<close>. No page of the directory or of the arrays is free.\<close>

theorem mem_init_correct:
  assumes "boot_state cmos kend s" and "bf + 8 \<le> 65536" and "sf + 64 \<le> 65536"
  shows "\<exists>kd pf ef t u. mem_init_alloc cmos kend s = Ret (kv pf, kv ef) t \<and> mem_init_map (kv pf) (kv ef) (kv bf) (kv sf) t = Ret () u \<and>
    cr3 u = page2pa kd \<and> kern_pgdir u = kv kd \<and> pages_ok u \<and>
    (\<forall>va. unat (PDX va) \<noteq> 957 \<longrightarrow> vmap u kd va = kernel_map pf ef sf (unat va div 4096)) \<and>
    pf = kd + 1 \<and> 8 * unat (npages u) \<le> 4096 * (ef - pf) \<and> (\<forall>p\<in>free_pages u. p < kd \<or> ef + 31 \<le> p)"
proof -
  obtain kd pf ef t u where u: "mem_init_alloc cmos kend s = Ret (kv pf, kv ef) t"
    "mem_init_map (kv pf) (kv ef) (kv bf) (kv sf) t = Ret () (lcr3 (page2pa kd) u)" "kspace kd u (kernel_map pf ef sf)"
    "free_pages u \<subseteq> {p. p < unat (npages u) \<and> p \<noteq> 0 \<and> p \<noteq> 7 \<and> \<not> (160 \<le> p \<and> p < ef + 31)}"
    "256 \<le> kd" "pf = kd + 1" "8 * unat (npages u) \<le> 4096 * (ef - pf)"
    using mem_init_halves [OF assms] by blast
  let ?u = "lcr3 (page2pa kd) u"
  have ok: "kvm_ok kd u" using u(3) by (simp add: kspace_def)
  have eq: "pages_ok ?u = pages_ok u" "free_pages ?u = free_pages u" by (rule pages_ok_cong; simp)+
  have "vmap ?u kd va = kernel_map pf ef sf (unat va div 4096)" if "unat (PDX va) \<noteq> 957" for va
  proof -
    have "unat va div 4096 < 1048576" using unat_lt32 [of va] by linarith
    moreover have "unat va div 4096 div 1024 \<noteq> 957" using that by (simp add: unat_PDX div_mult2_eq [symmetric])
    ultimately have "kpage u kd (unat va div 4096) = kernel_map pf ef sf (unat va div 4096)" using u(3) by (simp add: kspace_def)
    then show ?thesis by (simp add: vmap_kpage kpage_def)
  qed
  moreover have "p < kd \<or> ef + 31 \<le> p" if "p \<in> free_pages ?u" for p
    using subsetD [OF u(4), of p] that u(5) unfolding eq by auto
  ultimately show ?thesis
    using u(1,2,6,7) kvm_okD(1,5) [OF ok] eq(1)
    by (intro exI [of _ kd] exI [of _ pf] exI [of _ ef] exI [of _ t] exI [of _ ?u]) simp
qed

lemma env_init_frame [simp]:
  "pages (env_init s) = pages s" "page_free_list (env_init s) = page_free_list s" "npages (env_init s) = npages s"
  "kern_pgdir (env_init s) = kern_pgdir s" "cpus (env_init s) = cpus s" "cpunum (env_init s) = cpunum s"
proof -
  have "pages (fold env_init_step xs t) = pages t \<and> page_free_list (fold env_init_step xs t) = page_free_list t \<and>
    npages (fold env_init_step xs t) = npages t \<and> kern_pgdir (fold env_init_step xs t) = kern_pgdir t \<and>
    cpus (fold env_init_step xs t) = cpus t \<and> cpunum (fold env_init_step xs t) = cpunum t" for xs t
    by (induction xs arbitrary: t) (simp_all add: env_init_step_def)
  then show "pages (env_init s) = pages s" "page_free_list (env_init s) = page_free_list s" "npages (env_init s) = npages s"
    "kern_pgdir (env_init s) = kern_pgdir s" "cpus (env_init s) = cpus s" "cpunum (env_init s) = cpunum s"
    by (simp_all add: env_init_def)
qed

text \<open>(C3) The kernel invariant, on which the properties of system calls and traps rest, holds when the processor that
  boots has run \<open>mem_init\<close> and \<open>env_init\<close>: no environment is live, every free page is unreferenced, and the
  directory of the kernel is held.\<close>

theorem boot_establishes_invariant:
  assumes "boot_state cmos kend s" and "bf + 8 \<le> 65536" and "sf + 64 \<le> 65536" and "cpu_env (cpus s (cpunum s)) = None"
  shows "\<exists>kd pf ef t u. mem_init_alloc cmos kend s = Ret (kv pf, kv ef) t \<and> mem_init_map (kv pf) (kv ef) (kv bf) (kv sf) t = Ret () u \<and>
    kernel_ok kd (\<lambda>q. unat (pp_ref (pages u q))) (env_init u)"
proof -
  obtain kd pf ef t u where u: "mem_init_alloc cmos kend s = Ret (kv pf, kv ef) t"
    "mem_init_map (kv pf) (kv ef) (kv bf) (kv sf) t = Ret () (lcr3 (page2pa kd) u)" "kspace kd u (kernel_map pf ef sf)"
    "cpus u = cpus s" "cpunum u = cpunum s" using mem_init_halves [OF assms(1-3)] by blast
  let ?u = "lcr3 (page2pa kd) u" and ?e = "env_init (lcr3 (page2pa kd) u)"
  note K = kvm_okD [of kd u]
  have ok: "kvm_ok kd u" using u(3) by (simp add: kspace_def)
  have tab: "env_table ?e [0..<NENV]" using env_init_spec [of ?u] by blast
  then have "{0..<NENV} = {i. i < NENV \<and> env_status (envs ?e i) = ENV_FREE}" unfolding env_table_def set_upt by blast
  then have none: "live ?e = {}" unfolding live_def atLeast0LessThan by blast
  have "vm_ok ?e {} (\<lambda>q. unat (pp_ref (pages u q)))"
  proof (rule vm_okI)
    have "pages_ok ?e = pages_ok u" by (rule pages_ok_cong(1)) simp_all
    then show "pages_ok ?e" using K(1) [OF ok] by simp
  qed (auto simp: tables_def maps_def refs_def)
  then have vm: "vm_ok ?e (dirs ?e) (\<lambda>q. unat (pp_ref (pages u q)))" using none by (simp add: dirs_def)
  have "kernel_ok kd (\<lambda>q. unat (pp_ref (pages u q))) ?e"
  proof (rule kernel_okI [OF vm _ _ tab])
    show "0 < unat (pp_ref (pages u kd))" using K(9) [OF ok] by (simp add: unat_gt_0)
    show "e \<in> live ?e" if "curenv ?e = Some e" for e using that assms(4) u(4,5) by (simp add: curenv_def)
    show "kern_pgdir ?e = kv kd" "kd < unat (npages ?e)" using K(2,5) [OF ok] by simp_all
  qed (simp_all add: none)
  then show ?thesis using u(1,2) by (intro exI [of _ kd] exI [of _ pf] exI [of _ ef] exI [of _ t] exI [of _ ?u]) simp
qed

text \<open>A machine with 64 megabytes.\<close>

definition sample_cmos :: "u32 \<Rightarrow> u8" where
  "sample_cmos r = (if r = 0x15 then 0x80 else if r = 0x16 then 2 else if r = 0x35 then 3 else 0)"

definition sample_boot :: kstate where
  "sample_boot = sample\<lparr>page_free_list := None, nextfree := 0, cpus := (\<lambda>i. (cpus sample i)\<lparr>cpu_env := None\<rparr>)\<rparr>"

lemma sample_boot_state: "boot_state sample_cmos 0xF0110000 sample_boot"
  unfolding boot_state_def i386_detect_memory_def Let_def
  by (simp add: sample_cmos_def sample_boot_def nvram_read_def kthen_def kprintf_def sample_def)

theorem mem_init_correct_witness:
  "\<exists>kd pf ef t u. mem_init_alloc sample_cmos 0xF0110000 sample_boot = Ret (kv pf, kv ef) t \<and>
     mem_init_map (kv pf) (kv ef) (kv 259) (kv 267) t = Ret () u \<and> vmap u kd 0xF0123456 = Some (291, 3)"
proof -
  obtain kd pf ef t u where u: "mem_init_alloc sample_cmos 0xF0110000 sample_boot = Ret (kv pf, kv ef) t"
    "mem_init_map (kv pf) (kv ef) (kv 259) (kv 267) t = Ret () u"
    "\<forall>va. unat (PDX va) \<noteq> 957 \<longrightarrow> vmap u kd va = kernel_map pf ef 267 (unat va div 4096)"
    using mem_init_correct [OF sample_boot_state, of 259 267] by auto
  have "vmap u kd 0xF0123456 = kernel_map pf ef 267 983331" using spec [OF u(3), of "0xF0123456"] by (simp add: PDX_def)
  then show ?thesis using u(1,2) by (auto simp: kernel_map_def)
qed

theorem boot_establishes_invariant_witness:
  "\<exists>kd pf ef t u. mem_init_alloc sample_cmos 0xF0110000 sample_boot = Ret (kv pf, kv ef) t \<and>
     mem_init_map (kv pf) (kv ef) (kv 259) (kv 267) t = Ret () u \<and> kernel_ok kd (\<lambda>q. unat (pp_ref (pages u q))) (env_init u)"
  using boot_establishes_invariant [OF sample_boot_state, of 259 267] by (simp add: sample_boot_def)

end
