(* ===== verification/Mp_Config.thy ===== *)
theory Mp_Config
  imports Sample_State Environment
begin

text \<open>
  The multiprocessor tables of the BIOS, \<^verbatim>\<open>kern/mpconfig.c\<close>: the search for the floating pointer structure, the
  checks on the configuration table, and the loop over its entries that fills \<^verbatim>\<open>cpus\<close>. The tables are
  bytes of physical memory, read through kernel pointers. \<open>read_table\<close> is the reference: what a list of entries
  says about the processors.
\<close>

section \<open>Definitions\<close>

definition kbyte :: "u32 \<Rightarrow> kstate \<Rightarrow> u8" where
  "kbyte p s = phys s (unat (p - KERNBASE))"

definition khalf :: "u32 \<Rightarrow> kstate \<Rightarrow> u32" where
  "khalf p s = ucast (kbyte p s) OR push_bit 8 (ucast (kbyte (p + 1) s))"

definition mp_sum :: "u32 \<Rightarrow> nat \<Rightarrow> kstate \<Rightarrow> u8" where
  "mp_sum addr len s = fold (\<lambda>i sum. sum + kbyte (addr + of_nat i) s) [0..<len] 0"

definition has_signature :: "u32 \<Rightarrow> u8 list \<Rightarrow> kstate \<Rightarrow> bool" where
  "has_signature p sg s \<longleftrightarrow> map (\<lambda>i. kbyte (p + of_nat i) s) [0..<4] = sg"

text \<open>\<open>rounds\<close> is the number of 16-byte structures between \<open>mp\<close> and the end.\<close>

primrec mpsearch_loop :: "nat \<Rightarrow> u32 \<Rightarrow> kstate \<Rightarrow> u32 option" where
  "mpsearch_loop 0 mp s = None"
| "mpsearch_loop (Suc rounds) mp s =
     (if has_signature mp [95, 77, 80, 95] s \<and> mp_sum mp 16 s = 0 then Some mp
      else mpsearch_loop rounds (mp + 16) s)"

definition mpsearch1 :: "u32 \<Rightarrow> u32 \<Rightarrow> (kstate, u32 option) op" where
  "mpsearch1 a len =
     kbind (KADDR a) (\<lambda>mp. kbind (KADDR (a + len)) (\<lambda>stop.
       kget (mpsearch_loop (if mp < stop then (unat (stop - mp) + 15) div 16 else 0) mp)))"

definition mpsearch :: "(kstate, u32 option) op" where
  "mpsearch =
     kbind (KADDR (push_bit 4 0x40)) (\<lambda>bda.
     kbind (kget (khalf (bda + 0x0E))) (\<lambda>ebda.
     kbind (if ebda \<noteq> 0 then mpsearch1 (push_bit 4 ebda) 1024
            else kbind (kget (khalf (bda + 0x13))) (\<lambda>kb. mpsearch1 (kb * 1024 - 1024) 1024)) (\<lambda>r.
     case r of Some mp \<Rightarrow> kret (Some mp) | None \<Rightarrow> mpsearch1 0xF0000 0x10000)))"

text \<open>The structure \<^verbatim>\<open>mp\<close> and the table, or nothing.\<close>

definition mp_reject :: "string \<Rightarrow> (kstate, (u32 \<times> u32) option) op" where
  "mp_reject msg = kthen (kprintf (msg @ NL) []) (kret None)"

definition mpconfig :: "(kstate, (u32 \<times> u32) option) op" where
  "mpconfig = kbind mpsearch (\<lambda>r. case r of
     None \<Rightarrow> kret None
   | Some mp \<Rightarrow>
       kbind (kget (kld (mp + 4))) (\<lambda>physaddr.
       kbind (kget (kbyte (mp + 11))) (\<lambda>type.
       if physaddr = 0 \<or> type \<noteq> 0 then mp_reject ''SMP: Default configurations not implemented''
       else kbind (KADDR physaddr) (\<lambda>conf s.
         if \<not> has_signature conf [80, 67, 77, 80] s then mp_reject ''SMP: Incorrect MP configuration table signature'' s
         else if mp_sum conf (unat (khalf (conf + 4) s)) s \<noteq> 0 then mp_reject ''SMP: Bad MP configuration checksum'' s
         else if kbyte (conf + 6) s \<noteq> 1 \<and> kbyte (conf + 6) s \<noteq> 4
         then kthen (kprintf (''SMP: Unsupported MP version %d'' @ NL) [VInt (ucast (kbyte (conf + 6) s))]) (kret None) s
         else if mp_sum (conf + khalf (conf + 4) s) (unat (khalf (conf + 40) s)) s + kbyte (conf + 42) s \<noteq> 0
         then mp_reject ''SMP: Bad MP configuration extended checksum'' s
         else Ret (Some (mp, conf)) s))))"

text \<open>The loop over the entries; the first argument is the number of entries that are left.\<close>

primrec mp_entries :: "nat \<Rightarrow> u32 \<Rightarrow> (kstate, unit) op" where
  "mp_entries 0 p = kret ()"
| "mp_entries (Suc n) p =
     kbind (kget (kbyte p)) (\<lambda>type.
     if type = 0
     then kbind (kget (kbyte (p + 3))) (\<lambda>flags.
          kthen (if flags AND 2 \<noteq> 0 then kmod (\<lambda>s. s\<lparr>bootcpu := Some (ncpu s)\<rparr>) else kret ())
         (kthen (\<lambda>s. if ncpu s < NCPU
                 then Ret () (s\<lparr>cpus := (cpus s)(ncpu s := (cpus s (ncpu s))\<lparr>cpu_id := of_nat (ncpu s)\<rparr>), ncpu := ncpu s + 1\<rparr>)
                 else kprintf (''SMP: too many CPUs, CPU %d disabled'' @ NL) [VInt (ucast (kbyte (p + 1) s))] s)
         (mp_entries n (p + 20))))
     else if type \<in> {1, 2, 3, 4} then mp_entries n (p + 8)
     else kthen (kprintf (''mpinit: unknown config type %x'' @ NL) [VInt (ucast type)])
                (kmod (\<lambda>s. s\<lparr>ismp := False\<rparr>)))"

text \<open>\<open>imcr\<close> is what port \<^verbatim>\<open>0x23\<close> reads.\<close>

definition mp_init :: "u8 \<Rightarrow> (kstate, unit) op" where
  "mp_init imcr =
     kthen (kmod (\<lambda>s. s\<lparr>bootcpu := Some 0\<rparr>))
     (kbind mpconfig (\<lambda>r. case r of
        None \<Rightarrow> kret ()
      | Some (mp, conf) \<Rightarrow>
          kthen (kmod (\<lambda>s. s\<lparr>ismp := True, apic := (apic s)\<lparr>lapicaddr := kld (conf + 36) s\<rparr>\<rparr>))
         (kbind (kget (khalf (conf + 34))) (\<lambda>n.
          kthen (mp_entries (unat n) (conf + 44))
         (kthen (kmod (\<lambda>s. case bootcpu s of None \<Rightarrow> s
                   | Some b \<Rightarrow> s\<lparr>cpus := (cpus s)(b := (cpus s b)\<lparr>cpu_status := CPU_STARTED\<rparr>)\<rparr>))
         (\<lambda>s. if \<not> ismp s
              then kthen (kmod (\<lambda>s. s\<lparr>ncpu := 1, apic := (apic s)\<lparr>lapicaddr := 0\<rparr>\<rparr>))
                     (kprintf (''SMP: configuration not found, SMP disabled'' @ NL) []) s
              else kthen (kprintf (''SMP: CPU %d found %d CPU(s)'' @ NL)
                       [VInt (case bootcpu s of Some b \<Rightarrow> ucast (cpu_id (cpus s b)) | None \<Rightarrow> 0), VInt (of_nat (ncpu s))])
                     (kbind (kget (kbyte (mp + 12))) (\<lambda>imcrp.
                      if imcrp \<noteq> 0
                      then kthen (kprintf (''SMP: Setting IMCR to switch from PIC mode to symmetric I/O mode'' @ NL) [])
                             (kmod (\<lambda>s. s\<lparr>con := outb 0x23 (imcr OR 1) (outb 0x22 0x70 (con s))\<rparr>))
                      else kret ())) s))))))"

section \<open>What a table says\<close>

datatype mp_entry = Processor (apicid: u8) (flags: u8) | Other u8

text \<open>The entries lie in memory from \<open>p\<close> on.\<close>

primrec table_at :: "mp_entry list \<Rightarrow> u32 \<Rightarrow> kstate \<Rightarrow> bool" where
  "table_at [] p s \<longleftrightarrow> True"
| "table_at (e # es) p s \<longleftrightarrow> (case e of
     Processor a f \<Rightarrow> kbyte p s = 0 \<and> kbyte (p + 1) s = a \<and> kbyte (p + 3) s = f \<and> table_at es (p + 20) s
   | Other t \<Rightarrow> kbyte p s = t \<and> t \<noteq> 0 \<and> table_at es (p + 8) s)"

text \<open>The number of processors that are used, the one that booted, and whether every entry is known.\<close>

primrec read_table :: "mp_entry list \<Rightarrow> nat \<Rightarrow> nat option \<Rightarrow> nat \<times> nat option \<times> bool" where
  "read_table [] n b = (n, b, True)"
| "read_table (e # es) n b = (case e of
     Processor a f \<Rightarrow> read_table es (min NCPU (n + 1)) (if f AND 2 \<noteq> 0 then Some n else b)
   | Other t \<Rightarrow> if t \<in> {1, 2, 3, 4} then read_table es n b else (n, b, False))"

lemma table_at_cong: "phys s' = phys s \<Longrightarrow> table_at es p s' = table_at es p s"
  by (induction es arbitrary: p) (simp_all add: kbyte_def split: mp_entry.split)

lemma read_table_bound: "n \<le> 8 \<Longrightarrow> read_table es n b = (n', b', c) \<Longrightarrow> n \<le> n' \<and> n' \<le> 8 \<and> (b' = b \<or> (\<exists>i\<le>8. b' = Some i))"
proof (induction es arbitrary: n b)
  case (Cons e es)
  show ?case
  proof (cases e)
    case (Processor a f)
    then have "min 8 (n + 1) \<le> n' \<and> n' \<le> 8 \<and> (b' = (if f AND 2 \<noteq> 0 then Some n else b) \<or> (\<exists>i\<le>8. b' = Some i))"
      using Cons by (intro Cons.IH) simp_all
    then show ?thesis using Cons.prems(1) by (auto split: if_splits)
  next
    case (Other t)
    then show ?thesis using Cons by (auto split: if_splits)
  qed
qed simp

lemma read_table_count:
  "n \<le> 8 \<Longrightarrow> \<forall>t. Other t \<in> set es \<longrightarrow> t \<in> {1, 2, 3, 4} \<Longrightarrow>
     fst (read_table es n b) = min 8 (n + length (filter (\<lambda>e. case e of Processor _ _ \<Rightarrow> True | Other _ \<Rightarrow> False) es)) \<and> snd (snd (read_table es n b))"
proof (induction es arbitrary: n b)
  case (Cons e es)
  then show ?case by (cases e) auto
qed simp

definition mp_frame :: "kstate \<Rightarrow> kstate \<Rightarrow> bool" where
  "mp_frame s s' \<longleftrightarrow> phys s' = phys s \<and> apic s' = apic s \<and> (\<forall>i. cpu_status (cpus s' i) = cpu_status (cpus s i))"

definition cpus_numbered :: "kstate \<Rightarrow> bool" where
  "cpus_numbered s \<longleftrightarrow> ncpu s \<le> NCPU \<and> (\<forall>i<ncpu s. cpu_id (cpus s i) = of_nat i)"

lemma mp_entries_ok:
  "table_at es p s \<Longrightarrow> cpus_numbered s \<Longrightarrow> read_table es (ncpu s) (bootcpu s) = (n', b', c) \<Longrightarrow>
    \<exists>s'. mp_entries (length es) p s = Ret () s' \<and> mp_frame s s' \<and> cpus_numbered s' \<and> ncpu s' = n' \<and> bootcpu s' = b' \<and>
      ismp s' = (ismp s \<and> c)"
proof (induction es arbitrary: p s)
  case Nil
  then show ?case by (simp add: mp_frame_def)
next
  case (Cons e es)
  show ?case
  proof (cases e)
    case (Other t)
    then show ?thesis using Cons.prems Cons.IH [of "p + 8" s]
      by (cases "t \<in> {1, 2, 3, 4}") (auto simp: mp_frame_def cpus_numbered_def kprintf_def)
  next
    case (Processor a f)
    let ?s1 = "if f AND 2 \<noteq> 0 then s\<lparr>bootcpu := Some (ncpu s)\<rparr> else s"
    let ?s2 = "if ncpu s < NCPU then ?s1\<lparr>cpus := (cpus s)(ncpu s := (cpus s (ncpu s))\<lparr>cpu_id := of_nat (ncpu s)\<rparr>), ncpu := ncpu s + 1\<rparr>
      else ?s1\<lparr>con := cprintf (''SMP: too many CPUs, CPU %d disabled'' @ NL) [VInt (ucast a)] (con s)\<rparr>"
    have st: "mp_entries (length (e # es)) p s = mp_entries (length es) (p + 20) ?s2"
      using Cons.prems(1) Processor by (simp add: kprintf_def kbyte_def kthen_def)
    have f2: "phys ?s2 = phys s" "apic ?s2 = apic s" "ismp ?s2 = ismp s" "\<forall>i. cpu_status (cpus ?s2 i) = cpu_status (cpus s i)"
      "ncpu ?s2 = min NCPU (ncpu s + 1)" "bootcpu ?s2 = (if f AND 2 \<noteq> 0 then Some (ncpu s) else bootcpu s)"
      using Cons.prems(2) by (auto simp: cpus_numbered_def)
    have n2: "cpus_numbered ?s2" using Cons.prems(2) by (auto simp: cpus_numbered_def less_Suc_eq)
    obtain s' where "mp_entries (length es) (p + 20) ?s2 = Ret () s'" "mp_frame ?s2 s'" "cpus_numbered s'" "ncpu s' = n'" "bootcpu s' = b'"
      "ismp s' = (ismp ?s2 \<and> c)"
      using Cons.IH [of "p + 20" ?s2] Cons.prems(1,3) Processor n2 table_at_cong [OF f2(1)] f2(5,6) by auto
    then show ?thesis using st f2 by (auto simp: mp_frame_def)
  qed
qed

section \<open>The search\<close>

text \<open>The search reads memory only.\<close>

lemma khalf_bootcpu [simp]: "khalf p (s\<lparr>bootcpu := b\<rparr>) = khalf p s" "kbyte p (s\<lparr>bootcpu := b\<rparr>) = kbyte p s"
  "kld p (s\<lparr>bootcpu := b\<rparr>) = kld p s"
  by (simp_all add: khalf_def kbyte_def kld_def)

lemma has_signature_bootcpu [simp]: "has_signature p sg (s\<lparr>bootcpu := b\<rparr>) = has_signature p sg s"
  "mp_sum p n (s\<lparr>bootcpu := b\<rparr>) = mp_sum p n s"
  by (simp_all add: has_signature_def mp_sum_def)

lemma mpsearch_loop_bootcpu [simp]: "mpsearch_loop n p (s\<lparr>bootcpu := b\<rparr>) = mpsearch_loop n p s"
  by (induction n arbitrary: p) simp_all

lemma mpsearch1_Ret:
  "mpsearch1 a len s = Ret r t \<longleftrightarrow> PGNUM a < npages s \<and> PGNUM (a + len) < npages s \<and> t = s \<and>
     r = mpsearch_loop (if a + KERNBASE < a + len + KERNBASE then (unat (a + len + KERNBASE - (a + KERNBASE)) + 15) div 16 else 0) (a + KERNBASE) s"
  by (auto simp: mpsearch1_def KADDR_def kbind_def not_le)

lemma mpsearch_loop_Some:
  "mpsearch_loop n p s = Some mp \<Longrightarrow> has_signature mp [95, 77, 80, 95] s \<and> mp_sum mp 16 s = 0"
  by (induction n arbitrary: p) (auto split: if_splits)

lemma mpsearch_Some:
  assumes "mpsearch s = Ret (Some mp) t"
  shows "t = s" and "has_signature mp [95, 77, 80, 95] s" and "mp_sum mp 16 s = 0"
    and "mpsearch (s\<lparr>bootcpu := b\<rparr>) = Ret (Some mp) (s\<lparr>bootcpu := b\<rparr>)"
proof -
  have "t = s \<and> has_signature mp [95, 77, 80, 95] s \<and> mp_sum mp 16 s = 0"
    using assms by (auto simp: mpsearch_def kbind_eq_Ret KADDR_def mpsearch1_Ret dest: mpsearch_loop_Some mpsearch_loop_Some [OF sym] split: if_splits option.splits)
  then show "t = s" "has_signature mp [95, 77, 80, 95] s" "mp_sum mp 16 s = 0" by simp_all
  show "mpsearch (s\<lparr>bootcpu := b\<rparr>) = Ret (Some mp) (s\<lparr>bootcpu := b\<rparr>)"
    using assms by (fastforce simp: mpsearch_def kbind_eq_Ret KADDR_def mpsearch1_Ret split: if_splits option.splits)
qed

text \<open>The configuration table that is used passes every check.\<close>

definition good_table :: "u32 \<Rightarrow> kstate \<Rightarrow> bool" where
  "good_table conf s \<longleftrightarrow> has_signature conf [80, 67, 77, 80] s \<and> mp_sum conf (unat (khalf (conf + 4) s)) s = 0 \<and>
     kbyte (conf + 6) s \<in> {1, 4} \<and> mp_sum (conf + khalf (conf + 4) s) (unat (khalf (conf + 40) s)) s + kbyte (conf + 42) s = 0"

lemma mpconfig_Some:
  assumes "mpconfig s = Ret (Some (mp, conf)) t"
  shows "has_signature mp [95, 77, 80, 95] s" and "mp_sum mp 16 s = 0" and "conf = kld (mp + 4) s + KERNBASE" and "good_table conf s"
    and "mpconfig (s\<lparr>bootcpu := b\<rparr>) = Ret (Some (mp, conf)) (s\<lparr>bootcpu := b\<rparr>)"
proof -
  obtain m u where m: "mpsearch s = Ret (Some m) u" using assms by (auto simp: mpconfig_def kbind_eq_Ret split: option.splits)
  note S = mpsearch_Some [OF m]
  have u: "u = s" by (rule S(1))
  have c: "kld (m + 4) s \<noteq> 0" "kbyte (m + 11) s = 0" "PGNUM (kld (m + 4) s) < npages s" "m = mp" "conf = kld (m + 4) s + KERNBASE"
    "good_table conf s" using assms m S(1)
    by (auto simp: mpconfig_def mp_reject_def KADDR_def kbind_eq_Ret kthen_def good_table_def kprintf_def split: if_splits)
  show "has_signature mp [95, 77, 80, 95] s" "mp_sum mp 16 s = 0" using S(2,3) c(4) by simp_all
  show "conf = kld (mp + 4) s + KERNBASE" "good_table conf s" using c(4-6) by simp_all
  show "mpconfig (s\<lparr>bootcpu := b\<rparr>) = Ret (Some (mp, conf)) (s\<lparr>bootcpu := b\<rparr>)"
  proof -
    have "KADDR (kld (mp + 4) s) (s\<lparr>bootcpu := b\<rparr>) = Ret conf (s\<lparr>bootcpu := b\<rparr>)" using c(3,4,5) by (simp add: KADDR_def)
    then show ?thesis using mpsearch_Some(4) [OF m, of b] c by (auto simp: mpconfig_def good_table_def)
  qed
qed

section \<open>Properties\<close>

text \<open>(C20) Reading the table of processors. When the tables pass their checks (signatures, checksums, version),
  \<open>mp_init\<close> uses the processors that the entries name, at most eight, numbered from 0, notes the one that booted as
  started and takes over the address of the local interrupt controller; if an entry has an unknown type it
  falls back to one processor and no controller. It never panics and changes nothing else in memory.\<close>

theorem mp_init_correct:
  assumes "mpconfig s = Ret (Some (mp, conf)) t" and "table_at es (conf + 44) s" and "length es = unat (khalf (conf + 34) s)"
    and "ncpu s = 0" and "read_table es 0 (Some 0) = (n, b, known)"
  shows "\<exists>s'. mp_init imcr s = Ret () s' \<and> phys s' = phys s \<and> good_table conf s \<and> n \<le> NCPU \<and>
    (if known then ismp s' \<and> ncpu s' = n \<and> lapicaddr (apic s') = kld (conf + 36) s \<and> bootcpu s' = b \<and>
        (\<forall>i<n. cpu_id (cpus s' i) = of_nat i) \<and> (\<forall>i. cpu_status (cpus s' i) = (if b = Some i then CPU_STARTED else cpu_status (cpus s i)))
     else \<not> ismp s' \<and> ncpu s' = 1 \<and> lapicaddr (apic s') = 0)"
proof -
  note M = mpconfig_Some [OF assms(1)]
  let ?s = "s\<lparr>bootcpu := Some 0, ismp := True, apic := (apic s)\<lparr>lapicaddr := kld (conf + 36) s\<rparr>\<rparr>"
  have "table_at es (conf + 44) ?s" using assms(2) table_at_cong [of ?s s] by simp
  then obtain u where u: "mp_entries (length es) (conf + 44) ?s = Ret () u" "mp_frame ?s u" "cpus_numbered u" "ncpu u = n" "bootcpu u = b"
    "ismp u = known"
    using mp_entries_ok [of es "conf + 44" ?s n b known] assms(4,5) by (auto simp: cpus_numbered_def)
  obtain i where b: "b = Some i" using read_table_bound [OF _ assms(5)] by auto
  have kh: "khalf (conf + 34) ?s = khalf (conf + 34) s" by (simp add: khalf_def kbyte_def)
  let ?u = "u\<lparr>cpus := (cpus u)(i := (cpus u i)\<lparr>cpu_status := CPU_STARTED\<rparr>)\<rparr>"
  have run: "mp_init imcr s = (if \<not> known
      then kthen (kmod (\<lambda>s. s\<lparr>ncpu := 1, apic := (apic s)\<lparr>lapicaddr := 0\<rparr>\<rparr>))
             (kprintf (''SMP: configuration not found, SMP disabled'' @ NL) []) ?u
      else kthen (kprintf (''SMP: CPU %d found %d CPU(s)'' @ NL)
               [VInt (case bootcpu ?u of Some b \<Rightarrow> ucast (cpu_id (cpus ?u b)) | None \<Rightarrow> 0), VInt (of_nat (ncpu ?u))])
             (kbind (kget (kbyte (mp + 12))) (\<lambda>imcrp.
              if imcrp \<noteq> 0
              then kthen (kprintf (''SMP: Setting IMCR to switch from PIC mode to symmetric I/O mode'' @ NL) [])
                     (kmod (\<lambda>s. s\<lparr>con := outb 0x23 (imcr OR 1) (outb 0x22 0x70 (con s))\<rparr>))
              else kret ())) ?u)"
    using M(5) [of "Some 0"] u(1,5,6) assms(3) kh b by (simp add: mp_init_def kthen_def)
  have "\<exists>s'. mp_init imcr s = Ret () s' \<and> phys s' = phys u \<and>
    (if known then ismp s' \<and> ncpu s' = n \<and> apic s' = apic u \<and> bootcpu s' = b \<and> cpus s' = cpus ?u
     else \<not> ismp s' \<and> ncpu s' = 1 \<and> lapicaddr (apic s') = 0)"
    unfolding run using u by (simp add: kprintf_def kthen_def kbind_def)
  then show ?thesis using u(2,3,4) M(4) b by (auto simp: mp_frame_def cpus_numbered_def)
qed

text \<open>A machine with two processors whose tables lie in the extended BIOS data area.\<close>

definition sample_table :: "u8 list" where
  "sample_table =
     [95, 77, 80, 95, 0x10, 0xFC, 0x09, 0, 1, 4, 139, 0, 0, 0, 0, 0,
      80, 67, 77, 80, 84, 0, 4, 107, 0, 0, 0, 0, 0, 0, 0, 0, 0, 0, 0, 0, 0, 0, 0, 0, 0, 0, 0, 0,
      0, 0, 0, 0, 0, 0, 2, 0, 0, 0, 0xE0, 0xFE, 0, 0, 0, 0,
      0, 0, 20, 3, 0, 0, 0, 0, 0, 0, 0, 0, 0, 0, 0, 0, 0, 0, 0, 0,
      0, 1, 20, 1, 0, 0, 0, 0, 0, 0, 0, 0, 0, 0, 0, 0, 0, 0, 0, 0]"

definition sample_bios :: kstate where
  "sample_bios = sample\<lparr>phys := (\<lambda>a. if a = 0x40E then 0xC0 else if a = 0x40F then 0x9F
       else if 0x9FC00 \<le> a \<and> a < 0x9FC00 + length sample_table then sample_table ! (a - 0x9FC00) else 0),
     npages := 4096, ncpu := 0, bootcpu := None\<rparr>"

lemma sample_bios_phys:
  "phys sample_bios a = (if a = 0x40E then 0xC0 else if a = 0x40F then 0x9F
     else if 0x9FC00 \<le> a \<and> a < 0x9FC64 then sample_table ! (a - 0x9FC00) else 0)"
  by (simp add: sample_bios_def sample_table_def)

lemma sample_bios_bytes:
  "khalf 0xF000040E sample_bios = 0x9FC0" "has_signature 0xF009FC00 [95, 77, 80, 95] sample_bios" "mp_sum 0xF009FC00 16 sample_bios = 0"
  "kld 0xF009FC04 sample_bios = 0x9FC10" "kbyte 0xF009FC0B sample_bios = 0"
  "has_signature 0xF009FC10 [80, 67, 77, 80] sample_bios" "khalf 0xF009FC14 sample_bios = 84" "kbyte 0xF009FC16 sample_bios = 4"
  "khalf 0xF009FC38 sample_bios = 0" "kbyte 0xF009FC3A sample_bios = 0" "khalf 0xF009FC32 sample_bios = 2"
  "kld 0xF009FC34 sample_bios = 0xFEE00000"
  by (simp_all add: khalf_def kld_def load32_def has_signature_def mp_sum_def kbyte_def sample_bios_phys sample_table_def upt_conv_Cons)

lemma sample_bios_sum: "mp_sum 0xF009FC10 84 sample_bios = 0"
  by (simp add: mp_sum_def kbyte_def sample_bios_phys sample_table_def upt_conv_Cons)

lemma sample_bios_config: "mpconfig sample_bios = Ret (Some (0xF009FC00, 0xF009FC10)) sample_bios"
proof -
  have np: "npages sample_bios = 4096" by (simp add: sample_bios_def)
  have "mpsearch_loop 64 0xF009FC00 sample_bios = Some 0xF009FC00"
    using mpsearch_loop.simps(2) [of 63 "0xF009FC00" sample_bios] sample_bios_bytes(2,3) by simp
  then have "mpsearch sample_bios = Ret (Some 0xF009FC00) sample_bios"
    using sample_bios_bytes(1) np by (simp add: mpsearch_def mpsearch1_def KADDR_def kbind_def PGNUM_def)
  then show ?thesis
    using sample_bios_bytes sample_bios_sum np by (simp add: mpconfig_def KADDR_def PGNUM_def kbind_def mp_sum_def)
qed

theorem mp_init_correct_witness:
  "\<exists>s'. mp_init 0 sample_bios = Ret () s' \<and> ncpu s' = 2 \<and> bootcpu s' = Some 0 \<and> lapicaddr (apic s') = 0xFEE00000 \<and>
     cpu_status (cpus s' 0) = CPU_STARTED \<and> cpu_id (cpus s' 1) = 1"
proof -
  have "table_at [Processor 0 3, Processor 1 1] (0xF009FC10 + 44) sample_bios"
    by (simp add: kbyte_def sample_bios_phys sample_table_def upt_conv_Cons)
  moreover have "length [Processor 0 3, Processor 1 1] = unat (khalf (0xF009FC10 + 34) sample_bios)" using sample_bios_bytes(11) by simp
  moreover have "ncpu sample_bios = 0" by (simp add: sample_bios_def)
  moreover have "read_table [Processor 0 3, Processor 1 1] 0 (Some 0) = (2, Some 0, True)" by simp
  ultimately show ?thesis
    using mp_init_correct [OF sample_bios_config, of "[Processor 0 3, Processor 1 1]" 2 "Some 0" True 0] sample_bios_bytes(12) by force
qed

end
