(* ===== verification/Readline.thy ===== *)
theory Readline
  imports Lib_String
begin

text \<open>
  Reading a line, \<^verbatim>\<open>lib/readline.c\<close>, which the kernel's monitor and the shell share. The device is a
  parameter: \<open>getc\<close> waits for a character (\<open>None\<close> when it waits for ever), \<open>putc\<close> shows one, \<open>report\<close>
  prints the message about a read error. The line is returned without the null byte behind it.
\<close>

section \<open>Definitions\<close>

abbreviation (input) BUFLEN :: nat where "BUFLEN \<equiv> 1024"

partial_function (option) readline_loop ::
  "('s \<Rightarrow> (int \<times> 's) option) \<Rightarrow> (int \<Rightarrow> 's \<Rightarrow> 's) \<Rightarrow> (int \<Rightarrow> 's \<Rightarrow> 's) \<Rightarrow> bool \<Rightarrow> u8 list \<Rightarrow> 's \<Rightarrow> (u8 list option \<times> 's) option" where
  "readline_loop getc putc report echoing buf s0 = Option.bind (getc s0) (\<lambda>(c, s).
     let echo = (\<lambda>ch. if echoing then putc ch s else s) in
     if c < 0 then Some (None, if c \<noteq> - 8 then report c s else s)
     else if (c = 8 \<or> c = 0x7F) \<and> buf \<noteq> [] then readline_loop getc putc report echoing (butlast buf) (echo 8)
     else if c \<ge> 32 \<and> length buf < BUFLEN - 1 then readline_loop getc putc report echoing (buf @ [word_of_int c]) (echo c)
     else if c = 10 \<or> c = 13 then Some (Some buf, echo 10)
     else readline_loop getc putc report echoing buf s)"

text \<open>\<open>prompt\<close> prints the prompt if there is one; \<open>cons\<close> is the answer of \<^verbatim>\<open>iscons(0)\<close>.\<close>

definition readline ::
  "('s \<Rightarrow> (int \<times> 's) option) \<Rightarrow> (int \<Rightarrow> 's \<Rightarrow> 's) \<Rightarrow> (int \<Rightarrow> 's \<Rightarrow> 's) \<Rightarrow> ('s \<Rightarrow> 's) \<Rightarrow> int \<Rightarrow> 's \<Rightarrow> (u8 list option \<times> 's) option" where
  "readline getc putc report prompt cons s = readline_loop getc putc report (cons \<noteq> 0) [] (prompt s)"

section \<open>What is typed and what is shown\<close>

text \<open>What a terminal shows after it was sent some characters: a backspace takes the last one away.\<close>

definition shown :: "int list \<Rightarrow> int list" where
  "shown = foldl (\<lambda>line c. if c = 8 then butlast line else line @ [c]) []"

lemma shown_append [simp]: "shown (xs @ [c]) = (if c = 8 then butlast (shown xs) else shown xs @ [c])"
  by (simp add: shown_def)

text \<open>A device: \<open>inp\<close> is what is still to be read and \<open>out\<close> what was shown.\<close>

definition line_device :: "('s \<Rightarrow> (int \<times> 's) option) \<Rightarrow> (int \<Rightarrow> 's \<Rightarrow> 's) \<Rightarrow> ('s \<Rightarrow> int list) \<Rightarrow> ('s \<Rightarrow> int list) \<Rightarrow> bool" where
  "line_device getc putc inp out \<longleftrightarrow>
     (\<forall>s c cs. inp s = c # cs \<longrightarrow> (\<exists>s'. getc s = Some (c, s') \<and> inp s' = cs \<and> out s' = out s)) \<and>
     (\<forall>s c. inp (putc c s) = inp s \<and> out (putc c s) = out s @ [c])"

text \<open>A line as it can be in the buffer.\<close>

definition line_ok :: "u8 list \<Rightarrow> bool" where
  "line_ok buf \<longleftrightarrow> length buf \<le> BUFLEN - 1 \<and> (\<forall>b\<in>set buf. 32 \<le> uint b)"

lemma line_ok_butlast: "line_ok buf \<Longrightarrow> line_ok (butlast buf)"
  by (auto simp: line_ok_def dest: in_set_butlastD)

lemma line_ok_snoc: "line_ok buf \<Longrightarrow> length buf < BUFLEN - 1 \<Longrightarrow> 32 \<le> c \<Longrightarrow> c < 256 \<Longrightarrow> line_ok (buf @ [word_of_int c])"
  by (auto simp: line_ok_def word_of_int_inverse)

lemma uint_byte: "0 \<le> c \<Longrightarrow> c < 256 \<Longrightarrow> uint (word_of_int c :: u8) = c"
  by (simp add: word_of_int_inverse)

lemma readline_loop_ok:
  assumes dev: "line_device getc putc inp out"
  shows "inp s = cs @ e # rest \<Longrightarrow> e = 10 \<or> e = 13 \<Longrightarrow> \<forall>c\<in>set cs. 0 \<le> c \<and> c < 256 \<and> c \<noteq> 10 \<and> c \<noteq> 13 \<Longrightarrow>
    line_ok buf \<Longrightarrow> shown (out s) = pre @ map uint buf \<Longrightarrow>
    \<exists>line s'. readline_loop getc putc report True buf s = Some (Some line, s') \<and> inp s' = rest \<and> line_ok line \<and>
      shown (out s') = pre @ map uint line @ [10]"
proof (induction cs arbitrary: s buf)
  case Nil
  obtain s1 where s1: "getc s = Some (e, s1)" "inp s1 = rest" "out s1 = out s" using dev Nil.prems(1) by (fastforce simp: line_device_def)
  have "readline_loop getc putc report True buf s = Some (Some buf, putc 10 s1)"
    using s1(1) Nil.prems(2) by (auto simp: readline_loop.simps [of _ _ _ _ _ s])
  then show ?case using s1 Nil.prems dev by (simp add: line_device_def)
next
  case (Cons c cs)
  obtain s1 where s1: "getc s = Some (c, s1)" "inp s1 = cs @ e # rest" "out s1 = out s" using dev Cons.prems(1) by (fastforce simp: line_device_def)
  have p: "inp (putc x s1) = cs @ e # rest" "out (putc x s1) = out s @ [x]" for x using dev s1(2,3) by (simp_all add: line_device_def)
  have c: "0 \<le> c" "c < 256" "c \<noteq> 10" "c \<noteq> 13" and cs: "\<forall>c\<in>set cs. 0 \<le> c \<and> c < 256 \<and> c \<noteq> 10 \<and> c \<noteq> 13" using Cons.prems(3) by auto
  note unf = readline_loop.simps [of getc putc report True buf s]
  consider (rubout) "(c = 8 \<or> c = 0x7F) \<and> buf \<noteq> []" | (char) "\<not> ((c = 8 \<or> c = 0x7F) \<and> buf \<noteq> [])" "32 \<le> c" "length buf < BUFLEN - 1"
    | (skip) "\<not> ((c = 8 \<or> c = 0x7F) \<and> buf \<noteq> [])" "\<not> (32 \<le> c \<and> length buf < BUFLEN - 1)" by blast
  then show ?case
  proof cases
    case rubout
    then show ?thesis using Cons.IH [OF p(1) Cons.prems(2) cs line_ok_butlast [OF Cons.prems(4)]] Cons.prems(5) s1(1) p(2) c
      by (auto simp: unf map_butlast butlast_append)
  next
    case char
    then show ?thesis using Cons.IH [OF p(1) Cons.prems(2) cs line_ok_snoc [OF Cons.prems(4)]] Cons.prems(5) s1(1) p(2) c uint_byte [OF c(1,2)]
      by (auto simp: unf)
  next
    case skip
    then show ?thesis using Cons.IH [OF s1(2) Cons.prems(2) cs Cons.prems(4)] Cons.prems(5) s1 c by (auto simp: unf)
  qed
qed

lemma readline_plain:
  assumes dev: "line_device getc putc inp out"
  shows "inp s = cs @ e # rest \<Longrightarrow> e = 10 \<or> e = 13 \<Longrightarrow> \<forall>c\<in>set cs. 32 \<le> c \<and> c < 127 \<Longrightarrow>
    \<exists>s'. readline_loop getc putc report True buf s = Some (Some (buf @ map word_of_int (take (BUFLEN - 1 - length buf) cs)), s')"
proof (induction cs arbitrary: s buf)
  case Nil
  obtain s1 where "getc s = Some (e, s1)" using dev Nil.prems(1) by (fastforce simp: line_device_def)
  then show ?case using Nil.prems(2) by (auto simp: readline_loop.simps [of _ _ _ _ _ s])
next
  case (Cons c cs)
  obtain s1 where s1: "getc s = Some (c, s1)" "inp s1 = cs @ e # rest" using dev Cons.prems(1) by (fastforce simp: line_device_def)
  have p: "inp (putc c s1) = cs @ e # rest" using dev s1(2) by (simp add: line_device_def)
  have c: "32 \<le> c" "c < 127" and cs: "\<forall>c\<in>set cs. 32 \<le> c \<and> c < 127" using Cons.prems(3) by auto
  show ?case
  proof (cases "length buf < BUFLEN - 1")
    case True
    then have "BUFLEN - 1 - length buf = Suc (BUFLEN - 1 - length (buf @ [word_of_int c]))" by simp
    then show ?thesis using Cons.IH [OF p Cons.prems(2) cs, of "buf @ [word_of_int c]"] s1(1) c True
      by (auto simp: readline_loop.simps [of getc putc report True buf s])
  next
    case False
    then show ?thesis using Cons.IH [OF s1(2) Cons.prems(2) cs, of buf] s1(1) c
      by (auto simp: readline_loop.simps [of getc putc report True buf s])
  qed
qed


text \<open>A device that is a list of keys and a list of what was shown.\<close>

definition sample_getc :: "int list \<times> int list \<Rightarrow> (int \<times> int list \<times> int list) option" where
  "sample_getc = (\<lambda>(i, out). case i of [] \<Rightarrow> None | c # cs \<Rightarrow> Some (c, cs, out))"

definition sample_putc :: "int \<Rightarrow> int list \<times> int list \<Rightarrow> int list \<times> int list" where
  "sample_putc c = (\<lambda>(i, out). (i, out @ [c]))"


end
