(* ===== verification/Monitor.thy ===== *)
theory Monitor
  imports Readline Cmd_Line Kdebug Trap
begin

text \<open>
  The kernel's monitor, \<^verbatim>\<open>kern/monitor.c\<close>: the commands, the dispatch of a line, and the loop around \<open>readline\<close>.
  The devices of the console deliver characters before each poll (the list of arrivals); the addresses of the
  linker's symbols and of the debugging tables are parameters.
\<close>

section \<open>Definitions\<close>

record linker_symbols =
  sym_start :: u32
  sym_entry :: u32
  sym_etext :: u32
  sym_edata :: u32
  sym_end :: u32

datatype command = Help | Kerninfo | Backtrace

definition command_name :: "command \<Rightarrow> string" where
  "command_name c = (case c of Help \<Rightarrow> ''help'' | Kerninfo \<Rightarrow> ''kerninfo'' | Backtrace \<Rightarrow> ''backtrace'')"

definition command_desc :: "command \<Rightarrow> string" where
  "command_desc c = (case c of Help \<Rightarrow> ''Display this list of commands''
     | Kerninfo \<Rightarrow> ''Display information about the kernel'' | Backtrace \<Rightarrow> ''Trace back call stack'')"

definition commands :: "command list" where
  "commands = [Help, Kerninfo, Backtrace]"

definition mon_help :: "(kstate, int) op" where
  "mon_help = kthen (kfor commands (\<lambda>c. kprintf (''%s - %s'' @ NL) [str_arg (command_name c), str_arg (command_desc c)])) (kret 0)"

definition mon_kerninfo :: "linker_symbols \<Rightarrow> (kstate, int) op" where
  "mon_kerninfo y =
     kthen (kprintf (''Special kernel symbols:'' @ NL) [])
     (kthen (kprintf (''  _start                  %08x (phys)'' @ NL) [VInt (sym_start y)])
     (kthen (kprintf (''  entry  %08x (virt)  %08x (phys)'' @ NL) [VInt (sym_entry y), VInt (sym_entry y - KERNBASE)])
     (kthen (kprintf (''  etext  %08x (virt)  %08x (phys)'' @ NL) [VInt (sym_etext y), VInt (sym_etext y - KERNBASE)])
     (kthen (kprintf (''  edata  %08x (virt)  %08x (phys)'' @ NL) [VInt (sym_edata y), VInt (sym_edata y - KERNBASE)])
     (kthen (kprintf (''  end    %08x (virt)  %08x (phys)'' @ NL) [VInt (sym_end y), VInt (sym_end y - KERNBASE)])
     (kthen (kprintf (''Kernel executable memory footprint: %dKB'' @ NL) [VInt (ROUNDUP (sym_end y - sym_entry y) 1024 div 1024)])
     (kret 0)))))))"

text \<open>The bytes of a string up to its null byte, at most \<open>n\<close>.\<close>

primrec vstring :: "nat \<Rightarrow> u32 \<Rightarrow> (kstate, u8 list) op" where
  "vstring 0 p = kret []"
| "vstring (Suc n) p = kbind (vread p) (\<lambda>b. if b = 0 then kret [] else kbind (vstring n (p + 1)) (\<lambda>bs. kret (b # bs)))"

definition debug_string :: "nat \<Rightarrow> debug_name \<Rightarrow> (kstate, u8 list) op" where
  "debug_string n d = (case d of Unknown_Name \<Rightarrow> kret (take n (map of_char ''<unknown>'')) | Name_At p \<Rightarrow> vstring n p)"

primrec print_args :: "nat \<Rightarrow> u32 \<Rightarrow> (kstate, unit) op" where
  "print_args 0 args = kret ()"
| "print_args (Suc n) args = kbind (vload32 args) (\<lambda>a. kthen (kprintf ''%08x '' [VInt a]) (print_args n (args + 4)))"

text \<open>One frame: its line, its arguments, and where it is in the source. \<^verbatim>\<open>%s\<close> prints the file's name up to the null byte
  and \<^verbatim>\<open>%.*s\<close> at most \<^verbatim>\<open>eip_fn_namelen\<close> characters.\<close>

definition print_frame :: "UserStabData \<Rightarrow> u32 \<Rightarrow> u32 \<Rightarrow> (kstate, unit) op" where
  "print_frame kern ebp eip =
     kthen (kprintf (CHR 0x09 # ''ebp %08x, eip %09x, args '') [VInt ebp, VInt eip])
     (kbind (vload32 (ebp + 8)) (\<lambda>args.
      kthen (print_args 5 args)
     (kthen (kprintf NL [])
     (kbind (debuginfo_eip kern eip) (\<lambda>(r, info).
      if r = 0
      then kbind (debug_string 4294967296 (eip_file info)) (\<lambda>file_name.
           kbind (debug_string (nat (eip_fn_namelen info)) (eip_fn_name info)) (\<lambda>fn_name.
             kprintf (CHR 0x09 # CHR 0x09 # ''%s:%d: %.*s+%d'' @ NL)
               [VStr (Some file_name), VInt (word_of_int (eip_line info)), VInt (word_of_int (eip_fn_namelen info)),
                VStr (Some fn_name), VInt (eip - eip_fn_addr info)]))
      else kret ())))))"

text \<open>The chain of frames; \<open>n\<close> bounds its length, and the machine stays in the loop when it is longer.\<close>

primrec backtrace_loop :: "nat \<Rightarrow> UserStabData \<Rightarrow> u32 \<Rightarrow> u32 \<Rightarrow> (kstate, unit) op" where
  "backtrace_loop 0 kern ebp eip = (\<lambda>s. if ebp = 0 then Ret () s else Gone Halted s)"
| "backtrace_loop (Suc n) kern ebp eip =
     (if ebp = 0 then kret ()
      else kthen (print_frame kern ebp eip)
          (kbind (vload32 ebp) (\<lambda>ebp'. kbind (vload32 (ebp' + 4)) (\<lambda>eip'. backtrace_loop n kern ebp' eip'))))"

definition mon_backtrace :: "nat \<Rightarrow> UserStabData \<Rightarrow> u32 \<Rightarrow> (kstate, int) op" where
  "mon_backtrace n kern ebp =
     kbind (vload32 (ebp + 4)) (\<lambda>eip.
     kthen (kprintf (''Stack backtrace:'' @ NL) [])
     (kthen (backtrace_loop n kern ebp eip) (kret 0)))"

text \<open>The machine as the monitor sees it: the linker's symbols, the debugging tables, the frame pointer, the
  address of the line buffer.\<close>

record monitor_hw =
  mh_syms :: linker_symbols
  mh_kern :: UserStabData
  mh_ebp :: u32
  mh_depth :: nat
  mh_buf :: u32

definition run_command :: "monitor_hw \<Rightarrow> command \<Rightarrow> (kstate, int) op" where
  "run_command hw c = (case c of Help \<Rightarrow> mon_help | Kerninfo \<Rightarrow> mon_kerninfo (mh_syms hw)
     | Backtrace \<Rightarrow> mon_backtrace (mh_depth hw) (mh_kern hw) (mh_ebp hw))"

text \<open>The line is in the buffer, with a null byte behind it; \<^verbatim>\<open>strcmp(argv[0], name) == 0\<close> says that \<^verbatim>\<open>argv[0]\<close> points
  to the string \<open>name\<close>.\<close>

definition line_memory :: "u32 \<Rightarrow> u8 list \<Rightarrow> mem" where
  "line_memory buf line = (\<lambda>a. if unat (a - buf) < length line then line ! unat (a - buf) else 0)"

definition runcmd :: "monitor_hw \<Rightarrow> u8 list \<Rightarrow> (kstate, int) op" where
  "runcmd hw line = (case parse_args (mh_buf hw) [] (line_memory (mh_buf hw) line) of
     None \<Rightarrow> (\<lambda>s. Gone Halted s)
   | Some (None, m) \<Rightarrow> kthen (kprintf (''Too many arguments (max %d)'' @ NL) [VInt 16]) (kret 0)
   | Some (Some argv, m) \<Rightarrow>
       (case argv of [] \<Rightarrow> kret 0
        | arg0 # _ \<Rightarrow> (case find (\<lambda>c. cstring m arg0 (map of_char (command_name c))) commands of
            Some c \<Rightarrow> run_command hw c
          | None \<Rightarrow> kthen (kprintf (''Unknown command '' @ [CHR 0x27] @ ''%s'' @ [CHR 0x27] @ NL)
                [VStr (Some (takeWhile (\<lambda>b. b \<noteq> 0) (map (\<lambda>i. m (arg0 + of_nat i)) [0..<Suc (length line)])))]) (kret 0))))"

text \<open>The console as the device of \<open>readline\<close>: what the devices deliver before each poll, and the kernel's state.\<close>

fun kernel_getc :: "(console \<Rightarrow> console) list \<times> kstate \<Rightarrow> (int \<times> (console \<Rightarrow> console) list \<times> kstate) option" where
  "kernel_getc ([], s) = None"
| "kernel_getc (f # arrivals, s) =
     (case cons_getc (f (con s)) of
        None \<Rightarrow> None
      | Some (c, con') \<Rightarrow> if c = 0 then kernel_getc (arrivals, s\<lparr>con := con'\<rparr>) else Some (c, arrivals, s\<lparr>con := con'\<rparr>))"

definition on_con :: "(console \<Rightarrow> console) \<Rightarrow> 'i \<times> kstate \<Rightarrow> 'i \<times> kstate" where
  "on_con f = (\<lambda>(i, s). (i, s\<lparr>con := f (con s)\<rparr>))"

definition kernel_readline :: "string \<Rightarrow> (console \<Rightarrow> console) list \<times> kstate \<Rightarrow> (u8 list option \<times> (console \<Rightarrow> console) list \<times> kstate) option" where
  "kernel_readline p = readline kernel_getc (\<lambda>c. on_con (cputchar (word_of_int c)))
     (\<lambda>c. on_con (cprintf (''read error: %e'' @ NL) [VInt (word_of_int c)])) (on_con (cprintf ''%s'' [str_arg p])) (iscons 0)"

text \<open>One round of the monitor's loop, the remaining arrivals and whether it goes on. A round that waits for a
  character for ever is \<open>Halted\<close>.\<close>

definition monitor_round :: "monitor_hw \<Rightarrow> (console \<Rightarrow> console) list \<Rightarrow> (kstate, bool \<times> (console \<Rightarrow> console) list) op" where
  "monitor_round hw arrivals s = (case kernel_readline ''K> '' (arrivals, s) of
     None \<Rightarrow> Gone Halted s
   | Some (None, arr, t) \<Rightarrow> Ret (True, arr) t
   | Some (Some line, arr, t) \<Rightarrow> kbind (runcmd hw line) (\<lambda>r. kret (\<not> r < 0, arr)) t)"

text \<open>The monitor for \<open>n\<close> lines; the flag says whether it has returned by then.\<close>

primrec monitor_loop :: "nat \<Rightarrow> monitor_hw \<Rightarrow> (console \<Rightarrow> console) list \<Rightarrow> (kstate, bool) op" where
  "monitor_loop 0 hw arrivals = kret False"
| "monitor_loop (Suc n) hw arrivals =
     kbind (monitor_round hw arrivals) (\<lambda>(go_on, arr). if go_on then monitor_loop n hw arr else kret True)"

definition monitor :: "nat \<Rightarrow> monitor_hw \<Rightarrow> (console \<Rightarrow> console) list \<Rightarrow> (kstate, unit) op \<Rightarrow> (kstate, bool) op" where
  "monitor n hw arrivals print_tf =
     kthen (kprintf (''Welcome to the JOS kernel monitor!'' @ NL) [])
     (kthen (kprintf (''Type '' @ [CHR 0x27] @ ''help'' @ [CHR 0x27] @ '' for a list of commands.'' @ NL) [])
     (kthen print_tf (monitor_loop n hw arrivals)))"

section \<open>A line as a list of words\<close>

definition run_words :: "monitor_hw \<Rightarrow> u8 list list \<Rightarrow> (kstate, int) op" where
  "run_words hw ws =
     (if length ws > 15 then kthen (kprintf (''Too many arguments (max %d)'' @ NL) [VInt 16]) (kret 0)
      else case ws of [] \<Rightarrow> kret 0
        | w # _ \<Rightarrow> (case find (\<lambda>c. w = map of_char (command_name c)) commands of
            Some c \<Rightarrow> run_command hw c
          | None \<Rightarrow> kthen (kprintf (''Unknown command '' @ [CHR 0x27] @ ''%s'' @ [CHR 0x27] @ NL) [VStr (Some w)]) (kret 0)))"

lemma cstring_unique: "cstring m p xs \<Longrightarrow> cstring m p ys \<longleftrightarrow> xs = ys"
proof (induction xs arbitrary: p ys)
  case Nil
  then show ?case by (cases ys) auto
next
  case (Cons x xs)
  then show ?case by (cases ys) auto
qed

lemma cstring_bytes: "cstring m p xs \<Longrightarrow> length xs < n \<Longrightarrow> takeWhile (\<lambda>b. b \<noteq> 0) (map (\<lambda>i. m (p + of_nat i)) [0..<n]) = xs"
proof (induction xs arbitrary: p n)
  case Nil
  then show ?case by (simp add: upt_conv_Cons)
next
  case (Cons x xs)
  obtain k where k: "n = Suc k" using Cons.prems(2) by (cases n) auto
  have "map (\<lambda>i. m (p + of_nat i)) [0..<n] = m p # map (\<lambda>i. m (p + 1 + of_nat i)) [0..<k]"
    unfolding k by (simp add: upt_conv_Cons map_Suc_upt [symmetric] algebra_simps del: upt_Suc)
  then show ?case using Cons.IH [of "p + 1" k] Cons.prems k by simp
qed

lemma words_shorter: "w \<in> set (words s) \<Longrightarrow> length w \<le> length s"
proof (induction s rule: words.induct)
  case (1 s)
  show ?case
  proof (cases "dropWhile is_white s")
    case Nil
    then have "words s = []" by (subst words.simps) (simp only: list.case)
    then show ?thesis using 1(2) by simp
  next
    case (Cons c cs)
    then have W: "words s = plain is_white (c # cs) # words (behind is_white (c # cs))" by (subst words.simps) simp
    have l: "length (c # cs) \<le> length s" using length_dropWhile_le [of is_white s] Cons by simp
    have "length (plain is_white (c # cs)) \<le> length (c # cs)" by (rule length_takeWhile_le)
    moreover have "length (behind is_white (c # cs)) \<le> length (c # cs)" by (rule length_dropWhile_le)
    moreover have "length w \<le> length (behind is_white (c # cs))" if "w \<in> set (words (behind is_white (c # cs)))"
      using 1(1) [OF Cons that] .
    ultimately show ?thesis using 1(2) l unfolding W by auto
  qed
qed

lemma cstring_line_memory:
  assumes "length line < 4294967296" and "0 \<notin> set line"
  shows "cstring (line_memory buf line) buf line"
proof -
  have "unat (of_nat i :: u32) = i" if "i \<le> length line" for i using that assms(1) by (simp add: unat_of_nat take_bit_nat_eq_self)
  then have "line_memory buf line (buf + of_nat i) = line ! i" if "i < length line" for i
    using that by (simp add: line_memory_def)
  moreover have "line_memory buf line (buf + of_nat (length line)) = 0"
    using assms(1) by (simp add: line_memory_def unat_of_nat take_bit_nat_eq_self)
  ultimately show ?thesis using cstring_append [of "line_memory buf line" buf line "[]"] assms(2) nth_mem by fastforce
qed

lemma commands_0: "run_command hw c s = Ret r t \<Longrightarrow> r = 0"
  by (auto simp: run_command_def mon_help_def mon_kerninfo_def mon_backtrace_def kthen_def kbind_eq_Ret split: command.splits)

section \<open>Properties\<close>

text \<open>(C37) The monitor's \<open>runcmd\<close>, which takes the line apart in place and compares strings, does what a dispatcher on
  the list of the line's words does: it refuses more than 15 words, ignores a blank line, runs the command whose
  name is the first word, and reports the first word when there is none.\<close>

theorem runcmd_correct:
  assumes "length line < 4294967296" and "0 \<notin> set line"
  shows "runcmd hw line = run_words hw (words line)"
proof -
  obtain r m where p: "parse_args (mh_buf hw) [] (line_memory (mh_buf hw) line) = Some (r, m)"
    "case r of None \<Rightarrow> length (words line) > 15 | Some av \<Rightarrow> list_all2 (cstring m) av (words line) \<and> length (words line) \<le> 15"
    using parse_args_ok [OF cstring_line_memory [OF assms] assms(1), of "[]" "mh_buf hw"] by (auto split: option.splits)
  show ?thesis
  proof (cases r)
    case None
    then show ?thesis using p by (simp add: runcmd_def run_words_def)
  next
    case (Some av)
    then have l: "list_all2 (cstring m) av (words line)" "length (words line) \<le> 15" using p(2) by simp_all
    show ?thesis
    proof (cases "words line")
      case Nil
      then show ?thesis using p(1) Some l by (simp add: runcmd_def run_words_def)
    next
      case (Cons w ws)
      then obtain a as where av: "av = a # as" "cstring m a w" using l(1) by (auto simp: list_all2_Cons2)
      have "length w \<le> length line" using words_shorter [of w line] Cons by simp
      then have "takeWhile (\<lambda>b. b \<noteq> 0) (map (\<lambda>i. m (a + of_nat i)) [0..<Suc (length line)]) = w"
        using cstring_bytes [OF av(2)] by (simp del: upt_Suc)
      then show ?thesis
        using p(1) Some l(2) Cons av by (simp add: runcmd_def run_words_def cstring_unique [OF av(2)] del: upt_Suc split: option.split)
    qed
  qed
qed

text \<open>No command makes the monitor return: after any number of lines, whatever is typed, its loop is still
  running, has halted in a command, or faulted.\<close>

theorem monitor_never_returns:
  "monitor n hw arrivals print_tf s \<noteq> Ret True t"
proof -
  have r: "runcmd hw line u = Ret r v \<Longrightarrow> r = 0" for line u r v
    by (auto simp: runcmd_def kthen_def kbind_eq_Ret dest: commands_0 split: option.splits list.splits)
  have round: "monitor_round hw arr u = Ret (False, arr') v \<Longrightarrow> False" for arr arr' u v
    by (auto simp: monitor_round_def kbind_eq_Ret dest!: r split: option.splits prod.splits)
  have "monitor_loop n hw arr u \<noteq> Ret True v" for arr u v
  proof (induction n arbitrary: arr u)
    case (Suc n)
    then show ?case using round by (auto simp: kbind_eq_Ret split: prod.splits if_splits)
  qed simp
  then show ?thesis by (auto simp: monitor_def kthen_def kbind_eq_Ret)
qed

definition sample_monitor :: monitor_hw where
  "sample_monitor = \<lparr>mh_syms = \<lparr>sym_start = 0x10000C, sym_entry = 0xF010000C, sym_etext = 0xF0105000, sym_edata = 0xF0110000, sym_end = 0xF0120000\<rparr>,
     mh_kern = \<lparr>usd_stabs = 0, usd_stab_end = 0, usd_stabstr = 0, usd_stabstr_end = 0\<rparr>, mh_ebp = 0, mh_depth = 0, mh_buf = 0xF0118000\<rparr>"

theorem runcmd_correct_witness:
  "runcmd sample_monitor [32, 104, 101, 108, 112, 9, 120] = mon_help"
proof -
  have "words [32, 104, 101, 108, 112, 9, 120] = [[104, 101, 108, 112], [120]]"
    by (simp add: words.simps [of "_ # _"] words.simps [of "[]"] is_white_def)
  then show ?thesis
    using runcmd_correct [of "[32, 104, 101, 108, 112, 9, 120]" sample_monitor]
    by (simp add: run_words_def commands_def command_name_def run_command_def)
qed

end
