(* ===== verification/Spec2Isabelle.thy ===== *)
theory Spec2Isabelle
  imports Vm_Theorems Kernel_Theorems Trap_Theorems Console_Theorems Lib_Theorems Fs_Theorems Pipe Kdebug Fork_Correct
    File_Client_Theorems Pipe_Setup Ipc_Lib Cmd_Line
    Boot_Memory Mp_Config Monitor
begin

text \<open>
  JOS, the operating system of the MIT 6.828 labs (\<^verbatim>\<open>src/lab\<close>): a small exokernel for 32-bit x86
  multiprocessors, a file server that runs as a user environment, and a user library.

  \<^bold>\<open>The program.\<close> The kernel (\<^verbatim>\<open>kern/\<close>) owns physical memory and page tables, a table of
  environments (processes), and the devices of the console. Environments enter it through traps: an
  exception, an interrupt or the system call gate leads to \<^verbatim>\<open>trap\<close>, which takes the kernel lock,
  dispatches, and leaves through \<^verbatim>\<open>env_run\<close> or the scheduler. System calls let an environment map
  pages into itself and its children, create children, and send a word and a page to another
  environment. The file server (\<^verbatim>\<open>fs/\<close>) caches disk blocks by taking page faults on a window
  of its address space and implements files and directories on top. The library (\<^verbatim>\<open>lib/\<close>)
  has string and formatting routines for both sides.

  \<^bold>\<open>Conventions.\<close> Machine integers are words; C's pointers are 32-bit words, or page and slot
  numbers where the code only ever uses array elements. A kernel or server function is a state
  transformer with the three outcomes of \<open>JOS_Prelude\<close>: it returns a value, it panics, or control
  leaves (to a user environment, the idle loop, the monitor, or a wait for the kernel lock). Error
  codes are the negative integers of \<^verbatim>\<open>inc/error.h\<close>. Loops are recursive functions; a device loop that
  ends when the device has nothing more to say has as many rounds as the device has data plus one, and
  the lemmas show that this is enough.

  \<^bold>\<open>The theories and the code they model.\<close>

  \<^item> \<open>JOS_Prelude\<close>, \<open>Resource_Pool\<close>: outcomes and sequencing, word lemmas; the interfaces
    \<open>resource_pool\<close> (interpreted by the page allocator, the environment table and the block bitmap) and
    \<open>byte_fifo\<close> (interpreted by the console buffer and by the pipe).
  \<^item> \<open>Layout\<close>, \<open>Phys_Mem\<close>, \<open>Kernel_State\<close>: \<^verbatim>\<open>inc/mmu.h\<close>, \<^verbatim>\<open>inc/memlayout.h\<close>,
    \<^verbatim>\<open>kern/pmap.h\<close>: address macros, byte memory with 32-bit accesses (interface \<open>word_store\<close>),
    and the record of the whole kernel state.
  \<^item> \<open>Page_Alloc\<close>, \<open>Page_Table\<close>, \<open>Address_Space\<close>, \<open>Vm_Interface\<close>, \<open>User_Mem\<close>, \<open>Vm_Theorems\<close>:
    \<^verbatim>\<open>kern/pmap.c\<close>. \<open>Address_Space\<close> abstracts page tables to a partial function from virtual addresses
    to pages and proves that reference counts are exact; \<open>Vm_Interface\<close> states this as a locale on which the
    system calls rest.
  \<^item> \<open>Spinlock\<close>: \<^verbatim>\<open>kern/spinlock.c\<close>, once as operations of one processor and once as a step
    relation that interleaves the memory accesses of any number of processors.
  \<^item> \<open>Environment\<close>, \<open>Env_Table\<close>, \<open>Env_Space\<close>, \<open>Kernel_Inv\<close>: \<^verbatim>\<open>kern/env.c\<close>, its free list, the
    address spaces of all environments together, and the kernel invariant \<open>kernel_ok\<close>.
  \<^item> \<open>Kernel_Space\<close>, \<open>Boot_Memory\<close>: \<open>mem_init\<close> of \<^verbatim>\<open>kern/pmap.c\<close>; the kernel's own address space (\<open>kvm_ok\<close>,
    \<open>kernel_map\<close>) and the proof that the kernel invariant holds when memory and environments are set up.
  \<^item> \<open>Mp_Config\<close>: \<^verbatim>\<open>kern/mpconfig.c\<close>, the search for the BIOS tables of the processors and the loop over their
    entries, against a function on the list of entries.
  \<^item> \<open>Sched\<close>, \<open>Syscall\<close>, \<open>Syscall_Safe\<close>, \<open>Syscall_Inv\<close>, \<open>Kernel_Theorems\<close>: \<^verbatim>\<open>kern/sched.c\<close> and
    \<^verbatim>\<open>kern/syscall.c\<close>; every call keeps the invariant and does what it promises.
  \<^item> \<open>Trap\<close>, \<open>Trap_Theorems\<close>: \<^verbatim>\<open>kern/trap.c\<close>, the vectors of \<^verbatim>\<open>kern/trapentry.S\<close>, the
    descriptors of \<^verbatim>\<open>inc/mmu.h\<close>; the invariant across a whole trap.
  \<^item> \<open>Console\<close>, \<open>Console_Theorems\<close>: \<^verbatim>\<open>kern/console.c\<close>, \<^verbatim>\<open>kern/picirq.c\<close>, \<^verbatim>\<open>kern/printf.c\<close>.
  \<^item> \<open>Printfmt\<close>, \<open>Lib_String\<close>, \<open>Lib_Theorems\<close>: \<^verbatim>\<open>lib/printfmt.c\<close>, \<^verbatim>\<open>lib/printf.c\<close>,
    \<^verbatim>\<open>lib/fprintf.c\<close>, \<^verbatim>\<open>lib/string.c\<close>.
  \<^item> \<open>Block_Cache\<close>, \<open>Fs\<close>, \<open>Fs_Bitmap\<close>, \<open>Fs_File\<close>, \<open>Fs_Read_Write\<close>, \<open>Fs_Truncate\<close>, \<open>Fs_Theorems\<close>:
    \<^verbatim>\<open>fs/ide.c\<close>, \<^verbatim>\<open>fs/bc.c\<close>, \<^verbatim>\<open>fs/fs.c\<close>. \<open>view\<close> is the content a client sees through the cache; \<open>mounted\<close> is the
    invariant of the cache and bitmap; \<open>file_ok\<close> is the shape of a file's block pointers, over which a file is
    a function from offsets to bytes that reading, writing and truncation change as promised.
  \<^item> \<open>Serv\<close>, \<open>Serv_Theorems\<close>: \<^verbatim>\<open>fs/serv.c\<close>, the table of open files and the requests. \<open>opened\<close> is the set
    of identifiers that the server accepts; \<open>table_ok\<close> is the invariant of the table.
  \<^item> \<open>File_Client\<close>, \<open>File_Client_Theorems\<close>: \<^verbatim>\<open>lib/file.c\<close> and the descriptors of \<^verbatim>\<open>lib/fd.c\<close> that
    refer to files, for any number of clients of one server; \<open>desc_ok\<close> ties the clients' descriptor tables to the
    reference counts from which the server knows which files are open.
  \<^item> \<open>Kdebug\<close>: \<^verbatim>\<open>kern/kdebug.c\<close>, the binary search over debugging symbols and the lookup of an address.
  \<^item> \<open>User_Lib\<close>: \<^verbatim>\<open>lib/syscall.c\<close> and memory as a program sees it: the stubs over the kernel's
    dispatcher, the page tables at \<^verbatim>\<open>UVPT\<close>, loads and stores with the rights of user mode. \<open>umem\<close> is what an
    environment reads at an address.
  \<^item> \<open>Fork\<close>, \<open>Fork_Calls\<close>, \<open>Fork_Theorems\<close>, \<open>Fork_Copy\<close>, \<open>Fork_Correct\<close>: \<^verbatim>\<open>lib/fork.c\<close> and
    \<^verbatim>\<open>lib/pgfault.c\<close> on top of them; the system calls as a program uses them, the page-fault handler, the copying
    loop and \<open>fork\<close> as a whole.
  \<^item> \<open>Pipe\<close>: \<^verbatim>\<open>lib/pipe.c\<close>, one memory access at a time, with every interleaving of a reader and a writer.
  \<^item> \<open>Fd_Layer\<close>, \<open>User_Console\<close>, \<open>User_Pipe\<close>: \<^verbatim>\<open>lib/fd.c\<close>, \<^verbatim>\<open>lib/pageref.c\<close>, \<^verbatim>\<open>lib/console.c\<close> and
    \<^verbatim>\<open>lib/pipe.c\<close> as programs on the kernel state: descriptors are pages below \<^verbatim>\<open>0xD0200000\<close>, a device is a
    record of operations. \<open>User_Space\<close> is a calculus of what a program's calls change of its memory;
    \<open>Fd_Theorems\<close> and \<open>Pipe_Setup\<close> use it for \<open>close\<close>, \<open>dup\<close> (over the interface \<open>closing_device\<close>) and \<open>pipe\<close>.
  \<^item> \<open>Ipc_Lib\<close>: \<^verbatim>\<open>lib/ipc.c\<close>, \<^verbatim>\<open>lib/wait.c\<close>, \<^verbatim>\<open>lib/exit.c\<close>, \<^verbatim>\<open>lib/libmain.c\<close>, with the way of a message
    from the sender's call to the receiver's return.
  \<^item> \<open>Readline\<close>, \<open>Monitor\<close>: \<^verbatim>\<open>lib/readline.c\<close> over any device, and the monitor of \<^verbatim>\<open>kern/monitor.c\<close> with its
    commands; \<open>run_words\<close> is the dispatcher on words that \<open>runcmd\<close> implements.
  \<^item> \<open>Cmd_Line\<close>: \<^verbatim>\<open>lib/args.c\<close>, the tokenizer of \<^verbatim>\<open>kern/monitor.c\<close> and that of \<^verbatim>\<open>user/sh.c\<close>, each against
    a function on lists.
  \<^item> \<open>Sample_State\<close>, \<open>Sample_Kernel\<close>, \<open>Sample_User\<close>: concrete states that satisfy the invariants, for the witnesses.

  \<^bold>\<open>Bounds.\<close> Page faults of the file server may nest eight deep (the size of the exception stack); the
  proofs show that three suffice. The kernel's reference counts have 16 bits, and the theorems that
  add references assume that no count is at its maximum.

  \<^bold>\<open>Not modelled.\<close> Assembly and boot code (\<^verbatim>\<open>boot/\<close>, \<^verbatim>\<open>kern/entry.S\<close>, \<^verbatim>\<open>kern/mpentry.S\<close>), the
  constant boot page table \<^verbatim>\<open>kern/entrypgdir.c\<close>, the start of the other processors (\<^verbatim>\<open>kern/init.c\<close>, the
  rest of \<^verbatim>\<open>kern/lapic.c\<close>), the self tests \<^verbatim>\<open>check_*\<close> of \<^verbatim>\<open>kern/pmap.c\<close>, \<^verbatim>\<open>lib/spawn.c\<close>, and the test
  programs of \<^verbatim>\<open>user/\<close>.
\<close>

end
